(* ===== verification/Prelude.thy ===== *)
theory Prelude
  imports Main "HOL-Library.Word"
begin

text \<open>
  Shared vocabulary of the development.

  \<^item> Results: Rust's \<open>Result<T, E>\<close> is the sum \<open>'e + 'a\<close> (\<open>Inl\<close> the error); \<open>res_bind\<close> is the
    \<open>?\<close> operator, \<open>map_err\<close> the method of that name.
  \<^item> Procedures: a method that takes \<open>&mut self\<close> and may fail or panic is a function
    \<open>'s \<Rightarrow> ('e + 'a) \<times> 's\<close>; \<open>st_bind\<close> sequences two of them, and the state reached before an
    error is kept, as it is in Rust.
  \<^item> Reasoning: \<open>valid P m Q E\<close> is the triple with a normal and an error postcondition, and the
    locale \<open>run_preorder\<close> gives, for a reflexive and transitive relation, that a composed
    procedure relates its first to its last state when its parts do.
  \<^item> Machine integers: a 64-bit unsigned value whose arithmetic is checked in the source is a
    \<open>nat\<close> with the bound \<open>u64_bound\<close> written out in \<open>checked_add_u64\<close>; counters with wrapping
    arithmetic are 64-bit words.
\<close>

named_theorems proc_simps \<open>unfolding of the procedure combinators\<close>
named_theorems valid_rules \<open>triples of the procedure combinators\<close>

section \<open>Results\<close>

definition res_bind :: "'e + 'a \<Rightarrow> ('a \<Rightarrow> 'e + 'b) \<Rightarrow> 'e + 'b" where
  "res_bind r f = (case r of Inl e \<Rightarrow> Inl e | Inr a \<Rightarrow> f a)"

definition map_err :: "('e \<Rightarrow> 'f) \<Rightarrow> 'e + 'a \<Rightarrow> 'f + 'a" where
  "map_err g r = (case r of Inl e \<Rightarrow> Inl (g e) | Inr a \<Rightarrow> Inr a)"

definition map_ok :: "('a \<Rightarrow> 'b) \<Rightarrow> 'e + 'a \<Rightarrow> 'e + 'b" where
  "map_ok g r = (case r of Inl e \<Rightarrow> Inl e | Inr a \<Rightarrow> Inr (g a))"

definition ok_or :: "'a option \<Rightarrow> 'e \<Rightarrow> 'e + 'a" where
  "ok_or x e = (case x of None \<Rightarrow> Inl e | Some a \<Rightarrow> Inr a)"

lemma res_bind_simps [simp]:
  "res_bind (Inl e) f = Inl e" "res_bind (Inr a) f = f a"
  by (simp_all add: res_bind_def)

lemma res_bind_Inr_iff: "res_bind r f = Inr b \<longleftrightarrow> (\<exists>a. r = Inr a \<and> f a = Inr b)"
  by (cases r) auto

lemma res_bind_Inl_iff: "res_bind r f = Inl e \<longleftrightarrow> r = Inl e \<or> (\<exists>a. r = Inr a \<and> f a = Inl e)"
  by (cases r) auto

lemma map_err_simps [simp]:
  "map_err g (Inl e) = Inl (g e)" "map_err g (Inr a) = Inr a"
  by (simp_all add: map_err_def)

lemma map_err_Inr_iff [simp]: "map_err g r = Inr a \<longleftrightarrow> r = Inr a"
  by (cases r) auto

lemma map_err_Inl_iff: "map_err g r = Inl f \<longleftrightarrow> (\<exists>e. r = Inl e \<and> f = g e)"
  by (cases r) auto

lemma map_ok_simps [simp]:
  "map_ok g (Inl e) = Inl e" "map_ok g (Inr a) = Inr (g a)"
  by (simp_all add: map_ok_def)

lemma map_ok_Inr_iff: "map_ok g r = Inr b \<longleftrightarrow> (\<exists>a. r = Inr a \<and> b = g a)"
  by (cases r) auto

lemma ok_or_simps [simp]: "ok_or None e = Inl e" "ok_or (Some a) e = Inr a"
  by (simp_all add: ok_or_def)

lemma ok_or_Inr_iff [simp]: "ok_or x e = Inr a \<longleftrightarrow> x = Some a"
  by (cases x) auto

section \<open>Procedures\<close>

type_synonym ('s, 'e, 'a) proc = "'s \<Rightarrow> ('e + 'a) \<times> 's"

definition st_return :: "'a \<Rightarrow> ('s, 'e, 'a) proc" where
  "st_return a = (\<lambda>s. (Inr a, s))"

definition st_fail :: "'e \<Rightarrow> ('s, 'e, 'a) proc" where
  "st_fail e = (\<lambda>s. (Inl e, s))"

definition st_bind :: "('s, 'e, 'a) proc \<Rightarrow> ('a \<Rightarrow> ('s, 'e, 'b) proc) \<Rightarrow> ('s, 'e, 'b) proc" where
  "st_bind m f = (\<lambda>s. case m s of (Inl e, s') \<Rightarrow> (Inl e, s') | (Inr a, s') \<Rightarrow> f a s')"

definition st_read :: "('s \<Rightarrow> 'e + 'a) \<Rightarrow> ('s, 'e, 'a) proc" where
  "st_read r = (\<lambda>s. (r s, s))"

definition st_gets :: "('s \<Rightarrow> 'a) \<Rightarrow> ('s, 'e, 'a) proc" where
  "st_gets g = (\<lambda>s. (Inr (g s), s))"

definition st_modify :: "('s \<Rightarrow> 's) \<Rightarrow> ('s, 'e, unit) proc" where
  "st_modify h = (\<lambda>s. (Inr (), h s))"

lemmas st_defs = st_return_def st_fail_def st_bind_def st_read_def st_gets_def st_modify_def

lemma st_apply [simp, proc_simps]:
  "st_return a s = (Inr a, s)" "st_fail e s = (Inl e, s)" "st_read r s = (r s, s)"
  "st_gets g s = (Inr (g s), s)" "st_modify h s = (Inr (), h s)"
  by (simp_all add: st_defs)

lemma st_bind_Inl [simp]: "m s = (Inl e, s') \<Longrightarrow> st_bind m f s = (Inl e, s')"
  by (simp add: st_bind_def)

lemma st_bind_Inr [simp]: "m s = (Inr a, s') \<Longrightarrow> st_bind m f s = f a s'"
  by (simp add: st_bind_def)

lemma st_bind_simps [simp]:
  "st_bind (st_return a) f s = f a s"
  "st_bind (st_fail e) g s = (Inl e, s)"
  "st_bind (st_gets h) f s = f (h s) s"
  "st_bind (st_modify k) u s = u () (k s)"
  by (simp_all add: st_bind_def)

lemma st_bind_read [simp]:
  "st_bind (st_read r) f s = (case r s of Inl e \<Rightarrow> (Inl e, s) | Inr a \<Rightarrow> f a s)"
  by (simp add: st_bind_def split: sum.splits)

lemma st_bind_InrE:
  assumes "st_bind m f s = (Inr b, s'')"
  obtains a s' where "m s = (Inr a, s')" and "f a s' = (Inr b, s'')"
  using assms by (auto simp: st_bind_def split: prod.splits sum.splits)

lemma st_bind_cases:
  assumes "st_bind m f s = (r, s'')"
  obtains (error) e where "m s = (Inl e, s'')" and "r = Inl e"
    | (ok) a s' where "m s = (Inr a, s')" and "f a s' = (r, s'')"
  using assms by (auto simp: st_bind_def split: prod.splits sum.splits)

subsection \<open>Triples\<close>

definition valid ::
  "('s \<Rightarrow> bool) \<Rightarrow> ('s, 'e, 'a) proc \<Rightarrow> ('a \<Rightarrow> 's \<Rightarrow> bool) \<Rightarrow> ('e \<Rightarrow> 's \<Rightarrow> bool) \<Rightarrow> bool" where
  "valid P m Q E \<longleftrightarrow>
     (\<forall>s. P s \<longrightarrow> (case m s of (Inl e, s') \<Rightarrow> E e s' | (Inr a, s') \<Rightarrow> Q a s'))"

lemma validI:
  assumes "\<And>s a s'. P s \<Longrightarrow> m s = (Inr a, s') \<Longrightarrow> Q a s'"
    and "\<And>s e s'. P s \<Longrightarrow> m s = (Inl e, s') \<Longrightarrow> E e s'"
  shows "valid P m Q E"
  using assms by (auto simp: valid_def split: prod.splits sum.splits)

lemma validD_ok: "valid P m Q E \<Longrightarrow> P s \<Longrightarrow> m s = (Inr a, s') \<Longrightarrow> Q a s'"
  by (auto simp: valid_def split: prod.splits sum.splits)

lemma validD_err: "valid P m Q E \<Longrightarrow> P s \<Longrightarrow> m s = (Inl e, s') \<Longrightarrow> E e s'"
  by (auto simp: valid_def split: prod.splits sum.splits)

lemma valid_bind [valid_rules]:
  assumes "valid P m R E" and "\<And>a. valid (R a) (f a) Q E"
  shows "valid P (st_bind m f) Q E"
proof (rule validI)
  fix s b s'' assume "P s" "st_bind m f s = (Inr b, s'')"
  then show "Q b s''"
    by (auto elim!: st_bind_InrE dest: validD_ok[OF assms(1)] intro: validD_ok[OF assms(2)])
next
  fix s e s'' assume P: "P s" and "st_bind m f s = (Inl e, s'')"
  from this(2) show "E e s''"
  proof (cases rule: st_bind_cases)
    case (error e')
    with P validD_err[OF assms(1)] show ?thesis by simp
  next
    case (ok a s')
    with P validD_ok[OF assms(1)] validD_err[OF assms(2)] show ?thesis by blast
  qed
qed

lemma valid_pre: "valid P' m Q E \<Longrightarrow> (\<And>s. P s \<Longrightarrow> P' s) \<Longrightarrow> valid P m Q E"
  by (auto simp: valid_def)

section \<open>Relations kept by every run\<close>

definition run_rel :: "('s \<Rightarrow> 's \<Rightarrow> bool) \<Rightarrow> ('s, 'e, 'a) proc \<Rightarrow> bool" where
  "run_rel R m \<longleftrightarrow> (\<forall>s. R s (snd (m s)))"

lemma run_relI: "(\<And>s r s'. m s = (r, s') \<Longrightarrow> R s s') \<Longrightarrow> run_rel R m"
  by (auto simp: run_rel_def) (metis prod.collapse)

lemma run_relD: "run_rel R m \<Longrightarrow> m s = (r, s') \<Longrightarrow> R s s'"
  unfolding run_rel_def by (metis snd_conv)

locale run_preorder =
  fixes R :: "'s \<Rightarrow> 's \<Rightarrow> bool"
  assumes refl: "R s s"
    and trans: "R s t \<Longrightarrow> R t u \<Longrightarrow> R s u"
begin

lemma run_return: "run_rel R (st_return a)"
  by (simp add: run_rel_def refl)

lemma run_fail: "run_rel R (st_fail e)"
  by (simp add: run_rel_def refl)

lemma run_read: "run_rel R (st_read r)"
  by (simp add: run_rel_def refl)

lemma run_gets: "run_rel R (st_gets r)"
  by (simp add: run_rel_def refl)

lemma run_modify: "(\<And>s. R s (h s)) \<Longrightarrow> run_rel R (st_modify h)"
  by (simp add: run_rel_def)

lemma run_bind:
  assumes "run_rel R m" and "\<And>a. run_rel R (f a)"
  shows "run_rel R (st_bind m f)"
proof (rule run_relI)
  fix s r s'' assume "st_bind m f s = (r, s'')"
  then show "R s s''"
  proof (cases rule: st_bind_cases)
    case (error e)
    show ?thesis using run_relD[OF assms(1) error(1)] .
  next
    case (ok a s')
    show ?thesis
      by (rule trans[OF run_relD[OF assms(1) ok(1)] run_relD[OF assms(2) ok(2)]])
  qed
qed

lemma run_if: "run_rel R m \<Longrightarrow> run_rel R m' \<Longrightarrow> run_rel R (if b then m else m')"
  by simp

lemmas run_intros = run_return run_fail run_read run_gets run_bind run_if

end

section \<open>Checked 64-bit arithmetic\<close>

type_synonym u64 = nat

definition u64_bound :: nat where
  "u64_bound = 2 ^ 64"

definition is_u64 :: "nat \<Rightarrow> bool" where
  "is_u64 n \<longleftrightarrow> n < u64_bound"

lemma u64_bound_pos [simp]: "0 < u64_bound"
  by (simp add: u64_bound_def)

lemma is_u64_0 [simp]: "is_u64 0"
  by (simp add: is_u64_def)

lemma is_u64_max [simp]: "is_u64 (max a b) \<longleftrightarrow> is_u64 a \<and> is_u64 b"
  by (auto simp: is_u64_def)

lemma is_u64_le: "is_u64 b \<Longrightarrow> a \<le> b \<Longrightarrow> is_u64 a"
  by (auto simp: is_u64_def)

end
