(* ===== verification/Types.thy ===== *)
theory Types
  imports Prelude
begin

text \<open>
  The foundation types of \<open>crates/common\<close>: the checked 64-bit identifiers
  (\<open>LogIndex\<close>, \<open>Term\<close>, \<open>SequenceId\<close>), node identities and their decimal text form, the error
  hierarchy with its conversions, and the protobuf messages of the Raft service.

  An error message is kept up to the values formatted into it: the constructor and the fixed
  text are the source's, the interpolated numbers are left out.
\<close>

section \<open>Errors\<close>

datatype arithmetic_error = Overflow string | Underflow string

datatype log_storage_error =
    LPersistence string
  | LSerialization string
  | LDeserialization string
  | LInvariant string
  | LArithmetic arithmetic_error

datatype fsm_error =
    FPersistence string
  | FSerialization string
  | FDeserialization string
  | FInvariant string
  | FArithmetic arithmetic_error
  | FPoisoned

datatype parse_int_error = IntEmpty | InvalidDigit | PosOverflow

datatype identity_error =
    InvalidNodeIdFormat string parse_int_error
  | ReservedNodeId
  | EmptyClusterId
  | InvalidClusterId string
  | InvalidClientId string
  | InvalidTraceId string

datatype node_error =
    Physical string
  | NotLeader "nat option"
  | Protocol string
  | Integrity string
  | Arithmetic arithmetic_error

fun is_fatal :: "node_error \<Rightarrow> bool" where
  "is_fatal (Protocol _) = True"
| "is_fatal (Integrity _) = True"
| "is_fatal (Arithmetic _) = True"
| "is_fatal _ = False"

fun node_error_of_storage :: "log_storage_error \<Rightarrow> node_error" where
  "node_error_of_storage (LPersistence m) = Physical m"
| "node_error_of_storage (LSerialization m) = Integrity m"
| "node_error_of_storage (LDeserialization m) = Integrity m"
| "node_error_of_storage (LInvariant m) = Protocol m"
| "node_error_of_storage (LArithmetic e) = Arithmetic e"

fun node_error_of_fsm :: "fsm_error \<Rightarrow> node_error" where
  "node_error_of_fsm (FPersistence m) = Physical m"
| "node_error_of_fsm (FSerialization m) = Integrity m"
| "node_error_of_fsm (FDeserialization m) = Integrity m"
| "node_error_of_fsm (FInvariant m) = Protocol m"
| "node_error_of_fsm (FArithmetic e) = Arithmetic e"
| "node_error_of_fsm FPoisoned = Protocol ''State machine is poisoned''"

datatype consensus_error =
    CNotLeader
  | LeaderUnknown
  | CommitTimeout nat
  | CTimeout
  | CPoisoned
  | CInternal string
  | Terminated

section \<open>Checked identifiers\<close>

type_synonym log_index = u64
type_synonym raft_term = u64
type_synonym sequence_id = u64
type_synonym node_id = u64

definition checked_add_u64 :: "string \<Rightarrow> u64 \<Rightarrow> u64 \<Rightarrow> arithmetic_error + u64" where
  "checked_add_u64 type_name a b = (if a + b < u64_bound then Inr (a + b) else Inl (Overflow type_name))"

definition log_index_add :: "log_index \<Rightarrow> u64 \<Rightarrow> arithmetic_error + log_index" where
  "log_index_add = checked_add_u64 ''LogIndex''"

definition term_add :: "raft_term \<Rightarrow> u64 \<Rightarrow> arithmetic_error + raft_term" where
  "term_add = checked_add_u64 ''Term''"

definition sequence_id_add :: "sequence_id \<Rightarrow> u64 \<Rightarrow> arithmetic_error + sequence_id" where
  "sequence_id_add = checked_add_u64 ''SequenceId''"

definition log_index_sub :: "log_index \<Rightarrow> u64 \<Rightarrow> arithmetic_error + log_index" where
  "log_index_sub a b = (if b \<le> a then Inr (a - b) else Inl (Underflow ''LogIndex''))"

lemma checked_add_Inr_iff [simp]:
  "checked_add_u64 n a b = Inr c \<longleftrightarrow> c = a + b \<and> is_u64 c"
  by (auto simp: checked_add_u64_def is_u64_def)

lemma term_add_Inr_iff [simp]: "term_add a b = Inr c \<longleftrightarrow> c = a + b \<and> is_u64 c"
  by (simp add: term_add_def)

lemma log_index_add_Inr_iff [simp]: "log_index_add a b = Inr c \<longleftrightarrow> c = a + b \<and> is_u64 c"
  by (simp add: log_index_add_def)

lemma add_in_range [simp]:
  "is_u64 (a + b) \<Longrightarrow> log_index_add a b = Inr (a + b)"
  "is_u64 (a + b) \<Longrightarrow> term_add a b = Inr (a + b)"
  "is_u64 (a + b) \<Longrightarrow> sequence_id_add a b = Inr (a + b)"
  by (simp_all add: log_index_add_def term_add_def sequence_id_add_def)

lemma log_index_sub_Inr_iff [simp]: "log_index_sub a b = Inr c \<longleftrightarrow> a = b + c"
  by (auto simp: log_index_sub_def)

section \<open>Node identifiers\<close>

definition node_id_try_new :: "u64 \<Rightarrow> identity_error + node_id" where
  "node_id_try_new n = (if n = 0 then Inl ReservedNodeId else Inr n)"

definition valid_node_id :: "node_id \<Rightarrow> bool" where
  "valid_node_id n \<longleftrightarrow> 0 < n \<and> is_u64 n"

definition digit_char :: "nat \<Rightarrow> char" where
  "digit_char d = char_of (48 + d)"

definition digit_val :: "char \<Rightarrow> nat option" where
  "digit_val c = (let k = (of_char c :: nat) in if 48 \<le> k \<and> k \<le> 57 then Some (k - 48) else None)"

fun node_id_to_string :: "node_id \<Rightarrow> string" where
  "node_id_to_string n =
     (if n < 10 then [digit_char n] else node_id_to_string (n div 10) @ [digit_char (n mod 10)])"

declare node_id_to_string.simps [simp del]

fun parse_digits :: "u64 \<Rightarrow> string \<Rightarrow> parse_int_error + u64" where
  "parse_digits acc [] = Inr acc"
| "parse_digits acc (c # cs) =
     (case digit_val c of
        None \<Rightarrow> Inl InvalidDigit
      | Some d \<Rightarrow>
          if 10 * acc \<ge> u64_bound then Inl PosOverflow
          else if 10 * acc + d \<ge> u64_bound then Inl PosOverflow
          else parse_digits (10 * acc + d) cs)"

definition parse_u64 :: "string \<Rightarrow> parse_int_error + u64" where
  "parse_u64 s =
     (if s = [] then Inl IntEmpty
      else if s = ''+'' \<or> s = ''-'' then Inl InvalidDigit
      else if hd s = CHR ''+'' then parse_digits 0 (tl s)
      else parse_digits 0 s)"

definition node_id_from_str :: "string \<Rightarrow> identity_error + node_id" where
  "node_id_from_str s =
     res_bind (map_err (InvalidNodeIdFormat s) (parse_u64 s)) node_id_try_new"

record node_identity =
  cluster_id :: string
  node_id :: node_id

lemma digit_val_digit_char [simp]: "d < 10 \<Longrightarrow> digit_val (digit_char d) = Some d"
  by (simp add: digit_val_def digit_char_def Let_def of_char_of)

lemma digit_char_not_sign [simp]:
  "d < 10 \<Longrightarrow> digit_char d \<noteq> CHR ''+''" "d < 10 \<Longrightarrow> digit_char d \<noteq> CHR ''-''"
proof -
  assume d: "d < 10"
  have "digit_val (CHR ''+'') = None" "digit_val (CHR ''-'') = None"
    by (simp_all add: digit_val_def Let_def)
  with digit_val_digit_char[OF d]
  show "digit_char d \<noteq> CHR ''+''" "digit_char d \<noteq> CHR ''-''" by (metis option.distinct(1))+
qed

lemma parse_digits_append:
  "parse_digits acc (xs @ [c]) = res_bind (parse_digits acc xs) (\<lambda>a. parse_digits a [c])"
  by (induction acc xs rule: parse_digits.induct) (auto split: option.splits)

lemma parse_digits_to_string:
  "is_u64 n \<Longrightarrow> parse_digits 0 (node_id_to_string n) = Inr n"
proof (induction n rule: node_id_to_string.induct)
  case (1 n)
  show ?case
  proof (cases "n < 10")
    case True
    then show ?thesis
      by (subst node_id_to_string.simps) (simp add: u64_bound_def)
  next
    case False
    then have "is_u64 (n div 10)" using 1 by (auto intro: is_u64_le)
    with 1 False have "parse_digits 0 (node_id_to_string (n div 10)) = Inr (n div 10)" by simp
    moreover have "10 * (n div 10) + n mod 10 = n" by simp
    moreover have "n < u64_bound" using 1 by (simp add: is_u64_def)
    ultimately show ?thesis using False
      by (subst node_id_to_string.simps) (simp add: parse_digits_append)
  qed
qed

lemma hd_node_id_to_string: "\<exists>d < 10. \<exists>cs. node_id_to_string n = digit_char d # cs"
proof (induction n rule: node_id_to_string.induct)
  case (1 n)
  then show ?case
    by (cases "n < 10"; subst node_id_to_string.simps) auto
qed

lemma node_id_to_string_nonempty [simp]: "node_id_to_string n \<noteq> []"
  using hd_node_id_to_string[of n] by auto

lemma parse_u64_to_string: "is_u64 n \<Longrightarrow> parse_u64 (node_id_to_string n) = Inr n"
  using hd_node_id_to_string[of n] parse_digits_to_string[of n]
  by (auto simp: parse_u64_def dest: digit_char_not_sign[THEN not_sym] simp del: digit_char_not_sign)

lemma node_id_from_str_to_string [simp]:
  "valid_node_id n \<Longrightarrow> node_id_from_str (node_id_to_string n) = Inr n"
  by (simp add: node_id_from_str_def parse_u64_to_string valid_node_id_def node_id_try_new_def)

lemma node_id_to_string_inject [simp]:
  "valid_node_id n \<Longrightarrow> valid_node_id m \<Longrightarrow> node_id_to_string n = node_id_to_string m \<longleftrightarrow> n = m"
  using node_id_from_str_to_string by (metis sum.inject(2))

lemma parse_digits_bound: "parse_digits acc s = Inr n \<Longrightarrow> is_u64 acc \<Longrightarrow> is_u64 n"
  by (induction acc s rule: parse_digits.induct)
    (auto split: option.splits if_splits simp: is_u64_def)

lemma node_id_from_str_valid: "node_id_from_str s = Inr n \<Longrightarrow> valid_node_id n"
  by (auto simp: node_id_from_str_def res_bind_Inr_iff parse_u64_def node_id_try_new_def
      valid_node_id_def split: if_splits dest: parse_digits_bound)

section \<open>Messages of the Raft service\<close>

type_synonym bytes = "8 word list"

record log_entry =
  e_index :: u64
  e_term :: u64
  e_data :: bytes

definition new_log_entry :: "log_index \<Rightarrow> raft_term \<Rightarrow> bytes \<Rightarrow> log_entry" where
  "new_log_entry i t d = \<lparr>e_index = i, e_term = t, e_data = d\<rparr>"

record request_vote_request =
  rv_term :: u64
  rv_candidate_id :: string
  rv_last_log_index :: u64
  rv_last_log_term :: u64

definition new_request_vote_request ::
  "raft_term \<Rightarrow> node_id \<Rightarrow> log_index \<Rightarrow> raft_term \<Rightarrow> request_vote_request" where
  "new_request_vote_request t c i lt =
     \<lparr>rv_term = t, rv_candidate_id = node_id_to_string c, rv_last_log_index = i, rv_last_log_term = lt\<rparr>"

record request_vote_response =
  rvr_term :: u64
  rvr_vote_granted :: bool

record append_entries_request =
  ae_term :: u64
  ae_leader_id :: string
  ae_prev_log_index :: u64
  ae_prev_log_term :: u64
  ae_entries :: "log_entry list"
  ae_leader_commit :: u64

definition new_append_entries_request ::
  "raft_term \<Rightarrow> node_id \<Rightarrow> log_index \<Rightarrow> raft_term \<Rightarrow> log_entry list \<Rightarrow> log_index \<Rightarrow> append_entries_request" where
  "new_append_entries_request t l pi pt es lc =
     \<lparr>ae_term = t, ae_leader_id = node_id_to_string l, ae_prev_log_index = pi, ae_prev_log_term = pt,
      ae_entries = es, ae_leader_commit = lc\<rparr>"

record append_entries_response =
  aer_term :: u64
  aer_success :: bool
  aer_last_log_index :: u64

record install_snapshot_request =
  is_term :: u64
  is_leader_id :: string
  is_last_included_index :: u64
  is_last_included_term :: u64
  is_data :: bytes

definition new_install_snapshot_request ::
  "raft_term \<Rightarrow> node_id \<Rightarrow> log_index \<Rightarrow> raft_term \<Rightarrow> bytes \<Rightarrow> install_snapshot_request" where
  "new_install_snapshot_request t l i it dat =
     \<lparr>is_term = t, is_leader_id = node_id_to_string l, is_last_included_index = i,
      is_last_included_term = it, is_data = dat\<rparr>"

record hard_state =
  hs_term :: u64
  hs_vote :: string

definition new_hard_state :: "raft_term \<Rightarrow> node_id option \<Rightarrow> hard_state" where
  "new_hard_state t v =
     \<lparr>hs_term = t, hs_vote = (case v of None \<Rightarrow> '''' | Some n \<Rightarrow> node_id_to_string n)\<rparr>"

end
