(* ===== verification/Sled_Tree.thy ===== *)
theory Sled_Tree
  imports Prelude
begin

text \<open>
  The ordered key/value trees the storage and state-machine crates keep their data in.

  The database engine is a third-party crate. What the sources rely on is its documented contract,
  an ordered map: \<open>get\<close>, \<open>insert\<close>, \<open>remove\<close>, \<open>last\<close>, an inclusive \<open>range\<close> in key order and
  atomic batches. The contract is the locale \<open>ordered_tree\<close>, its consequences for batches are proved
  inside it, and it is interpreted on strictly sorted association lists, which is the data
  the records of the storage theories hold. Input/output failures of the engine are not part of the
  contract: the records that own a tree carry them as an environment parameter.
\<close>

section \<open>Contract\<close>

datatype ('k, 'v) batch_op = BInsert 'k 'v | BRemove 'k

fun op_effect :: "('k, 'v) batch_op \<Rightarrow> ('k \<rightharpoonup> 'v) \<Rightarrow> ('k \<rightharpoonup> 'v)" where
  "op_effect (BInsert k v) m = m(k \<mapsto> v)"
| "op_effect (BRemove k) m = m(k := None)"

definition batch_effect :: "('k, 'v) batch_op list \<Rightarrow> ('k \<rightharpoonup> 'v) \<Rightarrow> ('k \<rightharpoonup> 'v)" where
  "batch_effect ops m = fold op_effect ops m"

lemma batch_effect_remove:
  "batch_effect (map BRemove ks) m = (\<lambda>k. if k \<in> set ks then None else m k)"
  by (induction ks arbitrary: m) (auto simp: batch_effect_def fun_eq_iff)

lemma batch_effect_insert:
  "batch_effect (map (\<lambda>x. BInsert (f x) x) xs) m = m ++ map_of (rev (map (\<lambda>x. (f x, x)) xs))"
  by (induction xs arbitrary: m)
    (auto simp: batch_effect_def map_add_def fun_eq_iff map_of_append split: option.splits)

locale ordered_tree =
  fixes get :: "'t \<Rightarrow> 'k::linorder \<Rightarrow> 'v option"
    and insert :: "'k \<Rightarrow> 'v \<Rightarrow> 't \<Rightarrow> 't"
    and remove :: "'k \<Rightarrow> 't \<Rightarrow> 't"
    and last :: "'t \<Rightarrow> ('k \<times> 'v) option"
    and range :: "'k \<Rightarrow> 'k \<Rightarrow> 't \<Rightarrow> ('k \<times> 'v) list"
    and inv :: "'t \<Rightarrow> bool"
  assumes insert_inv: "inv t \<Longrightarrow> inv (insert k v t)"
    and remove_inv: "inv t \<Longrightarrow> inv (remove k t)"
    and get_insert: "inv t \<Longrightarrow> get (insert k v t) = (get t)(k \<mapsto> v)"
    and get_remove: "inv t \<Longrightarrow> get (remove k t) = (get t)(k := None)"
    and last_None: "inv t \<Longrightarrow> last t = None \<longleftrightarrow> dom (get t) = {}"
    and last_Some: "inv t \<Longrightarrow> last t = Some (k, v) \<Longrightarrow> get t k = Some v \<and> (\<forall>k' \<in> dom (get t). k' \<le> k)"
    and range_set: "inv t \<Longrightarrow> set (range a b t) = {(k, v). a \<le> k \<and> k \<le> b \<and> get t k = Some v}"
    and range_sorted: "inv t \<Longrightarrow> sorted_wrt (\<lambda>x y. fst x < fst y) (range a b t)"
begin

fun apply_op :: "('k, 'v) batch_op \<Rightarrow> 't \<Rightarrow> 't" where
  "apply_op (BInsert k v) t = insert k v t"
| "apply_op (BRemove k) t = remove k t"

lemma apply_op_inv: "inv t \<Longrightarrow> inv (apply_op op t)"
  by (cases op) (simp_all add: insert_inv remove_inv)

lemma get_apply_op: "inv t \<Longrightarrow> get (apply_op op t) = op_effect op (get t)"
  by (cases op) (simp_all add: get_insert get_remove)

lemma apply_batch_inv: "inv t \<Longrightarrow> inv (fold apply_op ops t)"
  by (induction ops arbitrary: t) (simp_all add: apply_op_inv)

lemma get_apply_batch: "inv t \<Longrightarrow> get (fold apply_op ops t) = batch_effect ops (get t)"
  unfolding batch_effect_def
  by (induction ops arbitrary: t) (simp_all add: apply_op_inv get_apply_op)

lemma last_eq_Some_iff:
  assumes "inv t"
  shows "last t = Some (k, v) \<longleftrightarrow> get t k = Some v \<and> (\<forall>k' \<in> dom (get t). k' \<le> k)"
proof
  assume "last t = Some (k, v)" then show "get t k = Some v \<and> (\<forall>k' \<in> dom (get t). k' \<le> k)"
    using last_Some[OF assms] by simp
next
  assume g: "get t k = Some v \<and> (\<forall>k' \<in> dom (get t). k' \<le> k)"
  then obtain k2 v2 where l: "last t = Some (k2, v2)"
    using last_None[OF assms] by (cases "last t") auto
  with last_Some[OF assms l] g have "k2 = k"
    by (meson domI order_antisym)
  with last_Some[OF assms l] g l show "last t = Some (k, v)" by simp
qed

lemma range_empty: "inv t \<Longrightarrow> b < a \<Longrightarrow> range a b t = []"
  using range_set[of t a b] by (cases "range a b t") auto

end

section \<open>Sorted association lists\<close>

type_synonym ('k, 'v) tree = "('k \<times> 'v) list"

definition tree_ok :: "('k::linorder, 'v) tree \<Rightarrow> bool" where
  "tree_ok t \<longleftrightarrow> sorted_wrt (\<lambda>x y. fst x < fst y) t"

definition tree_get :: "('k::linorder, 'v) tree \<Rightarrow> 'k \<Rightarrow> 'v option" where
  "tree_get t = map_of t"

fun tree_insert :: "'k::linorder \<Rightarrow> 'v \<Rightarrow> ('k, 'v) tree \<Rightarrow> ('k, 'v) tree" where
  "tree_insert k v [] = [(k, v)]"
| "tree_insert k v ((k', v') # t) =
     (if k < k' then (k, v) # (k', v') # t
      else if k = k' then (k, v) # t
      else (k', v') # tree_insert k v t)"

definition tree_remove :: "'k::linorder \<Rightarrow> ('k, 'v) tree \<Rightarrow> ('k, 'v) tree" where
  "tree_remove k t = filter (\<lambda>x. fst x \<noteq> k) t"

definition tree_last :: "('k::linorder, 'v) tree \<Rightarrow> ('k \<times> 'v) option" where
  "tree_last t = (if t = [] then None else Some (last t))"

definition tree_range :: "'k::linorder \<Rightarrow> 'k \<Rightarrow> ('k, 'v) tree \<Rightarrow> ('k \<times> 'v) list" where
  "tree_range a b t = filter (\<lambda>x. a \<le> fst x \<and> fst x \<le> b) t"

lemma tree_ok_simps [simp]:
  "tree_ok []" "tree_ok ((k, v) # t) \<longleftrightarrow> (\<forall>x \<in> set t. k < fst x) \<and> tree_ok t"
  by (simp_all add: tree_ok_def)

lemma set_tree_insert:
  "tree_ok t \<Longrightarrow> set (tree_insert k v t) = Set.insert (k, v) {x \<in> set t. fst x \<noteq> k}"
proof (induction t)
  case (Cons x t)
  obtain k' v' where x: "x = (k', v')" by (cases x)
  with Cons.prems have less: "\<forall>y \<in> set t. k' < fst y" and "tree_ok t" by simp_all
  with Cons.IH have IH: "set (tree_insert k v t) = Set.insert (k, v) {x \<in> set t. fst x \<noteq> k}" by simp
  consider "k < k'" | "k = k'" | "k' < k" by (rule linorder_cases)
  then show ?case
  proof cases
    case 1
    have "fst y \<noteq> k" if "y \<in> set t" for y
      using bspec[OF less that] 1 by (metis order.strict_trans order_less_irrefl)
    then have "{y \<in> set t. fst y \<noteq> k} = set t" by blast
    with 1 x show ?thesis by (simp add: insert_compr set_eq_iff) blast
  next
    case 2
    have "fst y \<noteq> k" if "y \<in> set t" for y
      using bspec[OF less that] 2 by (metis order_less_irrefl)
    then have "{y \<in> set t. fst y \<noteq> k} = set t" by blast
    with 2 x show ?thesis by (simp add: insert_compr set_eq_iff) blast
  next
    case 3
    then have "\<not> k < k'" "k \<noteq> k'" by (simp_all add: order.asym)
    then have "set (tree_insert k v (x # t)) = Set.insert x (set (tree_insert k v t))" and "fst x \<noteq> k"
      by (simp_all add: x)
    then show ?thesis unfolding IH by (auto simp only: set_simps)
  qed
qed simp

lemma tree_insert_ok: "tree_ok t \<Longrightarrow> tree_ok (tree_insert k v t)"
  by (induction k v t rule: tree_insert.induct) (auto simp: set_tree_insert)

lemma tree_ok_distinct: "tree_ok t \<Longrightarrow> distinct (map fst t)"
  by (induction t) (auto dest!: bspec)

lemma tree_get_Some_iff: "tree_ok t \<Longrightarrow> tree_get t k = Some v \<longleftrightarrow> (k, v) \<in> set t"
  unfolding tree_get_def by (rule map_of_eq_Some_iff) (rule tree_ok_distinct)

lemma tree_get_eqI:
  assumes "tree_ok t" and "\<And>k v. (k, v) \<in> set t \<longleftrightarrow> m k = Some v"
  shows "tree_get t = m"
proof
  fix k
  have *: "tree_get t k = Some v \<longleftrightarrow> m k = Some v" for v
    using tree_get_Some_iff[OF assms(1)] assms(2) by blast
  show "tree_get t k = m k"
    by (cases "m k") (use *[of "the (tree_get t k)"] * in auto)
qed

lemma tree_get_insert: "tree_ok t \<Longrightarrow> tree_get (tree_insert k v t) = (tree_get t)(k \<mapsto> v)"
  by (rule tree_get_eqI) (auto simp: tree_insert_ok set_tree_insert tree_get_Some_iff)

lemma tree_remove_ok: "tree_ok t \<Longrightarrow> tree_ok (tree_remove k t)"
  by (simp add: tree_ok_def tree_remove_def sorted_wrt_filter)

lemma tree_get_remove: "tree_ok t \<Longrightarrow> tree_get (tree_remove k t) = (tree_get t)(k := None)"
  by (rule tree_get_eqI) (auto simp: tree_remove_ok tree_get_Some_iff, auto simp: tree_remove_def)

lemma tree_last_Some:
  assumes "tree_ok t" "tree_last t = Some (k, v)"
  shows "tree_get t k = Some v \<and> (\<forall>k' \<in> dom (tree_get t). k' \<le> k)"
proof -
  have ne: "t \<noteq> []" and l: "last t = (k, v)"
    using assms by (auto simp: tree_last_def split: if_splits)
  then have t: "t = butlast t @ [(k, v)]" by (metis append_butlast_last_id)
  have "sorted_wrt (\<lambda>x y. fst x < fst y) (butlast t @ [(k, v)])"
    using assms(1) t unfolding tree_ok_def by simp
  then have *: "\<forall>x \<in> set (butlast t). fst x < k" by (simp add: sorted_wrt_append)
  have "\<forall>x \<in> set t. fst x \<le> k"
    by (subst t) (use * in auto)
  then have "\<forall>k' \<in> dom (tree_get t). k' \<le> k"
    using tree_get_Some_iff[OF assms(1)] by fastforce
  moreover have "(k, v) \<in> set t" using ne l last_in_set by metis
  ultimately show ?thesis using tree_get_Some_iff[OF assms(1)] by blast
qed

interpretation sled: ordered_tree tree_get tree_insert tree_remove tree_last tree_range tree_ok
proof
  fix t :: "('a, 'b) tree" assume "tree_ok t"
  then show "(tree_last t = None) = (dom (tree_get t) = {})"
    by (cases t) (auto simp: tree_last_def tree_get_def)
next
  fix t :: "('a, 'b) tree" and a b assume "tree_ok t"
  then show "set (tree_range a b t) = {(k, v). a \<le> k \<and> k \<le> b \<and> tree_get t k = Some v}"
    by (auto simp: tree_range_def tree_get_Some_iff)
  show "sorted_wrt (\<lambda>x y. fst x < fst y) (tree_range a b t)"
    using \<open>tree_ok t\<close> by (simp add: tree_ok_def tree_range_def sorted_wrt_filter)
qed (simp_all add: tree_insert_ok tree_remove_ok tree_get_insert tree_get_remove tree_last_Some)

definition tree_apply_batch :: "('k::linorder, 'v) batch_op list \<Rightarrow> ('k, 'v) tree \<Rightarrow> ('k, 'v) tree" where
  "tree_apply_batch ops t =
     fold (\<lambda>op t. case op of BInsert k v \<Rightarrow> tree_insert k v t | BRemove k \<Rightarrow> tree_remove k t) ops t"

lemma tree_apply_batch_eq: "tree_apply_batch ops t = fold sled.apply_op ops t"
proof -
  have "(\<lambda>op t. case op of BInsert k v \<Rightarrow> tree_insert k v t | BRemove k \<Rightarrow> tree_remove k t)
      = (sled.apply_op :: _ \<Rightarrow> ('a, 'b) tree \<Rightarrow> _)"
    by (rule ext, rule ext) (simp split: batch_op.splits)
  then show ?thesis by (simp add: tree_apply_batch_def)
qed

lemma tree_apply_batch_ok [simp]: "tree_ok t \<Longrightarrow> tree_ok (tree_apply_batch ops t)"
  by (simp add: tree_apply_batch_eq sled.apply_batch_inv)

lemma tree_get_apply_batch [simp]:
  "tree_ok t \<Longrightarrow> tree_get (tree_apply_batch ops t) = batch_effect ops (tree_get t)"
  by (simp add: tree_apply_batch_eq sled.get_apply_batch)

end
