(* ===== verification/Log_Storage.thy ===== *)
theory Log_Storage
  imports Types Sled_Tree
begin

text \<open>
  \<open>crates/raft-engine/src/storage.rs\<close>: the \<open>LogStorage\<close> operations of \<open>SledStorage\<close>.

  \<open>log_store\<close> is the content of the database: the log tree keyed by index and the four fixed keys
  of the meta tree. Whether an engine call fails is the environment's choice, the field \<open>io_fails\<close>,
  asked once per call site (\<open>io_op\<close>); a failed write leaves the trees as they were, a failed
  flush keeps the write and reports the error, and a value that does not decode is a failure of the
  matching \<open>Decode\<close> site. A handler runs against one such choice, and different runs
  may be given different ones. \<open>healthy\<close> says that no call fails.
\<close>

datatype io_op =
    RdHardState | DecodeHardState
  | RdLastCommitted | DecodeLastCommitted
  | RdSnapshotIndex | DecodeSnapshotIndex
  | RdSnapshotTerm | DecodeSnapshotTerm
  | RdLogLast | DecodeLogKey
  | RdLogEntry u64 | DecodeEntry u64 | RdLogIter u64
  | WrHardState | WrLastCommitted | WrSnapshotMeta | WrLog
  | FlushDb

record log_store =
  log_tree :: "(u64, log_entry) tree"
  meta_hard_state :: "hard_state option"
  meta_last_committed :: "u64 option"
  meta_snapshot_index :: "u64 option"
  meta_snapshot_term :: "u64 option"
  io_fails :: "io_op \<Rightarrow> bool"

definition healthy :: "log_store \<Rightarrow> bool" where
  "healthy d \<longleftrightarrow> (\<forall>op. \<not> io_fails d op)"

section \<open>Hard state text\<close>

definition serialize_hard_state :: "raft_term \<Rightarrow> node_id option \<Rightarrow> hard_state" where
  "serialize_hard_state t v = new_hard_state t v"

definition deserialize_hard_state :: "hard_state \<Rightarrow> log_storage_error + raft_term \<times> node_id option" where
  "deserialize_hard_state hs =
     (if hs_vote hs = [] then Inr (hs_term hs, None)
      else res_bind
             (map_err (\<lambda>_. LDeserialization ''Invalid NodeId in HardState'') (node_id_from_str (hs_vote hs)))
             (\<lambda>v. Inr (hs_term hs, Some v)))"

section \<open>Accessors\<close>

definition read_meta ::
  "io_op \<Rightarrow> io_op \<Rightarrow> string \<Rightarrow> string \<Rightarrow> (log_store \<Rightarrow> 'a option) \<Rightarrow> log_store \<Rightarrow> log_storage_error + 'a option" where
  "read_meta rd dec rd_msg dec_msg field d =
     (if io_fails d rd then Inl (LPersistence rd_msg)
      else case field d of
             None \<Rightarrow> Inr None
           | Some v \<Rightarrow> if io_fails d dec then Inl (LDeserialization dec_msg) else Inr (Some v))"

definition read_hard_state :: "log_store \<Rightarrow> log_storage_error + (raft_term \<times> node_id option) option" where
  "read_hard_state d =
     res_bind
       (read_meta RdHardState DecodeHardState ''Failed to read hard_state'' ''Failed to decode HardState''
          meta_hard_state d)
       (\<lambda>hs. case hs of
               None \<Rightarrow> Inr None
             | Some h \<Rightarrow> map_ok Some (deserialize_hard_state h))"

definition sled_current_term :: "log_store \<Rightarrow> log_storage_error + raft_term" where
  "sled_current_term d = map_ok (\<lambda>o'. case o' of None \<Rightarrow> 0 | Some (t, _) \<Rightarrow> t) (read_hard_state d)"

definition sled_voted_for :: "log_store \<Rightarrow> log_storage_error + node_id option" where
  "sled_voted_for d = map_ok (\<lambda>o'. case o' of None \<Rightarrow> None | Some (_, v) \<Rightarrow> v) (read_hard_state d)"

definition unwrap_or :: "'a option \<Rightarrow> 'a \<Rightarrow> 'a" where
  "unwrap_or x a = (case x of None \<Rightarrow> a | Some b \<Rightarrow> b)"

definition sled_last_committed :: "log_store \<Rightarrow> log_storage_error + log_index" where
  "sled_last_committed d =
     map_ok (\<lambda>x. unwrap_or x 0)
       (read_meta RdLastCommitted DecodeLastCommitted ''Failed to read last_committed''
          ''last_committed byte conversion failed'' meta_last_committed d)"

definition sled_last_included_index :: "log_store \<Rightarrow> log_storage_error + log_index" where
  "sled_last_included_index d =
     map_ok (\<lambda>x. unwrap_or x 0)
       (read_meta RdSnapshotIndex DecodeSnapshotIndex ''Failed to read snapshot_index''
          ''snapshot_index byte conversion failed'' meta_snapshot_index d)"

definition sled_last_included_term :: "log_store \<Rightarrow> log_storage_error + raft_term" where
  "sled_last_included_term d =
     map_ok (\<lambda>x. unwrap_or x 0)
       (read_meta RdSnapshotTerm DecodeSnapshotTerm ''Failed to read snapshot_term''
          ''snapshot_term byte conversion failed'' meta_snapshot_term d)"

definition sled_last_log_index :: "log_store \<Rightarrow> log_storage_error + log_index" where
  "sled_last_log_index d =
     (if io_fails d RdLogLast then Inl (LPersistence ''Failed to read last log entry'')
      else res_bind
             (case tree_last (log_tree d) of
                None \<Rightarrow> Inr 0
              | Some (k, _) \<Rightarrow>
                  if io_fails d DecodeLogKey then Inl (LDeserialization ''LogIndex byte conversion failed'')
                  else Inr k)
             (\<lambda>physical_last. res_bind (sled_last_included_index d)
                (\<lambda>snapshot_last. Inr (max physical_last snapshot_last))))"

definition sled_last_log_term :: "log_store \<Rightarrow> log_storage_error + raft_term" where
  "sled_last_log_term d =
     (if io_fails d RdLogLast then Inl (LPersistence ''Failed to read last log entry'')
      else res_bind
             (case tree_last (log_tree d) of
                None \<Rightarrow> Inr 0
              | Some (k, e) \<Rightarrow>
                  if io_fails d (DecodeEntry k) then Inl (LDeserialization ''Failed to decode last log entry'')
                  else Inr (e_term e))
             (\<lambda>physical_last. if physical_last > 0 then Inr physical_last else sled_last_included_term d))"

definition sled_read_entry :: "log_index \<Rightarrow> log_store \<Rightarrow> log_storage_error + log_entry option" where
  "sled_read_entry i d =
     (if io_fails d (RdLogEntry i) then Inl (LPersistence ''Failed to read log entry'')
      else case tree_get (log_tree d) i of
             None \<Rightarrow> Inr None
           | Some e \<Rightarrow> if io_fails d (DecodeEntry i) then Inl (LDeserialization ''Failed to decode log entry'')
                       else Inr (Some e))"

fun read_range_loop :: "(io_op \<Rightarrow> bool) \<Rightarrow> (u64 \<times> log_entry) list \<Rightarrow> log_storage_error + log_entry list" where
  "read_range_loop fl [] = Inr []"
| "read_range_loop fl ((k, e) # rest) =
     (if fl (RdLogIter k) then Inl (LPersistence ''Log iteration failure'')
      else if fl (DecodeEntry k) then Inl (LDeserialization ''Failed to decode log entry'')
      else map_ok ((#) e) (read_range_loop fl rest))"

definition sled_read_entries :: "log_index \<Rightarrow> log_index \<Rightarrow> log_store \<Rightarrow> log_storage_error + log_entry list" where
  "sled_read_entries start stop d =
     (if start = 0 then Inl (LInvariant ''LogIndex is 1-indexed; range start cannot be 0'')
      else if start > stop then Inr []
      else read_range_loop (io_fails d) (tree_range start stop (log_tree d)))"

section \<open>Mutations\<close>

definition incl_range :: "nat \<Rightarrow> nat \<Rightarrow> nat list" where
  "incl_range a b = [a..<Suc b]"

lemma set_incl_range [simp]: "set (incl_range a b) = {a..b}"
  by (auto simp: incl_range_def)

lemma incl_range_empty [simp]: "b < a \<Longrightarrow> incl_range a b = []"
  by (simp add: incl_range_def)

definition engine_write :: "io_op \<Rightarrow> string \<Rightarrow> (log_store \<Rightarrow> log_store) \<Rightarrow> (log_store, log_storage_error, unit) proc" where
  "engine_write op msg w d = (if io_fails d op then (Inl (LPersistence msg), d) else (Inr (), w d))"

definition flush_db :: "string \<Rightarrow> (log_store, log_storage_error, unit) proc" where
  "flush_db msg d = (if io_fails d FlushDb then (Inl (LPersistence msg), d) else (Inr (), d))"

definition sled_save_hard_state ::
  "raft_term \<Rightarrow> node_id option \<Rightarrow> (log_store, log_storage_error, unit) proc" where
  "sled_save_hard_state t v =
     st_bind (engine_write WrHardState ''Failed to persist hard_state''
                (\<lambda>d. d\<lparr>meta_hard_state := Some (serialize_hard_state t v)\<rparr>))
       (\<lambda>_. flush_db ''Sled flush failure'')"

definition sled_save_last_committed :: "log_index \<Rightarrow> (log_store, log_storage_error, unit) proc" where
  "sled_save_last_committed i =
     st_bind (engine_write WrLastCommitted ''Failed to persist last_committed''
                (\<lambda>d. d\<lparr>meta_last_committed := Some i\<rparr>))
       (\<lambda>_. flush_db ''Sled flush failure'')"

definition entry_batch :: "log_entry list \<Rightarrow> (u64, log_entry) batch_op list" where
  "entry_batch es = map (\<lambda>e. BInsert (e_index e) e) es"

definition sled_append_entries :: "log_entry list \<Rightarrow> (log_store, log_storage_error, unit) proc" where
  "sled_append_entries es =
     st_bind (engine_write WrLog ''Failed to apply log append batch''
                (\<lambda>d. d\<lparr>log_tree := tree_apply_batch (entry_batch es) (log_tree d)\<rparr>))
       (\<lambda>_. flush_db ''Sled flush failure after log append'')"

definition sled_append_entries_and_advance_commit ::
  "log_entry list \<Rightarrow> log_index \<Rightarrow> (log_store, log_storage_error, unit) proc" where
  "sled_append_entries_and_advance_commit es commit =
     st_bind (engine_write WrLog ''Failed to apply log append batch''
                (\<lambda>d. d\<lparr>log_tree := tree_apply_batch (entry_batch es) (log_tree d)\<rparr>))
       (\<lambda>_. st_bind (engine_write WrLastCommitted ''Failed to persist last_committed''
                       (\<lambda>d. d\<lparr>meta_last_committed := Some commit\<rparr>))
               (\<lambda>_. flush_db ''Sled flush failure''))"

definition sled_truncate_log :: "log_index \<Rightarrow> (log_store, log_storage_error, unit) proc" where
  "sled_truncate_log i =
     st_bind (st_read sled_last_log_index)
       (\<lambda>last_idx.
          if i > last_idx then st_return ()
          else st_bind (engine_write WrLog ''Failed to apply log truncation batch''
                          (\<lambda>d. d\<lparr>log_tree := tree_apply_batch (map BRemove (incl_range i last_idx)) (log_tree d)\<rparr>))
                 (\<lambda>_. flush_db ''Sled flush failure after log truncation''))"

definition sled_truncate_log_front :: "log_index \<Rightarrow> (log_store, log_storage_error, unit) proc" where
  "sled_truncate_log_front up_to =
     st_bind (engine_write WrLog ''Failed to apply front truncation batch''
                (\<lambda>d. d\<lparr>log_tree := tree_apply_batch (map BRemove (incl_range 1 up_to)) (log_tree d)\<rparr>))
       (\<lambda>_. flush_db ''Sled flush failure after front truncation'')"

definition sled_save_snapshot_metadata ::
  "log_index \<Rightarrow> raft_term \<Rightarrow> (log_store, log_storage_error, unit) proc" where
  "sled_save_snapshot_metadata i t =
     st_bind (engine_write WrSnapshotMeta ''Failed to apply snapshot metadata batch''
                (\<lambda>d. d\<lparr>meta_snapshot_index := Some i, meta_snapshot_term := Some t\<rparr>))
       (\<lambda>_. flush_db ''Sled flush failure'')"

section \<open>Content of the store\<close>

definition disk_term :: "log_store \<Rightarrow> raft_term" where
  "disk_term d = (case meta_hard_state d of None \<Rightarrow> 0 | Some h \<Rightarrow> hs_term h)"

definition disk_vote :: "log_store \<Rightarrow> node_id option" where
  "disk_vote d =
     (case meta_hard_state d of
        None \<Rightarrow> None
      | Some h \<Rightarrow> (case deserialize_hard_state h of Inl _ \<Rightarrow> None | Inr (_, v) \<Rightarrow> v))"

definition disk_snap :: "log_store \<Rightarrow> log_index" where
  "disk_snap d = unwrap_or (meta_snapshot_index d) 0"

definition disk_committed :: "log_store \<Rightarrow> log_index" where
  "disk_committed d = unwrap_or (meta_last_committed d) 0"

definition disk_physical :: "log_store \<Rightarrow> log_index" where
  "disk_physical d = (case tree_last (log_tree d) of None \<Rightarrow> 0 | Some (k, _) \<Rightarrow> k)"

definition disk_last :: "log_store \<Rightarrow> log_index" where
  "disk_last d = max (disk_physical d) (disk_snap d)"

definition disk_entry :: "log_store \<Rightarrow> log_index \<Rightarrow> log_entry option" where
  "disk_entry d = tree_get (log_tree d)"

lemma unwrap_or_simps [simp]: "unwrap_or None a = a" "unwrap_or (Some b) a = b"
  by (simp_all add: unwrap_or_def)

lemma read_meta_Inr: "read_meta rd dec m1 m2 f d = Inr x \<Longrightarrow> x = f d"
  by (auto simp: read_meta_def split: if_splits option.splits)

lemma read_meta_healthy [simp]: "healthy d \<Longrightarrow> read_meta rd dec m1 m2 f d = Inr (f d)"
  by (auto simp: read_meta_def healthy_def split: option.splits)

lemma sled_current_term_Inr: "sled_current_term d = Inr t \<Longrightarrow> t = disk_term d"
  by (auto simp: sled_current_term_def map_ok_Inr_iff read_hard_state_def res_bind_Inr_iff disk_term_def
      deserialize_hard_state_def dest!: read_meta_Inr split: option.splits if_splits)

lemma sled_voted_for_Inr: "sled_voted_for d = Inr v \<Longrightarrow> v = disk_vote d"
  by (auto simp: sled_voted_for_def map_ok_Inr_iff read_hard_state_def res_bind_Inr_iff disk_vote_def
      dest!: read_meta_Inr split: option.splits)

lemma sled_last_committed_Inr: "sled_last_committed d = Inr i \<Longrightarrow> i = disk_committed d"
  by (auto simp: sled_last_committed_def map_ok_Inr_iff disk_committed_def dest!: read_meta_Inr)

lemma sled_last_included_index_Inr: "sled_last_included_index d = Inr i \<Longrightarrow> i = disk_snap d"
  by (auto simp: sled_last_included_index_def map_ok_Inr_iff disk_snap_def dest!: read_meta_Inr)

lemma sled_last_log_index_Inr: "sled_last_log_index d = Inr i \<Longrightarrow> i = disk_last d"
  by (auto simp: sled_last_log_index_def res_bind_Inr_iff disk_last_def disk_physical_def
      dest!: sled_last_included_index_Inr split: if_splits option.splits)

lemma sled_read_entry_Inr: "sled_read_entry i d = Inr e \<Longrightarrow> e = disk_entry d i"
  by (auto simp: sled_read_entry_def disk_entry_def split: if_splits option.splits)

lemmas sled_read_Inr = sled_current_term_Inr sled_voted_for_Inr sled_last_committed_Inr
  sled_last_included_index_Inr sled_last_log_index_Inr sled_read_entry_Inr

lemma healthyD [dest]: "healthy d \<Longrightarrow> \<not> io_fails d op"
  by (simp add: healthy_def)

lemma sled_last_log_index_healthy [simp]: "healthy d \<Longrightarrow> sled_last_log_index d = Inr (disk_last d)"
  by (auto simp: sled_last_log_index_def sled_last_included_index_def disk_last_def disk_physical_def
      disk_snap_def healthy_def split: option.splits)

lemma sled_last_included_index_healthy [simp]: "healthy d \<Longrightarrow> sled_last_included_index d = Inr (disk_snap d)"
  by (simp add: sled_last_included_index_def disk_snap_def)

lemma sled_last_included_term_healthy [simp]:
  "healthy d \<Longrightarrow> sled_last_included_term d = Inr (unwrap_or (meta_snapshot_term d) 0)"
  by (simp add: sled_last_included_term_def)

lemma sled_last_committed_healthy [simp]: "healthy d \<Longrightarrow> sled_last_committed d = Inr (disk_committed d)"
  by (simp add: sled_last_committed_def disk_committed_def)

lemma sled_read_entry_healthy [simp]: "healthy d \<Longrightarrow> sled_read_entry i d = Inr (disk_entry d i)"
  by (auto simp: sled_read_entry_def disk_entry_def healthy_def split: option.splits)

lemma read_range_loop_ok: "(\<And>op. \<not> fl op) \<Longrightarrow> read_range_loop fl kes = Inr (map snd kes)"
  by (induction fl kes rule: read_range_loop.induct) auto

subsection \<open>Well-formed hard state\<close>

text \<open>The hard state of every reachable store was written by \<open>save_hard_state\<close> with a valid vote.\<close>

definition hard_state_ok :: "log_store \<Rightarrow> bool" where
  "hard_state_ok d \<longleftrightarrow>
     (case meta_hard_state d of
        None \<Rightarrow> True
      | Some h \<Rightarrow> is_u64 (hs_term h) \<and> (hs_vote h \<noteq> [] \<longrightarrow> (\<exists>n. valid_node_id n \<and> hs_vote h = node_id_to_string n)))"

lemma deserialize_serialize:
  assumes "\<And>n. v = Some n \<Longrightarrow> valid_node_id n"
  shows "deserialize_hard_state (serialize_hard_state t v) = Inr (t, v)"
  using assms
  by (cases v) (simp_all add: deserialize_hard_state_def serialize_hard_state_def new_hard_state_def)

lemma read_hard_state_healthy:
  "healthy d \<Longrightarrow> hard_state_ok d \<Longrightarrow>
    read_hard_state d = Inr (case meta_hard_state d of None \<Rightarrow> None | Some _ \<Rightarrow> Some (disk_term d, disk_vote d))"
  by (auto simp: read_hard_state_def hard_state_ok_def disk_term_def disk_vote_def
      deserialize_hard_state_def split: option.splits)

lemma sled_current_term_healthy [simp]:
  "healthy d \<Longrightarrow> hard_state_ok d \<Longrightarrow> sled_current_term d = Inr (disk_term d)"
  by (auto simp: sled_current_term_def read_hard_state_healthy disk_term_def split: option.splits)

lemma sled_voted_for_healthy [simp]:
  "healthy d \<Longrightarrow> hard_state_ok d \<Longrightarrow> sled_voted_for d = Inr (disk_vote d)"
  by (auto simp: sled_voted_for_def read_hard_state_healthy disk_vote_def split: option.splits)

lemma disk_vote_valid: "disk_vote d = Some n \<Longrightarrow> valid_node_id n"
  by (auto simp: disk_vote_def deserialize_hard_state_def res_bind_Inr_iff
      split: option.splits if_splits sum.splits dest: node_id_from_str_valid)

subsection \<open>Outcome of the mutations\<close>

lemma engine_write_flush_cases:
  assumes "st_bind (engine_write op m1 w) (\<lambda>_. flush_db m2) d = (r, d')"
  shows "d' = d \<and> r = Inl (LPersistence m1) \<or> d' = w d \<and> (r = Inr () \<or> r = Inl (LPersistence m2))"
  using assms
  by (cases rule: st_bind_cases) (auto simp: engine_write_def flush_db_def split: if_splits)

lemma engine_write_flush_healthy:
  assumes "healthy d" and "healthy (w d)"
  shows "st_bind (engine_write op m1 w) (\<lambda>_. flush_db m2) d = (Inr (), w d)"
  using assms by (simp add: engine_write_def flush_db_def healthyD st_bind_def)

definition set_hard_state :: "raft_term \<Rightarrow> node_id option \<Rightarrow> log_store \<Rightarrow> log_store" where
  "set_hard_state t v d = d\<lparr>meta_hard_state := Some (serialize_hard_state t v)\<rparr>"

definition set_log :: "(u64, log_entry) batch_op list \<Rightarrow> log_store \<Rightarrow> log_store" where
  "set_log b d = d\<lparr>log_tree := tree_apply_batch b (log_tree d)\<rparr>"

lemma healthy_update [simp]:
  "healthy (d\<lparr>meta_hard_state := h\<rparr>) \<longleftrightarrow> healthy d"
  "healthy (d\<lparr>log_tree := t\<rparr>) \<longleftrightarrow> healthy d"
  "healthy (d\<lparr>meta_last_committed := c\<rparr>) \<longleftrightarrow> healthy d"
  "healthy (d\<lparr>meta_snapshot_index := si\<rparr>) \<longleftrightarrow> healthy d"
  "healthy (d\<lparr>meta_snapshot_term := st\<rparr>) \<longleftrightarrow> healthy d"
  by (simp_all add: healthy_def)

lemma healthy_set [simp]:
  "healthy (set_hard_state t v d) \<longleftrightarrow> healthy d" "healthy (set_log b d) \<longleftrightarrow> healthy d"
  by (simp_all add: set_hard_state_def set_log_def)

lemma save_hard_state_cases:
  "sled_save_hard_state t v d = (r, d') \<Longrightarrow> d' = d \<and> (\<exists>m. r = Inl (LPersistence m)) \<or>
     d' = set_hard_state t v d \<and> (r = Inr () \<or> (\<exists>m. r = Inl (LPersistence m)))"
  unfolding sled_save_hard_state_def by (drule engine_write_flush_cases) (auto simp: set_hard_state_def)

lemma save_hard_state_healthy [simp]:
  "healthy d \<Longrightarrow> sled_save_hard_state t v d = (Inr (), set_hard_state t v d)"
  unfolding sled_save_hard_state_def by (subst engine_write_flush_healthy) (simp_all add: set_hard_state_def)

lemma save_last_committed_cases:
  "sled_save_last_committed i d = (r, d') \<Longrightarrow> d' = d \<and> (\<exists>m. r = Inl (LPersistence m)) \<or>
     d' = d\<lparr>meta_last_committed := Some i\<rparr> \<and> (r = Inr () \<or> (\<exists>m. r = Inl (LPersistence m)))"
  unfolding sled_save_last_committed_def by (drule engine_write_flush_cases) auto

lemma save_last_committed_healthy [simp]:
  "healthy d \<Longrightarrow> sled_save_last_committed i d = (Inr (), d\<lparr>meta_last_committed := Some i\<rparr>)"
  unfolding sled_save_last_committed_def by (subst engine_write_flush_healthy) simp_all

lemma append_entries_cases:
  "sled_append_entries es d = (r, d') \<Longrightarrow> d' = d \<and> (\<exists>m. r = Inl (LPersistence m)) \<or>
     d' = set_log (entry_batch es) d \<and> (r = Inr () \<or> (\<exists>m. r = Inl (LPersistence m)))"
  unfolding sled_append_entries_def by (drule engine_write_flush_cases) (auto simp: set_log_def)

lemma append_entries_healthy [simp]:
  "healthy d \<Longrightarrow> sled_append_entries es d = (Inr (), set_log (entry_batch es) d)"
  unfolding sled_append_entries_def by (subst engine_write_flush_healthy) (simp_all add: set_log_def)

lemma append_and_commit_cases:
  assumes "sled_append_entries_and_advance_commit es c d = (r, d')"
  shows "d' = d \<and> (\<exists>m. r = Inl (LPersistence m)) \<or>
     d' = set_log (entry_batch es) d \<and> (\<exists>m. r = Inl (LPersistence m)) \<or>
     d' = (set_log (entry_batch es) d)\<lparr>meta_last_committed := Some c\<rparr> \<and>
       (r = Inr () \<or> (\<exists>m. r = Inl (LPersistence m)))"
  using assms unfolding sled_append_entries_and_advance_commit_def
  by (auto simp: engine_write_def flush_db_def st_bind_def set_log_def split: if_splits)

lemma append_and_commit_healthy [simp]:
  "healthy d \<Longrightarrow> sled_append_entries_and_advance_commit es c d =
     (Inr (), (set_log (entry_batch es) d)\<lparr>meta_last_committed := Some c\<rparr>)"
  by (simp add: sled_append_entries_and_advance_commit_def engine_write_def flush_db_def healthyD
      st_bind_def set_log_def)

lemma truncate_log_cases:
  assumes "sled_truncate_log i d = (r, d')"
  shows "d' = d \<and> (r = Inr () \<and> disk_last d < i \<or> (\<exists>e. r = Inl e)) \<or>
     d' = set_log (map BRemove (incl_range i (disk_last d))) d \<and> i \<le> disk_last d \<and>
       (r = Inr () \<or> (\<exists>m. r = Inl (LPersistence m)))"
proof (cases "sled_last_log_index d")
  case (Inl e)
  with assms show ?thesis by (auto simp: sled_truncate_log_def)
next
  case (Inr l)
  then have l: "l = disk_last d" by (rule sled_last_log_index_Inr)
  show ?thesis
    using assms Inr l by (auto simp: sled_truncate_log_def set_log_def split: if_splits dest!: engine_write_flush_cases)
qed

lemma truncate_log_healthy [simp]:
  "healthy d \<Longrightarrow> sled_truncate_log i d =
     (Inr (), if i > disk_last d then d else set_log (map BRemove (incl_range i (disk_last d))) d)"
  by (simp add: sled_truncate_log_def set_log_def engine_write_flush_healthy)

lemma truncate_log_front_healthy [simp]:
  "healthy d \<Longrightarrow> sled_truncate_log_front i d = (Inr (), set_log (map BRemove (incl_range (Suc 0) i)) d)"
  by (simp add: sled_truncate_log_front_def set_log_def engine_write_flush_healthy)

lemma save_snapshot_metadata_healthy [simp]:
  "healthy d \<Longrightarrow> sled_save_snapshot_metadata i t d =
     (Inr (), d\<lparr>meta_snapshot_index := Some i, meta_snapshot_term := Some t\<rparr>)"
  by (simp add: sled_save_snapshot_metadata_def engine_write_flush_healthy)

lemma save_snapshot_metadata_cases:
  "sled_save_snapshot_metadata i t d = (r, d') \<Longrightarrow> d' = d \<and> (\<exists>m. r = Inl (LPersistence m)) \<or>
     d' = d\<lparr>meta_snapshot_index := Some i, meta_snapshot_term := Some t\<rparr> \<and>
       (r = Inr () \<or> (\<exists>m. r = Inl (LPersistence m)))"
  unfolding sled_save_snapshot_metadata_def by (drule engine_write_flush_cases) auto

lemma truncate_log_front_cases:
  "sled_truncate_log_front i d = (r, d') \<Longrightarrow> d' = d \<and> (\<exists>m. r = Inl (LPersistence m)) \<or>
     d' = set_log (map BRemove (incl_range (Suc 0) i)) d \<and> (r = Inr () \<or> (\<exists>m. r = Inl (LPersistence m)))"
  unfolding sled_truncate_log_front_def
  by (drule engine_write_flush_cases) (auto simp: set_log_def)

section \<open>The log\<close>

subsection \<open>Invariant of the log tree\<close>

text \<open>
  Entries sit under their own index and carry the term of some leader, and every index after the snapshot and up to the last one is
  present: the part of the log a leader may still have to ship has no hole.
\<close>

definition log_ok :: "log_store \<Rightarrow> bool" where
  "log_ok d \<longleftrightarrow>
     tree_ok (log_tree d)
     \<and> (\<forall>(k, e) \<in> set (log_tree d). e_index e = k \<and> 0 < k \<and> is_u64 k \<and> 0 < e_term e)
     \<and> is_u64 (disk_snap d)
     \<and> (\<forall>k \<in> set (incl_range (Suc (disk_snap d)) (disk_last d)). disk_entry d k \<noteq> None)"

definition consecutive :: "u64 \<Rightarrow> log_entry list \<Rightarrow> bool" where
  "consecutive n es \<longleftrightarrow> map e_index es = [n..<n + length es]"

lemma log_okD:
  assumes "log_ok d"
  shows "tree_ok (log_tree d)" "disk_entry d k = Some e \<Longrightarrow> e_index e = k \<and> 0 < k \<and> is_u64 k \<and> 0 < e_term e"
    "is_u64 (disk_snap d)" "disk_snap d < k \<Longrightarrow> k \<le> disk_last d \<Longrightarrow> \<exists>e. disk_entry d k = Some e"
  using assms unfolding log_ok_def disk_entry_def
  by (auto simp: tree_get_Some_iff Suc_le_eq less_Suc_eq_le)

lemma log_okI:
  assumes "tree_ok (log_tree d)" and "\<And>k e. disk_entry d k = Some e \<Longrightarrow> e_index e = k \<and> 0 < k \<and> is_u64 k \<and> 0 < e_term e"
    and "is_u64 (disk_snap d)"
    and "\<And>k. disk_snap d < k \<Longrightarrow> k \<le> disk_last d \<Longrightarrow> \<exists>e. disk_entry d k = Some e"
  shows "log_ok d"
  using assms unfolding log_ok_def disk_entry_def
  by (auto simp: tree_get_Some_iff Suc_le_eq less_Suc_eq_le)

lemma disk_physical_eqI:
  assumes "tree_ok (log_tree d)" "disk_entry d k = Some e" "\<And>k' e'. disk_entry d k' = Some e' \<Longrightarrow> k' \<le> k"
  shows "disk_physical d = k"
proof -
  have "tree_last (log_tree d) = Some (k, e)"
    using assms sled.last_eq_Some_iff[OF assms(1)] unfolding disk_entry_def by blast
  then show ?thesis by (simp add: disk_physical_def)
qed

lemma disk_physical_0: "tree_ok (log_tree d) \<Longrightarrow> (\<And>k. disk_entry d k = None) \<Longrightarrow> disk_physical d = 0"
  using sled.last_None[of "log_tree d"] by (simp add: disk_physical_def disk_entry_def dom_def)

lemma disk_physical_ge: "tree_ok (log_tree d) \<Longrightarrow> disk_entry d k = Some e \<Longrightarrow> k \<le> disk_physical d"
proof -
  assume a: "tree_ok (log_tree d)" "disk_entry d k = Some e"
  then obtain k' v' where l: "tree_last (log_tree d) = Some (k', v')"
    using sled.last_None[of "log_tree d"] by (cases "tree_last (log_tree d)") (auto simp: disk_entry_def)
  with sled.last_Some[OF a(1) l] a(2) show ?thesis
    by (auto simp: disk_physical_def disk_entry_def)
qed

lemma disk_physical_entry:
  "tree_ok (log_tree d) \<Longrightarrow> disk_physical d \<noteq> 0 \<Longrightarrow> \<exists>e. disk_entry d (disk_physical d) = Some e"
  by (auto simp: disk_physical_def disk_entry_def split: option.splits dest!: sled.last_Some)

lemma disk_last_ge: "log_ok d \<Longrightarrow> disk_entry d k = Some e \<Longrightarrow> k \<le> disk_last d"
  using disk_physical_ge log_okD(1) by (fastforce simp: disk_last_def)

lemma disk_snap_le_last [simp]: "disk_snap d \<le> disk_last d"
  by (simp add: disk_last_def)

lemma disk_view_set [simp]:
  "disk_snap (set_log b d) = disk_snap d" "disk_term (set_log b d) = disk_term d"
  "disk_vote (set_log b d) = disk_vote d" "disk_committed (set_log b d) = disk_committed d"
  "meta_hard_state (set_log b d) = meta_hard_state d"
  "disk_entry (set_hard_state t v d) = disk_entry d" "disk_last (set_hard_state t v d) = disk_last d"
  "disk_snap (set_hard_state t v d) = disk_snap d" "log_ok (set_hard_state t v d) = log_ok d"
  "disk_term (set_hard_state t v d) = t"
  by (simp_all add: set_log_def set_hard_state_def disk_snap_def disk_term_def disk_vote_def disk_committed_def
      disk_entry_def disk_last_def disk_physical_def log_ok_def serialize_hard_state_def new_hard_state_def)

lemma disk_view_update [simp]:
  "disk_entry (d\<lparr>meta_last_committed := c\<rparr>) = disk_entry d" "disk_last (d\<lparr>meta_last_committed := c\<rparr>) = disk_last d"
  "disk_snap (d\<lparr>meta_last_committed := c\<rparr>) = disk_snap d" "log_ok (d\<lparr>meta_last_committed := c\<rparr>) = log_ok d"
  "disk_term (d\<lparr>meta_last_committed := c\<rparr>) = disk_term d" "disk_vote (d\<lparr>meta_last_committed := c\<rparr>) = disk_vote d"
  "disk_committed (d\<lparr>meta_last_committed := Some i\<rparr>) = i"
  by (simp_all add: disk_snap_def disk_term_def disk_vote_def disk_committed_def
      disk_entry_def disk_last_def disk_physical_def log_ok_def)

lemma disk_vote_set_hard_state:
  "(\<And>n. v = Some n \<Longrightarrow> valid_node_id n) \<Longrightarrow> disk_vote (set_hard_state t v d) = v"
  by (simp add: disk_vote_def set_hard_state_def deserialize_serialize)

lemma disk_vote_set_Some [simp]: "valid_node_id n \<Longrightarrow> disk_vote (set_hard_state t (Some n) d) = Some n"
  by (rule disk_vote_set_hard_state) simp

subsection \<open>Append and truncate\<close>

lemma disk_entry_append:
  assumes "tree_ok (log_tree d)"
  shows "disk_entry (set_log (entry_batch es) d) = disk_entry d ++ map_of (rev (map (\<lambda>e. (e_index e, e)) es))"
  using assms by (simp add: disk_entry_def set_log_def entry_batch_def batch_effect_insert)

lemma consecutive_distinct: "consecutive n es \<Longrightarrow> distinct (map e_index es)"
  by (simp add: consecutive_def)

lemma consecutive_Cons: "consecutive n (e # es) \<longleftrightarrow> e_index e = n \<and> consecutive (Suc n) es"
  by (simp add: consecutive_def upt_conv_Cons del: upt_Suc)

lemma consecutive_nth: "consecutive n es \<Longrightarrow> i < length es \<Longrightarrow> e_index (es ! i) = n + i"
  by (metis add_less_cancel_left consecutive_def nth_map nth_upt)

lemma map_of_consecutive:
  "consecutive n es \<Longrightarrow> map_of (rev (map (\<lambda>e. (e_index e, e)) es)) k =
     (if n \<le> k \<and> k < n + length es then Some (es ! (k - n)) else None)"
  by (induction es arbitrary: n) (auto simp: consecutive_Cons map_add_def nth_Cons' split: option.splits)

lemma disk_entry_append_log:
  assumes "log_ok d" and "consecutive (Suc (disk_last d)) es"
  shows "disk_entry (set_log (entry_batch es) d) k =
      (if disk_last d < k \<and> k \<le> disk_last d + length es then Some (es ! (k - Suc (disk_last d)))
       else disk_entry d k)"
  using assms by (auto simp: disk_entry_append log_okD(1) map_add_def map_of_consecutive split: option.splits)

lemma disk_last_append_log:
  assumes ok: "log_ok d" and c: "consecutive (Suc (disk_last d)) es"
  shows "disk_last (set_log (entry_batch es) d) = disk_last d + length es"
proof (cases "es = []")
  case True
  then show ?thesis by (simp add: set_log_def entry_batch_def tree_apply_batch_def)
next
  case False
  then have len: "0 < length es" by simp
  have t: "tree_ok (log_tree (set_log (entry_batch es) d))" using log_okD(1)[OF ok] by (simp add: set_log_def)
  have "disk_physical (set_log (entry_batch es) d) = disk_last d + length es"
    by (rule disk_physical_eqI[OF t])
      (use len disk_last_ge[OF ok] in \<open>auto simp: disk_entry_append_log[OF ok c] split: if_splits dest: disk_last_ge[OF ok]\<close>)
  then show ?thesis using len disk_snap_le_last[of d] by (simp add: disk_last_def)
qed

lemma log_ok_append_log:
  assumes ok: "log_ok d" and c: "consecutive (Suc (disk_last d)) es" and b: "is_u64 (disk_last d + length es)"
    and pos: "\<And>e. e \<in> set es \<Longrightarrow> 0 < e_term e"
  shows "log_ok (set_log (entry_batch es) d)"
proof (rule log_okI)
  show "tree_ok (log_tree (set_log (entry_batch es) d))" using log_okD(1)[OF ok] by (simp add: set_log_def)
  show "is_u64 (disk_snap (set_log (entry_batch es) d))" using log_okD(3)[OF ok] by simp
  fix k e assume "disk_entry (set_log (entry_batch es) d) k = Some e"
  then show "e_index e = k \<and> 0 < k \<and> is_u64 k \<and> 0 < e_term e"
    using b log_okD(2)[OF ok, of k e] consecutive_nth[OF c, of "k - Suc (disk_last d)"]
      pos[OF nth_mem[of "k - Suc (disk_last d)" es]]
    by (auto simp: disk_entry_append_log[OF ok c] intro: is_u64_le split: if_splits)
next
  fix k assume "disk_snap (set_log (entry_batch es) d) < k" "k \<le> disk_last (set_log (entry_batch es) d)"
  then show "\<exists>e. disk_entry (set_log (entry_batch es) d) k = Some e"
    using log_okD(4)[OF ok, of k] by (auto simp: disk_entry_append_log[OF ok c] disk_last_append_log[OF ok c])
qed

lemma disk_entry_remove:
  "tree_ok (log_tree d) \<Longrightarrow> disk_entry (set_log (map BRemove ks) d) k = (if k \<in> set ks then None else disk_entry d k)"
  by (simp add: disk_entry_def set_log_def batch_effect_remove)

lemma disk_entry_truncate:
  assumes "log_ok d" "i \<le> disk_last d"
  shows "disk_entry (set_log (map BRemove (incl_range i (disk_last d))) d) k = (if i \<le> k then None else disk_entry d k)"
  using assms disk_last_ge[OF assms(1), of k]
  by (cases "disk_entry d k") (auto simp: disk_entry_remove log_okD(1))

lemma disk_last_truncate:
  assumes ok: "log_ok d" and i: "0 < i" "i \<le> disk_last d"
  shows "disk_last (set_log (map BRemove (incl_range i (disk_last d))) d) = max (i - 1) (disk_snap d)"
proof -
  let ?d = "set_log (map BRemove (incl_range i (disk_last d))) d"
  have t: "tree_ok (log_tree ?d)" using log_okD(1)[OF ok] by (simp add: set_log_def)
  note entry = disk_entry_truncate[OF ok i(2)]
  have le: "disk_physical ?d \<le> i - 1"
  proof (cases "disk_physical ?d = 0")
    case False
    from disk_physical_entry[OF t False] show ?thesis
      by (auto simp: entry split: if_splits)
  qed simp
  show ?thesis
  proof (cases "disk_snap d < i - 1")
    case True
    then obtain e where "disk_entry d (i - 1) = Some e" using log_okD(4)[OF ok, of "i - 1"] i by fastforce
    then have "disk_entry ?d (i - 1) = Some e" using i by (simp add: entry)
    from disk_physical_ge[OF t this] le show ?thesis by (simp add: disk_last_def)
  next
    case False
    with le show ?thesis by (simp add: disk_last_def)
  qed
qed

lemma log_ok_truncate:
  assumes ok: "log_ok d" and i: "0 < i" "i \<le> disk_last d"
  shows "log_ok (set_log (map BRemove (incl_range i (disk_last d))) d)"
proof (rule log_okI)
  let ?d = "set_log (map BRemove (incl_range i (disk_last d))) d"
  show "tree_ok (log_tree ?d)" using log_okD(1)[OF ok] by (simp add: set_log_def)
  show "is_u64 (disk_snap ?d)" using log_okD(3)[OF ok] by simp
  fix k e assume "disk_entry ?d k = Some e"
  then show "e_index e = k \<and> 0 < k \<and> is_u64 k \<and> 0 < e_term e"
    using log_okD(2)[OF ok, of k e] by (simp add: disk_entry_truncate[OF ok i(2)] split: if_splits)
next
  let ?d = "set_log (map BRemove (incl_range i (disk_last d))) d"
  fix k assume "disk_snap ?d < k" "k \<le> disk_last ?d"
  then have k: "disk_snap d < k" "k < i" using i by (auto simp: disk_last_truncate[OF ok i])
  then show "\<exists>e. disk_entry ?d k = Some e"
    using log_okD(4)[OF ok, of k] i by (simp add: disk_entry_truncate[OF ok i(2)])
qed

lemma disk_entry_compact:
  "log_ok d \<Longrightarrow> disk_entry (set_log (map BRemove (incl_range (Suc 0) up_to)) d) k = (if k \<le> up_to then None else disk_entry d k)"
  using log_okD(2)[of d k] by (cases "disk_entry d k") (auto simp: disk_entry_remove log_okD(1))

lemma disk_last_compact:
  assumes ok: "log_ok d" and le: "up_to \<le> disk_snap d"
  shows "disk_last (set_log (map BRemove (incl_range (Suc 0) up_to)) d) = disk_last d"
proof -
  let ?d = "set_log (map BRemove (incl_range (Suc 0) up_to)) d"
  have t: "tree_ok (log_tree ?d)" using log_okD(1)[OF ok] by (simp add: set_log_def)
  have le2: "disk_physical ?d \<le> disk_physical d"
  proof (cases "disk_physical ?d = 0")
    case False
    from disk_physical_entry[OF t False] disk_physical_ge[OF log_okD(1)[OF ok]] show ?thesis
      by (auto simp: disk_entry_compact[OF ok] split: if_splits)
  qed simp
  show ?thesis
  proof (cases "disk_snap d < disk_physical d")
    case True
    with disk_physical_entry[OF log_okD(1)[OF ok]] obtain e where "disk_entry d (disk_physical d) = Some e" by auto
    with True le have "disk_entry ?d (disk_physical d) = Some e" by (simp add: disk_entry_compact[OF ok])
    from disk_physical_ge[OF t this] le2 show ?thesis by (simp add: disk_last_def)
  next
    case False
    with le2 show ?thesis by (simp add: disk_last_def)
  qed
qed

lemma log_ok_compact:
  assumes ok: "log_ok d" and le: "up_to \<le> disk_snap d"
  shows "log_ok (set_log (map BRemove (incl_range (Suc 0) up_to)) d)"
proof (rule log_okI)
  show "tree_ok (log_tree (set_log (map BRemove (incl_range (Suc 0) up_to)) d))"
    using log_okD(1)[OF ok] by (simp add: set_log_def)
  show "is_u64 (disk_snap (set_log (map BRemove (incl_range (Suc 0) up_to)) d))" using log_okD(3)[OF ok] by simp
qed (use log_okD[OF ok] le in \<open>auto simp: disk_entry_compact[OF ok] disk_last_compact[OF ok le] split: if_splits\<close>)

lemma log_ok_snapshot_metadata:
  assumes ok: "log_ok d" and i: "disk_snap d \<le> i" "is_u64 i"
  shows "log_ok (d\<lparr>meta_snapshot_index := Some i, meta_snapshot_term := Some t\<rparr>)"
    and "disk_last (d\<lparr>meta_snapshot_index := Some i, meta_snapshot_term := Some t\<rparr>) = max (disk_last d) i"
proof -
  let ?d = "d\<lparr>meta_snapshot_index := Some i, meta_snapshot_term := Some t\<rparr>"
  have v: "log_tree ?d = log_tree d" "disk_entry ?d = disk_entry d" "disk_snap ?d = i" "disk_physical ?d = disk_physical d"
    by (simp_all add: disk_entry_def disk_snap_def disk_physical_def)
  show l: "disk_last ?d = max (disk_last d) i" using i by (simp add: disk_last_def v)
  show "log_ok ?d"
    by (rule log_okI) (use log_okD[OF ok] i in \<open>auto simp: v l\<close>)
qed

subsection \<open>Reading a range\<close>

lemma sorted_range_unique:
  fixes xs ys :: "(u64 \<times> log_entry) list"
  shows "sorted_wrt (\<lambda>x y. fst x < fst y) xs \<Longrightarrow> sorted_wrt (\<lambda>x y. fst x < fst y) ys \<Longrightarrow> set xs = set ys \<Longrightarrow> xs = ys"
proof (induction xs arbitrary: ys)
  case (Cons x xs)
  then obtain y ys' where ys: "ys = y # ys'" by (cases ys) auto
  have "x = y" using Cons.prems ys by (metis dual_order.asym insertE list.set(2) list.set_intros(1) sorted_wrt.simps(2))
  moreover have "x \<notin> set xs" "y \<notin> set ys'" using Cons.prems ys by auto
  ultimately have "set xs = set ys'" using Cons.prems(3) ys by auto
  with Cons \<open>x = y\<close> ys show ?case by auto
qed simp

lemma tree_range_log:
  assumes ok: "log_ok d" and a: "disk_snap d < a" and b: "b \<le> disk_last d"
  shows "tree_range a b (log_tree d) = map (\<lambda>k. (k, the (disk_entry d k))) (incl_range a b)"
proof (rule sorted_range_unique)
  show "sorted_wrt (\<lambda>x y. fst x < fst y) (tree_range a b (log_tree d))"
    using sled.range_sorted log_okD(1)[OF ok] .
  show "sorted_wrt (\<lambda>x y. fst x < fst y) (map (\<lambda>k. (k, the (disk_entry d k))) (incl_range a b))"
    by (simp add: sorted_wrt_map incl_range_def del: upt_Suc)
  have "(k, e) \<in> set (tree_range a b (log_tree d)) \<longleftrightarrow> (k, e) \<in> set (map (\<lambda>k. (k, the (disk_entry d k))) (incl_range a b))" for k e
    using log_okD(4)[OF ok, of k] a b
    by (auto simp: sled.range_set[OF log_okD(1)[OF ok]] disk_entry_def)
  then show "set (tree_range a b (log_tree d)) = set (map (\<lambda>k. (k, the (disk_entry d k))) (incl_range a b))" by auto
qed

lemma sled_read_entries_healthy:
  assumes "healthy d" "log_ok d" "disk_snap d < a" "b \<le> disk_last d"
  shows "sled_read_entries a b d = Inr (map (\<lambda>k. the (disk_entry d k)) (incl_range a b))"
  using assms
  by (auto simp: sled_read_entries_def read_range_loop_ok healthyD tree_range_log comp_def)

end
