(* ===== verification/Tick_Config.thy ===== *)
theory Tick_Config
  imports Types
begin

text \<open>
  \<open>crates/raft-engine/src/tick.rs\<close> and \<open>config.rs\<close>: the logical clock, the election and heartbeat
  thresholds derived from the configuration, and its validation.

  Ticks and millisecond settings are 64-bit words: \<open>+\<close> and \<open>*\<close> on them are the source's
  unchecked operators (they wrap in a release build), tick subtraction saturates. The random number
  generator is a parameter: \<open>rng_state\<close> is the sequence of the range samplers it will use, one
  of which is consumed by each draw. The check of a peer URI is the parameter \<open>uri_ok\<close>.
\<close>

section \<open>Logical clock\<close>

type_synonym tick = "64 word"
type_synonym tick_duration = "64 word"

definition tick_increment :: "tick \<Rightarrow> tick" where
  "tick_increment t = t + 1"

definition tick_sub :: "tick \<Rightarrow> tick \<Rightarrow> tick_duration" where
  "tick_sub a b = (if a < b then 0 else a - b)"

record tick_thresholds =
  heartbeat_interval :: tick_duration
  min_election :: tick_duration
  max_election :: tick_duration

type_synonym rng_state = "nat \<Rightarrow> 64 word \<Rightarrow> 64 word \<Rightarrow> 64 word"

definition random_range :: "64 word \<Rightarrow> 64 word \<Rightarrow> rng_state \<Rightarrow> 64 word \<times> rng_state" where
  "random_range lo hi r = (r 0 lo hi, \<lambda>n. r (Suc n))"

definition generate_election_timeout :: "tick_thresholds \<Rightarrow> rng_state \<Rightarrow> tick_duration \<times> rng_state" where
  "generate_election_timeout th r = random_range (min_election th) (max_election th) r"

text \<open>The documented behaviour of the generator: a draw from a non-empty inclusive range lies in it.\<close>

definition rng_in_range :: "rng_state \<Rightarrow> bool" where
  "rng_in_range r \<longleftrightarrow> (\<forall>n lo hi. lo \<le> hi \<longrightarrow> lo \<le> r n lo hi \<and> r n lo hi \<le> hi)"

lemma unat_tick_sub: "unat (tick_sub a b) = unat a - unat b"
  by (auto simp: tick_sub_def word_less_nat_alt unat_sub word_le_nat_alt not_less)

lemma rng_in_range_step: "rng_in_range r \<Longrightarrow> rng_in_range (snd (generate_election_timeout th r))"
  by (simp add: rng_in_range_def generate_election_timeout_def random_range_def)

section \<open>Configuration\<close>

datatype config_error =
    SelfLoop node_id
  | TimingInvariant string
  | InvalidUri string

record raft_config =
  tick_interval_ms :: "64 word"
  heartbeat_interval_ms :: "64 word"
  election_timeout_min_ms :: "64 word"
  election_timeout_max_ms :: "64 word"
  rpc_timeout_ms :: "64 word"
  consensus_timeout_ms :: "64 word"
  snapshot_threshold :: "64 word"

definition default_raft_config :: raft_config where
  "default_raft_config =
     \<lparr>tick_interval_ms = 10, heartbeat_interval_ms = 50, election_timeout_min_ms = 150,
      election_timeout_max_ms = 300, rpc_timeout_ms = 40, consensus_timeout_ms = 30000,
      snapshot_threshold = 10000\<rparr>"

definition word_div_ceil :: "64 word \<Rightarrow> 64 word \<Rightarrow> 64 word" where
  "word_div_ceil a b = (if a mod b > 0 then a div b + 1 else a div b)"

definition calculate_thresholds :: "raft_config \<Rightarrow> tick_thresholds option" where
  "calculate_thresholds c =
     (if tick_interval_ms c = 0 then None
      else Some \<lparr>heartbeat_interval = word_div_ceil (heartbeat_interval_ms c) (tick_interval_ms c),
                 min_election = word_div_ceil (election_timeout_min_ms c) (tick_interval_ms c),
                 max_election = word_div_ceil (election_timeout_max_ms c) (tick_interval_ms c)\<rparr>)"

definition validate_raft_config :: "raft_config \<Rightarrow> config_error + unit" where
  "validate_raft_config c =
     (if tick_interval_ms c = 0 then
        Inl (TimingInvariant ''tick_interval_ms must be greater than 0'')
      else if heartbeat_interval_ms c = 0 then
        Inl (TimingInvariant ''heartbeat_interval_ms must be greater than 0'')
      else if tick_interval_ms c > heartbeat_interval_ms c then
        Inl (TimingInvariant ''tick_interval_ms must be less than or equal to heartbeat_interval_ms'')
      else if rpc_timeout_ms c = 0 then
        Inl (TimingInvariant ''rpc_timeout_ms must be greater than 0'')
      else if consensus_timeout_ms c = 0 then
        Inl (TimingInvariant ''consensus_timeout_ms must be greater than 0'')
      else if snapshot_threshold c = 0 then
        Inl (TimingInvariant ''snapshot_threshold must be greater than 0'')
      else if consensus_timeout_ms c < rpc_timeout_ms c then
        Inl (TimingInvariant ''The SLA Invariant: consensus_timeout_ms cannot be shorter than rpc_timeout_ms'')
      else if rpc_timeout_ms c \<ge> heartbeat_interval_ms c then
        Inl (TimingInvariant ''rpc_timeout_ms must be less than heartbeat_interval_ms to prevent heartbeat stacking'')
      else if election_timeout_min_ms c < heartbeat_interval_ms c * 3 then
        Inl (TimingInvariant ''ADR 003: election_timeout_min_ms must be at least 3x heartbeat_interval_ms'')
      else if election_timeout_max_ms c \<le> election_timeout_min_ms c then
        Inl (TimingInvariant ''election_timeout_max_ms must be greater than election_timeout_min_ms'')
      else Inr ())"

record policy_config =
  veto_addr :: string
  veto_timeout_ms :: "64 word"
  veto_max_retries :: nat
  max_justification_len :: nat

definition veto_endpoint :: "(string \<Rightarrow> bool) \<Rightarrow> policy_config \<Rightarrow> config_error + string" where
  "veto_endpoint uri_ok p =
     (if veto_addr p = [] then Inl (InvalidUri ''veto_addr cannot be empty'')
      else if uri_ok (veto_addr p) then Inr (veto_addr p)
      else Inl (InvalidUri ''veto_addr is invalid''))"

definition validate_policy_config :: "(string \<Rightarrow> bool) \<Rightarrow> policy_config \<Rightarrow> config_error + unit" where
  "validate_policy_config uri_ok p =
     (if veto_timeout_ms p = 0 then Inl (TimingInvariant ''veto_timeout_ms must be greater than 0'')
      else res_bind (veto_endpoint uri_ok p) (\<lambda>_. Inr ()))"

record node_config =
  cfg_cluster_id :: string
  cfg_node_id :: node_id
  cfg_peers :: "(node_id \<times> string) list"
  cfg_raft :: raft_config
  cfg_policy :: policy_config

fun validate_peers :: "(string \<Rightarrow> bool) \<Rightarrow> (node_id \<times> string) list \<Rightarrow> config_error + unit" where
  "validate_peers uri_ok [] = Inr ()"
| "validate_peers uri_ok ((i, uri) # ps) =
     (if uri = [] then Inl (InvalidUri ''Peer has an empty URI'')
      else if \<not> uri_ok uri then Inl (InvalidUri ''Peer URI is invalid'')
      else validate_peers uri_ok ps)"

definition validate_config :: "(string \<Rightarrow> bool) \<Rightarrow> node_config \<Rightarrow> config_error + unit" where
  "validate_config uri_ok c =
     (if cfg_node_id c \<in> fst ` set (cfg_peers c) then Inl (SelfLoop (cfg_node_id c))
      else res_bind (validate_peers uri_ok (cfg_peers c))
             (\<lambda>_. res_bind (validate_raft_config (cfg_raft c))
             (\<lambda>_. validate_policy_config uri_ok (cfg_policy c))))"

subsection \<open>Thresholds of a validated configuration\<close>

definition nat_div_ceil :: "nat \<Rightarrow> nat \<Rightarrow> nat" where
  "nat_div_ceil a b = (a + b - 1) div b"

lemma nat_div_ceil_cases:
  assumes "0 < b"
  shows "nat_div_ceil a b = (if a mod b > 0 then a div b + 1 else a div b)"
proof (cases "a mod b > 0")
  case True
  then have eq: "a + b - 1 = (a div b + 1) * b + (a mod b - 1)"
    using div_mult_mod_eq[of a b] add_mult_distrib[of "a div b" 1 b] by linarith
  have "a mod b - 1 < b" using assms mod_less_divisor[of b a] by linarith
  then have "((a div b + 1) * b + (a mod b - 1)) div b = a div b + 1"
    using assms by (subst div_mult_self3) simp_all
  with True show ?thesis unfolding nat_div_ceil_def eq by simp
next
  case False
  then have eq: "a + b - 1 = (a div b) * b + (b - 1)"
    using div_mult_mod_eq[of a b] assms by linarith
  have "((a div b) * b + (b - 1)) div b = a div b"
    using assms by (subst div_mult_self3) simp_all
  with False show ?thesis unfolding nat_div_ceil_def eq by simp
qed

lemma unat_word_div_ceil:
  assumes "b \<noteq> (0 :: 64 word)"
  shows "unat (word_div_ceil a b) = nat_div_ceil (unat a) (unat b)"
proof -
  have b: "0 < unat b" using assms by (simp add: unat_gt_0)
  show ?thesis
  proof (cases "a mod b > 0")
    case True
    then have m: "unat a mod unat b > 0" by (simp add: word_less_nat_alt unat_mod_distrib)
    have "unat a div unat b + 1 \<le> unat a"
    proof (cases "unat b = 1")
      case False
      with b have "2 \<le> unat b" by simp
      then have "unat a div unat b \<le> unat a div 2" by (simp add: div_le_mono2)
      moreover have "unat a > 0" using m by (cases "unat a = 0") auto
      ultimately show ?thesis by linarith
    qed (use m in simp)
    then have "unat (a div b) + 1 < 2 ^ 64" using unsigned_less[of a, where 'a = nat] by (simp add: unat_div_distrib)
    then have "unat (a div b + 1) = unat (a div b) + 1" by (simp add: unat_word_ariths)
    with True m b show ?thesis by (simp add: word_div_ceil_def unat_div_distrib nat_div_ceil_cases)
  next
    case False
    then have "unat a mod unat b = 0" by (simp add: word_less_nat_alt unat_mod_distrib not_less)
    with False b show ?thesis by (simp add: word_div_ceil_def unat_div_distrib nat_div_ceil_cases)
  qed
qed

lemma nat_div_ceil_mono: "0 < b \<Longrightarrow> x \<le> y \<Longrightarrow> nat_div_ceil x b \<le> nat_div_ceil y b"
  by (simp add: nat_div_ceil_def div_le_mono)

lemma nat_div_ceil_gap:
  assumes "0 < b" "x + b \<le> y"
  shows "nat_div_ceil x b < nat_div_ceil y b"
proof -
  have "(x + b + b - 1) div b \<le> (y + b - 1) div b" using assms by (intro div_le_mono) simp
  moreover have "(x + b + b - 1) div b = (x + b - 1) div b + 1"
    using assms div_add_self2[of b "x + b - 1"] by (simp add: algebra_simps)
  ultimately show ?thesis by (simp add: nat_div_ceil_def)
qed

lemma nat_div_ceil_pos: "0 < b \<Longrightarrow> 0 < x \<Longrightarrow> 0 < nat_div_ceil x b"
  by (simp add: nat_div_ceil_def div_greater_zero_iff)

lemma validate_raft_config_ok:
  assumes "validate_raft_config c = Inr ()"
  shows "tick_interval_ms c \<noteq> 0" "0 < unat (heartbeat_interval_ms c)"
    "unat (tick_interval_ms c) \<le> unat (heartbeat_interval_ms c)"
    "unat (heartbeat_interval_ms c * 3) \<le> unat (election_timeout_min_ms c)"
    "unat (election_timeout_min_ms c) < unat (election_timeout_max_ms c)"
  using assms
  by (auto simp: validate_raft_config_def word_less_nat_alt word_le_nat_alt unat_gt_0 not_less not_le
      split: if_splits)

text \<open>
  A configuration that passes \<open>RaftConfig::validate\<close>, and whose heartbeat interval times three
  fits 64 bits, yields thresholds in which a follower that draws any election timeout waits for longer
  than a heartbeat interval: \<open>calculate_thresholds\<close> does not panic, and the drawn timeout lies
  in the configured range, above the non-zero heartbeat interval.
\<close>
theorem validated_timing:
  assumes "validate_raft_config c = Inr ()" and "3 * unat (heartbeat_interval_ms c) < 2 ^ 64"
    and "rng_in_range r"
  shows "\<exists>th. calculate_thresholds c = Some th \<and> 0 < heartbeat_interval th
     \<and> heartbeat_interval th < fst (generate_election_timeout th r)
     \<and> min_election th \<le> fst (generate_election_timeout th r)
     \<and> fst (generate_election_timeout th r) \<le> max_election th"
proof -
  note v = validate_raft_config_ok[OF assms(1)]
  let ?t = "unat (tick_interval_ms c)"
  obtain th where th: "calculate_thresholds c = Some th" using v(1) by (simp add: calculate_thresholds_def)
  then have u: "unat (heartbeat_interval th) = nat_div_ceil (unat (heartbeat_interval_ms c)) ?t"
    "unat (min_election th) = nat_div_ceil (unat (election_timeout_min_ms c)) ?t"
    "unat (max_election th) = nat_div_ceil (unat (election_timeout_max_ms c)) ?t"
    using v(1) by (auto simp: calculate_thresholds_def unat_word_div_ceil)
  have t: "0 < ?t" using v(1) by (simp add: unat_gt_0)
  have "unat (heartbeat_interval_ms c * 3) = 3 * unat (heartbeat_interval_ms c)"
    using assms(2) by (simp add: unat_word_ariths mult.commute)
  with v have "unat (heartbeat_interval_ms c) + ?t \<le> unat (election_timeout_min_ms c)" by linarith
  from nat_div_ceil_gap[OF t this] have "heartbeat_interval th < min_election th" by (simp add: word_less_nat_alt u)
  moreover have "min_election th \<le> max_election th"
    using v(5) t by (simp add: word_le_nat_alt u nat_div_ceil_mono)
  moreover have "0 < heartbeat_interval th"
    using v(2) t by (simp add: word_less_nat_alt u nat_div_ceil_pos)
  ultimately show ?thesis
    using th assms(3) by (auto simp: generate_election_timeout_def random_range_def rng_in_range_def intro: less_le_trans)
qed

theorem validated_timing_witness:
  "\<exists>th. calculate_thresholds default_raft_config = Some th
     \<and> heartbeat_interval th < fst (generate_election_timeout th (\<lambda>n lo hi. lo))"
proof -
  have "validate_raft_config default_raft_config = Inr ()"
    by (simp add: validate_raft_config_def default_raft_config_def)
  moreover have "3 * unat (heartbeat_interval_ms default_raft_config) < 2 ^ 64"
    by (simp add: default_raft_config_def)
  moreover have "rng_in_range (\<lambda>n lo hi. lo)" by (simp add: rng_in_range_def)
  ultimately show ?thesis using validated_timing[of default_raft_config "\<lambda>n lo hi. lo"] by blast
qed

text \<open>
  The ratio check multiplies without an overflow check, so in a build where \<open>*\<close> wraps a
  configuration passes although its heartbeat threshold exceeds its largest election timeout: every
  follower would then time out between two heartbeats.
\<close>
theorem ratio_check_wraps:
  "\<exists>c th. validate_raft_config c = Inr () \<and> calculate_thresholds c = Some th
     \<and> max_election th < heartbeat_interval th"
proof -
  let ?c = "default_raft_config\<lparr>heartbeat_interval_ms := 6148914691236517206\<rparr>"
  have "validate_raft_config ?c = Inr ()"
    by (simp add: validate_raft_config_def default_raft_config_def word_less_nat_alt word_le_nat_alt)
  moreover have "\<exists>th. calculate_thresholds ?c = Some th \<and> max_election th < heartbeat_interval th"
    by (simp add: calculate_thresholds_def default_raft_config_def word_div_ceil_def word_less_nat_alt
        unat_div_distrib unat_mod_distrib unat_word_ariths)
  ultimately show ?thesis by blast
qed

end
