(* ===== verification/Raft_Node.thy ===== *)
theory Raft_Node
  imports Log_Storage Tick_Config "HOL-Library.AList"
begin

text \<open>
  \<open>crates/raft-engine/src/node\<close>: the physical node \<open>RaftNode<R>\<close> and its four roles.

  \<open>'r raft_node\<close> is the struct without its storage handle; the store it points to is passed beside
  it, because the handle is shared and the store outlives the node. A method that takes \<open>&mut self\<close> is a
  procedure on the pair, a method that consumes the node and only touches the store is a procedure
  on the store that returns the new node. Hash maps are association lists updated by key, hash sets
  are sets.
\<close>

section \<open>Roles\<close>

datatype tick_action = NoAction | StartElection | StartPreVote | StepDown | SendHeartbeat | Stop

record follower =
  leader_id :: "node_id option"
  f_last_heartbeat :: tick
  f_timeout :: tick_duration

record pre_candidate =
  campaign_start :: tick
  pc_timeout :: tick_duration

record candidate =
  votes_received :: "node_id set"
  election_start :: tick
  c_timeout :: tick_duration

record leader =
  next_index :: "(node_id \<times> log_index) list"
  match_index :: "(node_id \<times> log_index) list"
  l_last_heartbeat :: tick
  current_read_epoch :: "64 word"
  confirmed_read_epoch :: "64 word"
  heartbeat_acks :: "node_id set"

record 'r raft_node =
  identity :: node_identity
  last_committed :: log_index
  last_applied :: log_index
  state :: 'r

definition new_follower :: "node_id option \<Rightarrow> tick \<Rightarrow> tick_duration \<Rightarrow> follower" where
  "new_follower l hb t = \<lparr>leader_id = l, f_last_heartbeat = hb, f_timeout = t\<rparr>"

definition new_candidate :: "tick \<Rightarrow> tick_duration \<Rightarrow> candidate" where
  "new_candidate s t = \<lparr>votes_received = {}, election_start = s, c_timeout = t\<rparr>"

definition add_vote :: "node_id \<Rightarrow> candidate \<Rightarrow> candidate" where
  "add_vote p c = c\<lparr>votes_received := insert p (votes_received c)\<rparr>"

definition vote_count :: "candidate \<Rightarrow> nat" where
  "vote_count c = card (votes_received c)"

definition follower_evaluate_tick :: "follower \<Rightarrow> tick \<Rightarrow> tick_action" where
  "follower_evaluate_tick f now =
     (if now \<ge> f_last_heartbeat f \<and> tick_sub now (f_last_heartbeat f) \<ge> f_timeout f
      then StartPreVote else NoAction)"

definition pre_candidate_evaluate_tick :: "pre_candidate \<Rightarrow> tick \<Rightarrow> tick_action" where
  "pre_candidate_evaluate_tick p now =
     (if tick_sub now (campaign_start p) \<ge> pc_timeout p then StepDown else NoAction)"

definition candidate_evaluate_tick :: "candidate \<Rightarrow> tick \<Rightarrow> tick_action" where
  "candidate_evaluate_tick c now =
     (if tick_sub now (election_start c) \<ge> c_timeout c then StartElection else NoAction)"

definition leader_evaluate_tick :: "leader \<Rightarrow> tick \<Rightarrow> tick_duration \<Rightarrow> tick_action" where
  "leader_evaluate_tick l now threshold =
     (if tick_sub now (l_last_heartbeat l) \<ge> threshold then SendHeartbeat else NoAction)"

fun leader_init ::
  "node_id list \<Rightarrow> log_index \<Rightarrow> (node_id \<times> log_index) list \<Rightarrow> (node_id \<times> log_index) list
    \<Rightarrow> arithmetic_error + (node_id \<times> log_index) list \<times> (node_id \<times> log_index) list" where
  "leader_init [] last_idx nx mt = Inr (nx, mt)"
| "leader_init (p # ps) last_idx nx mt =
     res_bind (log_index_add last_idx 1) (\<lambda>n. leader_init ps last_idx (AList.update p n nx) (AList.update p 0 mt))"

definition new_leader :: "node_id list \<Rightarrow> log_index \<Rightarrow> tick \<Rightarrow> node_error + leader" where
  "new_leader peer_ids last_idx hb =
     res_bind (map_err Arithmetic (leader_init peer_ids last_idx [] []))
       (\<lambda>(nx, mt). Inr \<lparr>next_index = nx, match_index = mt, l_last_heartbeat = hb,
                        current_read_epoch = 0, confirmed_read_epoch = 0, heartbeat_acks = {}\<rparr>)"

definition prepare_read_probe :: "node_id \<Rightarrow> leader \<Rightarrow> 64 word \<times> leader" where
  "prepare_read_probe self_id l =
     (let l' = (if confirmed_read_epoch l = current_read_epoch l
                then l\<lparr>current_read_epoch := current_read_epoch l + 1, heartbeat_acks := {self_id}\<rparr>
                else l)
      in (current_read_epoch l', l'))"

definition acknowledge_heartbeat :: "node_id \<Rightarrow> nat \<Rightarrow> leader \<Rightarrow> leader" where
  "acknowledge_heartbeat peer quorum_size l =
     (let l' = l\<lparr>heartbeat_acks := insert peer (heartbeat_acks l)\<rparr>
      in if card (heartbeat_acks l') \<ge> quorum_size
         then l'\<lparr>confirmed_read_epoch := current_read_epoch l'\<rparr> else l')"

section \<open>Shared container\<close>

type_synonym 'a reader = "log_store \<Rightarrow> node_error + 'a"
type_synonym 'a disk_proc = "(log_store, node_error, 'a) proc"
type_synonym ('r, 'a) node_proc = "('r raft_node \<times> log_store, node_error, 'a) proc"

definition node_read :: "(log_store \<Rightarrow> log_storage_error + 'a) \<Rightarrow> 'a reader" where
  "node_read f d = map_err node_error_of_storage (f d)"

definition node_write :: "(log_store, log_storage_error, 'a) proc \<Rightarrow> 'a disk_proc" where
  "node_write p d = (let (r, d') = p d in (map_err node_error_of_storage r, d'))"

definition on_disk :: "'a disk_proc \<Rightarrow> ('n \<times> log_store, node_error, 'a) proc" where
  "on_disk p = (\<lambda>(n, d). let (r, d') = p d in (r, n, d'))"

definition node_transition :: "'r raft_node \<Rightarrow> 's \<Rightarrow> 's raft_node" where
  "node_transition n st =
     \<lparr>identity = identity n, last_committed = last_committed n, last_applied = last_applied n, state = st\<rparr>"

definition get_term_at :: "log_index \<Rightarrow> raft_term reader" where
  "get_term_at i d =
     (if i = 0 then Inr 0
      else res_bind (node_read sled_last_included_index d)
             (\<lambda>last_included.
                if i = last_included then node_read sled_last_included_term d
                else map_ok (\<lambda>x. case x of None \<Rightarrow> 0 | Some e \<Rightarrow> e_term e)
                       (node_read (sled_read_entry i) d)))"

definition advance_term :: "raft_term \<Rightarrow> unit disk_proc" where
  "advance_term t =
     st_bind (st_read (node_read sled_current_term))
       (\<lambda>current.
          if t < current then st_fail (Protocol ''Term regression detected!'')
          else if t > current then node_write (sled_save_hard_state t None)
          else st_return ())"

definition advance_term_and_vote :: "raft_term \<Rightarrow> node_id \<Rightarrow> unit disk_proc" where
  "advance_term_and_vote t vote =
     st_bind (st_read (node_read sled_current_term))
       (\<lambda>current.
          if t < current then st_fail (Protocol ''Term regression detected!'')
          else node_write (sled_save_hard_state t (Some vote)))"

definition persist_vote :: "node_id \<Rightarrow> unit disk_proc" where
  "persist_vote candidate_id =
     st_bind (st_read (node_read sled_current_term))
       (\<lambda>t. node_write (sled_save_hard_state t (Some candidate_id)))"

definition try_into_follower ::
  "'r raft_node \<Rightarrow> raft_term \<Rightarrow> node_id option \<Rightarrow> tick \<Rightarrow> tick_duration \<Rightarrow> follower raft_node disk_proc" where
  "try_into_follower n t leader hb timeout =
     (let node = node_transition n (new_follower leader hb timeout)
      in st_bind (advance_term t) (\<lambda>_. st_return node))"

section \<open>Commit index\<close>

definition update_commit_index_only :: "log_index \<Rightarrow> ('r, unit) node_proc" where
  "update_commit_index_only i =
     st_bind (st_gets (\<lambda>(n, _). last_committed n))
       (\<lambda>lc. if i < lc then st_return ()
        else st_bind (on_disk (st_read (node_read sled_last_log_index)))
          (\<lambda>last_idx.
             if i > last_idx then st_fail (Protocol ''Attempted to commit index beyond last_log_index'')
             else if i > lc then
               st_bind (on_disk (node_write (sled_save_last_committed i)))
                 (\<lambda>_. st_modify (\<lambda>(n, d). (n\<lparr>last_committed := i\<rparr>, d)))
             else st_return ()))"

definition advance_last_committed :: "log_index \<Rightarrow> ('r, unit) node_proc" where
  "advance_last_committed i = st_bind (update_commit_index_only i) (\<lambda>_. st_return ())"

definition advance_horizon_after_snapshot :: "log_index \<Rightarrow> ('r, unit) node_proc" where
  "advance_horizon_after_snapshot i =
     st_bind (update_commit_index_only i) (\<lambda>_. st_modify (\<lambda>(n, d). (n\<lparr>last_applied := i\<rparr>, d)))"

section \<open>Follower\<close>

record reconciliation_result =
  rec_success :: bool
  rec_last_index :: log_index

definition reconciled :: "bool \<Rightarrow> log_index \<Rightarrow> reconciliation_result" where
  "reconciled ok i = \<lparr>rec_success = ok, rec_last_index = i\<rparr>"

definition try_new_with_applied ::
  "node_identity \<Rightarrow> log_index \<Rightarrow> tick \<Rightarrow> tick_duration \<Rightarrow> follower raft_node reader" where
  "try_new_with_applied ident applied hb timeout d =
     res_bind (node_read sled_last_committed d)
       (\<lambda>lc. Inr \<lparr>identity = ident, last_committed = lc, last_applied = applied,
                  state = new_follower None hb timeout\<rparr>)"

definition verify_log_consistency :: "log_index \<Rightarrow> raft_term \<Rightarrow> bool reader" where
  "verify_log_consistency prev_log_index prev_log_term d =
     (if prev_log_index = 0 then Inr True
      else res_bind (node_read sled_last_log_index d)
             (\<lambda>last_idx.
                if prev_log_index > last_idx then Inr False
                else res_bind (get_term_at prev_log_index d)
                       (\<lambda>local_term. Inr (local_term = prev_log_term))))"

definition is_log_up_to_date :: "raft_term \<Rightarrow> log_index \<Rightarrow> bool reader" where
  "is_log_up_to_date cand_term cand_index d =
     res_bind (node_read sled_last_log_term d)
       (\<lambda>local_last_term. res_bind (node_read sled_last_log_index d)
          (\<lambda>local_last_index.
             if cand_term \<noteq> local_last_term then Inr (cand_term > local_last_term)
             else Inr (cand_index \<ge> local_last_index)))"

fun conflict_scan :: "log_entry list \<Rightarrow> unit disk_proc" where
  "conflict_scan [] = st_return ()"
| "conflict_scan (e # es) =
     st_bind (st_read (get_term_at (e_index e)))
       (\<lambda>local_term.
          if local_term \<noteq> 0 \<and> local_term \<noteq> e_term e then node_write (sled_truncate_log (e_index e))
          else conflict_scan es)"

fun collect_new :: "log_index \<Rightarrow> log_entry list \<Rightarrow> node_error + log_entry list option" where
  "collect_new next_expected [] = Inr (Some [])"
| "collect_new next_expected (e # es) =
     (if e_index e \<ge> next_expected then
        if e_index e \<noteq> next_expected then Inr None
        else res_bind (map_err Arithmetic (log_index_add next_expected 1))
               (\<lambda>n. map_ok (map_option ((#) e)) (collect_new n es))
      else collect_new next_expected es)"

definition commit_target :: "log_index \<Rightarrow> log_entry list \<Rightarrow> (follower, log_index option) node_proc" where
  "commit_target leader_commit to_append =
     st_bind (st_gets (\<lambda>(n, _). last_committed n))
       (\<lambda>lc. if leader_commit > lc then
          st_bind (if to_append \<noteq> [] then st_return (e_index (last to_append))
                   else on_disk (st_read (node_read sled_last_log_index)))
            (\<lambda>last_new_idx. st_return (Some (min leader_commit last_new_idx)))
        else st_return None)"

definition persist_reconciled :: "log_entry list \<Rightarrow> log_index option \<Rightarrow> (follower, unit) node_proc" where
  "persist_reconciled to_append commit_advance =
     (case (to_append = [], commit_advance) of
        (True, None) \<Rightarrow> st_return ()
      | (True, Some commit) \<Rightarrow>
          st_bind (on_disk (node_write (sled_save_last_committed commit)))
            (\<lambda>_. st_modify (\<lambda>(n, d). (n\<lparr>last_committed := commit\<rparr>, d)))
      | (False, None) \<Rightarrow> on_disk (node_write (sled_append_entries to_append))
      | (False, Some commit) \<Rightarrow>
          st_bind (on_disk (node_write (sled_append_entries_and_advance_commit to_append commit)))
            (\<lambda>_. st_modify (\<lambda>(n, d). (n\<lparr>last_committed := commit\<rparr>, d))))"

definition reconcile_log ::
  "log_index \<Rightarrow> raft_term \<Rightarrow> log_entry list \<Rightarrow> log_index \<Rightarrow> (follower, reconciliation_result) node_proc" where
  "reconcile_log prev_log_index prev_log_term entries leader_commit =
     (let last_log_index = on_disk (st_read (node_read sled_last_log_index));
          report = (\<lambda>ok. st_bind last_log_index (\<lambda>l. st_return (reconciled ok l)))
      in st_bind (on_disk (st_read (verify_log_consistency prev_log_index prev_log_term)))
        (\<lambda>consistent. if \<not> consistent then report False
         else st_bind (on_disk (conflict_scan entries))
        (\<lambda>_. st_bind last_log_index
        (\<lambda>l. st_bind (st_read (\<lambda>_. map_err Arithmetic (log_index_add l 1)))
        (\<lambda>next_expected. st_bind (st_read (\<lambda>_. collect_new next_expected entries))
        (\<lambda>collected. case collected of
            None \<Rightarrow> report False
          | Some to_append \<Rightarrow>
              st_bind (commit_target leader_commit to_append)
                (\<lambda>commit_advance. st_bind (persist_reconciled to_append commit_advance)
                (\<lambda>_. report True))))))))"

definition attempt_grant_vote ::
  "node_id \<Rightarrow> raft_term \<Rightarrow> log_index \<Rightarrow> raft_term \<Rightarrow> bool disk_proc" where
  "attempt_grant_vote candidate_id req_term req_last_log_index req_last_log_term =
     st_bind (st_read (node_read sled_current_term))
       (\<lambda>current. st_bind (st_read (node_read sled_voted_for))
       (\<lambda>voted_for.
          if req_term = current \<and> (voted_for = None \<or> voted_for = Some candidate_id) then
            st_bind (st_read (is_log_up_to_date req_last_log_term req_last_log_index))
              (\<lambda>up_to_date. if up_to_date then st_bind (persist_vote candidate_id) (\<lambda>_. st_return True)
                            else st_return False)
          else st_return False))"

definition grant_pre_vote :: "node_id \<Rightarrow> raft_term \<Rightarrow> log_index \<Rightarrow> raft_term \<Rightarrow> bool reader" where
  "grant_pre_vote candidate_id req_term req_last_log_index req_last_log_term d =
     res_bind (node_read sled_current_term d)
       (\<lambda>current. if req_term < current then Inr False
                  else is_log_up_to_date req_last_log_term req_last_log_index d)"

section \<open>Role changes\<close>

definition start_campaign :: "'r raft_node \<Rightarrow> tick \<Rightarrow> tick_duration \<Rightarrow> candidate raft_node disk_proc" where
  "start_campaign n start timeout =
     st_bind (st_read (node_read sled_current_term))
       (\<lambda>current.
          let node = node_transition n (new_candidate start timeout)
          in st_bind (st_read (\<lambda>_. map_err Arithmetic (term_add current 1)))
               (\<lambda>new_term.
                  let me = node_id (identity node)
                  in st_bind (advance_term_and_vote new_term me)
                       (\<lambda>_. st_return (node\<lparr>state := add_vote me (state node)\<rparr>))))"

definition follower_try_into_candidate :: "follower raft_node \<Rightarrow> tick \<Rightarrow> tick_duration \<Rightarrow> candidate raft_node disk_proc" where
  "follower_try_into_candidate n start timeout = start_campaign n start timeout"

definition pre_candidate_try_into_candidate ::
  "pre_candidate raft_node \<Rightarrow> tick \<Rightarrow> tick_duration \<Rightarrow> candidate raft_node disk_proc" where
  "pre_candidate_try_into_candidate n start timeout = start_campaign n start timeout"

definition try_into_restarted_candidate ::
  "candidate raft_node \<Rightarrow> tick \<Rightarrow> tick_duration \<Rightarrow> candidate raft_node disk_proc" where
  "try_into_restarted_candidate n start timeout = start_campaign n start timeout"

definition try_into_pre_candidate :: "follower raft_node \<Rightarrow> tick \<Rightarrow> tick_duration \<Rightarrow> pre_candidate raft_node" where
  "try_into_pre_candidate n start timeout = node_transition n \<lparr>campaign_start = start, pc_timeout = timeout\<rparr>"

definition try_into_leader :: "candidate raft_node \<Rightarrow> node_id list \<Rightarrow> tick \<Rightarrow> leader raft_node reader" where
  "try_into_leader n peer_ids hb d =
     res_bind (node_read sled_last_log_index d)
       (\<lambda>l_idx. res_bind (new_leader peer_ids l_idx hb) (\<lambda>l. Inr (node_transition n l)))"

definition leader_propose :: "bytes \<Rightarrow> log_index disk_proc" where
  "leader_propose command =
     st_bind (st_read (node_read sled_last_log_index))
       (\<lambda>last_idx. st_bind (st_read (\<lambda>_. map_err Arithmetic (log_index_add last_idx 1)))
       (\<lambda>i. st_bind (st_read (node_read sled_current_term))
       (\<lambda>t. st_bind (node_write (sled_append_entries [new_log_entry i t command]))
       (\<lambda>_. st_return i))))"

section \<open>Hard state discipline\<close>

text \<open>
  \<open>vote_le\<close> is what a node promises about its persisted hard state: the term never decreases, and
  within a term a vote that was cast stays. Every procedure of the node keeps it, whatever the
  storage does.
\<close>

definition vote_le :: "log_store \<Rightarrow> log_store \<Rightarrow> bool" where
  "vote_le d d' \<longleftrightarrow>
     disk_term d < disk_term d' \<or>
     disk_term d = disk_term d' \<and> (disk_vote d = None \<or> disk_vote d' = disk_vote d)"

interpretation hs: run_preorder vote_le
  by unfold_locales (auto simp: vote_le_def)

lemma vote_le_term: "vote_le d d' \<Longrightarrow> disk_term d \<le> disk_term d'"
  by (auto simp: vote_le_def)

lemma vote_le_same_hard_state: "meta_hard_state d' = meta_hard_state d \<Longrightarrow> vote_le d d'"
  by (simp add: vote_le_def disk_term_def disk_vote_def)

lemma node_read_Inr: "node_read f d = Inr x \<longleftrightarrow> f d = Inr x"
  by (simp add: node_read_def)

lemma node_read_healthy [simp]: "f d = Inr x \<Longrightarrow> node_read f d = Inr x"
  by (simp add: node_read_def)

lemma node_write_eq [simp]: "p d = (r, d') \<Longrightarrow> node_write p d = (map_err node_error_of_storage r, d')"
  by (simp add: node_write_def)

lemma node_writeE:
  assumes "node_write p d = (r, d')"
  obtains r' where "p d = (r', d')" "r = map_err node_error_of_storage r'"
  using assms by (cases "p d") (auto simp: node_write_def)

lemma on_disk_apply: "on_disk p (n, d) = (fst (p d), n, snd (p d))"
  by (simp add: on_disk_def split: prod.splits)

lemma on_disk_read [simp]: "on_disk (st_read f) = st_read (\<lambda>(n, d). f d)"
  by (rule ext) (auto simp: on_disk_def)

lemma run_rel_node_write: "run_rel R p \<Longrightarrow> run_rel R (node_write p)"
  by (auto simp: run_rel_def node_write_def split: prod.splits) (metis snd_conv)

lemma save_hard_state_vote_le:
  assumes "disk_term d < t \<or> t = disk_term d \<and> disk_vote d \<in> {None, v}"
    and "sled_save_hard_state t v d = (r, d')"
  shows "vote_le d d'"
  using save_hard_state_cases[OF assms(2)] assms(1)
  by (auto simp: hs.refl) (auto simp: vote_le_def disk_vote_set_hard_state disk_vote_valid)

text \<open>The writes that do not concern the hard state leave it as it is.\<close>

definition hard_same :: "log_store \<Rightarrow> log_store \<Rightarrow> bool" where
  "hard_same d d' \<longleftrightarrow> meta_hard_state d' = meta_hard_state d"

interpretation hsame: run_preorder hard_same
  by unfold_locales (auto simp: hard_same_def)

lemma hard_same_vote_le: "hard_same d d' \<Longrightarrow> vote_le d d'"
  by (simp add: hard_same_def vote_le_same_hard_state)

lemma storage_hard_same:
  "run_rel hard_same (sled_append_entries es)"
  "run_rel hard_same (sled_append_entries_and_advance_commit es c)"
  "run_rel hard_same (sled_save_last_committed i)"
  "run_rel hard_same (sled_truncate_log i)"
  "run_rel hard_same (sled_truncate_log_front i)"
  "run_rel hard_same (sled_save_snapshot_metadata i t)"
  by (rule run_relI, auto simp: hard_same_def dest!: append_entries_cases append_and_commit_cases
      save_last_committed_cases truncate_log_cases truncate_log_front_cases save_snapshot_metadata_cases)+

lemma advance_term_vote_le: "run_rel vote_le (advance_term t)"
proof (rule run_relI)
  fix d r d' assume a: "advance_term t d = (r, d')"
  show "vote_le d d'"
  proof (cases "sled_current_term d")
    case (Inr cur)
    then have "cur = disk_term d" by (rule sled_current_term_Inr)
    with Inr a show ?thesis
      by (auto simp: advance_term_def hs.refl split: if_splits elim!: node_writeE intro: save_hard_state_vote_le)
  qed (use a in \<open>simp add: advance_term_def node_read_def hs.refl\<close>)
qed

lemma attempt_grant_vote_vote_le: "run_rel vote_le (attempt_grant_vote c t li lt)"
proof (rule run_relI)
  fix d r d' assume a: "attempt_grant_vote c t li lt d = (r, d')"
  then show "vote_le d d'"
    unfolding attempt_grant_vote_def persist_vote_def
    by (auto simp: node_read_Inr hs.refl split: sum.splits if_splits
        elim!: st_bind_cases node_writeE dest!: sled_current_term_Inr sled_voted_for_Inr
        intro: save_hard_state_vote_le)
qed

lemma start_campaign_vote_le: "run_rel vote_le (start_campaign n s tmo)"
proof (rule run_relI)
  fix d r d' assume a: "start_campaign n s tmo d = (r, d')"
  show "vote_le d d'"
  proof (cases "sled_current_term d")
    case (Inr cur)
    then have cur: "cur = disk_term d" by (rule sled_current_term_Inr)
    show ?thesis using a Inr cur
      by (auto simp: start_campaign_def advance_term_and_vote_def Let_def hs.refl split: sum.splits
          elim!: st_bind_cases node_writeE intro: save_hard_state_vote_le)
  qed (use a in \<open>simp add: start_campaign_def node_read_def hs.refl\<close>)
qed

lemma leader_propose_hard_same: "run_rel hard_same (leader_propose cmd)"
  unfolding leader_propose_def by (intro hsame.run_intros run_rel_node_write storage_hard_same)

lemma try_into_follower_vote_le: "run_rel vote_le (try_into_follower n t l hb tmo)"
  unfolding try_into_follower_def Let_def by (intro hs.run_intros advance_term_vote_le)

lemma conflict_scan_hard_same: "run_rel hard_same (conflict_scan es)"
proof (induction es)
  case Nil
  show ?case unfolding conflict_scan.simps by (rule hsame.run_return)
next
  case (Cons e es)
  then show ?case
    unfolding conflict_scan.simps by (intro hsame.run_intros run_rel_node_write storage_hard_same)
qed

text \<open>
  The procedures on a node and its store that change neither the identity, nor the role data, nor
  the hard state: commit advancement and log reconciliation.
\<close>

definition quiet :: "'r raft_node \<times> log_store \<Rightarrow> 'r raft_node \<times> log_store \<Rightarrow> bool" where
  "quiet s s' \<longleftrightarrow> identity (fst s') = identity (fst s) \<and> state (fst s') = state (fst s) \<and> hard_same (snd s) (snd s')"

interpretation quiet: run_preorder "quiet :: 'r raft_node \<times> log_store \<Rightarrow> 'r raft_node \<times> log_store \<Rightarrow> bool"
  by unfold_locales (auto simp: quiet_def hard_same_def)

lemma on_disk_quiet: "run_rel hard_same p \<Longrightarrow> run_rel quiet (on_disk p)"
  by (auto simp: run_rel_def quiet_def on_disk_apply)

lemma modify_quiet:
  "run_rel quiet (st_modify (\<lambda>(n, d). (n\<lparr>last_committed := i\<rparr>, d)))"
  "run_rel quiet (st_modify (\<lambda>(n, d). (n\<lparr>last_applied := i\<rparr>, d)))"
  by (auto simp: run_rel_def quiet_def hard_same_def)

lemmas quiet_intros = quiet.run_intros modify_quiet on_disk_quiet run_rel_node_write storage_hard_same

lemma update_commit_quiet: "run_rel quiet (update_commit_index_only i)"
  unfolding update_commit_index_only_def on_disk_read by (intro quiet_intros)

lemma advance_last_committed_quiet: "run_rel quiet (advance_last_committed i)"
  unfolding advance_last_committed_def by (intro quiet_intros update_commit_quiet)

lemma advance_horizon_quiet: "run_rel quiet (advance_horizon_after_snapshot i)"
  unfolding advance_horizon_after_snapshot_def by (intro quiet_intros update_commit_quiet)

lemma persist_reconciled_quiet: "run_rel quiet (persist_reconciled es c)"
  unfolding persist_reconciled_def by (cases "es = []"; cases c) (simp_all add: quiet_intros)

lemma commit_target_quiet: "run_rel quiet (commit_target lc es)"
  unfolding commit_target_def on_disk_read by (intro quiet_intros)

lemma reconcile_log_quiet: "run_rel quiet (reconcile_log pi pt es lc)"
  unfolding reconcile_log_def Let_def on_disk_read
  by (intro quiet_intros conflict_scan_hard_same)
    (auto split: option.splits intro!: quiet_intros commit_target_quiet persist_reconciled_quiet)

end
