(* ===== verification/Reconciliation.thy ===== *)
theory Reconciliation
  imports Raft_Node
begin

text \<open>
  What the follower's procedures of \<open>Raft_Node\<close> compute on a store whose calls succeed: the term
  read at an index, the log comparison of a vote, the grant of a vote, and the reconciliation of
  the log with a leader's entries, branch by branch.
\<close>

section \<open>Reads\<close>

definition disk_term_at :: "log_store \<Rightarrow> log_index \<Rightarrow> raft_term" where
  "disk_term_at d i =
     (if i = 0 then 0
      else if i = disk_snap d then unwrap_or (meta_snapshot_term d) 0
      else case disk_entry d i of None \<Rightarrow> 0 | Some e \<Rightarrow> e_term e)"

definition disk_last_term :: "log_store \<Rightarrow> raft_term" where
  "disk_last_term d =
     (let p = (case tree_last (log_tree d) of None \<Rightarrow> 0 | Some (_, e) \<Rightarrow> e_term e)
      in if p > 0 then p else unwrap_or (meta_snapshot_term d) 0)"

definition up_to_date :: "raft_term \<Rightarrow> log_index \<Rightarrow> log_store \<Rightarrow> bool" where
  "up_to_date t i d \<longleftrightarrow> t > disk_last_term d \<or> t = disk_last_term d \<and> i \<ge> disk_last d"

lemma get_term_at_healthy [simp]: "healthy d \<Longrightarrow> get_term_at i d = Inr (disk_term_at d i)"
  by (simp add: get_term_at_def disk_term_at_def node_read_def)

lemma sled_last_log_term_healthy [simp]: "healthy d \<Longrightarrow> sled_last_log_term d = Inr (disk_last_term d)"
  by (auto simp: sled_last_log_term_def disk_last_term_def healthyD Let_def split: option.splits)

lemma is_log_up_to_date_healthy [simp]: "healthy d \<Longrightarrow> is_log_up_to_date t i d = Inr (up_to_date t i d)"
  by (auto simp: is_log_up_to_date_def up_to_date_def node_read_def)

definition log_matches :: "log_index \<Rightarrow> raft_term \<Rightarrow> log_store \<Rightarrow> bool" where
  "log_matches i t d \<longleftrightarrow> i = 0 \<or> i \<le> disk_last d \<and> disk_term_at d i = t"

lemma verify_log_consistency_healthy [simp]:
  "healthy d \<Longrightarrow> verify_log_consistency i t d = Inr (log_matches i t d)"
  by (auto simp: verify_log_consistency_def log_matches_def node_read_def)

section \<open>Votes\<close>

lemma attempt_grant_vote_healthy:
  assumes "healthy d" "hard_state_ok d"
  shows "attempt_grant_vote c t li lt d =
    (if t = disk_term d \<and> disk_vote d \<in> {None, Some c} \<and> up_to_date lt li d
     then (Inr True, set_hard_state t (Some c) d) else (Inr False, d))"
  using assms by (auto simp: attempt_grant_vote_def persist_vote_def node_read_def st_bind_def)

lemma grant_pre_vote_healthy:
  assumes "healthy d" "hard_state_ok d"
  shows "grant_pre_vote c t li lt d = Inr (disk_term d \<le> t \<and> up_to_date lt li d)"
  using assms by (auto simp: grant_pre_vote_def node_read_def)

section \<open>Conflicts\<close>

definition conflicts :: "log_store \<Rightarrow> log_entry \<Rightarrow> bool" where
  "conflicts d e \<longleftrightarrow> disk_term_at d (e_index e) \<noteq> 0 \<and> disk_term_at d (e_index e) \<noteq> e_term e"

definition cut_log :: "log_index \<Rightarrow> log_store \<Rightarrow> log_store" where
  "cut_log i d = (if i > disk_last d then d else set_log (map BRemove (incl_range i (disk_last d))) d)"

definition after_conflicts :: "log_entry list \<Rightarrow> log_store \<Rightarrow> log_store" where
  "after_conflicts es d = (case find (conflicts d) es of None \<Rightarrow> d | Some e \<Rightarrow> cut_log (e_index e) d)"

lemma conflict_scan_healthy [simp]:
  "healthy d \<Longrightarrow> conflict_scan es d = (Inr (), after_conflicts es d)"
  by (induction es) (auto simp: after_conflicts_def conflicts_def cut_log_def)

lemma cut_log_simps [simp]:
  "healthy (cut_log i d) = healthy d" "meta_hard_state (cut_log i d) = meta_hard_state d"
  "disk_snap (cut_log i d) = disk_snap d" "meta_snapshot_term (cut_log i d) = meta_snapshot_term d"
  "meta_last_committed (cut_log i d) = meta_last_committed d"
  by (simp_all add: cut_log_def set_log_def disk_snap_def)

lemma disk_entry_cut: "log_ok d \<Longrightarrow> disk_entry (cut_log i d) k = (if i \<le> k then None else disk_entry d k)"
proof (cases "i > disk_last d")
  case True
  assume "log_ok d"
  then have "i \<le> k \<Longrightarrow> disk_entry d k = None"
    using True disk_last_ge[of d k] by (cases "disk_entry d k") fastforce+
  with True show ?thesis by (simp add: cut_log_def)
qed (simp add: cut_log_def disk_entry_truncate)

lemma log_ok_cut: "log_ok d \<Longrightarrow> 0 < i \<Longrightarrow> log_ok (cut_log i d)"
  by (simp add: cut_log_def log_ok_truncate)

lemma disk_last_cut:
  "log_ok d \<Longrightarrow> 0 < i \<Longrightarrow> disk_last (cut_log i d) = (if i > disk_last d then disk_last d else max (i - 1) (disk_snap d))"
  by (simp add: cut_log_def disk_last_truncate)

lemma after_conflicts_simps [simp]:
  "healthy (after_conflicts es d) = healthy d" "meta_hard_state (after_conflicts es d) = meta_hard_state d"
  "disk_snap (after_conflicts es d) = disk_snap d" "meta_snapshot_term (after_conflicts es d) = meta_snapshot_term d"
  "meta_last_committed (after_conflicts es d) = meta_last_committed d"
  by (simp_all add: after_conflicts_def split: option.splits)

section \<open>New entries\<close>

lemma collect_new_consecutive:
  assumes "consecutive n es" and "n \<le> m" and "is_u64 (n + length es)"
  shows "collect_new m es = Inr (Some (drop (m - n) es))"
  using assms
proof (induction es arbitrary: n m)
  case (Cons e es)
  then have e: "e_index e = n" and c: "consecutive (Suc n) es" by (simp_all add: consecutive_Cons)
  show ?case
  proof (cases "m = n")
    case True
    have "is_u64 (Suc n)" using Cons.prems(3) by (auto intro: is_u64_le)
    with True e Cons.IH[OF c, of "Suc n"] Cons.prems(3) show ?thesis by simp
  next
    case False
    with Cons.prems have "Suc n \<le> m" by simp
    with False e Cons.IH[OF c this] Cons.prems(3) show ?thesis
      by (simp add: drop_Cons' Suc_diff_Suc)
  qed
qed simp

lemma consecutive_drop: "consecutive n es \<Longrightarrow> consecutive (n + k) (drop k es)"
  by (cases "k \<le> length es") (auto simp: consecutive_def drop_map[symmetric] drop_upt)

section \<open>Reconciliation\<close>

text \<open>The state after a consistent request, and the commit index it leads to.\<close>

definition reconciled_log :: "log_index \<Rightarrow> log_entry list \<Rightarrow> log_store \<Rightarrow> log_store" where
  "reconciled_log prev es d =
     (let d1 = after_conflicts es d in set_log (entry_batch (drop (disk_last d1 - prev) es)) d1)"

definition reconciled_commit :: "log_index \<Rightarrow> log_index \<Rightarrow> log_index \<Rightarrow> log_index" where
  "reconciled_commit lc leader_commit last_idx = (if leader_commit > lc then min leader_commit last_idx else lc)"

lemma set_log_Nil [simp]: "set_log [] d = d"
  by (simp add: set_log_def tree_apply_batch_def)

lemma entry_batch_Nil [simp]: "entry_batch [] = []"
  by (simp add: entry_batch_def)

definition consistent_append :: "log_store \<Rightarrow> log_index \<Rightarrow> raft_term \<Rightarrow> log_entry list \<Rightarrow> bool" where
  "consistent_append d prev pt es \<longleftrightarrow>
     healthy d \<and> log_ok d \<and> log_matches prev pt d \<and> consecutive (Suc prev) es
     \<and> (\<forall>e \<in> set es. 0 < e_term e)
     \<and> is_u64 (Suc (disk_last d)) \<and> is_u64 (Suc (prev + length es))"

definition fresh_entries :: "log_index \<Rightarrow> log_entry list \<Rightarrow> log_store \<Rightarrow> log_entry list" where
  "fresh_entries prev es d = drop (disk_last (after_conflicts es d) - prev) es"

lemma consistent_appendD:
  assumes "consistent_append d prev pt es"
  shows "healthy d" "log_ok d" "log_matches prev pt d" "consecutive (Suc prev) es"
    "e \<in> set es \<Longrightarrow> 0 < e_term e" "is_u64 (Suc (disk_last d))" "is_u64 (Suc (prev + length es))"
  using assms by (simp_all add: consistent_append_def)

lemma prev_le: "consistent_append d prev pt es \<Longrightarrow> prev \<le> disk_last d"
  by (auto simp: consistent_append_def log_matches_def)

lemma entry_index:
  assumes "consecutive (Suc prev) es" "e \<in> set es"
  shows "prev < e_index e \<and> e_index e \<le> prev + length es"
proof -
  obtain i where "i < length es" "e = es ! i" using assms(2) by (auto simp: in_set_conv_nth)
  with consecutive_nth[OF assms(1), of i] show ?thesis by simp
qed

lemma conflict_found:
  assumes "consistent_append d prev pt es" and "find (conflicts d) es = Some e"
  shows "e \<in> set es" "conflicts d e" "prev < e_index e"
  using assms entry_index consistent_appendD(4) by (fastforce simp: find_Some_iff)+

lemma log_ok_d1: "consistent_append d prev pt es \<Longrightarrow> log_ok (after_conflicts es d)"
  by (cases "find (conflicts d) es")
    (auto simp: after_conflicts_def consistent_appendD(2) dest: conflict_found(3) intro!: log_ok_cut)

lemma last_d1:
  assumes "consistent_append d prev pt es"
  shows "prev \<le> disk_last (after_conflicts es d)" "disk_last (after_conflicts es d) \<le> disk_last d"
  using conflict_found(3)[OF assms] prev_le[OF assms] disk_snap_le_last[of d]
  by (auto simp: after_conflicts_def disk_last_cut[OF consistent_appendD(2)[OF assms]] split: option.splits)

lemma entry_d1:
  assumes "consistent_append d prev pt es"
  shows "disk_entry (after_conflicts es d) k = (case find (conflicts d) es of None \<Rightarrow> disk_entry d k
    | Some e \<Rightarrow> if e_index e \<le> k then None else disk_entry d k)"
  using assms by (simp add: after_conflicts_def disk_entry_cut consistent_appendD(2) split: option.splits)

lemma fresh_consecutive:
  assumes "consistent_append d prev pt es"
  shows "consecutive (Suc (disk_last (after_conflicts es d))) (fresh_entries prev es d)"
  using consecutive_drop[OF consistent_appendD(4)[OF assms], of "disk_last (after_conflicts es d) - prev"] last_d1[OF assms]
  by (simp add: fresh_entries_def)

lemma length_fresh:
  assumes "consistent_append d prev pt es"
  shows "disk_last (after_conflicts es d) + length (fresh_entries prev es d)
    = max (disk_last (after_conflicts es d)) (prev + length es)"
  using last_d1[OF assms] by (simp add: fresh_entries_def)

lemma fits_d1:
  assumes "consistent_append d prev pt es"
  shows "is_u64 (disk_last (after_conflicts es d) + length (fresh_entries prev es d))"
    "is_u64 (Suc (disk_last (after_conflicts es d)))"
  using consistent_appendD(6,7)[OF assms] last_d1[OF assms]
  unfolding length_fresh[OF assms] by (auto intro: is_u64_le)

lemma collected:
  assumes "consistent_append d prev pt es"
  shows "collect_new (Suc (disk_last (after_conflicts es d))) es = Inr (Some (fresh_entries prev es d))"
  using collect_new_consecutive[OF consistent_appendD(4)[OF assms], of "Suc (disk_last (after_conflicts es d))"]
    last_d1[OF assms] consistent_appendD(7)[OF assms] by (simp add: fresh_entries_def)

lemma reconciled_log_eq: "reconciled_log prev es d = set_log (entry_batch (fresh_entries prev es d)) (after_conflicts es d)"
  by (simp add: reconciled_log_def fresh_entries_def Let_def)

lemma disk_last_reconciled:
  assumes "consistent_append d prev pt es"
  shows "disk_last (reconciled_log prev es d) = max (disk_last (after_conflicts es d)) (prev + length es)"
  unfolding reconciled_log_eq disk_last_append_log[OF log_ok_d1[OF assms] fresh_consecutive[OF assms]]
  by (rule length_fresh[OF assms])

lemma last_fresh:
  assumes "consistent_append d prev pt es" "fresh_entries prev es d \<noteq> []"
  shows "e_index (last (fresh_entries prev es d)) = disk_last (reconciled_log prev es d)"
proof -
  let ?f = "fresh_entries prev es d"
  have "e_index (last ?f) = disk_last (after_conflicts es d) + length ?f"
    using consecutive_nth[OF fresh_consecutive[OF assms(1)], of "length ?f - 1"] assms(2)
    by (simp add: last_conv_nth)
  then show ?thesis by (simp add: length_fresh[OF assms(1)] disk_last_reconciled[OF assms(1)])
qed

lemma log_ok_reconciled:
  assumes "consistent_append d prev pt es"
  shows "log_ok (reconciled_log prev es d)"
  unfolding reconciled_log_eq
  by (rule log_ok_append_log[OF log_ok_d1[OF assms] fresh_consecutive[OF assms] fits_d1(1)[OF assms]])
    (auto simp: fresh_entries_def dest: in_set_dropD intro: consistent_appendD(5)[OF assms])

lemma entry_reconciled:
  assumes "consistent_append d prev pt es"
  shows "disk_entry (reconciled_log prev es d) k =
    (if disk_last (after_conflicts es d) < k \<and> k \<le> disk_last (reconciled_log prev es d)
     then Some (es ! (k - Suc prev)) else disk_entry (after_conflicts es d) k)"
  unfolding disk_last_reconciled[OF assms]
  unfolding reconciled_log_eq disk_entry_append_log[OF log_ok_d1[OF assms] fresh_consecutive[OF assms]] length_fresh[OF assms]
  using last_d1[OF assms] by (auto simp: fresh_entries_def less_max_iff_disj)

lemma reconcile_log_healthy:
  assumes c: "consistent_append d prev pt es"
  shows "reconcile_log prev pt es lc (n, d) =
     (let d2 = reconciled_log prev es d; commit = reconciled_commit (last_committed n) lc (disk_last d2)
      in (Inr (reconciled True (disk_last d2)), n\<lparr>last_committed := commit\<rparr>,
          if lc > last_committed n then d2\<lparr>meta_last_committed := Some commit\<rparr> else d2))"
proof -
  let ?d1 = "after_conflicts es d" and ?d2 = "reconciled_log prev es d" and ?f = "fresh_entries prev es d"
  note healthy = consistent_appendD(1)[OF c]
  have h: "healthy ?d1" "healthy ?d2" using healthy by (simp_all add: reconciled_log_eq)
  have start: "reconcile_log prev pt es lc (n, d) =
     st_bind (commit_target lc ?f)
       (\<lambda>ca. st_bind (persist_reconciled ?f ca)
          (\<lambda>_. st_bind (st_read (\<lambda>(n, d). node_read sled_last_log_index d)) (\<lambda>l. st_return (reconciled True l)))) (n, ?d1)"
    using healthy h(1) fits_d1(2)[OF c] consistent_appendD(3)[OF c]
    by (simp add: reconcile_log_def Let_def on_disk_apply node_read_def collected[OF c] st_bind_def[of "on_disk _"])
  show ?thesis
  proof (cases "?f = []")
    case True
    then have "?d2 = ?d1" by (simp add: reconciled_log_eq)
    with True h show ?thesis
      by (auto simp: start commit_target_def persist_reconciled_def on_disk_apply node_read_def st_bind_def
          reconciled_commit_def Let_def)
  next
    case False
    then show ?thesis
      using h last_fresh[OF c False]
      by (auto simp: start commit_target_def persist_reconciled_def on_disk_apply node_read_def st_bind_def
          reconciled_commit_def reconciled_log_eq[symmetric] Let_def)
  qed
qed

lemma no_conflict_before:
  assumes c: "consistent_append d prev pt es" and i: "i < length es" and m: "m \<le> i"
    and e: "disk_entry (after_conflicts es d) (Suc (prev + i)) = Some e"
  shows "\<not> conflicts d (es ! m)"
proof
  assume "conflicts d (es ! m)"
  then obtain e' where f: "find (conflicts d) es = Some e'"
    using i m by (cases "find (conflicts d) es") (auto simp: find_None_iff)
  then obtain j where j: "j < length es" "e' = es ! j" "\<forall>k<j. \<not> conflicts d (es ! k)" by (auto simp: find_Some_iff)
  with \<open>conflicts d (es ! m)\<close> have "j \<le> i" using not_less m by (metis order_trans)
  then have "e_index e' \<le> Suc (prev + i)" using consecutive_nth[OF consistent_appendD(4)[OF c] j(1)] j(2) by simp
  with e f show False by (simp add: entry_d1[OF c])
qed

lemma kept_before_conflict:
  assumes c: "consistent_append d prev pt es" and nc: "\<forall>j \<le> i. \<not> conflicts d (es ! j)"
  shows "disk_entry (after_conflicts es d) (Suc (prev + i)) = disk_entry d (Suc (prev + i))"
proof (cases "find (conflicts d) es")
  case (Some e)
  then obtain j where j: "j < length es" "e = es ! j" "conflicts d (es ! j)" by (auto simp: find_Some_iff)
  then have "i < j" using nc not_le by blast
  then have "\<not> e_index e \<le> Suc (prev + i)" using consecutive_nth[OF consistent_appendD(4)[OF c] j(1)] j(2) by simp
  with Some show ?thesis by (simp add: entry_d1[OF c])
qed (simp add: entry_d1[OF c])

text \<open>The follower had an entry at the request's position \<open>i\<close> and no entry up to there conflicts: it stays.\<close>

definition keeps_own :: "log_store \<Rightarrow> log_index \<Rightarrow> log_entry list \<Rightarrow> nat \<Rightarrow> bool" where
  "keeps_own d prev es i \<longleftrightarrow> disk_entry d (Suc (prev + i)) \<noteq> None \<and> (\<forall>j \<le> i. \<not> conflicts d (es ! j))"

lemma entries_stored:
  assumes c: "consistent_append d prev pt es" and i: "i < length es" and snap: "disk_snap d < Suc (prev + i)"
  shows "disk_entry (reconciled_log prev es d) (Suc (prev + i)) =
      (if keeps_own d prev es i then disk_entry d (Suc (prev + i)) else Some (es ! i))" (is ?exact)
    and "\<exists>e. disk_entry (reconciled_log prev es d) (Suc (prev + i)) = Some e \<and> e_term e = e_term (es ! i)" (is ?same_term)
proof -
  have "?exact \<and> ?same_term"
  proof (cases "disk_last (after_conflicts es d) < Suc (prev + i)")
    case True
    then have "disk_entry (after_conflicts es d) (Suc (prev + i)) = None"
      using disk_last_ge[OF log_ok_d1[OF c]] by (meson not_le not_Some_eq)
    then have "\<not> keeps_own d prev es i"
      using kept_before_conflict[OF c] by (metis keeps_own_def)
    with True i show ?thesis by (simp add: entry_reconciled[OF c] disk_last_reconciled[OF c])
  next
    case False
    then obtain e where e: "disk_entry (after_conflicts es d) (Suc (prev + i)) = Some e"
      using log_okD(4)[OF log_ok_d1[OF c], of "Suc (prev + i)"] snap by auto
    then have ed: "disk_entry d (Suc (prev + i)) = Some e"
      by (auto simp: entry_d1[OF c] split: option.splits if_splits)
    have nc: "\<forall>j \<le> i. \<not> conflicts d (es ! j)" using no_conflict_before[OF c i _ e] by blast
    have "e_index (es ! i) = Suc (prev + i)" using consecutive_nth[OF consistent_appendD(4)[OF c] i] by simp
    with nc have "e_term e = e_term (es ! i)"
      using ed snap log_okD(2)[OF consistent_appendD(2)[OF c] ed] by (auto simp: conflicts_def disk_term_at_def)
    moreover have "keeps_own d prev es i" using ed nc by (simp add: keeps_own_def)
    ultimately show ?thesis using e ed False by (simp add: entry_reconciled[OF c])
  qed
  then show ?exact ?same_term by blast+
qed

lemma beyond_request:
  assumes c: "consistent_append d prev pt es" and k: "prev + length es < k"
  shows "disk_entry (reconciled_log prev es d) k = (if \<exists>e \<in> set es. conflicts d e then None else disk_entry d k)"
proof (cases "find (conflicts d) es")
  case None
  then have "after_conflicts es d = d" by (simp add: after_conflicts_def)
  moreover have "\<not> (\<exists>e \<in> set es. conflicts d e)" using None by (auto simp: find_None_iff)
  ultimately show ?thesis using k by (auto simp: entry_reconciled[OF c] disk_last_reconciled[OF c] max_def)
next
  case (Some e)
  note f = conflict_found[OF c Some]
  then have "e_index e \<le> k" using k entry_index[OF consistent_appendD(4)[OF c]] by fastforce
  with f k Some show ?thesis
    by (auto simp: entry_reconciled[OF c] disk_last_reconciled[OF c] entry_d1[OF c])
qed

lemma prefix_kept:
  "consistent_append d prev pt es \<Longrightarrow> k \<le> prev \<Longrightarrow> disk_entry (reconciled_log prev es d) k = disk_entry d k"
  using last_d1 conflict_found(3) by (fastforce simp: entry_reconciled entry_d1 split: option.splits)

lemma no_conflict_extends:
  assumes c: "consistent_append d prev pt es" and nc: "\<forall>e \<in> set es. \<not> conflicts d e"
    and e: "disk_entry d k = Some e"
  shows "disk_entry (reconciled_log prev es d) k = Some e"
proof -
  have "find (conflicts d) es = None" using nc by (simp add: find_None_iff)
  then have "after_conflicts es d = d" by (simp add: after_conflicts_def)
  with e disk_last_ge[OF consistent_appendD(2)[OF c] e] show ?thesis by (simp add: entry_reconciled[OF c])
qed

lemma reconciled_log_simps [simp]:
  "healthy (reconciled_log prev es d) = healthy d"
  "meta_hard_state (reconciled_log prev es d) = meta_hard_state d"
  "disk_snap (reconciled_log prev es d) = disk_snap d"
  by (simp_all add: reconciled_log_eq)

end
