(* ===== verification/Quorums.thy ===== *)
theory Quorums
  imports Prelude
begin

text \<open>
  Quorum systems as an interface, the locale \<open>quorum_system\<close>, and majorities of a finite set of nodes as its instance:
  the quorum of \<open>consensus/election.rs\<close> is the size of the smallest majority. Elections and the commit rule
  rest on the intersection of two quorums only.
\<close>

locale quorum_system =
  fixes quorum :: "'a set \<Rightarrow> bool"
  assumes intersect: "quorum Q \<Longrightarrow> quorum R \<Longrightarrow> Q \<inter> R \<noteq> {}"
begin

lemma chosen_unique:
  assumes "quorum Q" "quorum R" "\<And>k. k \<in> Q \<Longrightarrow> V k a" "\<And>k. k \<in> R \<Longrightarrow> V k b"
    and "\<And>k x y. V k x \<Longrightarrow> V k y \<Longrightarrow> x = y"
  shows "a = b"
  using intersect[OF assms(1,2)] assms(3-5) by blast

end

definition majority :: "'a set \<Rightarrow> 'a set \<Rightarrow> bool" where
  "majority M Q \<longleftrightarrow> Q \<subseteq> M \<and> card Q \<ge> card M div 2 + 1"

lemma majority_intersect:
  assumes "finite M" "majority M Q" "majority M R"
  shows "Q \<inter> R \<noteq> {}"
proof
  assume e: "Q \<inter> R = {}"
  have f: "finite Q" "finite R" using assms by (auto simp: majority_def intro: finite_subset)
  then have "card (Q \<union> R) = card Q + card R" using e by (simp add: card_Un_disjoint)
  moreover have "card (Q \<union> R) \<le> card M" using assms by (intro card_mono) (auto simp: majority_def)
  ultimately show False using assms by (auto simp: majority_def)
qed

interpretation maj: quorum_system "majority (set ms)" for ms :: "'a list"
  by unfold_locales (rule majority_intersect[OF finite_set])

lemma majority_mono: "majority M Q \<Longrightarrow> Q \<subseteq> R \<Longrightarrow> R \<subseteq> M \<Longrightarrow> finite M \<Longrightarrow> majority M R"
  unfolding majority_def by (meson card_mono finite_subset le_trans)

end
