(* ===== verification/Raft_Spec.thy ===== *)
theory Raft_Spec
  imports Types Quorums
begin

text \<open>
  An abstract specification of the replicated log: terms, votes, logs as lists, leaders in the order they were elected, and
  the requests leaders sent. It has no storage, no roles and no failures; the detailed cluster of \<open>Replication\<close> is
  shown to refine it.

  \<open>s_tlog s t\<close> is the log of the leader of term \<open>t\<close>, at its longest. A request carries the term of the round that
  asked for it (\<open>m_label\<close>), which may be older than the term in which its sender built it (\<open>m_built\<close>). \<open>s_held\<close>
  records which node held which part of a leader's log while it was in that leader's term, and \<open>s_chosen\<close> what a leader
  committed. The result is that the chosen entries form one log.
\<close>

section \<open>States\<close>

record append_msg =
  m_label :: raft_term
  m_built :: raft_term
  m_prev :: nat
  m_upto :: nat
  m_commit :: nat

record raft_spec =
  s_term :: "node_id \<Rightarrow> raft_term"
  s_log :: "node_id \<Rightarrow> log_entry list"
  s_commit :: "node_id \<Rightarrow> nat"
  s_votes :: "(node_id \<times> raft_term \<times> node_id) set"
  s_camp :: "raft_term \<times> node_id \<Rightarrow> log_entry list option"
  s_leads :: "(raft_term \<times> node_id) list"
  s_leader :: "node_id set"
  s_tlog :: "raft_term \<Rightarrow> log_entry list"
  s_held :: "(node_id \<times> raft_term \<times> nat) set"
  s_chosen :: "(raft_term \<times> nat) set"
  s_sent :: "append_msg set"

definition led_term :: "raft_spec \<Rightarrow> raft_term \<Rightarrow> bool" where
  "led_term s t \<longleftrightarrow> t \<in> fst ` set (s_leads s)"

definition spec_voters :: "node_id set \<Rightarrow> raft_spec \<Rightarrow> raft_term \<Rightarrow> node_id \<Rightarrow> node_id set" where
  "spec_voters M s t c = {j \<in> M. (j, t, c) \<in> s_votes s}"

definition last_term :: "log_entry list \<Rightarrow> raft_term" where
  "last_term l = (if l = [] then 0 else e_term (last l))"

definition newer :: "log_entry list \<Rightarrow> log_entry list \<Rightarrow> bool" where
  "newer l l' \<longleftrightarrow> last_term l > last_term l' \<or> last_term l = last_term l' \<and> length l \<ge> length l'"

definition agree :: "raft_spec \<Rightarrow> log_entry list \<Rightarrow> raft_term \<Rightarrow> nat \<Rightarrow> bool" where
  "agree s l t k \<longleftrightarrow> k \<le> length l \<and> k \<le> length (s_tlog s t) \<and> take k l = take k (s_tlog s t)"

definition own :: "raft_spec \<Rightarrow> raft_term \<Rightarrow> nat \<Rightarrow> bool" where
  "own s t k \<longleftrightarrow> 0 < k \<and> k \<le> length (s_tlog s t) \<and> e_term (s_tlog s t ! (k - 1)) = t"

definition same_term :: "log_entry list \<Rightarrow> log_entry list \<Rightarrow> nat \<Rightarrow> bool" where
  "same_term l l' p \<longleftrightarrow> e_term (l ! p) = e_term (l' ! p)"

text \<open>Where a receiver's log and the sender's part ways: at its own end, or at the first entry of another term.\<close>

definition merge_point :: "nat \<Rightarrow> log_entry list \<Rightarrow> log_entry list \<Rightarrow> nat \<Rightarrow> bool" where
  "merge_point prev l sg q \<longleftrightarrow>
     prev \<le> q \<and> q \<le> length l \<and> q \<le> length sg \<and> (0 < prev \<longrightarrow> same_term l sg (prev - 1))
     \<and> (\<forall>p. prev \<le> p \<longrightarrow> p < q \<longrightarrow> same_term l sg p)
     \<and> (q < length l \<longrightarrow> q < length sg \<and> \<not> same_term l sg q)"

definition backed :: "raft_spec \<Rightarrow> raft_term \<Rightarrow> nat \<Rightarrow> bool" where
  "backed s t c \<longleftrightarrow> c = 0 \<or> (\<exists>t0 k0. (t0, k0) \<in> s_chosen s \<and> t0 \<le> t \<and> c \<le> k0)"

section \<open>Steps\<close>

inductive spec_step :: "node_id set \<Rightarrow> raft_spec \<Rightarrow> raft_spec \<Rightarrow> bool" for M where
  campaign:
    "i \<in> M \<Longrightarrow> s_term s i < t \<Longrightarrow>
     spec_step M s (s\<lparr>s_term := (s_term s)(i := t), s_votes := insert (i, t, i) (s_votes s),
                      s_camp := (s_camp s)((t, i) \<mapsto> s_log s i), s_leader := s_leader s - {i}\<rparr>)"
| advance:
    "i \<in> M \<Longrightarrow> s_term s i \<le> t \<Longrightarrow>
     spec_step M s (s\<lparr>s_term := (s_term s)(i := t), s_leader := s_leader s - {i}\<rparr>)"
| vote:
    "j \<in> M \<Longrightarrow> t = s_term s j \<Longrightarrow> s_camp s (t, c) = Some l \<Longrightarrow> newer l (s_log s j) \<or> led_term s t \<Longrightarrow>
     (\<And>c'. (j, t, c') \<in> s_votes s \<Longrightarrow> c' = c) \<Longrightarrow>
     spec_step M s (s\<lparr>s_votes := insert (j, t, c) (s_votes s)\<rparr>)"
| elect:
    "c \<in> M \<Longrightarrow> t = s_term s c \<Longrightarrow> s_camp s (t, c) = Some (s_log s c) \<Longrightarrow> majority M (spec_voters M s t c) \<Longrightarrow>
     \<not> led_term s t \<Longrightarrow>
     spec_step M s (s\<lparr>s_leads := (t, c) # s_leads s, s_leader := insert c (s_leader s),
                      s_tlog := (s_tlog s)(t := s_log s c)\<rparr>)"
| propose:
    "i \<in> s_leader s \<Longrightarrow> t = s_term s i \<Longrightarrow> e_term e = t \<Longrightarrow>
     spec_step M s (s\<lparr>s_log := (s_log s)(i := s_log s i @ [e]), s_tlog := (s_tlog s)(t := s_tlog s t @ [e])\<rparr>)"
| send:
    "i \<in> s_leader s \<Longrightarrow> T = s_term s i \<Longrightarrow> t \<le> T \<Longrightarrow> prev \<le> length (s_tlog s T) \<Longrightarrow> backed s t c \<Longrightarrow>
     spec_step M s (s\<lparr>s_sent := insert \<lparr>m_label = t, m_built = T, m_prev = prev, m_upto = length (s_tlog s T), m_commit = c\<rparr>
                                  (s_sent s)\<rparr>)"
| accept:
    "j \<in> M \<Longrightarrow> j \<notin> s_leader s \<Longrightarrow> m \<in> s_sent s \<Longrightarrow> s_term s j = m_label m \<Longrightarrow>
     sg = take (m_upto m) (s_tlog s (m_built m)) \<Longrightarrow> merge_point (m_prev m) (s_log s j) sg q \<Longrightarrow>
     l' \<in> {take q (s_log s j), take q (s_log s j) @ drop q sg} \<Longrightarrow>
     spec_step M s (s\<lparr>s_log := (s_log s)(j := l')\<rparr>)"
| learn:
    "j \<in> M \<Longrightarrow> m \<in> s_sent s \<Longrightarrow> s_term s j = m_label m \<Longrightarrow> m_upto m \<le> length (s_log s j) \<Longrightarrow>
     take (m_upto m) (s_log s j) = take (m_upto m) (s_tlog s (m_built m)) \<Longrightarrow>
     spec_step M s (s\<lparr>s_commit := (s_commit s)(j := max (s_commit s j) (m_commit m))\<rparr>)"
| hold:
    "j \<in> M \<Longrightarrow> t = s_term s j \<Longrightarrow> led_term s t \<Longrightarrow> agree s (s_log s j) t k \<Longrightarrow>
     spec_step M s (s\<lparr>s_held := insert (j, t, k) (s_held s)\<rparr>)"
| choose:
    "i \<in> s_leader s \<Longrightarrow> t = s_term s i \<Longrightarrow> own s t k \<Longrightarrow> majority M Q \<Longrightarrow> (\<And>j. j \<in> Q \<Longrightarrow> (j, t, k) \<in> s_held s) \<Longrightarrow>
     spec_step M s (s\<lparr>s_chosen := insert (t, k) (s_chosen s), s_commit := (s_commit s)(i := max (s_commit s i) k)\<rparr>)"

definition spec_init :: raft_spec where
  "spec_init = \<lparr>s_term = (\<lambda>_. 0), s_log = (\<lambda>_. []), s_commit = (\<lambda>_. 0), s_votes = {}, s_camp = (\<lambda>_. None), s_leads = [],
     s_leader = {}, s_tlog = (\<lambda>_. []), s_held = {}, s_chosen = {}, s_sent = {}\<rparr>"

inductive spec_steps :: "node_id set \<Rightarrow> raft_spec \<Rightarrow> raft_spec \<Rightarrow> bool" for M where
  stay: "spec_steps M s s"
| extend: "spec_steps M s s' \<Longrightarrow> spec_step M s' s'' \<Longrightarrow> spec_steps M s s''"

lemma spec_steps_trans: "spec_steps M s' s'' \<Longrightarrow> spec_steps M s s' \<Longrightarrow> spec_steps M s s''"
  by (induction rule: spec_steps.induct) (auto intro: spec_steps.extend)

lemma spec_step1: "spec_step M s s' \<Longrightarrow> spec_steps M s s'"
  by (rule spec_steps.extend[OF spec_steps.stay])

section \<open>Bookkeeping\<close>

text \<open>Terms bound votes, campaigns and leaders; a term has one leader, whose log is the term's log.\<close>

definition book :: "node_id set \<Rightarrow> raft_spec \<Rightarrow> bool" where
  "book M s \<longleftrightarrow>
     (\<forall>j t c. (j, t, c) \<in> s_votes s \<longrightarrow> t \<le> s_term s j \<and> s_camp s (t, c) \<noteq> None)
     \<and> (\<forall>j t c c'. (j, t, c) \<in> s_votes s \<longrightarrow> (j, t, c') \<in> s_votes s \<longrightarrow> c = c')
     \<and> (\<forall>t c. s_camp s (t, c) \<noteq> None \<longrightarrow> t \<le> s_term s c \<and> 0 < t)
     \<and> distinct (map fst (s_leads s))
     \<and> (\<forall>t c. (t, c) \<in> set (s_leads s) \<longrightarrow> t \<le> s_term s c \<and> 0 < t \<and> majority M (spec_voters M s t c))
     \<and> (\<forall>i \<in> s_leader s. (s_term s i, i) \<in> set (s_leads s) \<and> s_log s i = s_tlog s (s_term s i))"

lemma bookD:
  assumes "book M s"
  shows "(j, t, c) \<in> s_votes s \<Longrightarrow> t \<le> s_term s j" "(j, t, c) \<in> s_votes s \<Longrightarrow> s_camp s (t, c) \<noteq> None"
    "(j, t, c) \<in> s_votes s \<Longrightarrow> (j, t, c') \<in> s_votes s \<Longrightarrow> c = c'"
    "s_camp s (t, c) \<noteq> None \<Longrightarrow> t \<le> s_term s c" "s_camp s (t, c) \<noteq> None \<Longrightarrow> 0 < t"
    "distinct (map fst (s_leads s))" "(t, c) \<in> set (s_leads s) \<Longrightarrow> t \<le> s_term s c"
    "(t, c) \<in> set (s_leads s) \<Longrightarrow> 0 < t" "(t, c) \<in> set (s_leads s) \<Longrightarrow> majority M (spec_voters M s t c)"
    "i \<in> s_leader s \<Longrightarrow> (s_term s i, i) \<in> set (s_leads s)" "i \<in> s_leader s \<Longrightarrow> s_log s i = s_tlog s (s_term s i)"
  using assms unfolding book_def by blast+

lemma leader_unique: "book M s \<Longrightarrow> (t, c) \<in> set (s_leads s) \<Longrightarrow> (t, c') \<in> set (s_leads s) \<Longrightarrow> c = c'"
  by (drule bookD(6)) (metis eq_key_imp_eq_value)

lemma led_term_iff: "led_term s t \<longleftrightarrow> (\<exists>c. (t, c) \<in> set (s_leads s))"
  by (force simp: led_term_def)

lemma leader_led: "book M s \<Longrightarrow> i \<in> s_leader s \<Longrightarrow> led_term s (s_term s i)"
  unfolding led_term_def using bookD(10) by (metis fst_conv image_eqI)

lemma voters_majority_mono:
  assumes "finite M" "majority M (spec_voters M s t c)" "s_votes s \<subseteq> s_votes s'"
  shows "majority M (spec_voters M s' t c)"
  by (rule majority_mono[OF assms(2)]) (use assms in \<open>auto simp: spec_voters_def\<close>)

lemma book_step:
  assumes "spec_step M s s'" "book M s" and M: "finite M"
  shows "book M s'"
  using assms(1)
proof cases
  case (campaign i t)
  note B = bookD[OF assms(2)]
  have no: "s_camp s (t, i) = None" "\<And>c. (i, t, c) \<notin> s_votes s"
    using B(4)[of t i] B(1)[of i t] campaign(3) by fastforce+
  have mono: "majority M (spec_voters M s' t' c)" if "(t', c) \<in> set (s_leads s)" for t' c
    using voters_majority_mono[OF M B(9)[OF that], of s'] by (auto simp: campaign(1))
  show ?thesis
    unfolding book_def using B no campaign mono
    by (auto split: if_splits dest: B(1) less_imp_le order.trans) (metis B(1) less_imp_le order.trans)+
next
  case (advance i t)
  note B = bookD[OF assms(2)]
  have "x \<le> t" if "(i, x, c) \<in> s_votes s \<or> s_camp s (x, i) \<noteq> None \<or> (x, i) \<in> set (s_leads s)" for x c
    using that B(1)[of i x c] B(4)[of x i] B(7)[of x i] advance(3) by fastforce
  then show ?thesis
    unfolding book_def using B advance by (auto simp: spec_voters_def)
next
  case (vote j t c l)
  note B = bookD[OF assms(2)]
  have mono: "majority M (spec_voters M s' t' c)" if "(t', c) \<in> set (s_leads s)" for t' c
    using voters_majority_mono[OF M B(9)[OF that], of s'] by (auto simp: vote(1))
  show ?thesis
    unfolding book_def using B vote mono by auto
next
  case (elect c t)
  note B = bookD[OF assms(2)]
  have other: "s_term s i \<noteq> t" if "i \<in> s_leader s" for i
    using leader_led[OF assms(2) that] elect(6) by auto
  have "0 < t" using B(5)[of t c] elect by simp
  moreover have v: "spec_voters M s' = spec_voters M s" by (simp add: elect(1) spec_voters_def fun_eq_iff)
  ultimately show ?thesis
    unfolding book_def v using B elect other by (auto simp: led_term_def)
next
  case (propose i t e)
  note B = bookD[OF assms(2)]
  have other: "s_term s j \<noteq> t" if "j \<in> s_leader s" "j \<noteq> i" for j
    using that B(10)[OF that(1)] B(10)[OF propose(2)] leader_unique[OF assms(2)] propose(3) by metis
  have v: "spec_voters M s' = spec_voters M s" by (simp add: propose(1) spec_voters_def fun_eq_iff)
  show ?thesis
    unfolding book_def v using B propose other by auto
qed (use assms(2) in \<open>auto simp: book_def spec_voters_def\<close>)

section \<open>Growth\<close>

text \<open>Leaders stay leaders of their term, their logs only grow, and the histories only grow.\<close>

definition grows :: "raft_spec \<Rightarrow> raft_spec \<Rightarrow> bool" where
  "grows s s' \<longleftrightarrow>
     (\<forall>t. led_term s t \<longrightarrow> led_term s' t \<and> take (length (s_tlog s t)) (s_tlog s' t) = s_tlog s t)
     \<and> s_held s \<subseteq> s_held s' \<and> s_chosen s \<subseteq> s_chosen s' \<and> (\<forall>j. s_term s j \<le> s_term s' j)"

lemma growsD:
  assumes "grows s s'"
  shows "led_term s t \<Longrightarrow> led_term s' t" "led_term s t \<Longrightarrow> take (length (s_tlog s t)) (s_tlog s' t) = s_tlog s t"
    "s_held s \<subseteq> s_held s'" "s_chosen s \<subseteq> s_chosen s'" "s_term s j \<le> s_term s' j"
  using assms by (auto simp: grows_def)

lemma grows_length: "grows s s' \<Longrightarrow> led_term s t \<Longrightarrow> length (s_tlog s t) \<le> length (s_tlog s' t)"
  using growsD(2) by (metis length_take min.cobounded1)

lemma grows_take:
  assumes "grows s s'" "led_term s t" "k \<le> length (s_tlog s t)"
  shows "take k (s_tlog s' t) = take k (s_tlog s t)"
  using growsD(2)[OF assms(1,2)] assms(3) by (metis min.absorb1 take_take)

lemma grows_nth:
  assumes "grows s s'" "led_term s t" "k < length (s_tlog s t)"
  shows "s_tlog s' t ! k = s_tlog s t ! k"
  using growsD(2)[OF assms(1,2)] assms(3) by (metis nth_take)

lemma grows_step:
  assumes "spec_step M s s'" "book M s"
  shows "grows s s'"
  using assms(1)
proof cases
  case (propose i t e)
  then show ?thesis using leader_led[OF assms(2) propose(2)] by (auto simp: grows_def led_term_def)
qed (auto simp: grows_def led_term_def)

lemma agree_grows: "grows s s' \<Longrightarrow> led_term s t \<Longrightarrow> agree s l t k \<Longrightarrow> agree s' l t k"
  unfolding agree_def using grows_take grows_length by (metis le_trans)

lemma own_grows: "grows s s' \<Longrightarrow> led_term s t \<Longrightarrow> own s t k \<Longrightarrow> own s' t k"
  unfolding own_def using grows_nth grows_length by (metis Suc_diff_1 Suc_le_lessD le_trans)

lemma agree_take: "agree s l t k \<Longrightarrow> k \<le> q \<Longrightarrow> agree s (take q l) t k"
  by (auto simp: agree_def min_def)

lemma agree_less: "agree s l t k \<Longrightarrow> k' \<le> k \<Longrightarrow> agree s l t k'"
  unfolding agree_def by (metis le_trans min.absorb1 take_take)

lemma agree_append: "agree s l t k \<Longrightarrow> agree s (l @ x) t k"
  by (auto simp: agree_def)

lemma agree_nth: "agree s l t k \<Longrightarrow> p < k \<Longrightarrow> l ! p = s_tlog s t ! p"
  unfolding agree_def by (metis nth_take)

section \<open>Log matching\<close>

definition matching :: "raft_spec \<Rightarrow> log_entry list \<Rightarrow> bool" where
  "matching s l \<longleftrightarrow> (\<forall>p < length l. led_term s (e_term (l ! p)) \<and> agree s l (e_term (l ! p)) (Suc p))"

lemma matchingD:
  assumes "matching s l" "p < length l"
  shows "led_term s (e_term (l ! p))" "take (Suc p) l = take (Suc p) (s_tlog s (e_term (l ! p)))"
    "p < length (s_tlog s (e_term (l ! p)))"
  using assms by (auto simp: matching_def agree_def)

lemma matching_grows: "grows s s' \<Longrightarrow> matching s l \<Longrightarrow> matching s' l"
  unfolding matching_def using agree_grows growsD(1) by blast

lemma matching_take: "matching s l \<Longrightarrow> matching s (take q l)"
  by (auto simp: matching_def intro: agree_take)

lemma matching_eq:
  assumes "matching s l" "matching s l'" "p < length l" "p < length l'" "same_term l l' p"
  shows "take (Suc p) l = take (Suc p) l'"
  using matchingD(2)[OF assms(1,3)] matchingD(2)[OF assms(2,4)] assms(5) by (simp add: same_term_def)

lemma merge_take:
  assumes "matching s l" "matching s sg" "merge_point prev l sg q"
  shows "take q l = take q sg"
proof (cases q)
  case (Suc p)
  have "same_term l sg p"
  proof (cases "prev \<le> p")
    case False
    then have "prev = Suc p" using assms(3) Suc by (auto simp: merge_point_def)
    then show ?thesis using assms(3) by (simp add: merge_point_def)
  qed (use assms(3) Suc in \<open>simp add: merge_point_def\<close>)
  then show ?thesis using matching_eq[OF assms(1,2), of p] assms(3) Suc by (auto simp: merge_point_def)
qed simp

definition logs_ok :: "raft_spec \<Rightarrow> bool" where
  "logs_ok s \<longleftrightarrow>
     (\<forall>j. matching s (s_log s j)) \<and> (\<forall>x l. s_camp s x = Some l \<longrightarrow> matching s l)
     \<and> (\<forall>t. led_term s t \<longrightarrow> matching s (s_tlog s t) \<and> (\<forall>e \<in> set (s_tlog s t). e_term e \<le> t))"

lemma logs_okD:
  assumes "logs_ok s"
  shows "matching s (s_log s j)" "s_camp s x = Some l \<Longrightarrow> matching s l" "led_term s t \<Longrightarrow> matching s (s_tlog s t)"
    "led_term s t \<Longrightarrow> e \<in> set (s_tlog s t) \<Longrightarrow> e_term e \<le> t"
  using assms unfolding logs_ok_def by blast+

lemma terms_sorted:
  assumes "logs_ok s" "matching s l" "p \<le> q" "q < length l"
  shows "e_term (l ! p) \<le> e_term (l ! q)"
proof -
  let ?t = "e_term (l ! q)"
  note m = matchingD[OF assms(2,4)]
  have "l ! p = take (Suc q) l ! p" using assms by simp
  also have "\<dots> = s_tlog s ?t ! p" unfolding m(2) using assms(3) by simp
  finally show ?thesis using logs_okD(4)[OF assms(1) m(1)] m(3) assms(3) by (metis le_less_trans nth_mem)
qed

text \<open>
  A round that is older than its sender's term can plant entries in a node's log whose term is ahead of the node's own.
  Such a node may campaign, but never wins: a majority has already moved past its term.
\<close>

definition lost_to :: "raft_spec \<Rightarrow> raft_term \<Rightarrow> node_id \<Rightarrow> node_id \<Rightarrow> bool" where
  "lost_to s t c x \<longleftrightarrow> (x, t, c) \<notin> s_votes s \<and>
     (t < s_term s x \<or> t = s_term s x \<and> (\<exists>c'. c' \<noteq> c \<and> (x, t, c') \<in> s_votes s))"

definition overtaken :: "node_id set \<Rightarrow> raft_spec \<Rightarrow> raft_term \<Rightarrow> node_id \<Rightarrow> bool" where
  "overtaken M s t c \<longleftrightarrow> (\<exists>V. majority M V \<and> (\<forall>x \<in> V. lost_to s t c x))"

definition outrun :: "node_id set \<Rightarrow> raft_spec \<Rightarrow> bool" where
  "outrun M s \<longleftrightarrow> (\<forall>t c l e. s_camp s (t, c) = Some l \<longrightarrow> e \<in> set l \<longrightarrow> t \<le> e_term e \<longrightarrow> overtaken M s t c)"

lemma lost_to_step:
  assumes "spec_step M s s'" "book M s" "lost_to s t c x"
    and "(x, t, c) \<in> s_votes s' \<Longrightarrow> (x, t, c) \<notin> s_votes s \<Longrightarrow> s_term s x = t \<and> (\<forall>c'. (x, t, c') \<in> s_votes s \<longrightarrow> c' = c)"
  shows "lost_to s' t c x"
proof -
  have "s_votes s \<subseteq> s_votes s'" using assms(1) by cases auto
  moreover have "s_term s x \<le> s_term s' x" using growsD(5)[OF grows_step[OF assms(1,2)]] .
  ultimately show ?thesis using assms(3,4) unfolding lost_to_def by (cases "t < s_term s' x") auto
qed

lemma outrun_step:
  assumes "spec_step M s s'" "book M s" "logs_ok s" "outrun M s" and M: "finite M"
  shows "outrun M s'"
proof -
  note B = bookD[OF assms(2)]
  have keep: "overtaken M s' t c" if "s_camp s (t, c) = Some l" "e \<in> set l" "t \<le> e_term e"
      and "\<And>x. (x, t, c) \<in> s_votes s' \<Longrightarrow> (x, t, c) \<notin> s_votes s \<Longrightarrow> s_term s x = t \<and> (\<forall>c'. (x, t, c') \<in> s_votes s \<longrightarrow> c' = c)"
    for t c l e
    using assms(4) that lost_to_step[OF assms(1,2), of t c] unfolding outrun_def overtaken_def by metis
  show ?thesis
    using assms(1)
  proof cases
    case (campaign i t)
    have fresh: "s_camp s (t, i) = None" using B(4)[of t i] campaign(3) by fastforce
    have won: "overtaken M s' t i" if e: "e \<in> set (s_log s i)" "t \<le> e_term e" for e
    proof -
      let ?T = "e_term e"
      from e(1) obtain p where "p < length (s_log s i)" "e = s_log s i ! p" by (auto simp: in_set_conv_nth)
      with matchingD(1)[OF logs_okD(1)[OF assms(3)], of p i] obtain cT where T: "(?T, cT) \<in> set (s_leads s)"
        by (auto simp: led_term_iff)
      have cT: "cT \<noteq> i" using B(7)[OF T] campaign(3) e(2) by auto
      have "lost_to s' t i x" if "x \<in> spec_voters M s ?T cT" for x
      proof -
        from that have v: "(x, ?T, cT) \<in> s_votes s" by (simp add: spec_voters_def)
        have x: "x \<noteq> i" "t \<le> s_term s x" using B(1)[OF v] campaign(3) e(2) by auto
        have "(x, t, i) \<notin> s_votes s'" using B(2)[of x t i] fresh x(1) by (auto simp: campaign(1))
        moreover have "t < s_term s x \<or> t = s_term s x \<and> (x, t, cT) \<in> s_votes s"
          using B(1)[OF v] v e(2) x(2) by (cases "t = s_term s x") auto
        ultimately show ?thesis using cT x(1) by (auto simp: campaign(1) lost_to_def)
      qed
      with B(9)[OF T] show ?thesis unfolding overtaken_def by blast
    qed
    show ?thesis
      unfolding outrun_def
    proof (intro allI impI)
      fix t' c l e assume c: "s_camp s' (t', c) = Some l" and e: "e \<in> set l" "t' \<le> e_term e"
      show "overtaken M s' t' c"
      proof (cases "(t', c) = (t, i)")
        case False
        with c have old: "s_camp s (t', c) = Some l" by (auto simp: campaign(1))
        have "(x, t', c) \<in> s_votes s' \<Longrightarrow> (x, t', c) \<in> s_votes s" for x using False by (auto simp: campaign(1))
        then show ?thesis using keep[OF old e] by blast
      qed (use c e won in \<open>auto simp: campaign(1)\<close>)
    qed
  qed (use keep in \<open>auto simp: outrun_def\<close>)
qed

lemma outrun_loses:
  assumes "outrun M s" "finite M" "s_camp s (t, c) = Some l" "majority M (spec_voters M s t c)" "e \<in> set l"
  shows "e_term e < t"
proof (rule ccontr)
  assume "\<not> e_term e < t"
  with assms(1,3,5) obtain V where V: "majority M V" "\<And>x. x \<in> V \<Longrightarrow> (x, t, c) \<notin> s_votes s"
    unfolding outrun_def overtaken_def lost_to_def by (metis not_less)
  from majority_intersect[OF assms(2) V(1) assms(4)] V(2) show False by (auto simp: spec_voters_def)
qed

definition posted :: "raft_spec \<Rightarrow> bool" where
  "posted s \<longleftrightarrow> (\<forall>m \<in> s_sent s. led_term s (m_built m) \<and> m_label m \<le> m_built m \<and> m_prev m \<le> m_upto m
     \<and> m_upto m \<le> length (s_tlog s (m_built m)))"

lemma postedD:
  assumes "posted s" "m \<in> s_sent s"
  shows "led_term s (m_built m)" "m_label m \<le> m_built m" "m_prev m \<le> m_upto m" "m_upto m \<le> length (s_tlog s (m_built m))"
  using assms by (simp_all add: posted_def)

lemma posted_step:
  assumes "spec_step M s s'" "book M s" "posted s"
  shows "posted s'"
proof -
  note G = grows_step[OF assms(1,2)]
  have old: "led_term s' (m_built m) \<and> m_label m \<le> m_built m \<and> m_prev m \<le> m_upto m
     \<and> m_upto m \<le> length (s_tlog s' (m_built m))" if "m \<in> s_sent s" for m
    using postedD[OF assms(3) that] growsD(1)[OF G] grows_length[OF G] le_trans by blast
  show ?thesis
    using assms(1)
  proof cases
    case (send i T t prev c)
    with leader_led[OF assms(2) send(2)] old show ?thesis by (auto simp: posted_def led_term_def)
  qed (use old in \<open>auto simp: posted_def\<close>)
qed

lemma logs_step:
  assumes "spec_step M s s'" "book M s" "outrun M s" "logs_ok s" and M: "finite M" and "posted s"
  shows "logs_ok s'"
proof -
  note G = grows_step[OF assms(1,2)] and L = logs_okD[OF assms(4)]
  note mg = matching_grows[OF G]
  show ?thesis
    using assms(1)
  proof cases
    case (elect c t)
    have "e_term e \<le> t" if "e \<in> set (s_log s c)" for e
      using outrun_loses[OF assms(3) M elect(4,5) that] by simp
    then show ?thesis
      unfolding logs_ok_def using mg L elect by (auto simp: led_term_def)
  next
    case (propose i t e)
    have t: "led_term s t" "s_log s i = s_tlog s t"
      using leader_led[OF assms(2) propose(2)] bookD(11)[OF assms(2) propose(2)] propose(3) by auto
    have t': "led_term s' t" using growsD(1)[OF G t(1)] .
    have new: "matching s' (s_tlog s t @ [e])"
      unfolding matching_def
    proof (intro allI impI)
      fix p assume p: "p < length (s_tlog s t @ [e])"
      show "led_term s' (e_term ((s_tlog s t @ [e]) ! p)) \<and> agree s' (s_tlog s t @ [e]) (e_term ((s_tlog s t @ [e]) ! p)) (Suc p)"
      proof (cases "p < length (s_tlog s t)")
        case True
        with mg[OF L(3)[OF t(1)]] show ?thesis
          by (auto simp: matching_def nth_append intro: agree_append)
      next
        case False
        with p have "p = length (s_tlog s t)" by simp
        then show ?thesis using t' propose(4) by (simp add: agree_def propose(1))
      qed
    qed
    show ?thesis
      unfolding logs_ok_def using mg L new propose t by (auto simp: led_term_def)
  next
    case (accept j m sg q l')
    have sg: "matching s sg" using matching_take[OF L(3)[OF postedD(1)[OF assms(6) accept(4)]]] accept(6) by simp
    from merge_take[OF L(1) sg accept(7)] have "l' = take q (s_log s j) \<or> l' = sg"
      using accept(8) by (metis append_take_drop_id insertE singletonD)
    with sg matching_take[OF L(1)] have "matching s l'" by blast
    from mg[OF this] show ?thesis
      unfolding logs_ok_def using mg L accept by (auto simp: led_term_def)
  qed (use mg L in \<open>auto simp: logs_ok_def led_term_def split: if_splits\<close>)
qed

section \<open>Leader completeness\<close>

text \<open>
  A leader of a later term has parted from a held prefix when its log does not contain it. Held entries stay in a node's
  log, and in the logs of the candidates it votes for, unless some leader has parted from them.
\<close>

definition parted :: "raft_spec \<Rightarrow> raft_term set \<Rightarrow> raft_term \<Rightarrow> nat \<Rightarrow> bool" where
  "parted s ts t k \<longleftrightarrow> (\<exists>t' \<in> ts. t < t' \<and> \<not> agree s (s_tlog s t') t k)"

lemma tlog_step:
  assumes "spec_step M s s'" "led_term s t"
  shows "s_tlog s' t = s_tlog s t \<or> (\<exists>e. e_term e = t \<and> s_tlog s' t = s_tlog s t @ [e])"
  using assms(1) by cases (use assms(2) in auto)

lemma agree_tlog_grows:
  assumes "grows s s'" "led_term s t" "led_term s t'" "agree s (s_tlog s t') t k"
  shows "agree s' (s_tlog s' t') t k"
proof -
  have k: "k \<le> length (s_tlog s t')" using assms(4) by (simp add: agree_def)
  with grows_take[OF assms(1,3)] agree_grows[OF assms(1,2,4)] grows_length[OF assms(1,3)] show ?thesis
    by (simp add: agree_def)
qed

lemma parted_step:
  assumes "spec_step M s s'" "book M s" "led_term s t" "own s t k" "parted s ts t k" "\<And>t'. t' \<in> ts \<Longrightarrow> led_term s t'"
  shows "parted s' ts t k"
proof -
  note G = grows_step[OF assms(1,2)]
  from assms(5) obtain t' where t': "t' \<in> ts" "t < t'" "\<not> agree s (s_tlog s t') t k" by (auto simp: parted_def)
  have k: "0 < k" "k \<le> length (s_tlog s t)" "e_term (s_tlog s t ! (k - 1)) = t" using assms(4) by (auto simp: own_def)
  have "\<not> agree s' (s_tlog s' t') t k"
  proof
    assume a: "agree s' (s_tlog s' t') t k"
    have eq: "take k (s_tlog s' t') = take k (s_tlog s t)"
      using a grows_take[OF G assms(3) k(2)] by (simp add: agree_def)
    show False
    proof (cases "k \<le> length (s_tlog s t')")
      case True
      with eq grows_take[OF G assms(6)[OF t'(1)] True] k(2) t'(3) show False by (simp add: agree_def)
    next
      case False
      then have "s_tlog s' t' \<noteq> s_tlog s t'" using a by (auto simp: agree_def)
      with tlog_step[OF assms(1) assms(6)[OF t'(1)]] obtain e where e: "e_term e = t'" "s_tlog s' t' = s_tlog s t' @ [e]"
        by blast
      moreover have "k = Suc (length (s_tlog s t'))" using False a e(2) by (simp add: agree_def)
      moreover from eq k(1,2) have "s_tlog s' t' ! (k - 1) = s_tlog s t ! (k - 1)"
        by (metis diff_less less_numeral_extra(1) nth_take)
      ultimately show False using k(3) t'(2) by simp
    qed
  qed
  with t' show ?thesis unfolding parted_def by blast
qed

lemma parted_mono: "parted s ts t k \<Longrightarrow> ts \<subseteq> ts' \<Longrightarrow> parted s ts' t k"
  by (auto simp: parted_def)

definition leds :: "raft_spec \<Rightarrow> raft_term set" where
  "leds s = fst ` set (s_leads s)"

lemma leds_iff: "t \<in> leds s \<longleftrightarrow> led_term s t"
  by (simp add: leds_def led_term_def)

lemma parted_leds_step:
  assumes "spec_step M s s'" "book M s" "led_term s t" "own s t k" "parted s (leds s) t k"
  shows "parted s' (leds s') t k"
proof -
  have "leds s \<subseteq> leds s'" using growsD(1)[OF grows_step[OF assms(1,2)]] by (auto simp: leds_iff)
  with parted_step[OF assms(1-5)] parted_mono show ?thesis by (simp add: leds_iff)
qed

text \<open>The election restriction: a candidate whose log is at least as new as the voter's has what the voter holds.\<close>

lemma vote_restriction:
  assumes L: "logs_ok s" and "matching s l" "matching s lj" "newer l lj" "agree s lj t k" "own s t k" "0 < t" "led_term s t"
  shows "agree s l t k \<or> parted s (leds s) t k"
proof -
  have k: "0 < k" "k \<le> length (s_tlog s t)" "e_term (s_tlog s t ! (k - 1)) = t" using assms(6) by (auto simp: own_def)
  have lj: "k \<le> length lj" "e_term (lj ! (k - 1)) = t"
    using assms(5) agree_nth[OF assms(5), of "k - 1"] k by (auto simp: agree_def)
  have "lj \<noteq> []" using lj k by auto
  then have "t \<le> last_term lj"
    using terms_sorted[OF L assms(3), of "k - 1" "length lj - 1"] lj k by (simp add: last_term_def last_conv_nth)
  with assms(4,7) have T: "t \<le> last_term l" "l \<noteq> []" by (auto simp: newer_def last_term_def split: if_splits)
  let ?T = "last_term l" and ?n = "length l - 1"
  have n: "?n < length l" "e_term (l ! ?n) = ?T" using T(2) by (simp_all add: last_term_def last_conv_nth)
  note m = matchingD[OF assms(2) n(1), unfolded n(2)]
  from m(2) T(2) have l: "l = take (length l) (s_tlog s ?T)" by simp
  show ?thesis
  proof (cases "t = ?T")
    case True
    with assms(4) \<open>t \<le> last_term lj\<close> have "length lj \<le> length l" by (auto simp: newer_def)
    then have kl: "k \<le> length l" using lj(1) by simp
    have "take k l = take k (s_tlog s t)" using arg_cong[OF l, of "take k"] kl True by (simp add: min_def)
    with kl k(2) show ?thesis by (simp add: agree_def)
  next
    case False
    with T(1) have lt: "t < ?T" by simp
    show ?thesis
    proof (cases "agree s (s_tlog s ?T) t k")
      case True
      have "k \<le> length l"
      proof (rule ccontr)
        assume "\<not> k \<le> length l"
        then have "?n \<le> k - 1" "k - 1 < length (s_tlog s ?T)" using True k(1) by (auto simp: agree_def)
        from terms_sorted[OF L logs_okD(3)[OF L m(1)] this] have "e_term (s_tlog s ?T ! ?n) \<le> t"
          using agree_nth[OF True, of "k - 1"] k by simp
        moreover have "s_tlog s ?T ! ?n = l ! ?n" using l n(1) by (metis nth_take)
        ultimately show False using n(2) lt by simp
      qed
      then have "take k l = take k (s_tlog s ?T)" using arg_cong[OF l, of "take k"] by (simp add: min_def)
      with True \<open>k \<le> length l\<close> show ?thesis by (simp add: agree_def)
    qed (use lt m(1) in \<open>auto simp: parted_def leds_iff\<close>)
  qed
qed

definition base :: "node_id set \<Rightarrow> raft_spec \<Rightarrow> bool" where
  "base M s \<longleftrightarrow> finite M \<and> book M s \<and> logs_ok s \<and> outrun M s \<and> posted s"

lemma baseD: "base M s \<Longrightarrow> finite M" "base M s \<Longrightarrow> book M s" "base M s \<Longrightarrow> logs_ok s" "base M s \<Longrightarrow> outrun M s" "base M s \<Longrightarrow> posted s"
  by (simp_all add: base_def)

lemma base_step: "spec_step M s s' \<Longrightarrow> base M s \<Longrightarrow> base M s'"
  unfolding base_def using book_step outrun_step logs_step posted_step by blast

definition held_known :: "raft_spec \<Rightarrow> bool" where
  "held_known s \<longleftrightarrow> (\<forall>j t k. (j, t, k) \<in> s_held s \<longrightarrow> led_term s t \<and> t \<le> s_term s j \<and> k \<le> length (s_tlog s t))"

definition held_kept :: "raft_spec \<Rightarrow> bool" where
  "held_kept s \<longleftrightarrow> (\<forall>j t k. (j, t, k) \<in> s_held s \<longrightarrow> own s t k \<longrightarrow> agree s (s_log s j) t k \<or> parted s (leds s) t k)"

definition held_voted :: "raft_spec \<Rightarrow> bool" where
  "held_voted s \<longleftrightarrow> (\<forall>j t k t' c l. (j, t, k) \<in> s_held s \<longrightarrow> own s t k \<longrightarrow> (j, t', c) \<in> s_votes s \<longrightarrow> t < t' \<longrightarrow>
     \<not> led_term s t' \<longrightarrow> s_camp s (t', c) = Some l \<longrightarrow> agree s l t k \<or> parted s (leds s) t k)"

definition has_held :: "raft_spec \<Rightarrow> raft_term \<Rightarrow> raft_term set \<Rightarrow> node_id \<Rightarrow> bool" where
  "has_held s t' ts j \<longleftrightarrow> t' \<le> s_term s j \<and>
     (\<forall>t k. (j, t, k) \<in> s_held s \<longrightarrow> own s t k \<longrightarrow> t < t' \<longrightarrow> agree s (s_tlog s t') t k \<or> parted s ts t k)"

definition held_elected :: "node_id set \<Rightarrow> raft_spec \<Rightarrow> bool" where
  "held_elected M s \<longleftrightarrow> (\<forall>l1 t' c l2. s_leads s = l1 @ (t', c) # l2 \<longrightarrow>
     (\<exists>R. majority M R \<and> (\<forall>j \<in> R. has_held s t' (fst ` set l2) j)))"

lemma held_knownD:
  "held_known s \<Longrightarrow> (j, t, k) \<in> s_held s \<Longrightarrow> led_term s t \<and> t \<le> s_term s j \<and> k \<le> length (s_tlog s t)"
  by (auto simp: held_known_def)

lemma held_step_cases:
  assumes "spec_step M s s'" "(j, t, k) \<in> s_held s'"
  shows "(j, t, k) \<in> s_held s \<or> t = s_term s j \<and> s_term s' j = s_term s j \<and> led_term s t \<and> agree s (s_log s j) t k
    \<and> s_log s' j = s_log s j \<and> s_tlog s' = s_tlog s"
  using assms(1) by cases (use assms(2) in auto)

lemma held_known_step:
  assumes "spec_step M s s'" "base M s" "held_known s"
  shows "held_known s'"
  unfolding held_known_def
proof (intro allI impI)
  fix j t k assume "(j, t, k) \<in> s_held s'"
  note G = grows_step[OF assms(1) baseD(2)[OF assms(2)]]
  from held_step_cases[OF assms(1) \<open>(j, t, k) \<in> s_held s'\<close>] show "led_term s' t \<and> t \<le> s_term s' j \<and> k \<le> length (s_tlog s' t)"
  proof (elim disjE conjE)
    assume "(j, t, k) \<in> s_held s"
    from held_knownD[OF assms(3) this] show ?thesis
      using growsD(1)[OF G] growsD(5)[OF G] grows_length[OF G] le_trans by blast
  qed (use growsD(1)[OF G] in \<open>auto simp: agree_def\<close>)
qed

lemma own_back:
  assumes "grows s s'" "led_term s t" "k \<le> length (s_tlog s t)" "own s' t k"
  shows "own s t k"
  using assms grows_nth[OF assms(1,2), of "k - 1"] by (auto simp: own_def)

lemma held_kept_step:
  assumes "spec_step M s s'" "base M s" "held_known s" "held_kept s"
  shows "held_kept s'"
  unfolding held_kept_def
proof (intro allI impI)
  fix j t k assume h: "(j, t, k) \<in> s_held s'" and o: "own s' t k"
  note B = baseD(2)[OF assms(2)]
  note G = grows_step[OF assms(1) B]
  show "agree s' (s_log s' j) t k \<or> parted s' (leds s') t k"
  proof (cases "(j, t, k) \<in> s_held s")
    case False
    with held_step_cases[OF assms(1) h] show ?thesis by (auto simp: agree_def)
  next
    case old: True
    from held_knownD[OF assms(3) old] have t: "led_term s t" "t \<le> s_term s j" "k \<le> length (s_tlog s t)" by auto
    have o: "own s t k" by (rule own_back[OF G t(1,3) o])
    note pk = parted_leds_step[OF assms(1) B t(1) o]
    from assms(4) old o consider "agree s (s_log s j) t k" | "parted s (leds s) t k" unfolding held_kept_def by blast
    then show ?thesis
    proof cases
      case 2 with pk show ?thesis by blast
    next
      case a: 1
      show ?thesis
        using assms(1)
      proof cases
        case (accept j' m sg q l')
        show ?thesis
        proof (cases "j' = j \<and> q < k")
          case False
          then have "agree s (s_log s' j) t k"
            using a accept(8) by (auto simp: accept(1) intro!: agree_append agree_take)
          with agree_grows[OF G t(1)] show ?thesis by blast
        next
          case True
          note p = postedD[OF baseD(5)[OF assms(2)] accept(4)]
          have q: "q < length (s_log s j)" using True a by (auto simp: agree_def)
          with accept(7) True have c: "q < length sg" "\<not> same_term (s_log s j) sg q" by (auto simp: merge_point_def)
          have "\<not> agree s (s_tlog s (m_built m)) t k"
          proof
            assume "agree s (s_tlog s (m_built m)) t k"
            from agree_nth[OF this] agree_nth[OF a] True have "s_log s j ! q = s_tlog s (m_built m) ! q" by metis
            with c show False by (simp add: same_term_def accept(6))
          qed
          moreover from this t(3) have "m_built m \<noteq> t" by (auto simp: agree_def)
          moreover have "t \<le> m_built m" using t(2) accept(5) p(2) True by simp
          ultimately have "parted s (leds s) t k" using p(1)
            unfolding parted_def by (intro bexI[of _ "m_built m"]) (auto simp: leds_iff)
          with pk show ?thesis by blast
        qed
      qed (use a agree_grows[OF G t(1)] in \<open>auto intro: agree_append\<close>)
    qed
  qed
qed

lemma held_voted_step:
  assumes "spec_step M s s'" "base M s" "held_known s" "held_kept s" "held_voted s"
  shows "held_voted s'"
  unfolding held_voted_def
proof (intro allI impI)
  fix j t k t' c l
  assume h: "(j, t, k) \<in> s_held s'" and o: "own s' t k" and v: "(j, t', c) \<in> s_votes s'" and lt: "t < t'"
    and nl: "\<not> led_term s' t'" and l: "s_camp s' (t', c) = Some l"
  note B = baseD(2)[OF assms(2)] and L = baseD(3)[OF assms(2)]
  note G = grows_step[OF assms(1) B]
  have "t' \<le> s_term s' j" using bookD(1)[OF book_step[OF assms(1) B baseD(1)[OF assms(2)]] v] .
  with held_step_cases[OF assms(1) h] lt have old: "(j, t, k) \<in> s_held s" by auto
  from held_knownD[OF assms(3) old] have t: "led_term s t" "t \<le> s_term s j" "k \<le> length (s_tlog s t)" by auto
  have o: "own s t k" by (rule own_back[OF G t(1,3) o])
  have pos: "0 < t" using t(1) bookD(8)[OF B] by (auto simp: led_term_iff)
  have up: "agree s' l t k \<or> parted s' (leds s') t k" if "agree s l t k \<or> parted s (leds s) t k"
    using that agree_grows[OF G t(1)] parted_leds_step[OF assms(1) B t(1) o] by blast
  have nl': "\<not> led_term s t'" using nl growsD(1)[OF G] by blast
  show "agree s' l t k \<or> parted s' (leds s') t k"
  proof (cases "(j, t', c) \<in> s_votes s")
    case True
    have "s_camp s (t', c) = Some l"
      using assms(1) by cases (use l bookD(2)[OF B True] bookD(4)[OF B, of t' c] in \<open>auto split: if_splits\<close>)
    with assms(5) old o True lt nl' up show ?thesis unfolding held_voted_def by blast
  next
    case False
    have kept: "agree s (s_log s j) t k \<or> parted s (leds s) t k" using assms(4) old o unfolding held_kept_def by blast
    show ?thesis
      using assms(1)
    proof cases
      case (campaign i u)
      with False v l have "l = s_log s j" by auto
      with kept up show ?thesis by blast
    next
      case (vote j' u c' l')
      with False v l have x: "j = j'" "l' = l" "u = t'" by auto
      with vote(5) nl' have "newer l (s_log s j)" by auto
      from vote_restriction[OF L logs_okD(2)[OF L] logs_okD(1)[OF L] this _ o pos t(1)] kept vote(4) x up show ?thesis by blast
    qed (use False v in auto)
  qed
qed

lemma has_held_step:
  assumes "spec_step M s s'" "base M s" "held_known s" "has_held s t' ts j" "led_term s t'" "\<And>u. u \<in> ts \<Longrightarrow> led_term s u"
  shows "has_held s' t' ts j"
proof -
  note B = baseD(2)[OF assms(2)]
  note G = grows_step[OF assms(1) B]
  have j: "t' \<le> s_term s j" using assms(4) by (simp add: has_held_def)
  have "agree s' (s_tlog s' t') t k \<or> parted s' ts t k" if h: "(j, t, k) \<in> s_held s'" "own s' t k" "t < t'" for t k
  proof -
    have old: "(j, t, k) \<in> s_held s" using held_step_cases[OF assms(1) h(1)] h(3) j by auto
    from held_knownD[OF assms(3) old] have t: "led_term s t" "k \<le> length (s_tlog s t)" by auto
    have o: "own s t k" by (rule own_back[OF G t h(2)])
    from assms(4) old o h(3) have "agree s (s_tlog s t') t k \<or> parted s ts t k" by (auto simp: has_held_def)
    with agree_tlog_grows[OF G t(1) assms(5)] parted_step[OF assms(1) B t(1) o _ assms(6)] show ?thesis by blast
  qed
  moreover have "t' \<le> s_term s' j" using j growsD(5)[OF G, of j] by simp
  ultimately show ?thesis unfolding has_held_def by blast
qed

lemma held_elected_step:
  assumes "spec_step M s s'" "base M s" "held_known s" "held_voted s" "held_elected M s"
  shows "held_elected M s'"
  unfolding held_elected_def
proof (intro allI impI)
  fix l1 t' c l2 assume e: "s_leads s' = l1 @ (t', c) # l2"
  have old: "\<exists>R. majority M R \<and> (\<forall>j \<in> R. has_held s' t' (fst ` set l2) j)" if l: "s_leads s = k1 @ (t', c) # l2" for k1
  proof -
    from assms(5) l obtain R where R: "majority M R" "\<And>j. j \<in> R \<Longrightarrow> has_held s t' (fst ` set l2) j"
      unfolding held_elected_def by blast
    have "led_term s t'" "\<And>u. u \<in> fst ` set l2 \<Longrightarrow> led_term s u" by (auto simp: led_term_def l)
    with R has_held_step[OF assms(1-3)] show ?thesis by blast
  qed
  show "\<exists>R. majority M R \<and> (\<forall>j \<in> R. has_held s' t' (fst ` set l2) j)"
    using assms(1)
  proof cases
    case (elect c0 t0)
    show ?thesis
    proof (cases l1)
      case (Cons x l1')
      with e elect(1) old[of l1'] show ?thesis by simp
    next
      case Nil
      with e elect(1) have x: "t' = t0" "c = c0" "l2 = s_leads s" by auto
      have "has_held s' t0 (leds s) j" if j: "j \<in> spec_voters M s t0 c0" for j
      proof -
        have v: "(j, t0, c0) \<in> s_votes s" using j by (simp add: spec_voters_def)
        have "agree s' (s_tlog s' t0) t k \<or> parted s' (leds s) t k" if h: "(j, t, k) \<in> s_held s" "own s' t k" "t < t0" for t k
        proof -
          from held_knownD[OF assms(3) h(1)] have t: "led_term s t" "k \<le> length (s_tlog s t)" by auto
          note B = baseD(2)[OF assms(2)]
          note G = grows_step[OF assms(1) B]
          have o: "own s t k" by (rule own_back[OF G t h(2)])
          from assms(4) h(1,3) o v elect(4,6) have "agree s (s_log s c0) t k \<or> parted s (leds s) t k"
            unfolding held_voted_def by blast
          with agree_grows[OF G t(1), of "s_log s c0" k] parted_step[OF assms(1) B t(1) o, of "leds s"] show ?thesis
            by (auto simp: elect(1) leds_iff)
        qed
        moreover have "t0 \<le> s_term s' j" using bookD(1)[OF baseD(2)[OF assms(2)] v] by (simp add: elect(1))
        ultimately show ?thesis unfolding has_held_def by (simp add: elect(1))
      qed
      with elect(5) show ?thesis unfolding x leds_def by blast
    qed
  qed (use e old in auto)
qed

definition chosen_ok :: "node_id set \<Rightarrow> raft_spec \<Rightarrow> bool" where
  "chosen_ok M s \<longleftrightarrow> (\<forall>t k. (t, k) \<in> s_chosen s \<longrightarrow>
     led_term s t \<and> own s t k \<and> (\<exists>Q. majority M Q \<and> (\<forall>j \<in> Q. (j, t, k) \<in> s_held s)))"

lemma chosen_okD: "chosen_ok M s \<Longrightarrow> (t, k) \<in> s_chosen s \<Longrightarrow> led_term s t"
  "chosen_ok M s \<Longrightarrow> (t, k) \<in> s_chosen s \<Longrightarrow> own s t k"
  by (auto simp: chosen_ok_def)

text \<open>Every leader from a term on has what was chosen in that term.\<close>

lemma leader_completeness:
  assumes "finite M" "held_elected M s" "chosen_ok M s" "(t, k) \<in> s_chosen s" "led_term s t'" "t \<le> t'"
  shows "agree s (s_tlog s t') t k"
proof -
  from assms(3,4) obtain Q where Q: "majority M Q" "\<And>j. j \<in> Q \<Longrightarrow> (j, t, k) \<in> s_held s" and o: "own s t k"
    unfolding chosen_ok_def by blast
  have later: "agree s (s_tlog s u) t k" if "s_leads s = l1 @ (u, c) # l2" "t < u" for l1 u c l2
    using that
  proof (induction "length l2" arbitrary: l1 u c l2 rule: less_induct)
    case less
    from assms(2) less.prems(1) obtain R where R: "majority M R" "\<And>j. j \<in> R \<Longrightarrow> has_held s u (fst ` set l2) j"
      unfolding held_elected_def by blast
    from majority_intersect[OF assms(1) Q(1) R(1)] obtain j where "(j, t, k) \<in> s_held s" "has_held s u (fst ` set l2) j"
      using Q(2) R(2) by blast
    with o less.prems(2) consider "agree s (s_tlog s u) t k" | "parted s (fst ` set l2) t k" by (auto simp: has_held_def)
    then show ?case
    proof cases
      case 2
      then obtain v cv where v: "(v, cv) \<in> set l2" "t < v" "\<not> agree s (s_tlog s v) t k" by (auto simp: parted_def)
      from v(1) obtain a b where l2: "l2 = a @ (v, cv) # b" by (auto simp: in_set_conv_decomp)
      from less.hyps[of b "l1 @ (u, c) # a" v cv] l2 less.prems(1) v(2,3) show ?thesis by simp
    qed
  qed
  show ?thesis
  proof (cases "t = t'")
    case True
    with o show ?thesis by (auto simp: agree_def own_def)
  next
    case False
    from assms(5) obtain c where "(t', c) \<in> set (s_leads s)" by (auto simp: led_term_iff)
    then obtain l1 l2 where "s_leads s = l1 @ (t', c) # l2" by (auto simp: in_set_conv_decomp)
    with later False assms(6) show ?thesis by simp
  qed
qed

section \<open>Commit indices\<close>

definition commit_ok :: "raft_spec \<Rightarrow> bool" where
  "commit_ok s \<longleftrightarrow> (\<forall>j. s_commit s j = 0 \<or> (\<exists>t0 k0. (t0, k0) \<in> s_chosen s \<and> t0 \<le> s_term s j \<and> s_commit s j \<le> k0
     \<and> agree s (s_log s j) t0 (s_commit s j)))"

definition sent_backed :: "raft_spec \<Rightarrow> bool" where
  "sent_backed s \<longleftrightarrow> (\<forall>m \<in> s_sent s. m_commit m = 0 \<or>
     (\<exists>t0 k0. (t0, k0) \<in> s_chosen s \<and> t0 \<le> m_label m \<and> m_commit m \<le> k0 \<and> k0 \<le> m_upto m))"

lemma commit_okD:
  assumes "commit_ok s" "p < s_commit s j"
  obtains t k where "(t, k) \<in> s_chosen s" "t \<le> s_term s j" "s_commit s j \<le> k" "agree s (s_log s j) t (s_commit s j)"
  using assms unfolding commit_ok_def by (metis not_less0)

lemma sent_backedD:
  assumes "sent_backed s" "m \<in> s_sent s" "m_commit m \<noteq> 0"
  obtains t k where "(t, k) \<in> s_chosen s" "t \<le> m_label m" "m_commit m \<le> k" "k \<le> m_upto m"
  using assms unfolding sent_backed_def by metis

definition safe :: "node_id set \<Rightarrow> raft_spec \<Rightarrow> bool" where
  "safe M s \<longleftrightarrow> base M s \<and> held_known s \<and> held_kept s \<and> held_voted s \<and> held_elected M s \<and> chosen_ok M s
     \<and> commit_ok s \<and> sent_backed s"

lemma safeD:
  assumes "safe M s"
  shows "base M s" "finite M" "book M s" "logs_ok s" "posted s" "held_known s" "held_kept s" "held_voted s" "held_elected M s"
    "chosen_ok M s" "commit_ok s" "sent_backed s"
  using assms by (simp_all add: safe_def base_def)

lemma chosen_prefix:
  assumes "safe M s" "(t, k) \<in> s_chosen s" "led_term s t'" "t \<le> t'"
  shows "agree s (s_tlog s t') t k"
  by (rule leader_completeness[OF safeD(2,9,10)[OF assms(1)] assms(2-4)])

lemma chosen_ok_step:
  assumes "spec_step M s s'" "safe M s"
  shows "chosen_ok M s'"
  unfolding chosen_ok_def
proof (intro allI impI)
  fix t k assume c: "(t, k) \<in> s_chosen s'"
  note G = grows_step[OF assms(1) safeD(3)[OF assms(2)]]
  have old: "led_term s' t \<and> own s' t k \<and> (\<exists>Q. majority M Q \<and> (\<forall>j \<in> Q. (j, t, k) \<in> s_held s'))" if "(t, k) \<in> s_chosen s"
    using safeD(10)[OF assms(2)] that growsD(1,3)[OF G] own_grows[OF G] unfolding chosen_ok_def by (meson subsetD)
  show "led_term s' t \<and> own s' t k \<and> (\<exists>Q. majority M Q \<and> (\<forall>j \<in> Q. (j, t, k) \<in> s_held s'))"
    using assms(1)
  proof cases
    case (choose i u n Q)
    with c old leader_led[OF safeD(3)[OF assms(2)] choose(2)] show ?thesis
      by (cases "(t, k) = (u, n)") (auto simp: own_def led_term_def)
  qed (use c old in auto)
qed

lemma sent_backed_step:
  assumes "spec_step M s s'" "safe M s"
  shows "sent_backed s'"
proof -
  have sub: "s_chosen s \<subseteq> s_chosen s'" using growsD(4)[OF grows_step[OF assms(1) safeD(3)[OF assms(2)]]] .
  note old = safeD(12)[OF assms(2), unfolded sent_backed_def]
  have same: "sent_backed s'" if "s_sent s' = s_sent s" using old sub unfolding sent_backed_def that by (meson subsetD)
  show ?thesis
    using assms(1)
  proof cases
    case (send i T t prev c)
    have "c = 0 \<or> (\<exists>t0 k0. (t0, k0) \<in> s_chosen s \<and> t0 \<le> t \<and> c \<le> k0 \<and> k0 \<le> length (s_tlog s T))"
    proof (cases "c = 0")
      case False
      with send(6) obtain t0 k0 where c: "(t0, k0) \<in> s_chosen s" "t0 \<le> t" "c \<le> k0" by (auto simp: backed_def)
      have "led_term s T" using leader_led[OF safeD(3)[OF assms(2)] send(2)] send(3) by simp
      with chosen_prefix[OF assms(2) c(1)] c(2) send(4) have "agree s (s_tlog s T) t0 k0" by simp
      with c show ?thesis by (auto simp: agree_def)
    qed simp
    with old show ?thesis by (auto simp: send(1) sent_backed_def)
  qed (use same in auto)
qed

lemma merge_keeps_chosen:
  assumes "safe M s" "m \<in> s_sent s" "s_term s j = m_label m" "merge_point (m_prev m) (s_log s j) (take (m_upto m) (s_tlog s (m_built m))) q"
    and "(t0, k0) \<in> s_chosen s" "t0 \<le> s_term s j" "n \<le> k0" "agree s (s_log s j) t0 n"
  shows "n \<le> q"
proof (rule ccontr)
  assume n: "\<not> n \<le> q"
  note p = postedD[OF safeD(5)[OF assms(1)] assms(2)]
  have a: "agree s (s_tlog s (m_built m)) t0 k0"
    using chosen_prefix[OF assms(1,5) p(1)] assms(3,6) p(2) by simp
  have q: "q < length (s_log s j)" using n assms(8) by (auto simp: agree_def)
  with assms(4) have c: "q < m_upto m" "\<not> same_term (s_log s j) (take (m_upto m) (s_tlog s (m_built m))) q"
    by (auto simp: merge_point_def)
  have "s_log s j ! q = s_tlog s (m_built m) ! q"
    using agree_nth[OF assms(8)] agree_nth[OF a] n assms(7) by (metis le_less_trans less_le_trans not_le)
  with c show False by (simp add: same_term_def)
qed

lemma commit_ok_step:
  assumes "spec_step M s s'" "safe M s"
  shows "commit_ok s'"
  unfolding commit_ok_def
proof
  fix j
  let ?ok = "\<lambda>n. n = 0 \<or> (\<exists>t0 k0. (t0, k0) \<in> s_chosen s' \<and> t0 \<le> s_term s' j \<and> n \<le> k0 \<and> agree s' (s_log s' j) t0 n)"
  note G = grows_step[OF assms(1) safeD(3)[OF assms(2)]]
  have up: "?ok n" if "(t0, k0) \<in> s_chosen s" "t0 \<le> s_term s j" "n \<le> k0" "agree s (s_log s' j) t0 n" for t0 k0 n
    using that growsD(4)[OF G] growsD(5)[OF G, of j] agree_grows[OF G chosen_okD(1)[OF safeD(10)[OF assms(2)] that(1)]]
    by (meson le_trans subsetD)
  have old: "?ok (s_commit s j)"
    if "\<And>t0 k0. (t0, k0) \<in> s_chosen s \<Longrightarrow> t0 \<le> s_term s j \<Longrightarrow> s_commit s j \<le> k0 \<Longrightarrow> agree s (s_log s j) t0 (s_commit s j)
      \<Longrightarrow> agree s (s_log s' j) t0 (s_commit s j)"
    using safeD(11)[OF assms(2)] that up unfolding commit_ok_def by metis
  show "?ok (s_commit s' j)"
    using assms(1)
  proof cases
    case (propose i t e)
    have "?ok (s_commit s j)" by (rule old) (auto simp: propose(1) intro: agree_append)
    then show ?thesis by (simp add: propose(1))
  next
    case (accept j' m sg q l')
    have "?ok (s_commit s j)"
    proof (rule old)
      fix t0 k0 assume a: "(t0, k0) \<in> s_chosen s" "t0 \<le> s_term s j" "s_commit s j \<le> k0" "agree s (s_log s j) t0 (s_commit s j)"
      show "agree s (s_log s' j) t0 (s_commit s j)"
      proof (cases "j = j'")
        case True
        have "s_commit s j \<le> q" using merge_keeps_chosen[OF assms(2) accept(4) _ _ a, of q] accept(5,6,7) True by simp
        with a(4) accept(8) True show ?thesis by (auto simp: accept(1) intro!: agree_append agree_take)
      qed (use a in \<open>simp add: accept(1)\<close>)
    qed
    then show ?thesis by (simp add: accept(1))
  next
    case (learn j' m)
    have keep: "?ok (s_commit s j)" by (rule old) (simp add: learn(1))
    have new: "?ok (m_commit m)" if "j = j'"
    proof (cases "m_commit m = 0")
      case False
      from sent_backedD[OF safeD(12)[OF assms(2)] learn(3) False] obtain t0 k0 where c: "(t0, k0) \<in> s_chosen s"
        "t0 \<le> m_label m" "m_commit m \<le> k0" "k0 \<le> m_upto m" .
      note p = postedD[OF safeD(5)[OF assms(2)] learn(3)]
      have "agree s (s_tlog s (m_built m)) t0 k0" using chosen_prefix[OF assms(2) c(1) p(1)] c(2) p(2) by simp
      from agree_less[OF this c(3)] have a: "agree s (s_tlog s (m_built m)) t0 (m_commit m)" .
      have "take (m_commit m) (s_log s j) = take (m_commit m) (s_tlog s (m_built m))"
        using arg_cong[OF learn(6), of "take (m_commit m)"] c(3,4) that by (simp add: min_def split: if_splits)
      with a learn(5) c(3,4) that have "agree s (s_log s' j) t0 (m_commit m)" by (auto simp: agree_def learn(1))
      from up[OF c(1) _ c(3) this] c(2) learn(4) that show ?thesis by simp
    qed simp
    have "s_commit s' j = s_commit s j \<or> j = j' \<and> s_commit s' j = m_commit m" by (auto simp: learn(1) max_def)
    then show ?thesis
    proof (elim disjE conjE)
      assume e: "s_commit s' j = s_commit s j"
      show ?thesis unfolding e by (rule keep)
    next
      assume e: "s_commit s' j = m_commit m" "j = j'"
      show ?thesis unfolding e(1) by (rule new[OF e(2)])
    qed
  next
    case (choose i t k Q)
    have keep: "?ok (s_commit s j)" by (rule old) (simp add: choose(1))
    have new: "?ok k" if "j = i"
    proof -
      have "s_log s i = s_tlog s t" using bookD(11)[OF safeD(3)[OF assms(2)] choose(2)] choose(3) by simp
      then have "(t, k) \<in> s_chosen s'" "t \<le> s_term s' j" "agree s' (s_log s' j) t k"
        using choose(3,4) that by (auto simp: choose(1) agree_def own_def)
      then show ?thesis by blast
    qed
    have "s_commit s' j = s_commit s j \<or> j = i \<and> s_commit s' j = k" by (auto simp: choose(1) max_def)
    then show ?thesis
    proof (elim disjE conjE)
      assume e: "s_commit s' j = s_commit s j"
      show ?thesis unfolding e by (rule keep)
    next
      assume e: "s_commit s' j = k" "j = i"
      show ?thesis unfolding e(1) by (rule new[OF e(2)])
    qed
  qed (use old in auto)
qed

lemma safe_step: "spec_step M s s' \<Longrightarrow> safe M s \<Longrightarrow> safe M s'"
  using base_step held_known_step held_kept_step held_voted_step held_elected_step chosen_ok_step commit_ok_step sent_backed_step
    safeD by (metis safe_def)

lemma safe_steps: "spec_steps M s s' \<Longrightarrow> safe M s \<Longrightarrow> safe M s'"
  by (induction rule: spec_steps.induct) (auto intro: safe_step)

lemma safe_init: "finite M \<Longrightarrow> safe M spec_init"
  by (simp add: safe_def base_def book_def logs_ok_def outrun_def posted_def held_known_def held_kept_def held_voted_def
      held_elected_def chosen_ok_def commit_ok_def sent_backed_def spec_init_def matching_def led_term_def)

lemma grows_steps: "spec_steps M s s' \<Longrightarrow> safe M s \<Longrightarrow> grows s s'"
proof (induction rule: spec_steps.induct)
  case (extend s s' s'')
  note g = extend.IH[OF extend.prems] grows_step[OF extend(2) safeD(3)[OF safe_steps[OF extend(1) extend.prems]]]
  have "led_term s'' t \<and> take (length (s_tlog s t)) (s_tlog s'' t) = s_tlog s t" if "led_term s t" for t
    using growsD(1)[OF g(2) growsD(1)[OF g(1) that]]
      trans[OF grows_take[OF g(2) growsD(1)[OF g(1) that] grows_length[OF g(1) that]] growsD(2)[OF g(1) that]] by (rule conjI)
  then show ?case
    unfolding grows_def using subset_trans[OF growsD(3)[OF g(1)] growsD(3)[OF g(2)]]
      subset_trans[OF growsD(4)[OF g(1)] growsD(4)[OF g(2)]] le_trans[OF growsD(5)[OF g(1)] growsD(5)[OF g(2)]] by blast
qed (simp add: grows_def)

section \<open>State machine safety\<close>

lemma chosen_same:
  assumes "safe M s" "(t, k) \<in> s_chosen s" "(t', k') \<in> s_chosen s" "p < k" "p < k'"
  shows "s_tlog s t ! p = s_tlog s t' ! p"
proof -
  have "s_tlog s u ! p = s_tlog s u' ! p" if "(u, n) \<in> s_chosen s" "(u', n') \<in> s_chosen s" "p < n" "u \<le> u'" for u u' n n'
    using agree_nth[OF chosen_prefix[OF assms(1) that(1) _ that(4)] that(3)] chosen_okD(1)[OF safeD(10)[OF assms(1)] that(2)] by simp
  from this[OF assms(2,3,4)] this[OF assms(3,2,5), symmetric] show ?thesis using nle_le by blast
qed

lemma commit_agrees:
  assumes "spec_steps M s s'" "safe M s" "p < s_commit s i" "p < s_commit s' j"
  shows "p < length (s_log s i)" "p < length (s_log s' j)" "s_log s i ! p = s_log s' j ! p"
proof -
  note S' = safe_steps[OF assms(1,2)] and G = grows_steps[OF assms(1,2)]
  obtain t k where c: "(t, k) \<in> s_chosen s" "s_commit s i \<le> k" "agree s (s_log s i) t (s_commit s i)"
    using commit_okD[OF safeD(11)[OF assms(2)] assms(3)] by metis
  obtain t' k' where c': "(t', k') \<in> s_chosen s'" "s_commit s' j \<le> k'" "agree s' (s_log s' j) t' (s_commit s' j)"
    using commit_okD[OF safeD(11)[OF S'] assms(4)] by metis
  show "p < length (s_log s i)" "p < length (s_log s' j)" using c(3) c'(3) assms(3,4) by (auto simp: agree_def)
  have len: "p < length (s_tlog s t)" using c(3) assms(3) by (auto simp: agree_def)
  have "s_log s i ! p = s_tlog s' t ! p"
    using agree_nth[OF c(3) assms(3)] grows_nth[OF G chosen_okD(1)[OF safeD(10)[OF assms(2)] c(1)] len] by simp
  also have "\<dots> = s_tlog s' t' ! p"
    using chosen_same[OF S' subsetD[OF growsD(4)[OF G] c(1)] c'(1), of p] c(2) c'(2) assms(3,4) by simp
  also have "\<dots> = s_log s' j ! p" using agree_nth[OF c'(3) assms(4)] by simp
  finally show "s_log s i ! p = s_log s' j ! p" .
qed

lemma log_matching_spec:
  assumes "safe M s" "p < length (s_log s i)" "p < length (s_log s j)" "same_term (s_log s i) (s_log s j) p"
  shows "take (Suc p) (s_log s i) = take (Suc p) (s_log s j)"
  by (rule matching_eq[OF logs_okD(1)[OF safeD(4)] logs_okD(1)[OF safeD(4)]]) (use assms in auto)

end
