(* ===== verification/Log_View.thy ===== *)
theory Log_View
  imports Reconciliation Raft_Spec
begin

text \<open>
  The log of a store that has never had a snapshot, as a list: entry \<open>k\<close> of the store is element \<open>k - 1\<close>. Here are the
  list forms of what the storage calls read and write, whether or not other calls fail, and of the reconciliation
  of a follower's log: however far it gets, the store ends in one of the shapes the specification allows.
\<close>

section \<open>The log as a list\<close>

definition dlog :: "log_store \<Rightarrow> log_entry list" where
  "dlog d = map (\<lambda>k. the (disk_entry d k)) [1..<Suc (disk_last d)]"

definition plain :: "log_store \<Rightarrow> bool" where
  "plain d \<longleftrightarrow> log_ok d \<and> meta_snapshot_index d = None \<and> meta_snapshot_term d = None"

lemma plainD: "plain d \<Longrightarrow> log_ok d" "plain d \<Longrightarrow> disk_snap d = 0" "plain d \<Longrightarrow> meta_snapshot_term d = None"
  by (simp_all add: plain_def disk_snap_def)

lemma length_dlog [simp]: "length (dlog d) = disk_last d"
  by (simp add: dlog_def del: upt_Suc)

lemma nth_dlog: "p < disk_last d \<Longrightarrow> dlog d ! p = the (disk_entry d (Suc p))"
  by (simp add: dlog_def del: upt_Suc)

lemma disk_entry_dlog:
  assumes "plain d"
  shows "disk_entry d k = (if 0 < k \<and> k \<le> disk_last d then Some (dlog d ! (k - 1)) else None)"
proof (cases "0 < k \<and> k \<le> disk_last d")
  case True
  then obtain e where "disk_entry d k = Some e" using log_okD(4)[OF plainD(1)[OF assms], of k] plainD(2)[OF assms] by auto
  moreover have "k - 1 < disk_last d" using True by linarith
  ultimately show ?thesis using True nth_dlog[of "k - 1" d] by simp
next
  case False
  with log_okD(2)[OF plainD(1)[OF assms], of k] disk_last_ge[OF plainD(1)[OF assms], of k] show ?thesis
    by (cases "disk_entry d k") auto
qed

lemma dlog_eqI:
  assumes "plain d" "disk_last d = length l" "\<And>p. p < length l \<Longrightarrow> disk_entry d (Suc p) = Some (l ! p)"
  shows "dlog d = l"
  by (rule nth_equalityI) (use assms in \<open>auto simp: nth_dlog\<close>)

lemma dlog_entry:
  assumes "plain d" "p < disk_last d"
  shows "e_index (dlog d ! p) = Suc p" "0 < e_term (dlog d ! p)" "is_u64 (Suc p)"
  using log_okD(2)[OF plainD(1)[OF assms(1)], of "Suc p" "dlog d ! p"] assms(2) disk_entry_dlog[OF assms(1), of "Suc p"] by auto

lemma consecutive_dlog: "plain d \<Longrightarrow> consecutive (Suc 0) (dlog d)"
  by (auto simp: consecutive_def dlog_entry intro!: nth_equalityI simp del: upt_Suc)

lemma disk_last_u64: "plain d \<Longrightarrow> is_u64 (disk_last d)"
  using dlog_entry(3)[of d "disk_last d - 1"] by (cases "disk_last d") auto

lemma term_at_dlog:
  "plain d \<Longrightarrow> disk_term_at d k = (if 0 < k \<and> k \<le> disk_last d then e_term (dlog d ! (k - 1)) else 0)"
  by (simp add: disk_term_at_def plainD(2) disk_entry_dlog)

lemma last_term_dlog:
  assumes "plain d"
  shows "disk_last_term d = last_term (dlog d)"
proof (cases "tree_last (log_tree d)")
  case None
  then have "disk_last d = 0" by (simp add: disk_last_def disk_physical_def plainD(2)[OF assms])
  then have "dlog d = []" by (simp add: dlog_def)
  with None show ?thesis by (simp add: disk_last_term_def last_term_def plainD(3)[OF assms])
next
  case (Some ke)
  obtain k e where ke: "ke = (k, e)" by (cases ke)
  have k: "disk_last d = k" using Some ke by (simp add: disk_last_def disk_physical_def plainD(2)[OF assms])
  have e: "disk_entry d k = Some e"
    using sled.last_Some[OF log_okD(1)[OF plainD(1)[OF assms]] Some[unfolded ke]] by (simp add: disk_entry_def)
  then have kp: "0 < k" "0 < e_term e" "dlog d ! (k - 1) = e"
    using log_okD(2)[OF plainD(1)[OF assms] e] disk_entry_dlog[OF assms, of k] k by auto
  have "dlog d \<noteq> []" using kp(1) k by (metis length_dlog length_greater_0_conv)
  then have "last_term (dlog d) = e_term e" using kp(3) k by (simp add: last_term_def last_conv_nth)
  then show ?thesis using Some ke kp(2) by (simp add: disk_last_term_def)
qed

section \<open>Writes\<close>

lemma plain_append:
  assumes "plain d" "consecutive (Suc (disk_last d)) es" "is_u64 (disk_last d + length es)" "\<And>e. e \<in> set es \<Longrightarrow> 0 < e_term e"
  shows "plain (set_log (entry_batch es) d)" "dlog (set_log (entry_batch es) d) = dlog d @ es"
proof -
  note ok = plainD(1)[OF assms(1)]
  show p: "plain (set_log (entry_batch es) d)"
    using log_ok_append_log[OF ok assms(2-4)] assms(1) by (simp add: plain_def set_log_def)
  show "dlog (set_log (entry_batch es) d) = dlog d @ es"
    by (rule dlog_eqI[OF p])
      (auto simp: disk_last_append_log[OF ok assms(2)] disk_entry_append_log[OF ok assms(2)] nth_append disk_entry_dlog[OF assms(1)])
qed

lemma plain_cut:
  assumes "plain d" "0 < i"
  shows "plain (cut_log i d)" "dlog (cut_log i d) = take (i - 1) (dlog d)"
proof -
  note ok = plainD(1)[OF assms(1)]
  have last: "disk_last (cut_log i d) = min (i - 1) (disk_last d)"
    using disk_last_cut[OF ok assms(2)] plainD(2)[OF assms(1)] by auto
  show p: "plain (cut_log i d)"
    using log_ok_cut[OF ok assms(2)] assms(1) by (auto simp: plain_def cut_log_def set_log_def)
  show "dlog (cut_log i d) = take (i - 1) (dlog d)"
    by (rule dlog_eqI[OF p]) (use assms(2) in \<open>auto simp: last disk_entry_cut[OF ok] disk_entry_dlog[OF assms(1)]\<close>)
qed

lemma dlog_update [simp]:
  "dlog (d\<lparr>meta_last_committed := c\<rparr>) = dlog d" "plain (d\<lparr>meta_last_committed := c\<rparr>) = plain d"
  "dlog (set_hard_state t v d) = dlog d" "plain (set_hard_state t v d) = plain d"
  by (simp_all add: dlog_def plain_def) (simp_all add: set_hard_state_def)

section \<open>Reads\<close>

lemma get_term_at_Inr: "get_term_at i d = Inr t \<Longrightarrow> t = disk_term_at d i"
  by (auto simp: get_term_at_def disk_term_at_def node_read_Inr res_bind_Inr_iff map_ok_Inr_iff sled_last_included_term_def
      split: if_splits option.splits dest!: sled_last_included_index_Inr sled_read_entry_Inr read_meta_Inr)

lemma sled_last_log_term_Inr: "sled_last_log_term d = Inr t \<Longrightarrow> t = disk_last_term d"
  by (auto simp: sled_last_log_term_def disk_last_term_def res_bind_Inr_iff sled_last_included_term_def map_ok_Inr_iff Let_def
      split: if_splits option.splits dest!: read_meta_Inr)

lemma is_log_up_to_date_Inr: "is_log_up_to_date t i d = Inr b \<Longrightarrow> b = up_to_date t i d"
  by (auto simp: is_log_up_to_date_def up_to_date_def res_bind_Inr_iff node_read_Inr
      split: if_splits dest!: sled_last_log_term_Inr sled_last_log_index_Inr)

lemma verify_log_consistency_Inr: "verify_log_consistency i t d = Inr b \<Longrightarrow> b = log_matches i t d"
  by (auto simp: verify_log_consistency_def log_matches_def res_bind_Inr_iff node_read_Inr
      split: if_splits dest!: get_term_at_Inr sled_last_log_index_Inr)

lemma read_range_loop_Inr: "read_range_loop fl kes = Inr es \<Longrightarrow> es = map snd kes"
  by (induction fl kes arbitrary: es rule: read_range_loop.induct) (auto simp: map_ok_Inr_iff split: if_splits)

lemma sled_read_entries_Inr:
  assumes "plain d" "sled_read_entries a (disk_last d) d = Inr es"
  shows "es = drop (a - 1) (dlog d)"
proof (cases "a > disk_last d")
  case True
  with assms(2) show ?thesis by (auto simp: sled_read_entries_def split: if_splits)
next
  case False
  with assms(2) have a: "0 < a" and "es = map snd (tree_range a (disk_last d) (log_tree d))"
    by (auto simp: sled_read_entries_def split: if_splits dest: read_range_loop_Inr)
  then have es: "es = map (\<lambda>k. the (disk_entry d k)) (incl_range a (disk_last d))"
    using tree_range_log[OF plainD(1)[OF assms(1)], of a "disk_last d"] plainD(2)[OF assms(1)] by (simp add: comp_def)
  show ?thesis
    by (rule nth_equalityI) (use a False in \<open>auto simp: es incl_range_def disk_entry_dlog[OF assms(1)] Suc_le_eq simp del: upt_Suc\<close>)
qed

section \<open>Reconciliation\<close>

text \<open>A request built from the log \<open>sg\<close>: the entries behind \<open>prev\<close> and the term at \<open>prev\<close>.\<close>

definition segment_of :: "log_entry list \<Rightarrow> log_index \<Rightarrow> raft_term \<Rightarrow> log_entry list \<Rightarrow> bool" where
  "segment_of sg prev pt es \<longleftrightarrow>
     es = drop prev sg \<and> prev \<le> length sg \<and> (0 < prev \<longrightarrow> pt = e_term (sg ! (prev - 1)))
     \<and> consecutive (Suc 0) sg \<and> (\<forall>e \<in> set sg. 0 < e_term e) \<and> is_u64 (length sg)"

lemma segment_ofD:
  assumes "segment_of sg prev pt es"
  shows "es = drop prev sg" "prev \<le> length sg" "0 < prev \<Longrightarrow> pt = e_term (sg ! (prev - 1))" "consecutive (Suc prev) es"
    "e \<in> set sg \<Longrightarrow> 0 < e_term e" "is_u64 (length sg)" "prev + length es = length sg" "k \<le> length sg \<Longrightarrow> consecutive (Suc k) (drop k sg)"
  using assms consecutive_drop[of "Suc 0" sg prev] consecutive_drop[of "Suc 0" sg k] by (auto simp: segment_of_def)

definition covers :: "log_index \<Rightarrow> log_entry list \<Rightarrow> log_entry list \<Rightarrow> bool" where
  "covers prev sg l \<longleftrightarrow> length sg \<le> length l \<and> (0 < prev \<longrightarrow> same_term l sg (prev - 1))
     \<and> (\<forall>p. prev \<le> p \<longrightarrow> p < length sg \<longrightarrow> same_term l sg p)"

lemma conflict_scan_cases:
  assumes "conflict_scan es d = (r, d')"
  shows "d' = d \<or> d' = after_conflicts es d" "r = Inr u \<Longrightarrow> d' = after_conflicts es d"
proof -
  have "(d' = d \<or> d' = after_conflicts es d) \<and> (\<forall>u. r = Inr u \<longrightarrow> d' = after_conflicts es d)"
    using assms
  proof (induction es)
    case (Cons e es)
    show ?case
    proof (cases "get_term_at (e_index e) d")
      case (Inr t)
      then have t: "t = disk_term_at d (e_index e)" by (rule get_term_at_Inr)
      show ?thesis
      proof (cases "conflicts d e")
        case True
        then have "after_conflicts (e # es) d = cut_log (e_index e) d" by (simp add: after_conflicts_def)
        moreover obtain r' where "sled_truncate_log (e_index e) d = (r', d')" "r = map_err node_error_of_storage r'"
          using Cons.prems Inr t True by (auto simp: conflicts_def elim: node_writeE)
        ultimately show ?thesis using truncate_log_cases[of "e_index e" d r' d'] by (auto simp: cut_log_def)
      next
        case False
        then have "after_conflicts (e # es) d = after_conflicts es d" by (simp add: after_conflicts_def)
        with Cons Inr t False show ?thesis by (auto simp: conflicts_def)
      qed
    qed (use Cons.prems in auto)
  qed (simp add: after_conflicts_def)
  then show "d' = d \<or> d' = after_conflicts es d" "r = Inr u \<Longrightarrow> d' = after_conflicts es d" by auto
qed

lemma conflicts_list:
  assumes "plain d" "segment_of sg prev pt es" "i < length es"
  shows "conflicts d (es ! i) \<longleftrightarrow> prev + i < disk_last d \<and> \<not> same_term (dlog d) sg (prev + i)"
proof -
  have "e_index (es ! i) = Suc (prev + i)" using consecutive_nth[OF segment_ofD(4)[OF assms(2)] assms(3)] by simp
  moreover have "es ! i = sg ! (prev + i)" using segment_ofD(1,7)[OF assms(2)] assms(3) by simp
  ultimately show ?thesis
    using dlog_entry(2)[OF assms(1), of "prev + i"] by (auto simp: conflicts_def term_at_dlog[OF assms(1)] same_term_def)
qed

lemma matches_list:
  assumes "plain d" "segment_of sg prev pt es" "log_matches prev pt d"
  shows "prev \<le> disk_last d" "0 < prev \<Longrightarrow> same_term (dlog d) sg (prev - 1)"
  using assms(3) segment_ofD(3)[OF assms(2)] by (auto simp: log_matches_def term_at_dlog[OF assms(1)] same_term_def split: if_splits)

lemma after_conflicts_list:
  assumes "plain d" "segment_of sg prev pt es" "log_matches prev pt d"
  shows "after_conflicts es d = d \<and> (\<forall>p. prev \<le> p \<longrightarrow> p < disk_last d \<longrightarrow> p < length sg \<longrightarrow> same_term (dlog d) sg p)
    \<or> (\<exists>q. merge_point prev (dlog d) sg q \<and> q < length sg \<and> plain (after_conflicts es d) \<and> dlog (after_conflicts es d) = take q (dlog d))"
proof (cases "find (conflicts d) es")
  case None
  have "same_term (dlog d) sg p" if p: "prev \<le> p" "p < disk_last d" "p < length sg" for p
  proof -
    have i: "p - prev < length es" using p segment_ofD(7)[OF assms(2)] by linarith
    from None i have "\<not> conflicts d (es ! (p - prev))" by (auto simp: find_None_iff)
    with conflicts_list[OF assms(1,2) i] p show ?thesis by simp
  qed
  with None show ?thesis by (simp add: after_conflicts_def)
next
  case (Some e)
  then obtain i where i: "i < length es" "conflicts d (es ! i)" "e = es ! i" "\<And>k. k < i \<Longrightarrow> \<not> conflicts d (es ! k)"
    by (auto simp: find_Some_iff)
  let ?q = "prev + i"
  have len: "prev + length es = length sg" using segment_ofD(7)[OF assms(2)] .
  have q: "?q < disk_last d" "\<not> same_term (dlog d) sg ?q" using conflicts_list[OF assms(1,2) i(1)] i(2) by auto
  have "same_term (dlog d) sg p" if p: "prev \<le> p" "p < ?q" for p
    using i(4)[of "p - prev"] conflicts_list[OF assms(1,2), of "p - prev"] i(1) p q(1) by auto
  moreover have e: "e_index e = Suc ?q" using consecutive_nth[OF segment_ofD(4)[OF assms(2)] i(1)] i(3) by simp
  ultimately have "merge_point prev (dlog d) sg ?q"
    using q i(1) len matches_list(2)[OF assms] by (simp add: merge_point_def)
  moreover have "after_conflicts es d = cut_log (Suc ?q) d" using Some e by (simp add: after_conflicts_def)
  ultimately show ?thesis using plain_cut[OF assms(1), of "Suc ?q"] i(1) len by auto
qed

lemma collect_new_cases:
  assumes "consecutive n es" "n \<le> m" "collect_new m es = Inr y"
  shows "y = Some (drop (m - n) es)"
  using assms
proof (induction es arbitrary: n m y)
  case (Cons e es)
  then have e: "e_index e = n" and c: "consecutive (Suc n) es" by (simp_all add: consecutive_Cons)
  show ?case
  proof (cases "m = n")
    case True
    with Cons.prems(3) e obtain y' where "collect_new (Suc m) es = Inr y'" "y = map_option ((#) e) y'"
      by (auto simp: res_bind_Inr_iff map_ok_Inr_iff)
    with Cons.IH[OF c, of "Suc m" y'] True show ?thesis by simp
  next
    case False
    with Cons.prems have "Suc n \<le> m" by simp
    with False e Cons.IH[OF c this, of y] Cons.prems(3) show ?thesis by (simp add: drop_Cons' Suc_diff_Suc)
  qed
qed simp

text \<open>What a reconciliation may do to log and commit index, at whichever call it fails.\<close>

definition merged :: "log_index \<Rightarrow> log_entry list \<Rightarrow> log_store \<Rightarrow> log_store \<Rightarrow> bool" where
  "merged prev sg d d' \<longleftrightarrow> plain d' \<and> (dlog d' = dlog d \<or>
     (\<exists>q. merge_point prev (dlog d) sg q \<and> dlog d' \<in> {take q (dlog d), take q (dlog d) @ drop q sg}))"

definition commit_moved :: "log_index \<Rightarrow> log_entry list \<Rightarrow> log_index \<Rightarrow> 'r raft_node \<times> log_store \<Rightarrow> 'r raft_node \<times> log_store \<Rightarrow> bool" where
  "commit_moved prev sg lc w w' \<longleftrightarrow>
     (last_committed (fst w') = last_committed (fst w) \<and> disk_committed (snd w') = disk_committed (snd w)
      \<or> covers prev sg (dlog (snd w')) \<and> (last_committed (fst w') = last_committed (fst w) \<or> last_committed (fst w') \<le> lc)
        \<and> (disk_committed (snd w') = disk_committed (snd w) \<or> disk_committed (snd w') \<le> lc))"

lemma commit_target_cases:
  assumes "commit_target lc es w = (r, w')"
  shows "w' = w" "r = Inr (Some c) \<Longrightarrow> c \<le> lc"
  using assms by (cases w; auto simp: commit_target_def split: if_splits sum.splits elim!: st_bind_cases)+

lemma persist_reconciled_cases:
  fixes d :: log_store
  assumes "persist_reconciled es ca (n, d) = (r, n', d')"
  defines "A \<equiv> set_log (entry_batch es) d"
  shows "n' = n \<and> d' = d \<and> (\<forall>u. r \<noteq> Inr u) \<or> n' = n \<and> d' = A \<and> (ca \<noteq> None \<longrightarrow> (\<forall>u. r \<noteq> Inr u))
    \<or> (\<exists>c. ca = Some c \<and> d' = A\<lparr>meta_last_committed := Some c\<rparr> \<and> (n' = n \<or> n' = n\<lparr>last_committed := c\<rparr>))"
proof (cases "es = []"; cases ca)
  assume "es = []" "ca = None"
  then show ?thesis using assms by (simp add: persist_reconciled_def)
next
  fix c assume c: "es = []" "ca = Some c"
  then show ?thesis
    using assms
    by (auto simp: persist_reconciled_def on_disk_apply elim!: st_bind_cases dest!: save_last_committed_cases
        split: prod.splits) (auto simp: node_write_def split: prod.splits dest!: save_last_committed_cases)
next
  assume c: "es \<noteq> []" "ca = None"
  then show ?thesis
    using assms
    by (auto simp: persist_reconciled_def on_disk_apply node_write_def split: prod.splits dest!: append_entries_cases)
next
  fix c assume c: "es \<noteq> []" "ca = Some c"
  then show ?thesis
    using assms
    by (auto simp: persist_reconciled_def on_disk_apply node_write_def split: prod.splits elim!: st_bind_cases
        dest!: append_and_commit_cases)
qed

lemma after_merge:
  fixes d :: log_store
  assumes "plain d" "segment_of sg prev pt es" "log_matches prev pt d"
  defines "d1 \<equiv> after_conflicts es d"
  defines "A \<equiv> set_log (entry_batch (drop (Suc (disk_last d1) - Suc prev) es)) d1"
  shows "prev \<le> disk_last d1" "merged prev sg d d1" "merged prev sg d A" "covers prev sg (dlog A)"
proof -
  note seg = segment_ofD[OF assms(2)] and m = matches_list[OF assms(1-3)]
  from after_conflicts_list[OF assms(1-3)] consider
      (none) "d1 = d" "\<And>p. prev \<le> p \<Longrightarrow> p < disk_last d \<Longrightarrow> p < length sg \<Longrightarrow> same_term (dlog d) sg p"
    | (cut) q where "merge_point prev (dlog d) sg q" "q < length sg" "plain d1" "dlog d1 = take q (dlog d)"
    unfolding d1_def by blast
  then have facts: "plain d1 \<and> prev \<le> disk_last d1 \<and> merged prev sg d d1 \<and> take (disk_last d1) (dlog d) = dlog d1
    \<and> (disk_last d1 \<le> length sg \<longrightarrow> merge_point prev (dlog d) sg (disk_last d1))
    \<and> (\<forall>p. prev \<le> p \<longrightarrow> p < disk_last d1 \<longrightarrow> p < length sg \<longrightarrow> same_term (dlog d1) sg p)"
  proof cases
    case none
    have full: "take (disk_last d) (dlog d) = dlog d" by (metis length_dlog order_refl take_all)
    show ?thesis unfolding none(1) using none(2) assms(1) m full by (auto simp: merged_def merge_point_def)
  next
    case (cut q)
    have last: "disk_last d1 = q" using cut(1,4) length_dlog[of d1] by (auto simp: merge_point_def)
    have "merged prev sg d d1" using cut by (auto simp: merged_def)
    moreover have "\<forall>p. prev \<le> p \<longrightarrow> p < q \<longrightarrow> same_term (take q (dlog d)) sg p"
      using cut(1) by (auto simp: merge_point_def same_term_def)
    ultimately show ?thesis using cut last by (auto simp: merge_point_def)
  qed
  then show p: "prev \<le> disk_last d1" "merged prev sg d d1" by blast+
  have pl: "plain d1" using facts by blast
  have f: "drop (Suc (disk_last d1) - Suc prev) es = drop (disk_last d1) sg" using seg(1) p(1) by simp
  show "merged prev sg d A" "covers prev sg (dlog A)"
  proof -
    have "merged prev sg d A \<and> covers prev sg (dlog A)"
    proof (cases "disk_last d1 \<le> length sg")
      case True
      have "plain A \<and> dlog A = dlog d1 @ drop (disk_last d1) sg"
        unfolding A_def f
        by (intro conjI plain_append pl seg(8)[OF True]) (use True seg(5,6) in \<open>auto dest: in_set_dropD\<close>)
      moreover have "same_term (dlog d1 @ drop (disk_last d1) sg) sg p" if "prev \<le> p" "p < length sg" for p
        using facts that True by (auto simp: same_term_def nth_append)
      moreover have "same_term (dlog d1 @ drop (disk_last d1) sg) sg (prev - 1)" if "0 < prev"
      proof -
        have "prev - 1 < disk_last d1" using p(1) that by linarith
        moreover have "dlog d1 ! (prev - 1) = dlog d ! (prev - 1)"
          using facts \<open>prev - 1 < disk_last d1\<close> by (metis nth_take)
        ultimately show ?thesis using m(2)[OF that] by (simp add: same_term_def nth_append)
      qed
      ultimately show ?thesis using facts True by (auto simp: merged_def covers_def)
    next
      case False
      then have "drop (disk_last d1) sg = []" by simp
      then have A: "A = d1" unfolding A_def f by (simp add: entry_batch_def set_log_def tree_apply_batch_def)
      have "same_term (dlog d1) sg (prev - 1)" if "0 < prev"
      proof -
        have "prev - 1 < disk_last d1" using p(1) that by linarith
        then have "dlog d1 ! (prev - 1) = dlog d ! (prev - 1)" using facts by (metis nth_take)
        with m(2)[OF that] show ?thesis by (simp add: same_term_def)
      qed
      with facts False p(2) show ?thesis unfolding A by (auto simp: covers_def)
    qed
    then show "merged prev sg d A" "covers prev sg (dlog A)" by blast+
  qed
qed

lemma merged_refl: "plain d \<Longrightarrow> merged prev sg d d"
  by (simp add: merged_def)

lemma merged_commit [simp]: "merged prev sg d (d'\<lparr>meta_last_committed := c\<rparr>) = merged prev sg d d'"
  by (simp add: merged_def)

lemma after_conflicts_committed [simp]: "disk_committed (after_conflicts es d) = disk_committed d"
  by (simp add: disk_committed_def)

text \<open>The end of a reconciliation: the commit target, the writes and the report.\<close>

definition persist_tail :: "log_entry list \<Rightarrow> log_index \<Rightarrow> (follower, reconciliation_result) node_proc" where
  "persist_tail es lc = st_bind (commit_target lc es) (\<lambda>ca. st_bind (persist_reconciled es ca)
     (\<lambda>_. st_bind (st_read (\<lambda>(n, d). node_read sled_last_log_index d)) (\<lambda>l. st_return (reconciled True l))))"

lemma persist_tail_cases:
  fixes d :: log_store
  assumes "persist_tail es lc (n, d1) = (r, n', d')" and m: "merged prev sg d d1"
  defines "A \<equiv> set_log (entry_batch es) d1"
  assumes "merged prev sg d A" "covers prev sg (dlog A)"
  shows "merged prev sg d d' \<and> commit_moved prev sg lc (n, d1) (n', d')
    \<and> (\<forall>res. r = Inr res \<longrightarrow> rec_success res \<longrightarrow> covers prev sg (dlog d'))"
proof -
  have Ac: "disk_committed A = disk_committed d1" by (simp add: A_def)
  from assms(1)[unfolded persist_tail_def] show ?thesis
  proof (cases rule: st_bind_cases)
    case (error e)
    with commit_target_cases(1)[OF error(1)] m show ?thesis by (auto simp: commit_moved_def)
  next
    case (ok ca w1)
    have ca: "w1 = (n, d1)" "\<And>c. ca = Some c \<Longrightarrow> c \<le> lc" using commit_target_cases[OF ok(1)] by auto
    from ok(2)[unfolded ca(1)] obtain r1 n2 d2 where p: "persist_reconciled es ca (n, d1) = (r1, n2, d2)"
      and same: "n' = n2" "d' = d2" and r: "\<And>res. r = Inr res \<Longrightarrow> \<exists>u. r1 = Inr u"
      by (auto elim!: st_bind_cases split: sum.splits prod.splits)
    from persist_reconciled_cases[OF p] show ?thesis
      unfolding same using m assms(4,5) Ac ca(2) r by (auto simp: commit_moved_def A_def disk_committed_def)
  qed
qed

lemma node_last_Inr: "node_read sled_last_log_index d = Inr l \<Longrightarrow> l = disk_last d"
  by (auto simp: node_read_Inr dest: sled_last_log_index_Inr)

lemma reconcile_cases:
  assumes pl: "plain d" and seg: "segment_of sg prev pt es" and rc: "reconcile_log prev pt es lc (n, d) = (r, n', d')"
  shows "merged prev sg d d' \<and> commit_moved prev sg lc (n, d) (n', d')
    \<and> (\<forall>res. r = Inr res \<longrightarrow> rec_success res \<longrightarrow> covers prev sg (dlog d'))"
proof -
  let ?read = "st_read (\<lambda>(n, d). node_read sled_last_log_index d)"
  let ?report = "\<lambda>ok. st_bind ?read (\<lambda>l. st_return (reconciled ok l))"
  have report: "w' = w \<and> (\<forall>res. r = Inr res \<longrightarrow> rec_success res = ok)" if "?report ok w = (r, w')" for ok w r w'
    using that by (auto simp: reconciled_def split: sum.splits)
  have same: "merged prev sg d d \<and> commit_moved prev sg lc (n, d) (n, d)"
    using merged_refl[OF pl] by (simp add: commit_moved_def)
  from rc[unfolded reconcile_log_def Let_def on_disk_read] show ?thesis
  proof (cases rule: st_bind_cases)
    case (error e)
    with same show ?thesis by auto
  next
    case (ok consistent w1)
    then have w1: "w1 = (n, d)" and cons: "consistent = log_matches prev pt d" by (auto dest: verify_log_consistency_Inr)
    show ?thesis
    proof (cases consistent)
      case False
      with ok(2) w1 report[of False "(n, d)" r "(n', d')"] same show ?thesis by auto
    next
      case True
      note m = after_merge[OF pl seg True[unfolded cons]]
      let ?d1 = "after_conflicts es d"
      have mid: "merged prev sg d ?d1 \<and> commit_moved prev sg lc (n, d) (n, ?d1)" using m(2) by (simp add: commit_moved_def)
      from ok(2)[unfolded w1] True
      have "st_bind (on_disk (conflict_scan es)) (\<lambda>_. st_bind ?read
        (\<lambda>l. st_bind (st_read (\<lambda>_. map_err Arithmetic (log_index_add l 1)))
        (\<lambda>m. st_bind (st_read (\<lambda>_. collect_new m es))
        (\<lambda>y. case y of None \<Rightarrow> ?report False | Some f \<Rightarrow> persist_tail f lc)))) (n, d) = (r, n', d')"
        unfolding persist_tail_def by simp
      then show ?thesis
      proof (cases rule: st_bind_cases)
        case (error e)
        then have "conflict_scan es d = (Inl e, d')" "n' = n" by (auto simp: on_disk_def split: prod.splits)
        with error(2) conflict_scan_cases(1)[of es d "Inl e" d'] same mid show ?thesis by auto
      next
        case (ok u w2)
        have w2: "w2 = (n, ?d1)" using ok(1) conflict_scan_cases(2)[of es d "Inr u" _ u]
          by (auto simp: on_disk_def split: prod.splits)
        from ok(2)[unfolded w2] show ?thesis
        proof (cases rule: st_bind_cases)
          case (error e)
          then show ?thesis using mid by auto
        next
          case (ok l w3)
          then have w3: "w3 = (n, ?d1)" and l: "l = disk_last ?d1" by (auto dest!: node_last_Inr split: sum.splits)
          from ok(2)[unfolded w3] show ?thesis
          proof (cases rule: st_bind_cases)
            case (ok k w4)
            then have w4: "w4 = (n, ?d1)" and k: "k = Suc (disk_last ?d1)"
              using l by (auto simp: log_index_add_def checked_add_u64_def map_err_def split: sum.splits if_splits)
            from ok(2)[unfolded w4] show ?thesis
            proof (cases rule: st_bind_cases)
              case (ok y w5)
              then have "w5 = (n, ?d1)" and y: "collect_new k es = Inr y" by (auto split: sum.splits)
              moreover have "y = Some (drop (k - Suc prev) es)"
                using collect_new_cases[OF segment_ofD(4)[OF seg] _ y] m(1) k by simp
              ultimately have "persist_tail (drop (Suc (disk_last ?d1) - Suc prev) es) lc (n, ?d1) = (r, n', d')"
                using ok(2) k by simp
              from persist_tail_cases[OF this m(2-4)] show ?thesis by (simp add: commit_moved_def)
            qed (use mid in auto)
          qed (use mid in auto)
        qed
      qed
    qed
  qed
qed

end
