(* ===== verification/Engine.thy ===== *)
theory Engine
  imports Reconciliation
begin

text \<open>
  \<open>crates/raft-engine/src/engine.rs\<close>: the logical node, its role changes and its RPC handlers.

  A handler is a procedure on the logical node and its store. A Rust panic is the error branch:
  \<open>Halt e\<close> for \<open>apply_fatal\<close> and \<open>apply_fatal_static\<close>, \<open>HaltPoisoned\<close> for the delegation macros on a poisoned
  node. \<open>transition\<close> replaces the role by \<open>Poisoned\<close> before it runs its closure, so a panic in the
  closure leaves the node poisoned, as the definitions of the role changes spell out.
\<close>

section \<open>State\<close>

definition PRE_VOTE_CAMPAIGN_TICKS :: "64 word" where
  "PRE_VOTE_CAMPAIGN_TICKS = 8"

datatype role_state =
    Follower "follower raft_node"
  | PreCandidate "pre_candidate raft_node"
  | Candidate "candidate raft_node"
  | Leader "leader raft_node"
  | Poisoned

datatype node_role = RFollower | RPreCandidate | RCandidate | RLeader | RPoisoned

record logical_node =
  role :: role_state
  current_tick :: tick
  thresholds :: tick_thresholds
  rng :: rng_state

datatype halt = Halt node_error | HaltPoisoned

type_synonym world = "logical_node \<times> log_store"
type_synonym 'a handler = "(world, halt, 'a) proc"

definition set_role :: "role_state \<Rightarrow> world \<Rightarrow> world" where
  "set_role r = (\<lambda>(ln, d). (ln\<lparr>role := r\<rparr>, d))"

definition apply_fatal :: "node_error \<Rightarrow> 'a handler" where
  "apply_fatal e w = (Inl (Halt e), set_role Poisoned w)"

definition poison :: "unit handler" where
  "poison = st_modify (set_role Poisoned)"

definition is_poisoned :: "logical_node \<Rightarrow> bool" where
  "is_poisoned ln \<longleftrightarrow> (case role ln of Poisoned \<Rightarrow> True | _ \<Rightarrow> False)"

fun role_identity :: "role_state \<Rightarrow> node_identity option" where
  "role_identity (Follower n) = Some (identity n)"
| "role_identity (PreCandidate n) = Some (identity n)"
| "role_identity (Candidate n) = Some (identity n)"
| "role_identity (Leader n) = Some (identity n)"
| "role_identity Poisoned = None"

definition ln_node_role :: "logical_node \<Rightarrow> node_role" where
  "ln_node_role ln =
     (case role ln of
        Follower _ \<Rightarrow> RFollower | PreCandidate _ \<Rightarrow> RPreCandidate | Candidate _ \<Rightarrow> RCandidate
      | Leader _ \<Rightarrow> RLeader | Poisoned \<Rightarrow> RPoisoned)"

section \<open>Delegation\<close>

definition delegate_read :: "'a reader \<Rightarrow> 'a handler" where
  "delegate_read f w =
     (if is_poisoned (fst w) then (Inl HaltPoisoned, w)
      else case f (snd w) of Inl e \<Rightarrow> apply_fatal e w | Inr a \<Rightarrow> (Inr a, w))"

definition run_node :: "('r raft_node \<Rightarrow> role_state) \<Rightarrow> ('r, 'a) node_proc \<Rightarrow> 'r raft_node \<Rightarrow> (world, node_error, 'a) proc" where
  "run_node C p n = (\<lambda>(ln, d). let (r, n', d') = p (n, d) in (r, ln\<lparr>role := C n'\<rparr>, d'))"

definition delegate_mut ::
  "(follower, 'a) node_proc \<Rightarrow> (pre_candidate, 'a) node_proc \<Rightarrow> (candidate, 'a) node_proc \<Rightarrow> (leader, 'a) node_proc
    \<Rightarrow> (world, halt, node_error + 'a) proc" where
  "delegate_mut pf pp pc pl w =
     (case role (fst w) of
        Follower n \<Rightarrow> (let (r, w') = run_node Follower pf n w in (Inr r, w'))
      | PreCandidate n \<Rightarrow> (let (r, w') = run_node PreCandidate pp n w in (Inr r, w'))
      | Candidate n \<Rightarrow> (let (r, w') = run_node Candidate pc n w in (Inr r, w'))
      | Leader n \<Rightarrow> (let (r, w') = run_node Leader pl n w in (Inr r, w'))
      | Poisoned \<Rightarrow> (Inl HaltPoisoned, w))"

definition or_fatal :: "node_error + 'a \<Rightarrow> 'a handler" where
  "or_fatal r = (case r of Inl e \<Rightarrow> apply_fatal e | Inr a \<Rightarrow> st_return a)"

definition ln_current_term :: "raft_term handler" where
  "ln_current_term = delegate_read (node_read sled_current_term)"

definition ln_voted_for :: "node_id option handler" where
  "ln_voted_for = delegate_read (node_read sled_voted_for)"

definition ln_last_log_index :: "log_index handler" where
  "ln_last_log_index = delegate_read (node_read sled_last_log_index)"

definition ln_last_log_term :: "raft_term handler" where
  "ln_last_log_term = delegate_read (node_read sled_last_log_term)"

definition ln_last_included_index :: "log_index handler" where
  "ln_last_included_index = delegate_read (node_read sled_last_included_index)"

definition ln_last_included_term :: "raft_term handler" where
  "ln_last_included_term = delegate_read (node_read sled_last_included_term)"

definition ln_get_term_at :: "log_index \<Rightarrow> raft_term handler" where
  "ln_get_term_at i = delegate_read (get_term_at i)"

definition ln_read_entries :: "log_index \<Rightarrow> log_index \<Rightarrow> log_entry list handler" where
  "ln_read_entries a b = delegate_read (node_read (sled_read_entries a b))"

definition ln_last_committed :: "log_index handler" where
  "ln_last_committed w =
     (case role (fst w) of
        Follower n \<Rightarrow> (Inr (last_committed n), w) | PreCandidate n \<Rightarrow> (Inr (last_committed n), w)
      | Candidate n \<Rightarrow> (Inr (last_committed n), w) | Leader n \<Rightarrow> (Inr (last_committed n), w)
      | Poisoned \<Rightarrow> (Inl HaltPoisoned, w))"

definition ln_last_applied :: "log_index handler" where
  "ln_last_applied w =
     (case role (fst w) of
        Follower n \<Rightarrow> (Inr (last_applied n), w) | PreCandidate n \<Rightarrow> (Inr (last_applied n), w)
      | Candidate n \<Rightarrow> (Inr (last_applied n), w) | Leader n \<Rightarrow> (Inr (last_applied n), w)
      | Poisoned \<Rightarrow> (Inl HaltPoisoned, w))"

definition ln_advance_last_committed :: "log_index \<Rightarrow> unit handler" where
  "ln_advance_last_committed i =
     st_bind (delegate_mut (advance_last_committed i) (advance_last_committed i) (advance_last_committed i)
                (advance_last_committed i)) or_fatal"

definition ln_update_commit_index_only :: "log_index \<Rightarrow> unit handler" where
  "ln_update_commit_index_only i =
     st_bind (delegate_mut (update_commit_index_only i) (update_commit_index_only i) (update_commit_index_only i)
                (update_commit_index_only i)) or_fatal"

definition ln_advance_horizon_after_snapshot :: "log_index \<Rightarrow> (node_error + unit) handler" where
  "ln_advance_horizon_after_snapshot i =
     delegate_mut (advance_horizon_after_snapshot i) (advance_horizon_after_snapshot i)
       (advance_horizon_after_snapshot i) (advance_horizon_after_snapshot i)"

definition ln_save_snapshot_metadata :: "log_index \<Rightarrow> raft_term \<Rightarrow> unit handler" where
  "ln_save_snapshot_metadata i t =
     (let p = node_write (sled_save_snapshot_metadata i t)
      in st_bind (delegate_mut (on_disk p) (on_disk p) (on_disk p) (on_disk p)) or_fatal)"

section \<open>Construction\<close>

definition logical_node_try_new ::
  "node_identity \<Rightarrow> node_error + log_index \<Rightarrow> tick_thresholds \<Rightarrow> rng_state \<Rightarrow> logical_node reader" where
  "logical_node_try_new ident fsm_last_applied_index th r d =
     (let (timeout, r') = generate_election_timeout th r
      in res_bind fsm_last_applied_index
           (\<lambda>fsm_applied. res_bind (node_read sled_last_committed d)
           (\<lambda>lc. if fsm_applied > lc then
                Inl (Protocol ''Causal invariant violation: FSM applied index is ahead of LogStore committed index'')
              else res_bind (try_new_with_applied ident fsm_applied 0 timeout d)
                     (\<lambda>node. Inr \<lparr>role = Follower node, current_tick = 0, thresholds = th, rng = r'\<rparr>))))"

section \<open>Role changes\<close>

definition install_role :: "('r raft_node \<Rightarrow> role_state) \<Rightarrow> logical_node \<Rightarrow> (node_error + 'r raft_node) \<times> log_store \<Rightarrow> (halt + unit) \<times> world" where
  "install_role C ln = (\<lambda>(r, d').
     case r of Inl e \<Rightarrow> (Inl (Halt e), ln\<lparr>role := Poisoned\<rparr>, d')
             | Inr n \<Rightarrow> (Inr (), ln\<lparr>role := C n\<rparr>, d'))"

definition into_follower :: "raft_term \<Rightarrow> node_id option \<Rightarrow> unit handler" where
  "into_follower t leader = (\<lambda>(ln, d).
     let (timeout, r') = generate_election_timeout (thresholds ln) (rng ln);
         tk = current_tick ln;
         ln1 = ln\<lparr>rng := r'\<rparr>
     in case role ln of
          Follower n \<Rightarrow> install_role Follower ln1 (try_into_follower n t leader tk timeout d)
        | PreCandidate n \<Rightarrow> install_role Follower ln1 (try_into_follower n t leader tk timeout d)
        | Candidate n \<Rightarrow> install_role Follower ln1 (try_into_follower n t leader tk timeout d)
        | Leader n \<Rightarrow> install_role Follower ln1 (try_into_follower n t leader tk timeout d)
        | Poisoned \<Rightarrow> (Inl HaltPoisoned, ln1, d))"

definition into_candidate :: "unit handler" where
  "into_candidate = (\<lambda>(ln, d).
     let (timeout, r') = generate_election_timeout (thresholds ln) (rng ln);
         tk = current_tick ln;
         ln1 = ln\<lparr>rng := r'\<rparr>
     in case role ln of
          Follower n \<Rightarrow> install_role Candidate ln1 (follower_try_into_candidate n tk timeout d)
        | PreCandidate n \<Rightarrow> install_role Candidate ln1 (pre_candidate_try_into_candidate n tk timeout d)
        | Candidate n \<Rightarrow> install_role Candidate ln1 (try_into_restarted_candidate n tk timeout d)
        | other \<Rightarrow> (Inr (), ln1, d))"

definition into_pre_candidate :: "unit handler" where
  "into_pre_candidate = (\<lambda>(ln, d).
     case role ln of
       Follower n \<Rightarrow>
         (Inr (), ln\<lparr>role := PreCandidate (try_into_pre_candidate n (current_tick ln) PRE_VOTE_CAMPAIGN_TICKS)\<rparr>, d)
     | other \<Rightarrow> (Inr (), ln, d))"

definition into_leader :: "node_id list \<Rightarrow> unit handler" where
  "into_leader peer_ids = (\<lambda>(ln, d).
     case role ln of
       Candidate n \<Rightarrow> install_role Leader ln (try_into_leader n peer_ids (current_tick ln) d, d)
     | other \<Rightarrow> (Inr (), ln, d))"

section \<open>Clock\<close>

definition ln_tick :: "tick_action handler" where
  "ln_tick = (\<lambda>(ln, d).
     let ln1 = ln\<lparr>current_tick := tick_increment (current_tick ln)\<rparr>;
         now = current_tick ln1
     in (Inr (case role ln1 of
                Follower n \<Rightarrow> follower_evaluate_tick (state n) now
              | PreCandidate n \<Rightarrow> pre_candidate_evaluate_tick (state n) now
              | Candidate n \<Rightarrow> candidate_evaluate_tick (state n) now
              | Leader n \<Rightarrow> leader_evaluate_tick (state n) now (heartbeat_interval (thresholds ln1))
              | Poisoned \<Rightarrow> Stop), ln1, d))"

definition reset_heartbeat :: "unit handler" where
  "reset_heartbeat = st_modify (\<lambda>(ln, d).
     case role ln of
       Follower n \<Rightarrow> (ln\<lparr>role := Follower (n\<lparr>state := (state n)\<lparr>f_last_heartbeat := current_tick ln\<rparr>\<rparr>)\<rparr>, d)
     | Leader n \<Rightarrow> (ln\<lparr>role := Leader (n\<lparr>state := (state n)\<lparr>l_last_heartbeat := current_tick ln\<rparr>\<rparr>)\<rparr>, d)
     | _ \<Rightarrow> (ln, d))"

section \<open>RPC handlers\<close>

record append_entries_result =
  aes_term :: raft_term
  aes_success :: bool
  conflict_index :: log_index

definition stale_term :: "raft_term \<Rightarrow> append_entries_result" where
  "stale_term t = \<lparr>aes_term = t, aes_success = False, conflict_index = 0\<rparr>"

definition inconsistent :: "raft_term \<Rightarrow> log_index \<Rightarrow> append_entries_result" where
  "inconsistent t i = \<lparr>aes_term = t, aes_success = False, conflict_index = i\<rparr>"

definition append_success :: "raft_term \<Rightarrow> log_index \<Rightarrow> append_entries_result" where
  "append_success t i = \<lparr>aes_term = t, aes_success = True, conflict_index = i\<rparr>"

record request_vote_result =
  rvs_term :: raft_term
  vote_granted :: bool

datatype snapshot_action = Accepted | Rejected | StaleSnapshot

record install_snapshot_result =
  iss_term :: raft_term
  iss_action :: snapshot_action

datatype term_check_result = TermValid | TermStale

definition recognise_leader :: "raft_term \<Rightarrow> node_id \<Rightarrow> unit handler" where
  "recognise_leader req_term leader w =
     (case role (fst w) of
        Candidate _ \<Rightarrow> into_follower req_term (Some leader) w
      | Leader _ \<Rightarrow> apply_fatal (Protocol ''CRITICAL SAFETY VIOLATION: Rival leader detected'') w
      | Follower n \<Rightarrow> (Inr (), set_role (Follower (n\<lparr>state := (state n)\<lparr>leader_id := Some leader\<rparr>\<rparr>)) w)
      | PreCandidate _ \<Rightarrow> into_follower req_term (Some leader) w
      | Poisoned \<Rightarrow> (Inr (), w))"

definition validate_leader_rpc_term :: "raft_term \<Rightarrow> node_id \<Rightarrow> term_check_result handler" where
  "validate_leader_rpc_term req_term leader =
     st_bind ln_current_term
       (\<lambda>current.
          if req_term < current then st_return TermStale
          else st_bind (if req_term > current then into_follower req_term (Some leader)
                        else recognise_leader req_term leader)
                 (\<lambda>_. st_return TermValid))"

definition reconcile_as_follower ::
  "log_index \<Rightarrow> raft_term \<Rightarrow> log_entry list \<Rightarrow> log_index \<Rightarrow> append_entries_result handler" where
  "reconcile_as_follower prev_log_index prev_log_term entries leader_commit w =
     (case role (fst w) of
        Follower n \<Rightarrow>
          (let (res, w') = run_node Follower (reconcile_log prev_log_index prev_log_term entries leader_commit) n w
           in st_bind (or_fatal res)
                (\<lambda>result. st_bind ln_current_term
                   (\<lambda>t. st_return (if rec_success result then append_success t (rec_last_index result)
                                   else inconsistent t (rec_last_index result)))) w')
      | _ \<Rightarrow> st_bind ln_current_term (\<lambda>t. st_return (inconsistent t 0)) w)"

definition handle_append_entries ::
  "node_id \<Rightarrow> raft_term \<Rightarrow> log_index \<Rightarrow> raft_term \<Rightarrow> log_entry list \<Rightarrow> log_index \<Rightarrow> append_entries_result handler" where
  "handle_append_entries leader req_term prev_log_index prev_log_term entries leader_commit =
     st_bind ln_current_term
       (\<lambda>current. st_bind (validate_leader_rpc_term req_term leader)
       (\<lambda>check. if check = TermStale then st_return (stale_term current)
        else st_bind reset_heartbeat
       (\<lambda>_. reconcile_as_follower prev_log_index prev_log_term entries leader_commit)))"

definition grant_as_follower :: "node_id \<Rightarrow> raft_term \<Rightarrow> log_index \<Rightarrow> raft_term \<Rightarrow> bool handler" where
  "grant_as_follower candidate_id req_term req_last_log_index req_last_log_term w =
     (case role (fst w) of
        Follower n \<Rightarrow>
          (let (res, w') = run_node Follower
                 (on_disk (attempt_grant_vote candidate_id req_term req_last_log_index req_last_log_term)) n w
           in or_fatal res w')
      | _ \<Rightarrow> (Inr False, w))"

definition handle_request_vote ::
  "node_id \<Rightarrow> raft_term \<Rightarrow> log_index \<Rightarrow> raft_term \<Rightarrow> request_vote_result handler" where
  "handle_request_vote candidate_id req_term req_last_log_index req_last_log_term =
     st_bind ln_current_term
       (\<lambda>current. st_bind (if req_term > current then into_follower req_term None else st_return ())
       (\<lambda>_. st_bind (grant_as_follower candidate_id req_term req_last_log_index req_last_log_term)
       (\<lambda>granted. st_bind ln_current_term
       (\<lambda>t. st_return \<lparr>rvs_term = t, vote_granted = granted\<rparr>))))"

definition pre_grant_as_follower :: "node_id \<Rightarrow> raft_term \<Rightarrow> log_index \<Rightarrow> raft_term \<Rightarrow> bool handler" where
  "pre_grant_as_follower candidate_id req_term req_last_log_index req_last_log_term w =
     (case role (fst w) of
        Follower n \<Rightarrow> or_fatal (grant_pre_vote candidate_id req_term req_last_log_index req_last_log_term (snd w)) w
      | _ \<Rightarrow> (Inr False, w))"

definition handle_pre_vote ::
  "node_id \<Rightarrow> raft_term \<Rightarrow> log_index \<Rightarrow> raft_term \<Rightarrow> request_vote_result handler" where
  "handle_pre_vote candidate_id req_term req_last_log_index req_last_log_term =
     st_bind ln_current_term
       (\<lambda>current. st_bind (pre_grant_as_follower candidate_id req_term req_last_log_index req_last_log_term)
       (\<lambda>granted. st_return \<lparr>rvs_term = current, vote_granted = granted\<rparr>))"

definition handle_install_snapshot :: "node_id \<Rightarrow> raft_term \<Rightarrow> log_index \<Rightarrow> install_snapshot_result handler" where
  "handle_install_snapshot leader req_term last_included_index =
     st_bind ln_current_term
       (\<lambda>current. st_bind (validate_leader_rpc_term req_term leader)
       (\<lambda>check. if check = TermStale then st_return \<lparr>iss_term = current, iss_action = Rejected\<rparr>
        else st_bind ln_last_applied
       (\<lambda>applied. if last_included_index \<le> applied then st_return \<lparr>iss_term = current, iss_action = StaleSnapshot\<rparr>
        else st_bind reset_heartbeat
       (\<lambda>_. st_bind ln_current_term (\<lambda>t. st_return \<lparr>iss_term = t, iss_action = Accepted\<rparr>)))))"

definition ln_propose :: "bytes \<Rightarrow> (node_error + log_index) handler" where
  "ln_propose command w =
     (case role (fst w) of
        Leader n \<Rightarrow>
          (let (res, w') = run_node Leader (on_disk (leader_propose command)) n w
           in st_bind (or_fatal res) (\<lambda>idx. st_bind ln_current_term (\<lambda>_. st_return (Inr idx))) w')
      | Poisoned \<Rightarrow> (Inl HaltPoisoned, w)
      | _ \<Rightarrow> st_bind ln_voted_for (\<lambda>v. st_return (Inl (NotLeader v))) w)"

section \<open>Progress\<close>

record consensus_progress =
  p_term :: raft_term
  p_role :: node_role
  p_last_log_index :: log_index
  p_last_committed :: log_index
  p_last_applied :: log_index
  leader_hint :: "node_id option"
  p_confirmed_read_epoch :: "64 word"

definition role_progress ::
  "node_role \<Rightarrow> 'r raft_node \<Rightarrow> node_id option \<Rightarrow> 64 word \<Rightarrow> consensus_progress reader" where
  "role_progress rl n hint epoch d =
     res_bind (node_read sled_current_term d)
       (\<lambda>t. res_bind (node_read sled_last_log_index d)
       (\<lambda>l. Inr \<lparr>p_term = t, p_role = rl, p_last_log_index = l, p_last_committed = last_committed n,
                 p_last_applied = last_applied n, leader_hint = hint, p_confirmed_read_epoch = epoch\<rparr>))"

definition try_consensus_progress :: "world \<Rightarrow> node_error + consensus_progress" where
  "try_consensus_progress w =
     (case role (fst w) of
        Poisoned \<Rightarrow> Inr \<lparr>p_term = 0, p_role = RPoisoned, p_last_log_index = 0, p_last_committed = 0,
                         p_last_applied = 0, leader_hint = None, p_confirmed_read_epoch = 0\<rparr>
      | Follower n \<Rightarrow> role_progress RFollower n (leader_id (state n)) 0 (snd w)
      | PreCandidate n \<Rightarrow> role_progress RPreCandidate n None 0 (snd w)
      | Candidate n \<Rightarrow> role_progress RCandidate n None 0 (snd w)
      | Leader n \<Rightarrow> role_progress RLeader n (Some (node_id (identity n))) (confirmed_read_epoch (state n)) (snd w))"

definition ln_consensus_progress :: "consensus_progress handler" where
  "ln_consensus_progress w = or_fatal (try_consensus_progress w) w"

end
