(* ===== verification/Engine_Invariants.thy ===== *)
theory Engine_Invariants
  imports Engine
begin

text \<open>
  What every handler of \<open>Engine\<close> keeps, for every store and every choice of failing storage calls:
  the relation \<open>engine_le\<close> between the worlds before and after (hard state discipline, no new leader,
  candidacy only with an own vote in a new term, the identity), the Halt Mandate (a panic leaves the node poisoned)
  and that poison is final.
\<close>

section \<open>What a handler may change\<close>

definition role_le :: "world \<Rightarrow> world \<Rightarrow> bool" where
  "role_le w w' \<longleftrightarrow>
     (role_identity (role (fst w')) = None \<or> role_identity (role (fst w')) = role_identity (role (fst w)))
     \<and> (\<forall>n'. role (fst w') = Leader n' \<longrightarrow>
          (\<exists>n. role (fst w) = Leader n) \<and> disk_term (snd w') = disk_term (snd w))
     \<and> (\<forall>n'. role (fst w') = Candidate n' \<longrightarrow>
          (\<exists>n. role (fst w) = Candidate n \<and> votes_received (state n') = votes_received (state n)
             \<and> disk_term (snd w') = disk_term (snd w))
          \<or> disk_term (snd w) < disk_term (snd w') \<and> votes_received (state n') = {node_id (identity n')}
            \<and> (valid_node_id (node_id (identity n')) \<longrightarrow> disk_vote (snd w') = Some (node_id (identity n'))))"

definition engine_le :: "world \<Rightarrow> world \<Rightarrow> bool" where
  "engine_le w w' \<longleftrightarrow> vote_le (snd w) (snd w') \<and> role_le w w'"

lemma role_le_refl: "role_le w w"
  by (simp add: role_le_def)

lemma role_le_trans:
  assumes "role_le u v" "role_le v w" "vote_le (snd u) (snd v)" "vote_le (snd v) (snd w)"
  shows "role_le u w"
  unfolding role_le_def
proof (intro conjI allI impI)
  show "role_identity (role (fst w)) = None \<or> role_identity (role (fst w)) = role_identity (role (fst u))"
    using assms(1,2) unfolding role_le_def by (metis (no_types, lifting))
next
  fix n' assume "role (fst w) = Leader n'"
  with assms(1,2) show "\<exists>n. role (fst u) = Leader n" "disk_term (snd w) = disk_term (snd u)"
    unfolding role_le_def by metis+
next
  fix n' assume n': "role (fst w) = Candidate n'"
  let ?me = "node_id (identity n')"
  from assms(2) n' consider
      (same) n where "role (fst v) = Candidate n" "votes_received (state n') = votes_received (state n)"
        "disk_term (snd w) = disk_term (snd v)"
    | (new) "disk_term (snd v) < disk_term (snd w)" "votes_received (state n') = {?me}"
        "valid_node_id ?me \<longrightarrow> disk_vote (snd w) = Some ?me"
    unfolding role_le_def by blast
  then show "(\<exists>n. role (fst u) = Candidate n \<and> votes_received (state n') = votes_received (state n)
      \<and> disk_term (snd w) = disk_term (snd u))
    \<or> disk_term (snd u) < disk_term (snd w) \<and> votes_received (state n') = {?me}
      \<and> (valid_node_id ?me \<longrightarrow> disk_vote (snd w) = Some ?me)"
  proof cases
    case new
    with vote_le_term[OF assms(3)] show ?thesis by simp
  next
    case same
    have id: "identity n' = identity n" using assms(2) n' same(1) by (auto simp: role_le_def)
    from assms(1) same(1) consider
        (same2) m where "role (fst u) = Candidate m" "votes_received (state n) = votes_received (state m)"
          "disk_term (snd v) = disk_term (snd u)"
      | (new2) "disk_term (snd u) < disk_term (snd v)" "votes_received (state n) = {?me}"
          "valid_node_id ?me \<longrightarrow> disk_vote (snd v) = Some ?me"
      unfolding role_le_def id by blast
    then show ?thesis
    proof cases
      case same2 with same show ?thesis by simp
    next
      case new2
      with same assms(4) show ?thesis by (auto simp: vote_le_def)
    qed
  qed
qed

interpretation engine: run_preorder engine_le
proof
  fix s t u :: world
  show "engine_le s s" by (simp add: engine_le_def role_le_refl hs.refl)
  assume "engine_le s t" "engine_le t u"
  then show "engine_le s u"
    unfolding engine_le_def using role_le_trans hs.trans by blast
qed

lemma engine_leI_plain:
  assumes "vote_le (snd w) (snd w')"
    and "role_identity (role (fst w')) = None \<or> role_identity (role (fst w')) = role_identity (role (fst w))"
    and "\<And>n. role (fst w') \<noteq> Leader n" "\<And>n. role (fst w') \<noteq> Candidate n"
  shows "engine_le w w'"
  using assms by (auto simp: engine_le_def role_le_def)

lemma run_bind_gets: "(\<And>s. R s (snd (f (g s) s))) \<Longrightarrow> run_rel R (st_bind (st_gets g) f)"
  by (simp add: run_rel_def)

lemma engine_apply_fatal: "run_rel engine_le (apply_fatal e)"
  by (auto simp: run_rel_def apply_fatal_def set_role_def intro!: engine_leI_plain hs.refl)

lemma engine_or_fatal: "run_rel engine_le (or_fatal r)"
  by (cases r) (simp_all add: or_fatal_def engine_apply_fatal engine.run_return)

lemma engine_delegate_read: "run_rel engine_le (delegate_read f)"
  using engine_apply_fatal
  by (auto simp: run_rel_def delegate_read_def engine.refl split: sum.splits)

lemma engine_reads:
  "run_rel engine_le ln_current_term" "run_rel engine_le ln_voted_for" "run_rel engine_le ln_last_log_index"
  "run_rel engine_le ln_last_log_term" "run_rel engine_le ln_last_included_index"
  "run_rel engine_le ln_last_included_term" "run_rel engine_le (ln_get_term_at i)"
  "run_rel engine_le (ln_read_entries a b)"
  by (simp_all add: ln_current_term_def ln_voted_for_def ln_last_log_index_def ln_last_log_term_def
      ln_last_included_index_def ln_last_included_term_def ln_get_term_at_def ln_read_entries_def engine_delegate_read)

lemma engine_last_applied: "run_rel engine_le ln_last_applied" "run_rel engine_le ln_last_committed"
  by (auto simp: run_rel_def ln_last_applied_def ln_last_committed_def engine.refl split: role_state.splits)

lemma quiet_run_node:
  assumes "run_rel quiet p" and "p (n, d) = (r, n', d')"
  shows "identity n' = identity n" "state n' = state n" "hard_same d d'"
  using run_relD[OF assms] by (simp_all add: quiet_def)

lemma hard_same_view: "hard_same d d' \<Longrightarrow> disk_term d' = disk_term d \<and> disk_vote d' = disk_vote d"
  by (simp add: hard_same_def disk_term_def disk_vote_def)

lemma engine_delegate_mut:
  assumes "run_rel quiet pf" "run_rel quiet pp" "run_rel quiet pc" "run_rel quiet pl"
  shows "run_rel engine_le (delegate_mut pf pp pc pl)"
proof (rule run_relI)
  fix w r w' assume a: "delegate_mut pf pp pc pl w = (r, w')"
  obtain ln d where w: "w = (ln, d)" by (cases w)
  show "engine_le w w'"
  proof (cases "role ln")
    case (Follower n)
    then show ?thesis using a w quiet_run_node[OF assms(1), of n d]
      by (auto simp: delegate_mut_def run_node_def hard_same_vote_le split: prod.splits intro!: engine_leI_plain)
  next
    case (PreCandidate n)
    then show ?thesis using a w quiet_run_node[OF assms(2), of n d]
      by (auto simp: delegate_mut_def run_node_def hard_same_vote_le split: prod.splits intro!: engine_leI_plain)
  next
    case (Candidate n)
    then show ?thesis using a w quiet_run_node[OF assms(3), of n d] hard_same_view
      by (auto simp: delegate_mut_def run_node_def engine_le_def role_le_def hard_same_vote_le split: prod.splits)
  next
    case (Leader n)
    then show ?thesis using a w quiet_run_node[OF assms(4), of n d] hard_same_view
      by (auto simp: delegate_mut_def run_node_def engine_le_def role_le_def hard_same_vote_le split: prod.splits)
  next
    case Poisoned
    then show ?thesis using a w by (simp add: delegate_mut_def engine.refl)
  qed
qed

lemma engine_commit:
  "run_rel engine_le (ln_advance_last_committed i)" "run_rel engine_le (ln_update_commit_index_only i)"
  "run_rel engine_le (ln_advance_horizon_after_snapshot i)" "run_rel engine_le (ln_save_snapshot_metadata i t)"
  unfolding ln_advance_last_committed_def ln_update_commit_index_only_def
    ln_advance_horizon_after_snapshot_def ln_save_snapshot_metadata_def Let_def
  by (intro engine.run_intros engine_delegate_mut engine_or_fatal advance_last_committed_quiet update_commit_quiet
      advance_horizon_quiet quiet_intros)+

section \<open>Role changes\<close>

lemma try_into_follower_node:
  "try_into_follower n t l hb tmo d = (Inr n', d') \<Longrightarrow> identity n' = identity n"
  by (auto simp: try_into_follower_def node_transition_def Let_def elim!: st_bind_InrE)

lemma engine_then: "engine_le w w' \<Longrightarrow> run_rel engine_le m \<Longrightarrow> engine_le w (snd (m w'))"
  unfolding run_rel_def using engine.trans by blast

lemma engine_step_down:
  assumes "install_role Follower ln1 (try_into_follower n t l tk tmo d) = (r, w')"
    and "role_identity (role ln) = Some (identity n)"
  shows "engine_le (ln, d) w'"
proof -
  obtain rr d' where p: "try_into_follower n t l tk tmo d = (rr, d')" by (cases "try_into_follower n t l tk tmo d")
  with run_relD[OF try_into_follower_vote_le p] assms show ?thesis
    by (auto simp: install_role_def split: sum.splits intro!: engine_leI_plain dest: try_into_follower_node)
qed

lemma engine_into_follower: "run_rel engine_le (into_follower t l)"
proof (rule run_relI)
  fix w r w' assume a: "into_follower t l w = (r, w')"
  obtain ln d where w: "w = (ln, d)" by (cases w)
  show "engine_le w w'"
  proof (cases "role ln")
    case Poisoned
    then show ?thesis using a
      by (auto simp: into_follower_def w Let_def split: prod.splits intro!: engine_leI_plain hs.refl)
  qed (use a in \<open>auto simp: into_follower_def w Let_def split: prod.splits intro: engine_step_down\<close>)
qed

lemma start_campaign_ok:
  assumes "start_campaign n s tmo d = (Inr n', d')"
  shows "identity n' = identity n" "disk_term d' = Suc (disk_term d)"
    "votes_received (state n') = {node_id (identity n)}"
    "d' = set_hard_state (Suc (disk_term d)) (Some (node_id (identity n))) d"
  using assms
  by (auto simp: start_campaign_def Let_def node_transition_def new_candidate_def add_vote_def advance_term_and_vote_def
      node_read_Inr split: sum.splits if_splits elim!: st_bind_InrE node_writeE dest!: sled_current_term_Inr save_hard_state_cases)

lemma engine_start_campaign:
  assumes "install_role Candidate ln1 (start_campaign n s tmo d) = (r, w')"
    and "role_identity (role ln) = Some (identity n)"
  shows "engine_le (ln, d) w'"
proof -
  obtain rr d' where p: "start_campaign n s tmo d = (rr, d')" by (cases "start_campaign n s tmo d")
  note v = run_relD[OF start_campaign_vote_le p]
  show ?thesis
  proof (cases rr)
    case (Inl e)
    with p v assms show ?thesis by (auto simp: install_role_def intro!: engine_leI_plain)
  next
    case (Inr n')
    with p have s: "start_campaign n s tmo d = (Inr n', d')" by simp
    note ok = start_campaign_ok[OF s]
    have "valid_node_id (node_id (identity n)) \<Longrightarrow> disk_vote d' = Some (node_id (identity n))"
      unfolding ok(4) by (rule disk_vote_set_hard_state) simp
    with p v assms Inr ok(1-3) show ?thesis
      by (auto simp: install_role_def engine_le_def role_le_def)
  qed
qed

lemma engine_into_candidate: "run_rel engine_le into_candidate"
proof (rule run_relI)
  fix w r w' assume a: "into_candidate w = (r, w')"
  obtain ln d where w: "w = (ln, d)" by (cases w)
  show "engine_le w w'"
  proof (cases "role ln")
    case (Follower n)
    with a show ?thesis
      by (auto simp: into_candidate_def w Let_def follower_try_into_candidate_def split: prod.splits
          intro: engine_start_campaign)
  next
    case (PreCandidate n)
    with a show ?thesis
      by (auto simp: into_candidate_def w Let_def pre_candidate_try_into_candidate_def split: prod.splits
          intro: engine_start_campaign)
  next
    case (Candidate n)
    with a show ?thesis
      by (auto simp: into_candidate_def w Let_def try_into_restarted_candidate_def split: prod.splits
          intro: engine_start_campaign)
  qed (use a in \<open>auto simp: into_candidate_def w Let_def engine_le_def role_le_def hs.refl split: prod.splits\<close>)
qed

lemma engine_into_pre_candidate: "run_rel engine_le into_pre_candidate"
  by (auto simp: run_rel_def into_pre_candidate_def try_into_pre_candidate_def node_transition_def engine.refl
      split: role_state.splits intro!: engine_leI_plain hs.refl)

lemma engine_reset_heartbeat: "run_rel engine_le reset_heartbeat"
  by (auto simp: run_rel_def reset_heartbeat_def engine_le_def role_le_def hs.refl split: role_state.splits)

lemma engine_tick: "run_rel engine_le ln_tick"
  by (auto simp: run_rel_def ln_tick_def Let_def engine_le_def role_le_def hs.refl)

section \<open>RPC handlers\<close>

lemmas engine_intros = engine.run_intros engine_reads engine_last_applied engine_commit engine_into_follower
  engine_into_candidate engine_into_pre_candidate engine_reset_heartbeat engine_tick engine_apply_fatal engine_or_fatal

lemma engine_recognise_leader: "run_rel engine_le (recognise_leader t l)"
proof (rule run_relI)
  fix w r w' assume a: "recognise_leader t l w = (r, w')"
  show "engine_le w w'"
  proof (cases "role (fst w)")
    case (Follower n)
    with a show ?thesis
      by (cases w) (auto simp: recognise_leader_def set_role_def intro!: engine_leI_plain hs.refl)
  qed (use a run_relD[OF engine_into_follower, of t "Some l" w r w'] run_relD[OF engine_apply_fatal, of _ w r w'] engine.refl
      in \<open>auto simp: recognise_leader_def\<close>)
qed

lemma engine_validate: "run_rel engine_le (validate_leader_rpc_term t l)"
  unfolding validate_leader_rpc_term_def by (intro engine_intros engine_recognise_leader)

lemma engine_run_follower:
  assumes "run_node Follower p n w = (r, w')" "role (fst w) = Follower n"
    and "\<And>n' d'. p (n, snd w) = (r, n', d') \<Longrightarrow> identity n' = identity n \<and> vote_le (snd w) d'"
  shows "engine_le w w'"
proof -
  obtain ln d where w: "w = (ln, d)" by (cases w)
  obtain n' d' where p: "p (n, d) = (r, n', d')" and w': "w' = (ln\<lparr>role := Follower n'\<rparr>, d')"
    using assms(1) by (auto simp: run_node_def w split: prod.splits)
  from assms(3)[of n' d'] p assms(2) show ?thesis by (auto simp: w w' intro!: engine_leI_plain)
qed

lemma engine_reconcile_as_follower: "run_rel engine_le (reconcile_as_follower pi pt es lc)"
  unfolding run_rel_def
proof
  fix w :: world
  have other: "run_rel engine_le (st_bind ln_current_term (\<lambda>t. st_return (inconsistent t 0)))"
    by (intro engine_intros)
  have tail: "run_rel engine_le (st_bind (or_fatal res)
      (\<lambda>result. st_bind ln_current_term
         (\<lambda>t. st_return (if rec_success result then append_success t (rec_last_index result)
                         else inconsistent t (rec_last_index result)))))" for res
    by (intro engine_intros)
  show "engine_le w (snd (reconcile_as_follower pi pt es lc w))"
  proof (cases "role (fst w)")
    case (Follower n)
    obtain res w' where p: "run_node Follower (reconcile_log pi pt es lc) n w = (res, w')"
      by (cases "run_node Follower (reconcile_log pi pt es lc) n w")
    have "engine_le w w'"
      by (rule engine_run_follower[OF p Follower])
        (auto dest: quiet_run_node[OF reconcile_log_quiet] intro: hard_same_vote_le)
    from engine_then[OF this tail[of res]] Follower p show ?thesis
      by (simp add: reconcile_as_follower_def)
  qed (use engine_then[OF engine.refl other] in \<open>simp_all add: reconcile_as_follower_def\<close>)
qed

lemma engine_handle_append_entries: "run_rel engine_le (handle_append_entries l t pi pt es lc)"
  unfolding handle_append_entries_def
  by (intro engine_intros engine_validate engine_reconcile_as_follower)

lemma engine_grant_as_follower: "run_rel engine_le (grant_as_follower c t li lt)"
  unfolding run_rel_def
proof
  fix w :: world
  show "engine_le w (snd (grant_as_follower c t li lt w))"
  proof (cases "role (fst w)")
    case (Follower n)
    obtain res w' where p: "run_node Follower (on_disk (attempt_grant_vote c t li lt)) n w = (res, w')"
      by (cases "run_node Follower (on_disk (attempt_grant_vote c t li lt)) n w")
    have "engine_le w w'"
      by (rule engine_run_follower[OF p Follower])
        (use attempt_grant_vote_vote_le in \<open>auto simp: on_disk_apply run_rel_def\<close>)
    from engine_then[OF this engine_or_fatal[of res]] Follower p show ?thesis
      by (simp add: grant_as_follower_def)
  qed (simp_all add: grant_as_follower_def engine.refl)
qed

lemma engine_handle_request_vote: "run_rel engine_le (handle_request_vote c t li lt)"
  unfolding handle_request_vote_def by (intro engine_intros engine_grant_as_follower)

lemma engine_handle_pre_vote: "run_rel engine_le (handle_pre_vote c t li lt)"
proof -
  have "run_rel engine_le (pre_grant_as_follower c t li lt)"
    using engine_or_fatal unfolding run_rel_def pre_grant_as_follower_def
    by (auto simp: engine.refl split: role_state.splits)
  then show ?thesis unfolding handle_pre_vote_def by (intro engine_intros)
qed

lemma engine_handle_install_snapshot: "run_rel engine_le (handle_install_snapshot l t i)"
  unfolding handle_install_snapshot_def by (intro engine_intros engine_validate)

lemma engine_propose: "run_rel engine_le (ln_propose cmd)"
  unfolding run_rel_def
proof
  fix w :: world
  have tail: "run_rel engine_le (st_bind (or_fatal res)
      (\<lambda>idx. st_bind ln_current_term (\<lambda>_. st_return (Inr idx :: node_error + log_index))))" for res
    by (intro engine_intros)
  have other: "run_rel engine_le (st_bind ln_voted_for (\<lambda>v. st_return (Inl (NotLeader v) :: node_error + log_index)))"
    by (intro engine_intros)
  show "engine_le w (snd (ln_propose cmd w))"
  proof (cases "role (fst w)")
    case (Leader n)
    obtain ln d where w: "w = (ln, d)" by (cases w)
    obtain res d' where p: "leader_propose cmd d = (res, d')" by (cases "leader_propose cmd d")
    have "engine_le w (ln\<lparr>role := Leader n\<rparr>, d')"
      using run_relD[OF leader_propose_hard_same p] Leader hard_same_view
      by (auto simp: w engine_le_def role_le_def hard_same_vote_le)
    from engine_then[OF this tail[of res]] Leader p show ?thesis
      by (simp add: ln_propose_def run_node_def on_disk_apply w)
  qed (use engine_then[OF engine.refl other] engine.refl in \<open>simp_all add: ln_propose_def\<close>)
qed

section \<open>The Halt Mandate\<close>

definition halts_poisoned :: "'a handler \<Rightarrow> bool" where
  "halts_poisoned m \<longleftrightarrow> valid (\<lambda>_. True) m (\<lambda>_ _. True) (\<lambda>_ w. is_poisoned (fst w))"

lemma halts_poisonedI: "(\<And>w h w'. m w = (Inl h, w') \<Longrightarrow> is_poisoned (fst w')) \<Longrightarrow> halts_poisoned m"
  unfolding halts_poisoned_def by (rule validI) auto

lemma halts_poisonedD: "halts_poisoned m \<Longrightarrow> m w = (Inl h, w') \<Longrightarrow> is_poisoned (fst w')"
  unfolding halts_poisoned_def by (drule validD_err) auto

lemma halts_poisonedD2: "halts_poisoned m \<Longrightarrow> m w = (Inl h, ln, d) \<Longrightarrow> is_poisoned ln"
  using halts_poisonedD[of m w h "(ln, d)"] by simp

lemma halts_bind: "halts_poisoned m \<Longrightarrow> (\<And>a. halts_poisoned (f a)) \<Longrightarrow> halts_poisoned (st_bind m f)"
  unfolding halts_poisoned_def by (rule valid_bind)

lemma halts_basic:
  "halts_poisoned (st_return a)" "halts_poisoned (st_gets g)" "halts_poisoned (st_modify h)"
  "halts_poisoned (apply_fatal e)" "halts_poisoned (or_fatal r)" "halts_poisoned (delegate_read f)"
  "halts_poisoned m \<Longrightarrow> halts_poisoned m' \<Longrightarrow> halts_poisoned (if b then m else m')"
  by (auto intro!: halts_poisonedI simp: apply_fatal_def set_role_def is_poisoned_def or_fatal_def delegate_read_def
      split: sum.splits if_splits prod.splits role_state.splits)

lemma halts_reads:
  "halts_poisoned ln_current_term" "halts_poisoned ln_voted_for" "halts_poisoned ln_last_log_index"
  "halts_poisoned ln_last_log_term" "halts_poisoned ln_last_included_index" "halts_poisoned ln_last_included_term"
  "halts_poisoned (ln_get_term_at i)" "halts_poisoned (ln_read_entries a b)"
  by (simp_all add: ln_current_term_def ln_voted_for_def ln_last_log_index_def ln_last_log_term_def
      ln_last_included_index_def ln_last_included_term_def ln_get_term_at_def ln_read_entries_def halts_basic)

lemma halts_last: "halts_poisoned ln_last_applied" "halts_poisoned ln_last_committed"
  by (auto intro!: halts_poisonedI simp: ln_last_applied_def ln_last_committed_def is_poisoned_def split: role_state.splits)

lemma halts_delegate_mut: "halts_poisoned (delegate_mut pf pp pc pl)"
  by (auto intro!: halts_poisonedI simp: delegate_mut_def is_poisoned_def split: role_state.splits prod.splits)

lemma halts_install_role: "install_role C ln x = (Inl h, w') \<Longrightarrow> is_poisoned (fst w')"
  by (auto simp: install_role_def is_poisoned_def split: sum.splits prod.splits)

lemma halts_role_changes:
  "halts_poisoned (into_follower t l)" "halts_poisoned into_candidate" "halts_poisoned into_pre_candidate"
  "halts_poisoned (into_leader ps)"
  by (auto intro!: halts_poisonedI simp: into_follower_def into_candidate_def into_pre_candidate_def into_leader_def Let_def
      split: role_state.splits prod.splits dest!: halts_install_role) (simp_all add: is_poisoned_def)

lemmas halts_intros = halts_bind halts_basic halts_reads halts_last halts_delegate_mut halts_role_changes

lemma halts_commit:
  "halts_poisoned (ln_advance_last_committed i)" "halts_poisoned (ln_update_commit_index_only i)"
  "halts_poisoned (ln_save_snapshot_metadata i t)" "halts_poisoned (ln_advance_horizon_after_snapshot i)"
  unfolding ln_advance_last_committed_def ln_update_commit_index_only_def ln_save_snapshot_metadata_def
    ln_advance_horizon_after_snapshot_def Let_def
  by (intro halts_intros)+

lemma halts_recognise_leader: "halts_poisoned (recognise_leader t l)"
  by (auto intro!: halts_poisonedI simp: recognise_leader_def split: role_state.splits
      dest: halts_poisonedD2[OF halts_role_changes(1)] halts_poisonedD2[OF halts_basic(4)])

lemma halts_after:
  assumes "(case x of (r, w') \<Rightarrow> st_bind (or_fatal r) f w') = (Inl h, ln, d)" and "\<And>a. halts_poisoned (f a)"
  shows "is_poisoned ln"
  using assms(1) halts_poisonedD2[OF halts_bind[OF halts_basic(5) assms(2)]] by (cases x) simp

lemma halts_dispatch:
  "halts_poisoned (reconcile_as_follower pi pt es lc)" "halts_poisoned (grant_as_follower c t li lt)"
  "halts_poisoned (pre_grant_as_follower c t li lt)" "halts_poisoned (ln_propose cmd)"
proof -
  have 1: "halts_poisoned (st_bind ln_current_term (\<lambda>t. st_return (f t)))" for f :: "raft_term \<Rightarrow> append_entries_result"
    by (intro halts_intros)
  have 2: "halts_poisoned (st_bind ln_current_term (\<lambda>_. st_return (Inr i :: node_error + log_index)))" for i
    by (intro halts_intros)
  have 3: "halts_poisoned (st_bind ln_voted_for (\<lambda>v. st_return (Inl (NotLeader v) :: node_error + log_index)))"
    by (intro halts_intros)
  show "halts_poisoned (reconcile_as_follower pi pt es lc)"
    by (auto intro!: halts_poisonedI simp: reconcile_as_follower_def split: role_state.splits
        dest: halts_after[OF _ 1] halts_poisonedD2[OF 1])
  show "halts_poisoned (grant_as_follower c t li lt)"
    by (auto intro!: halts_poisonedI simp: grant_as_follower_def split: role_state.splits prod.splits
        dest: halts_poisonedD2[OF halts_basic(5)])
  show "halts_poisoned (pre_grant_as_follower c t li lt)"
    by (auto intro!: halts_poisonedI simp: pre_grant_as_follower_def split: role_state.splits
        dest: halts_poisonedD2[OF halts_basic(5)])
  show "halts_poisoned (ln_propose cmd)"
  proof (rule halts_poisonedI)
    fix w h w' assume "ln_propose cmd w = (Inl h, w')"
    then show "is_poisoned (fst w')"
      by (cases w'; cases "role (fst w)")
        (auto simp: ln_propose_def is_poisoned_def[of "fst w"] dest: halts_after[OF _ 2] halts_poisonedD2[OF 3],
         simp add: is_poisoned_def)
  qed
qed

lemma halts_handlers:
  "halts_poisoned (handle_append_entries l t pi pt es lc)" "halts_poisoned (handle_request_vote c t li lt)"
  "halts_poisoned (handle_pre_vote c t li lt)" "halts_poisoned (handle_install_snapshot l t i)"
  unfolding handle_append_entries_def handle_request_vote_def handle_pre_vote_def handle_install_snapshot_def
    validate_leader_rpc_term_def reset_heartbeat_def
  by (intro halts_intros halts_recognise_leader halts_dispatch)+

section \<open>Poison is final\<close>

definition poison_le :: "world \<Rightarrow> world \<Rightarrow> bool" where
  "poison_le w w' \<longleftrightarrow> (is_poisoned (fst w) \<longrightarrow> is_poisoned (fst w') \<and> snd w' = snd w)"

interpretation poisoned: run_preorder poison_le
  by unfold_locales (auto simp: poison_le_def)

lemma poison_basic:
  "run_rel poison_le (apply_fatal e)" "run_rel poison_le (or_fatal r)" "run_rel poison_le (delegate_read f)"
  "run_rel poison_le (delegate_mut pf pp pc pl)" "run_rel poison_le (into_follower t l)"
  "run_rel poison_le into_candidate" "run_rel poison_le into_pre_candidate" "run_rel poison_le (into_leader ps)"
  "run_rel poison_le reset_heartbeat" "run_rel poison_le ln_tick" "run_rel poison_le ln_last_applied"
  "run_rel poison_le ln_last_committed" "run_rel poison_le (grant_as_follower c t li pt)"
  "run_rel poison_le (pre_grant_as_follower c t li pt)"
  by (auto simp: run_rel_def poison_le_def apply_fatal_def or_fatal_def delegate_read_def delegate_mut_def
      into_follower_def into_candidate_def into_pre_candidate_def into_leader_def reset_heartbeat_def ln_tick_def
      ln_last_applied_def ln_last_committed_def grant_as_follower_def pre_grant_as_follower_def set_role_def
      is_poisoned_def Let_def split: role_state.splits sum.splits prod.splits)

lemmas poison_intros = poisoned.run_intros poison_basic

lemma poison_reads: "run_rel poison_le ln_current_term" "run_rel poison_le ln_voted_for"
  unfolding ln_current_term_def ln_voted_for_def by (intro poison_intros)+

lemma poison_recognise: "run_rel poison_le (recognise_leader t l)"
  by (auto simp: run_rel_def poison_le_def recognise_leader_def is_poisoned_def split: role_state.splits)

lemma poison_reconcile: "run_rel poison_le (reconcile_as_follower pi pt es lc)"
proof -
  have o: "run_rel poison_le (st_bind ln_current_term (\<lambda>t. st_return (inconsistent t 0)))"
    by (intro poison_intros poison_reads)
  show ?thesis
    using o by (auto simp: run_rel_def poison_le_def reconcile_as_follower_def is_poisoned_def split: role_state.splits)
qed

lemma poison_handlers:
  "run_rel poison_le (handle_append_entries l t pi pt es lc)" "run_rel poison_le (handle_request_vote c t li lt)"
  "run_rel poison_le (handle_pre_vote c t li lt)" "run_rel poison_le (handle_install_snapshot l t i)"
  "run_rel poison_le (ln_advance_last_committed i)"
  unfolding handle_append_entries_def handle_request_vote_def handle_pre_vote_def handle_install_snapshot_def
    validate_leader_rpc_term_def ln_advance_last_committed_def
  by (intro poison_intros poison_reads poison_recognise poison_reconcile)+

lemma poison_propose: "run_rel poison_le (ln_propose cmd)"
  by (auto simp: run_rel_def poison_le_def ln_propose_def is_poisoned_def split: role_state.splits)

end
