(* ===== verification/Consensus.thy ===== *)
theory Consensus
  imports Engine_Invariants
begin

text \<open>
  \<open>crates/raft-engine/src/consensus\<close>: \<open>rpc.rs\<close>, \<open>election.rs\<close>, \<open>replication.rs\<close> and the tick loop of
  \<open>lifecycle.rs\<close>.

  The asynchronous tasks hold the node's write lock for one critical section at a time, and every
  definition here is one such section: the locked part of a tick, the handling of one response of a
  campaign or of a replication round, the end of a campaign. What a task keeps between two sections
  (its parameters, the votes it counted) is an argument. Sending and receiving is
  left to the steps of the cluster theory. A response is \<open>Inl\<close> when the call failed.
\<close>

section \<open>Parameters and outcomes\<close>

record campaign_params =
  cp_term :: raft_term
  cp_node_id :: node_id
  cp_last_log_index :: log_index
  cp_last_log_term :: raft_term

record replication_round_params =
  rr_term :: raft_term
  rr_node_id :: node_id
  rr_last_committed :: log_index

datatype vote_action = QuorumReached | VDemoted | VContinue

datatype replication_action = RDemoted | RContinue

datatype replication_outcome =
    OAppendEntries log_index u64 append_entries_response
  | OInstallSnapshot log_index u64

datatype replication_strategy =
    SAppendEntries append_entries_request
  | SInstallSnapshot log_index raft_term

fun outcome_term :: "replication_outcome \<Rightarrow> raft_term" where
  "outcome_term (OAppendEntries _ _ r) = aer_term r"
| "outcome_term (OInstallSnapshot _ t) = t"

definition get_or :: "(node_id \<times> log_index) list \<Rightarrow> node_id \<Rightarrow> log_index \<Rightarrow> log_index" where
  "get_or m k dflt = (case map_of m k of None \<Rightarrow> dflt | Some v \<Rightarrow> v)"

definition quorum_size :: "node_id list \<Rightarrow> nat" where
  "quorum_size peer_ids = (length peer_ids + 1) div 2 + 1"

definition ln_node_id :: "node_id handler" where
  "ln_node_id w =
     (case role_identity (role (fst w)) of
        None \<Rightarrow> (Inl HaltPoisoned, w)
      | Some ident \<Rightarrow> (Inr (node_id ident), w))"

section \<open>Request construction\<close>

definition next_index_of :: "node_id \<Rightarrow> logical_node \<Rightarrow> log_index" where
  "next_index_of peer ln = (case role ln of Leader n \<Rightarrow> get_or (next_index (state n)) peer 1 | _ \<Rightarrow> 1)"

definition build_append_entries_request ::
  "node_id \<Rightarrow> raft_term \<Rightarrow> node_id \<Rightarrow> log_index \<Rightarrow> (node_error + append_entries_request) handler" where
  "build_append_entries_request peer t me committed =
     st_bind (st_gets (\<lambda>(ln, _). next_index_of peer ln))
       (\<lambda>next_idx. st_bind ln_last_log_index
       (\<lambda>last_log_idx. case log_index_sub next_idx 1 of
            Inl e \<Rightarrow> st_return (Inl (Arithmetic e))
          | Inr prev_log_index \<Rightarrow>
              st_bind (ln_get_term_at prev_log_index)
                (\<lambda>prev_log_term. st_bind (ln_read_entries next_idx last_log_idx)
                (\<lambda>entries. st_return
                   (Inr (new_append_entries_request t me prev_log_index prev_log_term entries committed))))))"

definition determine_replication_strategy ::
  "node_id \<Rightarrow> replication_round_params \<Rightarrow> (node_error + replication_strategy option) handler" where
  "determine_replication_strategy peer params w =
     (case role (fst w) of
        Leader n \<Rightarrow>
          st_bind ln_last_included_index
            (\<lambda>last_included.
               if get_or (next_index (state n)) peer 1 \<le> last_included then
                 st_bind ln_last_included_term (\<lambda>t. st_return (Inr (Some (SInstallSnapshot last_included t))))
               else
                 st_bind (build_append_entries_request peer (rr_term params) (rr_node_id params) (rr_last_committed params))
                   (\<lambda>r. st_return (map_ok (\<lambda>req. Some (SAppendEntries req)) r))) w
      | _ \<Rightarrow> (Inr (Inr None), w))"

definition prepare_replication ::
  "node_id \<Rightarrow> replication_round_params \<Rightarrow> replication_strategy option handler" where
  "prepare_replication peer params =
     st_bind (determine_replication_strategy peer params)
       (\<lambda>r. case r of
            Inr s \<Rightarrow> st_return s
          | Inl e \<Rightarrow> st_bind ln_last_log_index (\<lambda>_. apply_fatal (Protocol ''Replication strategy failed'')))"

definition reachability_probe :: "replication_round_params \<Rightarrow> log_index \<Rightarrow> raft_term \<Rightarrow> append_entries_request" where
  "reachability_probe params last_included_index last_included_term =
     new_append_entries_request (rr_term params) (rr_node_id params) last_included_index last_included_term []
       (rr_last_committed params)"

section \<open>Commit index of the leader\<close>

definition match_median :: "(node_id \<times> log_index) list \<Rightarrow> log_index \<Rightarrow> log_index" where
  "match_median matches last_idx =
     (let match_indices = sort (map snd matches @ [last_idx])
      in match_indices ! ((length match_indices - 1) div 2))"

definition update_leader_last_committed :: "unit handler" where
  "update_leader_last_committed =
     st_bind ln_last_log_index
       (\<lambda>last_idx. st_bind ln_current_term
       (\<lambda>current. st_bind (st_gets (\<lambda>(ln, _). role ln))
       (\<lambda>r. case r of
            Leader n \<Rightarrow>
              (let median_idx = match_median (match_index (state n)) last_idx;
                   commit_idx = last_committed n
               in if median_idx > commit_idx then
                    st_bind (ln_get_term_at median_idx)
                      (\<lambda>t. if t = current then ln_advance_last_committed median_idx else st_return ())
                  else st_return ())
          | _ \<Rightarrow> st_return ())))"

section \<open>Replication responses\<close>

definition after_success :: "node_id \<Rightarrow> log_index \<Rightarrow> u64 \<Rightarrow> leader \<Rightarrow> node_error + leader \<times> bool" where
  "after_success peer sent_prev sent_len l =
     res_bind (map_err (\<lambda>_. Protocol ''Arithmetic overflow calculating match_index'') (log_index_add sent_prev sent_len))
       (\<lambda>new_match. res_bind
          (map_err (\<lambda>_. Protocol ''Arithmetic overflow calculating next_index'') (log_index_add new_match 1))
          (\<lambda>new_next.
             if new_match > get_or (match_index l) peer 0 then
               Inr (l\<lparr>next_index := AList.update peer new_next (next_index l),
                      match_index := AList.update peer new_match (match_index l)\<rparr>, True)
             else Inr (l, False)))"

definition after_mismatch :: "node_id \<Rightarrow> log_index \<Rightarrow> leader \<Rightarrow> node_error + leader \<times> bool" where
  "after_mismatch peer follower_last l =
     (let current_next = get_or (next_index l) peer 1
      in res_bind
           (if follower_last > 0 then
              map_ok (min current_next)
                (map_err (\<lambda>_. Protocol ''Arithmetic overflow calculating next_index backoff'')
                   (log_index_add follower_last 1))
            else
              map_ok (max 1)
                (map_err (\<lambda>_. Protocol ''Arithmetic underflow calculating next_index backoff'')
                   (log_index_sub current_next 1)))
           (\<lambda>new_next. Inr (l\<lparr>next_index := AList.update peer new_next (next_index l)\<rparr>, False)))"

definition after_snapshot :: "node_id \<Rightarrow> log_index \<Rightarrow> leader \<Rightarrow> node_error + leader \<times> bool" where
  "after_snapshot peer included l =
     res_bind (map_err (\<lambda>_. Protocol ''Arithmetic overflow calculating next_index after snapshot'')
                 (log_index_add included 1))
       (\<lambda>new_next. Inr (l\<lparr>next_index := AList.update peer new_next (next_index l),
                          match_index := AList.update peer included (match_index l)\<rparr>, True))"

fun reconcile_outcome :: "node_id \<Rightarrow> replication_outcome \<Rightarrow> leader \<Rightarrow> node_error + leader \<times> bool" where
  "reconcile_outcome peer (OAppendEntries sent_prev sent_len resp) l =
     (if aer_success resp then after_success peer sent_prev sent_len l
      else after_mismatch peer (aer_last_log_index resp) l)"
| "reconcile_outcome peer (OInstallSnapshot included _) l = after_snapshot peer included l"

definition reconcile_as_leader ::
  "raft_term \<Rightarrow> raft_term \<Rightarrow> node_id \<Rightarrow> replication_outcome \<Rightarrow> (node_error + bool) handler" where
  "reconcile_as_leader t current peer outcome w =
     (case role (fst w) of
        Leader n \<Rightarrow>
          (if current = t then
             (let quorum = (length (next_index (state n)) + 1) div 2 + 1;
                  l1 = acknowledge_heartbeat peer quorum (state n)
              in case reconcile_outcome peer outcome l1 of
                   Inl e \<Rightarrow> (Inr (Inl e), set_role (Leader (n\<lparr>state := l1\<rparr>)) w)
                 | Inr (l2, updated) \<Rightarrow> (Inr (Inr updated), set_role (Leader (n\<lparr>state := l2\<rparr>)) w))
           else (Inr (Inr False), w))
      | _ \<Rightarrow> (Inr (Inr False), w))"

definition process_replication_response ::
  "raft_term \<Rightarrow> node_id \<Rightarrow> 'st + replication_outcome option \<Rightarrow> (node_error + replication_action) handler" where
  "process_replication_response t peer res =
     (case res of
        Inl _ \<Rightarrow> st_return (Inr RContinue)
      | Inr None \<Rightarrow> st_return (Inr RContinue)
      | Inr (Some outcome) \<Rightarrow>
          (if outcome_term outcome > t then
             st_bind (into_follower (outcome_term outcome) None) (\<lambda>_. st_return (Inr RDemoted))
           else
             st_bind ln_current_term
               (\<lambda>current. st_bind (reconcile_as_leader t current peer outcome)
               (\<lambda>r. case r of
                    Inl e \<Rightarrow> st_return (Inl e)
                  | Inr updated \<Rightarrow>
                      st_bind (if updated then update_leader_last_committed else st_return ())
                        (\<lambda>_. st_return (Inr RContinue))))))"

section \<open>Elections\<close>

definition tally_vote :: "raft_term \<Rightarrow> raft_term \<Rightarrow> nat \<Rightarrow> node_id \<Rightarrow> bool handler" where
  "tally_vote t current quorum peer w =
     (case role (fst w) of
        Candidate n \<Rightarrow>
          (if current = t then
             (let c = add_vote peer (state n)
              in (Inr (vote_count c \<ge> quorum), set_role (Candidate (n\<lparr>state := c\<rparr>)) w))
           else (Inr False, w))
      | _ \<Rightarrow> (Inr False, w))"

definition process_vote_response ::
  "raft_term \<Rightarrow> node_id list \<Rightarrow> node_id \<Rightarrow> 'st + request_vote_response \<Rightarrow> vote_action handler" where
  "process_vote_response t peer_ids peer res =
     (case res of
        Inl _ \<Rightarrow> st_return VContinue
      | Inr resp \<Rightarrow>
          (if rvr_term resp > t then
             st_bind (into_follower (rvr_term resp) None) (\<lambda>_. st_return VDemoted)
           else if rvr_vote_granted resp then
             st_bind ln_current_term
               (\<lambda>current. st_bind (tally_vote t current (quorum_size peer_ids) peer)
               (\<lambda>quorum_reached.
                  if quorum_reached then
                    st_bind ln_last_log_index
                      (\<lambda>_. st_bind (into_leader peer_ids) (\<lambda>_. st_return QuorumReached))
                  else st_return VContinue))
           else st_return VContinue))"

definition observe_tally :: "nat \<Rightarrow> logical_node \<Rightarrow> nat" where
  "observe_tally votes_granted ln =
     (case role ln of Candidate n \<Rightarrow> vote_count (state n) | _ \<Rightarrow> votes_granted)"

definition finish_election :: "nat \<Rightarrow> node_id list \<Rightarrow> unit handler" where
  "finish_election votes_granted peer_ids =
     (if votes_granted \<ge> quorum_size peer_ids then
        st_bind (st_gets (\<lambda>(ln, _). case role ln of Candidate _ \<Rightarrow> True | _ \<Rightarrow> False))
          (\<lambda>is_candidate. if is_candidate then into_leader peer_ids else st_return ())
      else st_return ())"

definition capture_campaign :: "raft_term \<Rightarrow> campaign_params handler" where
  "capture_campaign t =
     st_bind ln_node_id
       (\<lambda>me. st_bind ln_last_log_index
       (\<lambda>li. st_bind ln_last_log_term
       (\<lambda>lt. st_return \<lparr>cp_term = t, cp_node_id = me, cp_last_log_index = li, cp_last_log_term = lt\<rparr>)))"

definition begin_candidacy :: "campaign_params handler" where
  "begin_candidacy =
     st_bind into_candidate (\<lambda>_. st_bind ln_current_term capture_campaign)"

definition pre_vote_won :: "campaign_params handler" where
  "pre_vote_won = st_bind ln_current_term (\<lambda>_. begin_candidacy)"

datatype pre_vote_outcome = PvSteppedDown | PvContinue nat | PvElection campaign_params

definition pre_vote_step_down :: "raft_term \<Rightarrow> 'st + request_vote_response \<Rightarrow> bool handler" where
  "pre_vote_step_down campaign_term res =
     (case res of
        Inl _ \<Rightarrow> st_return False
      | Inr resp \<Rightarrow>
          (if rvr_term resp > campaign_term then
             st_bind ln_current_term
               (\<lambda>current. if rvr_term resp > current
                  then st_bind (into_follower (rvr_term resp) None) (\<lambda>_. st_return True)
                  else st_return False)
           else st_return False))"

definition process_pre_vote_response :: "'st + request_vote_response \<Rightarrow> bool" where
  "process_pre_vote_response res = (case res of Inl _ \<Rightarrow> False | Inr resp \<Rightarrow> rvr_vote_granted resp)"

definition on_pre_vote_response ::
  "raft_term \<Rightarrow> node_id list \<Rightarrow> nat \<Rightarrow> 'st + request_vote_response \<Rightarrow> pre_vote_outcome handler" where
  "on_pre_vote_response campaign_term peer_ids pre_votes res =
     st_bind (pre_vote_step_down campaign_term res)
       (\<lambda>stepped_down. if stepped_down then st_return PvSteppedDown
        else if process_pre_vote_response res then
          (if pre_votes + 1 \<ge> quorum_size peer_ids then st_bind pre_vote_won (\<lambda>p. st_return (PvElection p))
           else st_return (PvContinue (pre_votes + 1)))
        else st_return (PvContinue pre_votes))"

definition finish_pre_vote :: "nat \<Rightarrow> node_id list \<Rightarrow> campaign_params option handler" where
  "finish_pre_vote pre_votes peer_ids =
     (if pre_votes \<ge> quorum_size peer_ids then st_bind pre_vote_won (\<lambda>p. st_return (Some p))
      else st_bind ln_current_term (\<lambda>_. st_return None))"

section \<open>Tick loop\<close>

datatype tick_dispatch =
    DispatchNone
  | DispatchElection campaign_params
  | DispatchPreVote campaign_params
  | DispatchStepDown
  | DispatchReplication replication_round_params
  | DispatchStop

definition should_compact_log :: "64 word \<Rightarrow> bool \<Rightarrow> bool handler" where
  "should_compact_log threshold is_frozen =
     (if is_frozen then st_return False
      else st_bind ln_last_applied
        (\<lambda>applied. st_bind ln_last_included_index
        (\<lambda>last_snap.
           let log_length = (case log_index_sub applied last_snap of Inr i \<Rightarrow> i | Inl _ \<Rightarrow> 0)
           in st_return (log_length > unat threshold))))"

definition dispatch_tick :: "raft_term \<Rightarrow> tick_action \<Rightarrow> tick_dispatch handler" where
  "dispatch_tick t action =
     (case action of
        StartElection \<Rightarrow> st_bind begin_candidacy (\<lambda>p. st_return (DispatchElection p))
      | StartPreVote \<Rightarrow>
          st_bind into_pre_candidate (\<lambda>_. st_bind (capture_campaign t) (\<lambda>p. st_return (DispatchPreVote p)))
      | SendHeartbeat \<Rightarrow>
          st_bind ln_node_id (\<lambda>me. st_bind ln_last_committed
            (\<lambda>lc. st_return (DispatchReplication \<lparr>rr_term = t, rr_node_id = me, rr_last_committed = lc\<rparr>)))
      | StepDown \<Rightarrow> st_return DispatchStepDown
      | Stop \<Rightarrow> st_return DispatchStop
      | NoAction \<Rightarrow> st_return DispatchNone)"

definition tick_section :: "64 word \<Rightarrow> bool \<Rightarrow> ((log_index \<times> raft_term) option \<times> tick_dispatch) handler" where
  "tick_section threshold is_frozen =
     st_bind ln_tick
       (\<lambda>action. st_bind ln_current_term
       (\<lambda>t. st_bind (should_compact_log threshold is_frozen)
       (\<lambda>compact. st_bind
          (if compact then
             st_bind ln_last_applied
               (\<lambda>i. st_bind (ln_get_term_at i) (\<lambda>it. st_return (Some (i, it))))
           else st_return None)
       (\<lambda>compaction. st_bind (dispatch_tick t action)
       (\<lambda>disp. st_bind ln_node_id (\<lambda>_. st_return (compaction, disp)))))))"

definition step_down_section :: "unit handler" where
  "step_down_section = st_bind ln_current_term (\<lambda>current. into_follower current None)"

section \<open>What the sections keep\<close>

lemma engine_node_id: "run_rel engine_le ln_node_id"
  by (auto simp: run_rel_def ln_node_id_def engine.refl split: option.splits)

lemma engine_capture_campaign: "run_rel engine_le (capture_campaign t)"
  unfolding capture_campaign_def by (intro engine_intros engine_node_id)

lemma engine_begin_candidacy: "run_rel engine_le begin_candidacy"
  unfolding begin_candidacy_def by (intro engine_intros engine_capture_campaign)

lemma engine_pre_vote:
  "run_rel engine_le (on_pre_vote_response t ps v res)" "run_rel engine_le (finish_pre_vote v ps)"
  unfolding on_pre_vote_response_def finish_pre_vote_def pre_vote_won_def pre_vote_step_down_def
  by (cases res; simp only: sum.case; intro engine_intros engine_begin_candidacy)
    (intro engine_intros engine_begin_candidacy)

lemma engine_build_request: "run_rel engine_le (build_append_entries_request p t me c)"
  unfolding build_append_entries_request_def
  by (intro engine_intros) (auto split: sum.splits intro!: engine_intros)

lemma engine_determine_strategy: "run_rel engine_le (determine_replication_strategy p params)"
  unfolding run_rel_def
proof
  fix w :: world
  have *: "run_rel engine_le (st_bind ln_last_included_index
            (\<lambda>last_included.
               if get_or (next_index (state n)) p 1 \<le> last_included then
                 st_bind ln_last_included_term (\<lambda>t. st_return (Inr (Some (SInstallSnapshot last_included t))))
               else
                 st_bind (build_append_entries_request p (rr_term params) (rr_node_id params) (rr_last_committed params))
                   (\<lambda>r. st_return (map_ok (\<lambda>req. Some (SAppendEntries req)) r))))" for n :: "leader raft_node"
    by (intro engine_intros engine_build_request)
  show "engine_le w (snd (determine_replication_strategy p params w))"
    using engine_then[OF engine.refl *] by (simp add: determine_replication_strategy_def engine.refl split: role_state.splits)
qed

lemma engine_prepare_replication: "run_rel engine_le (prepare_replication p params)"
  unfolding prepare_replication_def
  by (intro engine_intros engine_determine_strategy) (auto split: sum.splits intro!: engine_intros)

lemma engine_update_commit: "run_rel engine_le update_leader_last_committed"
  unfolding update_leader_last_committed_def Let_def
  by (intro engine_intros) (auto split: role_state.splits intro!: engine_intros)

lemma engine_reconcile_as_leader: "run_rel engine_le (reconcile_as_leader t cur p out)"
  by (auto simp: run_rel_def reconcile_as_leader_def set_role_def engine_le_def role_le_def hs.refl Let_def
      split: role_state.splits sum.splits prod.splits)

lemma engine_process_replication: "run_rel engine_le (process_replication_response t p res)"
proof -
  have *: "run_rel engine_le (case r of
                    Inl e \<Rightarrow> st_return (Inl e)
                  | Inr updated \<Rightarrow>
                      st_bind (if updated then update_leader_last_committed else st_return ())
                        (\<lambda>_. st_return (Inr RContinue)))" for r :: "node_error + bool"
    by (cases r) (auto intro!: engine_intros engine_update_commit)
  show ?thesis
    unfolding process_replication_response_def
    by (auto split: sum.splits option.splits intro!: engine_intros engine_reconcile_as_leader *)
qed

lemma engine_tick_section: "run_rel engine_le (tick_section th fr)"
  unfolding tick_section_def should_compact_log_def dispatch_tick_def Let_def
  by (intro engine_intros engine_node_id)
    (auto split: tick_action.splits intro!: engine_intros engine_node_id engine_begin_candidacy engine_capture_campaign)

lemma engine_step_down_section: "run_rel engine_le step_down_section"
  unfolding step_down_section_def by (intro engine_intros)

end
