(* ===== verification/Raft_Service.thy ===== *)
theory Raft_Service
  imports Consensus
begin

text \<open>
  \<open>crates/raft-engine/src/service/consensus.rs\<close> and the response check of \<open>consensus/rpc.rs\<close>: the gRPC
  methods a node serves to its peers. A request carries the trace id the interceptor put into its
  extensions, if any; a trace id is the 128-bit value of a UUID. The dispatcher compares its identity with the
  engine's by pointer, which the model renders as equality of the shared value.
\<close>

datatype status_code =
    InvalidArgument | FailedPrecondition | Unavailable | Internal | DataLoss | DeadlineExceeded | Unauthenticated | Aborted
  | OtherCode nat

datatype status = Status status_code string

type_synonym trace_id = nat

record 'm request =
  req_trace :: "trace_id option"
  req_inner :: 'm

record 'm response =
  resp_trace :: "trace_id option"
  resp_inner :: 'm

definition require_trace_id :: "'m request \<Rightarrow> status + trace_id" where
  "require_trace_id r =
     ok_or (req_trace r) (Status FailedPrecondition ''Missing TraceId for distributed correlation'')"

definition verify_trace_integrity :: "'m response \<Rightarrow> trace_id \<Rightarrow> status + unit" where
  "verify_trace_integrity r expected =
     (case resp_trace r of
        Some got \<Rightarrow> if got = expected then Inr () else Inl (Status DataLoss ''Causal Integrity Violation'')
      | None \<Rightarrow> Inl (Status DataLoss ''Trace ID Missing in Response''))"

definition parse_sender :: "string \<Rightarrow> status + node_id" where
  "parse_sender s = map_err (\<lambda>_. Status InvalidArgument ''Invalid NodeId'') (node_id_from_str s)"

record vote_params =
  vp_candidate_id :: node_id
  vp_term :: raft_term
  vp_last_log_index :: log_index
  vp_last_log_term :: raft_term

definition vote_params_try_from_proto :: "request_vote_request \<Rightarrow> status + vote_params" where
  "vote_params_try_from_proto r =
     res_bind (parse_sender (rv_candidate_id r))
       (\<lambda>c. Inr \<lparr>vp_candidate_id = c, vp_term = rv_term r, vp_last_log_index = rv_last_log_index r,
                 vp_last_log_term = rv_last_log_term r\<rparr>)"

record append_params =
  ap_leader_id :: node_id
  ap_term :: raft_term
  ap_prev_log_index :: log_index
  ap_prev_log_term :: raft_term
  ap_entries :: "log_entry list"
  ap_leader_commit :: log_index

definition append_params_try_from_proto :: "append_entries_request \<Rightarrow> status + append_params" where
  "append_params_try_from_proto r =
     res_bind (parse_sender (ae_leader_id r))
       (\<lambda>l. Inr \<lparr>ap_leader_id = l, ap_term = ae_term r, ap_prev_log_index = ae_prev_log_index r,
                 ap_prev_log_term = ae_prev_log_term r, ap_entries = ae_entries r,
                 ap_leader_commit = ae_leader_commit r\<rparr>)"

definition verify_node_integrity :: "node_identity \<Rightarrow> unit handler" where
  "verify_node_integrity ident w =
     (case role_identity (role (fst w)) of
        None \<Rightarrow> (Inl HaltPoisoned, w)
      | Some engine_id \<Rightarrow>
          if engine_id = ident then (Inr (), w) else apply_fatal (Integrity ''Identity divergence detected!'') w)"

definition execute_vote_logic :: "node_identity \<Rightarrow> vote_params \<Rightarrow> request_vote_result handler" where
  "execute_vote_logic ident p =
     st_bind (verify_node_integrity ident)
       (\<lambda>_. handle_request_vote (vp_candidate_id p) (vp_term p) (vp_last_log_index p) (vp_last_log_term p))"

definition execute_pre_vote_logic :: "node_identity \<Rightarrow> vote_params \<Rightarrow> request_vote_result handler" where
  "execute_pre_vote_logic ident p =
     st_bind (verify_node_integrity ident)
       (\<lambda>_. handle_pre_vote (vp_candidate_id p) (vp_term p) (vp_last_log_index p) (vp_last_log_term p))"

definition execute_append_logic :: "node_identity \<Rightarrow> append_params \<Rightarrow> append_entries_result handler" where
  "execute_append_logic ident p =
     st_bind (verify_node_integrity ident)
       (\<lambda>_. handle_append_entries (ap_leader_id p) (ap_term p) (ap_prev_log_index p) (ap_prev_log_term p)
              (ap_entries p) (ap_leader_commit p))"

definition with_params ::
  "status + 'p \<Rightarrow> ('p \<Rightarrow> 'r handler) \<Rightarrow> (status + 'r) handler" where
  "with_params p f = (case p of Inl s \<Rightarrow> st_return (Inl s) | Inr a \<Rightarrow> st_bind (f a) (\<lambda>r. st_return (Inr r)))"

definition rpc_request_vote ::
  "node_identity \<Rightarrow> request_vote_request request \<Rightarrow> (status + request_vote_response response) handler" where
  "rpc_request_vote ident req =
     with_params (res_bind (require_trace_id req)
                    (\<lambda>t. map_ok (Pair t) (vote_params_try_from_proto (req_inner req))))
       (\<lambda>(t, p). st_bind (execute_vote_logic ident p)
          (\<lambda>r. st_return \<lparr>resp_trace = Some t,
                          resp_inner = \<lparr>rvr_term = rvs_term r, rvr_vote_granted = vote_granted r\<rparr>\<rparr>))"

definition rpc_pre_vote ::
  "node_identity \<Rightarrow> request_vote_request request \<Rightarrow> (status + request_vote_response response) handler" where
  "rpc_pre_vote ident req =
     with_params (res_bind (require_trace_id req)
                    (\<lambda>t. map_ok (Pair t) (vote_params_try_from_proto (req_inner req))))
       (\<lambda>(t, p). st_bind (execute_pre_vote_logic ident p)
          (\<lambda>r. st_return \<lparr>resp_trace = Some t,
                          resp_inner = \<lparr>rvr_term = rvs_term r, rvr_vote_granted = vote_granted r\<rparr>\<rparr>))"

definition rpc_append_entries ::
  "node_identity \<Rightarrow> append_entries_request request \<Rightarrow> (status + append_entries_response response) handler" where
  "rpc_append_entries ident req =
     with_params (res_bind (require_trace_id req)
                    (\<lambda>t. map_ok (Pair t) (append_params_try_from_proto (req_inner req))))
       (\<lambda>(t, p). st_bind (execute_append_logic ident p)
          (\<lambda>r. st_return \<lparr>resp_trace = Some t,
                          resp_inner = \<lparr>aer_term = aes_term r, aer_success = aes_success r,
                                        aer_last_log_index = conflict_index r\<rparr>\<rparr>))"

lemma engine_verify_integrity: "run_rel engine_le (verify_node_integrity ident)"
  using engine_then[OF engine.refl engine_apply_fatal]
  by (auto simp: run_rel_def verify_node_integrity_def engine.refl split: option.splits)

lemma engine_with_params: "(\<And>a. run_rel engine_le (f a)) \<Longrightarrow> run_rel engine_le (with_params p f)"
  by (cases p) (auto simp: with_params_def intro!: engine_intros)

lemma engine_rpcs:
  "run_rel engine_le (rpc_request_vote ident rq)" "run_rel engine_le (rpc_pre_vote ident rq)"
  "run_rel engine_le (rpc_append_entries ident ra)"
  unfolding rpc_request_vote_def rpc_pre_vote_def rpc_append_entries_def
    execute_vote_logic_def execute_pre_vote_logic_def execute_append_logic_def
  by (rule engine_with_params; auto intro!: engine_intros engine_verify_integrity engine_handle_request_vote
      engine_handle_pre_vote engine_handle_append_entries)+

subsection \<open>A granted vote is on the store\<close>

lemma attempt_grant_vote_True:
  assumes "attempt_grant_vote c t li lt d = (Inr True, d')"
  shows "d' = set_hard_state t (Some c) d" "t = disk_term d"
  using assms
  by (auto simp: attempt_grant_vote_def persist_vote_def node_read_Inr split: sum.splits if_splits
      elim!: st_bind_InrE node_writeE dest!: sled_current_term_Inr save_hard_state_cases)

lemma grant_as_follower_True:
  assumes "grant_as_follower c t li lt w = (Inr True, w')" "valid_node_id c"
  shows "disk_term (snd w') = t" "disk_vote (snd w') = Some c"
proof -
  from assms(1) obtain n where r: "role (fst w) = Follower n"
    by (auto simp: grant_as_follower_def split: role_state.splits)
  obtain res d' where p: "attempt_grant_vote c t li lt (snd w) = (res, d')"
    by (cases "attempt_grant_vote c t li lt (snd w)")
  with assms(1) r have "res = Inr True" "snd w' = d'"
    by (auto simp: grant_as_follower_def run_node_def on_disk_apply or_fatal_def apply_fatal_def
        split: prod.splits sum.splits)
  with attempt_grant_vote_True(1)[of c t li lt "snd w" d'] p assms(2)
  show "disk_term (snd w') = t" "disk_vote (snd w') = Some c"
    by (auto intro: disk_vote_set_hard_state)
qed

lemma ln_current_term_Inr:
  "ln_current_term w = (Inr t, w') \<Longrightarrow> w' = w \<and> t = disk_term (snd w)"
  by (auto simp: ln_current_term_def delegate_read_def apply_fatal_def node_read_Inr
      split: if_splits sum.splits dest: sled_current_term_Inr)

lemma handle_request_vote_granted:
  assumes "handle_request_vote c t li lt w = (Inr r, w')" "vote_granted r" "valid_node_id c"
  shows "disk_term (snd w') = t" "disk_vote (snd w') = Some c" "rvs_term r = t"
proof -
  from assms(1,2) obtain w1 where "grant_as_follower c t li lt w1 = (Inr True, w')" "rvs_term r = disk_term (snd w')"
    by (auto simp: handle_request_vote_def elim!: st_bind_InrE dest!: ln_current_term_Inr)
  with grant_as_follower_True[OF _ assms(3)]
  show "disk_term (snd w') = t" "disk_vote (snd w') = Some c" "rvs_term r = t" by metis+
qed

lemma rpc_request_vote_granted:
  assumes "rpc_request_vote ident req w = (Inr (Inr resp), w')" "rvr_vote_granted (resp_inner resp)"
  shows "\<exists>c. node_id_from_str (rv_candidate_id (req_inner req)) = Inr c
    \<and> disk_term (snd w') = rv_term (req_inner req) \<and> disk_vote (snd w') = Some c
    \<and> rvr_term (resp_inner resp) = rv_term (req_inner req)"
proof -
  from assms(1) obtain tr p where
    tr: "vote_params_try_from_proto (req_inner req) = Inr p" "res_bind (require_trace_id req)
          (\<lambda>t. map_ok (Pair t) (vote_params_try_from_proto (req_inner req))) = Inr (tr, p)"
    by (auto simp: rpc_request_vote_def with_params_def res_bind_Inr_iff map_ok_Inr_iff split: sum.splits)
  then obtain r w1 where h: "handle_request_vote (vp_candidate_id p) (vp_term p) (vp_last_log_index p) (vp_last_log_term p) w1
      = (Inr r, w')" and r: "vote_granted r" "rvr_term (resp_inner resp) = rvs_term r"
    using assms
    by (auto simp: rpc_request_vote_def with_params_def execute_vote_logic_def elim!: st_bind_InrE)
  from tr(1) have p: "node_id_from_str (rv_candidate_id (req_inner req)) = Inr (vp_candidate_id p)"
      "vp_term p = rv_term (req_inner req)"
    by (auto simp: vote_params_try_from_proto_def parse_sender_def res_bind_Inr_iff)
  from handle_request_vote_granted[OF h r(1) node_id_from_str_valid[OF p(1)]] p r(2) show ?thesis by auto
qed

end
