(* ===== verification/Node_Properties.thy ===== *)
theory Node_Properties
  imports Raft_Service
begin

text \<open>
  The Halt Mandate of one node: a handler that panics poisons the node, and a poisoned node stays so; with
  the concrete nodes and stores the witnesses of the later theories run on.
\<close>

section \<open>Concrete states\<close>

definition empty_store :: log_store where
  "empty_store = \<lparr>log_tree = [], meta_hard_state = None, meta_last_committed = None,
     meta_snapshot_index = None, meta_snapshot_term = None, io_fails = (\<lambda>_. False)\<rparr>"

definition sample_identity :: node_identity where
  "sample_identity = \<lparr>cluster_id = ''sample'', node_id = 1\<rparr>"

definition sample_thresholds :: tick_thresholds where
  "sample_thresholds = \<lparr>heartbeat_interval = 5, min_election = 15, max_election = 30\<rparr>"

definition sample_node :: "role_state \<Rightarrow> logical_node" where
  "sample_node r = \<lparr>role = r, current_tick = 0, thresholds = sample_thresholds, rng = (\<lambda>n lo hi. lo)\<rparr>"

definition sample_follower :: "follower raft_node" where
  "sample_follower = \<lparr>identity = sample_identity, last_committed = 0, last_applied = 0, state = new_follower None 0 15\<rparr>"

definition sample_leader :: "leader raft_node" where
  "sample_leader = \<lparr>identity = sample_identity, last_committed = 0, last_applied = 0,
     state = \<lparr>next_index = [(2, 3), (3, 1)], match_index = [(2, 2), (3, 0)], l_last_heartbeat = 0,
              current_read_epoch = 0, confirmed_read_epoch = 0, heartbeat_acks = {}\<rparr>\<rparr>"

definition entry :: "log_index \<Rightarrow> raft_term \<Rightarrow> log_entry" where
  "entry i t = new_log_entry i t []"

definition store_with :: "raft_term \<Rightarrow> log_entry list \<Rightarrow> log_store" where
  "store_with t es = empty_store\<lparr>log_tree := map (\<lambda>e. (e_index e, e)) es,
                                meta_hard_state := Some (new_hard_state t None)\<rparr>"

lemmas sample_defs = empty_store_def sample_identity_def sample_thresholds_def sample_node_def sample_follower_def
  entry_def store_with_def new_log_entry_def new_follower_def

lemma healthy_sample [simp]: "healthy empty_store" "healthy (store_with t es)"
  by (simp_all add: healthy_def empty_store_def store_with_def)

lemma hard_state_ok_sample [simp]: "hard_state_ok empty_store" "is_u64 t \<Longrightarrow> hard_state_ok (store_with t es)"
  by (simp_all add: hard_state_ok_def empty_store_def store_with_def new_hard_state_def)

lemma disk_view_sample [simp]:
  "disk_term empty_store = 0" "disk_vote empty_store = None" "disk_last empty_store = 0"
  "disk_term (store_with t es) = t" "disk_vote (store_with t es) = None"
  "disk_snap empty_store = 0" "disk_snap (store_with t es) = 0"
  by (simp_all add: disk_term_def disk_vote_def disk_last_def disk_physical_def disk_snap_def empty_store_def store_with_def
      new_hard_state_def deserialize_hard_state_def tree_last_def)

section \<open>The Halt Mandate\<close>

text \<open>
  C26 The Halt Mandate: whatever the storage does, a handler that panics leaves the node poisoned
  (\<open>halts_poisoned\<close>). This covers the four RPC handlers, the proposal path, every role change, the
  commit advancement and the snapshot metadata write.
\<close>
theorem halt_mandate:
  "halts_poisoned (handle_append_entries l t pi pt es lc) \<and> halts_poisoned (handle_request_vote c t li lt)
   \<and> halts_poisoned (handle_pre_vote c t li lt) \<and> halts_poisoned (handle_install_snapshot l t pi)
   \<and> halts_poisoned (ln_propose cmd) \<and> halts_poisoned (into_follower t lo) \<and> halts_poisoned into_candidate
   \<and> halts_poisoned into_pre_candidate \<and> halts_poisoned (into_leader ps)
   \<and> halts_poisoned (ln_advance_last_committed li) \<and> halts_poisoned (ln_save_snapshot_metadata li lt)"
  by (intro conjI halts_handlers halts_dispatch halts_role_changes halts_commit)

text \<open>
  A poisoned node stays poisoned and never touches its store again (\<open>poison_le\<close>): no RPC handler,
  proposal, tick, role change or commit advancement revives it, so it can neither vote nor append
  after a fatal error.
\<close>
theorem poison_is_final:
  "run_rel poison_le (handle_append_entries l t pi pt es lc) \<and> run_rel poison_le (handle_request_vote c t li lt)
   \<and> run_rel poison_le (handle_pre_vote c t li lt) \<and> run_rel poison_le (handle_install_snapshot l t pi)
   \<and> run_rel poison_le (ln_propose cmd) \<and> run_rel poison_le ln_tick
   \<and> run_rel poison_le (into_follower t lo) \<and> run_rel poison_le into_candidate \<and> run_rel poison_le into_pre_candidate
   \<and> run_rel poison_le (into_leader ps) \<and> run_rel poison_le (ln_advance_last_committed li)"
  by (intro conjI poison_handlers poison_propose poison_basic)

end
