(* ===== verification/Shell.thy ===== *)
theory Shell
  imports Node_Properties
begin

text \<open>
  \<open>crates/raft-engine/src/shell.rs\<close>: the parts of the consensus shell around the locked node: the
  freeze depth of the state machine, the permits of snapshot transfers, and the guard that publishes the
  node's progress when a critical section ends. A critical section is a handler on the node and its
  store; \<open>with_guard\<close> runs one between the acquisition and the drop of the guard.
\<close>

section \<open>Freeze depth\<close>

datatype freeze_error = FreezeInvariantError string

definition freeze :: "(32 word, freeze_error, unit) proc" where
  "freeze depth =
     (let prev = depth; depth1 = depth + 1
      in if prev = - 1
         then (Inl (FreezeInvariantError ''fsm_freeze_depth overflow (u32::MAX concurrent freezes)''), depth1 - 1)
         else (Inr (), depth1))"

definition thaw :: "(32 word, freeze_error, unit) proc" where
  "thaw depth =
     (let prev = depth; depth1 = depth - 1
      in if prev = 0
         then (Inl (FreezeInvariantError ''fsm_freeze_depth underflow (thaw without matching freeze)''), depth1 + 1)
         else (Inr (), depth1))"

definition is_frozen :: "32 word \<Rightarrow> bool" where
  "is_frozen depth \<longleftrightarrow> depth > 0"

datatype freeze_op = DoFreeze | DoThaw

fun freeze_step :: "freeze_op \<Rightarrow> (32 word, freeze_error, unit) proc" where
  "freeze_step DoFreeze = freeze"
| "freeze_step DoThaw = thaw"

fun freeze_run :: "freeze_op list \<Rightarrow> (32 word, freeze_error, unit) proc" where
  "freeze_run [] = st_return ()"
| "freeze_run (op # ops) = st_bind (freeze_step op) (\<lambda>_. freeze_run ops)"

section \<open>Snapshot permits\<close>

definition try_acquire_snapshot_permit :: "node_id \<Rightarrow> node_id set \<Rightarrow> bool \<times> node_id set" where
  "try_acquire_snapshot_permit peer in_flight =
     (if peer \<in> in_flight then (False, in_flight) else (True, insert peer in_flight))"

definition release_snapshot_permit :: "node_id \<Rightarrow> node_id set \<Rightarrow> node_id set" where
  "release_snapshot_permit peer in_flight = in_flight - {peer}"

section \<open>Mutation guard\<close>

definition poisoned_progress :: "consensus_progress \<Rightarrow> consensus_progress" where
  "poisoned_progress before = before\<lparr>p_role := RPoisoned, leader_hint := None\<rparr>"

definition drop_guard ::
  "bool \<Rightarrow> consensus_progress \<Rightarrow> world \<Rightarrow> consensus_progress \<Rightarrow> consensus_progress \<times> world" where
  "drop_guard panicking before w channel =
     (let w1 = (if panicking then set_role Poisoned w else w);
          after = (if panicking \<or> is_poisoned (fst w1) then poisoned_progress before
                   else case try_consensus_progress w1 of Inr p \<Rightarrow> p | Inl _ \<Rightarrow> before)
      in (if before \<noteq> after then after else channel, w1))"

definition with_guard :: "'a handler \<Rightarrow> (world \<times> consensus_progress, halt, 'a) proc" where
  "with_guard sec = (\<lambda>(w, channel).
     case ln_consensus_progress w of
       (Inl h, w') \<Rightarrow> (Inl h, w', channel)
     | (Inr before, w0) \<Rightarrow>
         (case sec w0 of (r, w') \<Rightarrow>
            (case drop_guard (case r of Inl _ \<Rightarrow> True | Inr _ \<Rightarrow> False) before w' channel of
               (channel', w'') \<Rightarrow> (r, w'', channel'))))"

section \<open>Properties\<close>

text \<open>
  The freeze depth counts: from depth \<open>k\<close>, a run of freezes and thaws in which no prefix thaws below zero
  or freezes above the 32-bit maximum succeeds and ends at \<open>k\<close> plus the freezes minus the thaws, so a
  nested freeze stays in force until its own thaw; a freeze at the maximum and a thaw at zero report an
  error and leave the depth as it was.
\<close>
theorem freeze_depth_counts:
  assumes "\<And>n. int (unat k) + (\<Sum>op \<leftarrow> take n ops. if op = DoFreeze then 1 else - 1) \<in> {0..<2 ^ 32}"
  shows "\<exists>k'. freeze_run ops k = (Inr (), k')
    \<and> int (unat k') = int (unat k) + (\<Sum>op \<leftarrow> ops. if op = DoFreeze then 1 else - 1)
    \<and> (is_frozen k' \<longleftrightarrow> 0 < int (unat k) + (\<Sum>op \<leftarrow> ops. if op = DoFreeze then 1 else - 1))
    \<and> freeze (- 1) = (Inl (FreezeInvariantError ''fsm_freeze_depth overflow (u32::MAX concurrent freezes)''), - 1)
    \<and> thaw 0 = (Inl (FreezeInvariantError ''fsm_freeze_depth underflow (thaw without matching freeze)''), 0)"
proof -
  have "\<exists>k'. freeze_run ops k = (Inr (), k') \<and> int (unat k') = int (unat k) + (\<Sum>op \<leftarrow> ops. if op = DoFreeze then 1 else - 1)"
    using assms
  proof (induction ops arbitrary: k)
    case (Cons op ops)
    have one: "int (unat k) + (if op = DoFreeze then 1 else - 1) \<in> {0..<2 ^ 32}" using Cons.prems[of 1] by simp
    obtain k1 where k1: "freeze_step op k = (Inr (), k1)" "int (unat k1) = int (unat k) + (if op = DoFreeze then 1 else - 1)"
    proof (cases op)
      case DoFreeze
      then have "int (unat k) + 1 < 4294967296" using one by simp
      then have "unat k + 1 < 4294967296" by linarith
      then have u: "unat (k + 1) = unat k + 1" by (simp add: unat_word_ariths)
      then have "k \<noteq> - 1" by auto
      then show thesis using that[of "k + 1"] DoFreeze u by (simp add: freeze_def Let_def)
    next
      case DoThaw
      then have "0 < int (unat k)" using one by simp
      then have p: "0 < unat k" by linarith
      then have "k \<noteq> 0" by auto
      then have "int (unat (k - 1)) = int (unat k) - 1" using p unat_minus_one[of k] by linarith
      then show thesis using that[of "k - 1"] DoThaw \<open>k \<noteq> 0\<close> by (simp add: thaw_def Let_def)
    qed
    have "int (unat k1) + (\<Sum>op \<leftarrow> take n ops. if op = DoFreeze then 1 else - 1) \<in> {0..<2 ^ 32}" for n
      using Cons.prems[of "Suc n"] k1(2) by (simp add: add.assoc)
    from Cons.IH[OF this] k1 show ?case by (auto simp: st_bind_def)
  qed auto
  then obtain k' where "freeze_run ops k = (Inr (), k')"
    "int (unat k') = int (unat k) + (\<Sum>op \<leftarrow> ops. if op = DoFreeze then 1 else - 1)" by blast
  moreover have "is_frozen k' \<longleftrightarrow> 0 < int (unat k')" by (simp only: is_frozen_def word_less_nat_alt unat_0 of_nat_0_less_iff)
  ultimately show ?thesis by (auto simp: freeze_def thaw_def Let_def)
qed

theorem freeze_depth_counts_witness:
  "\<exists>k'. freeze_run [DoFreeze, DoFreeze, DoThaw] 0 = (Inr (), k') \<and> is_frozen k'"
proof -
  have "int (unat (0 :: 32 word)) + (\<Sum>op \<leftarrow> take n [DoFreeze, DoFreeze, DoThaw]. if op = DoFreeze then 1 else - 1) \<in> {0..<2 ^ 32}" for n
    by (cases n; cases "n - 1"; cases "n - 2") (auto simp: take_Cons' split: if_splits)
  from freeze_depth_counts[OF this] show ?thesis by auto
qed

lemma poisoned_progress_role [simp]: "p_role (poisoned_progress b) = RPoisoned"
  by (simp add: poisoned_progress_def)

lemma poisoned_progress_fixed: "b = poisoned_progress b \<Longrightarrow> p_role b = RPoisoned"
  by (metis poisoned_progress_role)

lemma is_poisoned_iff [simp]: "is_poisoned ln \<longleftrightarrow> role ln = Poisoned"
  by (cases "role ln") (simp_all add: is_poisoned_def)

lemma drop_guard_panic:
  "drop_guard True b w ch = (c', w') \<Longrightarrow> ch = b \<Longrightarrow> role (fst w') = Poisoned \<and> p_role c' = RPoisoned"
  by (cases w) (auto simp: drop_guard_def Let_def set_role_def dest: poisoned_progress_fixed split: if_splits)

lemma drop_guard_ok:
  assumes "drop_guard False b w b = (c', w')"
  shows "w' = w \<and> (role (fst w) = Poisoned \<longrightarrow> p_role c' = RPoisoned)
    \<and> (role (fst w) \<noteq> Poisoned \<longrightarrow> try_consensus_progress w = Inr p \<longrightarrow> c' = p)"
  using assms by (auto simp: drop_guard_def Let_def dest: poisoned_progress_fixed split: if_splits)

text \<open>
  Lock-signal atomicity: when a critical section ends, what observers read is what the node is. If the
  channel held the node's progress before, then after a section that returns and whose store can be read it
  holds the progress of the resulting node; a section that panics leaves the node poisoned and the channel
  saying so.
\<close>
theorem guard_publishes:
  assumes "try_consensus_progress w = Inr channel" "with_guard sec (w, channel) = (r, w', channel')"
  shows "(\<forall>h. r = Inl h \<longrightarrow> role (fst w') = Poisoned \<and> p_role channel' = RPoisoned)
    \<and> (\<forall>a p. r = Inr a \<longrightarrow> role (fst w') \<noteq> Poisoned \<longrightarrow> try_consensus_progress w' = Inr p \<longrightarrow> channel' = p)
    \<and> (\<forall>a. r = Inr a \<longrightarrow> role (fst w') = Poisoned \<longrightarrow> p_role channel' = RPoisoned)"
proof -
  obtain q w1 where s: "sec w = (q, w1)" by (cases "sec w")
  have g: "r = q" "drop_guard (case q of Inl _ \<Rightarrow> True | Inr _ \<Rightarrow> False) channel w1 channel = (channel', w')"
    using assms s by (auto simp: with_guard_def ln_consensus_progress_def or_fatal_def split: prod.splits)
  show ?thesis
  proof (cases q)
    case (Inl h)
    with g drop_guard_panic[of channel w1 channel] show ?thesis by simp
  next
    case (Inr a)
    with g drop_guard_ok[of channel w1 channel' w'] show ?thesis by auto
  qed
qed

theorem guard_publishes_witness:
  "\<exists>channel w' channel'. try_consensus_progress (sample_node (Follower sample_follower), empty_store) = Inr channel
     \<and> with_guard (poison :: unit handler) ((sample_node (Follower sample_follower), empty_store), channel) = (Inr (), w', channel')
     \<and> p_role channel' = RPoisoned"
proof -
  let ?w = "(sample_node (Follower sample_follower), empty_store)"
  obtain channel where c: "try_consensus_progress ?w = Inr channel"
    by (simp add: try_consensus_progress_def role_progress_def node_read_def sample_node_def)
  obtain r w' channel' where g: "with_guard (poison :: unit handler) (?w, channel) = (r, w', channel')"
    by (cases "with_guard (poison :: unit handler) (?w, channel)") auto
  moreover from g have "r = Inr ()" "role (fst w') = Poisoned"
    using c by (auto simp: with_guard_def ln_consensus_progress_def or_fatal_def poison_def drop_guard_def set_role_def Let_def split: if_splits)
  ultimately show ?thesis using guard_publishes[OF c g] c by blast
qed

end
