(* ===== verification/Handler_Properties.thy ===== *)
theory Handler_Properties
  imports Node_Properties
begin

text \<open>
  What each RPC handler of a node answers and stores, as equations on a store whose calls succeed:
  the vote, the dry-run vote, the entries of a leader, and a client's proposal.
\<close>

section \<open>Handlers on a healthy store\<close>

text \<open>The store after a message of term \<open>t\<close> was taken into account.\<close>

definition seen_term :: "raft_term \<Rightarrow> log_store \<Rightarrow> log_store" where
  "seen_term t d = (if disk_term d < t then set_hard_state t None d else d)"

lemma seen_term_simps [simp]:
  "healthy (seen_term t d) = healthy d" "disk_entry (seen_term t d) = disk_entry d" "disk_last (seen_term t d) = disk_last d"
  "disk_snap (seen_term t d) = disk_snap d" "log_ok (seen_term t d) = log_ok d"
  "disk_term (seen_term t d) = max t (disk_term d)"
  by (auto simp: seen_term_def max_def)

lemma hard_state_ok_set [simp]: "valid_node_id c \<Longrightarrow> is_u64 t \<Longrightarrow> hard_state_ok (set_hard_state t (Some c) d)"
  by (auto simp: hard_state_ok_def set_hard_state_def serialize_hard_state_def new_hard_state_def)

lemma hard_state_ok_seen [simp]: "hard_state_ok d \<Longrightarrow> is_u64 t \<Longrightarrow> hard_state_ok (seen_term t d)"
  by (simp add: seen_term_def hard_state_ok_def set_hard_state_def serialize_hard_state_def new_hard_state_def)

lemma disk_terms_hard_state [simp]:
  "disk_term_at (set_hard_state t v d) = disk_term_at d" "disk_last_term (set_hard_state t v d) = disk_last_term d"
  "up_to_date lt li (set_hard_state t v d) = up_to_date lt li d"
  by (simp_all add: disk_term_at_def disk_last_term_def up_to_date_def set_hard_state_def disk_entry_def disk_snap_def
      disk_last_def disk_physical_def fun_eq_iff Let_def)

lemma disk_terms_seen [simp]:
  "disk_term_at (seen_term t d) = disk_term_at d" "up_to_date lt li (seen_term t d) = up_to_date lt li d"
  by (simp_all add: seen_term_def)

lemma disk_vote_seen: "disk_vote (seen_term t d) = (if disk_term d < t then None else disk_vote d)"
proof -
  have "disk_vote (set_hard_state t None d) = None" by (rule disk_vote_set_hard_state) simp
  then show ?thesis by (simp add: seen_term_def)
qed

lemma ln_current_term_healthy [simp]:
  "healthy d \<Longrightarrow> hard_state_ok d \<Longrightarrow> role ln \<noteq> Poisoned \<Longrightarrow> ln_current_term (ln, d) = (Inr (disk_term d), ln, d)"
  by (cases "role ln") (simp_all add: ln_current_term_def delegate_read_def is_poisoned_def node_read_def)

lemma advance_term_healthy:
  "healthy d \<Longrightarrow> hard_state_ok d \<Longrightarrow> disk_term d \<le> t \<Longrightarrow> advance_term t d = (Inr (), seen_term t d)"
  by (auto simp: advance_term_def node_read_def seen_term_def st_bind_def)

fun role_commit :: "role_state \<Rightarrow> log_index" where
  "role_commit (Follower n) = last_committed n"
| "role_commit (PreCandidate n) = last_committed n"
| "role_commit (Candidate n) = last_committed n"
| "role_commit (Leader n) = last_committed n"
| "role_commit Poisoned = 0"

lemma into_follower_healthy:
  assumes "healthy d" "hard_state_ok d" "disk_term d \<le> t" "role ln \<noteq> Poisoned"
  shows "\<exists>ln' n. into_follower t lo (ln, d) = (Inr (), ln', seen_term t d) \<and> role ln' = Follower n
    \<and> state n = new_follower lo (current_tick ln) (fst (generate_election_timeout (thresholds ln) (rng ln)))
    \<and> current_tick ln' = current_tick ln \<and> last_committed n = role_commit (role ln)"
  using assms
  by (cases "role ln")
    (auto simp: into_follower_def try_into_follower_def advance_term_healthy install_role_def st_bind_def
      node_transition_def Let_def split: prod.splits)

section \<open>Votes\<close>

text \<open>
  C16 A node grants a vote exactly when the request's term is not behind its own, the candidate's log is
  at least as up to date, and either the term is new or the node is a follower that voted for nobody else
  in it. The reply carries the larger term. A granted vote is on disk before the reply is built; a
  refusal stores at most the newer term. The log is not touched.
\<close>
theorem request_vote_decision:
  assumes "healthy d" "hard_state_ok d" "role ln \<noteq> Poisoned" "is_u64 t" "valid_node_id c"
  shows "\<exists>ln' d'. handle_request_vote c t li lt (ln, d) =
      (Inr \<lparr>rvs_term = max t (disk_term d),
            vote_granted = (disk_term d \<le> t \<and> up_to_date lt li d
              \<and> (disk_term d < t \<or> (\<exists>n. role ln = Follower n) \<and> disk_vote d \<in> {None, Some c}))\<rparr>, ln', d')
    \<and> d' = (if disk_term d \<le> t \<and> up_to_date lt li d
              \<and> (disk_term d < t \<or> (\<exists>n. role ln = Follower n) \<and> disk_vote d \<in> {None, Some c})
            then set_hard_state t (Some c) d else seen_term t d)"
proof (cases "disk_term d < t")
  case True
  obtain ln1 n1 where f: "into_follower t None (ln, d) = (Inr (), ln1, seen_term t d)" "role ln1 = Follower n1"
    using into_follower_healthy[of d t ln None] assms True by auto
  have "set_hard_state t v (seen_term t d) = set_hard_state t v d" for v
    by (simp add: seen_term_def set_hard_state_def)
  then show ?thesis using True assms f
    by (auto simp: handle_request_vote_def st_bind_def grant_as_follower_def run_node_def on_disk_apply or_fatal_def
        attempt_grant_vote_healthy disk_vote_seen Let_def)
next
  case False
  then show ?thesis using assms
    by (cases "role ln")
      (auto simp: handle_request_vote_def st_bind_def grant_as_follower_def run_node_def on_disk_apply or_fatal_def
        attempt_grant_vote_healthy seen_term_def Let_def)
qed

theorem request_vote_decision_witness:
  "\<exists>ln' d'. handle_request_vote 2 3 1 1 (sample_node (Follower sample_follower), store_with 2 [entry 1 1]) =
      (Inr \<lparr>rvs_term = 3, vote_granted = True\<rparr>, ln', d') \<and> disk_vote d' = Some 2"
proof -
  let ?d = "store_with 2 [entry 1 1]"
  have u: "up_to_date 1 1 ?d"
    by (simp add: up_to_date_def disk_last_term_def disk_last_def disk_physical_def disk_snap_def tree_last_def sample_defs)
  have small: "is_u64 2" "is_u64 3" "valid_node_id 2"
    by (simp_all add: is_u64_def u64_bound_def valid_node_id_def)
  from request_vote_decision[of ?d "sample_node (Follower sample_follower)" 3 2 1 1] u small show ?thesis
    by (auto simp: sample_node_def)
qed

text \<open>
  A pre-vote is a dry run. On a healthy store a follower answers yes exactly when the request's term is
  not behind and the candidate's log is at least as up to date, every other role answers no, the reply
  carries the node's own term, and neither the node nor its store changes.
\<close>
theorem pre_vote_dry_run:
  assumes "healthy d" "hard_state_ok d" "role ln \<noteq> Poisoned"
  shows "handle_pre_vote c t li lt (ln, d) =
    (Inr \<lparr>rvs_term = disk_term d,
          vote_granted = ((\<exists>n. role ln = Follower n) \<and> disk_term d \<le> t \<and> up_to_date lt li d)\<rparr>, ln, d)"
  using assms
  by (cases "role ln")
    (auto simp: handle_pre_vote_def st_bind_def pre_grant_as_follower_def or_fatal_def grant_pre_vote_healthy)

theorem pre_vote_dry_run_witness:
  "handle_pre_vote 2 1 5 1 (sample_node (Follower sample_follower), store_with 2 [entry 1 1]) =
    (Inr \<lparr>rvs_term = 2, vote_granted = False\<rparr>, sample_node (Follower sample_follower), store_with 2 [entry 1 1])"
  using pre_vote_dry_run[of "store_with 2 [entry 1 1]" "sample_node (Follower sample_follower)" 2 1 5 1]
  by (simp add: sample_node_def is_u64_def u64_bound_def)

text \<open>
  Whatever the storage does, a pre-vote request never writes: the store after the handler is the store
  before it, and the node itself changes only by being poisoned when a read fails.
\<close>
theorem pre_vote_never_writes:
  "snd (snd (handle_pre_vote c t li lt w)) = snd w
   \<and> fst (snd (handle_pre_vote c t li lt w)) \<in> {fst w, (fst w)\<lparr>role := Poisoned\<rparr>}"
  by (cases w; cases "role (fst w)")
    (auto simp: handle_pre_vote_def ln_current_term_def delegate_read_def st_bind_def pre_grant_as_follower_def or_fatal_def
      apply_fatal_def set_role_def is_poisoned_def st_return_def split: sum.splits prod.splits role_state.splits)

section \<open>Entries of a leader\<close>

lemma validate_leader_healthy:
  assumes "healthy d" "hard_state_ok d" "is_u64 t" "disk_term d \<le> t" "role ln \<noteq> Poisoned"
    and "(\<exists>n. role ln = Leader n) \<longrightarrow> disk_term d < t"
  shows "\<exists>ln' n. validate_leader_rpc_term t l (ln, d) = (Inr TermValid, ln', seen_term t d) \<and> role ln' = Follower n
    \<and> leader_id (state n) = Some l \<and> current_tick ln' = current_tick ln \<and> last_committed n = role_commit (role ln)"
proof (cases "disk_term d < t \<or> (\<exists>n. role ln = Candidate n) \<or> (\<exists>n. role ln = PreCandidate n)")
  case True
  obtain ln1 n1 where "into_follower t (Some l) (ln, d) = (Inr (), ln1, seen_term t d)" "role ln1 = Follower n1"
    "leader_id (state n1) = Some l" "current_tick ln1 = current_tick ln" "last_committed n1 = role_commit (role ln)"
    using into_follower_healthy[OF assms(1,2,4,5), of "Some l"] by (auto simp: new_follower_def)
  then show ?thesis using True assms
    by (auto simp: validate_leader_rpc_term_def st_bind_def recognise_leader_def)
next
  case False
  then obtain n where "role ln = Follower n" "disk_term d = t" using assms(4-6) by (cases "role ln") auto
  then show ?thesis using assms
    by (simp add: validate_leader_rpc_term_def st_bind_def recognise_leader_def set_role_def seen_term_def)
qed

definition stores_request :: "log_store \<Rightarrow> log_index \<Rightarrow> log_entry list \<Rightarrow> log_store \<Rightarrow> bool" where
  "stores_request d prev es d' \<longleftrightarrow>
     log_ok d' \<and> prev + length es \<le> disk_last d'
     \<and> (\<forall>i < length es. disk_snap d < Suc (prev + i) \<longrightarrow>
          disk_entry d' (Suc (prev + i)) =
            (if keeps_own d prev es i then disk_entry d (Suc (prev + i)) else Some (es ! i))
          \<and> (\<exists>e. disk_entry d' (Suc (prev + i)) = Some e \<and> e_term e = e_term (es ! i)))
     \<and> (\<forall>k \<le> prev. disk_entry d' k = disk_entry d k)
     \<and> (\<forall>k > prev + length es. disk_entry d' k = (if \<exists>e \<in> set es. conflicts d e then None else disk_entry d k))
     \<and> ((\<forall>e \<in> set es. \<not> conflicts d e) \<longrightarrow> (\<forall>k e. disk_entry d k = Some e \<longrightarrow> disk_entry d' k = Some e))"

lemma reconcile_log_accepts:
  assumes "consistent_append d prev pt es"
  shows "\<exists>d'. reconcile_log prev pt es lc (n, d) =
      (Inr (reconciled True (disk_last d')),
       n\<lparr>last_committed := (if lc > last_committed n then min lc (disk_last d') else last_committed n)\<rparr>, d')
    \<and> healthy d' \<and> meta_hard_state d' = meta_hard_state d \<and> stores_request d prev es d'"
proof -
  let ?d2 = "reconciled_log prev es d"
  let ?c = "reconciled_commit (last_committed n) lc (disk_last ?d2)"
  let ?d' = "if lc > last_committed n then ?d2\<lparr>meta_last_committed := Some ?c\<rparr> else ?d2"
  have v: "disk_last ?d' = disk_last ?d2" "log_ok ?d' = log_ok ?d2" "disk_entry ?d' = disk_entry ?d2"
    "meta_hard_state ?d' = meta_hard_state d" "healthy ?d' = healthy d" by (simp_all add: reconciled_log_eq)
  have "stores_request d prev es ?d'"
    unfolding stores_request_def v(1-3)
  proof (intro conjI allI impI)
    show "disk_entry ?d2 k = (if \<exists>e \<in> set es. conflicts d e then None else disk_entry d k)" if "prev + length es < k" for k
      by (rule beyond_request[OF assms that])
  qed (use entries_stored[OF assms] prefix_kept[OF assms] no_conflict_extends[OF assms] log_ok_reconciled[OF assms]
      disk_last_reconciled[OF assms] in simp_all)
  then show ?thesis
    by (intro exI[of _ ?d'] conjI; (simp only: v)?)
      (use consistent_appendD(1)[OF assms] in \<open>simp_all add: reconcile_log_healthy[OF assms] Let_def reconciled_commit_def\<close>)
qed

lemma reconcile_log_rejects:
  assumes "healthy d" and "\<not> log_matches prev pt d"
  shows "reconcile_log prev pt es lc (n, d) = (Inr (reconciled False (disk_last d)), n, d)"
  using assms by (simp add: reconcile_log_def Let_def node_read_def)

lemma seen_term_views [simp]:
  "conflicts (seen_term t d) = conflicts d" "log_matches i pt (seen_term t d) = log_matches i pt d"
  "keeps_own (seen_term t d) = keeps_own d" "disk_entry (seen_term t d) = disk_entry d"
  by (auto simp: conflicts_def log_matches_def keeps_own_def fun_eq_iff)

lemma consistent_append_seen: "consistent_append d prev pt es \<Longrightarrow> consistent_append (seen_term t d) prev pt es"
  by (simp add: consistent_append_def)

lemma reset_heartbeat_follower:
  "role ln = Follower n \<Longrightarrow> reset_heartbeat (ln, d) =
     (Inr (), ln\<lparr>role := Follower (n\<lparr>state := (state n)\<lparr>f_last_heartbeat := current_tick ln\<rparr>\<rparr>)\<rparr>, d)"
  by (simp add: reset_heartbeat_def)

lemma term_view: "meta_hard_state d' = meta_hard_state d \<Longrightarrow> disk_term d' = disk_term d"
  "meta_hard_state d' = meta_hard_state d \<Longrightarrow> hard_state_ok d' = hard_state_ok d"
  by (simp_all add: disk_term_def hard_state_ok_def)

definition sample_store :: "raft_term \<Rightarrow> log_store" where
  "sample_store t = store_with t [entry 1 1, entry 2 1]"

lemma sample_store_views [simp]:
  "disk_last (sample_store t) = 2" "healthy (sample_store t)" "is_u64 t \<Longrightarrow> hard_state_ok (sample_store t)"
  "disk_term (sample_store t) = t" "disk_vote (sample_store t) = None" "disk_snap (sample_store t) = 0"
  unfolding sample_store_def
  by (simp_all add: disk_last_def disk_physical_def disk_snap_def tree_last_def sample_defs healthy_def)
    (simp_all add: disk_vote_def hard_state_ok_def new_hard_state_def deserialize_hard_state_def disk_term_def)

lemma sample_term_at: "disk_term_at (sample_store t) i = (if i \<in> {1, 2} then 1 else 0)"
  by (simp add: disk_term_at_def sample_store_def disk_snap_def disk_entry_def tree_get_def sample_defs)

lemma sample_log_ok [simp]: "log_ok (sample_store t)"
proof -
  have "is_u64 0" "is_u64 (Suc 0)" "is_u64 (Suc (Suc 0))" by (simp_all add: is_u64_def u64_bound_def)
  with sample_store_views(1,6)[of t] show ?thesis
    by (simp add: log_ok_def incl_range_def disk_entry_def tree_get_def tree_ok_def sample_store_def sample_defs numeral_2_eq_2)
qed

text \<open>
  C4 AppendEntries from a leader of a term that is not behind, on a follower, pre-candidate or candidate (or
  on a leader of an older term) whose log holds the entry before the request's entries: the node is a
  follower of that leader with a fresh heartbeat, its term is the request's, the reply is a success with
  the end of the log, and the log holds the request: at every index of the request beyond the snapshot
  stands the request's own entry, payload included, unless the follower had an entry there and no entry
  of the request up to it conflicts in term, in which case that entry, of the same term, is kept as it
  is. The log up to the previous index is unchanged, what lies beyond the request is removed exactly when
  an entry of the request conflicts, the log has no hole, and the commit index is the leader's, capped by
  the end of the log.
\<close>
theorem append_entries_accepted:
  assumes "hard_state_ok d" "is_u64 t" "disk_term d \<le> t" "role ln \<noteq> Poisoned"
    and "(\<exists>n. role ln = Leader n) \<longrightarrow> disk_term d < t"
    and "consistent_append d prev pt es"
  shows "\<exists>ln' n' d'. handle_append_entries l t prev pt es lc (ln, d) = (Inr (append_success t (disk_last d')), ln', d')
    \<and> role ln' = Follower n' \<and> leader_id (state n') = Some l \<and> f_last_heartbeat (state n') = current_tick ln
    \<and> disk_term d' = t \<and> stores_request d prev es d'
    \<and> last_committed n' = (if lc > role_commit (role ln) then min lc (disk_last d') else role_commit (role ln))"
proof -
  note h = consistent_appendD(1)[OF assms(6)]
  obtain ln1 n1 where v: "validate_leader_rpc_term t l (ln, d) = (Inr TermValid, ln1, seen_term t d)" "role ln1 = Follower n1"
    "leader_id (state n1) = Some l" "current_tick ln1 = current_tick ln" "last_committed n1 = role_commit (role ln)"
    using validate_leader_healthy[OF h assms(1-5)] by blast
  define n2 where "n2 = n1\<lparr>state := (state n1)\<lparr>f_last_heartbeat := current_tick ln1\<rparr>\<rparr>"
  obtain d' where r: "reconcile_log prev pt es lc (n2, seen_term t d) = (Inr (reconciled True (disk_last d')),
       n2\<lparr>last_committed := (if lc > last_committed n2 then min lc (disk_last d') else last_committed n2)\<rparr>, d')"
    "healthy d'" "meta_hard_state d' = meta_hard_state (seen_term t d)" "stores_request (seen_term t d) prev es d'"
    using reconcile_log_accepts[OF consistent_append_seen[OF assms(6)]] by blast
  have t: "disk_term d' = t" "hard_state_ok d'"
    using assms(1-3) term_view[OF r(3)] by (simp_all add: max_def)
  have s: "stores_request d prev es d'" using r(4) unfolding stores_request_def seen_term_views seen_term_simps .
  let ?n3 = "n2\<lparr>last_committed := (if lc > last_committed n2 then min lc (disk_last d') else last_committed n2)\<rparr>"
  have "handle_append_entries l t prev pt es lc (ln, d) = (Inr (append_success t (disk_last d')), ln1\<lparr>role := Follower ?n3\<rparr>, d')"
    using h assms(1,4) r(2) t
    by (simp add: handle_append_entries_def st_bind_def v(1,2) reset_heartbeat_follower reconcile_as_follower_def
        run_node_def r(1) n2_def[symmetric] or_fatal_def reconciled_def)
  then show ?thesis
    by (intro exI[of _ "ln1\<lparr>role := Follower ?n3\<rparr>"] exI[of _ ?n3] exI[of _ d'] conjI) (use v(3-5) t s in \<open>simp_all add: n2_def\<close>)
qed

theorem append_entries_accepted_witness:
  "\<exists>ln' n' d'. handle_append_entries 3 2 1 1 [entry 2 2] 2 (sample_node (Follower sample_follower), sample_store 2)
     = (Inr (append_success 2 (disk_last d')), ln', d') \<and> role ln' = Follower n' \<and> leader_id (state n') = Some 3
     \<and> disk_entry d' 1 = Some (entry 1 1) \<and> disk_entry d' 2 = Some (entry 2 2)"
proof -
  let ?d = "sample_store 2"
  have "log_matches 1 1 ?d" by (simp add: log_matches_def sample_term_at)
  moreover have "consecutive (Suc 1) [entry 2 2]" by (simp add: consecutive_def sample_defs)
  ultimately have c: "consistent_append ?d 1 1 [entry 2 2]"
    by (simp add: consistent_append_def is_u64_def u64_bound_def entry_def new_log_entry_def)
  have pre: "hard_state_ok ?d" "is_u64 2" "role (sample_node (Follower sample_follower)) = Follower sample_follower"
    by (simp_all add: is_u64_def u64_bound_def sample_node_def)
  obtain ln' n' d' where
    r: "handle_append_entries 3 2 1 1 [entry 2 2] 2 (sample_node (Follower sample_follower), ?d)
          = (Inr (append_success 2 (disk_last d')), ln', d')" "role ln' = Follower n'" "leader_id (state n') = Some 3"
    and s: "stores_request ?d 1 [entry 2 2] d'"
    using append_entries_accepted[OF pre(1,2) _ _ _ c, of "sample_node (Follower sample_follower)" 3 2] pre(3) by auto
  have "conflicts ?d (entry 2 2)" by (simp add: conflicts_def sample_term_at entry_def new_log_entry_def)
  then have "\<not> keeps_own ?d 1 [entry 2 2] 0" by (simp add: keeps_own_def)
  then have "disk_entry d' 2 = Some (entry 2 2)" using s by (simp add: stores_request_def numeral_2_eq_2)
  moreover have "disk_entry d' 1 = Some (entry 1 1)"
    using s by (simp add: stores_request_def disk_entry_def tree_get_def sample_store_def sample_defs)
  ultimately show ?thesis using r by blast
qed

text \<open>
  AppendEntries is refused without touching the log in two cases. A request of an older term gets the
  node's own term and changes nothing at all. A request whose previous entry the log does not hold gets
  the end of the log, and stores nothing but the newer term.
\<close>
theorem append_entries_refused:
  assumes "healthy d" "hard_state_ok d" "is_u64 t" "role ln \<noteq> Poisoned"
    and "(\<exists>n. role ln = Leader n) \<longrightarrow> disk_term d \<noteq> t"
  shows "(t < disk_term d \<longrightarrow>
            handle_append_entries l t prev pt es lc (ln, d) = (Inr (stale_term (disk_term d)), ln, d))
    \<and> (disk_term d \<le> t \<and> \<not> log_matches prev pt d \<longrightarrow>
        (\<exists>ln' n'. handle_append_entries l t prev pt es lc (ln, d) = (Inr (inconsistent t (disk_last d)), ln', seen_term t d)
           \<and> role ln' = Follower n' \<and> last_committed n' = role_commit (role ln)))"
proof (intro conjI impI)
  show "handle_append_entries l t prev pt es lc (ln, d) = (Inr (stale_term (disk_term d)), ln, d)" if "t < disk_term d"
    using assms that by (simp add: handle_append_entries_def validate_leader_rpc_term_def st_bind_def)
next
  assume m: "disk_term d \<le> t \<and> \<not> log_matches prev pt d"
  obtain ln1 n1 where v: "validate_leader_rpc_term t l (ln, d) = (Inr TermValid, ln1, seen_term t d)" "role ln1 = Follower n1"
    "last_committed n1 = role_commit (role ln)"
    using validate_leader_healthy[of d t ln l] assms m by fastforce
  show "\<exists>ln' n'. handle_append_entries l t prev pt es lc (ln, d) = (Inr (inconsistent t (disk_last d)), ln', seen_term t d)
           \<and> role ln' = Follower n' \<and> last_committed n' = role_commit (role ln)"
    using assms m v max_absorb1[of "disk_term d" t]
    by (simp add: handle_append_entries_def st_bind_def reset_heartbeat_follower reconcile_as_follower_def run_node_def
        reconcile_log_rejects or_fatal_def reconciled_def)
qed

theorem append_entries_refused_witness:
  "handle_append_entries 3 1 0 0 [] 0 (sample_node (Follower sample_follower), store_with 2 [entry 1 1])
     = (Inr (stale_term 2), sample_node (Follower sample_follower), store_with 2 [entry 1 1])"
  using append_entries_refused[of "store_with 2 [entry 1 1]" 1 "sample_node (Follower sample_follower)" 3 0 0 "[]" 0]
  by (simp add: sample_node_def is_u64_def u64_bound_def)

section \<open>Proposals\<close>

lemma ln_propose_leader:
  assumes "healthy d" "hard_state_ok d" "is_u64 (Suc (disk_last d))" "role ln = Leader n"
  shows "ln_propose cmd (ln, d) =
    (Inr (Inr (Suc (disk_last d))), ln, set_log (entry_batch [new_log_entry (Suc (disk_last d)) (disk_term d) cmd]) d)"
proof -
  let ?d' = "set_log (entry_batch [new_log_entry (Suc (disk_last d)) (disk_term d) cmd]) d"
  have p: "leader_propose cmd d = (Inr (Suc (disk_last d)), ?d')"
    using assms(1-3)
    by (simp add: leader_propose_def st_bind_def node_read_def log_index_add_def checked_add_u64_def is_u64_def)
  have ok: "hard_state_ok ?d'" using assms(2) by (simp add: hard_state_ok_def)
  show ?thesis
    using assms(1,4) ok by (simp add: ln_propose_def run_node_def on_disk_apply p or_fatal_def st_bind_def)
qed

text \<open>
  A proposal on a leader appends exactly one entry, carrying the command and the leader's term, right after
  the end of the log; the rest of the log, the term and the vote stay, and the log has no hole. On any
  other role it reports that the node is not the leader, hinting at the node it voted for, and changes
  nothing.
\<close>
theorem propose_appends:
  assumes "healthy d" "hard_state_ok d" "log_ok d" "role ln \<noteq> Poisoned"
    and "is_u64 (Suc (disk_last d))" "0 < disk_term d"
  shows "if (\<exists>n. role ln = Leader n)
    then \<exists>d'. ln_propose cmd (ln, d) = (Inr (Inr (Suc (disk_last d))), ln, d') \<and> log_ok d'
      \<and> disk_last d' = Suc (disk_last d) \<and> meta_hard_state d' = meta_hard_state d
      \<and> disk_entry d' = (disk_entry d)(Suc (disk_last d) \<mapsto> new_log_entry (Suc (disk_last d)) (disk_term d) cmd)
    else ln_propose cmd (ln, d) = (Inr (Inl (NotLeader (disk_vote d))), ln, d)"
proof (cases "\<exists>n. role ln = Leader n")
  case True
  then obtain n where n: "role ln = Leader n" by blast
  let ?e = "new_log_entry (Suc (disk_last d)) (disk_term d) cmd"
  let ?d' = "set_log (entry_batch [?e]) d"
  have c: "consecutive (Suc (disk_last d)) [?e]" by (simp add: consecutive_def new_log_entry_def)
  have "ln_propose cmd (ln, d) = (Inr (Inr (Suc (disk_last d))), ln, ?d')"
    by (rule ln_propose_leader[OF assms(1,2,5) n])
  moreover have "log_ok ?d'" using log_ok_append_log[OF assms(3) c] assms(5,6) by (simp add: new_log_entry_def)
  moreover have "disk_last ?d' = Suc (disk_last d)" using disk_last_append_log[OF assms(3) c] by simp
  moreover have "disk_entry ?d' = (disk_entry d)(Suc (disk_last d) \<mapsto> ?e)"
    by (auto simp: fun_eq_iff disk_entry_append_log[OF assms(3) c])
  ultimately show ?thesis using True by auto
next
  case False
  with assms show ?thesis
    by (cases "role ln") (auto simp: ln_propose_def ln_voted_for_def delegate_read_def is_poisoned_def node_read_def st_bind_def)
qed

theorem propose_appends_witness:
  "\<exists>d'. ln_propose [7] (sample_node (Leader sample_leader), sample_store 1)
     = (Inr (Inr 3), sample_node (Leader sample_leader), d') \<and> disk_entry d' 3 = Some (new_log_entry 3 1 [7])"
  using propose_appends[of "sample_store 1" "sample_node (Leader sample_leader)" "[7]"]
  by (auto simp: sample_node_def is_u64_def u64_bound_def)

end
