(* ===== verification/Raft_Handle.thy ===== *)
theory Raft_Handle
  imports Shell Handler_Properties
begin

text \<open>
  \<open>crates/raft-engine/src/service/handle.rs\<close>, \<open>consensus_api.rs\<close> and the quorum read of \<open>orchestration.rs\<close>: the
  handle through which the gateway uses the consensus engine.
  A method that holds the write lock is a handler on the node and its store. A method that waits on the
  progress channel is a function of the value it reads first and of the list of values it is woken with
  afterwards; a wait that is still pending at the end of that list is \<open>None\<close> or the method's own
  timeout, and the flag \<open>closed\<close> says that the sender was dropped there.
\<close>

section \<open>Redirection\<close>

record consensus_authority =
  is_leader :: bool
  auth_poisoned :: bool
  auth_last_committed :: log_index
  auth_leader_hint :: string
  rejection_reason :: string

text \<open>The addresses of \<open>PeerManager\<close>, which refuses an identifier it does not know.\<close>

type_synonym peer_map = "node_id \<rightharpoonup> string"

definition get_address :: "peer_map \<Rightarrow> node_id \<Rightarrow> string option" where
  "get_address peers n = peers n"

definition follower_redirection :: "peer_map \<Rightarrow> node_id option \<Rightarrow> string \<times> string" where
  "follower_redirection peers l =
     (case l of
        Some n \<Rightarrow>
          (case get_address peers n of
             Some addr \<Rightarrow> (addr, ''Node is a Follower. Retry with Leader at NodeID '' @ node_id_to_string n @ ''.'')
           | None \<Rightarrow> ([], ''Follower of '' @ node_id_to_string n @ '', but address is missing.''))
      | None \<Rightarrow> ([], ''Node is a Follower; leader is unknown.''))"

fun calculate_redirection :: "peer_map \<Rightarrow> node_role \<Rightarrow> node_id option \<Rightarrow> string \<times> string" where
  "calculate_redirection peers RFollower hint = follower_redirection peers hint"
| "calculate_redirection peers RPreCandidate hint = ([], ''Pre-election in progress. No leader established.'')"
| "calculate_redirection peers RCandidate hint = ([], ''Election in progress. No leader established.'')"
| "calculate_redirection peers RLeader hint = ([], [])"
| "calculate_redirection peers RPoisoned hint = ([], ''Node is in a poisoned state.'')"

definition authority :: "peer_map \<Rightarrow> consensus_progress \<Rightarrow> consensus_authority" where
  "authority peers progress =
     (case calculate_redirection peers (p_role progress) (leader_hint progress) of
        (hint, reason) \<Rightarrow>
          \<lparr>is_leader = (p_role progress = RLeader), auth_poisoned = (p_role progress = RPoisoned),
           auth_last_committed = p_last_committed progress, auth_leader_hint = hint, rejection_reason = reason\<rparr>)"

section \<open>Proposing and waiting\<close>

definition handle_propose :: "bytes \<Rightarrow> (consensus_error + log_index) handler" where
  "handle_propose data =
     st_bind (ln_propose data)
       (\<lambda>r. st_return (map_err (\<lambda>e. case e of NotLeader _ \<Rightarrow> CNotLeader | _ \<Rightarrow> CInternal ''Failed to propose mutation'') r))"

fun await_commit ::
  "log_index \<Rightarrow> bool \<Rightarrow> consensus_progress \<Rightarrow> consensus_progress list \<Rightarrow> (consensus_error + unit) option" where
  "await_commit i closed progress changes =
     (case p_role progress of
        RLeader \<Rightarrow>
          if p_last_committed progress \<ge> i then Some (Inr ())
          else (case changes of
                  [] \<Rightarrow> if closed then Some (Inl Terminated) else None
                | p # ps \<Rightarrow> await_commit i closed p ps)
      | RPoisoned \<Rightarrow> Some (Inl CPoisoned)
      | _ \<Rightarrow> Some (Inl CNotLeader))"

fun await_apply ::
  "log_index \<Rightarrow> bool \<Rightarrow> consensus_progress \<Rightarrow> consensus_progress list \<Rightarrow> (consensus_error + unit) option" where
  "await_apply i closed progress changes =
     (if p_role progress = RPoisoned then Some (Inl CPoisoned)
      else if p_last_applied progress \<ge> i then Some (Inr ())
      else (case changes of
              [] \<Rightarrow> if closed then Some (Inl Terminated) else None
            | p # ps \<Rightarrow> await_apply i closed p ps))"

declare await_commit.simps [simp del] await_apply.simps [simp del]

section \<open>Quorum read\<close>

record read_probe =
  rp_target_epoch :: "64 word"
  rp_in_flight :: bool
  rp_term :: raft_term
  rp_node_id :: node_id
  rp_last_committed :: log_index

definition leadership_probe :: "(consensus_error + read_probe) handler" where
  "leadership_probe w =
     (case role (fst w) of
        Poisoned \<Rightarrow> (Inr (Inl CPoisoned), w)
      | Leader n \<Rightarrow>
          (case node_read sled_current_term (snd w) of
             Inl _ \<Rightarrow> (Inr (Inl (CInternal ''Leadership verification failed'')), w)
           | Inr t \<Rightarrow>
               (let self_id = node_id (identity n);
                    current = current_read_epoch (state n);
                    (target, l) = prepare_read_probe self_id (state n)
                in (Inr (Inr \<lparr>rp_target_epoch = target, rp_in_flight = (target = current), rp_term = t,
                              rp_node_id = self_id, rp_last_committed = last_committed n\<rparr>),
                    set_role (Leader (n\<lparr>state := l\<rparr>)) w)))
      | _ \<Rightarrow> (Inr (Inl CNotLeader), w))"

fun await_read_quorum ::
  "64 word \<Rightarrow> raft_term \<Rightarrow> consensus_progress \<Rightarrow> consensus_progress list \<Rightarrow> consensus_error + unit" where
  "await_read_quorum target t progress changes =
     (if p_role progress \<noteq> RLeader \<or> p_term progress \<noteq> t then Inl CNotLeader
      else if p_confirmed_read_epoch progress \<ge> target then Inr ()
      else (case changes of [] \<Rightarrow> Inl CTimeout | p # ps \<Rightarrow> await_read_quorum target t p ps))"

declare await_read_quorum.simps [simp del]

section \<open>Properties of waiting\<close>

text \<open>
  What the waits answer: the commit wait succeeds at the first value in which the node leads and has
  committed the index, and until then the node led without it.
\<close>

lemma await_commit_Ok_iff:
  "await_commit i closed p ps = Some (Inr ()) \<longleftrightarrow>
     (\<exists>k \<le> length ps. p_role ((p # ps) ! k) = RLeader \<and> i \<le> p_last_committed ((p # ps) ! k)
        \<and> (\<forall>j < k. p_role ((p # ps) ! j) = RLeader))"
proof (induction ps arbitrary: p)
  case Nil
  show ?case by (subst await_commit.simps) (auto split: node_role.splits)
next
  case (Cons q qs)
  have ex: "(\<exists>k \<le> length (q # qs). P k) \<longleftrightarrow> P 0 \<or> (\<exists>k \<le> length qs. P (Suc k))" for P
    by (metis Suc_le_mono le0 length_Cons nat.exhaust)
  show ?case
    by (subst await_commit.simps, subst ex, cases "p_role p") (simp_all add: Cons.IH All_less_Suc2)
qed

lemma await_apply_Ok_iff:
  "await_apply i closed p ps = Some (Inr ()) \<longleftrightarrow>
     (\<exists>k \<le> length ps. p_role ((p # ps) ! k) \<noteq> RPoisoned \<and> i \<le> p_last_applied ((p # ps) ! k)
        \<and> (\<forall>j < k. p_role ((p # ps) ! j) \<noteq> RPoisoned))"
proof (induction ps arbitrary: p)
  case Nil
  show ?case by (subst await_apply.simps) auto
next
  case (Cons q qs)
  have ex: "(\<exists>k \<le> length (q # qs). P k) \<longleftrightarrow> P 0 \<or> (\<exists>k \<le> length qs. P (Suc k))" for P
    by (metis Suc_le_mono le0 length_Cons nat.exhaust)
  show ?case
    by (subst await_apply.simps, subst ex) (auto simp: Cons.IH All_less_Suc2)
qed

section \<open>Quorum reads need a majority\<close>

fun ack_states :: "nat \<Rightarrow> node_id list \<Rightarrow> leader \<Rightarrow> leader list" where
  "ack_states q [] l = []"
| "ack_states q (p # ps) l = (let l' = acknowledge_heartbeat p q l in l' # ack_states q ps l')"

text \<open>The observer sees the leader's record at term \<open>t\<close>, or sees that the node no longer leads in that term.\<close>

definition shows_leader :: "raft_term \<Rightarrow> leader \<Rightarrow> consensus_progress \<Rightarrow> bool" where
  "shows_leader t l p \<longleftrightarrow> p_role p = RLeader \<and> p_term p = t \<and> p_confirmed_read_epoch p = confirmed_read_epoch l"

definition shows_demotion :: "raft_term \<Rightarrow> consensus_progress \<Rightarrow> bool" where
  "shows_demotion t p \<longleftrightarrow> p_role p \<noteq> RLeader \<or> p_term p \<noteq> t"

definition wait_ends :: "raft_term \<Rightarrow> consensus_progress list \<Rightarrow> consensus_error" where
  "wait_ends t rest = (if rest = [] then CTimeout else CNotLeader)"

lemma await_demoted: "shows_demotion t p \<Longrightarrow> await_read_quorum target t p ps = Inl CNotLeader"
  by (subst await_read_quorum.simps) (simp add: shows_demotion_def)

lemma await_confirmed:
  "shows_leader t l p \<Longrightarrow> target \<le> confirmed_read_epoch l \<Longrightarrow> await_read_quorum target t p ps = Inr ()"
  by (subst await_read_quorum.simps) (simp add: shows_leader_def)

lemma await_unconfirmed:
  "shows_leader t l p \<Longrightarrow> confirmed_read_epoch l < target \<Longrightarrow>
    await_read_quorum target t p ps = (case ps of [] \<Rightarrow> Inl CTimeout | q # qs \<Rightarrow> await_read_quorum target t q qs)"
  by (subst await_read_quorum.simps) (simp add: shows_leader_def not_le[symmetric])

lemma await_acks:
  assumes "rest \<noteq> [] \<longrightarrow> shows_demotion t (hd rest)"
    and "finite (heartbeat_acks l)" "card (heartbeat_acks l) < q"
    and "current_read_epoch l = target" "confirmed_read_epoch l < target"
    and "shows_leader t l p" "list_all2 (shows_leader t) (ack_states q ps l) obs"
  shows "await_read_quorum target t p (obs @ rest) =
    (if q \<le> card (heartbeat_acks l \<union> set ps) then Inr () else Inl (wait_ends t rest))"
  using assms(2-)
proof (induction ps arbitrary: l p obs)
  case Nil
  then show ?case
    using assms(1) await_unconfirmed[OF Nil.prems(5,4)] by (cases rest) (simp_all add: wait_ends_def await_demoted)
next
  case (Cons x ps)
  define l' where "l' = acknowledge_heartbeat x q l"
  have acks: "heartbeat_acks l' = insert x (heartbeat_acks l)" "current_read_epoch l' = target"
    "confirmed_read_epoch l' = (if q \<le> card (heartbeat_acks l') then target else confirmed_read_epoch l)"
    using Cons.prems by (simp_all add: l'_def acknowledge_heartbeat_def Let_def)
  have un: "heartbeat_acks l \<union> set (x # ps) = heartbeat_acks l' \<union> set ps" by (auto simp: acks)
  obtain p' obs' where o: "obs = p' # obs'" "shows_leader t l' p'" "list_all2 (shows_leader t) (ack_states q ps l') obs'"
    using Cons.prems(6) by (auto simp: l'_def Let_def list_all2_Cons1)
  have step: "await_read_quorum target t p (obs @ rest) = await_read_quorum target t p' (obs' @ rest)"
    using await_unconfirmed[OF Cons.prems(5,4)] by (simp add: o(1))
  show ?case
  proof (cases "q \<le> card (heartbeat_acks l')")
    case True
    have "card (heartbeat_acks l') \<le> card (heartbeat_acks l' \<union> set ps)"
      using Cons.prems(1) by (intro card_mono) (auto simp: acks)
    then have "q \<le> card (heartbeat_acks l \<union> set (x # ps))" unfolding un using True by simp
    then show ?thesis using step await_confirmed[OF o(2)] True acks by simp
  next
    case False
    then show ?thesis
      unfolding step un using Cons.prems acks o by (intro Cons.IH) auto
  qed
qed

text \<open>
  C30 A linearizable read that starts its own round, for everything its wait can observe: the node's record after
  each heartbeat answer \<open>ps\<close> in turn, and then nothing more, or a value in which the node no longer leads in the
  term of the probe. The read is confirmed exactly when, counting the leader itself, a majority of distinct nodes
  has answered before that point: repeated answers of one node do not count twice, and a round that was already
  confirmed does not help. Without the majority the read ends with NotLeader when the node is seen
  demoted or in another term, and with a timeout otherwise; a node demoted before the first
  observation is never confirmed, whatever follows.
\<close>
theorem read_needs_majority:
  assumes "role (fst w) = Leader n" "node_read sled_current_term (snd w) = Inr t"
    and "confirmed_read_epoch (state n) = current_read_epoch (state n)" "current_read_epoch (state n) \<noteq> - 1"
    and "1 < q" "rest \<noteq> [] \<longrightarrow> shows_demotion t (hd rest)"
  shows "\<exists>probe n'. leadership_probe w = (Inr (Inr probe), set_role (Leader n') w) \<and> \<not> rp_in_flight probe
    \<and> (\<forall>p obs. list_all2 (shows_leader t) (state n' # ack_states q ps (state n')) (p # obs) \<longrightarrow>
         await_read_quorum (rp_target_epoch probe) (rp_term probe) p (obs @ rest) =
           (if q \<le> card (insert (node_id (identity n)) (set ps)) then Inr () else Inl (wait_ends t rest)))
    \<and> (\<forall>p obs. shows_demotion t p \<longrightarrow>
         await_read_quorum (rp_target_epoch probe) (rp_term probe) p obs = Inl CNotLeader)"
proof -
  let ?e = "current_read_epoch (state n)"
  define l where "l = (state n)\<lparr>current_read_epoch := ?e + 1, heartbeat_acks := {node_id (identity n)}\<rparr>"
  have probe: "prepare_read_probe (node_id (identity n)) (state n) = (?e + 1, l)"
    using assms(3) by (simp add: prepare_read_probe_def l_def Let_def)
  have "1 + ?e \<noteq> 0" using assms(4) by (metis add_eq_0_iff)
  then have less: "?e < ?e + 1" using unatSuc[of ?e] by (simp add: word_less_nat_alt add.commute)
  have "leadership_probe w = (Inr (Inr \<lparr>rp_target_epoch = ?e + 1, rp_in_flight = False, rp_term = t,
      rp_node_id = node_id (identity n), rp_last_committed = last_committed n\<rparr>), set_role (Leader (n\<lparr>state := l\<rparr>)) w)"
    using assms(1,2) less probe by (simp add: leadership_probe_def)
  moreover have "await_read_quorum (?e + 1) t p (obs @ rest) =
      (if q \<le> card (insert (node_id (identity n)) (set ps)) then Inr () else Inl (wait_ends t rest))"
    if "list_all2 (shows_leader t) (l # ack_states q ps l) (p # obs)" for p obs
    using await_acks[of rest t l q "?e + 1" p ps obs] assms less that by (simp add: l_def)
  ultimately show ?thesis
    by (intro exI[of _ "n\<lparr>state := l\<rparr>"] exI conjI allI impI) (assumption | simp add: await_demoted)+
qed

definition sample_progress :: "raft_term \<Rightarrow> consensus_progress" where
  "sample_progress t = \<lparr>p_term = t, p_role = RLeader, p_last_log_index = 0, p_last_committed = 0, p_last_applied = 0,
     leader_hint = None, p_confirmed_read_epoch = 0\<rparr>"

definition epoch_seen :: "raft_term \<Rightarrow> leader \<Rightarrow> consensus_progress" where
  "epoch_seen t l = (sample_progress t)\<lparr>p_confirmed_read_epoch := confirmed_read_epoch l\<rparr>"

lemma epochs_seen: "list_all2 (shows_leader t) ls (map (epoch_seen t) ls)"
  by (simp add: list_all2_conv_all_nth shows_leader_def epoch_seen_def sample_progress_def)

theorem read_needs_majority_witness:
  "\<exists>probe n'. leadership_probe (sample_node (Leader sample_leader), sample_store 1) =
       (Inr (Inr probe), set_role (Leader n') (sample_node (Leader sample_leader), sample_store 1))
     \<and> await_read_quorum (rp_target_epoch probe) (rp_term probe) (epoch_seen 1 (state n'))
         (map (epoch_seen 1) (ack_states 2 [2] (state n')) @ [sample_progress 2]) = Inr ()
     \<and> await_read_quorum (rp_target_epoch probe) (rp_term probe) (epoch_seen 1 (state n'))
         (map (epoch_seen 1) (ack_states 2 [1] (state n')) @ [sample_progress 2]) = Inl CNotLeader"
proof -
  let ?w = "(sample_node (Leader sample_leader), sample_store 1)"
  have pre: "role (fst ?w) = Leader sample_leader" "node_read sled_current_term (snd ?w) = Inr 1"
    "confirmed_read_epoch (state sample_leader) = current_read_epoch (state sample_leader)"
    "current_read_epoch (state sample_leader) \<noteq> - 1" "1 < (2 :: nat)"
    "[sample_progress 2] \<noteq> [] \<longrightarrow> shows_demotion 1 (hd [sample_progress 2])"
    "node_id (identity sample_leader) = 1"
    by (simp_all add: sample_node_def node_read_def is_u64_def u64_bound_def sample_leader_def sample_identity_def
        shows_demotion_def sample_progress_def)
  let ?first = "\<lambda>n'. epoch_seen 1 (state n')" and ?seen = "\<lambda>n' ps. map (epoch_seen 1) (ack_states 2 ps (state n'))"
  have obs: "list_all2 (shows_leader 1) (state n' # ack_states 2 ps (state n')) (?first n' # ?seen n' ps)" for n' :: "leader raft_node" and ps
    using epochs_seen[of 1 "state n' # ack_states 2 ps (state n')"] by simp
  obtain probe n' where m: "leadership_probe ?w = (Inr (Inr probe), set_role (Leader n') ?w)"
      "await_read_quorum (rp_target_epoch probe) (rp_term probe) (?first n') (?seen n' [2] @ [sample_progress 2]) = Inr ()"
    using read_needs_majority[OF pre(1-6), of "[2]"] obs[of _ "[2]"] pre(7) by force
  obtain probe2 n2 where d: "leadership_probe ?w = (Inr (Inr probe2), set_role (Leader n2) ?w)"
      "await_read_quorum (rp_target_epoch probe2) (rp_term probe2) (?first n2) (?seen n2 [1] @ [sample_progress 2]) = Inl CNotLeader"
    using read_needs_majority[OF pre(1-6), of "[1]"] obs[of _ "[1]"] pre(7) by (force simp: wait_ends_def)
  have "probe2 = probe" "n2 = n'" using m(1) d(1) by (simp_all add: set_role_def sample_node_def)
  with m d show ?thesis by blast
qed

end
