(* ===== verification/Cluster.thy ===== *)
theory Cluster
  imports Raft_Handle Quorums
begin

text \<open>
  A cluster of nodes that run the sections of \<open>Consensus\<close> and the RPCs of \<open>Raft_Service\<close> over a network
  that loses, repeats and reorders messages, with crashes, restarts from the store and storage
  failures at any point. The two history variables record every vote a store ever held (\<open>hist\<close>) and
  every leader there ever was (\<open>led\<close>); no step reads them. The result is Election Safety: a
  term has at most one leader.
\<close>

section \<open>Peers\<close>

definition peers_of :: "node_id list \<Rightarrow> node_id \<Rightarrow> node_id list" where
  "peers_of ms i = filter (\<lambda>j. j \<noteq> i) ms"

lemma quorum_size_peers:
  assumes "distinct ms" "i \<in> set ms"
  shows "quorum_size (peers_of ms i) = card (set ms) div 2 + 1"
proof -
  have "set (peers_of ms i) = set ms - {i}" by (auto simp: peers_of_def)
  moreover have "distinct (peers_of ms i)" using assms by (simp add: peers_of_def)
  ultimately have "length (peers_of ms i) = card (set ms - {i})" by (metis distinct_card)
  moreover have "0 < card (set ms)" using assms(2) by (auto simp: card_gt_0_iff)
  ultimately have "length (peers_of ms i) + 1 = card (set ms)" using assms(2) by simp
  then show ?thesis by (simp add: quorum_size_def)
qed

section \<open>State and steps\<close>

record cluster =
  nodes :: "node_id \<Rightarrow> logical_node"
  disks :: "node_id \<Rightarrow> log_store"
  requests :: "(node_id \<times> request_vote_request) set"
  responses :: "(node_id \<times> node_id \<times> raft_term \<times> request_vote_response) set"
  tallies :: "(node_id \<times> nat) set"
  hist :: "(node_id \<times> raft_term \<times> node_id) set"
  led :: "(raft_term \<times> node_id) set"

definition votes_of :: "node_id \<Rightarrow> log_store \<Rightarrow> (node_id \<times> raft_term \<times> node_id) set" where
  "votes_of i d = (case disk_vote d of None \<Rightarrow> {} | Some v \<Rightarrow> {(i, disk_term d, v)})"

definition leads_of :: "node_id \<Rightarrow> world \<Rightarrow> (raft_term \<times> node_id) set" where
  "leads_of i w = (case role (fst w) of Leader _ \<Rightarrow> {(disk_term (snd w), i)} | _ \<Rightarrow> {})"

definition world_of :: "cluster \<Rightarrow> node_id \<Rightarrow> world" where
  "world_of s i = (nodes s i, disks s i)"

definition put :: "node_id \<Rightarrow> world \<Rightarrow> cluster \<Rightarrow> cluster" where
  "put i w s = s\<lparr>nodes := (nodes s)(i := fst w), disks := (disks s)(i := snd w),
                 hist := hist s \<union> votes_of i (snd w), led := led s \<union> leads_of i w\<rparr>"

text \<open>The critical sections a node runs on its own or on a message other than a vote.\<close>

datatype local_section =
    LTick "64 word" bool
  | LStepDown
  | LAppendEntries "append_entries_request request"
  | LPreVote "request_vote_request request"
  | LInstallSnapshot node_id raft_term log_index
  | LPropose bytes
  | LPrepareReplication node_id replication_round_params
  | LReplicationResponse raft_term node_id "status + replication_outcome option"
  | LPreVoteResponse raft_term nat "status + request_vote_response"
  | LFinishPreVote nat
  | LSaveSnapshotMetadata log_index raft_term
  | LAdvanceHorizon log_index
  | LReadProbe
  | LFatal node_error

fun run_section :: "node_identity \<Rightarrow> node_id list \<Rightarrow> local_section \<Rightarrow> world \<Rightarrow> campaign_params option \<times> world" where
  "run_section ident ps (LTick th fr) w =
     (case tick_section th fr w of (r, w') \<Rightarrow>
        (case r of Inr (_, DispatchElection p) \<Rightarrow> Some p | _ \<Rightarrow> None, w'))"
| "run_section ident ps LStepDown w = (None, snd (step_down_section w))"
| "run_section ident ps (LAppendEntries rq) w = (None, snd (rpc_append_entries ident rq w))"
| "run_section ident ps (LPreVote rq) w = (None, snd (rpc_pre_vote ident rq w))"
| "run_section ident ps (LInstallSnapshot l t i) w = (None, snd (handle_install_snapshot l t i w))"
| "run_section ident ps (LPropose cmd) w = (None, snd (ln_propose cmd w))"
| "run_section ident ps (LPrepareReplication p params) w = (None, snd (prepare_replication p params w))"
| "run_section ident ps (LReplicationResponse t p res) w = (None, snd (process_replication_response t p res w))"
| "run_section ident ps (LPreVoteResponse t v res) w =
     (case on_pre_vote_response t ps v res w of (r, w') \<Rightarrow>
        (case r of Inr (PvElection p) \<Rightarrow> Some p | _ \<Rightarrow> None, w'))"
| "run_section ident ps (LFinishPreVote v) w =
     (case finish_pre_vote v ps w of (r, w') \<Rightarrow> (case r of Inr c \<Rightarrow> c | _ \<Rightarrow> None, w'))"
| "run_section ident ps (LSaveSnapshotMetadata i t) w = (None, snd (ln_save_snapshot_metadata i t w))"
| "run_section ident ps (LAdvanceHorizon i) w = (None, snd (ln_advance_horizon_after_snapshot i w))"
| "run_section ident ps LReadProbe w = (None, snd (leadership_probe w))"
| "run_section ident ps (LFatal e) w = (None, snd (apply_fatal e w :: (halt + unit) \<times> world))"

definition emit :: "node_id \<Rightarrow> campaign_params option \<Rightarrow> cluster \<Rightarrow> cluster" where
  "emit i c s =
     (case c of
        None \<Rightarrow> s
      | Some p \<Rightarrow>
          s\<lparr>requests := insert (i, new_request_vote_request (cp_term p) (cp_node_id p) (cp_last_log_index p)
                                     (cp_last_log_term p)) (requests s),
            tallies := insert (i, 1) (tallies s)\<rparr>)"

inductive cluster_step :: "node_id list \<Rightarrow> (node_id \<Rightarrow> node_identity) \<Rightarrow> cluster \<Rightarrow> cluster \<Rightarrow> bool"
  for ms ids where
  local_step:
    "i \<in> set ms \<Longrightarrow> run_section (ids i) (peers_of ms i) sec (world_of s i) = (c, w') \<Longrightarrow>
     cluster_step ms ids s (emit i c (put i w' s))"
| vote_request:
    "j \<in> set ms \<Longrightarrow> (i, rq) \<in> requests s \<Longrightarrow> j \<in> set (peers_of ms i) \<Longrightarrow>
     rpc_request_vote (ids j) \<lparr>req_trace = Some tr, req_inner = rq\<rparr> (world_of s j) = (r, w') \<Longrightarrow>
     cluster_step ms ids s
       (put j w' s\<lparr>responses := (case r of Inr (Inr resp) \<Rightarrow> insert (j, i, rv_term rq, resp_inner resp) (responses s)
                                 | _ \<Rightarrow> responses s)\<rparr>)"
| vote_response:
    "i \<in> set ms \<Longrightarrow> (j, i, t, resp) \<in> responses s \<Longrightarrow>
     process_vote_response t (peers_of ms i) j (Inr resp :: status + request_vote_response) (world_of s i) = (r, w') \<Longrightarrow>
     cluster_step ms ids s (put i w' s)"
| tally_read:
    "i \<in> set ms \<Longrightarrow> (i, v) \<in> tallies s \<Longrightarrow>
     cluster_step ms ids s (s\<lparr>tallies := insert (i, observe_tally v (nodes s i)) (tallies s)\<rparr>)"
| election_end:
    "i \<in> set ms \<Longrightarrow> (i, v) \<in> tallies s \<Longrightarrow> finish_election v (peers_of ms i) (world_of s i) = (r, w') \<Longrightarrow>
     cluster_step ms ids s (put i w' s)"
| restart:
    "i \<in> set ms \<Longrightarrow> logical_node_try_new (ids i) fsm th rn (disks s i) = Inr ln \<Longrightarrow>
     cluster_step ms ids s (put i (ln, disks s i) s)"
| storage_fault:
    "i \<in> set ms \<Longrightarrow> cluster_step ms ids s (put i (nodes s i, (disks s i)\<lparr>io_fails := f\<rparr>) s)"

definition cluster_init :: "node_id list \<Rightarrow> (node_id \<Rightarrow> node_identity) \<Rightarrow> cluster \<Rightarrow> bool" where
  "cluster_init ms ids s \<longleftrightarrow>
     distinct ms
     \<and> (\<forall>i \<in> set ms. valid_node_id i \<and> node_id (ids i) = i \<and> meta_hard_state (disks s i) = None
          \<and> (case role (nodes s i) of Follower n \<Rightarrow> identity n = ids i | _ \<Rightarrow> False))
     \<and> requests s = {} \<and> responses s = {} \<and> tallies s = {} \<and> hist s = {} \<and> led s = {}"

inductive cluster_reachable :: "node_id list \<Rightarrow> (node_id \<Rightarrow> node_identity) \<Rightarrow> cluster \<Rightarrow> bool" for ms ids where
  start: "cluster_init ms ids s \<Longrightarrow> cluster_reachable ms ids s"
| step: "cluster_reachable ms ids s \<Longrightarrow> cluster_step ms ids s s' \<Longrightarrow> cluster_reachable ms ids s'"

section \<open>Sections keep the engine relation\<close>

lemma engine_leadership_probe: "run_rel engine_le leadership_probe"
  by (auto simp: run_rel_def leadership_probe_def set_role_def engine_le_def role_le_def hs.refl Let_def
      split: role_state.splits sum.splits prod.splits)

lemma run_section_engine_le:
  assumes "run_section ident ps sec w = (c, w')"
  shows "engine_le w w'"
proof (cases sec)
  case (LTick th fr)
  with assms show ?thesis
    using run_relD[OF engine_tick_section, of th fr w] by (auto split: prod.splits)
next
  case (LPreVoteResponse t v res)
  with assms show ?thesis
    using run_relD[OF engine_pre_vote(1), of t ps v res w] by (auto split: prod.splits)
next
  case (LFinishPreVote v)
  with assms show ?thesis
    using run_relD[OF engine_pre_vote(2), of v ps w] by (auto split: prod.splits)
qed (use assms in \<open>auto intro!: engine_then[OF engine.refl] engine_step_down_section engine_rpcs
      engine_handle_install_snapshot engine_propose engine_prepare_replication engine_process_replication
      engine_commit engine_apply_fatal engine_leadership_probe\<close>)

lemma capture_campaign_id:
  "capture_campaign t w = (Inr p, w') \<Longrightarrow> \<exists>ident. role_identity (role (fst w)) = Some ident \<and> cp_node_id p = node_id ident"
  by (auto simp: capture_campaign_def ln_node_id_def split: option.splits elim!: st_bind_InrE)

lemma same_identity:
  "run_rel engine_le m \<Longrightarrow> m w = (r, w') \<Longrightarrow> role_identity (role (fst w')) = Some ident \<Longrightarrow>
    role_identity (role (fst w)) = Some ident"
  by (drule run_relD) (auto simp: engine_le_def role_le_def)

lemma begin_candidacy_id:
  assumes "begin_candidacy w = (Inr p, w')"
  shows "\<exists>ident. role_identity (role (fst w)) = Some ident \<and> cp_node_id p = node_id ident"
proof -
  from assms obtain u w1 t w2 where a: "into_candidate w = (Inr u, w1)" "ln_current_term w1 = (Inr t, w2)"
    "capture_campaign t w2 = (Inr p, w')"
    by (auto simp: begin_candidacy_def elim!: st_bind_InrE)
  from capture_campaign_id[OF a(3)] show ?thesis
    using same_identity[OF engine_into_candidate a(1)] same_identity[OF engine_reads(1) a(2)] by blast
qed

lemma pre_vote_won_id:
  "pre_vote_won w = (Inr p, w') \<Longrightarrow> \<exists>ident. role_identity (role (fst w)) = Some ident \<and> cp_node_id p = node_id ident"
  by (auto simp: pre_vote_won_def elim!: st_bind_InrE dest!: ln_current_term_Inr begin_candidacy_id)

lemma on_pre_vote_response_id:
  assumes "on_pre_vote_response t ps v res w = (Inr (PvElection p), w')"
  shows "\<exists>ident. role_identity (role (fst w)) = Some ident \<and> cp_node_id p = node_id ident"
proof -
  have e: "run_rel engine_le (pre_vote_step_down t res)"
    unfolding pre_vote_step_down_def by (cases res; simp only: sum.case; intro engine_intros)
  from assms obtain b w1 w2 where "pre_vote_step_down t res w = (Inr b, w1)" "pre_vote_won w1 = (Inr p, w2)"
    by (auto simp: on_pre_vote_response_def split: if_splits elim!: st_bind_InrE)
  with pre_vote_won_id same_identity[OF e] show ?thesis by blast
qed

lemma tick_section_id:
  assumes "tick_section th fr w = (Inr (x, DispatchElection p), w')"
  shows "\<exists>ident. role_identity (role (fst w)) = Some ident \<and> cp_node_id p = node_id ident"
proof -
  let ?c = "\<lambda>compact. if compact then
             st_bind ln_last_applied (\<lambda>i. st_bind (ln_get_term_at i) (\<lambda>it. st_return (Some (i, it))))
           else st_return None"
  have sc: "run_rel engine_le (should_compact_log th fr)"
    unfolding should_compact_log_def Let_def by (intro engine_intros)
  have cc: "run_rel engine_le (?c b)" for b by (intro engine_intros)
  from assms obtain a w1 t w2 b w3 cm w4 w5 where st: "ln_tick w = (Inr a, w1)" "ln_current_term w1 = (Inr t, w2)"
    "should_compact_log th fr w2 = (Inr b, w3)" "?c b w3 = (Inr cm, w4)"
    "dispatch_tick t a w4 = (Inr (DispatchElection p), w5)"
    by (auto simp: tick_section_def elim!: st_bind_InrE)
  then obtain w6 where "begin_candidacy w4 = (Inr p, w6)"
    by (auto simp: dispatch_tick_def split: tick_action.splits elim!: st_bind_InrE)
  from begin_candidacy_id[OF this] show ?thesis
    using same_identity[OF engine_tick st(1)] same_identity[OF engine_reads(1) st(2)]
      same_identity[OF sc st(3)] same_identity[OF cc st(4)] by blast
qed

lemma run_section_id:
  assumes "run_section ident ps sec w = (Some p, w')"
  shows "\<exists>ident. role_identity (role (fst w)) = Some ident \<and> cp_node_id p = node_id ident"
proof (cases sec)
  case (LTick th fr)
  then show ?thesis using assms tick_section_id
    by (auto split: prod.splits sum.splits tick_dispatch.splits)
next
  case (LPreVoteResponse t v res)
  then show ?thesis using assms on_pre_vote_response_id[of t ps v res w p w']
    by (auto split: prod.splits sum.splits pre_vote_outcome.splits)
next
  case (LFinishPreVote v)
  then show ?thesis using assms pre_vote_won_id[of w p]
    by (auto simp: finish_pre_vote_def split: prod.splits sum.splits if_splits elim!: st_bind_InrE)
qed (use assms in auto)

section \<open>Becoming a leader\<close>

lemma into_leader_cases:
  assumes "into_leader ps w = (r, w')"
  shows "snd w' = snd w" and
    "fst w' = fst w \<and> (\<forall>n. role (fst w) \<noteq> Candidate n) \<or>
     (\<exists>n. role (fst w) = Candidate n \<and> (role (fst w') = Poisoned \<or> (\<exists>n'. role (fst w') = Leader n' \<and> identity n' = identity n)))"
  using assms
  by (auto simp: into_leader_def install_role_def try_into_leader_def node_transition_def res_bind_Inr_iff
      split: role_state.splits sum.splits prod.splits)

definition promoted :: "world \<Rightarrow> node_id set \<Rightarrow> nat \<Rightarrow> world \<Rightarrow> bool" where
  "promoted w vs q w' \<longleftrightarrow>
     snd w' = snd w \<and>
     (\<exists>n. role (fst w) = Candidate n \<and>
        (role (fst w') = Poisoned
         \<or> (\<exists>n'. role (fst w') = Candidate n' \<and> identity n' = identity n \<and> votes_received (state n') = vs \<and> card vs < q)
         \<or> (\<exists>n'. role (fst w') = Leader n' \<and> identity n' = identity n \<and> card vs \<ge> q)))"

lemma ln_last_log_index_cases:
  "ln_last_log_index w = (Inr i, w') \<Longrightarrow> w' = w"
  "ln_last_log_index w = (Inl e, w') \<Longrightarrow> snd w' = snd w \<and> role (fst w') = Poisoned"
  by (auto simp: ln_last_log_index_def delegate_read_def apply_fatal_def set_role_def is_poisoned_def
      split: if_splits sum.splits prod.splits role_state.splits)

lemma process_vote_response_cases:
  assumes "process_vote_response t ps j (Inr resp :: 'st + request_vote_response) w = (r, w')"
  shows "engine_le w w' \<or>
    (rvr_vote_granted resp \<and> disk_term (snd w) = t \<and>
     (\<exists>n. role (fst w) = Candidate n \<and> promoted w (insert j (votes_received (state n))) (quorum_size ps) w'))"
proof (cases "rvr_term resp > t")
  case True
  have "run_rel engine_le (st_bind (into_follower (rvr_term resp) None) (\<lambda>_. st_return VDemoted))"
    by (intro engine_intros)
  with True assms show ?thesis by (auto simp: process_vote_response_def dest: run_relD)
next
  case le: False
  show ?thesis
  proof (cases "rvr_vote_granted resp")
    case False
    with le assms show ?thesis by (simp add: process_vote_response_def engine.refl)
  next
    case granted: True
    let ?rest = "\<lambda>current. st_bind (tally_vote t current (quorum_size ps) j)
               (\<lambda>quorum_reached.
                  if quorum_reached then
                    st_bind ln_last_log_index (\<lambda>_. st_bind (into_leader ps) (\<lambda>_. st_return QuorumReached))
                  else st_return VContinue)"
    from assms le granted have p: "st_bind ln_current_term ?rest w = (r, w')"
      by (simp add: process_vote_response_def)
    from p show ?thesis
    proof (cases rule: st_bind_cases)
      case (error e)
      with run_relD[OF engine_reads(1)] show ?thesis by blast
    next
      case (ok current w1)
      from ln_current_term_Inr[OF ok(1)] have w1: "w1 = w" and cur: "current = disk_term (snd w)" by auto
      show ?thesis
      proof (cases "\<exists>n. role (fst w) = Candidate n \<and> current = t")
        case False
        with ok(2) w1 have "w' = w"
          by (auto simp: tally_vote_def st_bind_def split: role_state.splits if_splits)
        then show ?thesis by (simp add: engine.refl)
      next
        case True
        then obtain n where n: "role (fst w) = Candidate n" and ct: "current = t" by blast
        let ?c = "add_vote j (state n)"
        let ?w2 = "set_role (Candidate (n\<lparr>state := ?c\<rparr>)) w"
        have w2: "snd ?w2 = snd w" "role (fst ?w2) = Candidate (n\<lparr>state := ?c\<rparr>)"
          by (simp_all add: set_role_def split: prod.splits)
        have tv: "tally_vote t current (quorum_size ps) j w = (Inr (vote_count ?c \<ge> quorum_size ps), ?w2)"
          by (simp add: tally_vote_def n ct Let_def)
        have vs: "votes_received ?c = insert j (votes_received (state n))" by (simp add: add_vote_def)
        have "promoted w (insert j (votes_received (state n))) (quorum_size ps) w'"
        proof (cases "vote_count ?c \<ge> quorum_size ps")
          case False
          with ok(2) w1 tv have "w' = ?w2" by simp
          with w2 n False vs show ?thesis by (simp add: promoted_def vote_count_def)
        next
          case q: True
          with ok(2) w1 tv have il: "st_bind ln_last_log_index (\<lambda>_. st_bind (into_leader ps) (\<lambda>_. st_return QuorumReached)) ?w2 = (r, w')"
            by simp
          then show ?thesis
          proof (cases rule: st_bind_cases)
            case (error e)
            with ln_last_log_index_cases(2)[OF error(1)] w2 n show ?thesis by (simp add: promoted_def)
          next
            case (ok li w3)
            from ln_last_log_index_cases(1)[OF ok(1)] have w3: "w3 = ?w2" .
            from ok(2) w3 obtain r2 where "into_leader ps ?w2 = (r2, w')"
              by (cases "into_leader ps ?w2"; cases "fst (into_leader ps ?w2)") (auto simp: st_bind_def)
            from into_leader_cases[OF this] w2 n q vs show ?thesis
              by (auto simp: promoted_def vote_count_def)
          qed
        qed
        with granted n ct cur show ?thesis by blast
      qed
    qed
  qed
qed

lemma finish_election_cases:
  assumes "finish_election v ps w = (r, w')"
  shows "w' = w \<or> (v \<ge> quorum_size ps \<and> snd w' = snd w \<and>
    (\<exists>n. role (fst w) = Candidate n \<and> (role (fst w') = Poisoned \<or> (\<exists>n'. role (fst w') = Leader n' \<and> identity n' = identity n))))"
proof (cases "v \<ge> quorum_size ps \<and> (\<exists>n. role (fst w) = Candidate n)")
  case True
  then have "into_leader ps w = (r, w')"
    using assms by (cases w) (auto simp: finish_election_def)
  from into_leader_cases[OF this] True show ?thesis by blast
next
  case False
  then show ?thesis using assms by (cases w) (auto simp: finish_election_def split: if_splits role_state.splits)
qed

section \<open>Invariant\<close>

definition voters :: "node_id list \<Rightarrow> cluster \<Rightarrow> raft_term \<Rightarrow> node_id \<Rightarrow> node_id set" where
  "voters ms s t c = {k \<in> set ms. (k, t, c) \<in> hist s}"

definition candidate_ok :: "node_id list \<Rightarrow> cluster \<Rightarrow> node_id \<Rightarrow> world \<Rightarrow> bool" where
  "candidate_ok ms s i w \<longleftrightarrow>
     (\<forall>n. role (fst w) = Candidate n \<longrightarrow>
        votes_received (state n) \<subseteq> voters ms s (disk_term (snd w)) i \<and> i \<in> votes_received (state n)
        \<and> (card (votes_received (state n)) < card (set ms) div 2 + 1 \<or> card (set ms) div 2 + 1 = 1))"

definition leader_ok :: "node_id list \<Rightarrow> cluster \<Rightarrow> node_id \<Rightarrow> world \<Rightarrow> bool" where
  "leader_ok ms s i w \<longleftrightarrow>
     (\<forall>n. role (fst w) = Leader n \<longrightarrow> majority (set ms) (voters ms s (disk_term (snd w)) i))"

definition cluster_inv :: "node_id list \<Rightarrow> (node_id \<Rightarrow> node_identity) \<Rightarrow> cluster \<Rightarrow> bool" where
  "cluster_inv ms ids s \<longleftrightarrow>
     distinct ms
     \<and> (\<forall>i \<in> set ms. valid_node_id i \<and> node_id (ids i) = i)
     \<and> (\<forall>i \<in> set ms. \<forall>ident. role_identity (role (nodes s i)) = Some ident \<longrightarrow> node_id ident = i)
     \<and> (\<forall>j t v. (j, t, v) \<in> hist s \<longrightarrow>
          t < disk_term (disks s j) \<or> t = disk_term (disks s j) \<and> disk_vote (disks s j) = Some v)
     \<and> (\<forall>j t v v'. (j, t, v) \<in> hist s \<longrightarrow> (j, t, v') \<in> hist s \<longrightarrow> v = v')
     \<and> (\<forall>j i t resp. (j, i, t, resp) \<in> responses s \<longrightarrow> rvr_vote_granted resp \<longrightarrow> j \<in> voters ms s t i)
     \<and> (\<forall>i rq. (i, rq) \<in> requests s \<longrightarrow> i \<in> set ms \<and> rv_candidate_id rq = node_id_to_string i)
     \<and> (\<forall>i \<in> set ms. candidate_ok ms s i (world_of s i))
     \<and> (\<forall>i n. i \<in> set ms \<longrightarrow> role (nodes s i) = Leader n \<longrightarrow> (disk_term (disks s i), i) \<in> led s)
     \<and> (\<forall>t i. (t, i) \<in> led s \<longrightarrow> majority (set ms) (voters ms s t i))
     \<and> (\<forall>i v. (i, v) \<in> tallies s \<longrightarrow> v < card (set ms) div 2 + 1 \<or> card (set ms) div 2 + 1 = 1)"

lemma cluster_invD:
  assumes "cluster_inv ms ids s"
  shows "distinct ms"
    "i \<in> set ms \<Longrightarrow> valid_node_id i" "i \<in> set ms \<Longrightarrow> node_id (ids i) = i"
    "i \<in> set ms \<Longrightarrow> role_identity (role (nodes s i)) = Some ident \<Longrightarrow> node_id ident = i"
    "(j, t, v) \<in> hist s \<Longrightarrow> t < disk_term (disks s j) \<or> t = disk_term (disks s j) \<and> disk_vote (disks s j) = Some v"
    "(j, t, v) \<in> hist s \<Longrightarrow> (j, t, v') \<in> hist s \<Longrightarrow> v = v'"
    "(j, i, t, resp) \<in> responses s \<Longrightarrow> rvr_vote_granted resp \<Longrightarrow> j \<in> voters ms s t i"
    "(i, rq) \<in> requests s \<Longrightarrow> i \<in> set ms \<and> rv_candidate_id rq = node_id_to_string i"
    "i \<in> set ms \<Longrightarrow> candidate_ok ms s i (world_of s i)"
    "i \<in> set ms \<Longrightarrow> role (nodes s i) = Leader n \<Longrightarrow> (disk_term (disks s i), i) \<in> led s"
    "(t, i) \<in> led s \<Longrightarrow> majority (set ms) (voters ms s t i)"
    "(i, x) \<in> tallies s \<Longrightarrow> x < card (set ms) div 2 + 1 \<or> card (set ms) div 2 + 1 = 1"
proof -
  note u = assms[unfolded cluster_inv_def]
  note u1 = u[THEN conjunct1]
  note u2 = u[THEN conjunct2, THEN conjunct1]
  note u3 = u[THEN conjunct2, THEN conjunct2, THEN conjunct1]
  note u4 = u[THEN conjunct2, THEN conjunct2, THEN conjunct2, THEN conjunct1]
  note u5 = u[THEN conjunct2, THEN conjunct2, THEN conjunct2, THEN conjunct2, THEN conjunct1]
  note u6 = u[THEN conjunct2, THEN conjunct2, THEN conjunct2, THEN conjunct2, THEN conjunct2, THEN conjunct1]
  note u7 = u[THEN conjunct2, THEN conjunct2, THEN conjunct2, THEN conjunct2, THEN conjunct2, THEN conjunct2, THEN conjunct1]
  note u8 = u[THEN conjunct2, THEN conjunct2, THEN conjunct2, THEN conjunct2, THEN conjunct2, THEN conjunct2, THEN conjunct2, THEN conjunct1]
  note u9 = u[THEN conjunct2, THEN conjunct2, THEN conjunct2, THEN conjunct2, THEN conjunct2, THEN conjunct2, THEN conjunct2, THEN conjunct2, THEN conjunct1]
  note u10 = u[THEN conjunct2, THEN conjunct2, THEN conjunct2, THEN conjunct2, THEN conjunct2, THEN conjunct2, THEN conjunct2, THEN conjunct2, THEN conjunct2, THEN conjunct1]
  note u11 = u[THEN conjunct2, THEN conjunct2, THEN conjunct2, THEN conjunct2, THEN conjunct2, THEN conjunct2, THEN conjunct2, THEN conjunct2, THEN conjunct2, THEN conjunct2]
  show "distinct ms"
    using u1 by simp
  show "i \<in> set ms \<Longrightarrow> valid_node_id i"
    using u2 by blast
  show "i \<in> set ms \<Longrightarrow> node_id (ids i) = i"
    using u2 by blast
  show "i \<in> set ms \<Longrightarrow> role_identity (role (nodes s i)) = Some ident \<Longrightarrow> node_id ident = i"
    using u3 by blast
  show "(j, t, v) \<in> hist s \<Longrightarrow> t < disk_term (disks s j) \<or> t = disk_term (disks s j) \<and> disk_vote (disks s j) = Some v"
    using u4 by blast
  show "(j, t, v) \<in> hist s \<Longrightarrow> (j, t, v') \<in> hist s \<Longrightarrow> v = v'"
    using u5 by blast
  show "(j, i, t, resp) \<in> responses s \<Longrightarrow> rvr_vote_granted resp \<Longrightarrow> j \<in> voters ms s t i"
    using u6 by blast
  show "(i, rq) \<in> requests s \<Longrightarrow> i \<in> set ms \<and> rv_candidate_id rq = node_id_to_string i"
    using u7 by blast
  show "i \<in> set ms \<Longrightarrow> candidate_ok ms s i (world_of s i)"
    using u8 by blast
  show "i \<in> set ms \<Longrightarrow> role (nodes s i) = Leader n \<Longrightarrow> (disk_term (disks s i), i) \<in> led s"
    using u9 by blast
  show "(t, i) \<in> led s \<Longrightarrow> majority (set ms) (voters ms s t i)"
    using u10 by blast
  show "(i, x) \<in> tallies s \<Longrightarrow> x < card (set ms) div 2 + 1 \<or> card (set ms) div 2 + 1 = 1"
    using u11 by blast
qed

lemma put_simps [simp]:
  "world_of (put i w s) j = (if j = i then w else world_of s j)"
  "requests (put i w s) = requests s" "responses (put i w s) = responses s" "tallies (put i w s) = tallies s"
  "hist (put i w s) = hist s \<union> votes_of i (snd w)" "led (put i w s) = led s \<union> leads_of i w"
  "nodes (put i w s) j = (if j = i then fst w else nodes s j)" "disks (put i w s) j = (if j = i then snd w else disks s j)"
  by (simp_all add: put_def world_of_def)

lemma voters_put_mono: "voters ms s t c \<subseteq> voters ms (put i w s) t c"
  by (auto simp: voters_def)

lemma candidate_ok_mono:
  "candidate_ok ms s j u \<Longrightarrow> candidate_ok ms (put i w s) j u"
  unfolding candidate_ok_def using voters_put_mono by (metis (no_types, lifting) subset_trans)

text \<open>A node's new world keeps the invariant under local conditions on that node.\<close>

lemma cluster_inv_put:
  assumes inv: "cluster_inv ms ids s" and i: "i \<in> set ms"
    and vl: "vote_le (disks s i) (snd w)"
    and ident: "\<And>ident. role_identity (role (fst w)) = Some ident \<Longrightarrow> node_id ident = i"
    and cand: "candidate_ok ms (put i w s) i w" and lead: "leader_ok ms (put i w s) i w"
  shows "cluster_inv ms ids (put i w s)"
proof -
  note I = cluster_invD[OF inv]
  have old: "t < disk_term (snd w) \<or> t = disk_term (snd w) \<and> disk_vote (snd w) = Some v" if "(i, t, v) \<in> hist s" for t v
    using I(5)[OF that] vl by (auto simp: vote_le_def)
  have uniq: "v = v'" if a: "(j, t, v) \<in> hist (put i w s)" "(j, t, v') \<in> hist (put i w s)" for j t v v'
  proof (cases "(j, t, v) \<in> hist s"; cases "(j, t, v') \<in> hist s")
    assume "(j, t, v) \<in> hist s" "(j, t, v') \<in> hist s" then show ?thesis by (rule I(6))
  next
    assume "(j, t, v) \<in> hist s" "(j, t, v') \<notin> hist s"
    with a old[of t v] show ?thesis by (auto simp: votes_of_def split: option.splits)
  next
    assume "(j, t, v) \<notin> hist s" "(j, t, v') \<in> hist s"
    with a old[of t v'] show ?thesis by (auto simp: votes_of_def split: option.splits)
  next
    assume "(j, t, v) \<notin> hist s" "(j, t, v') \<notin> hist s"
    with a show ?thesis by (auto simp: votes_of_def split: option.splits)
  qed
  have ledm: "majority (set ms) (voters ms (put i w s) t k)" if "(t, k) \<in> led (put i w s)" for t k
  proof (cases "(t, k) \<in> led s")
    case True
    from majority_mono[OF I(11)[OF True] voters_put_mono] show ?thesis by (simp add: voters_def)
  next
    case False
    with that lead show ?thesis by (auto simp: leads_of_def leader_ok_def split: role_state.splits)
  qed
  show ?thesis
    unfolding cluster_inv_def
  proof (intro conjI)
    show "distinct ms" by (rule I(1))
    show "\<forall>i \<in> set ms. valid_node_id i \<and> node_id (ids i) = i" using I(2,3) by blast
    show "\<forall>k \<in> set ms. \<forall>ident. role_identity (role (nodes (put i w s) k)) = Some ident \<longrightarrow> node_id ident = k"
      using I(4) ident by simp
    show "\<forall>j t v. (j, t, v) \<in> hist (put i w s) \<longrightarrow>
        t < disk_term (disks (put i w s) j) \<or> t = disk_term (disks (put i w s) j) \<and> disk_vote (disks (put i w s) j) = Some v"
      using I(5) old by (auto simp: votes_of_def split: option.splits)
    show "\<forall>j t v v'. (j, t, v) \<in> hist (put i w s) \<longrightarrow> (j, t, v') \<in> hist (put i w s) \<longrightarrow> v = v'"
      using uniq by blast
    show "\<forall>j k t resp. (j, k, t, resp) \<in> responses (put i w s) \<longrightarrow> rvr_vote_granted resp \<longrightarrow> j \<in> voters ms (put i w s) t k"
      using I(7) voters_put_mono by (metis put_simps(3) subsetD)
    show "\<forall>k rq. (k, rq) \<in> requests (put i w s) \<longrightarrow> k \<in> set ms \<and> rv_candidate_id rq = node_id_to_string k"
      using I(8) by simp
    show "\<forall>k \<in> set ms. candidate_ok ms (put i w s) k (world_of (put i w s) k)"
      using cand I(9) candidate_ok_mono by simp
    show "\<forall>k n. k \<in> set ms \<longrightarrow> role (nodes (put i w s) k) = Leader n \<longrightarrow> (disk_term (disks (put i w s) k), k) \<in> led (put i w s)"
      using I(10) by (auto simp: leads_of_def)
    show "\<forall>t k. (t, k) \<in> led (put i w s) \<longrightarrow> majority (set ms) (voters ms (put i w s) t k)"
      using ledm by blast
    show "\<forall>k v. (k, v) \<in> tallies (put i w s) \<longrightarrow> v < card (set ms) div 2 + 1 \<or> card (set ms) div 2 + 1 = 1"
      using I(12) by simp
  qed
qed

section \<open>Preservation\<close>

lemma voters_subset: "voters ms s t c \<subseteq> set ms" "finite (voters ms s t c)"
  by (auto simp: voters_def)

lemma cluster_inv_engine:
  assumes inv: "cluster_inv ms ids s" and i: "i \<in> set ms" and le: "engine_le (world_of s i) w"
  shows "cluster_inv ms ids (put i w s)"
proof (rule cluster_inv_put[OF inv i])
  note I = cluster_invD[OF inv]
  have vl: "vote_le (disks s i) (snd w)" and rl: "role_le (nodes s i, disks s i) w"
    using le by (auto simp: engine_le_def world_of_def)
  show "vote_le (disks s i) (snd w)" by (rule vl)
  show id: "node_id ident = i" if "role_identity (role (fst w)) = Some ident" for ident
    using rl that I(4)[OF i] by (auto simp: role_le_def)
  show "candidate_ok ms (put i w s) i w"
    unfolding candidate_ok_def
  proof (intro allI impI)
    fix n' assume n': "role (fst w) = Candidate n'"
    then have me: "node_id (identity n') = i" using id by simp
    from rl n' consider
        (same) n where "role (nodes s i) = Candidate n" "votes_received (state n') = votes_received (state n)"
          "disk_term (snd w) = disk_term (disks s i)"
      | (new) "votes_received (state n') = {i}" "disk_vote (snd w) = Some i"
      using I(2)[OF i] me unfolding role_le_def by auto
    then show "votes_received (state n') \<subseteq> voters ms (put i w s) (disk_term (snd w)) i \<and> i \<in> votes_received (state n')
        \<and> (card (votes_received (state n')) < card (set ms) div 2 + 1 \<or> card (set ms) div 2 + 1 = 1)"
    proof cases
      case same
      with candidate_ok_mono[OF I(9)[OF i]] show ?thesis by (simp add: candidate_ok_def world_of_def)
    next
      case new
      then show ?thesis using i by (auto simp: voters_def votes_of_def)
    qed
  qed
  show "leader_ok ms (put i w s) i w"
    unfolding leader_ok_def
  proof (intro allI impI)
    fix n' assume "role (fst w) = Leader n'"
    with rl obtain n where "role (nodes s i) = Leader n" and t: "disk_term (snd w) = disk_term (disks s i)"
      by (auto simp: role_le_def)
    from I(11)[OF I(10)[OF i this(1)]] majority_mono[OF _ voters_put_mono]
    show "majority (set ms) (voters ms (put i w s) (disk_term (snd w)) i)"
      using t voters_subset(1) by (metis List.finite_set)
  qed
qed

lemma cluster_inv_promoted:
  assumes inv: "cluster_inv ms ids s" and i: "i \<in> set ms"
    and n: "role (nodes s i) = Candidate n" and j: "j \<in> voters ms s (disk_term (disks s i)) i"
    and pr: "promoted (world_of s i) (insert j (votes_received (state n))) (card (set ms) div 2 + 1) w"
  shows "cluster_inv ms ids (put i w s)"
proof (rule cluster_inv_put[OF inv i])
  note I = cluster_invD[OF inv]
  let ?vs = "insert j (votes_received (state n))"
  have d: "snd w = disks s i" using pr by (simp add: promoted_def world_of_def)
  have role: "role (fst w) = Poisoned
      \<or> (\<exists>n'. role (fst w) = Candidate n' \<and> identity n' = identity n \<and> votes_received (state n') = ?vs
           \<and> card ?vs < card (set ms) div 2 + 1)
      \<or> (\<exists>n'. role (fst w) = Leader n' \<and> identity n' = identity n \<and> card ?vs \<ge> card (set ms) div 2 + 1)"
    using pr n by (auto simp: promoted_def world_of_def)
  have old: "votes_received (state n) \<subseteq> voters ms s (disk_term (disks s i)) i" "i \<in> votes_received (state n)"
    using I(9)[OF i] n by (auto simp: candidate_ok_def world_of_def)
  then have vs: "?vs \<subseteq> voters ms s (disk_term (disks s i)) i" "i \<in> ?vs" using j by auto
  show "vote_le (disks s i) (snd w)" by (simp add: d hs.refl)
  show "node_id ident = i" if "role_identity (role (fst w)) = Some ident" for ident
    using role that I(4)[OF i] n by auto
  show "candidate_ok ms (put i w s) i w"
    using role vs voters_put_mono by (fastforce simp: candidate_ok_def d)
  show "leader_ok ms (put i w s) i w"
    unfolding leader_ok_def
  proof (intro allI impI)
    fix n' assume "role (fst w) = Leader n'"
    with role have "card ?vs \<ge> card (set ms) div 2 + 1" by auto
    with vs(1) have "majority (set ms) ?vs"
      using voters_subset(1)[of ms s "disk_term (disks s i)" i] by (auto simp: majority_def)
    then show "majority (set ms) (voters ms (put i w s) (disk_term (snd w)) i)"
      by (rule majority_mono) (use vs(1) voters_put_mono[of ms s "disk_term (disks s i)" i i w] voters_subset(1) in \<open>auto simp: d\<close>)
  qed
qed

lemma cluster_inv_emit:
  assumes "cluster_inv ms ids s" "i \<in> set ms" "\<And>p. c = Some p \<Longrightarrow> cp_node_id p = i"
  shows "cluster_inv ms ids (emit i c s)"
proof (cases c)
  case (Some p)
  with assms(3) have p: "cp_node_id p = i" by simp
  have v: "voters ms (emit i c s) = voters ms s" "candidate_ok ms (emit i c s) = candidate_ok ms s"
    "world_of (emit i c s) = world_of s"
    by (auto simp: emit_def voters_def candidate_ok_def world_of_def Some fun_eq_iff)
  show ?thesis
    using assms(1,2) unfolding cluster_inv_def v
    by (auto simp: emit_def Some p new_request_vote_request_def)
qed (use assms in \<open>simp add: emit_def\<close>)

lemma cluster_inv_response:
  assumes "cluster_inv ms ids s" "rvr_vote_granted (resp_inner resp) \<Longrightarrow> j \<in> voters ms s t i"
  shows "cluster_inv ms ids (s\<lparr>responses := insert (j, i, t, resp_inner resp) (responses s)\<rparr>)"
proof -
  let ?s = "s\<lparr>responses := insert (j, i, t, resp_inner resp) (responses s)\<rparr>"
  have v: "voters ms ?s = voters ms s" "candidate_ok ms ?s = candidate_ok ms s" "world_of ?s = world_of s"
    by (auto simp: voters_def candidate_ok_def world_of_def fun_eq_iff)
  show ?thesis using assms unfolding cluster_inv_def v by auto
qed

lemma cluster_inv_tally:
  assumes "cluster_inv ms ids s" "x < card (set ms) div 2 + 1 \<or> card (set ms) div 2 + 1 = 1"
  shows "cluster_inv ms ids (s\<lparr>tallies := insert (i, x) (tallies s)\<rparr>)"
proof -
  let ?s = "s\<lparr>tallies := insert (i, x) (tallies s)\<rparr>"
  have v: "voters ms ?s = voters ms s" "candidate_ok ms ?s = candidate_ok ms s" "world_of ?s = world_of s"
    by (auto simp: voters_def candidate_ok_def world_of_def fun_eq_iff)
  show ?thesis using assms unfolding cluster_inv_def v by auto
qed

lemma put_update_commute [simp]:
  "put i w (s\<lparr>responses := x\<rparr>) = (put i w s)\<lparr>responses := x\<rparr>"
  "put i w (s\<lparr>tallies := y\<rparr>) = (put i w s)\<lparr>tallies := y\<rparr>"
  by (simp_all add: put_def)

lemma put_same_responses [simp]: "(put j w s)\<lparr>responses := responses s\<rparr> = put j w s"
  by (simp add: put_def)

lemma restart_role:
  "logical_node_try_new ident fsm th r d = Inr ln \<Longrightarrow> \<exists>n. role ln = Follower n \<and> identity n = ident"
  by (auto simp: logical_node_try_new_def try_new_with_applied_def res_bind_Inr_iff split: prod.splits if_splits)

lemma step_local:
  assumes inv: "cluster_inv ms ids s" and i: "i \<in> set ms"
    and r: "run_section (ids i) (peers_of ms i) sec (world_of s i) = (c, w')"
  shows "cluster_inv ms ids (emit i c (put i w' s))"
proof (rule cluster_inv_emit[OF cluster_inv_engine[OF inv i run_section_engine_le[OF r]] i])
  fix p assume "c = Some p"
  with run_section_id r obtain ident where "role_identity (role (nodes s i)) = Some ident" "cp_node_id p = node_id ident"
    by (fastforce simp: world_of_def)
  with cluster_invD(4)[OF inv i] show "cp_node_id p = i" by simp
qed

lemma step_vote_request:
  assumes inv: "cluster_inv ms ids s" and j: "j \<in> set ms" and rq: "(i, rq) \<in> requests s"
    and r: "rpc_request_vote (ids j) \<lparr>req_trace = Some tr, req_inner = rq\<rparr> (world_of s j) = (r, w')"
  shows "cluster_inv ms ids (put j w' s\<lparr>responses :=
    (case r of Inr (Inr resp) \<Rightarrow> insert (j, i, rv_term rq, resp_inner resp) (responses s) | _ \<Rightarrow> responses s)\<rparr>)"
proof -
  have inv': "cluster_inv ms ids (put j w' s)"
    by (rule cluster_inv_engine[OF inv j run_relD[OF engine_rpcs(1) r]])
  show ?thesis
  proof (cases "\<exists>resp. r = Inr (Inr resp)")
    case True
    then obtain resp where resp: "r = Inr (Inr resp)" by blast
    have "j \<in> voters ms (put j w' s) (rv_term rq) i" if "rvr_vote_granted (resp_inner resp)"
    proof -
      from rpc_request_vote_granted[OF _ that, of "ids j"] r resp obtain c where
        "node_id_from_str (rv_candidate_id rq) = Inr c" "disk_term (snd w') = rv_term rq" "disk_vote (snd w') = Some c"
        by fastforce
      moreover have "rv_candidate_id rq = node_id_to_string i" "valid_node_id i"
        using cluster_invD(8)[OF inv rq] cluster_invD(2)[OF inv] by auto
      ultimately show ?thesis using j by (auto simp: voters_def votes_of_def)
    qed
    from cluster_inv_response[OF inv' this] show ?thesis by (simp add: resp)
  next
    case False
    then show ?thesis using inv' by (auto split: sum.splits)
  qed
qed

lemma step_vote_response:
  assumes inv: "cluster_inv ms ids s" and i: "i \<in> set ms" and m: "(j, i, t, resp) \<in> responses s"
    and r: "process_vote_response t (peers_of ms i) j (Inr resp :: status + request_vote_response) (world_of s i) = (r, w')"
  shows "cluster_inv ms ids (put i w' s)"
  using process_vote_response_cases[OF r] cluster_inv_engine[OF inv i, of w'] cluster_inv_promoted[OF inv i, of _ j w']
    cluster_invD(7)[OF inv m]
  unfolding quorum_size_peers[OF cluster_invD(1)[OF inv] i] by (auto simp: world_of_def)

lemma step_tally_read:
  assumes inv: "cluster_inv ms ids s" and i: "i \<in> set ms" and v: "(i, v) \<in> tallies s"
  shows "cluster_inv ms ids (s\<lparr>tallies := insert (i, observe_tally v (nodes s i)) (tallies s)\<rparr>)"
proof (rule cluster_inv_tally[OF inv])
  show "observe_tally v (nodes s i) < card (set ms) div 2 + 1 \<or> card (set ms) div 2 + 1 = 1"
    using cluster_invD(9)[OF inv i] cluster_invD(12)[OF inv v]
    by (auto simp: observe_tally_def candidate_ok_def vote_count_def world_of_def split: role_state.splits)
qed

lemma step_election_end:
  assumes inv: "cluster_inv ms ids s" and i: "i \<in> set ms" and v: "(i, v) \<in> tallies s"
    and r: "finish_election v (peers_of ms i) (world_of s i) = (r, w')"
  shows "cluster_inv ms ids (put i w' s)"
proof -
  note q = quorum_size_peers[OF cluster_invD(1)[OF inv] i]
  from finish_election_cases[OF r] consider "w' = world_of s i"
    | (promo) n where "card (set ms) div 2 + 1 = 1" "snd w' = disks s i" "role (nodes s i) = Candidate n"
        "role (fst w') = Poisoned \<or> (\<exists>n'. role (fst w') = Leader n' \<and> identity n' = identity n)"
    using cluster_invD(12)[OF inv v] unfolding q by (auto simp: world_of_def)
  then show ?thesis
  proof cases
    case 1
    then show ?thesis by (auto intro: cluster_inv_engine[OF inv i] engine.refl)
  next
    case promo
    have c: "votes_received (state n) \<subseteq> voters ms s (disk_term (disks s i)) i" "i \<in> votes_received (state n)"
      using cluster_invD(9)[OF inv i] promo(3) by (auto simp: candidate_ok_def world_of_def)
    then have j: "i \<in> voters ms s (disk_term (disks s i)) i" by auto
    have "finite (votes_received (state n))" using c(1) voters_subset(2) finite_subset by blast
    then have "card (insert i (votes_received (state n))) \<ge> 1" by (simp add: card_gt_0_iff Suc_le_eq)
    then have "promoted (world_of s i) (insert i (votes_received (state n))) (card (set ms) div 2 + 1) w'"
      using promo by (auto simp: promoted_def world_of_def)
    from cluster_inv_promoted[OF inv i promo(3) j this] show ?thesis .
  qed
qed

lemma cluster_inv_step:
  assumes "cluster_inv ms ids s" "cluster_step ms ids s s'"
  shows "cluster_inv ms ids s'"
  using assms(2,1)
proof (cases rule: cluster_step.cases)
  case (restart i fsm th rn ln)
  then obtain n where n: "role ln = Follower n" "identity n = ids i" using restart_role by blast
  show ?thesis
    unfolding restart(1)
    by (rule cluster_inv_put[OF assms(1) restart(2)])
      (use n cluster_invD(3)[OF assms(1) restart(2)] in \<open>auto simp: hs.refl candidate_ok_def leader_ok_def\<close>)
next
  case (storage_fault i f)
  have "engine_le (world_of s i) (nodes s i, (disks s i)\<lparr>io_fails := f\<rparr>)"
    by (auto simp: world_of_def engine_le_def role_le_def vote_le_def disk_term_def disk_vote_def)
  with storage_fault show ?thesis using cluster_inv_engine[OF assms(1)] by simp
qed (use assms(1) step_local step_vote_request step_vote_response step_tally_read step_election_end in auto)

lemma cluster_inv_init:
  assumes "cluster_init ms ids s"
  shows "cluster_inv ms ids s"
proof -
  have r: "\<exists>n. role (nodes s i) = Follower n \<and> identity n = ids i \<and> node_id (ids i) = i \<and> valid_node_id i"
    if "i \<in> set ms" for i
    using assms that unfolding cluster_init_def by (cases "role (nodes s i)") fastforce+
  have e: "distinct ms" "requests s = {}" "responses s = {}" "tallies s = {}" "hist s = {}" "led s = {}"
    using assms by (simp_all add: cluster_init_def)
  show ?thesis
    unfolding cluster_inv_def e using r e(1) by (fastforce simp: candidate_ok_def world_of_def)
qed

lemma reachable_inv: "cluster_reachable ms ids s \<Longrightarrow> cluster_inv ms ids s"
  by (induction rule: cluster_reachable.induct) (auto intro: cluster_inv_init cluster_inv_step)

section \<open>A three-node run\<close>

text \<open>One node wins a pre-vote, campaigns, gets the vote of a second node and becomes the leader of term 1.\<close>

definition fresh_store :: log_store where
  "fresh_store = \<lparr>log_tree = [], meta_hard_state = None, meta_last_committed = None,
     meta_snapshot_index = None, meta_snapshot_term = None, io_fails = (\<lambda>_. False)\<rparr>"

definition demo_ids :: "node_id \<Rightarrow> node_identity" where
  "demo_ids i = \<lparr>cluster_id = ''demo'', node_id = i\<rparr>"

definition demo_node :: "node_id \<Rightarrow> logical_node" where
  "demo_node i = \<lparr>role = Follower \<lparr>identity = demo_ids i, last_committed = 0, last_applied = 0,
       state = new_follower None 0 15\<rparr>,
     current_tick = 0, thresholds = \<lparr>heartbeat_interval = 5, min_election = 15, max_election = 30\<rparr>,
     rng = (\<lambda>n lo hi. lo)\<rparr>"

definition demo0 :: cluster where
  "demo0 = \<lparr>nodes = demo_node, disks = (\<lambda>_. fresh_store), requests = {}, responses = {}, tallies = {},
     hist = {}, led = {}\<rparr>"

definition demo_run1 :: "campaign_params option \<times> world" where
  "demo_run1 = run_section (demo_ids 1) [2, 3] (LFinishPreVote 2) (world_of demo0 1)"

lemmas demo_eval = demo_run1_def world_of_def demo0_def demo_node_def fresh_store_def demo_ids_def
  finish_pre_vote_def quorum_size_def pre_vote_won_def begin_candidacy_def capture_campaign_def
  ln_current_term_def ln_node_id_def ln_last_log_index_def ln_last_log_term_def delegate_read_def is_poisoned_def
  node_read_def sled_current_term_def read_hard_state_def read_meta_def into_candidate_def
  follower_try_into_candidate_def start_campaign_def generate_election_timeout_def random_range_def
  node_transition_def new_candidate_def add_vote_def advance_term_and_vote_def install_role_def st_bind_def
  node_write_def sled_save_hard_state_def engine_write_def flush_db_def term_add_def checked_add_u64_def
  serialize_hard_state_def new_hard_state_def deserialize_hard_state_def sled_last_log_index_def
  sled_last_included_index_def sled_last_log_term_def sled_last_included_term_def tree_last_def unwrap_or_def
  new_follower_def u64_bound_def Let_def


lemma valid_small: "valid_node_id (Suc 0)" "valid_node_id 2" "valid_node_id 3"
  by (simp_all add: valid_node_id_def is_u64_def u64_bound_def)

definition cand1 :: world where
  "cand1 = ((demo_node 1)\<lparr>role := Candidate \<lparr>identity = demo_ids 1, last_committed = 0, last_applied = 0,
       state = \<lparr>votes_received = {1}, election_start = 0, c_timeout = 15\<rparr>\<rparr>\<rparr>, set_hard_state 1 (Some 1) fresh_store)"

lemma demo_run1: "fst demo_run1 = Some \<lparr>cp_term = 1, cp_node_id = 1, cp_last_log_index = 0, cp_last_log_term = 0\<rparr>"
  "snd demo_run1 = cand1"
  by (simp_all add: demo_eval valid_small cand1_def set_hard_state_def)

definition demo1 :: cluster where
  "demo1 = emit 1 (fst demo_run1) (put 1 (snd demo_run1) demo0)"

definition demo_run2 :: "(halt + status + request_vote_response response) \<times> world" where
  "demo_run2 = rpc_request_vote (demo_ids 2) \<lparr>req_trace = Some 7, req_inner = new_request_vote_request 1 1 0 0\<rparr> (world_of demo1 2)"

lemma demo_w2: "world_of demo1 2 = (demo_node 2, fresh_store)"
  by (simp add: demo1_def demo_run1 emit_def world_of_def put_def demo0_def)

lemmas demo_eval2 = rpc_request_vote_def with_params_def require_trace_id_def vote_params_try_from_proto_def parse_sender_def
  new_request_vote_request_def execute_vote_logic_def verify_node_integrity_def handle_request_vote_def
  into_follower_def try_into_follower_def advance_term_def grant_as_follower_def run_node_def on_disk_def
  attempt_grant_vote_def persist_vote_def or_fatal_def is_log_up_to_date_def sled_voted_for_def


lemma demo_run2: "fst demo_run2 = Inr (Inr \<lparr>resp_trace = Some 7, resp_inner = \<lparr>rvr_term = 1, rvr_vote_granted = True\<rparr>\<rparr>)"
  unfolding demo_run2_def demo_w2 by (simp add: demo_eval2 demo_eval valid_small)

definition demo2 :: cluster where
  "demo2 = put 2 (snd demo_run2) demo1\<lparr>responses := insert (2, 1, 1, \<lparr>rvr_term = 1, rvr_vote_granted = True\<rparr>) (responses demo1)\<rparr>"

definition demo_run3 :: "(halt + vote_action) \<times> world" where
  "demo_run3 = process_vote_response 1 [2, 3] 2 (Inr \<lparr>rvr_term = 1, rvr_vote_granted = True\<rparr> :: status + request_vote_response) cand1"

definition demo3 :: cluster where
  "demo3 = put 1 (snd demo_run3) demo2"

lemmas demo_eval3 = process_vote_response_def tally_vote_def set_role_def vote_count_def into_leader_def try_into_leader_def
  new_leader_def log_index_add_def cand1_def set_hard_state_def

lemma demo_run3: "(case role (fst (snd demo_run3)) of Leader _ \<Rightarrow> True | _ \<Rightarrow> False)" "disk_term (snd (snd demo_run3)) = 1"
  unfolding demo_run3_def by (simp_all add: demo_eval3 demo_eval valid_small disk_term_def)

lemma demo_init: "cluster_init [1, 2, 3] demo_ids demo0"
  by (simp add: cluster_init_def demo0_def demo_node_def demo_ids_def fresh_store_def valid_small)

lemma demo_step1: "cluster_step [1, 2, 3] demo_ids demo0 demo1"
proof -
  have "run_section (demo_ids 1) (peers_of [1, 2, 3] 1) (LFinishPreVote 2) (world_of demo0 1) = (fst demo_run1, snd demo_run1)"
    by (simp add: demo_run1_def peers_of_def)
  from cluster_step.local_step[where ids = demo_ids and i = 1, OF _ this] show ?thesis by (simp add: demo1_def)
qed

lemma demo_step2: "cluster_step [1, 2, 3] demo_ids demo1 demo2"
proof -
  have r: "rpc_request_vote (demo_ids 2) \<lparr>req_trace = Some 7, req_inner = new_request_vote_request 1 1 0 0\<rparr> (world_of demo1 2)
      = (fst demo_run2, snd demo_run2)" by (simp add: demo_run2_def)
  have "(1, new_request_vote_request 1 1 0 0) \<in> requests demo1" by (simp add: demo1_def demo_run1 emit_def)
  from cluster_step.vote_request[where ids = demo_ids and j = 2, OF _ this _ r, of "[1,2,3]"] show ?thesis
    by (simp add: demo_run2 demo2_def peers_of_def new_request_vote_request_def)
qed

lemma demo_step3: "cluster_step [1, 2, 3] demo_ids demo2 demo3"
proof -
  have "world_of demo2 1 = cand1" by (simp add: demo2_def demo1_def demo_run1 emit_def world_of_def put_def)
  then have r: "process_vote_response 1 (peers_of [1, 2, 3] 1) 2
      (Inr \<lparr>rvr_term = 1, rvr_vote_granted = True\<rparr> :: status + request_vote_response) (world_of demo2 1) = (fst demo_run3, snd demo_run3)"
    by (simp add: demo_run3_def peers_of_def)
  have "(2, 1, 1, \<lparr>rvr_term = 1, rvr_vote_granted = True\<rparr>) \<in> responses demo2" by (simp add: demo2_def)
  from cluster_step.vote_response[OF _ this r, of demo_ids] show ?thesis by (simp add: demo3_def)
qed

lemma demo_reachable: "cluster_reachable [1, 2, 3] demo_ids demo3"
  using demo_init demo_step1 demo_step2 demo_step3 by (blast intro: cluster_reachable.intros)

lemma demo_led: "(1, 1) \<in> led demo3"
  using demo_run3 by (auto simp: demo3_def leads_of_def split: role_state.splits)

section \<open>Election Safety\<close>

lemma votes_recorded: "cluster_reachable ms ids s \<Longrightarrow> \<forall>j \<in> set ms. votes_of j (disks s j) \<subseteq> hist s"
proof (induction rule: cluster_reachable.induct)
  case (start s)
  then show ?case by (auto simp: cluster_init_def votes_of_def disk_vote_def)
next
  case (step s s')
  have e: "disks (emit i c s) = disks s" "hist (emit i c s) = hist s" for i c and s :: cluster
    by (simp_all add: emit_def split: option.splits)
  from step(2,3) show ?case by (cases rule: cluster_step.cases) (auto simp: e)
qed

text \<open>
  C2 Election Safety: in every reachable state of the cluster at most one node ever led a term, and
  every node that is a leader now is among those that led its term. This holds across lost, repeated and
  reordered messages, crashes and restarts from the store, and storage failures.
\<close>
theorem election_safety:
  assumes "cluster_reachable ms ids s"
  shows "(\<forall>t i j. (t, i) \<in> led s \<longrightarrow> (t, j) \<in> led s \<longrightarrow> i = j)
    \<and> (\<forall>i n. i \<in> set ms \<longrightarrow> role (nodes s i) = Leader n \<longrightarrow> (disk_term (disks s i), i) \<in> led s)"
proof (intro conjI allI impI)
  note inv = reachable_inv[OF assms]
  show "i = j" if "(t, i) \<in> led s" "(t, j) \<in> led s" for t i j
    by (rule maj.chosen_unique[where V = "\<lambda>k c. (k, t, c) \<in> hist s",
          OF cluster_invD(11)[OF inv that(1)] cluster_invD(11)[OF inv that(2)]])
      (auto simp: voters_def dest: cluster_invD(6)[OF inv])
  show "(disk_term (disks s i), i) \<in> led s" if "i \<in> set ms" "role (nodes s i) = Leader n" for i n
    by (rule cluster_invD(10)[OF inv that])
qed

theorem election_safety_witness:
  "cluster_reachable [1, 2, 3] demo_ids demo3 \<and> {j. (1, j) \<in> led demo3} = {1}"
  using election_safety[OF demo_reachable] demo_reachable demo_led by blast

text \<open>
  No node ever votes for two candidates in one term: over the whole history of a reachable cluster,
  crashes and restarts included, the votes its store held for a term are all for the same candidate, and
  the vote a store holds now belongs to that history.
\<close>
theorem one_vote_per_term:
  assumes "cluster_reachable ms ids s"
  shows "(\<forall>j t v v'. (j, t, v) \<in> hist s \<longrightarrow> (j, t, v') \<in> hist s \<longrightarrow> v = v')
    \<and> (\<forall>j \<in> set ms. \<forall>v. disk_vote (disks s j) = Some v \<longrightarrow> (j, disk_term (disks s j), v) \<in> hist s)"
  using cluster_invD(6)[OF reachable_inv[OF assms]] votes_recorded[OF assms] by (auto simp: votes_of_def)

theorem one_vote_per_term_witness:
  "{v. (1, 1, v) \<in> hist demo3} = {1}"
proof -
  have "(1, 1, 1) \<in> hist demo3"
    by (auto simp: demo3_def demo2_def demo1_def demo_run1 emit_def cand1_def votes_of_def valid_small)
  with one_vote_per_term[OF demo_reachable] show ?thesis by blast
qed

end
