(* ===== verification/Leader_Properties.thy ===== *)
theory Leader_Properties
  imports Handler_Properties
begin

text \<open>
  The leader's bookkeeping: which index a majority of the cluster stores, when the commit index moves,
  how \<open>next_index\<close> follows the answers of a peer, a round's exchange with one peer and when it stalls, and what
  a late answer of another term does.
\<close>

section \<open>Commit index\<close>

definition replicas :: "(node_id \<times> log_index) list \<Rightarrow> log_index \<Rightarrow> log_index \<Rightarrow> nat" where
  "replicas matches last_idx k = length (filter (\<lambda>i. k \<le> i) (map snd matches @ [last_idx]))"

lemma sorted_ge_count:
  assumes "sorted xs" "i < length xs"
  shows "length xs - i \<le> length (filter (\<lambda>x. xs ! i \<le> x) xs)"
proof -
  have "filter (\<lambda>x. xs ! i \<le> x) (drop i xs) = drop i xs"
    using assms by (auto simp: filter_id_conv in_set_conv_nth intro!: sorted_nth_mono)
  moreover have "length (filter (\<lambda>x. xs ! i \<le> x) xs)
      = length (filter (\<lambda>x. xs ! i \<le> x) (take i xs)) + length (filter (\<lambda>x. xs ! i \<le> x) (drop i xs))"
    by (metis append_take_drop_id filter_append length_append)
  ultimately show ?thesis by simp
qed

lemma sorted_gt_count:
  assumes "sorted xs" "i < length xs" "xs ! i < k"
  shows "length (filter (\<lambda>x. k \<le> x) xs) \<le> length xs - Suc i"
proof -
  have "filter (\<lambda>x. k \<le> x) (take (Suc i) xs) = []"
  proof (simp add: filter_empty_conv, intro ballI)
    fix x assume "x \<in> set (take (Suc i) xs)"
    then obtain j where "j \<le> i" "x = xs ! j" by (auto simp: in_set_conv_nth less_Suc_eq_le)
    then show "\<not> k \<le> x" using assms sorted_nth_mono[OF assms(1) \<open>j \<le> i\<close> assms(2)] by auto
  qed
  moreover have "length (filter (\<lambda>x. k \<le> x) xs)
      = length (filter (\<lambda>x. k \<le> x) (take (Suc i) xs)) + length (filter (\<lambda>x. k \<le> x) (drop (Suc i) xs))"
    by (metis append_take_drop_id filter_append length_append)
  moreover have "length (filter (\<lambda>x. k \<le> x) (drop (Suc i) xs)) \<le> length xs - Suc i"
    using length_filter_le[of "\<lambda>x. k \<le> x" "drop (Suc i) xs"] by simp
  ultimately show ?thesis by simp
qed

lemma replicas_sort: "replicas ms l k = length (filter (\<lambda>i. k \<le> i) (sort (map snd ms @ [l])))"
  by (simp add: replicas_def filter_sort)

lemma match_median_replicas:
  "length ms + 1 < 2 * replicas ms l (match_median ms l)"
  "match_median ms l < k \<Longrightarrow> 2 * replicas ms l k \<le> length ms + 1"
proof -
  let ?xs = "sort (map snd ms @ [l])"
  let ?i = "(length ?xs - 1) div 2"
  have i: "?i < length ?xs" "length ?xs = length ms + 1" by simp_all
  have m: "match_median ms l = ?xs ! ?i" by (simp add: match_median_def Let_def)
  show "length ms + 1 < 2 * replicas ms l (match_median ms l)"
    using sorted_ge_count[OF sorted_sort i(1)] i(2) unfolding m replicas_sort by linarith
  show "2 * replicas ms l k \<le> length ms + 1" if "match_median ms l < k"
    using sorted_gt_count[OF sorted_sort i(1), of k] that i(2) unfolding m replicas_sort by linarith
qed

text \<open>
  The index the leader takes from its sorted match indices is the largest one a majority stores: of the
  nodes of the cluster (its peers and itself) more than half store that index, and no larger index is
  stored by more than half.
\<close>
theorem median_is_majority_index:
  "length ms + 1 < 2 * replicas ms l (match_median ms l)
   \<and> (\<forall>k. length ms + 1 < 2 * replicas ms l k \<longrightarrow> k \<le> match_median ms l)"
  using match_median_replicas[of ms l] by (metis not_le)

theorem median_is_majority_index_witness:
  "match_median [(2, 7), (3, 4)] 9 = 7 \<and> 3 < 2 * replicas [(2, 7), (3, 4)] 9 7"
proof -
  have "match_median [(2, 7), (3, 4)] 9 = 7" by (simp add: match_median_def)
  then show ?thesis using median_is_majority_index[of "[(2, 7), (3, 4)]" 9] by simp
qed

lemma update_commit_healthy:
  assumes "healthy d" "last_committed n < i" "i \<le> disk_last d"
  shows "update_commit_index_only i (n, d) = (Inr (), n\<lparr>last_committed := i\<rparr>, d\<lparr>meta_last_committed := Some i\<rparr>)"
  using assms by (simp add: update_commit_index_only_def node_read_def st_bind_def on_disk_apply)

lemma term_at_bounded:
  assumes "log_ok d" "disk_term_at d i = t" "0 < t"
  shows "i \<le> disk_last d"
  using assms disk_last_ge[OF assms(1), of i] disk_snap_le_last[of d]
  by (auto simp: disk_term_at_def split: if_splits option.splits)

lemma update_leader_healthy:
  assumes "healthy d" "hard_state_ok d" "log_ok d" "0 < disk_term d" "role ln = Leader n"
    and m: "m = match_median (match_index (state n)) (disk_last d)"
  shows "update_leader_last_committed (ln, d) =
    (if last_committed n < m \<and> disk_term_at d m = disk_term d
     then (Inr (), ln\<lparr>role := Leader (n\<lparr>last_committed := m\<rparr>)\<rparr>, d\<lparr>meta_last_committed := Some m\<rparr>) else (Inr (), ln, d))"
proof -
  have "m \<le> disk_last d" if "disk_term_at d m = disk_term d" by (rule term_at_bounded[OF assms(3) that assms(4)])
  then show ?thesis
    using assms(1,2,4,5)
    by (auto simp: update_leader_last_committed_def st_bind_def ln_last_log_index_def ln_get_term_at_def delegate_read_def
        is_poisoned_def node_read_def m[symmetric] Let_def ln_advance_last_committed_def delegate_mut_def run_node_def
        advance_last_committed_def update_commit_healthy or_fatal_def)
qed

text \<open>
  C13 The leader moves its commit index only forward, only to an entry of its own term (so entries of earlier
  terms are committed with it and never by counting their replicas), and only to an index that more than
  half of the cluster stores; whenever the majority index qualifies the leader commits it, on disk and in
  memory.
\<close>
theorem leader_commit_rule:
  assumes "healthy d" "hard_state_ok d" "log_ok d" "0 < disk_term d" "role ln = Leader n"
  shows "\<exists>n' d'. update_leader_last_committed (ln, d) = (Inr (), ln\<lparr>role := Leader n'\<rparr>, d')
    \<and> state n' = state n \<and> last_committed n \<le> last_committed n'
    \<and> (last_committed n' \<noteq> last_committed n \<longrightarrow>
         disk_term_at d (last_committed n') = disk_term d \<and> disk_committed d' = last_committed n'
         \<and> length (match_index (state n)) + 1 < 2 * replicas (match_index (state n)) (disk_last d) (last_committed n'))
    \<and> (let m = match_median (match_index (state n)) (disk_last d)
       in last_committed n < m \<longrightarrow> disk_term_at d m = disk_term d \<longrightarrow> last_committed n' = m)"
proof -
  let ?m = "match_median (match_index (state n)) (disk_last d)"
  let ?b = "last_committed n < ?m \<and> disk_term_at d ?m = disk_term d"
  have "update_leader_last_committed (ln, d) =
      (Inr (), ln\<lparr>role := Leader (if ?b then n\<lparr>last_committed := ?m\<rparr> else n)\<rparr>,
       if ?b then d\<lparr>meta_last_committed := Some ?m\<rparr> else d)"
    using update_leader_healthy[OF assms refl] assms(5) by (cases ln) auto
  then show ?thesis
    by (intro exI[of _ "if ?b then n\<lparr>last_committed := ?m\<rparr> else n"] exI[of _ "if ?b then d\<lparr>meta_last_committed := Some ?m\<rparr> else d"])
      (use match_median_replicas(1)[of "match_index (state n)" "disk_last d"] in \<open>simp add: Let_def\<close>)
qed

theorem leader_commit_rule_witness:
  "\<exists>n' d'. update_leader_last_committed (sample_node (Leader sample_leader), sample_store 1)
      = (Inr (), (sample_node (Leader sample_leader))\<lparr>role := Leader n'\<rparr>, d') \<and> last_committed n' = 2"
proof -
  have m: "match_median (match_index (state sample_leader)) 2 = 2" "last_committed sample_leader = 0"
    by (simp_all add: match_median_def sample_leader_def)
  with leader_commit_rule[of "sample_store 1" "sample_node (Leader sample_leader)" sample_leader] show ?thesis
    by (auto simp: sample_node_def is_u64_def u64_bound_def Let_def sample_term_at)
qed

section \<open>Answers of a peer\<close>

lemma get_or_update: "get_or (AList.update p v al) q dflt = (if p = q then v else get_or al q dflt)"
  by (simp add: get_or_def update_conv')

text \<open>
  A successful AppendEntries answer never lowers what the leader knows of a peer: the peer's match index
  becomes the larger of the old one and the end of what was sent, the next index follows right behind when
  the match index moves, the other peers' entries stay, and only an overflow of 64 bits makes the call fail.
\<close>
theorem match_index_sound:
  "if Suc (sent_prev + sent_len) < u64_bound
   then \<exists>l' moved. after_success peer sent_prev sent_len l = Inr (l', moved)
     \<and> get_or (match_index l') peer 0 = max (get_or (match_index l) peer 0) (sent_prev + sent_len)
     \<and> (moved \<longleftrightarrow> get_or (match_index l) peer 0 < sent_prev + sent_len)
     \<and> get_or (next_index l') peer 1 = (if moved then Suc (sent_prev + sent_len) else get_or (next_index l) peer 1)
     \<and> (\<forall>q. q \<noteq> peer \<longrightarrow> get_or (match_index l') q 0 = get_or (match_index l) q 0
                     \<and> get_or (next_index l') q 1 = get_or (next_index l) q 1)
   else \<exists>m. after_success peer sent_prev sent_len l = Inl (Protocol m)"
  by (auto simp: after_success_def log_index_add_def checked_add_u64_def get_or_update max_def res_bind_def is_u64_def)

theorem match_index_sound_witness:
  "\<exists>l' moved. after_success 2 3 2 (state sample_leader) = Inr (l', moved) \<and> get_or (match_index l') 2 0 = 5
     \<and> moved \<and> get_or (next_index l') 2 1 = 6 \<and> get_or (match_index l') 3 0 = 0 \<and> get_or (next_index l') 3 1 = 1"
proof -
  have "Suc (3 + 2) < u64_bound" by (simp add: u64_bound_def)
  with match_index_sound[of 3 2 2 "state sample_leader"] show ?thesis
    by (auto simp: sample_leader_def get_or_def)
qed

text \<open>
  On a rejected AppendEntries the leader's next index for the peer never grows and never drops below 1, and
  the match index stays. A peer that reports its last index is retried right behind it, or where the
  leader already was, whichever is smaller; a peer with an empty log is retried one index earlier.
\<close>
theorem backoff_rule:
  assumes "is_u64 (Suc peer_last)" "1 \<le> get_or (next_index l) peer 1"
  shows "\<exists>l'. after_mismatch peer peer_last l = Inr (l', False) \<and> match_index l' = match_index l
    \<and> get_or (next_index l') peer 1 =
        (if peer_last = 0 then max 1 (get_or (next_index l) peer 1 - 1) else min (get_or (next_index l) peer 1) (Suc peer_last))
    \<and> 1 \<le> get_or (next_index l') peer 1 \<and> get_or (next_index l') peer 1 \<le> get_or (next_index l) peer 1"
  using assms
  by (auto simp: after_mismatch_def log_index_add_def checked_add_u64_def log_index_sub_def get_or_update Let_def is_u64_def)

theorem backoff_rule_witness:
  "\<exists>l'. after_mismatch 2 0 (state sample_leader) = Inr (l', False) \<and> get_or (next_index l') 2 1 = 2"
  using backoff_rule[of 0 "state sample_leader" 2]
  by (auto simp: sample_leader_def get_or_def is_u64_def u64_bound_def)

section \<open>A stalled retry\<close>

text \<open>
  One exchange of a replication round between a leader and one peer: the leader prepares its request, the
  peer's service answers it, and the leader processes the answer. \<open>exchanges\<close> performs the rounds of a
  list one after the other and returns every request with its answer.
\<close>

definition exchange :: "node_identity \<Rightarrow> trace_id \<Rightarrow> replication_round_params \<Rightarrow> world \<times> world
    \<Rightarrow> ((append_entries_request \<times> append_entries_response) \<times> world \<times> world) option" where
  "exchange ident tr params ws =
     (case prepare_replication (node_id ident) params (fst ws) of
        (Inr (Some (SAppendEntries q)), lw) \<Rightarrow>
          (case rpc_append_entries ident \<lparr>req_trace = Some tr, req_inner = q\<rparr> (snd ws) of
             (Inr (Inr resp), fw) \<Rightarrow>
               (case process_replication_response (rr_term params) (node_id ident)
                       (Inr (Some (OAppendEntries (ae_prev_log_index q) (length (ae_entries q)) (resp_inner resp)))
                         :: status + replication_outcome option) lw of
                  (Inr (Inr RContinue), lw') \<Rightarrow> Some ((q, resp_inner resp), lw', fw)
                | _ \<Rightarrow> None)
           | _ \<Rightarrow> None)
      | _ \<Rightarrow> None)"

fun exchanges :: "node_identity \<Rightarrow> trace_id \<Rightarrow> replication_round_params list \<Rightarrow> world \<times> world
    \<Rightarrow> ((append_entries_request \<times> append_entries_response) list \<times> world \<times> world) option" where
  "exchanges ident tr [] ws = Some ([], ws)"
| "exchanges ident tr (p # ps) ws =
     (case exchange ident tr p ws of
        None \<Rightarrow> None
      | Some (x, ws') \<Rightarrow> map_option (\<lambda>(xs, ws''). (x # xs, ws'')) (exchanges ident tr ps ws'))"

text \<open>
  The leader's next index for the peer stands right behind \<open>prev\<close>, inside its log; the peer's log reaches
  \<open>prev\<close>, with another term there; both stores work and both nodes are in term \<open>t\<close>.
\<close>

definition diverged :: "raft_term \<Rightarrow> log_index \<Rightarrow> log_store \<Rightarrow> log_store \<Rightarrow> bool" where
  "diverged t prev dl df \<longleftrightarrow>
     healthy dl \<and> hard_state_ok dl \<and> log_ok dl \<and> disk_term dl = t \<and> disk_snap dl \<le> prev
     \<and> healthy df \<and> hard_state_ok df \<and> disk_term df = t \<and> is_u64 t
     \<and> 0 < prev \<and> prev \<le> disk_last df \<and> is_u64 (Suc (disk_last df)) \<and> disk_term_at df prev \<noteq> disk_term_at dl prev"

definition stands :: "node_identity \<Rightarrow> log_index \<Rightarrow> logical_node \<Rightarrow> logical_node \<Rightarrow> bool" where
  "stands ident prev lead fol \<longleftrightarrow>
     (\<exists>n. role lead = Leader n \<and> get_or (next_index (state n)) (node_id ident) 1 = Suc prev)
     \<and> (\<exists>n. role fol = Follower n \<and> identity n = ident)"

definition stalled_request :: "raft_term \<Rightarrow> log_index \<Rightarrow> log_store \<Rightarrow> replication_round_params \<Rightarrow> append_entries_request" where
  "stalled_request t prev dl params =
     new_append_entries_request t (rr_node_id params) prev (disk_term_at dl prev)
       (map (\<lambda>k. the (disk_entry dl k)) (incl_range (Suc prev) (disk_last dl))) (rr_last_committed params)"

definition stalled_answer :: "raft_term \<Rightarrow> log_store \<Rightarrow> append_entries_response" where
  "stalled_answer t df = \<lparr>aer_term = t, aer_success = False, aer_last_log_index = disk_last df\<rparr>"

lemma delegate_read_healthy:
  "role ln \<noteq> Poisoned \<Longrightarrow> f d = Inr x \<Longrightarrow> delegate_read f (ln, d) = (Inr x, ln, d)"
  by (cases "role ln") (simp_all add: delegate_read_def is_poisoned_def)

lemma prepare_stalled:
  assumes "diverged t prev dl df" "stands ident prev ln fol" "rr_term params = t"
  shows "prepare_replication (node_id ident) params (ln, dl) = (Inr (Some (SAppendEntries (stalled_request t prev dl params))), ln, dl)"
proof -
  obtain n where n: "role ln = Leader n" "get_or (next_index (state n)) (node_id ident) 1 = Suc prev"
    using assms(2) by (auto simp: stands_def)
  have d: "healthy dl" "log_ok dl" "disk_snap dl \<le> prev" using assms(1) by (simp_all add: diverged_def)
  note reads = delegate_read_healthy node_read_def ln_last_included_index_def ln_last_log_index_def ln_get_term_at_def
    ln_read_entries_def sled_read_entries_healthy[OF d(1,2)]
  show ?thesis
    using n d assms(3)
    by (simp add: prepare_replication_def determine_replication_strategy_def build_append_entries_request_def reads
        next_index_of_def log_index_sub_def stalled_request_def st_bind_def st_gets_def)
qed

lemma answer_stalled:
  assumes "diverged t prev dl df" "stands ident prev lead ln" "valid_node_id (rr_node_id params)"
  shows "\<exists>ln'. rpc_append_entries ident \<lparr>req_trace = Some tr, req_inner = stalled_request t prev dl params\<rparr> (ln, df) =
      (Inr (Inr \<lparr>resp_trace = Some tr, resp_inner = stalled_answer t df\<rparr>), ln', df)
    \<and> (\<exists>n. role ln' = Follower n \<and> identity n = ident)"
proof -
  obtain n where n: "role ln = Follower n" "identity n = ident" using assms(2) by (auto simp: stands_def)
  have d: "healthy df" "hard_state_ok df" "disk_term df = t" "is_u64 t" "prev \<le> disk_last df" "0 < prev"
    "disk_term_at df prev \<noteq> disk_term_at dl prev" using assms(1) by (simp_all add: diverged_def)
  then have m: "\<not> log_matches prev (disk_term_at dl prev) df" by (simp add: log_matches_def)
  let ?n = "n\<lparr>state := (state n)\<lparr>leader_id := Some (rr_node_id params), f_last_heartbeat := current_tick ln\<rparr>\<rparr>"
  have "handle_append_entries (rr_node_id params) t prev (disk_term_at dl prev) es lc (ln, df) =
      (Inr (inconsistent t (disk_last df)), ln\<lparr>role := Follower ?n\<rparr>, df)" for es lc
    using n d reconcile_log_rejects[OF d(1) m]
    by (simp add: handle_append_entries_def validate_leader_rpc_term_def st_bind_def recognise_leader_def set_role_def
        reset_heartbeat_follower reconcile_as_follower_def run_node_def or_fatal_def reconciled_def)
  then show ?thesis
    using n assms(3)
    by (simp add: rpc_append_entries_def with_params_def require_trace_id_def append_params_try_from_proto_def parse_sender_def
        stalled_request_def new_append_entries_request_def execute_append_logic_def verify_node_integrity_def
        st_bind_def stalled_answer_def inconsistent_def)
qed

lemma process_stalled:
  assumes "diverged t prev dl df" "stands ident prev ln fol"
  shows "\<exists>ln'. process_replication_response t (node_id ident)
      (Inr (Some (OAppendEntries sp sl (stalled_answer t df))) :: status + replication_outcome option) (ln, dl) =
      (Inr (Inr RContinue), ln', dl)
    \<and> (\<exists>n. role ln' = Leader n \<and> get_or (next_index (state n)) (node_id ident) 1 = Suc prev)"
proof -
  obtain n where n: "role ln = Leader n" "get_or (next_index (state n)) (node_id ident) 1 = Suc prev"
    using assms(2) by (auto simp: stands_def)
  have d: "healthy dl" "hard_state_ok dl" "disk_term dl = t" "prev \<le> disk_last df" "0 < prev" "is_u64 (Suc (disk_last df))"
    using assms(1) by (simp_all add: diverged_def)
  have nx: "next_index (acknowledge_heartbeat p q l) = next_index l" for p q l
    by (simp add: acknowledge_heartbeat_def Let_def)
  show ?thesis
    using n d
    by (simp add: process_replication_response_def st_bind_def stalled_answer_def reconcile_as_leader_def Let_def
        after_mismatch_def log_index_add_def checked_add_u64_def is_u64_def nx get_or_update set_role_def)
qed

lemma exchange_stalled:
  assumes "diverged t prev dl df" "stands ident prev lead fol" "rr_term params = t" "valid_node_id (rr_node_id params)"
  shows "\<exists>lead' fol'. exchange ident tr params ((lead, dl), (fol, df)) =
      Some ((stalled_request t prev dl params, stalled_answer t df), (lead', dl), (fol', df)) \<and> stands ident prev lead' fol'"
proof -
  obtain fol' where f: "rpc_append_entries ident \<lparr>req_trace = Some tr, req_inner = stalled_request t prev dl params\<rparr> (fol, df) =
      (Inr (Inr \<lparr>resp_trace = Some tr, resp_inner = stalled_answer t df\<rparr>), fol', df)"
    "\<exists>n. role fol' = Follower n \<and> identity n = ident"
    using answer_stalled[OF assms(1,2,4)] by blast
  let ?q = "stalled_request t prev dl params"
  obtain lead' where l: "process_replication_response t (node_id ident)
      (Inr (Some (OAppendEntries (ae_prev_log_index ?q) (length (ae_entries ?q)) (stalled_answer t df)))
        :: status + replication_outcome option) (lead, dl) = (Inr (Inr RContinue), lead', dl)"
    "\<exists>n. role lead' = Leader n \<and> get_or (next_index (state n)) (node_id ident) 1 = Suc prev"
    using process_stalled[OF assms(1,2)] by blast
  show ?thesis
    using f l prepare_stalled[OF assms(1-3)] assms(3) by (auto simp: exchange_def stands_def)
qed

text \<open>
  C38 The retry can stall for good. When a follower's log reaches the previous index of the leader's request but
  holds another term there, it answers with its last index, and that leaves the leader's next index where
  it was. However many rounds the leader runs, every one of them sends this follower the same previous
  index, term and entries and gets the same refusal; neither store changes, the leader still leads
  with the same next index, and the follower still follows. Only a follower whose log is
  shorter than the leader's guess makes the leader go back.
\<close>
theorem backoff_stalls:
  assumes "diverged t prev dl df" "stands ident prev lead fol"
    and "\<forall>p \<in> set rounds. rr_term p = t \<and> valid_node_id (rr_node_id p)"
  shows "\<exists>lead' fol'. exchanges ident tr rounds ((lead, dl), (fol, df)) =
      Some (map (\<lambda>p. (stalled_request t prev dl p, stalled_answer t df)) rounds, (lead', dl), (fol', df))
    \<and> stands ident prev lead' fol'"
  using assms(2,3)
proof (induction rounds arbitrary: lead fol)
  case (Cons p ps)
  obtain lead1 fol1 where e: "exchange ident tr p ((lead, dl), (fol, df)) =
      Some ((stalled_request t prev dl p, stalled_answer t df), (lead1, dl), (fol1, df))" "stands ident prev lead1 fol1"
    using exchange_stalled[OF assms(1) Cons.prems(1), of p tr] Cons.prems(2) by auto
  with Cons.IH[OF e(2)] Cons.prems(2) show ?case by force
qed simp

text \<open>
  A leader of term 3 whose second entry is of term 2, and a follower that kept an entry of term 1 there: after a
  thousand rounds nothing has moved.
\<close>
theorem backoff_stalls_witness:
  "\<exists>lead' fol'. exchanges (sample_identity\<lparr>node_id := 2\<rparr>) 7 (replicate 1000 \<lparr>rr_term = 3, rr_node_id = 1, rr_last_committed = 0\<rparr>)
      ((sample_node (Leader sample_leader), store_with 3 [entry 1 1, entry 2 2]),
       (sample_node (Follower (sample_follower\<lparr>identity := sample_identity\<lparr>node_id := 2\<rparr>\<rparr>)), sample_store 3)) =
      Some (replicate 1000 (new_append_entries_request 3 1 2 2 [] 0, \<lparr>aer_term = 3, aer_success = False, aer_last_log_index = 2\<rparr>),
        (lead', store_with 3 [entry 1 1, entry 2 2]), (fol', sample_store 3))"
proof -
  let ?dl = "store_with 3 [entry 1 1, entry 2 2]" and ?id = "sample_identity\<lparr>node_id := 2\<rparr>"
  let ?p = "\<lparr>rr_term = 3, rr_node_id = 1, rr_last_committed = 0\<rparr>"
  have u: "is_u64 3" "is_u64 0" "is_u64 (Suc 0)" "is_u64 (Suc (Suc 0))" "valid_node_id 1"
    by (simp_all add: is_u64_def u64_bound_def valid_node_id_def)
  have l: "disk_last ?dl = 2" "disk_term_at ?dl 2 = 2"
    by (simp_all add: disk_last_def disk_physical_def disk_snap_def tree_last_def disk_term_at_def disk_entry_def tree_get_def sample_defs)
  have "log_ok ?dl"
    using u l by (simp add: log_ok_def incl_range_def disk_entry_def tree_get_def tree_ok_def sample_defs numeral_2_eq_2 disk_snap_def)
  then have d: "diverged 3 2 ?dl (sample_store 3)"
    using u l by (simp add: diverged_def sample_term_at is_u64_def u64_bound_def)
  have s: "stands ?id 2 (sample_node (Leader sample_leader)) (sample_node (Follower (sample_follower\<lparr>identity := ?id\<rparr>)))"
    by (simp add: stands_def sample_node_def sample_leader_def get_or_def)
  have q: "stalled_request 3 2 ?dl ?p = new_append_entries_request 3 1 2 2 [] 0"
    using l by (simp add: stalled_request_def incl_range_def)
  from backoff_stalls[OF d s, of "replicate 1000 ?p" 7] u(5) show ?thesis
    by (auto simp: q[simplified] stalled_answer_def map_replicate)
qed

section \<open>Late answers\<close>

lemma into_follower_regression:
  assumes "healthy d" "hard_state_ok d" "role ln \<noteq> Poisoned" "t < disk_term d"
  shows "\<exists>ln'. into_follower t lo (ln, d) = (Inl (Halt (Protocol ''Term regression detected!'')), ln', d) \<and> role ln' = Poisoned"
  using assms
  by (cases "role ln")
    (auto simp: into_follower_def try_into_follower_def advance_term_def node_read_def install_role_def st_bind_def
      st_fail_def Let_def split: prod.splits)

text \<open>
  C39 A late answer of an abandoned campaign or replication round can halt a healthy node: when the answer's term
  is above the term of the round but below the term the node has reached meanwhile, the handler tries to
  step down to that older term, the term check fails, and the node is poisoned. The answers are compared
  with the term of the round and not with the node's current one.
\<close>
theorem late_answer_poisons:
  assumes "healthy d" "hard_state_ok d" "role ln \<noteq> Poisoned"
    and "t < rvr_term resp" "rvr_term resp < disk_term d" "t < outcome_term out" "outcome_term out < disk_term d"
  shows "(\<exists>ln'. process_vote_response t ps peer (Inr resp :: status + request_vote_response) (ln, d) =
          (Inl (Halt (Protocol ''Term regression detected!'')), ln', d) \<and> role ln' = Poisoned)
    \<and> (\<exists>ln'. process_replication_response t peer (Inr (Some out) :: status + replication_outcome option) (ln, d) =
          (Inl (Halt (Protocol ''Term regression detected!'')), ln', d) \<and> role ln' = Poisoned)"
  using into_follower_regression[OF assms(1-3,5), of None] into_follower_regression[OF assms(1-3,7), of None] assms(4,6)
  by (auto simp: process_vote_response_def process_replication_response_def st_bind_def)

theorem late_answer_poisons_witness:
  "\<exists>ln'. process_vote_response 1 [2, 3] 2 (Inr \<lparr>rvr_term = 2, rvr_vote_granted = False\<rparr> :: status + request_vote_response)
      (sample_node (Follower sample_follower), sample_store 3) =
          (Inl (Halt (Protocol ''Term regression detected!'')), ln', sample_store 3) \<and> role ln' = Poisoned"
  using late_answer_poisons[of "sample_store 3" "sample_node (Follower sample_follower)" 1
      "\<lparr>rvr_term = 2, rvr_vote_granted = False\<rparr>"
      "OAppendEntries 0 0 \<lparr>aer_term = 2, aer_success = False, aer_last_log_index = 0\<rparr>" "[2, 3]" 2]
  by (auto simp: sample_node_def is_u64_def u64_bound_def)

end
