(* ===== verification/Calm_Sections.thy ===== *)
theory Calm_Sections
  imports Log_View Cluster Leader_Properties
begin

text \<open>
  Most critical sections leave a node's log and commit index alone. The relation \<open>calm\<close> says so, together with what
  they may do to the hard state: nothing, or a new term with no vote or the node's own. Proved for every handler
  the sections are made of, whatever storage calls fail. The few sections that do more (a vote, a proposal, an append,
  an acknowledgement, a promotion) are described by a calm part, one effect and another calm part.
\<close>

section \<open>The relation\<close>

definition log_same :: "log_store \<Rightarrow> log_store \<Rightarrow> bool" where
  "log_same d d' \<longleftrightarrow> log_tree d' = log_tree d \<and> meta_last_committed d' = meta_last_committed d
     \<and> meta_snapshot_index d' = meta_snapshot_index d \<and> meta_snapshot_term d' = meta_snapshot_term d"

definition hard_le :: "node_id \<Rightarrow> log_store \<Rightarrow> log_store \<Rightarrow> bool" where
  "hard_le me d d' \<longleftrightarrow> disk_term d' = disk_term d \<and> disk_vote d' = disk_vote d
     \<or> disk_term d < disk_term d' \<and> disk_vote d' \<in> {None, Some me}"

fun role_commit_of :: "role_state \<Rightarrow> log_index option" where
  "role_commit_of (Follower n) = Some (last_committed n)"
| "role_commit_of (PreCandidate n) = Some (last_committed n)"
| "role_commit_of (Candidate n) = Some (last_committed n)"
| "role_commit_of (Leader n) = Some (last_committed n)"
| "role_commit_of Poisoned = None"

definition owned :: "node_id \<Rightarrow> role_state \<Rightarrow> bool" where
  "owned me r \<longleftrightarrow> valid_node_id me \<and> (\<forall>ident. role_identity r = Some ident \<longrightarrow> node_id ident = me)"

definition role_calm :: "node_id \<Rightarrow> world \<Rightarrow> world \<Rightarrow> bool" where
  "role_calm me w w' \<longleftrightarrow>
     (\<forall>c. role_commit_of (role (fst w')) = Some c \<longrightarrow> role_commit_of (role (fst w)) = Some c)
     \<and> (\<forall>n'. role (fst w') = Leader n' \<longrightarrow> disk_term (snd w') = disk_term (snd w)
          \<and> (\<exists>n. role (fst w) = Leader n \<and> next_index (state n') = next_index (state n) \<and> match_index (state n') = match_index (state n)))
     \<and> (\<forall>n'. role (fst w') = Candidate n' \<longrightarrow> disk_term (snd w') = disk_term (snd w) \<and> (\<exists>n. role (fst w) = Candidate n)
          \<or> disk_term (snd w) < disk_term (snd w') \<and> disk_vote (snd w') = Some me)"

definition calm :: "node_id \<Rightarrow> world \<Rightarrow> world \<Rightarrow> bool" where
  "calm me w w' \<longleftrightarrow> (owned me (role (fst w)) \<longrightarrow>
     owned me (role (fst w')) \<and> log_same (snd w) (snd w') \<and> hard_le me (snd w) (snd w') \<and> role_calm me w w')"

lemma log_sameD:
  assumes "log_same d d'"
  shows "dlog d' = dlog d" "plain d' = plain d" "disk_committed d' = disk_committed d" "disk_last d' = disk_last d"
proof -
  have e: "disk_entry d' = disk_entry d" "disk_snap d' = disk_snap d" "disk_physical d' = disk_physical d"
    "log_tree d' = log_tree d" "meta_last_committed d' = meta_last_committed d" "meta_snapshot_index d' = meta_snapshot_index d"
    "meta_snapshot_term d' = meta_snapshot_term d"
    using assms by (simp_all add: log_same_def disk_entry_def disk_snap_def disk_physical_def)
  then show l: "disk_last d' = disk_last d" by (simp add: disk_last_def)
  show "dlog d' = dlog d" "disk_committed d' = disk_committed d" "plain d' = plain d"
    by (simp_all add: dlog_def disk_committed_def plain_def log_ok_def l e)
qed

lemma calm_refl: "calm me w w"
  by (simp add: calm_def log_same_def hard_le_def role_calm_def)

lemma hard_le_trans: "hard_le me d d' \<Longrightarrow> hard_le me d' d'' \<Longrightarrow> hard_le me d d''"
  by (auto simp: hard_le_def)

lemma role_calm_trans:
  assumes "role_calm me u v" "role_calm me v w" "hard_le me (snd u) (snd v)" "hard_le me (snd v) (snd w)"
  shows "role_calm me u w"
  unfolding role_calm_def
proof (intro conjI allI impI)
  show "role_commit_of (role (fst u)) = Some c" if "role_commit_of (role (fst w)) = Some c" for c
    using assms(1,2) that by (simp add: role_calm_def)
  show "disk_term (snd w) = disk_term (snd u)" "\<exists>n. role (fst u) = Leader n \<and> next_index (state n') = next_index (state n)
      \<and> match_index (state n') = match_index (state n)" if "role (fst w) = Leader n'" for n'
    using assms(1,2) that unfolding role_calm_def by metis+
  show "disk_term (snd w) = disk_term (snd u) \<and> (\<exists>n. role (fst u) = Candidate n)
      \<or> disk_term (snd u) < disk_term (snd w) \<and> disk_vote (snd w) = Some me" if c: "role (fst w) = Candidate n'" for n'
  proof (cases "disk_term (snd v) < disk_term (snd w)")
    case True
    then show ?thesis using assms(2,3) c by (auto simp: role_calm_def hard_le_def)
  next
    case False
    with assms(2) c obtain n where n: "role (fst v) = Candidate n" "disk_term (snd w) = disk_term (snd v)" by (auto simp: role_calm_def)
    then have "disk_vote (snd w) = disk_vote (snd v)" using assms(4) by (auto simp: hard_le_def)
    with assms(1) n show ?thesis by (auto simp: role_calm_def)
  qed
qed

lemma calm_trans: "calm me u v \<Longrightarrow> calm me v w \<Longrightarrow> calm me u w"
  unfolding calm_def by (auto simp: log_same_def intro: hard_le_trans role_calm_trans)

interpretation calm: run_preorder "calm me" for me
  by unfold_locales (rule calm_refl, rule calm_trans)

lemma calmD:
  assumes "calm me w w'" "owned me (role (fst w))"
  shows "owned me (role (fst w'))" "log_same (snd w) (snd w')" "hard_le me (snd w) (snd w')"
    "role_commit_of (role (fst w')) = Some c \<Longrightarrow> role_commit_of (role (fst w)) = Some c"
    "role (fst w') = Leader n' \<Longrightarrow> disk_term (snd w') = disk_term (snd w)"
    "role (fst w') = Leader n' \<Longrightarrow> \<exists>n. role (fst w) = Leader n \<and> next_index (state n') = next_index (state n)
       \<and> match_index (state n') = match_index (state n)"
    "role (fst w') = Candidate m \<Longrightarrow> disk_term (snd w') = disk_term (snd w) \<and> (\<exists>n. role (fst w) = Candidate n)
       \<or> disk_term (snd w) < disk_term (snd w') \<and> disk_vote (snd w') = Some me"
  using assms by (simp_all add: calm_def role_calm_def)

text \<open>A change of role that keeps the store.\<close>

lemma calm_role:
  assumes "role_identity (role ln') = None \<or> role_identity (role ln') = role_identity (role ln)"
    and "role_commit_of (role ln') = None \<or> role_commit_of (role ln') = role_commit_of (role ln)"
    and "\<And>n'. role ln' = Leader n' \<Longrightarrow> \<exists>n. role ln = Leader n \<and> next_index (state n') = next_index (state n)
           \<and> match_index (state n') = match_index (state n)"
    and "\<And>n'. role ln' = Candidate n' \<Longrightarrow> \<exists>n. role ln = Candidate n"
  shows "calm me (ln, d) (ln', d)"
  using assms by (auto simp: calm_def owned_def log_same_def hard_le_def role_calm_def)

section \<open>Building blocks\<close>

lemma calm_apply_fatal: "run_rel (calm me) (apply_fatal e)"
  by (auto simp: run_rel_def apply_fatal_def set_role_def intro!: calm_role)

lemma calm_or_fatal: "run_rel (calm me) (or_fatal r)"
  by (cases r) (simp_all add: or_fatal_def calm_apply_fatal calm.run_return)

lemma calm_delegate_read: "run_rel (calm me) (delegate_read f)"
  using calm_apply_fatal by (auto simp: run_rel_def delegate_read_def calm.refl split: sum.splits)

lemma calm_reads:
  "run_rel (calm me) ln_current_term" "run_rel (calm me) ln_voted_for" "run_rel (calm me) ln_last_log_index"
  "run_rel (calm me) ln_last_log_term" "run_rel (calm me) ln_last_included_index"
  "run_rel (calm me) ln_last_included_term" "run_rel (calm me) (ln_get_term_at i)"
  "run_rel (calm me) (ln_read_entries a b)"
  by (simp_all add: ln_current_term_def ln_voted_for_def ln_last_log_index_def ln_last_log_term_def
      ln_last_included_index_def ln_last_included_term_def ln_get_term_at_def ln_read_entries_def calm_delegate_read)

lemma calm_last: "run_rel (calm me) ln_last_applied" "run_rel (calm me) ln_last_committed" "run_rel (calm me) ln_node_id"
  by (auto simp: run_rel_def ln_last_applied_def ln_last_committed_def ln_node_id_def calm.refl split: role_state.splits option.splits)

lemma log_same_set_hard_state [simp]: "log_same d (set_hard_state t v d)"
  by (simp add: log_same_def set_hard_state_def)

lemma advance_term_calm:
  assumes "advance_term t d = (r, d')"
  shows "log_same d d'" "hard_le me d d'"
proof -
  have "d' = d \<or> disk_term d < t \<and> d' = set_hard_state t None d"
    using assms by (auto simp: advance_term_def node_read_Inr split: sum.splits if_splits
        elim!: st_bind_cases node_writeE dest!: sled_current_term_Inr save_hard_state_cases)
  then show "log_same d d'" "hard_le me d d'"
    using disk_vote_set_hard_state[of None t d] by (auto simp: hard_le_def) (simp add: log_same_def)
qed

lemma calm_step_down:
  assumes "install_role Follower ln1 (try_into_follower n t l tk tmo d) = (r, w')"
    and "role_identity (role ln) = Some (identity n)" "role_commit_of (role ln) = Some (last_committed n)"
  shows "calm me (ln, d) w'"
proof -
  obtain rr d' where p: "try_into_follower n t l tk tmo d = (rr, d')" by (cases "try_into_follower n t l tk tmo d")
  then obtain ra where a: "advance_term t d = (ra, d')"
    and n: "\<And>n'. rr = Inr n' \<Longrightarrow> n' = node_transition n (new_follower l tk tmo)"
    by (auto simp: try_into_follower_def Let_def elim!: st_bind_cases)
  from assms p n show ?thesis
    by (auto simp: install_role_def calm_def owned_def role_calm_def node_transition_def advance_term_calm[OF a] split: sum.splits)
qed

lemma calm_into_follower: "run_rel (calm me) (into_follower t l)"
proof (rule run_relI)
  fix w r w' assume a: "into_follower t l w = (r, w')"
  obtain ln d where w: "w = (ln, d)" by (cases w)
  show "calm me w w'"
  proof (cases "role ln")
    case Poisoned
    then show ?thesis using a by (auto simp: into_follower_def w Let_def split: prod.splits intro!: calm_role)
  qed (use a in \<open>auto simp: into_follower_def w Let_def split: prod.splits intro: calm_step_down\<close>)
qed

lemma start_campaign_cases:
  assumes "start_campaign n s tmo d = (r, d')"
  shows "d' = d \<or> d' = set_hard_state (Suc (disk_term d)) (Some (node_id (identity n))) d"
    "r = Inr n' \<Longrightarrow> identity n' = identity n \<and> last_committed n' = last_committed n"
  using assms
  by (auto simp: start_campaign_def Let_def node_transition_def advance_term_and_vote_def term_add_def checked_add_u64_def
      node_read_Inr split: sum.splits if_splits elim!: st_bind_cases node_writeE dest!: sled_current_term_Inr save_hard_state_cases)

lemma calm_start_campaign:
  assumes "install_role Candidate ln1 (start_campaign n s tmo d) = (r, w')"
    and "role_identity (role ln) = Some (identity n)" "role_commit_of (role ln) = Some (last_committed n)"
  shows "calm me (ln, d) w'"
proof -
  obtain rr d' where p: "start_campaign n s tmo d = (rr, d')" by (cases "start_campaign n s tmo d")
  note c = start_campaign_cases[OF p]
  have l: "log_same d d'" using c(1) by (auto simp: log_same_def set_hard_state_def)
  have h: "hard_le me d d'" if "valid_node_id (node_id (identity n))" "node_id (identity n) = me"
    using c(1) that by (auto simp: hard_le_def)
  show ?thesis
  proof (cases rr)
    case (Inl e)
    then show ?thesis using assms p l h by (auto simp: install_role_def calm_def owned_def role_calm_def)
  next
    case (Inr n')
    note ok = start_campaign_ok[OF p[unfolded Inr]]
    have "disk_vote d' = Some me" if "valid_node_id (node_id (identity n))" "node_id (identity n) = me"
      using that ok(4) by simp
    with Inr assms p l h c(2)[OF Inr] ok(2) show ?thesis by (auto simp: install_role_def calm_def owned_def role_calm_def)
  qed
qed

lemma calm_into_candidate: "run_rel (calm me) into_candidate"
proof (rule run_relI)
  fix w r w' assume a: "into_candidate w = (r, w')"
  obtain ln d where w: "w = (ln, d)" by (cases w)
  show "calm me w w'"
  proof (cases "role ln")
    case (Leader n)
    with a show ?thesis by (auto simp: into_candidate_def w Let_def split: prod.splits intro!: calm_role)
  next
    case Poisoned
    with a show ?thesis by (auto simp: into_candidate_def w Let_def split: prod.splits intro!: calm_role)
  qed (use a in \<open>auto simp: into_candidate_def w Let_def follower_try_into_candidate_def pre_candidate_try_into_candidate_def
      try_into_restarted_candidate_def split: prod.splits intro: calm_start_campaign\<close>)
qed

lemma calm_into_pre_candidate: "run_rel (calm me) into_pre_candidate"
  by (auto simp: run_rel_def into_pre_candidate_def try_into_pre_candidate_def node_transition_def calm.refl
      split: role_state.splits intro!: calm_role)

lemma calm_reset_heartbeat: "run_rel (calm me) reset_heartbeat"
  by (auto simp: run_rel_def reset_heartbeat_def calm.refl split: role_state.splits intro!: calm_role)

lemma calm_tick: "run_rel (calm me) ln_tick"
  by (auto simp: run_rel_def ln_tick_def Let_def intro!: calm_role)

lemmas calm_intros = calm.run_intros calm_reads calm_last calm_into_follower calm_into_candidate calm_into_pre_candidate
  calm_reset_heartbeat calm_tick calm_apply_fatal calm_or_fatal

lemma calm_then: "calm me w w' \<Longrightarrow> run_rel (calm me) m \<Longrightarrow> calm me w (snd (m w'))"
  unfolding run_rel_def using calm.trans by blast

section \<open>Handlers and sections\<close>

lemma calm_recognise_leader: "run_rel (calm me) (recognise_leader t l)"
proof (rule run_relI)
  fix w r w' assume a: "recognise_leader t l w = (r, w')"
  show "calm me w w'"
  proof (cases "role (fst w)")
    case (Follower n)
    with a show ?thesis by (cases w) (auto simp: recognise_leader_def set_role_def intro!: calm_role)
  qed (use a run_relD[OF calm_into_follower, of t "Some l" w r w'] run_relD[OF calm_apply_fatal, of _ w r w'] calm.refl
      in \<open>auto simp: recognise_leader_def\<close>)
qed

lemma calm_validate: "run_rel (calm me) (validate_leader_rpc_term t l)"
  unfolding validate_leader_rpc_term_def by (intro calm_intros calm_recognise_leader)

lemma calm_verify_integrity: "run_rel (calm me) (verify_node_integrity ident)"
  using calm_then[OF calm.refl calm_apply_fatal]
  by (auto simp: run_rel_def verify_node_integrity_def calm.refl split: option.splits)

lemma calm_handle_pre_vote: "run_rel (calm me) (handle_pre_vote c t li lt)"
proof -
  have "run_rel (calm me) (pre_grant_as_follower c t li lt)"
    using calm_or_fatal unfolding run_rel_def pre_grant_as_follower_def by (auto simp: calm.refl split: role_state.splits)
  then show ?thesis unfolding handle_pre_vote_def by (intro calm_intros)
qed

lemma calm_with_params: "(\<And>a. run_rel (calm me) (f a)) \<Longrightarrow> run_rel (calm me) (with_params p f)"
  by (cases p) (auto simp: with_params_def intro!: calm_intros)

lemma calm_rpc_pre_vote: "run_rel (calm me) (rpc_pre_vote ident rq)"
  unfolding rpc_pre_vote_def execute_pre_vote_logic_def
  by (rule calm_with_params) (auto intro!: calm_intros calm_verify_integrity calm_handle_pre_vote)

lemma calm_capture_campaign: "run_rel (calm me) (capture_campaign t)"
  unfolding capture_campaign_def by (intro calm_intros)

lemma calm_begin_candidacy: "run_rel (calm me) begin_candidacy"
  unfolding begin_candidacy_def by (intro calm_intros calm_capture_campaign)

lemma calm_pre_vote:
  "run_rel (calm me) (on_pre_vote_response t ps v res)" "run_rel (calm me) (finish_pre_vote v ps)"
  unfolding on_pre_vote_response_def finish_pre_vote_def pre_vote_won_def pre_vote_step_down_def
  by (cases res; simp only: sum.case; intro calm_intros calm_begin_candidacy)
    (intro calm_intros calm_begin_candidacy)

lemma calm_tick_section: "run_rel (calm me) (tick_section th fr)"
  unfolding tick_section_def should_compact_log_def dispatch_tick_def Let_def
  by (intro calm_intros)
    (auto split: tick_action.splits intro!: calm_intros calm_begin_candidacy calm_capture_campaign)

lemma calm_step_down_section: "run_rel (calm me) step_down_section"
  unfolding step_down_section_def by (intro calm_intros)

lemma calm_build_request: "run_rel (calm me) (build_append_entries_request p t i c)"
  unfolding build_append_entries_request_def
  by (intro calm_intros) (auto split: sum.splits intro!: calm_intros)

lemma calm_determine_strategy: "run_rel (calm me) (determine_replication_strategy p params)"
  unfolding run_rel_def
proof
  fix w :: world
  have *: "run_rel (calm me) (st_bind ln_last_included_index
            (\<lambda>last_included.
               if get_or (next_index (state n)) p 1 \<le> last_included then
                 st_bind ln_last_included_term (\<lambda>t. st_return (Inr (Some (SInstallSnapshot last_included t))))
               else
                 st_bind (build_append_entries_request p (rr_term params) (rr_node_id params) (rr_last_committed params))
                   (\<lambda>r. st_return (map_ok (\<lambda>req. Some (SAppendEntries req)) r))))" for n :: "leader raft_node"
    by (intro calm_intros calm_build_request)
  show "calm me w (snd (determine_replication_strategy p params w))"
    using calm_then[OF calm.refl *] by (simp add: determine_replication_strategy_def calm.refl split: role_state.splits)
qed

lemma calm_prepare_replication: "run_rel (calm me) (prepare_replication p params)"
  unfolding prepare_replication_def
  by (intro calm_intros calm_determine_strategy) (auto split: sum.splits intro!: calm_intros)

lemma probe_indices:
  "next_index (snd (prepare_read_probe i l)) = next_index l" "match_index (snd (prepare_read_probe i l)) = match_index l"
  by (simp_all add: prepare_read_probe_def Let_def)

lemma leadership_probe_world:
  "snd (leadership_probe w) = w \<or> (\<exists>n i. role (fst w) = Leader n
     \<and> snd (leadership_probe w) = set_role (Leader (n\<lparr>state := snd (prepare_read_probe i (state n))\<rparr>)) w)"
  by (cases "role (fst w)"; cases "node_read sled_current_term (snd w)")
    (auto simp: leadership_probe_def Let_def split: prod.split, metis snd_conv)

lemma calm_leadership_probe: "run_rel (calm me) leadership_probe"
  unfolding run_rel_def
proof
  fix w :: world
  obtain ln d where w: "w = (ln, d)" by (cases w)
  from leadership_probe_world[of w] show "calm me w (snd (leadership_probe w))"
  proof (elim disjE exE conjE)
    fix n i assume "role (fst w) = Leader n"
      "snd (leadership_probe w) = set_role (Leader (n\<lparr>state := snd (prepare_read_probe i (state n))\<rparr>)) w"
    then show ?thesis by (auto simp: w set_role_def probe_indices intro!: calm_role)
  qed (simp add: calm.refl)
qed

end
