(* ===== verification/Section_Effects.thy ===== *)
theory Section_Effects
  imports Calm_Sections
begin

text \<open>
  The sections that do more than \<open>calm\<close> allows, each as a calm part, one effect and another calm part; and what the
  requests a section sends out say about the world at its end.
\<close>

section \<open>Reads\<close>

lemma delegate_read_Inr: "delegate_read f w = (Inr x, w') \<Longrightarrow> w' = w \<and> f (snd w) = Inr x"
  by (auto simp: delegate_read_def apply_fatal_def split: if_splits sum.splits)

lemma ln_reads_Inr:
  "ln_last_log_index w = (Inr i, w') \<Longrightarrow> w' = w \<and> i = disk_last (snd w)"
  "ln_last_log_term w = (Inr t, w') \<Longrightarrow> w' = w \<and> t = disk_last_term (snd w)"
  "ln_get_term_at k w = (Inr t, w') \<Longrightarrow> w' = w \<and> t = disk_term_at (snd w) k"
  "ln_read_entries a b w = (Inr es, w') \<Longrightarrow> w' = w \<and> sled_read_entries a b (snd w) = Inr es"
  "ln_last_included_index w = (Inr i, w') \<Longrightarrow> w' = w"
  "ln_node_id w = (Inr me, w') \<Longrightarrow> w' = w"
  "ln_last_committed w = (Inr i, w') \<Longrightarrow> w' = w \<and> role_commit_of (role (fst w)) = Some i"
  by (auto simp: ln_last_log_index_def ln_last_log_term_def ln_get_term_at_def ln_read_entries_def ln_last_included_index_def
      ln_node_id_def ln_last_committed_def node_read_Inr split: option.splits role_state.splits
      dest!: delegate_read_Inr get_term_at_Inr sled_last_log_term_Inr sled_last_log_index_Inr)

lemma role_same: "role ln = r \<Longrightarrow> ln\<lparr>role := r\<rparr> = ln"
  by (cases ln) simp

section \<open>Campaigns\<close>

text \<open>A node asks for votes as the candidate of a term it just started, or as the leader it already is.\<close>

definition campaigned :: "campaign_params \<Rightarrow> world \<Rightarrow> world \<Rightarrow> bool" where
  "campaigned p w w' \<longleftrightarrow> cp_term p = disk_term (snd w') \<and> cp_last_log_index p = disk_last (snd w')
     \<and> cp_last_log_term p = disk_last_term (snd w')
     \<and> ((\<exists>n. role (fst w') = Leader n) \<or> (\<exists>n. role (fst w') = Candidate n) \<and> disk_term (snd w) < disk_term (snd w'))"

lemma capture_campaign_Inr:
  "capture_campaign t w = (Inr p, w') \<Longrightarrow> w' = w \<and> cp_term p = t \<and> cp_last_log_index p = disk_last (snd w)
     \<and> cp_last_log_term p = disk_last_term (snd w)"
  by (auto simp: capture_campaign_def elim!: st_bind_InrE dest!: ln_reads_Inr)

lemma into_candidate_Inr:
  assumes "into_candidate w = (Inr u, w')"
  shows "role (fst w') = Poisoned \<or> (\<exists>n. role (fst w') = Leader n)
    \<or> (\<exists>n. role (fst w') = Candidate n) \<and> disk_term (snd w) < disk_term (snd w')"
proof (cases "role (fst w)")
  case Poisoned
  with assms show ?thesis by (cases w) (auto simp: into_candidate_def Let_def split: prod.splits)
next
  case (Leader n)
  with assms show ?thesis by (cases w) (auto simp: into_candidate_def Let_def split: prod.splits)
qed (use assms in \<open>(cases w; auto simp: into_candidate_def Let_def install_role_def follower_try_into_candidate_def
      pre_candidate_try_into_candidate_def try_into_restarted_candidate_def split: prod.splits sum.splits dest: start_campaign_ok(2))+\<close>)

lemma poisoned_term: "role (fst w) = Poisoned \<Longrightarrow> ln_current_term w \<noteq> (Inr t, w')"
  by (simp add: ln_current_term_def delegate_read_def is_poisoned_def)

lemma begin_candidacy_Inr:
  assumes "begin_candidacy w = (Inr p, w')"
  shows "campaigned p w w'"
proof -
  from assms obtain u w1 t w2 where a: "into_candidate w = (Inr u, w1)" "ln_current_term w1 = (Inr t, w2)"
    "capture_campaign t w2 = (Inr p, w')"
    by (auto simp: begin_candidacy_def elim!: st_bind_InrE)
  have "w2 = w1" "t = disk_term (snd w1)" using ln_current_term_Inr[OF a(2)] by auto
  with into_candidate_Inr[OF a(1)] capture_campaign_Inr[OF a(3)] a(2) poisoned_term[of w1 t w2] show ?thesis
    by (auto simp: campaigned_def)
qed

lemma engine_term: "engine_le w w' \<Longrightarrow> disk_term (snd w) \<le> disk_term (snd w')"
  by (auto simp: engine_le_def dest: vote_le_term)

lemma campaigned_from: "campaigned p w1 w' \<Longrightarrow> disk_term (snd w) \<le> disk_term (snd w1) \<Longrightarrow> campaigned p w w'"
  by (auto simp: campaigned_def)

lemma pre_vote_won_Inr: "pre_vote_won w = (Inr p, w') \<Longrightarrow> campaigned p w w'"
  by (auto simp: pre_vote_won_def elim!: st_bind_InrE dest!: ln_current_term_Inr begin_candidacy_Inr)

lemma on_pre_vote_response_Inr:
  assumes "on_pre_vote_response t ps v res w = (Inr (PvElection p), w')"
  shows "campaigned p w w'"
proof -
  have e: "run_rel engine_le (pre_vote_step_down t res)"
    unfolding pre_vote_step_down_def by (cases res; simp only: sum.case; intro engine_intros)
  from assms obtain b w1 where "pre_vote_step_down t res w = (Inr b, w1)" "pre_vote_won w1 = (Inr p, w')"
    by (auto simp: on_pre_vote_response_def split: if_splits elim!: st_bind_InrE)
  with pre_vote_won_Inr campaigned_from engine_term[OF run_relD[OF e]] show ?thesis by blast
qed

text \<open>The locked part of a tick: everything before the dispatch leaves log and term alone.\<close>

lemma tick_section_Inr:
  assumes "tick_section th fr w = (Inr (x, disp), w')"
  obtains t a w1 where "dispatch_tick t a w1 = (Inr disp, w')" "t = disk_term (snd w)" "snd w1 = snd w" "role (fst w1) = role (fst w)"
proof -
  from assms obtain a w1 t w2 b w3 cm w4 me w5 where st: "ln_tick w = (Inr a, w1)" "ln_current_term w1 = (Inr t, w2)"
    "should_compact_log th fr w2 = (Inr b, w3)"
    "(if b then st_bind ln_last_applied (\<lambda>i. st_bind (ln_get_term_at i) (\<lambda>it. st_return (Some (i, it)))) else st_return None) w3
       = (Inr cm, w4)"
    "dispatch_tick t a w4 = (Inr disp, w5)" "ln_node_id w5 = (Inr me, w')"
    by (auto simp: tick_section_def elim!: st_bind_InrE)
  have "w4 = w3" using st(4) by (auto simp: ln_last_applied_def split: if_splits role_state.splits elim!: st_bind_InrE dest!: ln_reads_Inr(3))
  moreover have "w3 = w2" using st(3)
    by (auto simp: should_compact_log_def Let_def ln_last_applied_def split: if_splits role_state.splits elim!: st_bind_InrE dest!: ln_reads_Inr(5))
  moreover have "snd w1 = snd w" "role (fst w1) = role (fst w)" using st(1) by (cases w; auto simp: ln_tick_def Let_def)+
  ultimately show ?thesis using that[of t a w4] st(5) ln_current_term_Inr[OF st(2)] ln_reads_Inr(6)[OF st(6)] by simp
qed

lemma tick_election:
  assumes "tick_section th fr w = (Inr (x, DispatchElection p), w')"
  shows "campaigned p w w'"
proof -
  from assms obtain t a w1 where "dispatch_tick t a w1 = (Inr (DispatchElection p), w')" "snd w1 = snd w"
    by (rule tick_section_Inr)
  then have "begin_candidacy w1 = (Inr p, w')"
    by (auto simp: dispatch_tick_def split: tick_action.splits elim!: st_bind_InrE)
  from begin_candidacy_Inr[OF this] \<open>snd w1 = snd w\<close> show ?thesis by (auto intro: campaigned_from)
qed

lemma tick_replication:
  assumes "tick_section th fr w = (Inr (x, DispatchReplication p), w')"
  shows "rr_term p = disk_term (snd w')" "role_commit_of (role (fst w')) = Some (rr_last_committed p)"
proof -
  from assms obtain t a w1 where "dispatch_tick t a w1 = (Inr (DispatchReplication p), w')" "t = disk_term (snd w)" "snd w1 = snd w"
    by (rule tick_section_Inr)
  then show "rr_term p = disk_term (snd w')" "role_commit_of (role (fst w')) = Some (rr_last_committed p)"
    by (auto simp: dispatch_tick_def split: tick_action.splits elim!: st_bind_InrE dest!: ln_reads_Inr(6,7))
qed

lemma run_section_campaign:
  assumes "run_section ident ps sec w = (Some p, w')"
  shows "campaigned p w w'"
proof (cases sec)
  case (LTick th fr)
  then show ?thesis using assms tick_election
    by (auto split: prod.splits sum.splits tick_dispatch.splits)
next
  case (LPreVoteResponse t v res)
  then show ?thesis using assms on_pre_vote_response_Inr[of t ps v res w p w']
    by (auto split: prod.splits sum.splits pre_vote_outcome.splits)
next
  case (LFinishPreVote v)
  then show ?thesis using assms pre_vote_won_Inr[of w p]
    by (auto simp: finish_pre_vote_def split: prod.splits sum.splits if_splits elim!: st_bind_InrE)
qed (use assms in auto)

section \<open>Appends\<close>

lemma into_follower_term:
  assumes "into_follower t l w = (Inr u, w')"
  shows "disk_term (snd w') = t"
proof -
  have a: "disk_term d' = t" if "advance_term t d = (Inr v, d')" for d d' v
    using that by (auto simp: advance_term_def node_read_Inr split: sum.splits if_splits
        elim!: st_bind_InrE node_writeE dest!: sled_current_term_Inr save_hard_state_cases)
  have b: "disk_term (snd x') = t" if "install_role Follower ln1 (try_into_follower n t l tk tmo d) = (Inr v, x')"
    for ln1 tk tmo d v x' and n :: "'r raft_node"
    using that a by (auto simp: install_role_def try_into_follower_def Let_def split: prod.splits sum.splits elim!: st_bind_InrE)
  show ?thesis
    using assms by (cases w) (auto simp: into_follower_def Let_def split: prod.splits role_state.splits dest: b)
qed

lemma validate_valid:
  assumes "validate_leader_rpc_term t l w = (Inr c, w')" "c \<noteq> TermStale"
  shows "disk_term (snd w') = t"
proof -
  from assms obtain u where n: "\<not> t < disk_term (snd w)"
    "(if t > disk_term (snd w) then into_follower t (Some l) else recognise_leader t l) w = (Inr u, w')"
    by (auto simp: validate_leader_rpc_term_def split: if_splits elim!: st_bind_InrE dest!: ln_current_term_Inr)
  then show ?thesis
    by (cases "role (fst w)") (auto simp: recognise_leader_def set_role_def apply_fatal_def split: if_splits prod.splits
        dest: into_follower_term)
qed

text \<open>A served append: either nothing happened to the log, or a follower in the term of the request reconciled it.\<close>

definition answered :: "(halt + status + append_entries_response response) \<Rightarrow> bool" where
  "answered r \<longleftrightarrow> (\<exists>resp. r = Inr (Inr resp) \<and> aer_success (resp_inner resp))"

lemma reconcile_as_follower_cases:
  assumes "reconcile_as_follower prev pt es lc w = (r, w')"
  obtains (calm) "calm me w w'" "\<And>x. r = Inr x \<Longrightarrow> \<not> aes_success x"
  | (reconciled) n res n' d' where "role (fst w) = Follower n" "reconcile_log prev pt es lc (n, snd w) = (res, n', d')"
      "calm me ((fst w)\<lparr>role := Follower n'\<rparr>, d') w'" "\<And>x. r = Inr x \<Longrightarrow> aes_success x \<Longrightarrow> \<exists>ok. res = Inr ok \<and> rec_success ok"
proof (cases "\<exists>n. role (fst w) = Follower n")
  case True
  then obtain n where Follower: "role (fst w) = Follower n" by blast
  obtain res n' d' where p: "reconcile_log prev pt es lc (n, snd w) = (res, n', d')" by (metis prod_cases3)
  let ?tail = "st_bind (or_fatal res) (\<lambda>result. st_bind ln_current_term
      (\<lambda>t. st_return (if rec_success result then append_success t (rec_last_index result)
                      else inconsistent t (rec_last_index result))))"
  have t: "?tail ((fst w)\<lparr>role := Follower n'\<rparr>, d') = (r, w')"
    using assms unfolding reconcile_as_follower_def Follower role_state.case run_node_def
    by (simp only: case_prod_beta p Let_def fst_conv snd_conv)
  have "run_rel (calm me) ?tail" by (intro calm_intros)
  from run_relD[OF this t] have c: "calm me ((fst w)\<lparr>role := Follower n'\<rparr>, d') w'" .
  have "\<exists>ok. res = Inr ok \<and> rec_success ok" if "r = Inr x" "aes_success x" for x
    using t that by (auto simp: or_fatal_def apply_fatal_def inconsistent_def split: sum.splits if_splits elim!: st_bind_InrE)
  with c p Follower reconciled show ?thesis by blast
next
  case other: False
  let ?m = "st_bind ln_current_term (\<lambda>t. st_return (inconsistent t 0))"
  have m: "?m w = (r, w')" using assms other by (auto simp: reconcile_as_follower_def split: role_state.splits)
  have "run_rel (calm me) ?m" by (intro calm_intros)
  from run_relD[OF this m] have "calm me w w'" .
  moreover have "\<not> aes_success x" if "r = Inr x" for x
    using m that by (auto simp: inconsistent_def elim!: st_bind_InrE)
  ultimately show ?thesis using calm by blast
qed

lemma handle_append_cases:
  assumes "handle_append_entries l t prev pt es lc w = (r, w')"
  obtains (calm) "calm me w w'" "\<And>x. r = Inr x \<Longrightarrow> \<not> aes_success x"
  | (reconciled) w1 n res n' d' where "calm me w w1" "disk_term (snd w1) = t" "role (fst w1) = Follower n"
      "reconcile_log prev pt es lc (n, snd w1) = (res, n', d')" "calm me ((fst w1)\<lparr>role := Follower n'\<rparr>, d') w'"
      "\<And>x. r = Inr x \<Longrightarrow> aes_success x \<Longrightarrow> \<exists>ok. res = Inr ok \<and> rec_success ok"
proof -
  note keep = calm and merge = reconciled
  from assms[unfolded handle_append_entries_def] show ?thesis
  proof (cases rule: st_bind_cases)
    case (error e)
    from run_relD[OF calm_reads(1) error(1)] error(2) show ?thesis by (intro keep) auto
  next
    case (ok cur wa)
    have wa: "wa = w" using ln_current_term_Inr[OF ok(1)] by simp
    from ok(2)[unfolded wa] show ?thesis
    proof (cases rule: st_bind_cases)
      case (error e)
      from run_relD[OF calm_validate error(1)] error(2) show ?thesis by (intro keep) auto
    next
      case (ok check wb)
      note c1 = run_relD[OF calm_validate ok(1), of me]
      show ?thesis
      proof (cases "check = TermStale")
        case True
        with ok(2) c1 show ?thesis by (intro keep) (auto simp: stale_term_def)
      next
        case False
        then obtain wc where c: "reset_heartbeat wb = (Inr (), wc)" "reconcile_as_follower prev pt es lc wc = (r, w')"
          using ok(2) by (auto simp: reset_heartbeat_def)
        have t: "disk_term (snd wc) = t"
          using validate_valid[OF ok(1) False] c(1) by (cases wb) (auto simp: reset_heartbeat_def split: role_state.splits)
        note c2 = calm.trans[OF c1 run_relD[OF calm_reset_heartbeat c(1)]]
        from c(2) show ?thesis
        proof (cases rule: reconcile_as_follower_cases[where me = me])
          case calm
          show ?thesis by (rule keep[OF calm.trans[OF c2 calm(1)] calm(2)])
        next
          case (reconciled n res n' d')
          show ?thesis by (rule merge[OF c2 t reconciled])
        qed
      qed
    qed
  qed
qed

lemma with_params_cases:
  assumes "with_params p f w = (r, w')"
  obtains (rejected) st where "p = Inl st" "r = Inr (Inl st)" "w' = w"
  | (served) a r' where "p = Inr a" "f a w = (r', w')" "\<And>y. r = Inr (Inr y) \<Longrightarrow> r' = Inr y" "\<And>y. r' = Inr y \<Longrightarrow> r = Inr (Inr y)"
proof (cases p)
  case (Inl st)
  with assms show ?thesis by (auto simp: with_params_def intro: rejected)
next
  case (Inr a)
  obtain r' w1 where f: "f a w = (r', w1)" by (cases "f a w")
  with assms Inr show ?thesis
    by (intro served[OF Inr, of r']) (auto simp: with_params_def st_bind_def split: sum.splits)
qed

lemma rpc_append_cases:
  assumes "rpc_append_entries ident \<lparr>req_trace = tr, req_inner = q\<rparr> w = (r, w')"
  obtains (calm) "calm me w w'" "\<not> answered r"
  | (reconciled) w1 n res n' d' where "calm me w w1" "disk_term (snd w1) = ae_term q" "role (fst w1) = Follower n"
      "reconcile_log (ae_prev_log_index q) (ae_prev_log_term q) (ae_entries q) (ae_leader_commit q) (n, snd w1) = (res, n', d')"
      "calm me ((fst w1)\<lparr>role := Follower n'\<rparr>, d') w'" "answered r \<Longrightarrow> \<exists>ok. res = Inr ok \<and> rec_success ok"
proof -
  note keep = calm and merge = reconciled
  from assms[unfolded rpc_append_entries_def] show ?thesis
  proof (cases rule: with_params_cases)
    case (rejected st)
    then show ?thesis by (intro keep) (auto simp: answered_def calm.refl)
  next
    case (served a r')
    from served(1) obtain t p where a: "a = (t, p)" and p: "append_params_try_from_proto q = Inr p"
      by (auto simp: res_bind_Inr_iff map_ok_Inr_iff)
    have pq: "ap_term p = ae_term q" "ap_prev_log_index p = ae_prev_log_index q" "ap_prev_log_term p = ae_prev_log_term q"
      "ap_entries p = ae_entries q" "ap_leader_commit p = ae_leader_commit q"
      using p by (auto simp: append_params_try_from_proto_def res_bind_Inr_iff)
    obtain rx wx where "execute_append_logic ident p w = (rx, wx)" by (cases "execute_append_logic ident p w")
    with served(2)[unfolded a] have x: "execute_append_logic ident p w = (rx, w')"
      "\<And>y. r' = Inr y \<Longrightarrow> \<exists>z. rx = Inr z \<and> aer_success (resp_inner y) = aes_success z"
      by (auto simp: st_bind_def split: sum.splits)
    have ans: "\<exists>z. rx = Inr z \<and> aes_success z" if "answered r"
      using that served(3) x(2) by (fastforce simp: answered_def)
    from x(1)[unfolded execute_append_logic_def] show ?thesis
    proof (cases rule: st_bind_cases)
      case (error e)
      with run_relD[OF calm_verify_integrity error(1)] ans show ?thesis by (intro keep) auto
    next
      case (ok u w1)
      note c1 = run_relD[OF calm_verify_integrity ok(1), of me]
      from ok(2) show ?thesis
      proof (cases rule: handle_append_cases[where me = me])
        case calm
        with keep[OF calm.trans[OF c1]] ans show ?thesis by blast
      next
        case (reconciled w2 n res n' d')
        have "\<exists>ok. res = Inr ok \<and> rec_success ok" if "answered r" using ans[OF that] reconciled(6) by blast
        then show ?thesis by (rule merge[OF calm.trans[OF c1 reconciled(1)] reconciled(2-5)[unfolded pq]])
      qed
    qed
  qed
qed

section \<open>Votes\<close>

lemma attempt_grant_cases:
  assumes "attempt_grant_vote c t li lt d = (r, d')"
  shows "d' = d \<or> t = disk_term d \<and> (disk_vote d = None \<or> disk_vote d = Some c) \<and> up_to_date lt li d
    \<and> d' = set_hard_state t (Some c) d"
  using assms unfolding attempt_grant_vote_def persist_vote_def
  by (auto simp: node_read_Inr split: sum.splits if_splits elim!: st_bind_cases node_writeE
      dest!: sled_current_term_Inr sled_voted_for_Inr is_log_up_to_date_Inr save_hard_state_cases)

lemma rpc_vote_cases:
  assumes "rpc_request_vote ident \<lparr>req_trace = tr, req_inner = q\<rparr> w = (r, w')"
  obtains (calm) "calm me w w'"
  | (cast) w1 c where "calm me w w1" "engine_le w w1" "node_id_from_str (rv_candidate_id q) = Inr c" "rv_term q = disk_term (snd w1)"
      "disk_vote (snd w1) = None \<or> disk_vote (snd w1) = Some c" "up_to_date (rv_last_log_term q) (rv_last_log_index q) (snd w1)"
      "\<exists>n. role (fst w1) = Follower n" "calm me (fst w1, set_hard_state (rv_term q) (Some c) (snd w1)) w'"
  using assms[unfolded rpc_request_vote_def]
proof (cases rule: with_params_cases)
  case (rejected st)
  then show ?thesis by (intro calm) (auto simp: calm.refl)
next
  case (served a r')
  from served(1) obtain t p where a: "a = (t, p)" and p: "vote_params_try_from_proto q = Inr p"
    by (auto simp: res_bind_Inr_iff map_ok_Inr_iff)
  have pq: "node_id_from_str (rv_candidate_id q) = Inr (vp_candidate_id p)" "vp_term p = rv_term q"
    "vp_last_log_index p = rv_last_log_index q" "vp_last_log_term p = rv_last_log_term q"
    using p by (auto simp: vote_params_try_from_proto_def parse_sender_def res_bind_Inr_iff map_err_def split: sum.splits)
  let ?pre = "st_bind (verify_node_integrity ident) (\<lambda>_. st_bind ln_current_term
     (\<lambda>current. if vp_term p > current then into_follower (vp_term p) None else st_return ()))"
  let ?g = "grant_as_follower (vp_candidate_id p) (vp_term p) (vp_last_log_index p) (vp_last_log_term p)"
  let ?post = "\<lambda>g. st_bind (st_bind ln_current_term (\<lambda>t. st_return \<lparr>rvs_term = t, vote_granted = g\<rparr>))
     (\<lambda>r. st_return \<lparr>resp_trace = Some t, resp_inner = \<lparr>rvr_term = rvs_term r, rvr_vote_granted = vote_granted r\<rparr>\<rparr>)"
  have assoc: "st_bind (st_bind m f) g = st_bind m (\<lambda>x. st_bind (f x) g)" for m :: "'x handler" and f :: "'x \<Rightarrow> 'y handler" and g :: "'y \<Rightarrow> 'z handler"
    by (rule ext) (auto simp: st_bind_def split: prod.splits sum.splits)
  have "st_bind ?pre (\<lambda>_. st_bind ?g ?post) w = (r', w')"
    using served(2)[unfolded a] by (simp add: execute_vote_logic_def handle_request_vote_def assoc)
  moreover have pre: "run_rel (calm me) ?pre" "run_rel engine_le ?pre"
    by (intro calm_intros calm_verify_integrity) (intro engine_intros engine_verify_integrity)
  ultimately show ?thesis
  proof (cases rule: st_bind_cases)
    case (error e)
    then show ?thesis by (intro calm run_relD[OF pre(1)])
  next
    case (ok u w1)
    note c1 = run_relD[OF pre(1) ok(1)] and e1 = run_relD[OF pre(2) ok(1)]
    have post: "run_rel (calm me) (?post g)" for g by (intro calm_intros)
    show ?thesis
    proof (cases "\<exists>n. role (fst w1) = Follower n")
      case False
      then have g: "?g w1 = (Inr False, w1)" by (auto simp: grant_as_follower_def split: role_state.splits)
      from calm[OF calm.trans[OF c1 run_relD[OF post ok(2)[unfolded st_bind_Inr[of ?g w1, OF g]]]]] show ?thesis .
    next
      case True
      then obtain n where n: "role (fst w1) = Follower n" by blast
      obtain res d' where at: "attempt_grant_vote (vp_candidate_id p) (vp_term p) (vp_last_log_index p) (vp_last_log_term p) (snd w1) = (res, d')"
        by (cases "attempt_grant_vote (vp_candidate_id p) (vp_term p) (vp_last_log_index p) (vp_last_log_term p) (snd w1)")
      have "?g w1 = or_fatal res (fst w1, d')"
        using n at by (cases w1) (simp add: grant_as_follower_def run_node_def on_disk_apply role_same)
      moreover have "run_rel (calm me) (st_bind (or_fatal res) ?post)" by (intro calm_intros)
      ultimately have c2: "calm me (fst w1, d') w'"
        using ok(2) run_relD[of "calm me" "st_bind (or_fatal res) ?post" "(fst w1, d')" r' w'] by (simp add: st_bind_def)
      from attempt_grant_cases[OF at] show ?thesis
      proof
        assume "d' = snd w1"
        with c2 show ?thesis using calm[OF calm.trans[OF c1]] by simp
      next
        assume "vp_term p = disk_term (snd w1) \<and> (disk_vote (snd w1) = None \<or> disk_vote (snd w1) = Some (vp_candidate_id p))
            \<and> up_to_date (vp_last_log_term p) (vp_last_log_index p) (snd w1) \<and> d' = set_hard_state (vp_term p) (Some (vp_candidate_id p)) (snd w1)"
        with cast[OF c1 e1 pq(1)] pq n c2 show ?thesis by auto
      qed
    qed
  qed
qed

section \<open>Proposals\<close>

lemma ln_propose_cases:
  assumes "ln_propose cmd w = (r, w')"
  obtains (calm) "calm me w w'"
  | (appended) n e where "role (fst w) = Leader n" "e_term e = disk_term (snd w)" "e_index e = Suc (disk_last (snd w))"
      "is_u64 (Suc (disk_last (snd w)))" "calm me (fst w, set_log (entry_batch [e]) (snd w)) w'"
proof (cases "\<exists>n. role (fst w) = Leader n")
  case True
  then obtain n where n: "role (fst w) = Leader n" by blast
  obtain res d' where p: "leader_propose cmd (snd w) = (res, d')" by (cases "leader_propose cmd (snd w)")
  let ?tail = "st_bind (or_fatal res) (\<lambda>idx. st_bind ln_current_term (\<lambda>_. st_return (Inr idx :: node_error + log_index)))"
  have "?tail (fst w, d') = (r, w')"
    using assms n p by (cases w) (simp add: ln_propose_def run_node_def on_disk_apply role_same)
  moreover have "run_rel (calm me) ?tail" by (intro calm_intros)
  ultimately have c: "calm me (fst w, d') w'" by (blast intro: run_relD)
  let ?e = "new_log_entry (Suc (disk_last (snd w))) (disk_term (snd w)) cmd"
  have "d' = snd w \<or> is_u64 (Suc (disk_last (snd w))) \<and> d' = set_log (entry_batch [?e]) (snd w)"
    using p unfolding leader_propose_def
    by (auto simp: node_read_Inr log_index_add_def checked_add_u64_def is_u64_def map_err_def
        split: sum.splits if_splits elim!: st_bind_cases node_writeE
        dest!: sled_last_log_index_Inr sled_current_term_Inr append_entries_cases)
  then show ?thesis using calm appended[OF n, of ?e] c by (auto simp: new_log_entry_def)
next
  case other: False
  let ?m = "st_bind ln_voted_for (\<lambda>v. st_return (Inl (NotLeader v) :: node_error + log_index))"
  have "w' = w \<or> ?m w = (r, w')" using assms other by (auto simp: ln_propose_def split: role_state.splits)
  moreover have "run_rel (calm me) ?m" by (intro calm_intros)
  ultimately show ?thesis by (auto intro: calm calm.refl run_relD)
qed

section \<open>Promotions\<close>

definition fresh_leader :: "node_id list \<Rightarrow> log_index \<Rightarrow> leader \<Rightarrow> bool" where
  "fresh_leader ps l ld \<longleftrightarrow>
     distinct (map fst (match_index ld)) \<and> map_of (match_index ld) = (\<lambda>p. if p \<in> set ps then Some 0 else None)
     \<and> map_of (next_index ld) = (\<lambda>p. if p \<in> set ps then Some (Suc l) else None)"

lemma leader_init_maps:
  assumes "leader_init ps l nx mt = Inr (nx', mt')" "distinct (map fst mt)"
  shows "distinct (map fst mt') \<and> map_of mt' = (\<lambda>p. if p \<in> set ps then Some 0 else map_of mt p)
    \<and> map_of nx' = (\<lambda>p. if p \<in> set ps then Some (Suc l) else map_of nx p)"
  using assms
proof (induction ps arbitrary: nx mt)
  case (Cons p ps)
  then have "leader_init ps l (AList.update p (Suc l) nx) (AList.update p 0 mt) = Inr (nx', mt')"
    by (auto simp: res_bind_Inr_iff log_index_add_def checked_add_u64_def split: if_splits)
  from Cons.IH[OF this distinct_update[OF Cons.prems(2)]] show ?case by (auto simp: update_conv' fun_eq_iff)
qed simp

text \<open>A node keeps its store and at most moves from candidate to a leader that knows of no replicated entry.\<close>

definition promo :: "node_id list \<Rightarrow> world \<Rightarrow> world \<Rightarrow> bool" where
  "promo ps w w' \<longleftrightarrow> snd w' = snd w
     \<and> (\<forall>ident. role_identity (role (fst w')) = Some ident \<longrightarrow> role_identity (role (fst w)) = Some ident)
     \<and> (\<forall>c. role_commit_of (role (fst w')) = Some c \<longrightarrow> role_commit_of (role (fst w)) = Some c)
     \<and> (\<forall>n'. role (fst w') = Candidate n' \<longrightarrow> (\<exists>n. role (fst w) = Candidate n))
     \<and> (\<forall>n'. role (fst w') = Leader n' \<longrightarrow> role (fst w) = Leader n'
          \<or> (\<exists>n. role (fst w) = Candidate n) \<and> fresh_leader ps (disk_last (snd w)) (state n'))"

interpretation promo: run_preorder "promo ps" for ps
proof
  show "promo ps w w" for ps w by (simp add: promo_def)
  show "promo ps u w" if "promo ps u v" "promo ps v w" for ps u v w
    using that unfolding promo_def by (elim conjE, intro conjI) (simp, blast, blast, blast, force)
qed

lemma promo_apply_fatal: "run_rel (promo ps) (apply_fatal e)"
  by (auto simp: run_rel_def promo_def apply_fatal_def set_role_def)

lemma promo_delegate_read: "run_rel (promo ps) (delegate_read f)"
  using promo_apply_fatal by (auto simp: run_rel_def delegate_read_def promo.refl split: sum.splits)

lemma promo_reads: "run_rel (promo ps) ln_current_term" "run_rel (promo ps) ln_last_log_index"
  by (simp_all add: ln_current_term_def ln_last_log_index_def promo_delegate_read)

lemma promo_tally: "run_rel (promo ps) (tally_vote t c q p)"
  by (auto simp: run_rel_def tally_vote_def promo_def Let_def set_role_def split: role_state.splits)

lemma promo_into_leader: "run_rel (promo ps) (into_leader ps)"
proof (rule run_relI)
  fix w r w' assume a: "into_leader ps w = (r, w')"
  obtain ln d where w: "w = (ln, d)" by (cases w)
  show "promo ps w w'"
  proof (cases "\<exists>n. role ln = Candidate n")
    case False
    with a have "w' = w" by (auto simp: into_leader_def w split: role_state.splits)
    then show ?thesis by (simp add: promo.refl)
  next
    case True
    then obtain n where n: "role ln = Candidate n" by blast
    from a n consider (bad) "w' = (ln\<lparr>role := Poisoned\<rparr>, d)"
      | (ok) l hb where "w' = (ln\<lparr>role := Leader (node_transition n l)\<rparr>, d)" "new_leader ps (disk_last d) hb = Inr l"
      by (auto simp: into_leader_def w install_role_def try_into_leader_def res_bind_Inr_iff node_read_Inr
          split: sum.splits dest!: sled_last_log_index_Inr)
    then show ?thesis
    proof cases
      case bad
      then show ?thesis by (simp add: promo_def w)
    next
      case ok
      have "fresh_leader ps (disk_last d) l"
        using ok(2) leader_init_maps[of ps "disk_last d" "[]" "[]"]
        by (auto simp: new_leader_def res_bind_Inr_iff map_err_def fresh_leader_def split: sum.splits prod.splits)
      with ok n show ?thesis by (simp add: promo_def w node_transition_def)
    qed
  qed
qed

lemma promo_cases:
  assumes "promo ps w w'"
  shows "calm me w w' \<or> (\<exists>n n'. role (fst w) = Candidate n \<and> role (fst w') = Leader n' \<and> snd w' = snd w
    \<and> last_committed n' = last_committed n \<and> fresh_leader ps (disk_last (snd w)) (state n'))"
proof (cases "\<exists>n'. role (fst w') = Leader n' \<and> role (fst w) \<noteq> Leader n'")
  case True
  with assms show ?thesis by (auto simp: promo_def)
next
  case False
  with assms have "calm me w w'"
    by (auto simp: promo_def calm_def owned_def log_same_def hard_le_def role_calm_def)
  then show ?thesis ..
qed

lemma vote_response_promo:
  assumes "process_vote_response t ps j (Inr resp :: 'st + request_vote_response) w = (r, w')"
  shows "calm me w w' \<or> promo ps w w'"
proof (cases "rvr_term resp > t")
  case True
  have "run_rel (calm me) (st_bind (into_follower (rvr_term resp) None) (\<lambda>_. st_return VDemoted))" by (intro calm_intros)
  with True assms show ?thesis by (auto simp: process_vote_response_def dest: run_relD)
next
  case False
  have "run_rel (promo ps) (process_vote_response t ps j (Inr resp :: 'st + request_vote_response))"
    using False unfolding process_vote_response_def
    by (auto intro!: promo.run_intros promo_reads promo_tally promo_into_leader)
  from run_relD[OF this assms] show ?thesis ..
qed

lemma finish_election_promo: "finish_election v ps w = (r, w') \<Longrightarrow> promo ps w w'"
proof -
  have "run_rel (promo ps) (finish_election v ps)"
    unfolding finish_election_def by (intro promo.run_intros promo_into_leader)
  then show "finish_election v ps w = (r, w') \<Longrightarrow> promo ps w w'" by (rule run_relD)
qed

section \<open>Acknowledgements\<close>

definition commits :: "log_index \<Rightarrow> world \<Rightarrow> world \<Rightarrow> bool" where
  "commits m w w' \<longleftrightarrow> snd w' = (snd w)\<lparr>meta_last_committed := Some m\<rparr>
     \<and> (\<exists>n. role (fst w) = Leader n \<and> (role (fst w') = Leader n \<or> role (fst w') = Leader (n\<lparr>last_committed := m\<rparr>)))"

lemma update_commit_cases:
  assumes "update_commit_index_only m (n, d) = (r, n', d')"
  shows "n' = n \<and> d' = d \<or> m \<le> disk_last d \<and> d' = d\<lparr>meta_last_committed := Some m\<rparr> \<and> (n' = n \<or> n' = n\<lparr>last_committed := m\<rparr>)"
  using assms unfolding update_commit_index_only_def
  by (auto simp: node_read_Inr on_disk_def split: sum.splits if_splits prod.splits elim!: st_bind_cases node_writeE
      dest!: sled_last_log_index_Inr save_last_committed_cases)

lemma advance_commit_cases:
  assumes "ln_advance_last_committed m w = (r, w')" "role (fst w) = Leader n"
  shows "calm me w w' \<or> m \<le> disk_last (snd w) \<and> (\<exists>w1. commits m w w1 \<and> calm me w1 w')"
proof -
  obtain ln d where w: "w = (ln, d)" by (cases w)
  obtain res n1 d1 where p: "advance_last_committed m (n, d) = (res, n1, d1)" by (metis prod_cases3)
  let ?w1 = "(ln\<lparr>role := Leader n1\<rparr>, d1)"
  have "or_fatal res ?w1 = (r, w')"
    using assms p by (simp add: ln_advance_last_committed_def delegate_mut_def run_node_def w st_bind_def)
  then have c: "calm me ?w1 w'" by (rule run_relD[OF calm_or_fatal])
  from p obtain r2 where "update_commit_index_only m (n, d) = (r2, n1, d1)"
    by (auto simp: advance_last_committed_def elim!: st_bind_cases)
  from update_commit_cases[OF this] show ?thesis
  proof (elim disjE[of "n1 = n \<and> d1 = d"] conjE)
    assume "n1 = n" "d1 = d"
    then have "?w1 = w" using assms(2) by (simp add: w role_same)
    with c show ?thesis by simp
  next
    assume m: "m \<le> disk_last d" and x: "d1 = d\<lparr>meta_last_committed := Some m\<rparr>" "n1 = n \<or> n1 = n\<lparr>last_committed := m\<rparr>"
    have "commits m w ?w1" using x assms(2) by (auto simp: commits_def w)
    with m c show ?thesis by (auto simp: w)
  qed
qed

lemma update_leader_cases:
  assumes "update_leader_last_committed w = (r, w')" "role (fst w) = Leader n"
  defines "m \<equiv> match_median (match_index (state n)) (disk_last (snd w))"
  shows "calm me w w' \<or> last_committed n < m \<and> m \<le> disk_last (snd w) \<and> disk_term_at (snd w) m = disk_term (snd w)
    \<and> (\<exists>w1. commits m w w1 \<and> calm me w1 w')"
proof -
  from assms(1)[unfolded update_leader_last_committed_def] show ?thesis
  proof (cases rule: st_bind_cases)
    case (error e)
    from run_relD[OF calm_reads(3) error(1)] show ?thesis ..
  next
    case (ok l wa)
    have a: "wa = w" "l = disk_last (snd w)" using ln_reads_Inr(1)[OF ok(1)] by auto
    from ok(2)[unfolded a] show ?thesis
    proof (cases rule: st_bind_cases)
      case (error e)
      from run_relD[OF calm_reads(1) error(1)] show ?thesis ..
    next
      case (ok t wb)
      have b: "wb = w" "t = disk_term (snd w)" using ln_current_term_Inr[OF ok(1)] by auto
      from ok(2)[unfolded b] have rest: "(if m > last_committed n then st_bind (ln_get_term_at m)
          (\<lambda>t. if t = disk_term (snd w) then ln_advance_last_committed m else st_return ()) else st_return ()) w = (r, w')"
        unfolding m_def using assms(2) by (simp add: Let_def case_prod_beta)
      show ?thesis
      proof (cases "m > last_committed n")
        case False
        with rest show ?thesis by (simp add: calm.refl)
      next
        case True
        from rest[unfolded if_P[OF True]] show ?thesis
        proof (cases rule: st_bind_cases)
          case (error e)
          from run_relD[OF calm_reads(7) error(1)] show ?thesis ..
        next
          case (ok tm wc)
          have c: "wc = w" "tm = disk_term_at (snd w) m" using ln_reads_Inr(3)[OF ok(1)] by auto
          from ok(2) c advance_commit_cases[of m w r w' n me] assms(2) True show ?thesis
            by (auto simp: calm.refl split: if_splits)
        qed
      qed
    qed
  qed
qed

text \<open>What an answer of a peer does to the leader's two indices for that peer.\<close>

definition acked :: "node_id \<Rightarrow> log_index \<Rightarrow> u64 \<Rightarrow> bool \<Rightarrow> leader \<Rightarrow> leader \<Rightarrow> bool" where
  "acked j prev len ok l l' \<longleftrightarrow>
     next_index l' = next_index l \<and> match_index l' = match_index l
     \<or> ok \<and> next_index l' = AList.update j (Suc (prev + len)) (next_index l) \<and> match_index l' = AList.update j (prev + len) (match_index l)
     \<or> match_index l' = match_index l \<and> (\<exists>x. 0 < x \<and> x \<le> max 1 (get_or (next_index l) j 1) \<and> next_index l' = AList.update j x (next_index l))"

lemma acknowledge_indices [simp]:
  "next_index (acknowledge_heartbeat p q l) = next_index l" "match_index (acknowledge_heartbeat p q l) = match_index l"
  by (simp_all add: acknowledge_heartbeat_def Let_def)

lemma reconcile_outcome_acked:
  assumes "reconcile_outcome j (OAppendEntries prev len resp) l = Inr (l', b)" "0 < get_or (next_index l) j 1"
  shows "acked j prev len (aer_success resp) l l'"
proof (cases "aer_success resp")
  case True
  with assms show ?thesis
    by (auto simp: after_success_def res_bind_Inr_iff map_err_def log_index_add_def checked_add_u64_def acked_def split: if_splits sum.splits)
next
  case False
  let ?c = "get_or (next_index l) j 1"
  from assms False obtain x where "l' = l\<lparr>next_index := AList.update j x (next_index l)\<rparr>"
    "x = min ?c (Suc (aer_last_log_index resp)) \<or> x = max 1 (?c - 1)"
    by (auto simp: after_mismatch_def res_bind_Inr_iff map_err_def map_ok_def log_index_add_def log_index_sub_def
        checked_add_u64_def Let_def split: if_splits sum.splits)
  then show ?thesis using assms(2) by (auto simp: acked_def intro!: exI[of _ x])
qed

lemma ack_cases:
  assumes "process_replication_response t j (Inr (Some (OAppendEntries prev len resp)) :: 'st + replication_outcome option) w = (r, w')"
  obtains (calm) "calm me w w'"
  | (acked) n b l' where "role (fst w) = Leader n" "disk_term (snd w) = t"
      "reconcile_outcome j (OAppendEntries prev len resp) (acknowledge_heartbeat j ((length (next_index (state n)) + 1) div 2 + 1) (state n)) = Inr (l', b)"
      "calm me (set_role (Leader (n\<lparr>state := l'\<rparr>)) w) w' \<or> (\<exists>r2. update_leader_last_committed (set_role (Leader (n\<lparr>state := l'\<rparr>)) w) = (r2, w'))"
proof (cases "aer_term resp > t")
  case True
  have "run_rel (calm me) (st_bind (into_follower (aer_term resp) None) (\<lambda>_. st_return (Inr RDemoted :: node_error + replication_action)))"
    by (intro calm_intros)
  with True assms show ?thesis by (intro calm) (auto simp: process_replication_response_def dest: run_relD)
next
  case False
  with assms have "st_bind ln_current_term
               (\<lambda>current. st_bind (reconcile_as_leader t current j (OAppendEntries prev len resp))
               (\<lambda>r. case r of
                    Inl e \<Rightarrow> st_return (Inl e)
                  | Inr updated \<Rightarrow>
                      st_bind (if updated then update_leader_last_committed else st_return ())
                        (\<lambda>_. st_return (Inr RContinue)))) w = (r, w')"
    by (simp add: process_replication_response_def)
  then show ?thesis
  proof (cases rule: st_bind_cases)
    case (error e)
    from calm[OF run_relD[OF calm_reads(1) error(1)]] show ?thesis .
  next
    case (ok cur wa)
    have a: "wa = w" "cur = disk_term (snd w)" using ln_current_term_Inr[OF ok(1)] by auto
    show ?thesis
    proof (cases "\<exists>n. role (fst w) = Leader n \<and> disk_term (snd w) = t")
      case False
      then have "reconcile_as_leader t cur j (OAppendEntries prev len resp) w = (Inr (Inr False), w)"
        by (auto simp: reconcile_as_leader_def a split: role_state.splits)
      with ok(2) a have "w' = w" by (simp add: st_bind_def)
      with calm calm.refl show ?thesis by simp
    next
      case True
      then obtain n where n: "role (fst w) = Leader n" "disk_term (snd w) = t" by blast
      let ?l1 = "acknowledge_heartbeat j ((length (next_index (state n)) + 1) div 2 + 1) (state n)"
      show ?thesis
      proof (cases "reconcile_outcome j (OAppendEntries prev len resp) ?l1")
        case (Inl e)
        then have "reconcile_as_leader t cur j (OAppendEntries prev len resp) w = (Inr (Inl e), set_role (Leader (n\<lparr>state := ?l1\<rparr>)) w)"
          using n by (simp add: reconcile_as_leader_def a Let_def)
        with ok(2) a have "w' = set_role (Leader (n\<lparr>state := ?l1\<rparr>)) w" by (simp add: st_bind_def)
        moreover have "calm me w (set_role (Leader (n\<lparr>state := ?l1\<rparr>)) w)"
          using n by (cases w) (auto simp: set_role_def intro!: calm_role)
        ultimately show ?thesis using calm by simp
      next
        case (Inr lb)
        obtain l' b where lb: "lb = (l', b)" by (cases lb)
        let ?w1 = "set_role (Leader (n\<lparr>state := l'\<rparr>)) w"
        have "reconcile_as_leader t cur j (OAppendEntries prev len resp) w = (Inr (Inr b), ?w1)"
          using n Inr lb by (simp add: reconcile_as_leader_def a Let_def)
        with ok(2) a have "st_bind (if b then update_leader_last_committed else st_return ())
            (\<lambda>_. st_return (Inr RContinue :: node_error + replication_action)) ?w1 = (r, w')"
          by (simp add: st_bind_def)
        then have "w' = ?w1 \<or> (\<exists>r2. update_leader_last_committed ?w1 = (r2, w'))"
          by (cases b) (auto elim!: st_bind_cases)
        then have "calm me ?w1 w' \<or> (\<exists>r2. update_leader_last_committed ?w1 = (r2, w'))" using calm.refl by blast
        then show ?thesis by (rule acked[OF n Inr[unfolded lb]])
      qed
    qed
  qed
qed

section \<open>Rounds and requests\<close>

lemma probe_params:
  assumes "leadership_probe w = (Inr (Inr p), w')"
  shows "rp_term p = disk_term (snd w')" "role_commit_of (role (fst w')) = Some (rp_last_committed p)"
  using assms
  by (cases w; auto simp: leadership_probe_def set_role_def node_read_Inr Let_def split: role_state.splits sum.splits prod.splits
      dest!: sled_current_term_Inr)+

lemma prepare_append:
  assumes "prepare_replication j params w = (Inr (Some (SAppendEntries q)), w')"
  obtains n nxt es where "w' = w" "role (fst w) = Leader n" "nxt = get_or (next_index (state n)) j 1" "0 < nxt"
    "sled_read_entries nxt (disk_last (snd w)) (snd w) = Inr es"
    "q = new_append_entries_request (rr_term params) (rr_node_id params) (nxt - 1) (disk_term_at (snd w) (nxt - 1)) es (rr_last_committed params)"
proof -
  from assms have "determine_replication_strategy j params w = (Inr (Inr (Some (SAppendEntries q))), w')"
    by (auto simp: prepare_replication_def apply_fatal_def split: sum.splits elim!: st_bind_InrE)
  then obtain n where n: "role (fst w) = Leader n"
    and b: "build_append_entries_request j (rr_term params) (rr_node_id params) (rr_last_committed params) w = (Inr (Inr q), w')"
    by (auto simp: determine_replication_strategy_def map_ok_Inr_iff split: role_state.splits if_splits elim!: st_bind_InrE
        dest!: ln_reads_Inr(5))
  let ?nxt = "get_or (next_index (state n)) j 1"
  let ?rest = "\<lambda>prev l. st_bind (ln_get_term_at prev) (\<lambda>pt. st_bind (ln_read_entries ?nxt l)
     (\<lambda>es. st_return (Inr (new_append_entries_request (rr_term params) (rr_node_id params) prev pt es (rr_last_committed params)))))"
  obtain l where l: "l = disk_last (snd w)"
      "(case log_index_sub ?nxt 1 of Inl e \<Rightarrow> st_return (Inl (Arithmetic e)) | Inr prev \<Rightarrow> ?rest prev l) w = (Inr (Inr q), w')"
  proof -
    have "next_index_of j (fst w) = ?nxt" using n by (simp add: next_index_of_def)
    from b[unfolded build_append_entries_request_def case_prod_beta st_bind_simps this] show ?thesis
      by (rule st_bind_InrE) (use that in \<open>auto dest!: ln_reads_Inr(1)\<close>)
  qed
  show ?thesis
  proof (cases "log_index_sub ?nxt 1")
    case (Inr prev)
    then have nxt: "prev = ?nxt - 1" "0 < ?nxt" by simp_all
    from l(2) Inr obtain pt w1 es w2 where "ln_get_term_at prev w = (Inr pt, w1)" "ln_read_entries ?nxt l w1 = (Inr es, w2)" "w' = w2"
      "q = new_append_entries_request (rr_term params) (rr_node_id params) prev pt es (rr_last_committed params)"
      by (auto simp del: log_index_sub_Inr_iff elim!: st_bind_InrE)
    then show ?thesis using that[of n ?nxt es] n nxt l(1) by (auto dest!: ln_reads_Inr(3,4))
  qed (use l(2) in simp)
qed

section \<open>Applied index\<close>

text \<open>The applier moves a node's applied index within what the node has committed.\<close>

lemma advance_horizon_cases:
  assumes "advance_horizon_after_snapshot k (n, d) = (r, n', d')" "k \<le> last_committed n"
  shows "d' = d \<and> (n' = n \<or> n' = n\<lparr>last_applied := k\<rparr>)"
  using assms unfolding advance_horizon_after_snapshot_def update_commit_index_only_def
  by (auto split: if_splits sum.splits elim!: st_bind_cases)

lemma horizon_calm:
  assumes "ln_advance_horizon_after_snapshot k w = (r, w')" "role_commit_of (role (fst w)) = Some c" "k \<le> c"
  shows "calm me w w'"
proof -
  obtain ln d where w: "w = (ln, d)" by (cases w)
  show ?thesis
    using assms
    by (cases "role ln")
      (auto simp: w ln_advance_horizon_after_snapshot_def delegate_mut_def run_node_def split: prod.splits
        dest!: advance_horizon_cases intro!: calm_role)
qed

end
