(* ===== verification/Replication.thy ===== *)
theory Replication
  imports Section_Effects
begin

text \<open>
  The cluster of \<open>Cluster\<close> with its replication traffic: rounds a leader starts (from the tick loop or a read
  probe), the AppendEntries requests a round builds for each peer, and the answers. Requests and answers are lost, repeated and
  reordered, rounds outlive the term they were started in, nodes crash and restart, and storage calls fail
  at any point. The applier of \<open>orchestration.rs\<close> moves a node's applied index behind its commit index. Snapshots are left
  out: the steps are those of a cluster whose logs stay below the compaction threshold.
\<close>

section \<open>State and steps\<close>

record repl_cluster =
  core :: cluster
  rounds :: "(node_id \<times> replication_round_params) set"
  appends :: "(node_id \<times> node_id \<times> append_entries_request) set"
  acks :: "(node_id \<times> node_id \<times> append_entries_request \<times> append_entries_response) set"

definition node_world :: "repl_cluster \<Rightarrow> node_id \<Rightarrow> world" where
  "node_world s i = world_of (core s) i"

definition put_node :: "node_id \<Rightarrow> world \<Rightarrow> repl_cluster \<Rightarrow> repl_cluster" where
  "put_node i w s = s\<lparr>core := put i w (core s)\<rparr>"

text \<open>The sections a node runs without replication traffic, a proposal among them.\<close>

fun local_only :: "local_section \<Rightarrow> bool" where
  "local_only LStepDown = True"
| "local_only (LPreVote _) = True"
| "local_only (LPropose _) = True"
| "local_only (LPreVoteResponse _ _ _) = True"
| "local_only (LFinishPreVote _) = True"
| "local_only (LFatal _) = True"
| "local_only _ = False"

definition round_of_tick :: "halt + (log_index \<times> raft_term) option \<times> tick_dispatch \<Rightarrow> replication_round_params option" where
  "round_of_tick r = (case r of Inr (_, DispatchReplication p) \<Rightarrow> Some p | _ \<Rightarrow> None)"

definition campaign_of_tick :: "halt + (log_index \<times> raft_term) option \<times> tick_dispatch \<Rightarrow> campaign_params option" where
  "campaign_of_tick r = (case r of Inr (_, DispatchElection p) \<Rightarrow> Some p | _ \<Rightarrow> None)"

definition round_of_probe :: "halt + consensus_error + read_probe \<Rightarrow> replication_round_params option" where
  "round_of_probe r =
     (case r of
        Inr (Inr p) \<Rightarrow>
          if rp_in_flight p then None
          else Some \<lparr>rr_term = rp_term p, rr_node_id = rp_node_id p, rr_last_committed = rp_last_committed p\<rparr>
      | _ \<Rightarrow> None)"

definition start_round :: "node_id \<Rightarrow> replication_round_params option \<Rightarrow> repl_cluster \<Rightarrow> repl_cluster" where
  "start_round i p s = s\<lparr>rounds := rounds s \<union> Pair i ` set_option p\<rparr>"

inductive repl_step :: "node_id list \<Rightarrow> (node_id \<Rightarrow> node_identity) \<Rightarrow> repl_cluster \<Rightarrow> repl_cluster \<Rightarrow> bool"
  for ms ids where
  local_step:
    "i \<in> set ms \<Longrightarrow> local_only sec \<Longrightarrow> run_section (ids i) (peers_of ms i) sec (node_world s i) = (c, w') \<Longrightarrow>
     repl_step ms ids s (s\<lparr>core := emit i c (put i w' (core s))\<rparr>)"
| tick:
    "i \<in> set ms \<Longrightarrow> tick_section th fr (node_world s i) = (r, w') \<Longrightarrow>
     repl_step ms ids s (start_round i (round_of_tick r) (s\<lparr>core := emit i (campaign_of_tick r) (put i w' (core s))\<rparr>))"
| probe:
    "i \<in> set ms \<Longrightarrow> leadership_probe (node_world s i) = (r, w') \<Longrightarrow>
     repl_step ms ids s (start_round i (round_of_probe r) (put_node i w' s))"
| prepare:
    "i \<in> set ms \<Longrightarrow> (i, params) \<in> rounds s \<Longrightarrow> j \<in> set (peers_of ms i) \<Longrightarrow>
     prepare_replication j params (node_world s i) = (r, w') \<Longrightarrow>
     repl_step ms ids s
       ((put_node i w' s)\<lparr>appends := (case r of Inr (Some (SAppendEntries q)) \<Rightarrow> insert (i, j, q) (appends s) | _ \<Rightarrow> appends s)\<rparr>)"
| append:
    "j \<in> set ms \<Longrightarrow> (i, j, q) \<in> appends s \<Longrightarrow>
     rpc_append_entries (ids j) \<lparr>req_trace = tr, req_inner = q\<rparr> (node_world s j) = (r, w') \<Longrightarrow>
     repl_step ms ids s
       ((put_node j w' s)\<lparr>acks := (case r of Inr (Inr resp) \<Rightarrow> insert (j, i, q, resp_inner resp) (acks s) | _ \<Rightarrow> acks s)\<rparr>)"
| ack:
    "i \<in> set ms \<Longrightarrow> (j, i, q, resp) \<in> acks s \<Longrightarrow>
     process_replication_response (ae_term q) j
       (Inr (Some (OAppendEntries (ae_prev_log_index q) (length (ae_entries q)) resp)) :: status + replication_outcome option)
       (node_world s i) = (r, w') \<Longrightarrow>
     repl_step ms ids s (put_node i w' s)"
| apply_entry:
    "i \<in> set ms \<Longrightarrow> role_commit_of (role (nodes (core s) i)) = Some c \<Longrightarrow> k \<le> c \<Longrightarrow>
     ln_advance_horizon_after_snapshot k (node_world s i) = (r, w') \<Longrightarrow>
     repl_step ms ids s (put_node i w' s)"
| vote_request:
    "j \<in> set ms \<Longrightarrow> (i, rq) \<in> requests (core s) \<Longrightarrow> j \<in> set (peers_of ms i) \<Longrightarrow>
     rpc_request_vote (ids j) \<lparr>req_trace = Some tr, req_inner = rq\<rparr> (node_world s j) = (r, w') \<Longrightarrow>
     repl_step ms ids s
       (s\<lparr>core := (put j w' (core s))\<lparr>responses := (case r of Inr (Inr resp) \<Rightarrow>
            insert (j, i, rv_term rq, resp_inner resp) (responses (core s)) | _ \<Rightarrow> responses (core s))\<rparr>\<rparr>)"
| vote_response:
    "i \<in> set ms \<Longrightarrow> (j, i, t, resp) \<in> responses (core s) \<Longrightarrow>
     process_vote_response t (peers_of ms i) j (Inr resp :: status + request_vote_response) (node_world s i) = (r, w') \<Longrightarrow>
     repl_step ms ids s (put_node i w' s)"
| tally_read:
    "i \<in> set ms \<Longrightarrow> (i, v) \<in> tallies (core s) \<Longrightarrow>
     repl_step ms ids s (s\<lparr>core := (core s)\<lparr>tallies := insert (i, observe_tally v (nodes (core s) i)) (tallies (core s))\<rparr>\<rparr>)"
| election_end:
    "i \<in> set ms \<Longrightarrow> (i, v) \<in> tallies (core s) \<Longrightarrow> finish_election v (peers_of ms i) (node_world s i) = (r, w') \<Longrightarrow>
     repl_step ms ids s (put_node i w' s)"
| restart:
    "i \<in> set ms \<Longrightarrow> logical_node_try_new (ids i) fsm th rn (disks (core s) i) = Inr ln \<Longrightarrow>
     repl_step ms ids s (put_node i (ln, disks (core s) i) s)"
| storage_fault:
    "i \<in> set ms \<Longrightarrow> repl_step ms ids s (put_node i (nodes (core s) i, (disks (core s) i)\<lparr>io_fails := f\<rparr>) s)"

definition repl_init :: "node_id list \<Rightarrow> (node_id \<Rightarrow> node_identity) \<Rightarrow> repl_cluster \<Rightarrow> bool" where
  "repl_init ms ids s \<longleftrightarrow>
     cluster_init ms ids (core s)
     \<and> (\<forall>i \<in> set ms. log_tree (disks (core s) i) = [] \<and> meta_last_committed (disks (core s) i) = None
          \<and> meta_snapshot_index (disks (core s) i) = None \<and> meta_snapshot_term (disks (core s) i) = None
          \<and> role_commit_of (role (nodes (core s) i)) = Some 0)
     \<and> rounds s = {} \<and> appends s = {} \<and> acks s = {}"

inductive repl_reachable :: "node_id list \<Rightarrow> (node_id \<Rightarrow> node_identity) \<Rightarrow> repl_cluster \<Rightarrow> bool" for ms ids where
  start: "repl_init ms ids s \<Longrightarrow> repl_reachable ms ids s"
| step: "repl_reachable ms ids s \<Longrightarrow> repl_step ms ids s s' \<Longrightarrow> repl_reachable ms ids s'"

inductive repl_steps :: "node_id list \<Rightarrow> (node_id \<Rightarrow> node_identity) \<Rightarrow> repl_cluster \<Rightarrow> repl_cluster \<Rightarrow> bool" for ms ids where
  stay: "repl_steps ms ids s s"
| extend: "repl_steps ms ids s s' \<Longrightarrow> repl_step ms ids s' s'' \<Longrightarrow> repl_steps ms ids s s''"

section \<open>The cluster beneath\<close>

lemma start_round_core [simp]: "core (start_round i p s) = core s" "appends (start_round i p s) = appends s" "acks (start_round i p s) = acks s"
  "rounds (start_round i p s) = rounds s \<union> Pair i ` set_option p"
  by (simp_all add: start_round_def)

lemma put_node_core [simp]: "core (put_node i w s) = put i w (core s)" "rounds (put_node i w s) = rounds s"
  "appends (put_node i w s) = appends s" "acks (put_node i w s) = acks s"
  by (simp_all add: put_node_def)

lemma emit_None [simp]: "emit i None s = s"
  by (simp add: emit_def)

text \<open>Every step is a step of the cluster without its replication traffic, so Election Safety carries over.\<close>

lemma repl_step_core:
  assumes "repl_step ms ids s s'"
  shows "cluster_step ms ids (core s) (core s')"
  using assms
proof cases
  case (local_step i sec c w')
  then show ?thesis by (auto simp: node_world_def intro: cluster_step.local_step)
next
  case (tick i th fr r w')
  then have "run_section (ids i) (peers_of ms i) (LTick th fr) (world_of (core s) i) = (campaign_of_tick r, w')"
    by (auto simp: node_world_def campaign_of_tick_def)
  from cluster_step.local_step[where ids = ids, OF tick(2) this] tick(1) show ?thesis by simp
next
  case (probe i r w')
  then have "run_section (ids i) (peers_of ms i) LReadProbe (world_of (core s) i) = (None, w')" by (simp add: node_world_def)
  from cluster_step.local_step[where ids = ids, OF probe(2) this] probe(1) show ?thesis by simp
next
  case (prepare i params j r w')
  then have "run_section (ids i) (peers_of ms i) (LPrepareReplication j params) (world_of (core s) i) = (None, w')" by (simp add: node_world_def)
  from cluster_step.local_step[where ids = ids, OF prepare(2) this] prepare(1) show ?thesis by simp
next
  case (append j i q tr r w')
  then have "run_section (ids j) (peers_of ms j) (LAppendEntries \<lparr>req_trace = tr, req_inner = q\<rparr>) (world_of (core s) j) = (None, w')"
    by (simp add: node_world_def)
  from cluster_step.local_step[where ids = ids, OF append(2) this] append(1) show ?thesis by simp
next
  case (ack i j q resp r w')
  then have "run_section (ids i) (peers_of ms i) (LReplicationResponse (ae_term q) j
      (Inr (Some (OAppendEntries (ae_prev_log_index q) (length (ae_entries q)) resp)))) (world_of (core s) i) = (None, w')"
    by (simp add: node_world_def)
  from cluster_step.local_step[where ids = ids, OF ack(2) this] ack(1) show ?thesis by simp
next
  case (apply_entry i c k r w')
  then have "run_section (ids i) (peers_of ms i) (LAdvanceHorizon k) (world_of (core s) i) = (None, w')" by (simp add: node_world_def)
  from cluster_step.local_step[where ids = ids, OF apply_entry(2) this] apply_entry(1) show ?thesis by simp
qed (auto simp: node_world_def intro: cluster_step.intros)

lemma repl_reachable_core: "repl_reachable ms ids s \<Longrightarrow> cluster_reachable ms ids (core s)"
  by (induction rule: repl_reachable.induct) (auto simp: repl_init_def intro: cluster_reachable.intros repl_step_core)

lemma repl_inv: "repl_reachable ms ids s \<Longrightarrow> cluster_inv ms ids (core s)"
  by (rule reachable_inv[OF repl_reachable_core])

lemma repl_steps_reachable: "repl_steps ms ids s s' \<Longrightarrow> repl_reachable ms ids s \<Longrightarrow> repl_reachable ms ids s'"
  by (induction rule: repl_steps.induct) (auto intro: repl_reachable.step)

end
