(* ===== verification/Raft_Refinement.thy ===== *)
theory Raft_Refinement
  imports Replication
begin

text \<open>
  The detailed cluster of \<open>Replication\<close> refines the specification of \<open>Raft_Spec\<close>: a simulation relation ties every
  node's store and role to the abstract term, log, votes and leadership, and every message to what the
  specification knows was sent. Each step of the cluster is a sequence of abstract steps, so the safety theorems of the
  specification hold of what is on the disks.
\<close>

section \<open>The simulation relation\<close>

definition leader_sim :: "node_id list \<Rightarrow> raft_spec \<Rightarrow> node_id \<Rightarrow> raft_term \<Rightarrow> leader \<Rightarrow> bool" where
  "leader_sim ms a i t l \<longleftrightarrow>
     distinct (map fst (match_index l)) \<and> dom (map_of (match_index l)) = set (peers_of ms i)
     \<and> (\<forall>p k k'. map_of (match_index l) p = Some k \<longrightarrow> 0 < k' \<longrightarrow> k' \<le> k \<longrightarrow> (p, t, k') \<in> s_held a)
     \<and> (\<forall>p k. map_of (next_index l) p = Some k \<longrightarrow> 0 < k \<and> k \<le> Suc (length (s_tlog a t)))"

definition node_sim :: "node_id list \<Rightarrow> raft_spec \<Rightarrow> node_id \<Rightarrow> world \<Rightarrow> bool" where
  "node_sim ms a i w \<longleftrightarrow>
     s_term a i = disk_term (snd w) \<and> s_log a i = dlog (snd w) \<and> plain (snd w)
     \<and> disk_committed (snd w) \<le> s_commit a i \<and> (\<forall>c. role_commit_of (role (fst w)) = Some c \<longrightarrow> c \<le> s_commit a i)
     \<and> (\<forall>t c. (i, t, c) \<in> s_votes a \<longrightarrow> t < disk_term (snd w) \<or> t = disk_term (snd w) \<and> disk_vote (snd w) = Some c)
     \<and> (\<forall>c. disk_vote (snd w) = Some c \<longrightarrow> (i, disk_term (snd w), c) \<in> s_votes a)
     \<and> (\<forall>n. role (fst w) = Candidate n \<longrightarrow> s_camp a (disk_term (snd w), i) = Some (dlog (snd w)) \<and> (disk_term (snd w), i) \<notin> set (s_leads a))
     \<and> (i \<in> s_leader a \<longleftrightarrow> (\<exists>n. role (fst w) = Leader n))
     \<and> (\<forall>n. role (fst w) = Leader n \<longrightarrow> leader_sim ms a i (disk_term (snd w)) (state n))"

lemma node_simD:
  assumes "node_sim ms a i w"
  shows "s_term a i = disk_term (snd w)" "s_log a i = dlog (snd w)" "plain (snd w)" "disk_committed (snd w) \<le> s_commit a i"
    "role_commit_of (role (fst w)) = Some k \<Longrightarrow> k \<le> s_commit a i"
    "(i, t, c) \<in> s_votes a \<Longrightarrow> t < disk_term (snd w) \<or> t = disk_term (snd w) \<and> disk_vote (snd w) = Some c"
    "disk_vote (snd w) = Some c \<Longrightarrow> (i, disk_term (snd w), c) \<in> s_votes a"
    "role (fst w) = Candidate m \<Longrightarrow> s_camp a (disk_term (snd w), i) = Some (dlog (snd w))"
    "role (fst w) = Candidate m \<Longrightarrow> (disk_term (snd w), i) \<notin> set (s_leads a)"
    "i \<in> s_leader a \<longleftrightarrow> (\<exists>n. role (fst w) = Leader n)"
    "role (fst w) = Leader n \<Longrightarrow> leader_sim ms a i (disk_term (snd w)) (state n)"
  using assms unfolding node_sim_def by blast+

lemma leader_simD:
  assumes "leader_sim ms a i t l"
  shows "distinct (map fst (match_index l))" "dom (map_of (match_index l)) = set (peers_of ms i)"
    "map_of (match_index l) p = Some k \<Longrightarrow> 0 < k' \<Longrightarrow> k' \<le> k \<Longrightarrow> (p, t, k') \<in> s_held a"
    "map_of (next_index l) p = Some k \<Longrightarrow> 0 < k" "map_of (next_index l) p = Some k \<Longrightarrow> k \<le> Suc (length (s_tlog a t))"
  using assms unfolding leader_sim_def by blast+

lemma leader_sim_cong:
  "leader_sim ms a i t l \<Longrightarrow> next_index l' = next_index l \<Longrightarrow> match_index l' = match_index l \<Longrightarrow> leader_sim ms a i t l'"
  by (simp add: leader_sim_def)

text \<open>A request on the network is one the specification recorded as sent.\<close>

definition sent_as :: "raft_spec \<Rightarrow> node_id \<Rightarrow> append_entries_request \<Rightarrow> append_msg \<Rightarrow> bool" where
  "sent_as a i q m \<longleftrightarrow> m \<in> s_sent a \<and> m_label m = ae_term q \<and> m_prev m = ae_prev_log_index q \<and> m_commit m = ae_leader_commit q
     \<and> m_upto m = ae_prev_log_index q + length (ae_entries q) \<and> m_built m \<le> s_term a i
     \<and> segment_of (take (m_upto m) (s_tlog a (m_built m))) (ae_prev_log_index q) (ae_prev_log_term q) (ae_entries q)"

definition asked :: "raft_spec \<Rightarrow> node_id \<Rightarrow> request_vote_request \<Rightarrow> bool" where
  "asked a i rq \<longleftrightarrow> (\<exists>l. s_camp a (rv_term rq, i) = Some l
     \<and> (led_term a (rv_term rq) \<or> rv_last_log_term rq = last_term l \<and> rv_last_log_index rq = length l))"

definition round_ok :: "raft_spec \<Rightarrow> node_id \<Rightarrow> replication_round_params \<Rightarrow> bool" where
  "round_ok a i p \<longleftrightarrow> rr_term p \<le> s_term a i \<and> backed a (rr_term p) (rr_last_committed p)"

definition ack_ok :: "raft_spec \<Rightarrow> node_id \<Rightarrow> node_id \<Rightarrow> append_entries_request \<Rightarrow> append_entries_response \<Rightarrow> bool" where
  "ack_ok a j i q resp \<longleftrightarrow> (aer_success resp \<longrightarrow>
     (\<exists>m. sent_as a i q m \<and> (m_built m = m_label m \<longrightarrow> (\<forall>k \<le> m_upto m. (j, m_label m, k) \<in> s_held a))))"

definition net_sim :: "node_id list \<Rightarrow> raft_spec \<Rightarrow> repl_cluster \<Rightarrow> bool" where
  "net_sim ms a s \<longleftrightarrow>
     (\<forall>i rq. (i, rq) \<in> requests (core s) \<longrightarrow> asked a i rq)
     \<and> (\<forall>i p. (i, p) \<in> rounds s \<longrightarrow> round_ok a i p)
     \<and> (\<forall>i j q. (i, j, q) \<in> appends s \<longrightarrow> j \<in> set (peers_of ms i) \<and> (\<exists>m. sent_as a i q m))
     \<and> (\<forall>j i q resp. (j, i, q, resp) \<in> acks s \<longrightarrow> j \<in> set (peers_of ms i) \<and> ack_ok a j i q resp)"

definition sim :: "node_id list \<Rightarrow> repl_cluster \<Rightarrow> raft_spec \<Rightarrow> bool" where
  "sim ms s a \<longleftrightarrow> safe (set ms) a \<and> (\<forall>i \<in> set ms. node_sim ms a i (node_world s i)) \<and> net_sim ms a s \<and> hist (core s) \<subseteq> s_votes a"

section \<open>Abstract moves of one node\<close>

definition local_to :: "node_id \<Rightarrow> raft_spec \<Rightarrow> raft_spec \<Rightarrow> bool" where
  "local_to i a a' \<longleftrightarrow> (\<forall>k. k \<noteq> i \<longrightarrow>
     s_term a' k = s_term a k \<and> s_log a' k = s_log a k \<and> s_commit a' k = s_commit a k
     \<and> (\<forall>t c. (k, t, c) \<in> s_votes a' \<longleftrightarrow> (k, t, c) \<in> s_votes a) \<and> (\<forall>t. s_camp a' (t, k) = s_camp a (t, k))
     \<and> (\<forall>t. (t, k) \<in> set (s_leads a') \<longleftrightarrow> (t, k) \<in> set (s_leads a)) \<and> (k \<in> s_leader a' \<longleftrightarrow> k \<in> s_leader a))"

definition moves :: "node_id set \<Rightarrow> node_id \<Rightarrow> raft_spec \<Rightarrow> raft_spec \<Rightarrow> bool" where
  "moves M i a a' \<longleftrightarrow> spec_steps M a a' \<and> local_to i a a'"

lemma moves_refl: "moves M i a a"
  by (simp add: moves_def local_to_def spec_steps.stay)

lemma moves_trans: "moves M i a a' \<Longrightarrow> moves M i a' a'' \<Longrightarrow> moves M i a a''"
  by (auto simp: moves_def local_to_def intro: spec_steps_trans)

lemma moves_step: "spec_step M a a' \<Longrightarrow> local_to i a a' \<Longrightarrow> moves M i a a'"
  by (simp add: moves_def spec_step1)

lemma moves_safe: "moves M i a a' \<Longrightarrow> safe M a \<Longrightarrow> safe M a'"
  by (auto simp: moves_def intro: safe_steps)

lemma moves_grows: "moves M i a a' \<Longrightarrow> safe M a \<Longrightarrow> grows a a'"
  by (auto simp: moves_def intro: grows_steps)

lemma camp_step:
  assumes "spec_step M a a'" "book M a" "s_camp a x = Some l"
  shows "s_camp a' x = Some l"
  using assms(1)
proof cases
  case (campaign i t)
  then have "x \<noteq> (t, i)" using bookD(4)[OF assms(2), of t i] assms(3) by auto
  with campaign(1) assms(3) show ?thesis by simp
qed (use assms(3) in auto)

lemma record_step: "spec_step M a a' \<Longrightarrow> s_sent a \<subseteq> s_sent a' \<and> s_votes a \<subseteq> s_votes a'"
  by (cases rule: spec_step.cases) auto

lemma steps_keep:
  assumes "spec_steps M a a'" "safe M a"
  shows "s_sent a \<subseteq> s_sent a'" "s_votes a \<subseteq> s_votes a'" "s_camp a x = Some l \<Longrightarrow> s_camp a' x = Some l"
proof -
  have "s_sent a \<subseteq> s_sent a' \<and> s_votes a \<subseteq> s_votes a' \<and> (\<forall>x l. s_camp a x = Some l \<longrightarrow> s_camp a' x = Some l)"
    using assms
  proof (induction rule: spec_steps.induct)
    case (extend s s' s'')
    note safe' = safeD(3)[OF safe_steps[OF extend(1) extend.prems]]
    from extend.IH[OF extend.prems] record_step[OF extend(2)] camp_step[OF extend(2) safe'] show ?case by blast
  qed simp
  then show "s_sent a \<subseteq> s_sent a'" "s_votes a \<subseteq> s_votes a'" "s_camp a x = Some l \<Longrightarrow> s_camp a' x = Some l" by blast+
qed

lemma leader_sim_grows:
  assumes "grows a a'" "led_term a t" "leader_sim ms a i t l"
  shows "leader_sim ms a' i t l"
  unfolding leader_sim_def
  using leader_simD[OF assms(3)] growsD(3)[OF assms(1)] grows_length[OF assms(1,2)] by (meson Suc_le_mono le_trans subsetD)

lemma node_sim_other:
  assumes "moves M i a a'" "safe M a" "k \<noteq> i" "node_sim ms a k w"
  shows "node_sim ms a' k w"
proof -
  note N = node_simD[OF assms(4)]
  have l: "s_term a' k = s_term a k" "s_log a' k = s_log a k" "s_commit a' k = s_commit a k" "(k, t, c) \<in> s_votes a' \<longleftrightarrow> (k, t, c) \<in> s_votes a"
    "s_camp a' (t, k) = s_camp a (t, k)" "(t, k) \<in> set (s_leads a') \<longleftrightarrow> (t, k) \<in> set (s_leads a)" "k \<in> s_leader a' \<longleftrightarrow> k \<in> s_leader a" for t c
    using assms(1,3) by (auto simp: moves_def local_to_def)
  have "leader_sim ms a' k (disk_term (snd w)) (state n)" if "role (fst w) = Leader n" for n
    using leader_sim_grows[OF moves_grows[OF assms(1,2)] _ N(11)[OF that]] leader_led[OF safeD(3)[OF assms(2)], of k] N(1,10) that by auto
  then show ?thesis unfolding node_sim_def l using assms(4) by (simp add: node_sim_def)
qed

lemma backed_mono: "backed a t c \<Longrightarrow> s_chosen a \<subseteq> s_chosen a' \<Longrightarrow> backed a' t c"
  unfolding backed_def by blast

lemma sent_as_mono:
  assumes "spec_steps M a a'" "safe M a" "sent_as a i q m"
  shows "sent_as a' i q m"
proof -
  note G = grows_steps[OF assms(1,2)]
  have m: "m \<in> s_sent a" using assms(3) by (simp add: sent_as_def)
  note p = postedD[OF safeD(5)[OF assms(2)] m]
  have "take (m_upto m) (s_tlog a' (m_built m)) = take (m_upto m) (s_tlog a (m_built m))" by (rule grows_take[OF G p(1,4)])
  then show ?thesis using assms(3) steps_keep(1)[OF assms(1,2)] growsD(5)[OF G, of i] by (auto simp: sent_as_def)
qed

lemma net_sim_mono:
  assumes "spec_steps M a a'" "safe M a" "net_sim ms a s"
  shows "net_sim ms a' s"
proof -
  note G = grows_steps[OF assms(1,2)] and K = steps_keep[OF assms(1,2)] and S = sent_as_mono[OF assms(1,2)]
  have "asked a' i rq" if "asked a i rq" for i rq
    using that K(3) growsD(1)[OF G] unfolding asked_def by blast
  moreover have "round_ok a' i p" if "round_ok a i p" for i p
    using that backed_mono[OF _ growsD(4)[OF G]] growsD(5)[OF G, of i] by (auto simp: round_ok_def)
  moreover have "ack_ok a' j i q resp" if "ack_ok a j i q resp" for j i q resp
    using that S growsD(3)[OF G] unfolding ack_ok_def by blast
  moreover have "Ex (sent_as a' i q)" if "Ex (sent_as a i q)" for i q using that S by blast
  ultimately show ?thesis using assms(3) unfolding net_sim_def by simp
qed

text \<open>A step of one node, seen from the cluster.\<close>

lemma sim_put:
  assumes "sim ms s a" "moves (set ms) i a a'" "node_sim ms a' i w"
  shows "sim ms (put_node i w s) a'"
proof -
  have S: "safe (set ms) a" "net_sim ms a s" "hist (core s) \<subseteq> s_votes a" "\<And>k. k \<in> set ms \<Longrightarrow> node_sim ms a k (node_world s k)"
    using assms(1) by (auto simp: sim_def)
  have st: "spec_steps (set ms) a a'" using assms(2) by (simp add: moves_def)
  have "net_sim ms a' (put_node i w s)" using net_sim_mono[OF st S(1,2)] by (simp add: net_sim_def)
  moreover have "hist (core (put_node i w s)) \<subseteq> s_votes a'"
    using S(3) steps_keep(2)[OF st S(1)] node_simD(7)[OF assms(3)] by (auto simp: votes_of_def split: option.splits)
  moreover have "node_sim ms a' k (node_world (put_node i w s) k)" if "k \<in> set ms" for k
    using assms(3) node_sim_other[OF assms(2) S(1) _ S(4)[OF that]] by (cases "k = i") (simp_all add: node_world_def)
  ultimately show ?thesis using moves_safe[OF assms(2) S(1)] by (auto simp: sim_def)
qed

section \<open>Calm sections\<close>

lemma local_to_advance: "local_to i a (a\<lparr>s_term := (s_term a)(i := t), s_leader := s_leader a - {i}\<rparr>)"
  by (simp add: local_to_def)

lemma local_to_campaign:
  "local_to i a (a\<lparr>s_term := (s_term a)(i := t), s_votes := insert (i, t, i) (s_votes a), s_camp := (s_camp a)((t, i) \<mapsto> l),
     s_leader := s_leader a - {i}\<rparr>)"
  by (simp add: local_to_def)

lemma node_calm:
  assumes N: "node_sim ms a i w" and o: "owned i (role (fst w))" and c: "calm i w w'" and S: "safe M a" and i: "i \<in> M"
  shows "\<exists>a'. moves M i a a' \<and> node_sim ms a' i w'"
proof -
  note D = node_simD[OF N] and C = calmD[OF c o] and B = bookD[OF safeD(3)[OF S]]
  note L = log_sameD[OF C(2)]
  have com: "x \<le> s_commit a i" if "role_commit_of (role (fst w')) = Some x" for x using D(5) C(4)[OF that] by blast
  from C(3) consider (same) "disk_term (snd w') = disk_term (snd w)" "disk_vote (snd w') = disk_vote (snd w)"
    | (new) "disk_term (snd w) < disk_term (snd w')" "disk_vote (snd w') = None"
    | (mine) "disk_term (snd w) < disk_term (snd w')" "disk_vote (snd w') = Some i"
    by (auto simp: hard_le_def)
  then show ?thesis
  proof cases
    case same
    have cand: "\<exists>n. role (fst w) = Candidate n" if "role (fst w') = Candidate m" for m using C(7)[OF that] same by auto
    show ?thesis
    proof (cases "(\<exists>n. role (fst w) = Leader n) \<and> (\<forall>n. role (fst w') \<noteq> Leader n)")
      case False
      have "leader_sim ms a i (disk_term (snd w)) (state n')" if "role (fst w') = Leader n'" for n'
        using C(6)[OF that] D(11) leader_sim_cong by blast
      then have "node_sim ms a i w'"
        unfolding node_sim_def same L(1-3) using D(1-10) com cand C(6) False by auto
      with moves_refl show ?thesis by blast
    next
      case True
      let ?a = "a\<lparr>s_term := (s_term a)(i := disk_term (snd w)), s_leader := s_leader a - {i}\<rparr>"
      have "node_sim ms ?a i w'"
        unfolding node_sim_def same L(1-3) using D com cand True by auto
      moreover have "spec_step M a ?a" by (rule spec_step.advance[OF i]) (simp add: D(1))
      ultimately show ?thesis using moves_step local_to_advance by blast
    qed
  next
    case new
    let ?t = "disk_term (snd w')"
    let ?a = "a\<lparr>s_term := (s_term a)(i := ?t), s_leader := s_leader a - {i}\<rparr>"
    have "role (fst w') \<noteq> Leader n" "role (fst w') \<noteq> Candidate m" for n m
      using C(5)[of n] C(7)[of m] new by auto
    then have "node_sim ms ?a i w'"
      unfolding node_sim_def L(1-3) using D com new by (auto dest: D(6))
    moreover have "spec_step M a ?a" by (rule spec_step.advance[OF i]) (use D(1) new in simp)
    ultimately show ?thesis using moves_step local_to_advance by blast
  next
    case mine
    let ?t = "disk_term (snd w')"
    let ?a = "a\<lparr>s_term := (s_term a)(i := ?t), s_votes := insert (i, ?t, i) (s_votes a), s_camp := (s_camp a)((?t, i) \<mapsto> s_log a i),
       s_leader := s_leader a - {i}\<rparr>"
    have "role (fst w') \<noteq> Leader n" for n using C(5)[of n] mine by auto
    moreover have "(?t, i) \<notin> set (s_leads a)" using B(7)[of ?t i] D(1) mine by auto
    ultimately have "node_sim ms ?a i w'"
      unfolding node_sim_def L(1-3) using D com mine by (auto dest: D(6))
    moreover have "spec_step M a ?a" by (rule spec_step.campaign[OF i]) (use D(1) mine in simp)
    ultimately show ?thesis using moves_step local_to_campaign by blast
  qed
qed

section \<open>Votes, proposals and promotions\<close>

lemma up_to_date_newer: "plain d \<Longrightarrow> up_to_date (last_term l) (length l) d \<Longrightarrow> newer l (dlog d)"
  by (auto simp: up_to_date_def newer_def last_term_dlog split: if_splits)

lemma node_vote:
  assumes N: "node_sim ms a j w" and S: "safe M a" and j: "j \<in> M" and f: "role (fst w) = Follower n" and c: "valid_node_id c"
    and rq: "asked a c rq" "rv_term rq = disk_term (snd w)" "disk_vote (snd w) = None \<or> disk_vote (snd w) = Some c"
      "up_to_date (rv_last_log_term rq) (rv_last_log_index rq) (snd w)"
  shows "\<exists>a'. moves M j a a' \<and> node_sim ms a' j (fst w, set_hard_state (rv_term rq) (Some c) (snd w))"
proof -
  note D = node_simD[OF N]
  let ?t = "disk_term (snd w)"
  let ?a = "a\<lparr>s_votes := insert (j, ?t, c) (s_votes a)\<rparr>"
  from rq(1,2) obtain l where l: "s_camp a (?t, c) = Some l" "led_term a ?t \<or> newer l (dlog (snd w))"
    using up_to_date_newer[OF D(3)] rq(4) by (auto simp: asked_def)
  have one: "c' = c" if "(j, ?t, c') \<in> s_votes a" for c' using D(6)[OF that] rq(3) by auto
  have "spec_step M a ?a" by (rule spec_step.vote[OF j _ l(1)]) (use D(1,2) l(2) one in auto)
  moreover have "local_to j a ?a" by (simp add: local_to_def)
  moreover have "node_sim ms ?a j (fst w, set_hard_state (rv_term rq) (Some c) (snd w))"
    unfolding node_sim_def rq(2) using D(1-7,10) f c one
    by (auto simp: log_sameD(3)[OF log_same_set_hard_state] dest: D(6))
  ultimately show ?thesis using moves_step by blast
qed

lemma node_propose:
  assumes N: "node_sim ms a i w" and S: "safe M a" and r: "role (fst w) = Leader n"
    and e: "e_term e = disk_term (snd w)" "e_index e = Suc (disk_last (snd w))" "is_u64 (Suc (disk_last (snd w)))"
  shows "\<exists>a'. moves M i a a' \<and> node_sim ms a' i (fst w, set_log (entry_batch [e]) (snd w))"
proof -
  note D = node_simD[OF N] and B = bookD[OF safeD(3)[OF S]]
  let ?t = "disk_term (snd w)" and ?d = "set_log (entry_batch [e]) (snd w)"
  let ?a = "a\<lparr>s_log := (s_log a)(i := s_log a i @ [e]), s_tlog := (s_tlog a)(?t := s_tlog a ?t @ [e])\<rparr>"
  have lead: "i \<in> s_leader a" using D(10) r by blast
  have "0 < ?t" using B(8)[OF B(10)[OF lead]] D(1) by simp
  then have p: "plain ?d" "dlog ?d = dlog (snd w) @ [e]"
    using plain_append[OF D(3), of "[e]"] e by (simp_all add: consecutive_def)
  have step: "spec_step M a ?a" by (rule spec_step.propose[OF lead]) (use D(1) e in auto)
  have "grows a ?a" "led_term a ?t" using grows_step[OF step safeD(3)[OF S]] leader_led[OF safeD(3)[OF S] lead] D(1) by auto
  from leader_sim_grows[OF this D(11)[OF r]] have "leader_sim ms ?a i ?t (state n)" .
  moreover have "disk_term ?d = ?t" "disk_vote ?d = disk_vote (snd w)" by (simp_all add: disk_term_def disk_vote_def set_log_def)
  ultimately have "node_sim ms ?a i (fst w, ?d)"
    unfolding node_sim_def using D(1-7,10) r p by simp
  moreover have "local_to i a ?a" by (simp add: local_to_def)
  ultimately show ?thesis using moves_step[OF step] by blast
qed

lemma fresh_leader_sim:
  assumes "fresh_leader (peers_of ms i) l ld" "l \<le> length (s_tlog a t)"
  shows "leader_sim ms a i t ld"
  using assms by (auto simp: fresh_leader_def leader_sim_def split: if_splits)

lemma node_elect:
  assumes N: "node_sim ms a i w" and S: "safe (set ms) a" and i: "i \<in> set ms" and r: "role (fst w) = Candidate n" "role (fst w') = Leader n'"
    and k: "snd w' = snd w" "last_committed n' = last_committed n" "fresh_leader (peers_of ms i) (disk_last (snd w)) (state n')"
    and q: "majority (set ms) (spec_voters (set ms) a (disk_term (snd w)) i)"
  shows "\<exists>a'. moves (set ms) i a a' \<and> node_sim ms a' i w'"
proof -
  note D = node_simD[OF N] and B = bookD[OF safeD(3)[OF S]]
  let ?t = "disk_term (snd w)"
  let ?a = "a\<lparr>s_leads := (?t, i) # s_leads a, s_leader := insert i (s_leader a), s_tlog := (s_tlog a)(?t := s_log a i)\<rparr>"
  have "\<not> led_term a ?t"
  proof
    assume "led_term a ?t"
    then obtain c where c: "(?t, c) \<in> set (s_leads a)" by (auto simp: led_term_iff)
    have "c = i"
      by (rule maj.chosen_unique[where V = "\<lambda>k x. (k, ?t, x) \<in> s_votes a" and Q = "spec_voters (set ms) a ?t c" and R = "spec_voters (set ms) a ?t i"])
        (use B(9)[OF c] q B(3) in \<open>auto simp: spec_voters_def\<close>)
    with c D(9)[OF r(1)] show False by simp
  qed
  then have step: "spec_step (set ms) a ?a"
    by (intro spec_step.elect[OF i]) (use D(1,2) D(8)[OF r(1)] q in simp_all)
  have "leader_sim ms ?a i ?t (state n')" by (rule fresh_leader_sim[OF k(3)]) (simp add: D(2))
  then have "node_sim ms ?a i w'"
    unfolding node_sim_def k(1) using D(1-7) D(5)[of "last_committed n"] r k(2) by simp
  moreover have "local_to i a ?a" by (auto simp: local_to_def)
  ultimately show ?thesis using moves_step[OF step] by blast
qed

section \<open>Appends\<close>

lemma hold_upto:
  assumes "j \<in> M" "t = s_term a j" "led_term a t" "agree a (s_log a j) t k"
  shows "moves M j a (a\<lparr>s_held := s_held a \<union> Pair j ` Pair t ` {..k}\<rparr>)"
  using assms(4)
proof (induction k)
  case 0
  have "spec_step M a (a\<lparr>s_held := insert (j, t, 0) (s_held a)\<rparr>)" by (rule spec_step.hold[OF assms(1-3) 0])
  then show ?case by (intro moves_step) (simp_all add: local_to_def)
next
  case (Suc k)
  let ?a = "a\<lparr>s_held := s_held a \<union> Pair j ` Pair t ` {..k}\<rparr>"
  have m: "moves M j a ?a" by (rule Suc.IH[OF agree_less[OF Suc.prems]]) simp
  have "spec_step M ?a (?a\<lparr>s_held := insert (j, t, Suc k) (s_held ?a)\<rparr>)"
    by (rule spec_step.hold[OF assms(1)]) (use assms(2,3) Suc.prems in \<open>auto simp: led_term_def agree_def\<close>)
  then have "moves M j ?a (a\<lparr>s_held := s_held a \<union> Pair j ` Pair t ` {..Suc k}\<rparr>)"
    by (intro moves_step) (simp_all add: local_to_def atMost_Suc)
  with m show ?case by (rule moves_trans)
qed

lemma covers_take:
  assumes "matching a l" "matching a sg" "covers prev sg l" "prev \<le> length sg"
  shows "take (length sg) l = sg"
proof (cases "length sg")
  case (Suc p)
  have "same_term l sg p"
    using assms(3,4) Suc by (cases "prev \<le> p") (auto simp: covers_def le_Suc_eq)
  from matching_eq[OF assms(1,2) _ _ this] show ?thesis using assms(3) Suc by (auto simp: covers_def)
qed simp

lemma node_merge:
  assumes N: "node_sim ms a j w" and S: "safe M a" and j: "j \<in> M" and f: "role (fst w) = Follower n"
    and m: "m \<in> s_sent a" "m_label m = disk_term (snd w)" and sg: "sg = take (m_upto m) (s_tlog a (m_built m))"
    and d': "merged (m_prev m) sg (snd w) d'" "disk_term d' = disk_term (snd w)" "disk_vote d' = disk_vote (snd w)"
      "disk_committed d' = disk_committed (snd w)"
  shows "\<exists>a'. moves M j a a' \<and> node_sim ms a' j (fst w, d')"
proof -
  note D = node_simD[OF N]
  let ?a = "a\<lparr>s_log := (s_log a)(j := dlog d')\<rparr>"
  have p: "plain d'" using d'(1) by (simp add: merged_def)
  have "node_sim ms ?a j (fst w, d')"
    unfolding node_sim_def fst_conv snd_conv d'(2-4) using D(1,4-7,10) f p by (auto dest: D(6))
  moreover have "moves M j a ?a"
  proof (cases "dlog d' = dlog (snd w)")
    case True
    then have "(s_log a)(j := dlog d') = s_log a" using D(2) by (metis fun_upd_triv)
    then have "?a = a" by simp
    then show ?thesis by (simp add: moves_refl)
  next
    case False
    then obtain q where q: "merge_point (m_prev m) (dlog (snd w)) sg q"
      "dlog d' \<in> {take q (dlog (snd w)), take q (dlog (snd w)) @ drop q sg}"
      using d'(1) by (auto simp: merged_def)
    have "spec_step M a ?a"
      by (rule spec_step.accept[OF j _ m(1) _ sg]) (use D(1,2,10) f m(2) q in auto)
    then show ?thesis by (rule moves_step) (simp add: local_to_def)
  qed
  ultimately show ?thesis by blast
qed

definition same_log :: "log_store \<Rightarrow> log_store \<Rightarrow> bool" where
  "same_log d d' \<longleftrightarrow> dlog d' = dlog d \<and> plain d' \<and> disk_term d' = disk_term d \<and> disk_vote d' = disk_vote d"

lemma node_follow:
  assumes "node_sim ms a j w" "role (fst w) = Follower n" "role (fst w') = Follower n'" "same_log (snd w) (snd w')"
    and "last_committed n' \<le> s_commit a j" "disk_committed (snd w') \<le> s_commit a j"
  shows "node_sim ms a j w'"
  unfolding node_sim_def using node_simD[OF assms(1)] assms(2-) by (auto simp: same_log_def)

lemma node_learn:
  assumes N: "node_sim ms a j w" and S: "safe M a" and j: "j \<in> M" and f: "role (fst w) = Follower n" "role (fst w') = Follower n'"
    and m: "m \<in> s_sent a" "m_label m = disk_term (snd w)" and sg: "sg = take (m_upto m) (s_tlog a (m_built m))"
    and c: "covers (m_prev m) sg (dlog (snd w))" and d': "same_log (snd w) (snd w')"
    and k: "last_committed n' = last_committed n \<or> last_committed n' \<le> m_commit m"
      "disk_committed (snd w') = disk_committed (snd w) \<or> disk_committed (snd w') \<le> m_commit m"
  shows "\<exists>a'. moves M j a a' \<and> node_sim ms a' j w' \<and> (m_built m = m_label m \<longrightarrow> (\<forall>k \<le> m_upto m. (j, m_label m, k) \<in> s_held a'))"
proof -
  note D = node_simD[OF N] and P = postedD[OF safeD(5)[OF S] m(1)] and O = safeD(4)[OF S]
  have len: "length sg = m_upto m" using P(4) sg by simp
  have "matching a sg" unfolding sg by (rule matching_take[OF logs_okD(3)[OF O P(1)]])
  from covers_take[OF logs_okD(1)[OF O, of j] this, of "m_prev m"] have eq: "take (m_upto m) (s_log a j) = sg"
    using c D(2) len P(3) by simp
  have long: "m_upto m \<le> length (s_log a j)" using c D(2) len by (simp add: covers_def)
  let ?a1 = "a\<lparr>s_commit := (s_commit a)(j := max (s_commit a j) (m_commit m))\<rparr>"
  have s1: "moves M j a ?a1"
    by (rule moves_step[OF spec_step.learn[OF j m(1)]]) (use D(1) m(2) long eq sg in \<open>auto simp: local_to_def\<close>)
  have "node_sim ms ?a1 j w" unfolding node_sim_def using N by (auto simp: node_sim_def leader_sim_def le_max_iff_disj)
  from node_follow[OF this f d'] have n1: "node_sim ms ?a1 j w'" using k D(4) D(5)[of "last_committed n"] f by auto
  show ?thesis
  proof (cases "m_built m = m_label m")
    case False
    with s1 n1 show ?thesis by blast
  next
    case True
    let ?a2 = "?a1\<lparr>s_held := s_held ?a1 \<union> Pair j ` Pair (m_label m) ` {..m_upto m}\<rparr>"
    have "led_term ?a1 (m_label m)" using P(1) True by (simp add: led_term_def)
    moreover have "agree ?a1 (s_log ?a1 j) (m_label m) (m_upto m)"
      using long P(4) eq sg True by (simp add: agree_def)
    ultimately have s2: "moves M j ?a1 ?a2"
      by (intro hold_upto[OF j]) (use D(1) m(2) in auto)
    have "node_sim ms ?a2 j w'" using n1 f(2) by (simp add: node_sim_def)
    with moves_trans[OF s1 s2] show ?thesis by auto
  qed
qed

lemma node_reconcile:
  assumes N: "node_sim ms a j w" and S: "safe M a" and j: "j \<in> M" and f: "role (fst w) = Follower n"
    and q: "sent_as a i q m" "disk_term (snd w) = ae_term q"
    and r: "reconcile_log (ae_prev_log_index q) (ae_prev_log_term q) (ae_entries q) (ae_leader_commit q) (n, snd w) = (res, n', d')"
  shows "\<exists>a'. moves M j a a' \<and> node_sim ms a' j ((fst w)\<lparr>role := Follower n'\<rparr>, d')
    \<and> ((\<exists>ok. res = Inr ok \<and> rec_success ok) \<longrightarrow> m_built m = m_label m \<longrightarrow> (\<forall>k \<le> m_upto m. (j, m_label m, k) \<in> s_held a'))"
proof -
  note D = node_simD[OF N]
  have m: "m \<in> s_sent a" "m_label m = disk_term (snd w)" and pq: "m_prev m = ae_prev_log_index q" "m_commit m = ae_leader_commit q"
    using q by (simp_all add: sent_as_def)
  define sg where "sg = take (m_upto m) (s_tlog a (m_built m))"
  have seg: "segment_of sg (ae_prev_log_index q) (ae_prev_log_term q) (ae_entries q)" using q(1) unfolding sent_as_def sg_def by blast
  note rc = reconcile_cases[OF D(3) seg r]
  have hs: "disk_term d' = disk_term (snd w)" "disk_vote d' = disk_vote (snd w)"
    using hard_same_view[OF quiet_run_node(3)[OF reconcile_log_quiet r]] by auto
  let ?d1 = "d'\<lparr>meta_last_committed := meta_last_committed (snd w)\<rparr>" and ?w' = "((fst w)\<lparr>role := Follower n'\<rparr>, d')"
  have d1: "merged (m_prev m) sg (snd w) ?d1" "disk_term ?d1 = disk_term (snd w)" "disk_vote ?d1 = disk_vote (snd w)"
    "disk_committed ?d1 = disk_committed (snd w)"
    using rc hs pq by (simp_all add: disk_committed_def)
  from node_merge[OF N S j f m sg_def d1] obtain a1 where a1: "moves M j a a1" "node_sim ms a1 j (fst w, ?d1)" by blast
  note S1 = moves_safe[OF a1(1) S]
  have st: "spec_steps M a a1" using a1(1) by (simp add: moves_def)
  have m1: "m \<in> s_sent a1" "m_label m = disk_term (snd (fst w, ?d1))" using steps_keep(1)[OF st S] m d1(2) by auto
  note P = postedD[OF safeD(5)[OF S] m(1)]
  have sg1: "sg = take (m_upto m) (s_tlog a1 (m_built m))" unfolding sg_def using grows_take[OF grows_steps[OF st S] P(1,4)] by simp
  have same: "same_log (snd (fst w, ?d1)) (snd ?w')" using rc by (simp add: same_log_def merged_def)
  have fr: "role (fst (fst w, ?d1)) = Follower n" "role (fst ?w') = Follower n'" using f by simp_all
  show ?thesis
  proof (cases "covers (m_prev m) sg (dlog d')")
    case True
    have k: "last_committed n' = last_committed n \<or> last_committed n' \<le> m_commit m"
      "disk_committed (snd ?w') = disk_committed (snd (fst w, ?d1)) \<or> disk_committed (snd ?w') \<le> m_commit m"
      using rc pq d1(4) by (auto simp: commit_moved_def)
    from node_learn[OF a1(2) S1 j fr m1 sg1 _ same k] True obtain a2 where "moves M j a1 a2" "node_sim ms a2 j ?w'"
      "m_built m = m_label m \<longrightarrow> (\<forall>k \<le> m_upto m. (j, m_label m, k) \<in> s_held a2)" by auto
    with moves_trans[OF a1(1)] show ?thesis by blast
  next
    case False
    then have k: "last_committed n' = last_committed n" "disk_committed d' = disk_committed (snd w)"
      using rc pq by (auto simp: commit_moved_def)
    have "node_sim ms a1 j ?w'"
      by (rule node_follow[OF a1(2) fr same]) (use k node_simD(4)[OF a1(2)] node_simD(5)[OF a1(2), of "last_committed n"] f d1(4) in auto)
    moreover have "\<not> (\<exists>ok. res = Inr ok \<and> rec_success ok)" using rc False pq by auto
    ultimately show ?thesis using a1(1) by blast
  qed
qed

section \<open>Acknowledgements and commits\<close>

lemma node_ack:
  assumes N: "node_sim ms a i w" and S: "safe M a" and r: "role (fst w) = Leader n" and j: "j \<in> set (peers_of ms i)"
    and k: "acked j prev len ok (state n) l'" and h: "ok \<Longrightarrow> \<forall>k \<le> prev + len. (j, disk_term (snd w), k) \<in> s_held a"
  shows "node_sim ms a i (set_role (Leader (n\<lparr>state := l'\<rparr>)) w)"
proof -
  note D = node_simD[OF N] and L = leader_simD[OF node_simD(11)[OF N r]]
  have len: "prev + len \<le> length (s_tlog a (disk_term (snd w)))" if ok
    using held_knownD[OF safeD(6)[OF S], of j "disk_term (snd w)" "prev + len"] h[OF that] by auto
  have nxt: "get_or (next_index (state n)) j 1 \<le> Suc (length (s_tlog a (disk_term (snd w))))"
    using L(5)[of j] by (auto simp: get_or_def split: option.splits)
  have "leader_sim ms a i (disk_term (snd w)) l'"
    using k unfolding acked_def
  proof (elim disjE conjE exE)
    assume "next_index l' = next_index (state n)" "match_index l' = match_index (state n)"
    with D(11)[OF r] show ?thesis by (rule leader_sim_cong)
  next
    assume x: ok "next_index l' = AList.update j (Suc (prev + len)) (next_index (state n))"
      "match_index l' = AList.update j (prev + len) (match_index (state n))"
    then show ?thesis
      unfolding leader_sim_def x update_conv' using L j h[OF x(1)] len[OF x(1)]
      by (auto simp: distinct_update split: if_splits)
  next
    fix x assume x: "match_index l' = match_index (state n)" "0 < x" "x \<le> max 1 (get_or (next_index (state n)) j 1)"
      "next_index l' = AList.update j x (next_index (state n))"
    then have "x \<le> Suc (length (s_tlog a (disk_term (snd w))))" using nxt by auto
    then show ?thesis
      unfolding leader_sim_def x update_conv' using L x(2) by (simp split: if_splits)
  qed
  then show ?thesis
    unfolding node_sim_def using D r D(5)[of "last_committed n"] by (cases w) (simp add: set_role_def)
qed

lemma median_majority:
  assumes "distinct ms" "i \<in> set ms" "distinct (map fst mt)" "dom (map_of mt) = set (peers_of ms i)" "match_median mt l \<le> l"
  shows "majority (set ms) (insert i {p. \<exists>k. map_of mt p = Some k \<and> match_median mt l \<le> k})"
proof -
  let ?m = "match_median mt l"
  let ?P = "{p. \<exists>k. map_of mt p = Some k \<and> ?m \<le> k}"
  have p: "set (peers_of ms i) = set ms - {i}" by (auto simp: peers_of_def)
  have sub: "?P \<subseteq> set ms - {i}" using assms(4) p by auto
  have "?P = fst ` set (filter (\<lambda>x. ?m \<le> snd x) mt)"
    using assms(3) by (force simp: image_def map_of_eq_Some_iff)
  also have "card \<dots> = length (filter (\<lambda>x. ?m \<le> snd x) mt)"
    using distinct_card[of "map fst (filter (\<lambda>x. ?m \<le> snd x) mt)"] assms(3) by (simp add: distinct_map_filter)
  finally have P: "card ?P = length (filter (\<lambda>x. ?m \<le> snd x) mt)" .
  have "replicas mt l ?m = Suc (length (filter (\<lambda>x. ?m \<le> snd x) mt))"
    using assms(5) by (simp add: replicas_def filter_map comp_def)
  moreover have "length mt + 1 = card (set ms)"
  proof -
    have "length mt = card (set ms - {i})"
      using distinct_card[OF assms(3)] assms(4) p by (simp add: dom_map_of_conv_image_fst)
    then show ?thesis using assms(2) by (metis List.finite_set Suc_eq_plus1 card_Suc_Diff1)
  qed
  ultimately have "card (set ms) < 2 * Suc (card ?P)" using match_median_replicas(1)[of mt l] P by simp
  moreover have "card (insert i ?P) = Suc (card ?P)"
    by (rule card_insert_disjoint) (use sub in \<open>auto intro: finite_subset\<close>)
  ultimately show ?thesis using sub assms(2) by (auto simp: majority_def)
qed

lemma node_commit:
  assumes N: "node_sim ms a i w" and S: "safe (set ms) a" and ms: "distinct ms" "i \<in> set ms" and r: "role (fst w) = Leader n"
    and m: "m = match_median (match_index (state n)) (disk_last (snd w))" "last_committed n < m" "m \<le> disk_last (snd w)"
      "disk_term_at (snd w) m = disk_term (snd w)" and w1: "commits m w w1"
  shows "\<exists>a'. moves (set ms) i a a' \<and> node_sim ms a' i w1"
proof -
  note D = node_simD[OF N] and L = leader_simD[OF node_simD(11)[OF N r]] and B = bookD[OF safeD(3)[OF S]]
  let ?t = "disk_term (snd w)"
  have lead: "i \<in> s_leader a" and led: "led_term a ?t" using D(1,10) r leader_led[OF safeD(3)[OF S], of i] by auto
  have tl: "s_tlog a ?t = dlog (snd w)" using B(11)[OF lead] D(1,2) by simp
  let ?a1 = "a\<lparr>s_held := s_held a \<union> Pair i ` Pair ?t ` {..m}\<rparr>"
  have s1: "moves (set ms) i a ?a1"
    by (rule hold_upto[OF ms(2) D(1)[symmetric] led]) (use m(3) tl D(2) in \<open>simp add: agree_def\<close>)
  let ?Q = "insert i {p. \<exists>k. map_of (match_index (state n)) p = Some k \<and> m \<le> k}"
  have maj: "majority (set ms) ?Q" using median_majority[OF ms L(1,2), of "disk_last (snd w)"] m(1,3) by simp
  have own: "own ?a1 ?t m"
    using m(2-4) tl term_at_dlog[OF D(3), of m] by (simp add: own_def)
  have held: "(j, ?t, m) \<in> s_held ?a1" if "j \<in> ?Q" for j
    using that L(3)[of j _ m] m(2) by auto
  let ?a2 = "?a1\<lparr>s_chosen := insert (?t, m) (s_chosen ?a1), s_commit := (s_commit ?a1)(i := max (s_commit ?a1 i) m)\<rparr>"
  have s2: "moves (set ms) i ?a1 ?a2"
  proof (rule moves_step)
    show "spec_step (set ms) ?a1 ?a2" by (rule spec_step.choose[OF _ _ own maj held]) (use lead D(1) in auto)
  qed (simp add: local_to_def)
  have "leader_sim ms ?a2 i ?t (state n)" using D(11)[OF r] by (simp add: leader_sim_def)
  moreover obtain n' where "role (fst w1) = Leader n'" "state n' = state n" "last_committed n' = last_committed n \<or> last_committed n' = m"
    using w1 r by (auto simp: commits_def)
  moreover have "snd w1 = (snd w)\<lparr>meta_last_committed := Some m\<rparr>" using w1 by (simp add: commits_def)
  ultimately have "node_sim ms ?a2 i w1"
    unfolding node_sim_def using D(1-10) D(5)[of "last_committed n"] r by (auto simp: disk_committed_def)
  with moves_trans[OF s1 s2] show ?thesis by blast
qed

section \<open>Sections of one node\<close>

lemma node_append:
  assumes N: "node_sim ms a j w" and o: "owned j (role (fst w))" and S: "safe M a" and j: "j \<in> M" and q: "sent_as a i q m"
    and r: "rpc_append_entries ident \<lparr>req_trace = tr, req_inner = q\<rparr> w = (r, w')"
  shows "\<exists>a'. moves M j a a' \<and> node_sim ms a' j w' \<and> (answered r \<longrightarrow> m_built m = m_label m \<longrightarrow> (\<forall>k \<le> m_upto m. (j, m_label m, k) \<in> s_held a'))"
  using r
proof (cases rule: rpc_append_cases[where me = j])
  case calm
  with node_calm[OF N o calm(1) S j] show ?thesis by blast
next
  case (reconciled w1 n res n' d')
  from node_calm[OF N o reconciled(1) S j] obtain a1 where a1: "moves M j a a1" "node_sim ms a1 j w1" by blast
  note S1 = moves_safe[OF a1(1) S]
  have "sent_as a1 i q m" using a1(1) by (intro sent_as_mono[OF _ S q]) (simp add: moves_def)
  from node_reconcile[OF a1(2) S1 j reconciled(3) this reconciled(2,4)] obtain a2 where a2: "moves M j a1 a2"
    "node_sim ms a2 j ((fst w1)\<lparr>role := Follower n'\<rparr>, d')"
    "(\<exists>ok. res = Inr ok \<and> rec_success ok) \<longrightarrow> m_built m = m_label m \<longrightarrow> (\<forall>k \<le> m_upto m. (j, m_label m, k) \<in> s_held a2)" by blast
  note S2 = moves_safe[OF a2(1) S1]
  have "owned j (role (fst ((fst w1)\<lparr>role := Follower n'\<rparr>, d')))"
    using calmD(1)[OF reconciled(1) o] reconciled(3) quiet_run_node(1)[OF reconcile_log_quiet reconciled(4)] by (simp add: owned_def)
  from node_calm[OF a2(2) this reconciled(5) S2 j] obtain a3 where a3: "moves M j a2 a3" "node_sim ms a3 j w'" by blast
  have "s_held a2 \<subseteq> s_held a3" using growsD(3)[OF moves_grows[OF a3(1) S2]] .
  with a2(3) reconciled(6) a3(2) moves_trans[OF moves_trans[OF a1(1) a2(1)] a3(1)] show ?thesis by blast
qed

lemma node_request_vote:
  assumes N: "node_sim ms a j w" and o: "owned j (role (fst w))" and S: "safe M a" and j: "j \<in> M"
    and q: "asked a i rq" "rv_candidate_id rq = node_id_to_string i" "valid_node_id i"
    and r: "rpc_request_vote ident \<lparr>req_trace = tr, req_inner = rq\<rparr> w = (r, w')"
  shows "\<exists>a'. moves M j a a' \<and> node_sim ms a' j w'"
  using r
proof (cases rule: rpc_vote_cases[where me = j])
  case calm
  with node_calm[OF N o calm(1) S j] show ?thesis by blast
next
  case (cast w1 c)
  from cast(3) q have c: "c = i" by simp
  from node_calm[OF N o cast(1) S j] obtain a1 where a1: "moves M j a a1" "node_sim ms a1 j w1" by blast
  note S1 = moves_safe[OF a1(1) S]
  have "asked a1 c rq"
    using q(1) steps_keep(3)[of M a a1] growsD(1)[OF moves_grows[OF a1(1) S]] a1(1) S unfolding asked_def moves_def c by blast
  with cast(4-7) node_vote[OF a1(2) S1 j] q(3) c obtain a2 where a2: "moves M j a1 a2"
    "node_sim ms a2 j (fst w1, set_hard_state (rv_term rq) (Some c) (snd w1))" by blast
  have "owned j (role (fst (fst w1, set_hard_state (rv_term rq) (Some c) (snd w1))))" using calmD(1)[OF cast(1) o] by simp
  from node_calm[OF a2(2) this cast(8) moves_safe[OF a2(1) S1] j] show ?thesis
    using moves_trans[OF moves_trans[OF a1(1) a2(1)]] by blast
qed

lemma node_proposal:
  assumes N: "node_sim ms a i w" and o: "owned i (role (fst w))" and S: "safe M a" and i: "i \<in> M" and r: "ln_propose cmd w = (r, w')"
  shows "\<exists>a'. moves M i a a' \<and> node_sim ms a' i w'"
  using r
proof (cases rule: ln_propose_cases[where me = i])
  case calm
  with node_calm[OF N o calm(1) S i] show ?thesis by blast
next
  case (appended n e)
  from node_propose[OF N S appended(1-4)] obtain a1 where a1: "moves M i a a1"
    "node_sim ms a1 i (fst w, set_log (entry_batch [e]) (snd w))" by blast
  from node_calm[OF a1(2) _ appended(5) moves_safe[OF a1(1) S] i] o show ?thesis
    using moves_trans[OF a1(1)] by auto
qed

lemma node_promo:
  assumes N: "node_sim ms a i w" and o: "owned i (role (fst w))" and S: "safe (set ms) a" and i: "i \<in> set ms"
    and p: "promo (peers_of ms i) w w'"
    and q: "\<And>n n'. role (fst w) = Candidate n \<Longrightarrow> role (fst w') = Leader n' \<Longrightarrow> majority (set ms) (spec_voters (set ms) a (disk_term (snd w)) i)"
  shows "\<exists>a'. moves (set ms) i a a' \<and> node_sim ms a' i w'"
  using promo_cases[OF p, of i]
proof
  assume "calm i w w'"
  from node_calm[OF N o this S i] show ?thesis .
next
  assume "\<exists>n n'. role (fst w) = Candidate n \<and> role (fst w') = Leader n' \<and> snd w' = snd w
    \<and> last_committed n' = last_committed n \<and> fresh_leader (peers_of ms i) (disk_last (snd w)) (state n')"
  then show ?thesis using node_elect[OF N S i _ _ _ _ _ q] by blast
qed

lemma node_answer:
  assumes N: "node_sim ms a i w" and o: "owned i (role (fst w))" and S: "safe (set ms) a" and ms: "distinct ms" "i \<in> set ms"
    and j: "j \<in> set (peers_of ms i)" and k: "ack_ok a j i q resp"
    and r: "process_replication_response (ae_term q) j
       (Inr (Some (OAppendEntries (ae_prev_log_index q) (length (ae_entries q)) resp)) :: 'st + replication_outcome option) w = (r, w')"
  shows "\<exists>a'. moves (set ms) i a a' \<and> node_sim ms a' i w'"
  using r
proof (cases rule: ack_cases[where me = i])
  case calm
  with node_calm[OF N o calm(1) S ms(2)] show ?thesis by blast
next
  case (acked n b l')
  note D = node_simD[OF N] and L = leader_simD[OF node_simD(11)[OF N acked(1)]]
  let ?w1 = "set_role (Leader (n\<lparr>state := l'\<rparr>)) w"
  have "0 < get_or (next_index (state n)) j 1" using L(4)[of j] by (auto simp: get_or_def split: option.splits)
  from reconcile_outcome_acked[OF acked(3)] this
  have l': "acked j (ae_prev_log_index q) (length (ae_entries q)) (aer_success resp) (state n) l'"
    by (simp add: acked_def)
  have "\<forall>x \<le> ae_prev_log_index q + length (ae_entries q). (j, disk_term (snd w), x) \<in> s_held a" if sc: "aer_success resp"
  proof -
    from k sc obtain m where m: "sent_as a i q m" "m_built m = m_label m \<longrightarrow> (\<forall>k \<le> m_upto m. (j, m_label m, k) \<in> s_held a)"
      by (auto simp: ack_ok_def)
    then have "m \<in> s_sent a" "m_built m \<le> disk_term (snd w)" "m_label m = disk_term (snd w)"
      "m_upto m = ae_prev_log_index q + length (ae_entries q)" using D(1) acked(2) by (simp_all add: sent_as_def)
    with m(2) postedD(2)[OF safeD(5)[OF S], of m] show ?thesis by simp
  qed
  from node_ack[OF N S acked(1) j l' this] have N1: "node_sim ms a i ?w1" .
  have o1: "owned i (role (fst ?w1))" and r1: "role (fst ?w1) = Leader (n\<lparr>state := l'\<rparr>)"
    using o acked(1) by (cases w; simp add: owned_def set_role_def)+
  from acked(4) consider "calm i ?w1 w'" | r2 where "update_leader_last_committed ?w1 = (r2, w')" by blast
  then show ?thesis
  proof cases
    case 1
    from node_calm[OF N1 o1 1 S ms(2)] show ?thesis .
  next
    case 2
    from update_leader_cases[OF 2 r1, of i] show ?thesis
    proof (elim disjE conjE exE)
      assume "calm i ?w1 w'"
      from node_calm[OF N1 o1 this S ms(2)] show ?thesis .
    next
      fix w2 assume c: "commits (match_median (match_index (state (n\<lparr>state := l'\<rparr>))) (disk_last (snd ?w1))) ?w1 w2" "calm i w2 w'"
        and m: "last_committed (n\<lparr>state := l'\<rparr>) < match_median (match_index (state (n\<lparr>state := l'\<rparr>))) (disk_last (snd ?w1))"
          "match_median (match_index (state (n\<lparr>state := l'\<rparr>))) (disk_last (snd ?w1)) \<le> disk_last (snd ?w1)"
          "disk_term_at (snd ?w1) (match_median (match_index (state (n\<lparr>state := l'\<rparr>))) (disk_last (snd ?w1))) = disk_term (snd ?w1)"
      from node_commit[OF N1 S ms r1 refl m c(1)] obtain a2 where a2: "moves (set ms) i a a2" "node_sim ms a2 i w2" by blast
      have "owned i (role (fst w2))" using c(1) o1 r1 by (auto simp: commits_def owned_def)
      from node_calm[OF a2(2) this c(2) moves_safe[OF a2(1) S] ms(2)] show ?thesis using moves_trans[OF a2(1)] by blast
    qed
  qed
qed

end
