(* ===== verification/Replication_Run.thy ===== *)
theory Replication_Run
  imports Replication
begin

text \<open>
  A run of three nodes, from the first campaign to a command committed on two of them: the run of \<open>Cluster\<close> that elects
  node 1, a proposal, a read probe whose round replicates it to node 2, the answer that commits it on the
  leader, and a second probe whose round tells node 2.
\<close>

section \<open>Worlds\<close>

definition run_entry :: log_entry where
  "run_entry = new_log_entry 1 1 []"

definition run_store :: "(u64 \<times> log_entry) list \<Rightarrow> log_index option \<Rightarrow> log_store" where
  "run_store l c = \<lparr>log_tree = l, meta_hard_state = Some (serialize_hard_state 1 (Some 1)), meta_last_committed = c,
     meta_snapshot_index = None, meta_snapshot_term = None, io_fails = (\<lambda>_. False)\<rparr>"

definition leader_world ::
  "log_index \<Rightarrow> log_index \<Rightarrow> 64 word \<Rightarrow> 64 word \<Rightarrow> node_id set \<Rightarrow> log_index \<Rightarrow> log_store \<Rightarrow> world" where
  "leader_world nx mt ep cf ak lc d =
     ((demo_node 1)\<lparr>role := Leader \<lparr>identity = demo_ids 1, last_committed = lc, last_applied = 0,
        state = \<lparr>next_index = [(2, nx), (3, 1)], match_index = [(2, mt), (3, 0)], l_last_heartbeat = 0,
          current_read_epoch = ep, confirmed_read_epoch = cf, heartbeat_acks = ak\<rparr>\<rparr>\<rparr>, d)"

definition follower_world :: "node_id option \<Rightarrow> log_index \<Rightarrow> log_store \<Rightarrow> world" where
  "follower_world l lc d =
     ((demo_node 2)\<lparr>role := Follower \<lparr>identity = demo_ids 2, last_committed = lc, last_applied = 0,
        state = new_follower l 0 15\<rparr>\<rparr>, d)"

lemma elected: "process_vote_response 1 [2, 3] 2 (Inr \<lparr>rvr_term = 1, rvr_vote_granted = True\<rparr> :: status + request_vote_response) cand1
    = (Inr QuorumReached, leader_world 1 0 0 0 {} 0 (run_store [] None))"
  by (simp add: demo_eval3 demo_eval valid_small leader_world_def run_store_def)

lemma voted: "snd demo_run2 = follower_world None 0 (run_store [] None)"
  unfolding demo_run2_def demo_w2 by (simp add: demo_eval2 demo_eval valid_small follower_world_def run_store_def)

lemmas run_eval = leader_world_def follower_world_def run_store_def demo_node_def demo_ids_def new_follower_def run_entry_def
  new_log_entry_def

lemmas read_eval = node_read_def sled_current_term_def read_hard_state_def read_meta_def deserialize_hard_state_def serialize_hard_state_def
  new_hard_state_def sled_last_log_index_def sled_last_included_index_def tree_last_def unwrap_or_def delegate_read_def is_poisoned_def
  ln_current_term_def ln_last_log_index_def

lemma proposed: "ln_propose [] (leader_world 1 0 0 0 {} 0 (run_store [] None))
    = (Inr (Inr 1), leader_world 1 0 0 0 {} 0 (run_store [(1, run_entry)] None))"
  by (simp add: run_eval read_eval ln_propose_def run_node_def on_disk_def leader_propose_def st_bind_def log_index_add_def
      checked_add_u64_def u64_bound_def node_write_def sled_append_entries_def engine_write_def flush_db_def or_fatal_def
      entry_batch_def tree_apply_batch_def valid_small)

abbreviation "store1 \<equiv> run_store [(1, run_entry)] None"
abbreviation "store2 \<equiv> run_store [(1, run_entry)] (Some 1)"

lemma probed: "leadership_probe (leader_world 1 0 0 0 {} 0 store1)
    = (Inr (Inr \<lparr>rp_target_epoch = 1, rp_in_flight = False, rp_term = 1, rp_node_id = 1, rp_last_committed = 0\<rparr>),
       leader_world 1 0 1 0 {1} 0 store1)"
  by (simp add: run_eval read_eval leadership_probe_def prepare_read_probe_def set_role_def valid_small)

definition round1 :: replication_round_params where
  "round1 = \<lparr>rr_term = 1, rr_node_id = 1, rr_last_committed = 0\<rparr>"

definition request1 :: append_entries_request where
  "request1 = new_append_entries_request 1 1 0 0 [run_entry] 0"

lemmas prepare_eval = prepare_replication_def determine_replication_strategy_def ln_last_included_index_def get_or_def
  build_append_entries_request_def next_index_of_def log_index_sub_def ln_get_term_at_def get_term_at_def ln_read_entries_def
  sled_read_entries_def tree_range_def sled_last_included_term_def sled_read_entry_def tree_get_def

lemma prepared: "prepare_replication 2 round1 (leader_world 1 0 1 0 {1} 0 store1)
    = (Inr (Some (SAppendEntries request1)), leader_world 1 0 1 0 {1} 0 store1)"
  by (simp add: run_eval read_eval prepare_eval round1_def request1_def)

definition answer :: append_entries_response where
  "answer = \<lparr>aer_term = 1, aer_success = True, aer_last_log_index = 1\<rparr>"

lemmas append_eval = rpc_append_entries_def with_params_def require_trace_id_def append_params_try_from_proto_def parse_sender_def
  new_append_entries_request_def execute_append_logic_def verify_node_integrity_def handle_append_entries_def
  validate_leader_rpc_term_def recognise_leader_def set_role_def reset_heartbeat_def reconcile_as_follower_def run_node_def
  reconcile_log_def verify_log_consistency_def on_disk_def st_bind_def log_index_add_def checked_add_u64_def u64_bound_def
  commit_target_def persist_reconciled_def node_write_def sled_append_entries_def engine_write_def flush_db_def or_fatal_def
  entry_batch_def tree_apply_batch_def reconciled_def append_success_def answer_def get_term_at_def sled_read_entry_def
  sled_last_included_term_def tree_get_def sled_save_last_committed_def Let_def

lemma stored: "rpc_append_entries (demo_ids 2) \<lparr>req_trace = Some 8, req_inner = request1\<rparr> (follower_world None 0 (run_store [] None))
    = (Inr (Inr \<lparr>resp_trace = Some 8, resp_inner = answer\<rparr>), follower_world (Some 1) 0 store1)"
  by (simp add: run_eval read_eval append_eval request1_def valid_small)

lemmas ack_eval = process_replication_response_def reconcile_as_leader_def acknowledge_heartbeat_def after_success_def get_or_def
  update_leader_last_committed_def match_median_def ln_advance_last_committed_def delegate_mut_def advance_last_committed_def
  update_commit_index_only_def ln_get_term_at_def

lemma acknowledged: "process_replication_response 1 2 (Inr (Some (OAppendEntries 0 1 answer)) :: status + replication_outcome option)
      (leader_world 1 0 1 0 {1} 0 store1)
    = (Inr (Inr RContinue), leader_world 2 1 1 1 {1, 2} 1 store2)"
  by (simp add: run_eval read_eval append_eval ack_eval valid_small insert_commute)

lemma probed2: "leadership_probe (leader_world 2 1 1 1 {1, 2} 1 store2)
    = (Inr (Inr \<lparr>rp_target_epoch = 2, rp_in_flight = False, rp_term = 1, rp_node_id = 1, rp_last_committed = 1\<rparr>),
       leader_world 2 1 2 1 {1} 1 store2)"
  by (simp add: run_eval read_eval leadership_probe_def prepare_read_probe_def set_role_def valid_small)

definition round2 :: replication_round_params where
  "round2 = \<lparr>rr_term = 1, rr_node_id = 1, rr_last_committed = 1\<rparr>"

definition request2 :: append_entries_request where
  "request2 = new_append_entries_request 1 1 1 1 [] 1"

lemma prepared2: "prepare_replication 2 round2 (leader_world 2 1 2 1 {1} 1 store2)
    = (Inr (Some (SAppendEntries request2)), leader_world 2 1 2 1 {1} 1 store2)"
  by (simp add: run_eval read_eval prepare_eval round2_def request2_def)

lemma stored2: "rpc_append_entries (demo_ids 2) \<lparr>req_trace = Some 9, req_inner = request2\<rparr> (follower_world (Some 1) 0 store1)
    = (Inr (Inr \<lparr>resp_trace = Some 9, resp_inner = answer\<rparr>), follower_world (Some 1) 1 store2)"
  by (simp add: run_eval read_eval append_eval request2_def valid_small)

section \<open>States\<close>

abbreviation "members \<equiv> [1, 2, 3 :: node_id]"

definition run0 :: repl_cluster where
  "run0 = \<lparr>core = demo0, rounds = {}, appends = {}, acks = {}\<rparr>"

definition run3 :: repl_cluster where
  "run3 = run0\<lparr>core := demo3\<rparr>"

definition run4 :: repl_cluster where
  "run4 = put_node 1 (leader_world 1 0 0 0 {} 0 store1) run3"

definition run5 :: repl_cluster where
  "run5 = start_round 1 (Some round1) (put_node 1 (leader_world 1 0 1 0 {1} 0 store1) run4)"

definition run6 :: repl_cluster where
  "run6 = (put_node 1 (leader_world 1 0 1 0 {1} 0 store1) run5)\<lparr>appends := insert (1, 2, request1) (appends run5)\<rparr>"

definition run7 :: repl_cluster where
  "run7 = (put_node 2 (follower_world (Some 1) 0 store1) run6)\<lparr>acks := insert (2, 1, request1, answer) (acks run6)\<rparr>"

definition run8 :: repl_cluster where
  "run8 = put_node 1 (leader_world 2 1 1 1 {1, 2} 1 store2) run7"

definition run9 :: repl_cluster where
  "run9 = start_round 1 (Some round2) (put_node 1 (leader_world 2 1 2 1 {1} 1 store2) run8)"

definition run10 :: repl_cluster where
  "run10 = (put_node 1 (leader_world 2 1 2 1 {1} 1 store2) run9)\<lparr>appends := insert (1, 2, request2) (appends run9)\<rparr>"

definition run11 :: repl_cluster where
  "run11 = (put_node 2 (follower_world (Some 1) 1 store2) run10)\<lparr>acks := insert (2, 1, request2, answer) (acks run10)\<rparr>"

lemma node_world_simps [simp]:
  "node_world (put_node i w s) j = (if j = i then w else node_world s j)" "node_world (start_round i p s) j = node_world s j"
  "node_world (s\<lparr>appends := x\<rparr>) j = node_world s j" "node_world (s\<lparr>acks := y\<rparr>) j = node_world s j"
  by (simp_all add: node_world_def)

lemma run3_worlds:
  "node_world run3 1 = leader_world 1 0 0 0 {} 0 (run_store [] None)" "node_world run3 2 = follower_world None 0 (run_store [] None)"
  using elected voted by (simp_all add: run3_def node_world_def demo3_def demo2_def demo_run3_def world_of_def put_def)

section \<open>Steps\<close>

lemma run_reach3: "repl_reachable members demo_ids run3"
proof -
  have "repl_init members demo_ids run0"
    using demo_init by (simp add: repl_init_def run0_def demo0_def fresh_store_def demo_node_def)
  then have r0: "repl_reachable members demo_ids run0" by (rule repl_reachable.start)
  have "run_section (demo_ids 1) (peers_of members 1) (LFinishPreVote 2) (node_world run0 1) = (fst demo_run1, snd demo_run1)"
    by (simp add: demo_run1_def peers_of_def run0_def node_world_def)
  from repl_step.local_step[where ids = demo_ids and i = 1, OF _ _ this] have "repl_step members demo_ids run0 (run0\<lparr>core := demo1\<rparr>)"
    by (simp add: demo1_def run0_def)
  note r1 = repl_reachable.step[OF r0 this]
  have r: "rpc_request_vote (demo_ids 2) \<lparr>req_trace = Some 7, req_inner = new_request_vote_request 1 1 0 0\<rparr> (node_world (run0\<lparr>core := demo1\<rparr>) 2)
      = (fst demo_run2, snd demo_run2)" by (simp add: demo_run2_def node_world_def)
  have "(1, new_request_vote_request 1 1 0 0) \<in> requests (core (run0\<lparr>core := demo1\<rparr>))" by (simp add: demo1_def demo_run1 emit_def)
  from repl_step.vote_request[where ids = demo_ids and j = 2, OF _ this _ r, of members]
  have "repl_step members demo_ids (run0\<lparr>core := demo1\<rparr>) (run0\<lparr>core := demo2\<rparr>)"
    by (simp add: demo_run2 demo2_def peers_of_def new_request_vote_request_def)
  note r2 = repl_reachable.step[OF r1 this]
  have "world_of demo2 1 = cand1" by (simp add: demo2_def demo1_def demo_run1 emit_def world_of_def put_def)
  then have r: "process_vote_response 1 (peers_of members 1) 2
      (Inr \<lparr>rvr_term = 1, rvr_vote_granted = True\<rparr> :: status + request_vote_response) (node_world (run0\<lparr>core := demo2\<rparr>) 1) = (fst demo_run3, snd demo_run3)"
    by (simp add: demo_run3_def peers_of_def node_world_def)
  have "(2, 1, 1, \<lparr>rvr_term = 1, rvr_vote_granted = True\<rparr>) \<in> responses (core (run0\<lparr>core := demo2\<rparr>))" by (simp add: demo2_def)
  from repl_step.vote_response[OF _ this r, of demo_ids] have "repl_step members demo_ids (run0\<lparr>core := demo2\<rparr>) run3"
    by (simp add: demo3_def run3_def put_node_def)
  from repl_reachable.step[OF r2 this] show ?thesis .
qed

lemma run_step4: "repl_step members demo_ids run3 run4"
proof -
  have "run_section (demo_ids 1) (peers_of members 1) (LPropose []) (node_world run3 1) = (None, leader_world 1 0 0 0 {} 0 store1)"
    by (simp add: run3_worlds[unfolded One_nat_def] proposed[unfolded One_nat_def])
  from repl_step.local_step[where ids = demo_ids and i = 1, OF _ _ this] show ?thesis by (simp add: run4_def put_node_def)
qed

lemma run_step5: "repl_step members demo_ids run4 run5"
  using repl_step.probe[of 1 members run4, where ids = demo_ids] probed
  by (simp add: run4_def run5_def round1_def round_of_probe_def)

lemma run_step6: "repl_step members demo_ids run5 run6"
proof -
  have "prepare_replication 2 round1 (node_world run5 1) = (Inr (Some (SAppendEntries request1)), node_world run5 1)"
    using prepared by (simp add: run5_def)
  from repl_step.prepare[where ids = demo_ids and ms = members, OF _ _ _ this] show ?thesis by (simp add: run5_def run6_def peers_of_def)
qed

lemma run_step7: "repl_step members demo_ids run6 run7"
  using repl_step.append[of 2 members 1 request1 run6 demo_ids "Some 8"] stored run3_worlds
  by (simp add: run4_def run5_def run6_def run7_def)

lemma run_step8: "repl_step members demo_ids run7 run8"
  using repl_step.ack[of 1 members 2 request1 answer run7, where ids = demo_ids] acknowledged
  by (simp add: run6_def run7_def run8_def request1_def new_append_entries_request_def)

lemma run_step9: "repl_step members demo_ids run8 run9"
  using repl_step.probe[of 1 members run8, where ids = demo_ids] probed2
  by (simp add: run8_def run9_def round2_def round_of_probe_def)

lemma run_step10: "repl_step members demo_ids run9 run10"
proof -
  have "prepare_replication 2 round2 (node_world run9 1) = (Inr (Some (SAppendEntries request2)), node_world run9 1)"
    using prepared2 by (simp add: run9_def)
  from repl_step.prepare[where ids = demo_ids and ms = members, OF _ _ _ this] show ?thesis by (simp add: run9_def run10_def peers_of_def)
qed

lemma run_step11: "repl_step members demo_ids run10 run11"
  using repl_step.append[of 2 members 1 request2 run10 demo_ids "Some 9"] stored2
  by (simp add: run7_def run8_def run9_def run10_def run11_def)

lemma run_reach8: "repl_reachable members demo_ids run8"
  using run_reach3 run_step4 run_step5 run_step6 run_step7 run_step8 repl_reachable.step by blast

lemma run_steps11: "repl_steps members demo_ids run8 run11"
  using run_step9 run_step10 run_step11 repl_steps.stay repl_steps.extend by blast

lemma run_reach11: "repl_reachable members demo_ids run11"
  by (rule repl_steps_reachable[OF run_steps11 run_reach8])

end
