(* ===== verification/Raft_Safety.thy ===== *)
theory Raft_Safety
  imports Raft_Refinement Replication_Run
begin

text \<open>
  Every step of the replicating cluster simulates steps of the specification, and what follows for the stores: Log
  Matching, Leader Completeness and State Machine Safety, in every reachable state and across later states.
\<close>

section \<open>Initial states\<close>

lemma node_sim_init:
  assumes "log_tree d = []" "meta_hard_state d = None" "meta_last_committed d = None" "meta_snapshot_index d = None"
    "meta_snapshot_term d = None" "role ln = Follower n" "last_committed n = 0"
  shows "node_sim ms spec_init i (ln, d)"
proof -
  have l: "disk_last d = 0" using assms by (simp add: disk_last_def disk_physical_def disk_snap_def tree_last_def)
  then have "plain d" "dlog d = []"
    using assms by (simp_all add: plain_def log_ok_def dlog_def disk_snap_def incl_range_def tree_ok_def is_u64_def u64_bound_def)
  then show ?thesis
    using assms by (simp add: node_sim_def spec_init_def disk_term_def disk_vote_def disk_committed_def)
qed

lemma sim_init:
  assumes "repl_init ms ids s"
  shows "sim ms s spec_init"
proof -
  have r: "\<exists>n. role (nodes (core s) i) = Follower n \<and> last_committed n = 0" if "i \<in> set ms" for i
    using assms that unfolding repl_init_def cluster_init_def by (cases "role (nodes (core s) i)") fastforce+
  have "node_sim ms spec_init i (node_world s i)" if "i \<in> set ms" for i
  proof -
    from r[OF that] obtain n where "role (nodes (core s) i) = Follower n" "last_committed n = 0" by blast
    with assms that show ?thesis
      unfolding node_world_def world_of_def by (intro node_sim_init) (auto simp: repl_init_def cluster_init_def)
  qed
  moreover have "requests (core s) = {}" "hist (core s) = {}" "rounds s = {}" "appends s = {}" "acks s = {}"
    using assms by (simp_all add: repl_init_def cluster_init_def)
  ultimately show ?thesis by (simp add: sim_def net_sim_def safe_init)
qed

section \<open>Steps\<close>

lemma owned_node: "cluster_inv ms ids (core s) \<Longrightarrow> i \<in> set ms \<Longrightarrow> owned i (role (fst (node_world s i)))"
  using cluster_invD(2,4)[of ms ids "core s" i] by (auto simp: owned_def node_world_def world_of_def)

lemma simD:
  assumes "sim ms s a"
  shows "safe (set ms) a" "i \<in> set ms \<Longrightarrow> node_sim ms a i (node_world s i)" "net_sim ms a s" "hist (core s) \<subseteq> s_votes a"
  using assms by (auto simp: sim_def)

text \<open>Messages a node adds to the network.\<close>

lemma sim_request:
  assumes "sim ms s a" "\<And>p. c = Some p \<Longrightarrow> asked a i (new_request_vote_request (cp_term p) (cp_node_id p) (cp_last_log_index p) (cp_last_log_term p))"
  shows "sim ms (s\<lparr>core := emit i c (core s)\<rparr>) a"
proof (cases c)
  case (Some p)
  with assms show ?thesis by (auto simp: sim_def net_sim_def emit_def node_world_def world_of_def)
qed (use assms(1) in simp)

lemma sim_round:
  assumes "sim ms s a" "\<And>p. c = Some p \<Longrightarrow> round_ok a i p"
  shows "sim ms (start_round i c s) a"
  using assms by (auto simp: sim_def net_sim_def node_world_def)

lemma asked_campaign:
  assumes "node_sim ms a i w'" "safe (set ms) a" "campaigned p w w'"
  shows "asked a i (new_request_vote_request (cp_term p) me (cp_last_log_index p) (cp_last_log_term p))"
proof -
  note D = node_simD[OF assms(1)] and B = bookD[OF safeD(3)[OF assms(2)]]
  note p = assms(3)[unfolded campaigned_def]
  from p consider (cand) n where "role (fst w') = Candidate n" | (lead) n where "role (fst w') = Leader n" by blast
  then show ?thesis
  proof cases
    case cand
    with D(8)[OF cand] p last_term_dlog[OF D(3)] show ?thesis by (simp add: asked_def new_request_vote_request_def)
  next
    case lead
    then have l: "(disk_term (snd w'), i) \<in> set (s_leads a)" using B(10)[of i] D(1,10) by auto
    have "spec_voters (set ms) a (disk_term (snd w')) i \<noteq> {}" using B(9)[OF l] by (auto simp: majority_def)
    then obtain x where "(x, disk_term (snd w'), i) \<in> s_votes a" by (auto simp: spec_voters_def)
    from B(2)[OF this] obtain lg where "s_camp a (disk_term (snd w'), i) = Some lg" by blast
    moreover have "led_term a (disk_term (snd w'))" using l by (auto simp: led_term_iff)
    ultimately show ?thesis using p by (simp add: asked_def new_request_vote_request_def)
  qed
qed

lemma commit_backed:
  assumes "safe M a" "c \<le> s_commit a i"
  shows "backed a (s_term a i) c"
proof (cases "c = 0")
  case False
  with assms(2) have "0 < s_commit a i" by simp
  from commit_okD[OF safeD(11)[OF assms(1)] this] obtain t k where "(t, k) \<in> s_chosen a" "t \<le> s_term a i" "s_commit a i \<le> k" .
  with assms(2) show ?thesis unfolding backed_def by (meson le_trans)
qed (simp add: backed_def)

lemma round_now:
  assumes "node_sim ms a i w" "safe M a" "rr_term p = disk_term (snd w)" "role_commit_of (role (fst w)) = Some (rr_last_committed p)"
  shows "round_ok a i p"
  using commit_backed[OF assms(2) node_simD(5)[OF assms(1,4)]] node_simD(1)[OF assms(1)] assms(3) by (simp add: round_ok_def)

lemma sim_calm:
  assumes "sim ms s a" "cluster_inv ms ids (core s)" "i \<in> set ms" "calm i (node_world s i) w"
  shows "\<exists>a'. spec_steps (set ms) a a' \<and> sim ms (put_node i w s) a' \<and> node_sim ms a' i w"
proof -
  from node_calm[OF simD(2)[OF assms(1,3)] owned_node[OF assms(2,3)] assms(4) simD(1)[OF assms(1)] assms(3)]
  obtain a' where "moves (set ms) i a a'" "node_sim ms a' i w" by blast
  with sim_put[OF assms(1) this] show ?thesis by (auto simp: moves_def)
qed

lemma sim_moves:
  assumes "sim ms s a" "\<exists>a'. moves (set ms) i a a' \<and> node_sim ms a' i w"
  shows "\<exists>a'. spec_steps (set ms) a a' \<and> sim ms (put_node i w s) a'"
  using assms(2) sim_put[OF assms(1)] unfolding moves_def by blast

lemma sim_local:
  assumes S: "sim ms s a" and I: "cluster_inv ms ids (core s)" and i: "i \<in> set ms" and l: "local_only sec"
    and r: "run_section (ids i) (peers_of ms i) sec (node_world s i) = (c, w')"
  shows "\<exists>a'. spec_steps (set ms) a a' \<and> sim ms (s\<lparr>core := emit i c (put i w' (core s))\<rparr>) a'"
proof (cases "\<exists>cmd. sec = LPropose cmd")
  case True
  then obtain cmd where "sec = LPropose cmd" by blast
  with r obtain res where p: "ln_propose cmd (node_world s i) = (res, w')" "c = None" by (cases "ln_propose cmd (node_world s i)") auto
  from sim_moves[OF S node_proposal[OF simD(2)[OF S i] owned_node[OF I i] simD(1)[OF S] i p(1)]] p(2) show ?thesis
    by (simp add: put_node_def)
next
  case False
  have "calm i (node_world s i) w'"
    using r l False
    by (cases sec)
      (auto split: prod.splits intro!: calm_then[OF calm.refl] calm_step_down_section calm_rpc_pre_vote calm_apply_fatal
        dest: run_relD[OF calm_pre_vote(1)] run_relD[OF calm_pre_vote(2)])
  from sim_calm[OF S I i this] obtain a' where a': "spec_steps (set ms) a a'" "sim ms (put_node i w' s) a'" "node_sim ms a' i w'" by blast
  have "sim ms ((put_node i w' s)\<lparr>core := emit i c (core (put_node i w' s))\<rparr>) a'"
    by (rule sim_request[OF a'(2)]) (use asked_campaign[OF a'(3) simD(1)[OF a'(2)]] run_section_campaign r in blast)
  with a'(1) show ?thesis by (auto simp: put_node_def)
qed

lemma sim_tick:
  assumes S: "sim ms s a" and I: "cluster_inv ms ids (core s)" and i: "i \<in> set ms" and r: "tick_section th fr (node_world s i) = (r, w')"
  shows "\<exists>a'. spec_steps (set ms) a a' \<and> sim ms (start_round i (round_of_tick r) (s\<lparr>core := emit i (campaign_of_tick r) (put i w' (core s))\<rparr>)) a'"
proof -
  from sim_calm[OF S I i run_relD[OF calm_tick_section r]] obtain a' where
    a': "spec_steps (set ms) a a'" "sim ms (put_node i w' s) a'" "node_sim ms a' i w'" by blast
  have c: "asked a' i (new_request_vote_request (cp_term p) (cp_node_id p) (cp_last_log_index p) (cp_last_log_term p))"
    if "campaign_of_tick r = Some p" for p
  proof -
    from that obtain x where "r = Inr (x, DispatchElection p)" by (auto simp: campaign_of_tick_def split: sum.splits tick_dispatch.splits)
    with asked_campaign[OF a'(3) simD(1)[OF a'(2)] tick_election] r show ?thesis by blast
  qed
  have "round_ok a' i p" if "round_of_tick r = Some p" for p
  proof -
    from that obtain x where "r = Inr (x, DispatchReplication p)" by (auto simp: round_of_tick_def split: sum.splits tick_dispatch.splits)
    with round_now[OF a'(3) simD(1)[OF a'(2)]] tick_replication r show ?thesis by blast
  qed
  from sim_round[OF sim_request[OF a'(2) c] this] a'(1) show ?thesis by (auto simp: put_node_def)
qed

lemma sim_probe:
  assumes S: "sim ms s a" and I: "cluster_inv ms ids (core s)" and i: "i \<in> set ms" and r: "leadership_probe (node_world s i) = (r, w')"
  shows "\<exists>a'. spec_steps (set ms) a a' \<and> sim ms (start_round i (round_of_probe r) (put_node i w' s)) a'"
proof -
  from sim_calm[OF S I i run_relD[OF calm_leadership_probe r]] obtain a' where
    a': "spec_steps (set ms) a a'" "sim ms (put_node i w' s) a'" "node_sim ms a' i w'" by blast
  have "round_ok a' i p" if "round_of_probe r = Some p" for p
  proof -
    from that obtain x where x: "r = Inr (Inr x)" "rr_term p = rp_term x" "rr_last_committed p = rp_last_committed x"
      by (auto simp: round_of_probe_def split: sum.splits if_splits)
    with round_now[OF a'(3) simD(1)[OF a'(2)], of p] probe_params[of "node_world s i" x w'] r show ?thesis by simp
  qed
  from sim_round[OF a'(2) this] a'(1) show ?thesis by blast
qed

text \<open>The request a leader builds is a prefix of its log, cut at the peer's next index.\<close>

lemma request_segment:
  assumes "plain d" "0 < nxt" "nxt \<le> Suc (disk_last d)" "sled_read_entries nxt (disk_last d) d = Inr es"
  shows "segment_of (dlog d) (nxt - 1) (disk_term_at d (nxt - 1)) es" "nxt - 1 + length es = disk_last d"
proof -
  have es: "es = drop (nxt - 1) (dlog d)" by (rule sled_read_entries_Inr[OF assms(1,4)])
  moreover have "0 < e_term e" if "e \<in> set (dlog d)" for e
    using that dlog_entry(2)[OF assms(1)] by (auto simp: in_set_conv_nth)
  ultimately show "segment_of (dlog d) (nxt - 1) (disk_term_at d (nxt - 1)) es"
    using assms(2,3) consecutive_dlog[OF assms(1)] disk_last_u64[OF assms(1)]
    by (auto simp: segment_of_def term_at_dlog[OF assms(1)])
  show "nxt - 1 + length es = disk_last d" using assms(2,3) es by simp
qed

lemma node_send:
  assumes N: "node_sim ms a i w" and S: "safe (set ms) a" and p: "round_ok a i params" and r: "role (fst w) = Leader n"
    and x: "nxt = get_or (next_index (state n)) j 1" "0 < nxt" "sled_read_entries nxt (disk_last (snd w)) (snd w) = Inr es"
      "q = new_append_entries_request (rr_term params) (rr_node_id params) (nxt - 1) (disk_term_at (snd w) (nxt - 1)) es (rr_last_committed params)"
  shows "\<exists>a' m. spec_step (set ms) a a' \<and> local_to i a a' \<and> node_sim ms a' i w \<and> sent_as a' i q m"
proof -
  note D = node_simD[OF N] and B = bookD[OF safeD(3)[OF S]] and L = leader_simD[OF node_simD(11)[OF N r]]
  let ?T = "disk_term (snd w)"
  have lead: "i \<in> s_leader a" using D(10) r by blast
  have tl: "s_tlog a ?T = dlog (snd w)" using B(11)[OF lead] D(1,2) by simp
  have "nxt \<le> Suc (disk_last (snd w))"
    using L(5)[of j] x(1) tl by (cases "map_of (next_index (state n)) j") (auto simp: get_or_def)
  note seg = request_segment[OF D(3) x(2) this x(3)]
  let ?m = "\<lparr>m_label = rr_term params, m_built = ?T, m_prev = nxt - 1, m_upto = length (s_tlog a ?T), m_commit = rr_last_committed params\<rparr>"
  let ?a = "a\<lparr>s_sent := insert ?m (s_sent a)\<rparr>"
  have "spec_step (set ms) a ?a"
    by (rule spec_step.send[OF lead D(1)[symmetric]]) (use p D(1) tl seg(2) in \<open>auto simp: round_ok_def\<close>)
  moreover have "sent_as ?a i q ?m"
    using seg tl D(1) x(4) by (simp add: sent_as_def new_append_entries_request_def)
  moreover have "node_sim ms ?a i w" using N by (simp add: node_sim_def leader_sim_def)
  ultimately show ?thesis by (auto simp: local_to_def)
qed

lemma sim_append_msg:
  assumes "sim ms s a" "sent_as a i q m" "j \<in> set (peers_of ms i)"
  shows "sim ms (s\<lparr>appends := insert (i, j, q) (appends s)\<rparr>) a"
  using assms unfolding sim_def net_sim_def node_world_def by auto

lemma sim_prepare:
  assumes S: "sim ms s a" and I: "cluster_inv ms ids (core s)" and i: "i \<in> set ms" and p: "(i, params) \<in> rounds s" and j: "j \<in> set (peers_of ms i)"
    and r: "prepare_replication j params (node_world s i) = (r, w')"
  shows "\<exists>a'. spec_steps (set ms) a a' \<and> sim ms
    ((put_node i w' s)\<lparr>appends := (case r of Inr (Some (SAppendEntries q)) \<Rightarrow> insert (i, j, q) (appends s) | _ \<Rightarrow> appends s)\<rparr>) a'"
proof (cases "\<exists>q. r = Inr (Some (SAppendEntries q))")
  case True
  then obtain q where q: "r = Inr (Some (SAppendEntries q))" by blast
  from r[unfolded q] obtain n nxt es where w: "w' = node_world s i" and x: "role (fst (node_world s i)) = Leader n"
    "nxt = get_or (next_index (state n)) j 1" "0 < nxt" "sled_read_entries nxt (disk_last (snd (node_world s i))) (snd (node_world s i)) = Inr es"
    "q = new_append_entries_request (rr_term params) (rr_node_id params) (nxt - 1) (disk_term_at (snd (node_world s i)) (nxt - 1)) es (rr_last_committed params)"
    by (rule prepare_append)
  have "round_ok a i params" using simD(3)[OF S] p by (simp add: net_sim_def)
  from node_send[OF simD(2)[OF S i] simD(1)[OF S] this x] obtain a' m where
    a': "spec_step (set ms) a a'" "local_to i a a'" "node_sim ms a' i w'" "sent_as a' i q m" unfolding w by blast
  from sim_append_msg[OF sim_put[OF S moves_step[OF a'(1,2)] a'(3)] a'(4) j] spec_step1[OF a'(1)] q show ?thesis by auto
next
  case False
  then have "(case r of Inr (Some (SAppendEntries q)) \<Rightarrow> insert (i, j, q) (appends s) | _ \<Rightarrow> appends s) = appends s"
    by (auto split: sum.splits option.splits replication_strategy.splits)
  moreover have "(put_node i w' s)\<lparr>appends := appends s\<rparr> = put_node i w' s" by (simp add: put_node_def)
  ultimately show ?thesis using sim_calm[OF S I i run_relD[OF calm_prepare_replication r]] by metis
qed

lemma sim_ack_msg:
  assumes "sim ms s a" "ack_ok a j i q resp" "j \<in> set (peers_of ms i)"
  shows "sim ms (s\<lparr>acks := insert (j, i, q, resp) (acks s)\<rparr>) a"
  using assms unfolding sim_def net_sim_def node_world_def by auto

lemma sim_append:
  assumes S: "sim ms s a" and I: "cluster_inv ms ids (core s)" and j: "j \<in> set ms" and q: "(i, j, q) \<in> appends s"
    and r: "rpc_append_entries (ids j) \<lparr>req_trace = tr, req_inner = q\<rparr> (node_world s j) = (r, w')"
  shows "\<exists>a'. spec_steps (set ms) a a' \<and> sim ms
    ((put_node j w' s)\<lparr>acks := (case r of Inr (Inr resp) \<Rightarrow> insert (j, i, q, resp_inner resp) (acks s) | _ \<Rightarrow> acks s)\<rparr>) a'"
proof -
  from simD(3)[OF S] q obtain m where m: "sent_as a i q m" and ji: "j \<in> set (peers_of ms i)" unfolding net_sim_def by blast
  from node_append[OF simD(2)[OF S j] owned_node[OF I j] simD(1)[OF S] j m r] obtain a' where a': "moves (set ms) j a a'" "node_sim ms a' j w'"
    "answered r \<longrightarrow> m_built m = m_label m \<longrightarrow> (\<forall>k \<le> m_upto m. (j, m_label m, k) \<in> s_held a')" by blast
  have st: "spec_steps (set ms) a a'" using a'(1) by (simp add: moves_def)
  note put = sim_put[OF S a'(1,2)]
  have "ack_ok a' j i q (resp_inner resp)" if "r = Inr (Inr resp)" for resp
    using a'(3) that sent_as_mono[OF st simD(1)[OF S] m] by (auto simp: ack_ok_def answered_def)
  from sim_ack_msg[OF put this ji] have "sim ms ((put_node j w' s)\<lparr>acks := insert (j, i, q, resp_inner resp) (acks s)\<rparr>) a'"
    if "r = Inr (Inr resp)" for resp using that by simp
  moreover have "sim ms ((put_node j w' s)\<lparr>acks := acks s\<rparr>) a'"
  proof -
    have e: "(put_node j w' s)\<lparr>acks := acks s\<rparr> = put_node j w' s" by (simp add: put_node_def)
    show ?thesis unfolding e by (rule put)
  qed
  ultimately show ?thesis using st by (auto split: sum.splits)
qed

lemma sim_vote_request:
  assumes S: "sim ms s a" and I: "cluster_inv ms ids (core s)" and j: "j \<in> set ms" and q: "(i, rq) \<in> requests (core s)"
    and r: "rpc_request_vote (ids j) \<lparr>req_trace = tr, req_inner = rq\<rparr> (node_world s j) = (r, w')"
  shows "\<exists>a'. spec_steps (set ms) a a' \<and> sim ms (s\<lparr>core := (put j w' (core s))\<lparr>responses := rs\<rparr>\<rparr>) a'"
proof -
  have a: "asked a i rq" using simD(3)[OF S] q by (simp add: net_sim_def)
  have "rv_candidate_id rq = node_id_to_string i" "valid_node_id i" using cluster_invD(8)[OF I q] cluster_invD(2)[OF I] by auto
  from sim_moves[OF S node_request_vote[OF simD(2)[OF S j] owned_node[OF I j] simD(1)[OF S] j a this r]]
  obtain a' where "spec_steps (set ms) a a'" "sim ms (put_node j w' s) a'" by blast
  then show ?thesis by (intro exI[of _ a']) (auto simp: sim_def net_sim_def node_world_def world_of_def put_node_def)
qed

lemma led_voters:
  assumes "sim ms s a" "cluster_inv ms ids c" "hist c \<subseteq> s_votes a" "role (nodes c i) = Leader n" "i \<in> set ms" "disk_term (disks c i) = t"
  shows "majority (set ms) (spec_voters (set ms) a t i)"
  by (rule majority_mono[OF cluster_invD(11)[OF assms(2) cluster_invD(10)[OF assms(2,5,4)]]])
    (use assms(3,6) in \<open>auto simp: voters_def spec_voters_def\<close>)

lemma sim_promo:
  assumes S: "sim ms s a" and I: "cluster_inv ms ids (core s)" and I': "cluster_inv ms ids (put i w' (core s))" and i: "i \<in> set ms"
    and p: "promo (peers_of ms i) (node_world s i) w'"
  shows "\<exists>a'. spec_steps (set ms) a a' \<and> sim ms (put_node i w' s) a'"
proof (rule sim_moves[OF S node_promo[OF simD(2)[OF S i] owned_node[OF I i] simD(1)[OF S] i p]])
  fix n n' assume r: "role (fst (node_world s i)) = Candidate n" "role (fst w') = Leader n'"
  have d: "snd w' = snd (node_world s i)" using p by (simp add: promo_def)
  have "hist (put i w' (core s)) \<subseteq> s_votes a"
    using simD(4)[OF S] node_simD(7)[OF simD(2)[OF S i]] by (auto simp: votes_of_def d split: option.splits)
  from led_voters[OF S I' this, of i n'] r(2) i d
  show "majority (set ms) (spec_voters (set ms) a (disk_term (snd (node_world s i))) i)" by simp
qed

lemma node_restart:
  assumes N: "node_sim ms a i w" and i: "i \<in> M" and r: "role ln = Follower n" "last_committed n = disk_committed (snd w)"
  shows "\<exists>a'. moves M i a a' \<and> node_sim ms a' i (ln, snd w)"
proof -
  note D = node_simD[OF N]
  let ?a = "a\<lparr>s_term := (s_term a)(i := s_term a i), s_leader := s_leader a - {i}\<rparr>"
  have "spec_step M a ?a" by (rule spec_step.advance[OF i]) simp
  moreover have "node_sim ms ?a i (ln, snd w)" unfolding node_sim_def using D r by auto
  ultimately show ?thesis using moves_step local_to_advance by blast
qed

lemma sim_step:
  assumes "repl_step ms ids s s'" and I: "cluster_inv ms ids (core s)" and S: "sim ms s a"
  shows "\<exists>a'. spec_steps (set ms) a a' \<and> sim ms s' a'"
  using assms(1)
proof cases
  case (local_step i sec c w')
  show ?thesis unfolding local_step(1) by (rule sim_local[OF S I local_step(2-4)])
next
  case (tick i th fr r w')
  show ?thesis unfolding tick(1) by (rule sim_tick[OF S I tick(2,3)])
next
  case (probe i r w')
  show ?thesis unfolding probe(1) by (rule sim_probe[OF S I probe(2,3)])
next
  case (prepare i params j r w')
  show ?thesis unfolding prepare(1) by (rule sim_prepare[OF S I prepare(2-5)])
next
  case (append j i q tr r w')
  show ?thesis unfolding append(1) by (rule sim_append[OF S I append(2-4)])
next
  case (ack i j q resp r w')
  have "j \<in> set (peers_of ms i)" "ack_ok a j i q resp" using simD(3)[OF S] ack(3) by (simp_all add: net_sim_def)
  from node_answer[OF simD(2)[OF S ack(2)] owned_node[OF I ack(2)] simD(1)[OF S] cluster_invD(1)[OF I] ack(2) this ack(4)]
  show ?thesis unfolding ack(1) by (rule sim_moves[OF S])
next
  case (apply_entry i c k r w')
  have "fst (node_world s i) = nodes (core s) i" by (simp add: node_world_def world_of_def)
  with horizon_calm[OF apply_entry(5) _ apply_entry(4)] apply_entry(3) have "calm i (node_world s i) w'" by simp
  from sim_calm[OF S I apply_entry(2) this] show ?thesis unfolding apply_entry(1) by blast
next
  case (vote_request j i rq tr r w')
  show ?thesis unfolding vote_request(1) by (rule sim_vote_request[OF S I vote_request(2,3,5)])
next
  case (vote_response i j t resp r w')
  from vote_response_promo[OF vote_response(4), of i] show ?thesis
  proof
    assume "calm i (node_world s i) w'"
    from sim_calm[OF S I vote_response(2) this] show ?thesis unfolding vote_response(1) by blast
  next
    assume p: "promo (peers_of ms i) (node_world s i) w'"
    have "cluster_inv ms ids (put i w' (core s))"
      by (rule step_vote_response[OF I vote_response(2-4)[unfolded node_world_def]])
    from sim_promo[OF S I this vote_response(2) p] show ?thesis unfolding vote_response(1) .
  qed
next
  case (tally_read i v)
  have "sim ms s' a" using S unfolding tally_read(1) by (auto simp: sim_def net_sim_def node_world_def world_of_def)
  then show ?thesis using spec_steps.stay by blast
next
  case (election_end i v r w')
  have "cluster_inv ms ids (put i w' (core s))" by (rule step_election_end[OF I election_end(2-4)[unfolded node_world_def]])
  from sim_promo[OF S I this election_end(2) finish_election_promo[OF election_end(4)]] show ?thesis unfolding election_end(1) .
next
  case (restart i fsm th rn ln)
  then obtain n where n: "role ln = Follower n" "last_committed n = disk_committed (disks (core s) i)"
    by (auto simp: logical_node_try_new_def try_new_with_applied_def res_bind_Inr_iff node_read_Inr split: prod.splits if_splits
        dest!: sled_last_committed_Inr)
  have "snd (node_world s i) = disks (core s) i" by (simp add: node_world_def world_of_def)
  with sim_moves[OF S node_restart[OF simD(2)[OF S restart(2)] restart(2) n(1)]] n(2) show ?thesis unfolding restart(1) by simp
next
  case (storage_fault i f)
  have "calm i (node_world s i) (nodes (core s) i, (disks (core s) i)\<lparr>io_fails := f\<rparr>)"
    by (auto simp: calm_def node_world_def world_of_def log_same_def hard_le_def role_calm_def disk_term_def disk_vote_def)
  from sim_calm[OF S I storage_fault(2) this] show ?thesis unfolding storage_fault(1) by blast
qed

lemma sim_reachable: "repl_reachable ms ids s \<Longrightarrow> \<exists>a. spec_steps (set ms) spec_init a \<and> sim ms s a"
proof (induction rule: repl_reachable.induct)
  case (start s)
  then show ?case using sim_init spec_steps.stay by blast
next
  case (step s s')
  then obtain a where a: "spec_steps (set ms) spec_init a" "sim ms s a" by blast
  from sim_step[OF step(2) repl_inv[OF step(1)] a(2)] a(1) show ?case using spec_steps_trans by blast
qed

lemma sim_steps:
  assumes "repl_steps ms ids s s'" "repl_reachable ms ids s" "sim ms s a"
  shows "\<exists>a'. spec_steps (set ms) a a' \<and> sim ms s' a'"
  using assms
proof (induction rule: repl_steps.induct)
  case (stay s)
  then show ?case using spec_steps.stay by blast
next
  case (extend s s' s'')
  then obtain a1 where a1: "spec_steps (set ms) a a1" "sim ms s' a1" by blast
  have "repl_reachable ms ids s'" using repl_steps_reachable extend by blast
  from sim_step[OF extend(2) repl_inv[OF this] a1(2)] a1(1) show ?case using spec_steps_trans by blast
qed

section \<open>What the stores show\<close>

definition node_entry :: "repl_cluster \<Rightarrow> node_id \<Rightarrow> log_index \<Rightarrow> log_entry option" where
  "node_entry s i k = disk_entry (disks (core s) i) k"

definition committed_upto :: "repl_cluster \<Rightarrow> node_id \<Rightarrow> log_index" where
  "committed_upto s i = max (disk_committed (disks (core s) i)) (unwrap_or (role_commit_of (role (nodes (core s) i))) 0)"

lemma sim_node:
  assumes "sim ms s a" "i \<in> set ms"
  shows "s_term a i = disk_term (disks (core s) i)" "s_log a i = dlog (disks (core s) i)" "plain (disks (core s) i)"
    "i \<in> s_leader a \<longleftrightarrow> (\<exists>n. role (nodes (core s) i) = Leader n)" "committed_upto s i \<le> s_commit a i"
    "node_entry s i k = (if 0 < k \<and> k \<le> length (s_log a i) then Some (s_log a i ! (k - 1)) else None)"
proof -
  note D = node_simD[OF simD(2)[OF assms]]
  have w: "fst (node_world s i) = nodes (core s) i" "snd (node_world s i) = disks (core s) i" by (simp_all add: node_world_def world_of_def)
  show "s_term a i = disk_term (disks (core s) i)" "s_log a i = dlog (disks (core s) i)" "plain (disks (core s) i)"
    "i \<in> s_leader a \<longleftrightarrow> (\<exists>n. role (nodes (core s) i) = Leader n)" using D(1-3,10) w by simp_all
  show "committed_upto s i \<le> s_commit a i"
    using D(4,5) w by (cases "role_commit_of (role (nodes (core s) i))") (auto simp: committed_upto_def)
  show "node_entry s i k = (if 0 < k \<and> k \<le> length (s_log a i) then Some (s_log a i ! (k - 1)) else None)"
    using disk_entry_dlog[of "disks (core s) i" k] D(2,3) w by (simp add: node_entry_def)
qed

lemma reach_sim:
  assumes "repl_reachable ms ids s" "repl_steps ms ids s s'"
  obtains a a' where "sim ms s a" "sim ms s' a'" "spec_steps (set ms) a a'"
  using sim_reachable[OF assms(1)] sim_steps[OF assms(2,1)] by blast

lemma safety_across:
  assumes "repl_reachable ms ids s" "repl_steps ms ids s s'" "i \<in> set ms" "j \<in> set ms"
    and "0 < k" "k \<le> committed_upto s i" "k \<le> committed_upto s' j"
  shows "\<exists>e. node_entry s i k = Some e \<and> node_entry s' j k = Some e"
proof -
  from reach_sim[OF assms(1,2)] obtain a a' where A: "sim ms s a" "sim ms s' a'" "spec_steps (set ms) a a'" .
  have "k - 1 < s_commit a i" "k - 1 < s_commit a' j"
    using sim_node(5)[OF A(1) assms(3)] sim_node(5)[OF A(2) assms(4)] assms(5-7) by linarith+
  note c = commit_agrees[OF A(3) simD(1)[OF A(1)] this]
  have "k \<le> length (s_log a i)" "k \<le> length (s_log a' j)" using c(1,2) by linarith+
  with c(3) assms(5) show ?thesis by (simp add: sim_node(6)[OF A(1) assms(3)] sim_node(6)[OF A(2) assms(4)])
qed

section \<open>Safety\<close>

text \<open>
  C3 The cluster refines the specification of the replicated log: for every state it reaches, through lost, repeated and
  reordered messages, stale rounds, crashes, restarts and storage failures at any point, there is a state the
  specification reaches whose terms, logs, leaders and votes are those on the nodes' stores and in their roles, and no node
  counts an entry as committed that the specification does not.
\<close>
theorem raft_refinement:
  assumes "repl_reachable ms ids s"
  shows "\<exists>a. spec_steps (set ms) spec_init a \<and>
    (\<forall>i \<in> set ms. s_term a i = disk_term (disks (core s) i) \<and> s_log a i = dlog (disks (core s) i)
       \<and> (i \<in> s_leader a \<longleftrightarrow> (\<exists>n. role (nodes (core s) i) = Leader n))
       \<and> (\<forall>v. disk_vote (disks (core s) i) = Some v \<longrightarrow> (i, disk_term (disks (core s) i), v) \<in> s_votes a)
       \<and> committed_upto s i \<le> s_commit a i)"
proof -
  from sim_reachable[OF assms] obtain a where a: "spec_steps (set ms) spec_init a" "sim ms s a" by blast
  have "(i, disk_term (disks (core s) i), v) \<in> s_votes a" if "i \<in> set ms" "disk_vote (disks (core s) i) = Some v" for i v
    using node_simD(7)[OF simD(2)[OF a(2) that(1)]] that(2) by (simp add: node_world_def world_of_def)
  with a sim_node[OF a(2)] show ?thesis by blast
qed

lemma run11_nodes:
  "disks (core run11) 1 = store2" "disks (core run11) 2 = store2" "disks (core run8) 1 = store2"
  "committed_upto run11 1 = 1" "committed_upto run11 2 = 1" "committed_upto run8 1 = 1" "\<exists>n. role (nodes (core run11) 1) = Leader n"
  by (simp_all add: run11_def run10_def run9_def run8_def committed_upto_def leader_world_def follower_world_def run_store_def
      disk_committed_def put_node_def start_round_def)

lemma store2_log: "disk_last store2 = 1" "disk_entry store2 1 = Some run_entry" "disk_term store2 = 1" "dlog store2 = [run_entry]"
proof -
  show l: "disk_last store2 = 1" "disk_entry store2 1 = Some run_entry" "disk_term store2 = 1"
    by (simp_all add: run_store_def disk_last_def disk_physical_def disk_snap_def tree_last_def disk_entry_def tree_get_def
        disk_term_def deserialize_hard_state_def serialize_hard_state_def new_hard_state_def valid_small)
  show "dlog store2 = [run_entry]" using l by (simp add: dlog_def)
qed

theorem raft_refinement_witness:
  "\<exists>a. spec_steps {1, 2, 3} spec_init a \<and> s_log a 1 = [run_entry] \<and> s_log a 2 = [run_entry] \<and> 1 \<in> s_leader a \<and> 1 \<le> s_commit a 2"
  using raft_refinement[OF run_reach11] run11_nodes store2_log by fastforce

text \<open>
  C1 State Machine Safety: when two nodes of a cluster have both committed the entry at an index, they hold
  the same entry there, also when the one commits it long after the other. A committed entry is never lost
  or replaced, whatever messages are lost, repeated or reordered, whoever crashes and whichever storage calls fail.
\<close>
theorem state_machine_safety:
  assumes "repl_reachable ms ids s" "repl_steps ms ids s s'" "i \<in> set ms" "j \<in> set ms"
    and "0 < k" "k \<le> committed_upto s i" "k \<le> committed_upto s' j"
  shows "\<exists>e. node_entry s i k = Some e \<and> node_entry s' j k = Some e"
  by (rule safety_across[OF assms])

theorem state_machine_safety_witness:
  "\<exists>e. node_entry run8 1 1 = Some e \<and> node_entry run11 2 1 = Some e"
  by (rule state_machine_safety[OF run_reach8 run_steps11]) (simp_all add: run11_nodes[unfolded One_nat_def])

text \<open>
  C6 Leader Completeness: a leader holds every entry that any node had committed in the leader's term or an
  earlier one, at the same index.
\<close>
theorem leader_has_committed:
  assumes "repl_reachable ms ids s" "repl_steps ms ids s s'" "i \<in> set ms" "j \<in> set ms"
    and "0 < k" "k \<le> committed_upto s i" "role (nodes (core s') j) = Leader n"
    and "disk_term (disks (core s) i) \<le> disk_term (disks (core s') j)"
  shows "\<exists>e. node_entry s i k = Some e \<and> node_entry s' j k = Some e"
proof -
  from reach_sim[OF assms(1,2)] obtain a a' where A: "sim ms s a" "sim ms s' a'" "spec_steps (set ms) a a'" .
  note S = simD(1)[OF A(1)] and S' = simD(1)[OF A(2)] and G = grows_steps[OF A(3) simD(1)[OF A(1)]]
  let ?t' = "disk_term (disks (core s') j)"
  have p: "k - 1 < s_commit a i" using sim_node(5)[OF A(1) assms(3)] assms(5,6) by linarith
  from commit_okD[OF safeD(11)[OF S] this] obtain t m where c: "(t, m) \<in> s_chosen a" "t \<le> s_term a i" "s_commit a i \<le> m"
    "agree a (s_log a i) t (s_commit a i)" .
  have lead: "j \<in> s_leader a'" using sim_node(4)[OF A(2) assms(4)] assms(7) by blast
  have tj: "s_term a' j = ?t'" using sim_node(1)[OF A(2) assms(4)] .
  have led: "led_term a' ?t'" using leader_led[OF safeD(3)[OF S'] lead] tj by simp
  have lj: "s_log a' j = s_tlog a' ?t'" using bookD(11)[OF safeD(3)[OF S'] lead] tj by simp
  have "t \<le> ?t'" using c(2) sim_node(1)[OF A(1) assms(3)] assms(8) by simp
  with chosen_prefix[OF S' subsetD[OF growsD(4)[OF G] c(1)] led] have "agree a' (s_log a' j) t m" using lj by simp
  moreover have "k - 1 < m" using p c(3) by linarith
  ultimately have e: "k \<le> length (s_log a' j)" "s_log a' j ! (k - 1) = s_tlog a' t ! (k - 1)"
    using agree_nth[of a' "s_log a' j" t m "k - 1"] by (auto simp: agree_def)
  have "k - 1 < length (s_tlog a t)" "k \<le> length (s_log a i)" using c(4) p by (auto simp: agree_def)
  moreover have "s_log a i ! (k - 1) = s_tlog a t ! (k - 1)" by (rule agree_nth[OF c(4) p])
  moreover have "led_term a t" by (rule chosen_okD(1)[OF safeD(10)[OF S] c(1)])
  ultimately show ?thesis using e assms(5) grows_nth[OF G, of t "k - 1"]
    by (simp add: sim_node(6)[OF A(1) assms(3)] sim_node(6)[OF A(2) assms(4)])
qed

theorem leader_has_committed_witness:
  "\<exists>e. node_entry run11 2 1 = Some e \<and> node_entry run11 1 1 = Some e"
proof -
  obtain n where "role (nodes (core run11) 1) = Leader n" using run11_nodes(7) by blast
  from leader_has_committed[OF run_reach11 repl_steps.stay, of 2 1 1 n] this show ?thesis
    by (simp add: run11_nodes[unfolded One_nat_def])
qed

text \<open>
  C7 Log Matching: when the logs of two nodes hold entries of the same term at the same index, they are identical up
  to that index.
\<close>
theorem log_matching:
  assumes "repl_reachable ms ids s" "i \<in> set ms" "j \<in> set ms" "node_entry s i k = Some e" "node_entry s j k = Some e'"
    and "e_term e = e_term e'" "k' \<le> k"
  shows "node_entry s i k' = node_entry s j k'"
proof -
  from sim_reachable[OF assms(1)] obtain a where A: "sim ms s a" by blast
  note N = sim_node[OF A assms(2)] and N' = sim_node[OF A assms(3)]
  from assms(4,5) have k: "0 < k" "k \<le> length (s_log a i)" "k \<le> length (s_log a j)" "e = s_log a i ! (k - 1)" "e' = s_log a j ! (k - 1)"
    by (auto simp: N(6) N'(6) split: if_splits)
  have "take (Suc (k - 1)) (s_log a i) = take (Suc (k - 1)) (s_log a j)"
    by (rule log_matching_spec[OF simD(1)[OF A]]) (use k assms(6) in \<open>auto simp: same_term_def\<close>)
  then have t: "take k (s_log a i) = take k (s_log a j)" using k(1) by simp
  have "k' - 1 < k" using k(1) assms(7) by linarith
  then have "s_log a i ! (k' - 1) = s_log a j ! (k' - 1)"
    using nth_take[of "k' - 1" k "s_log a i"] nth_take[of "k' - 1" k "s_log a j"] t by simp
  with k assms(7) show ?thesis by (auto simp: N(6) N'(6))
qed

theorem log_matching_witness:
  "node_entry run11 1 1 = node_entry run11 2 1 \<and> node_entry run11 1 1 = Some run_entry"
proof -
  have e: "node_entry run11 1 1 = Some run_entry" "node_entry run11 2 1 = Some run_entry"
    using run11_nodes(1,2) store2_log(2) by (simp_all add: node_entry_def)
  from log_matching[OF run_reach11 _ _ e] e(1) show ?thesis by simp
qed

end
