(* ===== verification/Lacto_FSM.thy ===== *)
theory Lacto_FSM
  imports Types Sled_Tree "HOL-Library.List_Lexorder" "HOL-Library.Char_ord"
begin

text \<open>
  \<open>crates/lacto-fsm/src/lib.rs\<close>: the replicated state machine \<open>LactoStore\<close>, with its three trees
  (inventory, sessions, meta), the exactly-once session check of \<open>apply\<close>, snapshots, and the restoration
  tombstone that makes the installation of a snapshot safe against a crash.

  As in \<open>Log_Storage\<close> the trees hold decoded values and the environment chooses, per call site, which
  engine call or decoding fails (\<open>fsm_fails\<close>). The codecs of the generated protobuf code and the UUID
  parser are not part of the repository; they are the fields of the parameter \<open>fsm_codec\<close>.
\<close>

section \<open>Data\<close>

record timestamp =
  seconds :: int
  nanos :: int

record grocery_item =
  item_key :: string
  quantity :: string
  unit :: string
  category :: string
  last_modifier_id :: string
  last_activity :: "timestamp option"
  state_version :: u64
  display_unit :: string

datatype mutation_status = MUnspecified | MCommitted | MRejected | MVetoed

record committed_mutation =
  m_resolved_item_key :: string
  m_suggested_display_name :: string
  m_updated_base_quantity :: string
  m_base_unit :: string
  m_display_unit :: string
  m_updated_category :: string
  m_client_id :: string
  m_sequence_id :: u64
  m_raw_user_input :: string
  m_moral_justification :: string
  m_event_time :: "timestamp option"
  m_is_delete :: bool
  m_status :: int

record session_record =
  sr_client_id :: string
  sr_last_sequence_id :: u64
  sr_status :: int
  sr_log_index :: u64
  sr_moral_justification :: string
  sr_last_activity :: "timestamp option"

record snapshot_data =
  sd_inventory :: "grocery_item list"
  sd_sessions :: "session_record list"
  sd_last_effective_time :: "timestamp option"

record fsm_codec =
  decode_mutation :: "bytes \<Rightarrow> committed_mutation option"
  encode_snapshot :: "snapshot_data \<Rightarrow> bytes"
  decode_snapshot :: "bytes \<Rightarrow> snapshot_data option"
  parse_uuid :: "string \<Rightarrow> string option"

definition mutation_status_try_from :: "int \<Rightarrow> mutation_status option" where
  "mutation_status_try_from i =
     (if i = 0 then Some MUnspecified else if i = 1 then Some MCommitted
      else if i = 2 then Some MRejected else if i = 3 then Some MVetoed else None)"

fun mutation_status_int :: "mutation_status \<Rightarrow> int" where
  "mutation_status_int MUnspecified = 0"
| "mutation_status_int MCommitted = 1"
| "mutation_status_int MRejected = 2"
| "mutation_status_int MVetoed = 3"

definition zero_timestamp :: timestamp where
  "zero_timestamp = \<lparr>seconds = 0, nanos = 0\<rparr>"

definition new_grocery_item ::
  "string \<Rightarrow> string \<Rightarrow> string \<Rightarrow> string \<Rightarrow> string \<Rightarrow> timestamp \<Rightarrow> log_index \<Rightarrow> string \<Rightarrow> grocery_item" where
  "new_grocery_item key qty u cat modifier act version du =
     \<lparr>item_key = key, quantity = qty, unit = u, category = cat, last_modifier_id = modifier,
      last_activity = Some act, state_version = version, display_unit = du\<rparr>"

definition new_session_record ::
  "string \<Rightarrow> sequence_id \<Rightarrow> mutation_status \<Rightarrow> log_index \<Rightarrow> string \<Rightarrow> timestamp \<Rightarrow> session_record" where
  "new_session_record client sq st idx just tm =
     \<lparr>sr_client_id = client, sr_last_sequence_id = sq, sr_status = mutation_status_int st, sr_log_index = idx,
      sr_moral_justification = just, sr_last_activity = Some tm\<rparr>"

section \<open>Store\<close>

datatype flush_site = FlPurge | FlDuplicate | FlTombstone | FlRestored | FlCommit

datatype fsm_op =
    RdRestoreFlag | ClearInventory | ClearSessions | ClearMeta
  | RdEffectiveTime | DecEffectiveTime
  | RdSession string | DecSession string
  | ItInventory string | DecItem string | ItSession string
  | RdLastApplied | DecLastApplied
  | WrLastApplied | WrRestoreFlag
  | ItMeta nat | RmMeta nat
  | WrInventoryBatch | WrSessionBatch | WrMetaBatch
  | Transact | FlushFsm flush_site

record fsm_store =
  inventory :: "(string, grocery_item) tree"
  sessions :: "(string, session_record) tree"
  fm_last_applied :: "u64 option"
  fm_effective_time :: "timestamp option"
  fm_restoring :: bool
  fsm_poisoned :: bool
  fsm_fails :: "fsm_op \<Rightarrow> bool"

type_synonym 'a fsm_proc = "(fsm_store, fsm_error, 'a) proc"
type_synonym 'a fsm_reader = "fsm_store \<Rightarrow> fsm_error + 'a"

definition fsm_write :: "fsm_op \<Rightarrow> string \<Rightarrow> (fsm_store \<Rightarrow> fsm_store) \<Rightarrow> unit fsm_proc" where
  "fsm_write op msg w s = (if fsm_fails s op then (Inl (FPersistence msg), s) else (Inr (), w s))"

definition fsm_flush :: "flush_site \<Rightarrow> string \<Rightarrow> unit fsm_proc" where
  "fsm_flush site msg = fsm_write (FlushFsm site) msg (\<lambda>s. s)"

definition fsm_poison :: "fsm_error \<Rightarrow> 'a fsm_proc" where
  "fsm_poison e s = (Inl e, s\<lparr>fsm_poisoned := True\<rparr>)"

section \<open>Opening\<close>

definition is_restoration_stale :: "bool fsm_reader" where
  "is_restoration_stale s =
     (if fsm_fails s RdRestoreFlag then Inl (FPersistence ''Failed to read restore flag'') else Inr (fm_restoring s))"

definition purge_all_data :: "unit fsm_proc" where
  "purge_all_data =
     st_bind (fsm_write ClearInventory ''Failed to purge inventory'' (\<lambda>s. s\<lparr>inventory := []\<rparr>))
       (\<lambda>_. st_bind (fsm_write ClearSessions ''Failed to purge sessions'' (\<lambda>s. s\<lparr>sessions := []\<rparr>))
       (\<lambda>_. st_bind (fsm_write ClearMeta ''Failed to purge meta''
                       (\<lambda>s. s\<lparr>fm_last_applied := None, fm_effective_time := None, fm_restoring := False\<rparr>))
       (\<lambda>_. fsm_flush FlPurge ''Failed to flush after purge'')))"

definition lacto_store_new :: "unit fsm_proc" where
  "lacto_store_new =
     st_bind (st_modify (\<lambda>s. s\<lparr>fsm_poisoned := False\<rparr>))
       (\<lambda>_. st_bind (st_read is_restoration_stale)
       (\<lambda>stale. if stale then purge_all_data else st_return ()))"

section \<open>Readers\<close>

definition check_not_poisoned :: "unit fsm_reader" where
  "check_not_poisoned s = (if fsm_poisoned s then Inl FPoisoned else Inr ())"

definition last_effective_time :: "timestamp fsm_reader" where
  "last_effective_time s =
     (if fsm_fails s RdEffectiveTime then Inl (FPersistence ''Failed to read meta tree'')
      else case fm_effective_time s of
             None \<Rightarrow> Inr zero_timestamp
           | Some t \<Rightarrow> if fsm_fails s DecEffectiveTime then Inl (FDeserialization ''Failed to decode clinical timestamp'')
                       else Inr t)"

definition get_session_record :: "string \<Rightarrow> session_record option fsm_reader" where
  "get_session_record client s =
     (if fsm_fails s (RdSession client) then Inl (FPersistence ''Failed to read session table'')
      else case tree_get (sessions s) client of
             None \<Rightarrow> Inr None
           | Some r \<Rightarrow> if fsm_fails s (DecSession client) then Inl (FDeserialization ''Corrupt SessionRecord'')
                       else Inr (Some r))"

definition last_applied_index :: "log_index fsm_reader" where
  "last_applied_index s =
     res_bind (check_not_poisoned s)
       (\<lambda>_. if fsm_fails s RdLastApplied then Inl (FPersistence ''Failed to read last_applied index'')
            else case fm_last_applied s of
                   None \<Rightarrow> Inr 0
                 | Some i \<Rightarrow> if fsm_fails s DecLastApplied then Inl (FDeserialization ''last_applied index byte conversion failed'')
                             else Inr i)"

definition check_session :: "string \<Rightarrow> sequence_id \<Rightarrow> session_record option fsm_reader" where
  "check_session client sq s =
     res_bind (check_not_poisoned s)
       (\<lambda>_. res_bind (get_session_record client s)
       (\<lambda>r. case r of
            Some rec \<Rightarrow> if sq = 0 \<or> sr_last_sequence_id rec = sq then Inr (Some rec) else Inr None
          | None \<Rightarrow> Inr None))"

definition decode_inventory_entry :: "fsm_store \<Rightarrow> string \<times> grocery_item \<Rightarrow> grocery_item option" where
  "decode_inventory_entry s = (\<lambda>(k, item). if fsm_fails s (ItInventory k) \<or> fsm_fails s (DecItem k) then None else Some item)"

definition get_inventory :: "grocery_item list fsm_reader" where
  "get_inventory s =
     res_bind (check_not_poisoned s) (\<lambda>_. Inr (List.map_filter (decode_inventory_entry s) (inventory s)))"

definition current_version :: "log_index fsm_reader" where
  "current_version s = res_bind (check_not_poisoned s) (\<lambda>_. last_applied_index s)"

section \<open>Apply\<close>

definition max_timestamp :: "timestamp \<Rightarrow> timestamp \<Rightarrow> timestamp" where
  "max_timestamp t1 t2 =
     (if seconds t1 > seconds t2 \<or> seconds t1 = seconds t2 \<and> nanos t1 > nanos t2 then t1 else t2)"

definition item_from_mutation :: "log_index \<Rightarrow> committed_mutation \<Rightarrow> grocery_item" where
  "item_from_mutation index m =
     new_grocery_item (m_resolved_item_key m) (m_updated_base_quantity m) (m_base_unit m) (m_updated_category m)
       (m_client_id m) (case m_event_time m of None \<Rightarrow> zero_timestamp | Some t \<Rightarrow> t) index (m_display_unit m)"

definition validate_log_monotonicity :: "log_index \<Rightarrow> unit fsm_proc" where
  "validate_log_monotonicity index =
     st_bind (st_read last_applied_index)
       (\<lambda>current. st_bind (st_read (\<lambda>_. map_err FArithmetic (log_index_add current 1)))
       (\<lambda>expected. if index \<noteq> expected then fsm_poison (FInvariant ''Non-sequential LogIndex apply attempted'')
                   else st_return ()))"

definition parse_client_id :: "fsm_codec \<Rightarrow> string \<Rightarrow> string fsm_proc" where
  "parse_client_id c raw =
     (case parse_uuid c raw of
        None \<Rightarrow> fsm_poison (FInvariant ''Invalid client_id in ledger'')
      | Some cid \<Rightarrow> st_return cid)"

definition advance_last_applied_for_duplicate :: "log_index \<Rightarrow> unit fsm_proc" where
  "advance_last_applied_for_duplicate index =
     st_bind (fsm_write WrLastApplied ''Failed to persist last_applied index'' (\<lambda>s. s\<lparr>fm_last_applied := Some index\<rparr>))
       (\<lambda>_. fsm_flush FlDuplicate ''FSM flush failure during deduplication'')"

definition commit_transaction ::
  "string \<Rightarrow> mutation_status \<Rightarrow> log_index \<Rightarrow> timestamp \<Rightarrow> timestamp \<Rightarrow> committed_mutation \<Rightarrow> fsm_store \<Rightarrow> fsm_store" where
  "commit_transaction client_obj st index event_time next_effective m s =
     s\<lparr>inventory :=
         (if st = MCommitted then
            if m_is_delete m then tree_remove (m_resolved_item_key m) (inventory s)
            else tree_insert (m_resolved_item_key m) (item_from_mutation index m) (inventory s)
          else inventory s),
       sessions := tree_insert (m_client_id m)
         (new_session_record client_obj (m_sequence_id m) st index (m_moral_justification m) event_time) (sessions s),
       fm_last_applied := Some index,
       fm_effective_time := Some next_effective\<rparr>"

definition commit_mutation :: "string \<Rightarrow> log_index \<Rightarrow> committed_mutation \<Rightarrow> unit fsm_proc" where
  "commit_mutation client_obj index m =
     (case mutation_status_try_from (m_status m) of
        None \<Rightarrow> fsm_poison (FInvariant ''Unknown MutationStatus integer'')
      | Some st \<Rightarrow>
          (case m_event_time m of
             None \<Rightarrow> fsm_poison (FInvariant ''Mutation is missing mandatory event_time'')
           | Some event_time \<Rightarrow>
               st_bind (st_read last_effective_time)
                 (\<lambda>current. st_bind
                    (fsm_write Transact ''Atomic transaction failure''
                       (commit_transaction client_obj st index event_time (max_timestamp event_time current) m))
                    (\<lambda>_. fsm_flush FlCommit ''FSM flush failure after commitment''))))"

definition apply_mutation :: "string \<Rightarrow> log_index \<Rightarrow> committed_mutation \<Rightarrow> unit fsm_proc" where
  "apply_mutation client_obj index m =
     st_bind (st_read (get_session_record (m_client_id m)))
       (\<lambda>r. let last_seen = (case r of None \<Rightarrow> 0 | Some rec \<Rightarrow> sr_last_sequence_id rec)
            in st_bind (st_read (\<lambda>_. map_err FArithmetic (sequence_id_add last_seen 1)))
       (\<lambda>expected.
          if m_sequence_id m \<le> last_seen then advance_last_applied_for_duplicate index
          else if m_sequence_id m > expected then fsm_poison (FInvariant ''Sequence gap'')
          else commit_mutation client_obj index m))"

definition fsm_apply :: "fsm_codec \<Rightarrow> log_index \<Rightarrow> bytes \<Rightarrow> unit fsm_proc" where
  "fsm_apply c index data =
     st_bind (st_read check_not_poisoned)
       (\<lambda>_. case decode_mutation c data of
            None \<Rightarrow> st_fail (FDeserialization ''Failed to deserialize mutation'')
          | Some m \<Rightarrow>
              st_bind (validate_log_monotonicity index)
                (\<lambda>_. st_bind (parse_client_id c (m_client_id m))
                (\<lambda>client_obj. apply_mutation client_obj index m)))"

section \<open>Snapshots\<close>

fun collect_sessions :: "(fsm_op \<Rightarrow> bool) \<Rightarrow> (string, session_record) tree \<Rightarrow> fsm_error + session_record list" where
  "collect_sessions fl [] = Inr []"
| "collect_sessions fl ((k, r) # t) =
     (if fl (ItSession k) then Inl (FPersistence ''Session iteration failure'')
      else if fl (DecSession k) then Inl (FDeserialization ''Failed to decode SessionRecord'')
      else map_ok ((#) r) (collect_sessions fl t))"

definition fsm_snapshot :: "fsm_codec \<Rightarrow> bytes fsm_reader" where
  "fsm_snapshot c s =
     res_bind (check_not_poisoned s)
       (\<lambda>_. res_bind (get_inventory s)
       (\<lambda>inv. res_bind (collect_sessions (fsm_fails s) (sessions s))
       (\<lambda>ses. res_bind (last_effective_time s)
       (\<lambda>t. Inr (encode_snapshot c \<lparr>sd_inventory = inv, sd_sessions = ses, sd_last_effective_time = Some t\<rparr>)))))"

definition set_restoration_tombstone :: "unit fsm_proc" where
  "set_restoration_tombstone =
     st_bind (fsm_write WrRestoreFlag ''Failed to set restore flag'' (\<lambda>s. s\<lparr>fm_restoring := True\<rparr>))
       (\<lambda>_. fsm_flush FlTombstone ''FSM flush failure during dirty-marking'')"

definition remove_meta_key :: "nat \<Rightarrow> (fsm_store \<Rightarrow> bool) \<Rightarrow> (fsm_store \<Rightarrow> fsm_store) \<Rightarrow> unit fsm_proc" where
  "remove_meta_key k present del s =
     (if present s then
        st_bind (fsm_write (ItMeta k) ''Meta iteration failure during clear'' (\<lambda>s. s))
          (\<lambda>_. fsm_write (RmMeta k) ''Failed to remove meta key'' del) s
      else (Inr (), s))"

definition clear_state_except_tombstone :: "unit fsm_proc" where
  "clear_state_except_tombstone =
     st_bind (fsm_write ClearInventory ''Failed to clear inventory'' (\<lambda>s. s\<lparr>inventory := []\<rparr>))
       (\<lambda>_. st_bind (fsm_write ClearSessions ''Failed to clear sessions'' (\<lambda>s. s\<lparr>sessions := []\<rparr>))
       (\<lambda>_. st_bind (remove_meta_key 0 (\<lambda>s. fm_last_applied s \<noteq> None) (\<lambda>s. s\<lparr>fm_last_applied := None\<rparr>))
       (\<lambda>_. st_bind (remove_meta_key 1 (\<lambda>s. fm_effective_time s \<noteq> None) (\<lambda>s. s\<lparr>fm_effective_time := None\<rparr>))
       (\<lambda>_. fsm_write (ItMeta 2) ''Meta iteration failure during clear'' (\<lambda>s. s)))))"

definition restore_inventory_batch :: "grocery_item list \<Rightarrow> unit fsm_proc" where
  "restore_inventory_batch items =
     fsm_write WrInventoryBatch ''Failed to apply inventory batch''
       (\<lambda>s. s\<lparr>inventory := tree_apply_batch (map (\<lambda>i. BInsert (item_key i) i) items) (inventory s)\<rparr>)"

definition restore_session_batch :: "session_record list \<Rightarrow> unit fsm_proc" where
  "restore_session_batch records =
     fsm_write WrSessionBatch ''Failed to apply session batch''
       (\<lambda>s. s\<lparr>sessions := tree_apply_batch (map (\<lambda>r. BInsert (sr_client_id r) r) records) (sessions s)\<rparr>)"

definition finalize_restoration :: "log_index \<Rightarrow> timestamp option \<Rightarrow> unit fsm_proc" where
  "finalize_restoration index time =
     st_bind (fsm_write WrMetaBatch ''Failed to apply meta batch''
        (\<lambda>s. s\<lparr>fm_last_applied := Some index,
               fm_effective_time := (case time of None \<Rightarrow> fm_effective_time s | Some t \<Rightarrow> Some t),
               fm_restoring := False\<rparr>))
       (\<lambda>_. fsm_flush FlRestored ''FSM flush failure after snapshot restoration'')"

definition fsm_install_snapshot :: "fsm_codec \<Rightarrow> log_index \<Rightarrow> bytes \<Rightarrow> unit fsm_proc" where
  "fsm_install_snapshot c index data =
     st_bind (st_read check_not_poisoned)
       (\<lambda>_. case decode_snapshot c data of
            None \<Rightarrow> st_fail (FDeserialization ''Failed to decode SnapshotData'')
          | Some snap \<Rightarrow>
              st_bind set_restoration_tombstone
                (\<lambda>_. st_bind clear_state_except_tombstone
                (\<lambda>_. st_bind (restore_inventory_batch (sd_inventory snap))
                (\<lambda>_. st_bind (restore_session_batch (sd_sessions snap))
                (\<lambda>_. finalize_restoration index (sd_last_effective_time snap))))))"

end
