(* ===== verification/FSM_Properties.thy ===== *)
theory FSM_Properties
  imports Lacto_FSM
begin

text \<open>
  What the state machine promises. \<open>fsm_view\<close> is its content as maps, \<open>spec_apply\<close> the specification of
  one ledger entry on it, and \<open>fsm_apply\<close> refines that specification; from it follow that replicas agree
  and that a repeated mutation takes effect once. Snapshots restore the content they were taken from, and
  an installation that stops anywhere leaves a store that opens to the old, the new or the empty content.
\<close>

section \<open>Specification\<close>

record fsm_view =
  v_items :: "string \<rightharpoonup> grocery_item"
  v_sessions :: "string \<rightharpoonup> session_record"
  v_applied :: u64
  v_time :: timestamp

definition fsm_abs :: "fsm_store \<Rightarrow> fsm_view" where
  "fsm_abs s = \<lparr>v_items = tree_get (inventory s), v_sessions = tree_get (sessions s),
     v_applied = (case fm_last_applied s of None \<Rightarrow> 0 | Some i \<Rightarrow> i),
     v_time = (case fm_effective_time s of None \<Rightarrow> zero_timestamp | Some t \<Rightarrow> t)\<rparr>"

definition fsm_healthy :: "fsm_store \<Rightarrow> bool" where
  "fsm_healthy s \<longleftrightarrow> (\<forall>op. \<not> fsm_fails s op)"

definition fsm_trees_ok :: "fsm_store \<Rightarrow> bool" where
  "fsm_trees_ok s \<longleftrightarrow> tree_ok (inventory s) \<and> tree_ok (sessions s)"

definition fsm_ready :: "fsm_store \<Rightarrow> bool" where
  "fsm_ready s \<longleftrightarrow> fsm_healthy s \<and> fsm_trees_ok s \<and> \<not> fsm_poisoned s"

definition last_seen :: "fsm_view \<Rightarrow> string \<Rightarrow> sequence_id" where
  "last_seen v client = (case v_sessions v client of None \<Rightarrow> 0 | Some r \<Rightarrow> sr_last_sequence_id r)"

definition spec_commit :: "string \<Rightarrow> log_index \<Rightarrow> committed_mutation \<Rightarrow> fsm_view \<Rightarrow> fsm_view option" where
  "spec_commit cid i m v =
     (case (mutation_status_try_from (m_status m), m_event_time m) of
        (Some st, Some t) \<Rightarrow>
          Some \<lparr>v_items = (if st \<noteq> MCommitted then v_items v
                          else (v_items v)(m_resolved_item_key m := (if m_is_delete m then None else Some (item_from_mutation i m)))),
                v_sessions = (v_sessions v)(m_client_id m \<mapsto>
                   new_session_record cid (m_sequence_id m) st i (m_moral_justification m) t),
                v_applied = i, v_time = max_timestamp t (v_time v)\<rparr>
      | _ \<Rightarrow> None)"

definition spec_apply :: "fsm_codec \<Rightarrow> log_index \<Rightarrow> bytes \<Rightarrow> fsm_view \<Rightarrow> fsm_view option" where
  "spec_apply c i data v =
     (case decode_mutation c data of
        None \<Rightarrow> None
      | Some m \<Rightarrow>
          (case parse_uuid c (m_client_id m) of
             None \<Rightarrow> None
           | Some cid \<Rightarrow>
               (let seen = last_seen v (m_client_id m)
                in if i \<noteq> Suc (v_applied v) \<or> \<not> is_u64 i \<or> \<not> is_u64 (Suc seen) then None
                   else if m_sequence_id m \<le> seen then Some (v\<lparr>v_applied := i\<rparr>)
                   else if m_sequence_id m > Suc seen then None
                   else spec_commit cid i m v)))"

lemma fsm_healthyD [simp]: "fsm_healthy s \<Longrightarrow> \<not> fsm_fails s op"
  by (simp add: fsm_healthy_def)

lemma fsm_write_healthy [simp]: "fsm_healthy s \<Longrightarrow> fsm_write op msg w s = (Inr (), w s)"
  by (simp add: fsm_write_def)

lemma fsm_flush_healthy [simp]: "fsm_healthy s \<Longrightarrow> fsm_flush site msg s = (Inr (), s)"
  by (simp add: fsm_flush_def)

lemma fsm_healthy_update [simp]:
  "fsm_healthy (s\<lparr>inventory := a\<rparr>) = fsm_healthy s" "fsm_healthy (s\<lparr>sessions := b\<rparr>) = fsm_healthy s"
  "fsm_healthy (s\<lparr>fm_last_applied := x\<rparr>) = fsm_healthy s" "fsm_healthy (s\<lparr>fm_effective_time := y\<rparr>) = fsm_healthy s"
  "fsm_healthy (s\<lparr>fm_restoring := z\<rparr>) = fsm_healthy s" "fsm_healthy (s\<lparr>fsm_poisoned := p\<rparr>) = fsm_healthy s"
  by (simp_all add: fsm_healthy_def)

lemma fsm_healthy_commit [simp]: "fsm_healthy (commit_transaction cid st i t nt m s) = fsm_healthy s"
  by (simp add: commit_transaction_def)

lemma fsm_reads_healthy:
  "fsm_healthy s \<Longrightarrow> \<not> fsm_poisoned s \<Longrightarrow> last_applied_index s = Inr (v_applied (fsm_abs s))"
  "fsm_healthy s \<Longrightarrow> last_effective_time s = Inr (v_time (fsm_abs s))"
  "fsm_healthy s \<Longrightarrow> get_session_record k s = Inr (v_sessions (fsm_abs s) k)"
  by (simp_all add: last_applied_index_def check_not_poisoned_def last_effective_time_def get_session_record_def fsm_abs_def
      split: option.splits)

lemma fsm_abs_poison [simp]: "fsm_abs (s\<lparr>fsm_poisoned := p\<rparr>) = fsm_abs s"
  by (simp add: fsm_abs_def)

lemma commit_mutation_refines:
  assumes "fsm_ready s" "commit_mutation cid i m s = (r, s')"
  shows "case spec_commit cid i m (fsm_abs s) of
           None \<Rightarrow> (\<exists>e. r = Inl e) \<and> fsm_abs s' = fsm_abs s
         | Some v \<Rightarrow> r = Inr () \<and> fsm_abs s' = v \<and> fsm_ready s'"
  using assms
  by (auto simp: commit_mutation_def spec_commit_def fsm_ready_def fsm_poison_def fsm_reads_healthy st_bind_def
      commit_transaction_def fsm_trees_ok_def tree_insert_ok tree_remove_ok tree_get_insert tree_get_remove
      split: option.splits if_splits) (simp_all add: fsm_abs_def tree_get_insert tree_get_remove)

lemma fsm_apply_refines:
  assumes ready: "fsm_ready s" and run: "fsm_apply c i data s = (r, s')"
  shows "case spec_apply c i data (fsm_abs s) of
           None \<Rightarrow> (\<exists>e. r = Inl e) \<and> fsm_abs s' = fsm_abs s
         | Some v \<Rightarrow> r = Inr () \<and> fsm_abs s' = v \<and> fsm_ready s'"
proof (cases "decode_mutation c data")
  case None
  then show ?thesis
    using assms by (auto simp: fsm_apply_def spec_apply_def check_not_poisoned_def fsm_ready_def)
next
  case (Some m)
  note defs = fsm_apply_def spec_apply_def check_not_poisoned_def validate_log_monotonicity_def parse_client_id_def
    fsm_poison_def st_bind_def apply_mutation_def advance_last_applied_for_duplicate_def last_seen_def
    log_index_add_def sequence_id_add_def checked_add_u64_def is_u64_def
  have s: "fsm_healthy s" "\<not> fsm_poisoned s" using ready by (simp_all add: fsm_ready_def)
  show ?thesis
  proof (cases "parse_uuid c (m_client_id m)")
    case None
    with Some s run show ?thesis by (auto simp: defs fsm_reads_healthy split: if_splits)
  next
    case (Some cid)
    let ?seen = "last_seen (fsm_abs s) (m_client_id m)"
    show ?thesis
    proof (cases "i = Suc (v_applied (fsm_abs s)) \<and> is_u64 i \<and> is_u64 (Suc ?seen) \<and> m_sequence_id m = Suc ?seen")
      case True
      have "fsm_apply c i data s = commit_mutation cid i m s"
        using True Some \<open>decode_mutation c data = Some m\<close> s
        by (simp add: defs fsm_reads_healthy Let_def)
      moreover have "spec_apply c i data (fsm_abs s) = spec_commit cid i m (fsm_abs s)"
        using True Some \<open>decode_mutation c data = Some m\<close> by (auto simp: spec_apply_def Let_def)
      ultimately show ?thesis using commit_mutation_refines[OF ready] run by simp
    next
      case False
      have dup: "fsm_abs (s\<lparr>fm_last_applied := Some i\<rparr>) = (fsm_abs s)\<lparr>v_applied := i\<rparr>"
        "fsm_ready (s\<lparr>fm_last_applied := Some i\<rparr>)"
        using ready by (simp_all add: fsm_abs_def fsm_ready_def fsm_trees_ok_def)
      from False Some \<open>decode_mutation c data = Some m\<close> s run dup show ?thesis
        by (auto simp: defs fsm_reads_healthy Let_def split: if_splits)
    qed
  qed
qed

section \<open>Concrete instance\<close>

definition sample_mutation :: committed_mutation where
  "sample_mutation = \<lparr>m_resolved_item_key = ''milk'', m_suggested_display_name = ''Milk'', m_updated_base_quantity = ''2'',
     m_base_unit = ''ml'', m_display_unit = ''ml'', m_updated_category = ''dairy'', m_client_id = ''c1'', m_sequence_id = 1,
     m_raw_user_input = [], m_moral_justification = [], m_event_time = Some \<lparr>seconds = 5, nanos = 0\<rparr>, m_is_delete = False,
     m_status = 1\<rparr>"

definition empty_fsm :: fsm_store where
  "empty_fsm = \<lparr>inventory = [], sessions = [], fm_last_applied = None, fm_effective_time = None, fm_restoring = False,
     fsm_poisoned = False, fsm_fails = (\<lambda>_. False)\<rparr>"

definition sample_snapshot :: snapshot_data where
  "sample_snapshot = \<lparr>sd_inventory = [], sd_sessions = [], sd_last_effective_time = Some zero_timestamp\<rparr>"

definition sample_codec :: fsm_codec where
  "sample_codec = \<lparr>decode_mutation = (\<lambda>_. Some sample_mutation), encode_snapshot = (\<lambda>_. [1]),
     decode_snapshot = (\<lambda>_. Some sample_snapshot), parse_uuid = Some\<rparr>"

lemma empty_fsm_ready [simp]: "fsm_ready empty_fsm"
  by (simp add: fsm_ready_def empty_fsm_def fsm_healthy_def fsm_trees_ok_def)

section \<open>Ledger entries\<close>

text \<open>
  C5 Applying a ledger entry on a working store does what the specification says: entries apply in index order,
  a client's mutations take effect in sequence order, a mutation already seen only moves the applied index,
  a gap, an unknown client, an unknown status or a missing time is an error that changes no data; inventory, session, index and
  clock move together.
\<close>
theorem apply_refines_spec:
  assumes "fsm_ready s" "fsm_apply c i data s = (r, s')"
  shows "case spec_apply c i data (fsm_abs s) of
           None \<Rightarrow> (\<exists>e. r = Inl e) \<and> fsm_abs s' = fsm_abs s
         | Some v \<Rightarrow> r = Inr () \<and> fsm_abs s' = v \<and> fsm_ready s'"
  by (rule fsm_apply_refines[OF assms])

lemma sample_apply: "\<exists>v. spec_apply sample_codec 1 [] (fsm_abs empty_fsm) = Some v \<and> (\<exists>it. v_items v ''milk'' = Some it \<and> quantity it = ''2'')"
  by (simp add: spec_apply_def sample_codec_def sample_mutation_def fsm_abs_def empty_fsm_def last_seen_def tree_get_def Let_def
      spec_commit_def mutation_status_try_from_def item_from_mutation_def new_grocery_item_def is_u64_def u64_bound_def)

theorem apply_refines_spec_witness:
  "\<exists>s' it. fsm_apply sample_codec 1 [] empty_fsm = (Inr (), s') \<and> v_items (fsm_abs s') ''milk'' = Some it \<and> quantity it = ''2''"
proof -
  obtain r s' where r: "fsm_apply sample_codec 1 [] empty_fsm = (r, s')" by fastforce
  with sample_apply apply_refines_spec[OF empty_fsm_ready r] show ?thesis by auto
qed

subsection \<open>Repeated mutations\<close>

fun apply_all :: "(log_index \<Rightarrow> bytes \<Rightarrow> ('f, 'e, unit) proc) \<Rightarrow> (log_index \<times> bytes) list \<Rightarrow> ('f, 'e, unit) proc" where
  "apply_all ap [] = st_return ()"
| "apply_all ap ((i, data) # es) = st_bind (ap i data) (\<lambda>_. apply_all ap es)"

lemma spec_apply_seen:
  assumes "spec_apply c i data v = Some v'"
  shows "\<exists>m. decode_mutation c data = Some m \<and> parse_uuid c (m_client_id m) \<noteq> None \<and> i = Suc (v_applied v) \<and> is_u64 i
    \<and> v_applied v' = i \<and> m_sequence_id m \<le> last_seen v' (m_client_id m) \<and> (\<forall>k. last_seen v k \<le> last_seen v' k)"
  using assms
  by (auto simp: spec_apply_def spec_commit_def Let_def last_seen_def new_session_record_def split: option.splits if_splits prod.splits)

lemma spec_apply_duplicate:
  assumes "decode_mutation c data = Some m" "parse_uuid c (m_client_id m) \<noteq> None" "i = Suc (v_applied v)" "is_u64 i"
    and "m_sequence_id m \<le> last_seen v (m_client_id m)" "is_u64 (Suc (last_seen v (m_client_id m)))"
  shows "spec_apply c i data v = Some (v\<lparr>v_applied := i\<rparr>)"
  using assms by (auto simp: spec_apply_def Let_def)

lemma fsm_apply_succeeds:
  "fsm_ready s \<Longrightarrow> fsm_apply c i data s = (Inr (), s') \<Longrightarrow> spec_apply c i data (fsm_abs s) = Some (fsm_abs s') \<and> fsm_ready s'"
  using fsm_apply_refines[of s c i data "Inr ()" s'] by (auto split: option.splits)

lemma apply_all_seen:
  "fsm_ready s \<Longrightarrow> apply_all (fsm_apply c) es s = (Inr (), s') \<Longrightarrow> last_seen (fsm_abs s) k \<le> last_seen (fsm_abs s') k"
proof (induction "fsm_apply c" es arbitrary: s rule: apply_all.induct)
  case (2 i data es)
  from 2(3) obtain s1 where a: "fsm_apply c i data s = (Inr (), s1)" "apply_all (fsm_apply c) es s1 = (Inr (), s')"
    by (auto elim!: st_bind_InrE)
  from fsm_apply_succeeds[OF 2(2) a(1)] have r: "fsm_ready s1" "last_seen (fsm_abs s) k \<le> last_seen (fsm_abs s1) k"
    using spec_apply_seen by blast+
  with 2(1)[OF r(1) a(2)] show ?case by simp
qed simp

lemma fsm_apply_runs:
  assumes "fsm_ready s" "spec_apply c i data (fsm_abs s) = Some v"
  shows "\<exists>s'. fsm_apply c i data s = (Inr (), s') \<and> fsm_abs s' = v \<and> fsm_ready s'"
proof -
  obtain r s' where "fsm_apply c i data s = (r, s')" by fastforce
  with fsm_apply_refines[OF assms(1) this] assms(2) show ?thesis by simp
qed

lemma apply_all_ready:
  "fsm_ready s \<Longrightarrow> apply_all (fsm_apply c) es s = (Inr (), s') \<Longrightarrow> fsm_ready s'"
  by (induction "fsm_apply c" es arbitrary: s rule: apply_all.induct) (auto elim!: st_bind_InrE dest: fsm_apply_succeeds)

text \<open>
  C15 A mutation that was applied and reaches the ledger again takes effect once, whatever the ledger holds in
  between: after the first application and any further entries, of this client or of others, an entry that
  carries the same client and the same sequence id succeeds, moves the applied index, and leaves inventory, sessions
  and clock exactly as the entries in between left them. The bounds are those of 64-bit indices and
  sequence ids.
\<close>
theorem exactly_once:
  assumes "fsm_ready s" "fsm_apply c i data s = (Inr (), s1)" "decode_mutation c data = Some m"
    and "apply_all (fsm_apply c) es s1 = (Inr (), s2)"
    and "decode_mutation c data' = Some m'" "m_client_id m' = m_client_id m" "m_sequence_id m' = m_sequence_id m"
    and "k = Suc (v_applied (fsm_abs s2))" "is_u64 k" "is_u64 (Suc (last_seen (fsm_abs s2) (m_client_id m)))"
    and "fsm_apply c k data' s2 = (r, s3)"
  shows "r = Inr () \<and> fsm_abs s3 = (fsm_abs s2)\<lparr>v_applied := k\<rparr> \<and> fsm_ready s3"
proof -
  note f = fsm_apply_succeeds[OF assms(1,2)]
  have m: "parse_uuid c (m_client_id m) \<noteq> None" "m_sequence_id m \<le> last_seen (fsm_abs s1) (m_client_id m)"
    using spec_apply_seen[OF conjunct1[OF f]] assms(3) by auto
  have "m_sequence_id m \<le> last_seen (fsm_abs s2) (m_client_id m)"
    using m(2) apply_all_seen[OF conjunct2[OF f] assms(4)] order_trans by blast
  then have "spec_apply c k data' (fsm_abs s2) = Some ((fsm_abs s2)\<lparr>v_applied := k\<rparr>)"
    using spec_apply_duplicate[OF assms(5) _ assms(8,9)] m(1) assms(6,7,10) by simp
  with fsm_apply_refines[OF apply_all_ready[OF conjunct2[OF f] assms(4)] assms(11)] show ?thesis by simp
qed

definition two_clients :: fsm_codec where
  "two_clients = sample_codec\<lparr>decode_mutation := (\<lambda>data. Some (if data = [] then sample_mutation
     else sample_mutation\<lparr>m_client_id := ''c2'', m_updated_base_quantity := ''9''\<rparr>))\<rparr>"

text \<open>
  Client c1 sets the milk to 2, client c2 sets it to 9, and the entry of c1 comes again at index 3: the milk stays at 9.
\<close>
theorem exactly_once_witness:
  "\<exists>s1 s2 s3 it. fsm_apply two_clients 1 [] empty_fsm = (Inr (), s1)
     \<and> apply_all (fsm_apply two_clients) [(2, [1])] s1 = (Inr (), s2) \<and> fsm_apply two_clients 3 [] s2 = (Inr (), s3)
     \<and> v_applied (fsm_abs s3) = 3 \<and> v_items (fsm_abs s3) ''milk'' = Some it \<and> quantity it = ''9''"
proof -
  note eval = spec_apply_def two_clients_def sample_codec_def sample_mutation_def fsm_abs_def empty_fsm_def last_seen_def
    tree_get_def Let_def spec_commit_def mutation_status_try_from_def item_from_mutation_def new_grocery_item_def
    new_session_record_def is_u64_def u64_bound_def
  obtain v1 where v1: "spec_apply two_clients 1 [] (fsm_abs empty_fsm) = Some v1" "v_applied v1 = 1"
      "last_seen v1 ''c1'' = 1" "last_seen v1 ''c2'' = 0"
    by (simp add: eval)
  obtain s1 where s1: "fsm_apply two_clients 1 [] empty_fsm = (Inr (), s1)" "fsm_abs s1 = v1" "fsm_ready s1"
    using fsm_apply_runs[OF empty_fsm_ready v1(1)] by blast
  have v2: "\<exists>v2 it. spec_apply two_clients 2 [1] (fsm_abs s1) = Some v2 \<and> v_applied v2 = 2 \<and> last_seen v2 ''c1'' = 1
      \<and> v_items v2 ''milk'' = Some it \<and> quantity it = ''9''"
    using v1 s1(2) by (simp add: eval)
  then obtain s2 it where s2: "fsm_apply two_clients 2 [1] s1 = (Inr (), s2)" "v_applied (fsm_abs s2) = 2"
      "last_seen (fsm_abs s2) ''c1'' = 1" "v_items (fsm_abs s2) ''milk'' = Some it" "quantity it = ''9''"
    using fsm_apply_runs[OF s1(3)] by metis
  have all: "apply_all (fsm_apply two_clients) [(2, [1])] s1 = (Inr (), s2)" using s2(1) by (simp add: st_bind_def)
  have d: "decode_mutation two_clients [] = Some sample_mutation" "m_client_id sample_mutation = ''c1''"
    by (simp_all add: two_clients_def sample_mutation_def)
  have k: "3 = Suc (v_applied (fsm_abs s2))" "is_u64 3" "is_u64 (Suc (last_seen (fsm_abs s2) (m_client_id sample_mutation)))"
    using s2(2,3) d(2) by (simp_all add: is_u64_def u64_bound_def)
  obtain r s3 where s3: "fsm_apply two_clients 3 [] s2 = (r, s3)" by fastforce
  from exactly_once[OF empty_fsm_ready s1(1) d(1) all d(1) refl refl k s3] s1(1) all s3 s2(4,5) show ?thesis by auto
qed

lemma apply_all_agree:
  assumes "fsm_ready s" "fsm_ready t" "fsm_abs s = fsm_abs t" "apply_all (fsm_apply c) es s = (r, s')" "apply_all (fsm_apply c) es t = (q, t')"
  shows "fsm_abs s' = fsm_abs t' \<and> (r = Inr () \<longleftrightarrow> q = Inr ())"
  using assms
proof (induction "fsm_apply c" es arbitrary: s t rule: apply_all.induct)
  case (2 i data es)
  obtain r1 s1 r2 t1 where a: "fsm_apply c i data s = (r1, s1)" "fsm_apply c i data t = (r2, t1)" by fastforce
  note R = fsm_apply_refines[OF 2(2) a(1)] fsm_apply_refines[OF 2(3) a(2)]
  show ?case
  proof (cases "spec_apply c i data (fsm_abs s)")
    case None
    with R a 2(4-6) show ?thesis by (auto simp: st_bind_def)
  next
    case (Some v)
    with R a 2(4) have "r1 = Inr ()" "r2 = Inr ()" "fsm_abs s1 = fsm_abs t1" "fsm_ready s1" "fsm_ready t1" by auto
    with 2(1)[of s1 t1] 2(5,6) a show ?thesis by (simp add: st_bind_def)
  qed
qed auto

text \<open>
  Replicas that start from the same content and apply the same ledger entries end with the same inventory,
  sessions, applied index and clock, and stop at the same entry if one is refused: the content is a
  function of the ledger alone.
\<close>
theorem ledger_determines_state:
  assumes "fsm_ready s" "fsm_ready t" "fsm_abs s = fsm_abs t"
    and "apply_all (fsm_apply c) es s = (r, s')" "apply_all (fsm_apply c) es t = (q, t')"
  shows "fsm_abs s' = fsm_abs t' \<and> (r = Inr () \<longleftrightarrow> q = Inr ())"
  by (rule apply_all_agree[OF assms])

theorem ledger_determines_state_witness:
  "\<exists>r s' q t'. apply_all (fsm_apply sample_codec) [(1, []), (2, [])] empty_fsm = (r, s')
     \<and> apply_all (fsm_apply sample_codec) [(1, []), (2, [])] (empty_fsm\<lparr>fm_last_applied := Some 0\<rparr>) = (q, t') \<and> fsm_abs s' = fsm_abs t'"
proof -
  obtain r s' q t' where a: "apply_all (fsm_apply sample_codec) [(1, []), (2, [])] empty_fsm = (r, s')"
    "apply_all (fsm_apply sample_codec) [(1, []), (2, [])] (empty_fsm\<lparr>fm_last_applied := Some 0\<rparr>) = (q, t')" by fastforce
  have "fsm_ready (empty_fsm\<lparr>fm_last_applied := Some 0\<rparr>)" "fsm_abs empty_fsm = fsm_abs (empty_fsm\<lparr>fm_last_applied := Some 0\<rparr>)"
    by (simp_all add: fsm_ready_def empty_fsm_def fsm_healthy_def fsm_trees_ok_def fsm_abs_def)
  from ledger_determines_state[OF empty_fsm_ready this a] a show ?thesis by blast
qed

section \<open>Snapshots\<close>

definition fsm_keyed :: "fsm_store \<Rightarrow> bool" where
  "fsm_keyed s \<longleftrightarrow> (\<forall>(k, it) \<in> set (inventory s). item_key it = k) \<and> (\<forall>(k, r) \<in> set (sessions s). sr_client_id r = k)"

definition snapshot_of :: "fsm_store \<Rightarrow> snapshot_data" where
  "snapshot_of s = \<lparr>sd_inventory = map snd (inventory s), sd_sessions = map snd (sessions s),
     sd_last_effective_time = Some (v_time (fsm_abs s))\<rparr>"

definition restored_view :: "log_index \<Rightarrow> snapshot_data \<Rightarrow> fsm_view" where
  "restored_view i snap = \<lparr>v_items = map_of (rev (map (\<lambda>it. (item_key it, it)) (sd_inventory snap))),
     v_sessions = map_of (rev (map (\<lambda>r. (sr_client_id r, r)) (sd_sessions snap))),
     v_applied = i, v_time = (case sd_last_effective_time snap of None \<Rightarrow> zero_timestamp | Some t \<Rightarrow> t)\<rparr>"

definition restored :: "log_index \<Rightarrow> snapshot_data \<Rightarrow> fsm_store \<Rightarrow> bool" where
  "restored i snap s \<longleftrightarrow> fsm_abs s = restored_view i snap \<and> fsm_trees_ok s \<and> \<not> fm_restoring s"

lemma collect_sessions_ok: "(\<And>op. \<not> fl op) \<Longrightarrow> collect_sessions fl t = Inr (map snd t)"
  by (induction fl t rule: collect_sessions.induct) simp_all

lemma map_filter_Some: "(\<And>x. x \<in> set xs \<Longrightarrow> f x = Some (g x)) \<Longrightarrow> List.map_filter f xs = map g xs"
  by (induction xs) (simp_all add: List.map_filter_def)

lemma fsm_snapshot_healthy: "fsm_ready s \<Longrightarrow> fsm_snapshot c s = Inr (encode_snapshot c (snapshot_of s))"
proof -
  assume r: "fsm_ready s"
  then have "List.map_filter (decode_inventory_entry s) (inventory s) = map snd (inventory s)"
    by (intro map_filter_Some) (auto simp: decode_inventory_entry_def fsm_ready_def)
  with r show ?thesis
    by (simp add: fsm_snapshot_def check_not_poisoned_def get_inventory_def fsm_ready_def collect_sessions_ok fsm_reads_healthy
        snapshot_of_def)
qed

lemma keyed_tree: "tree_ok t \<Longrightarrow> (\<forall>(k, x) \<in> set t. f x = k) \<Longrightarrow> map_of (rev (map (\<lambda>x. (f x, x)) (map snd t))) = tree_get t"
proof -
  assume ok: "tree_ok t" and k: "\<forall>(k, x) \<in> set t. f x = k"
  have "map (\<lambda>x. (f x, x)) (map snd t) = t" using k by (induction t) auto
  moreover have "map_of (rev t) k = map_of t k" for k
    using map_of_eq_Some_iff[of t k] map_of_eq_Some_iff[of "rev t" k] tree_ok_distinct[OF ok]
    by (cases "map_of t k"; cases "map_of (rev t) k") (auto simp: rev_map[symmetric])
  ultimately show ?thesis by (simp add: tree_get_def fun_eq_iff)
qed

lemma restored_batch:
  "tree_get (tree_apply_batch (map (\<lambda>x. BInsert (f x) x) xs) []) = map_of (rev (map (\<lambda>x. (f x, x)) xs))"
proof -
  have "tree_get (tree_apply_batch (map (\<lambda>x. BInsert (f x) x) xs) []) = batch_effect (map (\<lambda>x. BInsert (f x) x) xs) (tree_get [])"
    by (rule tree_get_apply_batch) simp
  then show ?thesis by (simp add: batch_effect_insert tree_get_def)
qed

lemma install_cases:
  assumes "fsm_install_snapshot c i data s = (r, s')" "decode_snapshot c data = Some snap"
  shows "s' = s \<and> r \<noteq> Inr () \<or> fm_restoring s' \<and> r \<noteq> Inr () \<or> restored i snap s'"
proof (cases "fsm_poisoned s \<or> fsm_fails s WrRestoreFlag")
  case True
  with assms show ?thesis
    by (cases "fsm_poisoned s")
      (auto simp: fsm_install_snapshot_def check_not_poisoned_def set_restoration_tombstone_def fsm_write_def st_bind_def)
next
  case False
  let ?s1 = "s\<lparr>fm_restoring := True\<rparr>"
  let ?s2 = "?s1\<lparr>inventory := [], sessions := [], fm_last_applied := None, fm_effective_time := None\<rparr>"
  have clear: "(\<exists>e t. clear_state_except_tombstone ?s1 = (Inl e, t) \<and> fm_restoring t) \<or> clear_state_except_tombstone ?s1 = (Inr (), ?s2)"
    by (auto simp: clear_state_except_tombstone_def remove_meta_key_def fsm_write_def st_bind_def)
  have install: "fsm_install_snapshot c i data s = st_bind set_restoration_tombstone
                (\<lambda>_. st_bind clear_state_except_tombstone
                (\<lambda>_. st_bind (restore_inventory_batch (sd_inventory snap))
                (\<lambda>_. st_bind (restore_session_batch (sd_sessions snap))
                (\<lambda>_. finalize_restoration i (sd_last_effective_time snap))))) s"
    using False assms(2) by (simp add: fsm_install_snapshot_def check_not_poisoned_def)
  have tomb: "(\<exists>e. set_restoration_tombstone s = (Inl e, ?s1)) \<or> set_restoration_tombstone s = (Inr (), ?s1)"
    using False by (auto simp: set_restoration_tombstone_def fsm_write_def fsm_flush_def st_bind_def)
  have rest: "fm_restoring t' \<and> q \<noteq> Inr () \<or> restored i snap t'"
    if "st_bind (restore_inventory_batch (sd_inventory snap))
                (\<lambda>_. st_bind (restore_session_batch (sd_sessions snap))
                (\<lambda>_. finalize_restoration i (sd_last_effective_time snap))) ?s2 = (q, t')" for q t'
    using that
    by (auto simp: restore_inventory_batch_def restore_session_batch_def finalize_restoration_def fsm_write_def fsm_flush_def
        st_bind_def restored_def restored_view_def fsm_abs_def fsm_trees_ok_def restored_batch split: if_splits option.splits)
  from tomb clear rest assms(1) show ?thesis unfolding install by (auto simp: st_bind_def)
qed

lemma commit_mutation_state:
  "commit_mutation cid i m s = (r, s') \<Longrightarrow>
     s' = s \<or> s' = s\<lparr>fsm_poisoned := True\<rparr> \<or> (\<exists>st t nt. s' = commit_transaction cid st i t nt m s)"
  by (auto simp: commit_mutation_def fsm_poison_def fsm_write_def fsm_flush_def st_bind_def split: option.splits sum.splits if_splits)

lemma apply_mutation_state:
  "apply_mutation cid i m s = (r, s') \<Longrightarrow>
     s' = s \<or> s' = s\<lparr>fsm_poisoned := True\<rparr> \<or> s' = s\<lparr>fm_last_applied := Some i\<rparr>
     \<or> (\<exists>st t nt. s' = commit_transaction cid st i t nt m s)"
  using commit_mutation_state[of cid i m s r s']
  by (auto simp: apply_mutation_def advance_last_applied_for_duplicate_def fsm_poison_def fsm_write_def fsm_flush_def st_bind_def
      Let_def split: sum.splits if_splits)

lemma fsm_apply_state:
  assumes "fsm_apply c i data s = (r, s')"
  shows "s' = s \<or> s' = s\<lparr>fsm_poisoned := True\<rparr> \<or> s' = s\<lparr>fm_last_applied := Some i\<rparr>
     \<or> (\<exists>m cid st t nt. decode_mutation c data = Some m \<and> parse_uuid c (m_client_id m) = Some cid
          \<and> s' = commit_transaction cid st i t nt m s)"
  using assms apply_mutation_state[of _ i _ s r s']
  by (fastforce simp: fsm_apply_def validate_log_monotonicity_def parse_client_id_def fsm_poison_def st_bind_def
      split: option.splits sum.splits if_splits)

lemma keyed_insert: "tree_ok t \<Longrightarrow> \<forall>(k, x) \<in> set t. f x = k \<Longrightarrow> f v = k' \<Longrightarrow> \<forall>(k, x) \<in> set (tree_insert k' v t). f x = k"
  by (auto simp: set_tree_insert)

lemma keyed_commit:
  assumes "fsm_trees_ok s" "fsm_keyed s" "cid = m_client_id m"
  shows "fsm_trees_ok (commit_transaction cid st i t nt m s) \<and> fsm_keyed (commit_transaction cid st i t nt m s)"
proof -
  let ?r = "new_session_record cid (m_sequence_id m) st i (m_moral_justification m) t"
  have t: "tree_ok (inventory s)" "tree_ok (sessions s)" using assms(1) by (simp_all add: fsm_trees_ok_def)
  have i: "\<forall>(k, x) \<in> set (tree_insert (m_resolved_item_key m) (item_from_mutation i m) (inventory s)). item_key x = k"
    using assms(2) by (intro keyed_insert t) (simp_all add: fsm_keyed_def item_from_mutation_def new_grocery_item_def)
  have s: "\<forall>(k, x) \<in> set (tree_insert (m_client_id m) ?r (sessions s)). sr_client_id x = k"
    using assms(2,3) by (intro keyed_insert t) (simp_all add: fsm_keyed_def new_session_record_def)
  have d: "\<forall>(k, x) \<in> set (tree_remove (m_resolved_item_key m) (inventory s)). item_key x = k"
    using assms(2) by (auto simp: fsm_keyed_def tree_remove_def)
  show ?thesis
    using t i s d assms(2)
    by (auto simp: fsm_trees_ok_def fsm_keyed_def commit_transaction_def tree_insert_ok tree_remove_ok)
qed

text \<open>
  Whatever the engine does, applying an entry keeps the trees ordered and every item and session under its own
  key, as long as ledger entries carry the canonical text of a client id, which is the text a proposal
  is built with. This is what the restoration of a snapshot relies on.
\<close>
theorem apply_keeps_keys:
  assumes "fsm_trees_ok s" "fsm_keyed s" "fsm_apply c i data s = (r, s')"
    and "\<And>m cid. decode_mutation c data = Some m \<Longrightarrow> parse_uuid c (m_client_id m) = Some cid \<Longrightarrow> cid = m_client_id m"
  shows "fsm_trees_ok s' \<and> fsm_keyed s'"
proof -
  consider "s' = s \<or> s' = s\<lparr>fsm_poisoned := True\<rparr> \<or> s' = s\<lparr>fm_last_applied := Some i\<rparr>"
    | m cid st t nt where "decode_mutation c data = Some m" "parse_uuid c (m_client_id m) = Some cid"
        "s' = commit_transaction cid st i t nt m s"
    using fsm_apply_state[OF assms(3)] by blast
  then show ?thesis
  proof cases
    case 1
    then show ?thesis using assms(1,2) by (auto simp: fsm_trees_ok_def fsm_keyed_def)
  next
    case 2
    then show ?thesis using keyed_commit[OF assms(1,2)] assms(4) by blast
  qed
qed

theorem apply_keeps_keys_witness:
  "fsm_keyed (snd (fsm_apply sample_codec 1 [] (empty_fsm\<lparr>fsm_fails := \<lambda>op. op = FlushFsm FlCommit\<rparr>)))"
proof -
  let ?s = "empty_fsm\<lparr>fsm_fails := \<lambda>op. op = FlushFsm FlCommit\<rparr>"
  obtain r s' where r: "fsm_apply sample_codec 1 [] ?s = (r, s')" by fastforce
  have "fsm_trees_ok ?s" "fsm_keyed ?s" by (simp_all add: fsm_trees_ok_def fsm_keyed_def empty_fsm_def)
  from apply_keeps_keys[OF this r] r show ?thesis by (simp add: sample_codec_def)
qed

lemma install_snapshot_of:
  assumes "fsm_ready s" "fsm_keyed s" "fsm_ready g"
    and "decode_snapshot c (encode_snapshot c (snapshot_of s)) = Some (snapshot_of s)"
  shows "\<exists>g'. fsm_install_snapshot c i (encode_snapshot c (snapshot_of s)) g = (Inr (), g')
    \<and> fsm_abs g' = (fsm_abs s)\<lparr>v_applied := i\<rparr> \<and> fsm_ready g' \<and> \<not> fm_restoring g'"
proof -
  let ?data = "encode_snapshot c (snapshot_of s)"
  have g: "fsm_healthy g" "\<not> fsm_poisoned g" using assms(3) by (simp_all add: fsm_ready_def)
  obtain r g' where r: "fsm_install_snapshot c i ?data g = (r, g')" by fastforce
  have ok: "r = Inr () \<and> fsm_healthy g' \<and> \<not> fsm_poisoned g'"
    using r g assms(4)
    by (cases "fm_last_applied g"; cases "fm_effective_time g")
      (auto simp: fsm_install_snapshot_def check_not_poisoned_def set_restoration_tombstone_def clear_state_except_tombstone_def
        remove_meta_key_def restore_inventory_batch_def restore_session_batch_def finalize_restoration_def st_bind_def)
  then have "restored i (snapshot_of s) g'" using install_cases[OF r assms(4)] by simp
  moreover have "restored_view i (snapshot_of s) = (fsm_abs s)\<lparr>v_applied := i\<rparr>"
    using assms(1,2) keyed_tree[of "inventory s" item_key] keyed_tree[of "sessions s" sr_client_id]
    by (simp add: restored_view_def snapshot_of_def fsm_abs_def fsm_ready_def fsm_trees_ok_def fsm_keyed_def)
  ultimately show ?thesis using r ok by (auto simp: restored_def fsm_ready_def)
qed

text \<open>
  A snapshot restores the content it was taken from: installing it on any working store gives the same
  inventory, sessions, applied index and clock, whatever that store held before. The keys of the trees are
  those of the values, which the codec is assumed to give back.
\<close>
theorem snapshot_round_trip:
  assumes "fsm_ready s" "fsm_keyed s" "fsm_ready g"
    and "decode_snapshot c (encode_snapshot c (snapshot_of s)) = Some (snapshot_of s)"
  shows "\<exists>data g'. fsm_snapshot c s = Inr data \<and> fsm_install_snapshot c (v_applied (fsm_abs s)) data g = (Inr (), g')
    \<and> fsm_abs g' = fsm_abs s \<and> \<not> fm_restoring g'"
  using install_snapshot_of[OF assms] fsm_snapshot_healthy[OF assms(1), of c] by fastforce

theorem snapshot_round_trip_witness:
  "\<exists>data g'. fsm_snapshot sample_codec empty_fsm = Inr data
     \<and> fsm_install_snapshot sample_codec 0 data (empty_fsm\<lparr>fm_last_applied := Some 4\<rparr>) = (Inr (), g') \<and> fsm_abs g' = fsm_abs empty_fsm"
proof -
  have "decode_snapshot sample_codec (encode_snapshot sample_codec (snapshot_of empty_fsm)) = Some (snapshot_of empty_fsm)"
    "fsm_keyed empty_fsm" "v_applied (fsm_abs empty_fsm) = 0" "fsm_ready (empty_fsm\<lparr>fm_last_applied := Some 4\<rparr>)"
    by (simp_all add: sample_codec_def sample_snapshot_def snapshot_of_def fsm_abs_def empty_fsm_def fsm_keyed_def fsm_ready_def
        fsm_healthy_def fsm_trees_ok_def)
  with snapshot_round_trip[OF empty_fsm_ready, of "empty_fsm\<lparr>fm_last_applied := Some 4\<rparr>" sample_codec] show ?thesis by metis
qed

definition empty_view :: fsm_view where
  "empty_view = \<lparr>v_items = Map.empty, v_sessions = Map.empty, v_applied = 0, v_time = zero_timestamp\<rparr>"

text \<open>
  C17 The restoration tombstone works: wherever the installation of a snapshot stops, at a failing engine call or by
  a crash between two of them, opening the store again gives the content before, the content of the
  snapshot, or the empty content, and never a mixture. A reported success means the content of the
  snapshot.
\<close>
theorem install_crash_safe:
  assumes "fsm_install_snapshot c i data s = (r, s')" "decode_snapshot c data = Some snap" "\<not> fm_restoring s"
  shows "\<exists>s''. lacto_store_new (s'\<lparr>fsm_fails := \<lambda>_. False\<rparr>) = (Inr (), s'')
    \<and> fsm_abs s'' \<in> {fsm_abs s, restored_view i snap, empty_view}
    \<and> (r = Inr () \<longrightarrow> fsm_abs s'' = restored_view i snap) \<and> \<not> fm_restoring s''"
proof -
  let ?t = "s'\<lparr>fsm_fails := \<lambda>_. False\<rparr>"
  have v: "fsm_abs ?t = fsm_abs s'" by (simp add: fsm_abs_def)
  have "lacto_store_new ?t = (if fm_restoring s'
      then (Inr (), ?t\<lparr>fsm_poisoned := False, inventory := [], sessions := [], fm_last_applied := None, fm_effective_time := None,
              fm_restoring := False\<rparr>)
      else (Inr (), ?t\<lparr>fsm_poisoned := False\<rparr>))"
    by (simp add: lacto_store_new_def is_restoration_stale_def purge_all_data_def fsm_write_def fsm_flush_def st_bind_def)
  moreover have "fsm_abs (?t\<lparr>fsm_poisoned := False, inventory := [], sessions := [], fm_last_applied := None, fm_effective_time := None,
              fm_restoring := False\<rparr>) = empty_view"
    by (simp add: fsm_abs_def empty_view_def tree_get_def fun_eq_iff)
  ultimately show ?thesis
    using install_cases[OF assms(1,2)] assms(3) v by (auto simp: restored_def)
qed

theorem install_crash_safe_witness:
  "\<exists>s' s''. fsm_install_snapshot sample_codec 9 [] (empty_fsm\<lparr>fsm_fails := \<lambda>op. op = WrSessionBatch\<rparr>) = (Inl (FPersistence ''Failed to apply session batch''), s')
     \<and> fm_restoring s' \<and> lacto_store_new (s'\<lparr>fsm_fails := \<lambda>_. False\<rparr>) = (Inr (), s'')
     \<and> fsm_abs s'' \<in> {fsm_abs (empty_fsm\<lparr>fsm_fails := \<lambda>op. op = WrSessionBatch\<rparr>), restored_view 9 sample_snapshot, empty_view}"
proof -
  let ?s = "empty_fsm\<lparr>fsm_fails := \<lambda>op. op = WrSessionBatch\<rparr>"
  let ?s' = "?s\<lparr>fm_restoring := True\<rparr>"
  have r: "fsm_install_snapshot sample_codec 9 [] ?s = (Inl (FPersistence ''Failed to apply session batch''), ?s')"
    by (simp add: fsm_install_snapshot_def check_not_poisoned_def set_restoration_tombstone_def clear_state_except_tombstone_def
        remove_meta_key_def restore_inventory_batch_def restore_session_batch_def st_bind_def fsm_write_def fsm_flush_def
        empty_fsm_def sample_codec_def sample_snapshot_def tree_apply_batch_def)
  have "decode_snapshot sample_codec [] = Some sample_snapshot" "\<not> fm_restoring ?s"
    by (simp_all add: sample_codec_def empty_fsm_def)
  from install_crash_safe[OF r this] r show ?thesis by auto
qed

text \<open>
  A poisoned state machine refuses every call and keeps its content: applying, reading the inventory or
  a session, taking and installing a snapshot all answer that it is poisoned.
\<close>
theorem poisoned_fsm_refuses:
  "fsm_apply c i data (s\<lparr>fsm_poisoned := True\<rparr>) = (Inl FPoisoned, s\<lparr>fsm_poisoned := True\<rparr>)
   \<and> fsm_install_snapshot c i data (s\<lparr>fsm_poisoned := True\<rparr>) = (Inl FPoisoned, s\<lparr>fsm_poisoned := True\<rparr>)
   \<and> fsm_snapshot c (s\<lparr>fsm_poisoned := True\<rparr>) = Inl FPoisoned \<and> get_inventory (s\<lparr>fsm_poisoned := True\<rparr>) = Inl FPoisoned
   \<and> check_session k q (s\<lparr>fsm_poisoned := True\<rparr>) = Inl FPoisoned \<and> current_version (s\<lparr>fsm_poisoned := True\<rparr>) = Inl FPoisoned"
  by (simp add: fsm_apply_def fsm_install_snapshot_def fsm_snapshot_def get_inventory_def check_session_def current_version_def
      check_not_poisoned_def)

end
