(* ===== verification/Orchestration.thy ===== *)
theory Orchestration
  imports Handler_Properties Shell FSM_Properties
begin

text \<open>
  \<open>crates/raft-engine/src/orchestration.rs\<close>, \<open>recovery.rs\<close> and the compaction cycle of
  \<open>consensus/lifecycle.rs\<close>: how committed entries reach the state machine, live and on a cold boot, and
  how a snapshot is installed around the locked node.

  The engine is generic in the state machine. Its trait is the locale \<open>state_machine\<close>, interpreted on
  \<open>LactoStore\<close>; the procedures take the trait's methods as arguments. A system is the node, its store and
  the state machine. The consensus lock is released between the iterations of \<open>apply_committed\<close>: a run
  of the loop below is one without other critical sections in between, and each iteration re-reads the
  commit index as the source does.
\<close>

section \<open>State machine interface\<close>

locale state_machine =
  fixes ap :: "log_index \<Rightarrow> bytes \<Rightarrow> ('f, 'e, unit) proc"
    and applied :: "'f \<Rightarrow> log_index"
    and ready :: "'f \<Rightarrow> bool"
  assumes apply_next_index: "ready f \<Longrightarrow> ap i data f = (Inr (), f') \<Longrightarrow> ready f' \<and> i = Suc (applied f) \<and> applied f' = i"
begin

lemma apply_all_advances:
  "ready f \<Longrightarrow> apply_all ap es f = (Inr (), f') \<Longrightarrow>
     ready f' \<and> applied f' = applied f + length es \<and> map fst es = [Suc (applied f)..<Suc (applied f) + length es]"
proof (induction es arbitrary: f)
  case (Cons e es)
  obtain i data where e: "e = (i, data)" by (cases e)
  from Cons.prems(2) obtain f1 where "ap i data f = (Inr (), f1)" "apply_all ap es f1 = (Inr (), f')"
    unfolding e by (auto elim!: st_bind_InrE)
  with Cons.IH[of f1] apply_next_index[OF Cons.prems(1)] show ?case
    by (auto simp: e upt_conv_Cons simp del: upt_Suc)
qed simp

end

lemma spec_apply_index: "spec_apply c i data v = Some v' \<Longrightarrow> i = Suc (v_applied v) \<and> v_applied v' = i"
  by (auto simp: spec_apply_def spec_commit_def Let_def split: option.splits if_splits prod.splits)

interpretation lacto: state_machine "fsm_apply c" "\<lambda>s. v_applied (fsm_abs s)" fsm_ready for c
proof
  fix f i data f'
  assume "fsm_ready f" "fsm_apply c i data f = (Inr (), f')"
  from fsm_apply_refines[OF this] show "fsm_ready f' \<and> i = Suc (v_applied (fsm_abs f)) \<and> v_applied (fsm_abs f') = i"
    by (auto split: option.splits dest: spec_apply_index)
qed

section \<open>Live application\<close>

type_synonym ('f, 'a) sys_proc = "(world \<times> 'f, halt, 'a) proc"

definition on_world :: "'a handler \<Rightarrow> ('f, 'a) sys_proc" where
  "on_world h = (\<lambda>(w, f). case h w of (r, w') \<Rightarrow> (r, w', f))"

definition on_fsm :: "('f, 'e, 'a) proc \<Rightarrow> ('f, 'e + 'a) sys_proc" where
  "on_fsm p = (\<lambda>(w, f). case p f of (r, f') \<Rightarrow> (Inr r, w, f'))"

definition apply_next :: "(log_index \<Rightarrow> bytes \<Rightarrow> ('f, fsm_error, unit) proc) \<Rightarrow> log_index \<Rightarrow> ('f, unit) sys_proc" where
  "apply_next ap next_idx =
     st_bind (st_gets (\<lambda>((ln, d), f). node_read (sled_read_entries next_idx next_idx) d))
       (\<lambda>r. case r of
            Inl e \<Rightarrow> on_world (apply_fatal e)
          | Inr [] \<Rightarrow> on_world (apply_fatal (Protocol ''Committed entry missing from log storage''))
          | Inr (ent # _) \<Rightarrow>
              st_bind (on_fsm (ap next_idx (e_data ent)))
                (\<lambda>res. case res of
                     Inl _ \<Rightarrow> on_world (apply_fatal (Protocol ''Apply failure''))
                   | Inr _ \<Rightarrow>
                       st_bind (on_world (ln_advance_horizon_after_snapshot next_idx))
                         (\<lambda>a. case a of Inl e \<Rightarrow> on_world (apply_fatal e) | Inr _ \<Rightarrow> st_return ())))"

fun apply_loop :: "(log_index \<Rightarrow> bytes \<Rightarrow> ('f, fsm_error, unit) proc) \<Rightarrow> nat \<Rightarrow> log_index \<Rightarrow> log_index \<Rightarrow> ('f, bool) sys_proc" where
  "apply_loop ap 0 applied committed = st_return (committed \<le> applied)"
| "apply_loop ap (Suc fuel) applied committed =
     (if applied < committed then
        case log_index_add applied 1 of
          Inl e \<Rightarrow> on_world (apply_fatal (Arithmetic e))
        | Inr next_idx \<Rightarrow>
            st_bind (apply_next ap next_idx)
              (\<lambda>_. st_bind (on_world ln_last_committed) (\<lambda>committed'. apply_loop ap fuel next_idx committed'))
      else st_return True)"

definition apply_committed :: "(log_index \<Rightarrow> bytes \<Rightarrow> ('f, fsm_error, unit) proc) \<Rightarrow> nat \<Rightarrow> ('f, bool) sys_proc" where
  "apply_committed ap fuel =
     st_bind (on_world ln_last_applied)
       (\<lambda>applied. st_bind (on_world ln_last_committed)
       (\<lambda>committed.
          if applied > committed then on_world (apply_fatal (Protocol ''Causal Divergence''))
          else apply_loop ap fuel applied committed))"

section \<open>Cold boot\<close>

datatype boot_halt = BootPanic string | BootError node_error

function replay_committed_entries ::
  "(log_index \<Rightarrow> bytes \<Rightarrow> ('f, fsm_error, unit) proc) \<Rightarrow> log_store \<Rightarrow> log_index \<Rightarrow> log_index \<Rightarrow> ('f, boot_halt, unit) proc" where
  "replay_committed_entries ap d current committed_idx =
     (if current < committed_idx then
        case log_index_add current 1 of
          Inl e \<Rightarrow> st_fail (BootError (Arithmetic e))
        | Inr apply_idx \<Rightarrow>
            (case node_read (sled_read_entry apply_idx) d of
               Inl e \<Rightarrow> st_fail (BootError e)
             | Inr None \<Rightarrow> st_fail (BootPanic ''Committed entry missing from log during Cold-Boot'')
             | Inr (Some ent) \<Rightarrow>
                 st_bind (\<lambda>f. case ap apply_idx (e_data ent) f of (r, f') \<Rightarrow> (map_err (BootError \<circ> node_error_of_fsm) r, f'))
                   (\<lambda>_. replay_committed_entries ap d apply_idx committed_idx))
      else st_return ())"
  by pat_completeness auto
termination
  by (relation "measure (\<lambda>(ap, d, current, committed_idx). committed_idx - current)") (auto simp: log_index_add_def)

declare replay_committed_entries.simps [simp del]

definition recover ::
  "('f \<Rightarrow> fsm_error + log_index) \<Rightarrow> (log_index \<Rightarrow> bytes \<Rightarrow> ('f, fsm_error, unit) proc) \<Rightarrow> log_store \<Rightarrow> ('f, boot_halt, unit) proc" where
  "recover last_applied_fn ap d =
     st_bind (st_read (\<lambda>f. map_err (BootError \<circ> node_error_of_fsm) (last_applied_fn f)))
       (\<lambda>applied_idx. st_bind (st_read (\<lambda>_. map_err BootError (node_read sled_last_committed d)))
       (\<lambda>committed_idx.
          if applied_idx > committed_idx
          then st_fail (BootPanic ''FSM index is ahead of last_committed. State drift detected during Cold-Boot.'')
          else if applied_idx = committed_idx then st_return ()
          else st_bind (st_read (\<lambda>_. map_err (BootError \<circ> Arithmetic) (log_index_add applied_idx 1)))
                 (\<lambda>_. replay_committed_entries ap d applied_idx committed_idx)))"

section \<open>Snapshot installation and compaction\<close>

definition snapshot_phase1 :: "node_id \<Rightarrow> raft_term \<Rightarrow> log_index \<Rightarrow> (world \<times> 32 word, halt, install_snapshot_result) proc" where
  "snapshot_phase1 leader req_term idx = (\<lambda>(w, depth).
     case handle_install_snapshot leader req_term idx w of
       (Inl h, w') \<Rightarrow> (Inl h, w', depth)
     | (Inr res, w') \<Rightarrow>
         (if iss_action res = Accepted then
            (case freeze depth of
               (Inl (FreezeInvariantError m), depth') \<Rightarrow>
                 (case apply_fatal (Protocol ''Structural Invariant Violation'') w' of (r, w'') \<Rightarrow> (r, w'', depth'))
             | (Inr _, depth') \<Rightarrow> (Inr res, w', depth'))
          else (Inr res, w', depth)))"

definition snapshot_phase3 :: "fsm_error + unit \<Rightarrow> log_index \<Rightarrow> raft_term \<Rightarrow> (world \<times> 32 word, halt, unit) proc" where
  "snapshot_phase3 res idx t = (\<lambda>(w, depth).
     case thaw depth of
       (Inl (FreezeInvariantError m), depth') \<Rightarrow>
         (case apply_fatal (Protocol ''Structural Invariant Violation'') w of (r, w') \<Rightarrow> (r, w', depth'))
     | (Inr _, depth') \<Rightarrow>
         (case (case res of
                  Inr _ \<Rightarrow> st_bind (ln_save_snapshot_metadata idx t) (\<lambda>_. st_bind (ln_advance_horizon_after_snapshot idx) or_fatal) w
                | Inl _ \<Rightarrow> apply_fatal (Protocol ''Background snapshot restoration failure'') w) of
            (r, w') \<Rightarrow> (r, w', depth')))"

definition compaction_truncate :: "log_index \<Rightarrow> world \<Rightarrow> (log_storage_error + unit) \<times> world" where
  "compaction_truncate idx = (\<lambda>(ln, d). case sled_truncate_log_front idx d of (r, d') \<Rightarrow> (r, ln, d'))"

definition compaction_finish :: "log_storage_error + unit \<Rightarrow> (world \<times> 32 word, halt, unit) proc" where
  "compaction_finish truncation_res = (\<lambda>(w, depth).
     case thaw depth of
       (Inl (FreezeInvariantError m), depth') \<Rightarrow> (case apply_fatal (Protocol m) w of (r, w') \<Rightarrow> (r, w', depth'))
     | (Inr _, depth') \<Rightarrow>
         (case truncation_res of
            Inl _ \<Rightarrow> (case apply_fatal (Protocol ''Log truncation failure'') w of (r, w') \<Rightarrow> (r, w', depth'))
          | Inr _ \<Rightarrow> (Inr (), w, depth')))"

section \<open>Committed entries reach the state machine\<close>

fun with_applied :: "log_index \<Rightarrow> role_state \<Rightarrow> role_state" where
  "with_applied i (Follower n) = Follower (n\<lparr>last_applied := i\<rparr>)"
| "with_applied i (PreCandidate n) = PreCandidate (n\<lparr>last_applied := i\<rparr>)"
| "with_applied i (Candidate n) = Candidate (n\<lparr>last_applied := i\<rparr>)"
| "with_applied i (Leader n) = Leader (n\<lparr>last_applied := i\<rparr>)"
| "with_applied i Poisoned = Poisoned"

fun role_applied :: "role_state \<Rightarrow> log_index" where
  "role_applied (Follower n) = last_applied n"
| "role_applied (PreCandidate n) = last_applied n"
| "role_applied (Candidate n) = last_applied n"
| "role_applied (Leader n) = last_applied n"
| "role_applied Poisoned = 0"

definition committed_entries :: "log_store \<Rightarrow> log_index \<Rightarrow> log_index \<Rightarrow> (log_index \<times> bytes) list" where
  "committed_entries d a c = map (\<lambda>k. (k, e_data (the (disk_entry d k)))) [Suc a..<Suc c]"

lemma committed_entries_simps:
  "a < c \<Longrightarrow> committed_entries d a c = (Suc a, e_data (the (disk_entry d (Suc a)))) # committed_entries d (Suc a) c"
  "c \<le> a \<Longrightarrow> committed_entries d a c = []"
  by (simp_all add: committed_entries_def upt_conv_Cons del: upt_Suc)

lemma with_applied_simps [simp]:
  "role_commit (with_applied i r) = role_commit r" "with_applied i r = Poisoned \<longleftrightarrow> r = Poisoned"
  "r \<noteq> Poisoned \<Longrightarrow> role_applied (with_applied i r) = i" "with_applied i (with_applied j r) = with_applied i r"
  by (cases r; simp)+

lemma role_reads [simp]:
  "role ln \<noteq> Poisoned \<Longrightarrow> ln_last_applied (ln, d) = (Inr (role_applied (role ln)), ln, d)"
  "role ln \<noteq> Poisoned \<Longrightarrow> ln_last_committed (ln, d) = (Inr (role_commit (role ln)), ln, d)"
  by (cases "role ln"; simp add: ln_last_applied_def ln_last_committed_def)+

lemma update_commit_same:
  "healthy d \<Longrightarrow> i \<le> last_committed n \<Longrightarrow> i \<le> disk_last d \<Longrightarrow> update_commit_index_only i (n, d) = (Inr (), n, d)"
  by (simp add: update_commit_index_only_def node_read_def)

lemma advance_horizon_healthy:
  assumes "healthy d" "role ln \<noteq> Poisoned" "i \<le> role_commit (role ln)" "i \<le> disk_last d"
  shows "ln_advance_horizon_after_snapshot i (ln, d) = (Inr (Inr ()), ln\<lparr>role := with_applied i (role ln)\<rparr>, d)"
  using assms
  by (cases "role ln")
    (simp_all add: ln_advance_horizon_after_snapshot_def delegate_mut_def run_node_def advance_horizon_after_snapshot_def
      st_bind_def update_commit_same)

lemma apply_next_healthy:
  assumes "healthy d" "log_ok d" "role ln \<noteq> Poisoned" "disk_snap d < i" "i \<le> role_commit (role ln)" "i \<le> disk_last d"
    and "ap i (e_data (the (disk_entry d i))) f = (r, f')"
  shows "apply_next ap i ((ln, d), f) =
    (case r of Inr _ \<Rightarrow> (Inr (), (ln\<lparr>role := with_applied i (role ln)\<rparr>, d), f')
     | Inl _ \<Rightarrow> (Inl (Halt (Protocol ''Apply failure'')), (ln\<lparr>role := Poisoned\<rparr>, d), f'))"
proof -
  have "sled_read_entries i i d = Inr [the (disk_entry d i)]"
    using sled_read_entries_healthy[OF assms(1,2,4,6)] by (simp add: incl_range_def)
  then show ?thesis
    using assms(1,3,5-7)
    by (simp add: apply_next_def node_read_def st_bind_def on_fsm_def on_world_def apply_fatal_def set_role_def advance_horizon_healthy
        split: sum.splits)
qed

lemma apply_loop_healthy:
  assumes "healthy d" "log_ok d" "role ln \<noteq> Poisoned" "disk_snap d \<le> a" "a \<le> c" "role_commit (role ln) = c" "c \<le> disk_last d"
    "is_u64 (disk_last d)" "role_applied (role ln) = a" "apply_all ap (committed_entries d a c) f = (r, f')"
  shows "apply_loop ap (c - a) a c ((ln, d), f) =
    (case r of Inr _ \<Rightarrow> (Inr True, (ln\<lparr>role := with_applied c (role ln)\<rparr>, d), f')
     | Inl _ \<Rightarrow> (Inl (Halt (Protocol ''Apply failure'')), (ln\<lparr>role := Poisoned\<rparr>, d), f'))"
  using assms
proof (induction "c - a" arbitrary: a ln f)
  case 0
  then have "ln\<lparr>role := with_applied c (role ln)\<rparr> = ln" by (cases ln; cases "role ln") auto
  with 0 show ?case by (auto simp: committed_entries_simps)
next
  case (Suc k)
  then have lt: "a < c" "k = c - Suc a" by simp_all
  let ?e = "e_data (the (disk_entry d (Suc a)))"
  obtain q f1 where q: "ap (Suc a) ?e f = (q, f1)" by (cases "ap (Suc a) ?e f")
  have n: "apply_next ap (Suc a) ((ln, d), f) =
    (case q of Inr _ \<Rightarrow> (Inr (), (ln\<lparr>role := with_applied (Suc a) (role ln)\<rparr>, d), f1)
     | Inl _ \<Rightarrow> (Inl (Halt (Protocol ''Apply failure'')), (ln\<lparr>role := Poisoned\<rparr>, d), f1))"
    using Suc.prems lt q by (intro apply_next_healthy) auto
  have u: "log_index_add a 1 = Inr (Suc a)"
    using lt Suc.prems(7,8) by (simp add: log_index_add_def checked_add_u64_def is_u64_def)
  have loop: "apply_loop ap (c - a) a c = (\<lambda>s. st_bind (apply_next ap (Suc a))
              (\<lambda>_. st_bind (on_world ln_last_committed) (\<lambda>committed'. apply_loop ap (c - Suc a) (Suc a) committed')) s)"
    using lt u by (simp add: Suc.hyps(2)[symmetric] lt(2)[symmetric])
  let ?ln = "ln\<lparr>role := with_applied (Suc a) (role ln)\<rparr>"
  show ?case
  proof (cases q)
    case (Inl e)
    then have "r = Inl e" "f' = f1" using Suc.prems(10) lt q by (simp_all add: committed_entries_simps)
    with Inl n loop show ?thesis by simp
  next
    case (Inr u)
    then have all: "apply_all ap (committed_entries d (Suc a) c) f1 = (r, f')"
      using Suc.prems(10) lt q by (simp add: committed_entries_simps)
    have "apply_loop ap (c - Suc a) (Suc a) c ((?ln, d), f1) =
      (case r of Inr _ \<Rightarrow> (Inr True, (?ln\<lparr>role := with_applied c (role ?ln)\<rparr>, d), f')
       | Inl _ \<Rightarrow> (Inl (Halt (Protocol ''Apply failure'')), (?ln\<lparr>role := Poisoned\<rparr>, d), f'))"
      using Suc.prems lt all by (intro Suc.hyps(1)) auto
    then show ?thesis
      using Inr n loop Suc.prems(3,6) by (cases r) (simp_all add: st_bind_def on_world_def)
  qed
qed

lemma apply_committed_healthy:
  assumes "healthy d" "log_ok d" "role ln \<noteq> Poisoned" "is_u64 (disk_last d)"
    and "disk_snap d \<le> role_applied (role ln)" "role_applied (role ln) \<le> role_commit (role ln)" "role_commit (role ln) \<le> disk_last d"
    and "apply_all ap (committed_entries d (role_applied (role ln)) (role_commit (role ln))) f = (r, f')"
  shows "apply_committed ap (role_commit (role ln) - role_applied (role ln)) ((ln, d), f) =
    (case r of Inr _ \<Rightarrow> (Inr True, (ln\<lparr>role := with_applied (role_commit (role ln)) (role ln)\<rparr>, d), f')
     | Inl _ \<Rightarrow> (Inl (Halt (Protocol ''Apply failure'')), (ln\<lparr>role := Poisoned\<rparr>, d), f'))"
  using assms apply_loop_healthy[OF assms(1-3,5,6) refl assms(7,4) refl assms(8)]
  by (simp add: apply_committed_def st_bind_def on_world_def)

lemma sample_two_entries:
  "\<exists>f. apply_all (fsm_apply sample_codec) (committed_entries (sample_store 1) 0 2) empty_fsm = (Inr (), f)
     \<and> v_applied (fsm_abs f) = 2 \<and> fsm_ready f"
proof -
  let ?es = "committed_entries (sample_store 1) 0 2"
  have es: "map fst ?es = [1, 2]" by (simp add: committed_entries_def numeral_2_eq_2)
  obtain r1 f1 where a1: "fsm_apply sample_codec 1 [] empty_fsm = (r1, f1)" by fastforce
  have r1: "r1 = Inr ()" "fsm_ready f1" using sample_apply fsm_apply_refines[OF empty_fsm_ready a1] by auto
  have data: "fsm_apply sample_codec i (e_data z) = fsm_apply sample_codec i []" for i and z :: log_entry
    by (simp add: fsm_apply_def sample_codec_def)
  obtain v where v: "spec_apply sample_codec 1 [] (fsm_abs empty_fsm) = Some v" "fsm_abs f1 = v"
    using sample_apply fsm_apply_refines[OF empty_fsm_ready a1] by auto
  have "spec_apply sample_codec 2 [] (fsm_abs f1) = Some ((fsm_abs f1)\<lparr>v_applied := 2\<rparr>)"
    using v by (auto simp: spec_apply_def spec_commit_def sample_codec_def sample_mutation_def fsm_abs_def empty_fsm_def last_seen_def
        tree_get_def Let_def mutation_status_try_from_def new_session_record_def is_u64_def u64_bound_def split: if_splits)
  moreover obtain r2 f2 where a2: "fsm_apply sample_codec 2 [] f1 = (r2, f2)" by fastforce
  ultimately have r2: "r2 = Inr ()" "v_applied (fsm_abs f2) = 2" "fsm_ready f2" using fsm_apply_refines[OF r1(2) a2] by auto
  have "apply_all (fsm_apply sample_codec) ?es empty_fsm = (Inr (), f2)"
    using a1 r1 a2 r2 data
    by (simp add: committed_entries_def numeral_2_eq_2 st_bind_def)
  with r2 show ?thesis by blast
qed

text \<open>
  The applier brings the state machine to the commit index: run on a node whose applied index is at or
  behind its commit index, it feeds the state machine exactly the committed entries it has not seen, in
  log order, and then the node's applied index is the commit index; the log is not touched. If
  the state machine refuses an entry the node is halted, with the entries before it applied.
\<close>
theorem apply_committed_replays:
  assumes "healthy d" "log_ok d" "role ln \<noteq> Poisoned" "is_u64 (disk_last d)"
    and "disk_snap d \<le> role_applied (role ln)" "role_applied (role ln) \<le> role_commit (role ln)" "role_commit (role ln) \<le> disk_last d"
    and "apply_all ap (committed_entries d (role_applied (role ln)) (role_commit (role ln))) f = (r, f')"
  shows "apply_committed ap (role_commit (role ln) - role_applied (role ln)) ((ln, d), f) =
    (case r of Inr _ \<Rightarrow> (Inr True, (ln\<lparr>role := with_applied (role_commit (role ln)) (role ln)\<rparr>, d), f')
     | Inl _ \<Rightarrow> (Inl (Halt (Protocol ''Apply failure'')), (ln\<lparr>role := Poisoned\<rparr>, d), f'))"
  by (rule apply_committed_healthy[OF assms])

theorem apply_committed_replays_witness:
  "\<exists>ln' f'. apply_committed (fsm_apply sample_codec) 2 ((sample_node (Leader (sample_leader\<lparr>last_committed := 2\<rparr>)), sample_store 1), empty_fsm)
     = (Inr True, (ln', sample_store 1), f') \<and> role_applied (role ln') = 2 \<and> v_applied (fsm_abs f') = 2"
  using apply_committed_replays[of "sample_store 1" "sample_node (Leader (sample_leader\<lparr>last_committed := 2\<rparr>))" "fsm_apply sample_codec" empty_fsm]
    sample_two_entries
  by (fastforce simp: sample_node_def sample_leader_def is_u64_def u64_bound_def)

text \<open>
  The cold boot does what the live applier does, up to the first committed entry that the log does not
  hold: \<open>held_until d a c\<close> is the last index up to \<open>c\<close> such that every entry behind \<open>a\<close> up to it is there.
\<close>

definition held_until :: "log_store \<Rightarrow> log_index \<Rightarrow> log_index \<Rightarrow> log_index" where
  "held_until d a c = a + length (takeWhile (\<lambda>k. disk_entry d k \<noteq> None) [Suc a..<Suc c])"

lemma held_until_simps:
  "a < c \<Longrightarrow> disk_entry d (Suc a) = Some e \<Longrightarrow> held_until d a c = held_until d (Suc a) c"
  "disk_entry d (Suc a) = None \<Longrightarrow> held_until d a c = a"
  "c \<le> a \<Longrightarrow> held_until d a c = a" "a \<le> held_until d a c"
  by (cases "a < c"; simp add: held_until_def upt_conv_Cons del: upt_Suc)+

lemma held_until_all:
  assumes "a \<le> c" "\<And>k. a < k \<Longrightarrow> k \<le> c \<Longrightarrow> disk_entry d k \<noteq> None"
  shows "held_until d a c = c"
proof -
  have "takeWhile (\<lambda>k. disk_entry d k \<noteq> None) [Suc a..<Suc c] = [Suc a..<Suc c]"
    using assms(2) by (simp add: takeWhile_eq_all_conv del: upt_Suc)
  then show ?thesis unfolding held_until_def using assms(1) by (simp only: length_upt)
qed

definition missing_entry :: boot_halt where
  "missing_entry = BootPanic ''Committed entry missing from log during Cold-Boot''"

lemma replay_healthy:
  assumes "healthy d" "is_u64 c" "a \<le> c" "apply_all ap (committed_entries d a (held_until d a c)) f = (r, f')"
  shows "replay_committed_entries ap d a c f =
    (case r of Inl e \<Rightarrow> (Inl (BootError (node_error_of_fsm e)), f')
     | Inr _ \<Rightarrow> (if held_until d a c = c then Inr () else Inl missing_entry, f'))"
  using assms
proof (induction "c - a" arbitrary: a f)
  case 0
  then show ?case by (auto simp: committed_entries_simps held_until_simps replay_committed_entries.simps)
next
  case (Suc k)
  then have lt: "a < c" by simp
  have u: "log_index_add a 1 = Inr (Suc a)"
    using lt Suc.prems(2) by (simp add: log_index_add_def checked_add_u64_def is_u64_def)
  show ?case
  proof (cases "disk_entry d (Suc a)")
    case None
    then show ?thesis
      using lt u Suc.prems(1,4)
      by (subst replay_committed_entries.simps)
        (auto simp: node_read_def held_until_simps committed_entries_simps missing_entry_def)
  next
    case (Some e)
    note h = held_until_simps(1)[OF lt Some] and le = held_until_simps(4)[of "Suc a" d c]
    obtain q f1 where q: "ap (Suc a) (e_data e) f = (q, f1)" by (cases "ap (Suc a) (e_data e) f")
    have step: "replay_committed_entries ap d a c f =
      (case q of Inl x \<Rightarrow> (Inl (BootError (node_error_of_fsm x)), f1) | Inr _ \<Rightarrow> replay_committed_entries ap d (Suc a) c f1)"
      using lt u Some q Suc.prems(1) by (subst replay_committed_entries.simps) (simp add: node_read_def st_bind_def split: sum.splits)
    have all: "apply_all ap (committed_entries d a (held_until d a c)) f =
        (case q of Inl x \<Rightarrow> (Inl x, f1) | Inr _ \<Rightarrow> apply_all ap (committed_entries d (Suc a) (held_until d (Suc a) c)) f1)"
      using le q Some by (simp add: h committed_entries_simps st_bind_def split: sum.splits)
    show ?thesis
    proof (cases q)
      case (Inl x)
      then show ?thesis using step all Suc.prems(4) by auto
    next
      case (Inr y)
      then show ?thesis using Suc.hyps(1)[of "Suc a" f1] Suc.hyps(2) Suc.prems lt step all h by simp
    qed
  qed
qed

lemma held_until_log_ok:
  "log_ok d \<Longrightarrow> disk_snap d \<le> a \<Longrightarrow> a \<le> c \<Longrightarrow> c \<le> disk_last d \<Longrightarrow> held_until d a c = c"
  using log_okD(4)[of d] by (intro held_until_all) auto

lemma recover_healthy:
  assumes "healthy d" "is_u64 (disk_committed d)" "last_applied_fn f = Inr a"
    and "a \<le> disk_committed d \<Longrightarrow> apply_all ap (committed_entries d a (held_until d a (disk_committed d))) f = (r, f')"
  shows "recover last_applied_fn ap d f =
      (if disk_committed d < a
       then (Inl (BootPanic ''FSM index is ahead of last_committed. State drift detected during Cold-Boot.''), f)
       else case r of
           Inl e \<Rightarrow> (Inl (BootError (node_error_of_fsm e)), f')
         | Inr _ \<Rightarrow> (if held_until d a (disk_committed d) = disk_committed d then Inr () else Inl missing_entry, f'))"
proof (cases "a < disk_committed d")
  case True
  moreover have "log_index_add a 1 = Inr (Suc a)"
    using True assms(2) by (simp add: log_index_add_def checked_add_u64_def is_u64_def)
  ultimately show ?thesis
    using replay_healthy[OF assms(1,2) _ assms(4)] assms by (simp add: recover_def node_read_def)
next
  case False
  then show ?thesis using assms by (auto simp: recover_def node_read_def committed_entries_simps held_until_simps)
qed

text \<open>
  C28 What a cold boot does, on any log it can read. It feeds the state machine the committed entries it has not
  seen, in log order, up to the first one the log does not hold, as the live applier would. It ends
  well only if every entry up to the persisted commit index was there and the state machine took it;
  a committed entry missing from the log stops the boot, as does an entry the state machine refuses, with
  the entries before it applied; a state machine ahead of the commit index stops it before anything is applied. A log
  without holes that reaches from the state machine's index to the commit index is always replayed in full.
\<close>
theorem recovery_replays:
  assumes "healthy d" "is_u64 (disk_committed d)" "last_applied_fn f = Inr a"
    and "a \<le> disk_committed d \<Longrightarrow> apply_all ap (committed_entries d a (held_until d a (disk_committed d))) f = (r, f')"
  shows "recover last_applied_fn ap d f =
      (if disk_committed d < a
       then (Inl (BootPanic ''FSM index is ahead of last_committed. State drift detected during Cold-Boot.''), f)
       else case r of
           Inl e \<Rightarrow> (Inl (BootError (node_error_of_fsm e)), f')
         | Inr _ \<Rightarrow> (if held_until d a (disk_committed d) = disk_committed d then Inr () else Inl missing_entry, f'))
    \<and> (log_ok d \<and> disk_snap d \<le> a \<and> a \<le> disk_committed d \<and> disk_committed d \<le> disk_last d \<longrightarrow>
         held_until d a (disk_committed d) = disk_committed d)"
  using recover_healthy[of d last_applied_fn f a ap r f', OF assms] held_until_log_ok[of d a "disk_committed d"] by blast

text \<open>
  The sample log holds two entries. With two committed, the boot replays both; with three committed, it applies
  both and stops at the third.
\<close>
theorem recovery_replays_witness:
  "\<exists>f. v_applied (fsm_abs f) = 2
     \<and> recover last_applied_index (fsm_apply sample_codec) ((sample_store 1)\<lparr>meta_last_committed := Some 2\<rparr>) empty_fsm = (Inr (), f)
     \<and> recover last_applied_index (fsm_apply sample_codec) ((sample_store 1)\<lparr>meta_last_committed := Some 3\<rparr>) empty_fsm
         = (Inl missing_entry, f)"
proof -
  let ?d = "\<lambda>c. (sample_store 1)\<lparr>meta_last_committed := Some c\<rparr>"
  have d: "healthy (?d c)" "disk_committed (?d c) = c" "last_applied_index empty_fsm = Inr 0"
    "committed_entries (?d c) = committed_entries (sample_store 1)" for c
    by (simp_all add: disk_committed_def last_applied_index_def check_not_poisoned_def empty_fsm_def committed_entries_def fun_eq_iff)
  have h: "held_until (?d 2) 0 2 = 2" "held_until (?d 3) 0 3 = 2"
    by (simp_all add: held_until_def sample_store_def disk_entry_def tree_get_def sample_defs numeral_2_eq_2 numeral_3_eq_3)
  obtain f where f: "apply_all (fsm_apply sample_codec) (committed_entries (sample_store 1) 0 2) empty_fsm = (Inr (), f)"
    "v_applied (fsm_abs f) = 2" using sample_two_entries by blast
  have u: "is_u64 2" "is_u64 3" by (simp_all add: is_u64_def u64_bound_def)
  show ?thesis
    using recovery_replays[of "?d 2" last_applied_index empty_fsm 0 "fsm_apply sample_codec" "Inr ()" f]
      recovery_replays[of "?d 3" last_applied_index empty_fsm 0 "fsm_apply sample_codec" "Inr ()" f] d h f u
    by (intro exI[of _ f]) simp
qed

section \<open>Snapshot installation\<close>

lemma save_metadata_healthy:
  assumes "healthy d" "role ln \<noteq> Poisoned"
  shows "ln_save_snapshot_metadata i t (ln, d) = (Inr (), ln, d\<lparr>meta_snapshot_index := Some i, meta_snapshot_term := Some t\<rparr>)"
  using assms
  by (cases "role ln")
    (simp_all add: ln_save_snapshot_metadata_def delegate_mut_def run_node_def on_disk_apply or_fatal_def st_bind_def Let_def)

lemma advance_horizon_beyond:
  assumes "healthy d" "role ln \<noteq> Poisoned" "role_commit (role ln) < i" "i \<le> disk_last d"
  shows "\<exists>ln'. ln_advance_horizon_after_snapshot i (ln, d) = (Inr (Inr ()), ln', d\<lparr>meta_last_committed := Some i\<rparr>)
    \<and> role_applied (role ln') = i \<and> role_commit (role ln') = i \<and> role ln' \<noteq> Poisoned"
  using assms
  by (cases "role ln")
    (simp_all add: ln_advance_horizon_after_snapshot_def delegate_mut_def run_node_def advance_horizon_after_snapshot_def
      update_commit_index_only_def node_read_def on_disk_apply st_bind_def)

text \<open>
  Finishing the installation of a snapshot brings the node in line with its state machine: the freeze is
  lifted, the applied index is the snapshot's, the commit index is at least that, the log starts behind
  the snapshot, has no hole, and ends no earlier than before. A failed installation halts the node.
\<close>
theorem snapshot_finalizes:
  assumes "healthy d" "log_ok d" "role ln \<noteq> Poisoned" "0 < depth" "disk_snap d \<le> i" "is_u64 i"
  shows "(\<exists>ln' d'. snapshot_phase3 (Inr ()) i t ((ln, d), depth) = (Inr (), (ln', d'), depth - 1)
      \<and> role_applied (role ln') = i \<and> role_commit (role ln') = max i (role_commit (role ln))
      \<and> log_ok d' \<and> disk_snap d' = i \<and> disk_last d' = max (disk_last d) i \<and> disk_term_at d' i = (if i = 0 then 0 else t))
    \<and> (\<exists>ln'. snapshot_phase3 (Inl e) i t ((ln, d), depth) =
        (Inl (Halt (Protocol ''Background snapshot restoration failure'')), (ln', d), depth - 1) \<and> role ln' = Poisoned)"
proof
  let ?d = "d\<lparr>meta_snapshot_index := Some i, meta_snapshot_term := Some t\<rparr>"
  have h: "healthy ?d" using assms(1) by (simp add: healthy_def)
  have d0: "depth \<noteq> 0" using assms(4) by auto
  note m = log_ok_snapshot_metadata[OF assms(2,5,6), of t]
  have v: "disk_snap ?d = i" "disk_term_at ?d i = (if i = 0 then 0 else t)" by (simp_all add: disk_snap_def disk_term_at_def)
  have v2: "disk_term_at (?d\<lparr>meta_last_committed := Some i\<rparr>) i = (if i = 0 then 0 else t)" by (simp add: disk_snap_def disk_term_at_def)
  show "\<exists>ln' d'. snapshot_phase3 (Inr ()) i t ((ln, d), depth) = (Inr (), (ln', d'), depth - 1)
      \<and> role_applied (role ln') = i \<and> role_commit (role ln') = max i (role_commit (role ln))
      \<and> log_ok d' \<and> disk_snap d' = i \<and> disk_last d' = max (disk_last d) i \<and> disk_term_at d' i = (if i = 0 then 0 else t)"
  proof (cases "role_commit (role ln) < i")
    case True
    obtain ln' where "ln_advance_horizon_after_snapshot i (ln, ?d) = (Inr (Inr ()), ln', ?d\<lparr>meta_last_committed := Some i\<rparr>)"
      "role_applied (role ln') = i" "role_commit (role ln') = i"
      using advance_horizon_beyond[OF h assms(3) True] m(2) by auto
    with True show ?thesis
      using save_metadata_healthy[OF assms(1,3), of i t] d0 m v v2
      by (simp add: snapshot_phase3_def thaw_def Let_def st_bind_def or_fatal_def)
  next
    case False
    then have "ln_advance_horizon_after_snapshot i (ln, ?d) = (Inr (Inr ()), ln\<lparr>role := with_applied i (role ln)\<rparr>, ?d)"
      using m(2) by (intro advance_horizon_healthy h assms(3)) auto
    with False show ?thesis
      using save_metadata_healthy[OF assms(1,3), of i t] d0 m v assms(3)
      by (simp add: snapshot_phase3_def thaw_def Let_def st_bind_def or_fatal_def)
  qed
  show "\<exists>ln'. snapshot_phase3 (Inl e) i t ((ln, d), depth) =
        (Inl (Halt (Protocol ''Background snapshot restoration failure'')), (ln', d), depth - 1) \<and> role ln' = Poisoned"
    using d0 by (simp add: snapshot_phase3_def thaw_def Let_def apply_fatal_def set_role_def)
qed

theorem snapshot_finalizes_witness:
  "\<exists>ln' d'. snapshot_phase3 (Inr ()) 9 3 ((sample_node (Follower sample_follower), sample_store 4), 1) = (Inr (), (ln', d'), 0)
     \<and> role_applied (role ln') = 9 \<and> disk_last d' = 9"
  using snapshot_finalizes[of "sample_store 4" "sample_node (Follower sample_follower)" 1 9 3 FPoisoned]
  by (auto simp: sample_node_def is_u64_def u64_bound_def)

text \<open>
  Installing a snapshot leaves the old log in place, and the last log term is then read from it: behind a
  snapshot of term \<open>t\<close> that covers the whole old log, the node reports the snapshot's index with the term
  of its old last entry. A candidate whose last entry has a term between the two, older than what the
  node holds, passes the up-to-date check of a vote whatever its last index.
\<close>
theorem stale_last_term:
  assumes "healthy d" "log_ok d" "disk_entry d (disk_last d) = Some e" "disk_last d < i" "is_u64 i" "e_term e < lt" "lt < t"
  shows "\<exists>d'. sled_save_snapshot_metadata i t d = (Inr (), d') \<and> disk_last d' = i \<and> get_term_at i d' = Inr t
    \<and> sled_last_log_term d' = Inr (e_term e) \<and> is_log_up_to_date lt li d' = Inr True"
proof -
  let ?d = "d\<lparr>meta_snapshot_index := Some i, meta_snapshot_term := Some t\<rparr>"
  have le: "disk_snap d \<le> i" using disk_snap_le_last[of d] assms(4) by linarith
  note m = log_ok_snapshot_metadata[OF assms(2) le assms(5), of t]
  have pos: "0 < e_term e" using log_okD(2)[OF assms(2,3)] by simp
  have "tree_last (log_tree d) = Some (disk_last d, e)"
    using assms(3) disk_last_ge[OF assms(2)]
    by (subst sled.last_eq_Some_iff[OF log_okD(1)[OF assms(2)]]) (auto simp: disk_entry_def)
  then have "disk_last_term ?d = e_term e" using pos by (simp add: disk_last_term_def)
  moreover have "healthy ?d" using assms(1) by (simp add: healthy_def)
  moreover have "disk_term_at ?d i = t" using assms(4) by (simp add: disk_term_at_def disk_snap_def)
  ultimately show ?thesis using assms m(2) by (simp add: up_to_date_def)
qed

theorem stale_last_term_witness:
  "\<exists>d'. sled_save_snapshot_metadata 9 5 (sample_store 5) = (Inr (), d') \<and> get_term_at 9 d' = Inr 5
    \<and> is_log_up_to_date 2 1 d' = Inr True"
proof -
  have "disk_entry (sample_store 5) 2 = Some (entry 2 1)"
    by (simp add: disk_entry_def sample_store_def store_with_def tree_get_def entry_def new_log_entry_def)
  then show ?thesis
    using stale_last_term[of "sample_store 5" "entry 2 1" 9 2 5 1]
    by (auto simp: is_u64_def u64_bound_def entry_def new_log_entry_def)
qed

text \<open>
  A crash between the two halves of a snapshot installation stops every later boot: the state machine
  already persists the snapshot's index while the log store still has the old commit index, and recovery
  refuses a state machine ahead of the log.
\<close>
theorem install_crash_stops_boot:
  assumes "fsm_ready f" "decode_snapshot c data = Some snap" "fsm_install_snapshot c i data f = (Inr (), f')"
    and "healthy d" "disk_committed d < i" "fsm_healthy f'" "\<not> fsm_poisoned f'"
  shows "recover last_applied_index (fsm_apply c) d f' =
    (Inl (BootPanic ''FSM index is ahead of last_committed. State drift detected during Cold-Boot.''), f')"
proof -
  have "v_applied (fsm_abs f') = i" using install_cases[OF assms(3,2)] by (auto simp: restored_def restored_view_def)
  then have "last_applied_index f' = Inr i" using fsm_reads_healthy(1)[OF assms(6,7)] by simp
  then show ?thesis using assms(4,5) by (simp add: recover_def node_read_def)
qed

theorem install_crash_stops_boot_witness:
  "\<exists>f'. fsm_install_snapshot sample_codec 9 [] empty_fsm = (Inr (), f')
    \<and> recover last_applied_index (fsm_apply sample_codec) (sample_store 1) f' =
        (Inl (BootPanic ''FSM index is ahead of last_committed. State drift detected during Cold-Boot.''), f')"
proof -
  obtain f' where f: "fsm_install_snapshot sample_codec 9 [] empty_fsm = (Inr (), f')" "fsm_healthy f'" "\<not> fsm_poisoned f'"
    by (simp add: fsm_install_snapshot_def check_not_poisoned_def set_restoration_tombstone_def clear_state_except_tombstone_def
        remove_meta_key_def restore_inventory_batch_def restore_session_batch_def finalize_restoration_def st_bind_def
        fsm_write_def fsm_flush_def empty_fsm_def sample_codec_def fsm_healthy_def)
  have "decode_snapshot sample_codec [] = Some sample_snapshot" by (simp add: sample_codec_def)
  moreover have "disk_committed (sample_store 1) < 9"
    by (simp add: disk_committed_def sample_store_def store_with_def empty_store_def)
  ultimately show ?thesis using install_crash_stops_boot[OF empty_fsm_ready _ f(1)] f by simp
qed

end
