(* ===== verification/Replicas.thy ===== *)
theory Replicas
  imports Raft_Safety Orchestration
begin

text \<open>
  The replicated log and the applier together: what two nodes feed to their state machines.
\<close>

lemma role_commit_le: "role_commit (role (nodes (core s) i)) \<le> committed_upto s i"
  by (cases "role (nodes (core s) i)") (simp_all add: committed_upto_def)

lemma committed_within:
  assumes "repl_reachable ms ids s" "i \<in> set ms"
  shows "plain (disks (core s) i)" "committed_upto s i \<le> disk_last (disks (core s) i)"
proof -
  from sim_reachable[OF assms(1)] obtain a where A: "sim ms s a" by blast
  note N = sim_node[OF A assms(2)]
  show "plain (disks (core s) i)" by (rule N(3))
  have "s_commit a i \<le> length (s_log a i)"
    using commit_agrees(1)[OF spec_steps.stay simD(1)[OF A], of "s_commit a i - 1" i i] by (cases "s_commit a i") auto
  with N(2,5) show "committed_upto s i \<le> disk_last (disks (core s) i)" by simp
qed

text \<open>Two nodes that committed up to an index agree on the entries up to it.\<close>

lemma committed_entries_agree:
  assumes "repl_reachable ms ids s" "repl_steps ms ids s s'" "i \<in> set ms" "j \<in> set ms" "c \<le> committed_upto s i" "c \<le> committed_upto s' j"
  shows "committed_entries (disks (core s) i) a c = committed_entries (disks (core s') j) a c"
proof -
  have "disk_entry (disks (core s) i) k = disk_entry (disks (core s') j) k" if "0 < k" "k \<le> c" for k
    using safety_across[OF assms(1-4) that(1)] that(2) assms(5,6) by (auto simp: node_entry_def)
  then show ?thesis by (auto simp: committed_entries_def incl_range_def)
qed

lemma applier_runs:
  assumes "repl_reachable ms ids s" "i \<in> set ms" "healthy (disks (core s) i)" "role (nodes (core s) i) \<noteq> Poisoned"
    and "role_applied (role (nodes (core s) i)) = a" "role_commit (role (nodes (core s) i)) = c" "a \<le> c"
    and "apply_all ap (committed_entries (disks (core s) i) a c) f = (r, f')"
  shows "\<exists>w. apply_committed ap (c - a) (node_world s i, f) =
    (case r of Inr _ \<Rightarrow> Inr True | Inl _ \<Rightarrow> Inl (Halt (Protocol ''Apply failure'')), w, f')"
proof -
  note W = committed_within[OF assms(1,2)]
  have "c \<le> disk_last (disks (core s) i)" using role_commit_le[of s i] W(2) assms(6) by linarith
  from apply_loop_healthy[OF assms(3) plainD(1)[OF W(1)] assms(4) _ assms(7,6) this disk_last_u64[OF W(1)] assms(5,8)]
  show ?thesis
    using assms(4-7) plainD(2)[OF W(1)]
    by (cases "role (nodes (core s) i)"; cases r)
      (auto simp: apply_committed_def st_bind_def on_world_def node_world_def world_of_def ln_last_applied_def ln_last_committed_def)
qed

text \<open>
  C12 Replicas do not diverge: take two nodes of a cluster, or one node at two times, that have applied and committed the same
  indices and whose state machines are in the same state. The applier then succeeds on both or on neither, and leaves
  both state machines in the same state, whatever happened in the cluster in between.
\<close>
theorem replicas_agree:
  assumes "repl_reachable ms ids s" "repl_steps ms ids s s'" "i \<in> set ms" "j \<in> set ms"
    and "healthy (disks (core s) i)" "role (nodes (core s) i) \<noteq> Poisoned"
    and "healthy (disks (core s') j)" "role (nodes (core s') j) \<noteq> Poisoned"
    and "role_applied (role (nodes (core s) i)) = a" "role_commit (role (nodes (core s) i)) = c"
    and "role_applied (role (nodes (core s') j)) = a" "role_commit (role (nodes (core s') j)) = c" "a \<le> c"
  shows "\<exists>r w w' f'. apply_committed ap (c - a) (node_world s i, f) = (r, w, f')
    \<and> apply_committed ap (c - a) (node_world s' j, f) = (r, w', f')"
proof -
  have "c \<le> committed_upto s i" "c \<le> committed_upto s' j" using role_commit_le assms(10,12) by metis+
  note e = committed_entries_agree[OF assms(1-4) this, of a]
  obtain r f' where r: "apply_all ap (committed_entries (disks (core s) i) a c) f = (r, f')" by fastforce
  from applier_runs[OF assms(1,3,5,6,9,10,13) r]
    applier_runs[OF repl_steps_reachable[OF assms(2,1)] assms(4,7,8,11,12,13) r[unfolded e]]
  show ?thesis by blast
qed

theorem replicas_agree_witness:
  "\<exists>r w w' f'. apply_committed (fsm_apply sample_codec) 1 (node_world run11 1, empty_fsm) = (r, w, f')
     \<and> apply_committed (fsm_apply sample_codec) 1 (node_world run11 2, empty_fsm) = (r, w', f')"
proof -
  have w: "node_world run11 1 = leader_world 2 1 2 1 {1} 1 store2" "node_world run11 2 = follower_world (Some 1) 1 store2"
    by (simp_all add: run11_def run10_def)
  have n: "nodes (core run11) 1 = fst (node_world run11 1)" "nodes (core run11) 2 = fst (node_world run11 2)"
    by (simp_all add: node_world_def world_of_def)
  have r: "role (nodes (core run11) 1) \<noteq> Poisoned" "role_applied (role (nodes (core run11) 1)) = 0" "role_commit (role (nodes (core run11) 1)) = 1"
    "role (nodes (core run11) 2) \<noteq> Poisoned" "role_applied (role (nodes (core run11) 2)) = 0" "role_commit (role (nodes (core run11) 2)) = 1"
    unfolding n w by (simp_all add: leader_world_def follower_world_def)
  have h: "healthy store2" by (simp add: run_store_def healthy_def)
  have "healthy (disks (core run11) 1)" "healthy (disks (core run11) 2)" unfolding run11_nodes by (rule h)+
  from replicas_agree[OF run_reach11 repl_steps.stay, of 1 2 0 1 "fsm_apply sample_codec" empty_fsm] this r show ?thesis by simp
qed

end
