(* ===== verification/Tasks.thy ===== *)
theory Tasks
  imports Orchestration Raft_Handle
begin

text \<open>
  The asynchronous tasks of \<open>consensus/election.rs\<close>, \<open>consensus/replication.rs\<close>, \<open>consensus/lifecycle.rs\<close> and the
  snapshot path of \<open>orchestration.rs\<close> and \<open>service/consensus.rs\<close>, written as the code has them: what a task does
  between two awaits, in order.

  A task is finished, runs one section, or waits. A section works on the node, its store and the rest of the shell
  (\<open>shell\<close>: freeze depth, snapshot permits, state machine) and is atomic because it holds the lock
  of what it touches; between two sections anything else may run. Waiting is waiting for the next result of a
  stream of calls (\<open>AwaitPreVote\<close>, \<open>AwaitVote\<close>, \<open>AwaitOutcome\<close>) or for the answer of one call (\<open>CallAppend\<close>,
  \<open>CallSnapshot\<close>). A stream gives one result for each peer, in the order they arrive, so the loops over a stream
  count down from the number of peers. A call that cannot be made, times out or fails answers with a status;
  a task whose section panics is over. \<open>Campaign\<close> marks the point where vote requests go out, \<open>ReadTally\<close> is the
  locked read of the vote count.
\<close>

section \<open>Tasks\<close>

record 'f shell =
  sh_depth :: "32 word"
  sh_permits :: "node_id set"
  sh_fsm :: 'f

datatype ('x, 'a) task =
    Done 'a
  | Locked "world \<times> 'x \<Rightarrow> (halt + ('x, 'a) task) \<times> world \<times> 'x"
  | AwaitPreVote "node_id \<times> (status + request_vote_response response) \<Rightarrow> ('x, 'a) task"
  | Campaign campaign_params "('x, 'a) task"
  | AwaitVote campaign_params "node_id \<times> (status + request_vote_response response) \<Rightarrow> ('x, 'a) task"
  | ReadTally nat "nat \<Rightarrow> ('x, 'a) task"
  | AwaitOutcome replication_round_params "node_id \<times> (status + replication_outcome option) \<Rightarrow> ('x, 'a) task"
  | CallAppend node_id append_entries_request "status + append_entries_response response \<Rightarrow> ('x, 'a) task"
  | CallSnapshot node_id install_snapshot_request "status + raft_term response \<Rightarrow> ('x, 'a) task"

primrec task_bind :: "('x, 'a) task \<Rightarrow> ('a \<Rightarrow> ('x, 'b) task) \<Rightarrow> ('x, 'b) task" where
  "task_bind (Done a) k = k a"
| "task_bind (Locked f) k = Locked (\<lambda>s. map_prod (map_sum (\<lambda>h. h) (\<lambda>t. task_bind t k)) (\<lambda>s. s) (f s))"
| "task_bind (AwaitPreVote f) k = AwaitPreVote (\<lambda>m. task_bind (f m) k)"
| "task_bind (Campaign p t) k = Campaign p (task_bind t k)"
| "task_bind (AwaitVote p f) k = AwaitVote p (\<lambda>m. task_bind (f m) k)"
| "task_bind (ReadTally v f) k = ReadTally v (\<lambda>m. task_bind (f m) k)"
| "task_bind (AwaitOutcome p f) k = AwaitOutcome p (\<lambda>m. task_bind (f m) k)"
| "task_bind (CallAppend j q f) k = CallAppend j q (\<lambda>m. task_bind (f m) k)"
| "task_bind (CallSnapshot j q f) k = CallSnapshot j q (\<lambda>m. task_bind (f m) k)"

text \<open>A section under the consensus lock.\<close>

definition locked :: "'a handler \<Rightarrow> ('a \<Rightarrow> ('x, 'b) task) \<Rightarrow> ('x, 'b) task" where
  "locked h k = Locked (\<lambda>(w, x). case h w of (r, w') \<Rightarrow> (map_sum (\<lambda>e. e) k r, w', x))"

lemma task_bind_locked [simp]: "task_bind (locked h k) g = locked h (\<lambda>a. task_bind (k a) g)"
  by (auto simp: locked_def fun_eq_iff sum.map_comp comp_def split: prod.splits)

definition ln_try_current_term :: "(node_error + raft_term) handler" where
  "ln_try_current_term w =
     (if is_poisoned (fst w) then (Inl HaltPoisoned, w) else (Inr (node_read sled_current_term (snd w)), w))"

definition or_fatal_task :: "('x, node_error + unit) task \<Rightarrow> ('x, unit) task" where
  "or_fatal_task t = task_bind t (\<lambda>r. case r of Inr _ \<Rightarrow> Done () | Inl e \<Rightarrow> locked (apply_fatal e) Done)"

section \<open>Elections\<close>

text \<open>What \<open>request_vote_from_peer\<close> and \<open>request_pre_vote_from_peer\<close> make of a peer's answer.\<close>

definition request_vote_from_peer :: "trace_id \<Rightarrow> status + request_vote_response response \<Rightarrow> status + request_vote_response" where
  "request_vote_from_peer tr ans =
     res_bind ans (\<lambda>resp. res_bind (verify_trace_integrity resp tr) (\<lambda>_. Inr (resp_inner resp)))"

definition is_candidate :: "bool handler" where
  "is_candidate = st_gets (\<lambda>(ln, _). case role ln of Candidate _ \<Rightarrow> True | _ \<Rightarrow> False)"

definition after_votes :: "node_id list \<Rightarrow> nat \<Rightarrow> ('x, node_error + unit) task" where
  "after_votes peer_ids votes_granted =
     (let still_candidate = locked ln_try_current_term (\<lambda>r. Done (map_ok (\<lambda>_. ()) r))
      in if votes_granted \<ge> quorum_size peer_ids then
           locked is_candidate
             (\<lambda>c. if c then locked (into_leader peer_ids) (\<lambda>_. Done (Inr ())) else still_candidate)
         else still_candidate)"

fun tally_votes :: "trace_id \<Rightarrow> campaign_params \<Rightarrow> node_id list \<Rightarrow> nat \<Rightarrow> nat \<Rightarrow> ('x, node_error + unit) task" where
  "tally_votes tr params peer_ids 0 votes_granted = after_votes peer_ids votes_granted"
| "tally_votes tr params peer_ids (Suc pending) votes_granted =
     AwaitVote params (\<lambda>(peer, ans).
       locked (process_vote_response (cp_term params) peer_ids peer (request_vote_from_peer tr ans))
         (\<lambda>action. case action of
              QuorumReached \<Rightarrow> Done (Inr ())
            | VDemoted \<Rightarrow> Done (Inr ())
            | VContinue \<Rightarrow> ReadTally votes_granted (tally_votes tr params peer_ids pending)))"

definition initiate_election :: "trace_id \<Rightarrow> campaign_params \<Rightarrow> node_id list \<Rightarrow> ('x, node_error + unit) task" where
  "initiate_election tr params peer_ids = Campaign params (tally_votes tr params peer_ids (length peer_ids) 1)"

definition start_election_campaign :: "trace_id \<Rightarrow> campaign_params \<Rightarrow> node_id list \<Rightarrow> ('x, unit) task" where
  "start_election_campaign tr params peer_ids = or_fatal_task (initiate_election tr params peer_ids)"

text \<open>A pre-vote campaign that is won draws a fresh trace id, \<open>tr'\<close>, for its election.\<close>

definition after_pre_votes :: "trace_id \<Rightarrow> node_id list \<Rightarrow> nat \<Rightarrow> ('x, node_error + unit) task" where
  "after_pre_votes tr' peer_ids pre_votes_granted =
     (if pre_votes_granted \<ge> quorum_size peer_ids
      then locked pre_vote_won (\<lambda>params. initiate_election tr' params peer_ids)
      else locked ln_current_term (\<lambda>_. Done (Inr ())))"

fun tally_pre_votes :: "trace_id \<Rightarrow> trace_id \<Rightarrow> campaign_params \<Rightarrow> node_id list \<Rightarrow> nat \<Rightarrow> nat \<Rightarrow> ('x, node_error + unit) task" where
  "tally_pre_votes tr tr' params peer_ids 0 pre_votes_granted = after_pre_votes tr' peer_ids pre_votes_granted"
| "tally_pre_votes tr tr' params peer_ids (Suc pending) pre_votes_granted =
     AwaitPreVote (\<lambda>(peer, ans). let res = request_vote_from_peer tr ans in
       locked (pre_vote_step_down (cp_term params) res)
         (\<lambda>stepped_down.
            if stepped_down then Done (Inr ())
            else if process_pre_vote_response res then
              (if pre_votes_granted + 1 \<ge> quorum_size peer_ids
               then locked pre_vote_won (\<lambda>params'. initiate_election tr' params' peer_ids)
               else tally_pre_votes tr tr' params peer_ids pending (pre_votes_granted + 1))
            else tally_pre_votes tr tr' params peer_ids pending pre_votes_granted))"

definition initiate_pre_vote :: "trace_id \<Rightarrow> trace_id \<Rightarrow> campaign_params \<Rightarrow> node_id list \<Rightarrow> ('x, node_error + unit) task" where
  "initiate_pre_vote tr tr' params peer_ids = tally_pre_votes tr tr' params peer_ids (length peer_ids) 1"

definition start_pre_vote_campaign :: "trace_id \<Rightarrow> trace_id \<Rightarrow> campaign_params \<Rightarrow> node_id list \<Rightarrow> ('x, unit) task" where
  "start_pre_vote_campaign tr tr' params peer_ids = or_fatal_task (initiate_pre_vote tr tr' params peer_ids)"

section \<open>Replication rounds\<close>

definition replicate_to_peer ::
  "trace_id \<Rightarrow> node_id \<Rightarrow> append_entries_request \<Rightarrow> (status + replication_outcome option \<Rightarrow> ('x, 'a) task) \<Rightarrow> ('x, 'a) task" where
  "replicate_to_peer tr peer request k =
     CallAppend peer request (\<lambda>answer. k (res_bind answer (\<lambda>response. res_bind (verify_trace_integrity response tr)
       (\<lambda>_. Inr (Some (OAppendEntries (ae_prev_log_index request) (length (ae_entries request)) (resp_inner response)))))))"

definition release_permit :: "node_id \<Rightarrow> 'f shell \<Rightarrow> 'f shell" where
  "release_permit peer sh = sh\<lparr>sh_permits := release_snapshot_permit peer (sh_permits sh)\<rparr>"

text \<open>Dropping the permit of a snapshot transfer.\<close>

definition dropping_permit :: "node_id \<Rightarrow> ('f shell, 'a) task \<Rightarrow> ('f shell, 'a) task" where
  "dropping_permit peer t = Locked (\<lambda>(w, sh). (Inr t, w, release_permit peer sh))"

definition install_snapshot_to_peer ::
  "trace_id \<Rightarrow> node_id \<Rightarrow> install_snapshot_request \<Rightarrow> ('f shell, node_id \<times> (status + replication_outcome option)) task" where
  "install_snapshot_to_peer tr peer request =
     CallSnapshot peer request (\<lambda>answer.
       case res_bind answer (\<lambda>response. res_bind (verify_trace_integrity response tr)
              (\<lambda>_. Inr (OInstallSnapshot (is_last_included_index request) (resp_inner response)))) of
         Inl s \<Rightarrow> dropping_permit peer (Done (peer, Inl s))
       | Inr outcome \<Rightarrow> Done (peer, Inr (Some outcome)))"

definition freeze_section :: "(unit \<Rightarrow> ('f shell, 'a) task) \<Rightarrow> ('f shell, 'a) task" where
  "freeze_section k = Locked (\<lambda>(w, sh). case freeze (sh_depth sh) of
     (Inl (FreezeInvariantError m), depth) \<Rightarrow> (case apply_fatal (Protocol m) w of (r, w') \<Rightarrow> (map_sum (\<lambda>e. e) k r, w', sh\<lparr>sh_depth := depth\<rparr>))
   | (Inr _, depth) \<Rightarrow> (Inr (k ()), w, sh\<lparr>sh_depth := depth\<rparr>))"

definition thaw_section :: "(unit \<Rightarrow> ('f shell, 'a) task) \<Rightarrow> ('f shell, 'a) task" where
  "thaw_section k = Locked (\<lambda>(w, sh). case thaw (sh_depth sh) of
     (Inl (FreezeInvariantError m), depth) \<Rightarrow> (case apply_fatal (Protocol m) w of (r, w') \<Rightarrow> (map_sum (\<lambda>e. e) k r, w', sh\<lparr>sh_depth := depth\<rparr>))
   | (Inr _, depth) \<Rightarrow> (Inr (k ()), w, sh\<lparr>sh_depth := depth\<rparr>))"

definition serialize_snapshot ::
  "('f \<Rightarrow> fsm_error + bytes) \<Rightarrow> trace_id \<Rightarrow> node_id \<Rightarrow> replication_round_params \<Rightarrow> log_index \<Rightarrow> raft_term
     \<Rightarrow> ('f shell, node_id \<times> (status + replication_outcome option)) task" where
  "serialize_snapshot snap tr peer params last_included_index last_included_term =
     freeze_section (\<lambda>_. Locked (\<lambda>(w, sh). (Inr (
       let res = snap (sh_fsm sh)
       in thaw_section (\<lambda>_. case res of
            Inr dat \<Rightarrow> install_snapshot_to_peer tr peer
              (new_install_snapshot_request (rr_term params) (rr_node_id params) last_included_index last_included_term dat)
          | Inl e \<Rightarrow> locked (apply_fatal (Protocol ''Snapshot serialization failed'')) Done)), w, sh)))"

definition replicate_snapshot_to_peer ::
  "('f \<Rightarrow> fsm_error + bytes) \<Rightarrow> trace_id \<Rightarrow> node_id \<Rightarrow> replication_round_params \<Rightarrow> log_index \<Rightarrow> raft_term
     \<Rightarrow> ('f shell, node_id \<times> (status + replication_outcome option)) task" where
  "replicate_snapshot_to_peer snap tr peer params last_included_index last_included_term =
     replicate_to_peer tr peer (reachability_probe params last_included_index last_included_term)
       (\<lambda>probe_res. case probe_res of
            Inl e \<Rightarrow> dropping_permit peer (Done (peer, Inr None))
          | Inr (Some outcome) \<Rightarrow>
              (if outcome_term outcome > rr_term params then dropping_permit peer (Done (peer, Inr (Some outcome)))
               else serialize_snapshot snap tr peer params last_included_index last_included_term)
          | Inr None \<Rightarrow> serialize_snapshot snap tr peer params last_included_index last_included_term)"

definition heartbeat_probe ::
  "trace_id \<Rightarrow> node_id \<Rightarrow> replication_round_params \<Rightarrow> ('x, node_id \<times> (status + replication_outcome option)) task" where
  "heartbeat_probe tr peer params =
     locked (build_append_entries_request peer (rr_term params) (rr_node_id params) (rr_last_committed params))
       (\<lambda>heartbeat. case heartbeat of
            Inr req \<Rightarrow> replicate_to_peer tr peer req (\<lambda>res. Done (peer, res))
          | Inl e \<Rightarrow> Done (peer, Inr None))"

definition prepare_and_replicate_to_peer ::
  "('f \<Rightarrow> fsm_error + bytes) \<Rightarrow> trace_id \<Rightarrow> node_id \<Rightarrow> replication_round_params
     \<Rightarrow> ('f shell, node_id \<times> (status + replication_outcome option)) task" where
  "prepare_and_replicate_to_peer snap tr peer params =
     locked (prepare_replication peer params)
       (\<lambda>strategy. case strategy of
            None \<Rightarrow> Done (peer, Inr None)
          | Some (SAppendEntries req) \<Rightarrow> replicate_to_peer tr peer req (\<lambda>res. Done (peer, res))
          | Some (SInstallSnapshot last_included_index last_included_term) \<Rightarrow>
              Locked (\<lambda>(w, sh). case try_acquire_snapshot_permit peer (sh_permits sh) of
                (True, permits) \<Rightarrow>
                  (Inr (replicate_snapshot_to_peer snap tr peer params last_included_index last_included_term),
                   w, sh\<lparr>sh_permits := permits\<rparr>)
              | (False, _) \<Rightarrow> (Inr (heartbeat_probe tr peer params), w, sh)))"

text \<open>The permit of a snapshot transfer is dropped with the outcome that carries it.\<close>

fun outcome_permit :: "node_id \<Rightarrow> status + replication_outcome option \<Rightarrow> 'f shell \<Rightarrow> 'f shell" where
  "outcome_permit peer (Inr (Some (OInstallSnapshot _ _))) sh = release_permit peer sh"
| "outcome_permit peer _ sh = sh"

fun process_outcomes :: "replication_round_params \<Rightarrow> nat \<Rightarrow> ('f shell, node_error + unit) task" where
  "process_outcomes params 0 = Done (Inr ())"
| "process_outcomes params (Suc pending) =
     AwaitOutcome params (\<lambda>(peer, res). Locked (\<lambda>(w, sh).
       case process_replication_response (rr_term params) peer res w of (r, w') \<Rightarrow>
         (map_sum (\<lambda>e. e)
            (\<lambda>action. case action of
                 Inl e \<Rightarrow> Done (Inl e)
               | Inr RDemoted \<Rightarrow> Done (Inr ())
               | Inr RContinue \<Rightarrow> process_outcomes params pending) r,
          w', outcome_permit peer res sh)))"

definition replicate_to_peers :: "replication_round_params \<Rightarrow> node_id list \<Rightarrow> ('f shell, node_error + unit) task" where
  "replicate_to_peers params peer_ids = process_outcomes params (length peer_ids)"

definition initiate_replication :: "replication_round_params \<Rightarrow> node_id list \<Rightarrow> ('f shell, unit) task" where
  "initiate_replication params peer_ids = or_fatal_task (replicate_to_peers params peer_ids)"

end
