(* ===== verification/Task_Coverage.thy ===== *)
theory Task_Coverage
  imports Tasks Raft_Safety
begin

text \<open>
  The step relation of \<open>Replication\<close> covers what the tasks do. \<open>task_run\<close> runs one task of a node while
  the rest of the cluster takes any steps in between; the result is that a task started with its parameters never leaves
  the reachable states, so what \<open>Raft_Safety\<close> shows of them holds at every point of every task.

  Messages are in the network from the section on that fixed their content: \<open>publish\<close> adds the requests a task is about
  to send when the section before it ends.
\<close>

section \<open>A task among other steps\<close>

fun publish :: "node_id \<Rightarrow> ('x, 'a) task \<Rightarrow> repl_cluster \<Rightarrow> repl_cluster" where
  "publish i (Campaign p t) s = s\<lparr>core := emit i (Some p) (core s)\<rparr>"
| "publish i (CallAppend j q k) s = s\<lparr>appends := insert (i, j, q) (appends s)\<rparr>"
| "publish i _ s = s"

definition read_tally :: "node_id \<Rightarrow> nat \<Rightarrow> repl_cluster \<Rightarrow> repl_cluster" where
  "read_tally i v s = s\<lparr>core := (core s)\<lparr>tallies := insert (i, observe_tally v (nodes (core s) i)) (tallies (core s))\<rparr>\<rparr>"

definition vote_arrived :: "node_id \<Rightarrow> campaign_params \<Rightarrow> repl_cluster \<Rightarrow> node_id \<times> (status + request_vote_response response) \<Rightarrow> bool" where
  "vote_arrived i p s = (\<lambda>(j, ans). case ans of Inl _ \<Rightarrow> True | Inr resp \<Rightarrow> (j, i, cp_term p, resp_inner resp) \<in> responses (core s))"

definition answer_arrived :: "node_id \<Rightarrow> node_id \<Rightarrow> append_entries_request \<Rightarrow> repl_cluster \<Rightarrow> status + append_entries_response response \<Rightarrow> bool" where
  "answer_arrived i j q s ans = (case ans of Inl _ \<Rightarrow> True | Inr resp \<Rightarrow> (j, i, q, resp_inner resp) \<in> acks s)"

fun outcome_arrived ::
  "node_id \<Rightarrow> replication_round_params \<Rightarrow> repl_cluster \<Rightarrow> node_id \<times> (status + replication_outcome option) \<Rightarrow> bool" where
  "outcome_arrived i params s (j, Inr (Some (OAppendEntries prev len resp))) =
     (\<exists>q. (j, i, q, resp) \<in> acks s \<and> ae_term q = rr_term params \<and> prev = ae_prev_log_index q \<and> len = length (ae_entries q))"
| "outcome_arrived i params s (j, Inr (Some (OInstallSnapshot _ _))) = False"
| "outcome_arrived i params s (j, Inr None) = True"
| "outcome_arrived i params s (j, Inl _) = True"

inductive task_run ::
  "node_id list \<Rightarrow> (node_id \<Rightarrow> node_identity) \<Rightarrow> node_id \<Rightarrow> repl_cluster \<times> ('x, 'a) task \<Rightarrow> repl_cluster \<times> ('x, 'a) task option \<Rightarrow> bool"
  for ms ids i where
  begun: "task_run ms ids i (s, t) (s, Some t)"
| others: "task_run ms ids i st (s, t) \<Longrightarrow> repl_step ms ids s s' \<Longrightarrow> task_run ms ids i st (s', t)"
| ran: "task_run ms ids i st (s, Some (Locked f)) \<Longrightarrow> f (node_world s i, x) = (Inr t, w', x') \<Longrightarrow>
        task_run ms ids i st (publish i t (put_node i w' s), Some t)"
| panicked: "task_run ms ids i st (s, Some (Locked f)) \<Longrightarrow> f (node_world s i, x) = (Inl h, w', x') \<Longrightarrow>
        task_run ms ids i st (put_node i w' s, None)"
| pre_vote: "task_run ms ids i st (s, Some (AwaitPreVote k)) \<Longrightarrow> task_run ms ids i st (publish i (k m) s, Some (k m))"
| campaign: "task_run ms ids i st (s, Some (Campaign p t)) \<Longrightarrow> task_run ms ids i st (publish i t s, Some t)"
| vote: "task_run ms ids i st (s, Some (AwaitVote p k)) \<Longrightarrow> vote_arrived i p s m \<Longrightarrow>
        task_run ms ids i st (publish i (k m) s, Some (k m))"
| tally: "task_run ms ids i st (s, Some (ReadTally v k)) \<Longrightarrow>
        t = k (observe_tally v (nodes (core s) i)) \<Longrightarrow> task_run ms ids i st (publish i t (read_tally i v s), Some t)"
| outcome: "task_run ms ids i st (s, Some (AwaitOutcome p k)) \<Longrightarrow> outcome_arrived i p s m \<Longrightarrow>
        task_run ms ids i st (publish i (k m) s, Some (k m))"
| answer: "task_run ms ids i st (s, Some (CallAppend j q k)) \<Longrightarrow> answer_arrived i j q s a \<Longrightarrow>
        task_run ms ids i st (publish i (k a) s, Some (k a))"

section \<open>Covered tasks\<close>

definition later :: "repl_cluster \<Rightarrow> repl_cluster \<Rightarrow> bool" where
  "later s s' \<longleftrightarrow> responses (core s) \<subseteq> responses (core s') \<and> tallies (core s) \<subseteq> tallies (core s')
     \<and> rounds s \<subseteq> rounds s' \<and> acks s \<subseteq> acks s'"

text \<open>
  A task is covered from a state on when each of its sections, run at any later reachable state, is a sequence of
  steps of the cluster, and what it gives back satisfies \<open>post\<close>.
\<close>

inductive covered ::
  "node_id list \<Rightarrow> (node_id \<Rightarrow> node_identity) \<Rightarrow> node_id \<Rightarrow> (repl_cluster \<Rightarrow> 'a \<Rightarrow> bool) \<Rightarrow> repl_cluster \<Rightarrow> ('x, 'a) task \<Rightarrow> bool"
  for ms ids i post where
  finished: "post s a \<Longrightarrow> covered ms ids i post s (Done a)"
| locked: "\<lbrakk>\<And>s' x h w' x'. later s s' \<Longrightarrow> repl_reachable ms ids s' \<Longrightarrow> f (node_world s' i, x) = (Inl h, w', x') \<Longrightarrow>
        repl_steps ms ids s' (put_node i w' s');
      \<And>s' x t w' x'. later s s' \<Longrightarrow> repl_reachable ms ids s' \<Longrightarrow> f (node_world s' i, x) = (Inr t, w', x') \<Longrightarrow>
        repl_steps ms ids s' (publish i t (put_node i w' s'));
      \<And>s' x t w' x'. later s s' \<Longrightarrow> repl_reachable ms ids s' \<Longrightarrow> f (node_world s' i, x) = (Inr t, w', x') \<Longrightarrow>
        covered ms ids i post (publish i t (put_node i w' s')) t\<rbrakk>
    \<Longrightarrow> covered ms ids i post s (Locked f)"
| pre_vote: "\<lbrakk>\<And>s' m. later s s' \<Longrightarrow> publish i (k m) s' = s'; \<And>s' m. later s s' \<Longrightarrow> covered ms ids i post s' (k m)\<rbrakk>
    \<Longrightarrow> covered ms ids i post s (AwaitPreVote k)"
| campaign: "\<lbrakk>\<And>s'. publish i t s' = s'; covered ms ids i post s t\<rbrakk> \<Longrightarrow> covered ms ids i post s (Campaign p t)"
| vote: "\<lbrakk>\<And>s' m. later s s' \<Longrightarrow> publish i (k m) s' = s'; \<And>s' m. later s s' \<Longrightarrow> vote_arrived i p s' m \<Longrightarrow> covered ms ids i post s' (k m)\<rbrakk>
    \<Longrightarrow> covered ms ids i post s (AwaitVote p k)"
| tally: "\<lbrakk>(i, v) \<in> tallies (core s); \<And>s' v'. publish i (k v') s' = s';
      \<And>s' v'. later s s' \<Longrightarrow> (i, v') \<in> tallies (core s') \<Longrightarrow> covered ms ids i post s' (k v')\<rbrakk>
    \<Longrightarrow> covered ms ids i post s (ReadTally v k)"
| outcome: "\<lbrakk>\<And>s' m. later s s' \<Longrightarrow> publish i (k m) s' = s'; \<And>s' m. later s s' \<Longrightarrow> outcome_arrived i p s' m \<Longrightarrow> covered ms ids i post s' (k m)\<rbrakk>
    \<Longrightarrow> covered ms ids i post s (AwaitOutcome p k)"
| answer: "\<lbrakk>\<And>s' a. later s s' \<Longrightarrow> publish i (k a) s' = s'; \<And>s' a. later s s' \<Longrightarrow> answer_arrived i j q s' a \<Longrightarrow> covered ms ids i post s' (k a)\<rbrakk>
    \<Longrightarrow> covered ms ids i post s (CallAppend j q k)"

inductive_cases covered_LockedE: "covered ms ids i post s (Locked f)"
inductive_cases covered_PreVoteE: "covered ms ids i post s (AwaitPreVote k)"
inductive_cases covered_CampaignE: "covered ms ids i post s (Campaign p t)"
inductive_cases covered_VoteE: "covered ms ids i post s (AwaitVote p k)"
inductive_cases covered_TallyE: "covered ms ids i post s (ReadTally v k)"
inductive_cases covered_OutcomeE: "covered ms ids i post s (AwaitOutcome p k)"
inductive_cases covered_AnswerE: "covered ms ids i post s (CallAppend j q k)"
inductive_cases covered_DoneE: "covered ms ids i post s (Done a)"

lemma later_refl [simp]: "later s s"
  by (simp add: later_def)

lemma later_trans [trans]: "later s s' \<Longrightarrow> later s' s'' \<Longrightarrow> later s s''"
  by (auto simp: later_def)

lemma later_put [simp]: "later s (put_node i w s)"
  by (simp add: later_def put_def)

lemma later_publish [simp]: "later s (publish i t s)"
  by (cases t) (auto simp: later_def emit_def)

lemma later_read_tally [simp]: "later s (read_tally i v s)"
  by (auto simp: later_def read_tally_def)

lemma later_step: "repl_step ms ids s s' \<Longrightarrow> later s s'"
  by (erule repl_step.cases) (auto simp: later_def put_def emit_def split: option.splits sum.splits)

text \<open>Covered tasks stay covered as the cluster moves on.\<close>

definition lasting :: "(repl_cluster \<Rightarrow> 'a \<Rightarrow> bool) \<Rightarrow> bool" where
  "lasting post \<longleftrightarrow> (\<forall>s s' a. post s a \<longrightarrow> later s s' \<longrightarrow> post s' a)"

lemma covered_later:
  assumes "covered ms ids i post s t" "later s s'" "lasting post"
  shows "covered ms ids i post s' t"
  using assms
proof (induction arbitrary: s' rule: covered.induct)
  case (finished s a)
  then show ?case by (auto simp: lasting_def intro: covered.finished)
next
  case (locked s f)
  note L = later_trans[OF locked.prems(1)]
  show ?case
  proof (rule covered.locked)
    fix s1 x h w' x'
    assume "later s' s1" "repl_reachable ms ids s1" "f (node_world s1 i, x) = (Inl h, w', x')"
    then show "repl_steps ms ids s1 (put_node i w' s1)" by (rule locked.hyps(1)[OF L])
  next
    fix s1 x t w' x'
    assume "later s' s1" "repl_reachable ms ids s1" "f (node_world s1 i, x) = (Inr t, w', x')"
    then show "repl_steps ms ids s1 (publish i t (put_node i w' s1))" by (rule locked.hyps(2)[OF L])
  next
    fix s1 x t w' x'
    assume "later s' s1" "repl_reachable ms ids s1" "f (node_world s1 i, x) = (Inr t, w', x')"
    then show "covered ms ids i post (publish i t (put_node i w' s1)) t" by (rule locked.hyps(3)[OF L])
  qed
next
  case (pre_vote s k)
  note L = later_trans[OF pre_vote.prems(1)]
  show ?case by (rule covered.pre_vote) (rule pre_vote.hyps[OF L], assumption)+
next
  case (campaign t s p)
  show ?case by (rule covered.campaign) (rule campaign.hyps, rule campaign.IH[OF campaign.prems])
next
  case (vote s k p)
  note L = later_trans[OF vote.prems(1)]
  show ?case by (rule covered.vote) (rule vote.hyps[OF L], assumption+)+
next
  case (tally v s k)
  note L = later_trans[OF tally.prems(1)]
  have "(i, v) \<in> tallies (core s')" using tally.hyps(1) tally.prems(1) by (auto simp: later_def)
  then show ?case by (rule covered.tally) (rule tally.hyps(2), rule tally.hyps(3)[OF L], assumption+)
next
  case (outcome s k p)
  note L = later_trans[OF outcome.prems(1)]
  show ?case by (rule covered.outcome) (rule outcome.hyps[OF L], assumption+)+
next
  case (answer s k j q)
  note L = later_trans[OF answer.prems(1)]
  show ?case by (rule covered.answer) (rule answer.hyps[OF L], assumption+)+
qed

section \<open>Runs of covered tasks\<close>

lemma repl_steps_trans: "repl_steps ms ids s' s'' \<Longrightarrow> repl_steps ms ids s s' \<Longrightarrow> repl_steps ms ids s s''"
  by (induction rule: repl_steps.induct) (auto intro: repl_steps.extend)

lemma task_run_covered:
  assumes "task_run ms ids i st st'" "repl_reachable ms ids (fst st)" "covered ms ids i post (fst st) (snd st)" "lasting post" "i \<in> set ms"
  shows "repl_steps ms ids (fst st) (fst st') \<and> (\<forall>t. snd st' = Some t \<longrightarrow> covered ms ids i post (fst st') t)"
  using assms
proof (induction rule: task_run.induct)
  case (begun s t)
  then show ?case by (simp add: repl_steps.stay)
next
  case (others st s t s')
  then have r: "repl_steps ms ids (fst st) s" "\<And>t'. t = Some t' \<Longrightarrow> covered ms ids i post s t'" by simp_all
  from r(2) have "covered ms ids i post s' t'" if "t = Some t'" for t'
    using covered_later[OF _ later_step[OF others(2)] others.prems(3)] that by blast
  with repl_steps.extend[OF r(1) others(2)] show ?case by simp
next
  case (ran st s f x t w' x')
  then have r: "repl_steps ms ids (fst st) s" "covered ms ids i post s (Locked f)" by simp_all
  note reach = repl_steps_reachable[OF r(1) ran.prems(1)]
  from r(2) show ?case
    by (rule covered_LockedE) (use ran(2) later_refl reach repl_steps_trans[OF _ r(1)] in simp)
next
  case (panicked st s f x h w' x')
  then have r: "repl_steps ms ids (fst st) s" "covered ms ids i post s (Locked f)" by simp_all
  note reach = repl_steps_reachable[OF r(1) panicked.prems(1)]
  from r(2) show ?case
    by (rule covered_LockedE) (use panicked(2) later_refl reach repl_steps_trans[OF _ r(1)] in simp)
next
  case (pre_vote st s k m)
  then have r: "repl_steps ms ids (fst st) s" "covered ms ids i post s (AwaitPreVote k)" by simp_all
  from r(2) show ?case by (rule covered_PreVoteE) (use r(1) in simp)
next
  case (campaign st s p t)
  then have r: "repl_steps ms ids (fst st) s" "covered ms ids i post s (Campaign p t)" by simp_all
  from r(2) show ?case by (rule covered_CampaignE) (use r(1) in simp)
next
  case (vote st s p k m)
  then have r: "repl_steps ms ids (fst st) s" "covered ms ids i post s (AwaitVote p k)" by simp_all
  from r(2) show ?case by (rule covered_VoteE) (use r(1) vote(2) in simp)
next
  case (tally st s v k t)
  then have r: "repl_steps ms ids (fst st) s" "covered ms ids i post s (ReadTally v k)" by simp_all
  let ?v = "observe_tally v (nodes (core s) i)"
  from r(2) show ?case
  proof (rule covered_TallyE)
    assume a: "(i, v) \<in> tallies (core s)" "\<And>s' v'. publish i (k v') s' = s'"
      "\<And>s' v'. later s s' \<Longrightarrow> (i, v') \<in> tallies (core s') \<Longrightarrow> covered ms ids i post s' (k v')"
    have "repl_steps ms ids (fst st) (read_tally i v s)"
      unfolding read_tally_def by (rule repl_steps.extend[OF r(1)], rule repl_step.tally_read[OF tally.prems(4) a(1)])
    moreover have "(i, ?v) \<in> tallies (core (read_tally i v s))" by (simp add: read_tally_def)
    ultimately show ?thesis using a(2,3) tally(2) by simp
  qed
next
  case (outcome st s p k m)
  then have r: "repl_steps ms ids (fst st) s" "covered ms ids i post s (AwaitOutcome p k)" by simp_all
  from r(2) show ?case by (rule covered_OutcomeE) (use r(1) outcome(2) in simp)
next
  case (answer st s j q k a)
  then have r: "repl_steps ms ids (fst st) s" "covered ms ids i post s (CallAppend j q k)" by simp_all
  from r(2) show ?case by (rule covered_AnswerE) (use r(1) answer(2) in simp)
qed

section \<open>Sections of the tasks\<close>

lemma one_step: "repl_step ms ids s s' \<Longrightarrow> repl_steps ms ids s s'"
  by (rule repl_steps.extend[OF repl_steps.stay])

lemma own_section:
  assumes "i \<in> set ms" "local_only sec" "run_section (ids i) (peers_of ms i) sec (node_world s i) = (c, w')"
  shows "repl_steps ms ids s (s\<lparr>core := emit i c (put i w' (core s))\<rparr>)"
  by (rule one_step, rule repl_step.local_step[where ids = ids, OF assms])

lemma idle_section:
  assumes "i \<in> set ms"
  shows "repl_steps ms ids s (put_node i (node_world s i) s)"
proof -
  have "(nodes (core s) i, (disks (core s) i)\<lparr>io_fails := io_fails (disks (core s) i)\<rparr>) = node_world s i"
    by (simp add: node_world_def world_of_def)
  then show ?thesis using one_step[OF repl_step.storage_fault[where s = s and ids = ids, OF assms]] by metis
qed

lemma fatal_section:
  assumes "i \<in> set ms"
  shows "repl_steps ms ids s (put_node i (set_role Poisoned (node_world s i)) s)"
proof -
  have "run_section (ids i) (peers_of ms i) (LFatal e) (node_world s i) = (None, set_role Poisoned (node_world s i))" for e
    by (simp add: apply_fatal_def)
  from own_section[where ids = ids, OF assms _ this] show ?thesis by (simp add: put_node_def)
qed

lemma delegate_read_cases: "delegate_read f w = (r, w') \<Longrightarrow> w' = w \<or> w' = set_role Poisoned w"
  by (auto simp: delegate_read_def apply_fatal_def split: if_splits sum.splits)

lemma read_section:
  assumes "i \<in> set ms" "w' = node_world s i \<or> w' = set_role Poisoned (node_world s i)"
  shows "repl_steps ms ids s (put_node i w' s)"
  using assms(2) idle_section[where ids = ids and s = s, OF assms(1)] fatal_section[where ids = ids and s = s, OF assms(1)] by auto

lemma covered_locked:
  assumes "\<And>s' r w'. later s s' \<Longrightarrow> repl_reachable ms ids s' \<Longrightarrow> h (node_world s' i) = (r, w') \<Longrightarrow>
      repl_steps ms ids s' (case r of Inl _ \<Rightarrow> put_node i w' s' | Inr a \<Rightarrow> publish i (k a) (put_node i w' s'))"
    and "\<And>s' a w'. later s s' \<Longrightarrow> repl_reachable ms ids s' \<Longrightarrow> h (node_world s' i) = (Inr a, w') \<Longrightarrow>
      covered ms ids i post (publish i (k a) (put_node i w' s')) (k a)"
  shows "covered ms ids i post s (locked h k)"
  unfolding locked_def
proof (rule covered.locked)
  fix s' :: repl_cluster and x :: 'd and e w' x'
  assume "later s s'" "repl_reachable ms ids s'" "(case (node_world s' i, x) of (w, x) \<Rightarrow> case h w of (r, w') \<Rightarrow> (map_sum (\<lambda>e. e) k r, w', x)) = (Inl e, w', x')"
  then show "repl_steps ms ids s' (put_node i w' s')"
    using assms(1)[of s' "Inl e" w'] by (auto split: prod.splits sum.splits simp: map_sum_def)
next
  fix s' :: repl_cluster and x :: 'd and t w' x'
  assume a: "later s s'" "repl_reachable ms ids s'" "(case (node_world s' i, x) of (w, x) \<Rightarrow> case h w of (r, w') \<Rightarrow> (map_sum (\<lambda>e. e) k r, w', x)) = (Inr t, w', x')"
  then obtain b where b: "h (node_world s' i) = (Inr b, w')" "t = k b"
    by (auto split: prod.splits sum.splits simp: map_sum_def)
  show "repl_steps ms ids s' (publish i t (put_node i w' s'))" using assms(1)[OF a(1,2) b(1)] b(2) by simp
  show "covered ms ids i post (publish i t (put_node i w' s')) t" using assms(2)[OF a(1,2) b(1)] b(2) by simp
qed

lemma publish_locked [simp]: "publish i (locked h k) s = s"
  by (simp add: locked_def)

lemma publish_bind:
  assumes "\<And>a s. publish i (k a) s = s"
  shows "publish i (task_bind t k) s = publish i t s"
  using assms by (cases t) simp_all

lemma covered_bind:
  assumes "covered ms ids i post s t" "\<And>a s. publish i (k a) s = s"
    "\<And>s' a. later s s' \<Longrightarrow> post s' a \<Longrightarrow> covered ms ids i post' s' (k a)"
  shows "covered ms ids i post' s (task_bind t k)"
  using assms(1,3)
proof (induction rule: covered.induct)
  case (finished s a)
  then show ?case by simp
next
  case (locked s f)
  have p: "publish i (task_bind t k) s = publish i t s" for t s by (rule publish_bind[OF assms(2)])
  show ?case
    unfolding task_bind.simps
  proof (rule covered.locked)
    fix s' x h w' x'
    assume "later s s'" "repl_reachable ms ids s'"
      "map_prod (map_sum (\<lambda>h. h) (\<lambda>t. task_bind t k)) (\<lambda>s. s) (f (node_world s' i, x)) = (Inl h, w', x')"
    then show "repl_steps ms ids s' (put_node i w' s')"
      by (cases "f (node_world s' i, x)") (auto simp: map_sum_def split: sum.splits intro: locked.hyps(1))
  next
    fix s' x t w' x'
    assume a: "later s s'" "repl_reachable ms ids s'"
      "map_prod (map_sum (\<lambda>h. h) (\<lambda>t. task_bind t k)) (\<lambda>s. s) (f (node_world s' i, x)) = (Inr t, w', x')"
    then obtain u where u: "f (node_world s' i, x) = (Inr u, w', x')" "t = task_bind u k"
      by (cases "f (node_world s' i, x)") (auto simp: map_sum_def split: sum.splits)
    show "repl_steps ms ids s' (publish i t (put_node i w' s'))"
      using locked.hyps(2)[OF a(1,2) u(1)] by (simp add: u(2) p)
    have l: "later s (publish i u (put_node i w' s'))"
      using a(1) later_put later_publish later_trans by metis
    show "covered ms ids i post' (publish i t (put_node i w' s')) t"
      unfolding u(2) p
      by (rule locked.IH[OF a(1,2) u(1)]) (rule locked.prems, erule later_trans[OF l])
  qed
next
  case (pre_vote s f)
  show ?case unfolding task_bind.simps
    by (rule covered.pre_vote) (use pre_vote.hyps(1) in \<open>simp add: publish_bind[OF assms(2)]\<close>,
        rule pre_vote.IH, assumption, rule pre_vote.prems, erule later_trans, assumption+)
next
  case (campaign t s p)
  show ?case unfolding task_bind.simps
    by (rule covered.campaign) (use campaign.hyps(1) in \<open>simp add: publish_bind[OF assms(2)]\<close>, rule campaign.IH[OF campaign.prems])
next
  case (vote s f p)
  show ?case unfolding task_bind.simps
    by (rule covered.vote) (use vote.hyps(1) in \<open>simp add: publish_bind[OF assms(2)]\<close>,
        rule vote.IH, assumption+, rule vote.prems, erule later_trans, assumption+)
next
  case (tally v s f)
  show ?case unfolding task_bind.simps
    by (rule covered.tally[OF tally.hyps(1)]) (use tally.hyps(2) in \<open>simp add: publish_bind[OF assms(2)]\<close>,
        rule tally.IH, assumption+, rule tally.prems, erule later_trans, assumption+)
next
  case (outcome s f p)
  show ?case unfolding task_bind.simps
    by (rule covered.outcome) (use outcome.hyps(1) in \<open>simp add: publish_bind[OF assms(2)]\<close>,
        rule outcome.IH, assumption+, rule outcome.prems, erule later_trans, assumption+)
next
  case (answer s f j q)
  show ?case unfolding task_bind.simps
    by (rule covered.answer) (use answer.hyps(1) in \<open>simp add: publish_bind[OF assms(2)]\<close>,
        rule answer.IH, assumption+, rule answer.prems, erule later_trans, assumption+)
qed

lemma or_fatal_quiet: "publish i (case r of Inr u \<Rightarrow> Done () | Inl e \<Rightarrow> locked (apply_fatal e) Done) s = s"
  by (cases r) simp_all

lemma covered_fatal:
  assumes "i \<in> set ms"
  shows "covered ms ids i post s (locked (apply_fatal e) (k :: 'b \<Rightarrow> ('x, 'c) task))"
proof (rule covered_locked)
  fix s' and r :: "halt + 'b" and w'
  assume "apply_fatal e (node_world s' i) = (r, w')"
  then have "r = Inl (Halt e)" "w' = set_role Poisoned (node_world s' i)" by (simp_all add: apply_fatal_def)
  with fatal_section[OF assms] show "repl_steps ms ids s' (case r of Inl _ \<Rightarrow> put_node i w' s' | Inr a \<Rightarrow> publish i (k a) (put_node i w' s'))"
    by simp
qed (simp add: apply_fatal_def)

lemma covered_or_fatal:
  assumes "covered ms ids i (\<lambda>_ _. True) s t" "i \<in> set ms"
  shows "covered ms ids i (\<lambda>_ _. True) s (or_fatal_task t)"
  unfolding or_fatal_task_def
proof (rule covered_bind[OF assms(1) or_fatal_quiet])
  fix s' and r :: "node_error + unit"
  show "covered ms ids i (\<lambda>_ _. True) s' (case r of Inr u \<Rightarrow> Done () | Inl e \<Rightarrow> locked (apply_fatal e) Done)"
    using covered_fatal[OF assms(2)] by (cases r) (auto intro!: covered.finished)
qed

section \<open>Election tasks\<close>

lemma quorum_finish: "quorum_size ps \<le> v \<Longrightarrow> finish_election v ps = into_leader ps"
  by (auto simp: finish_election_def st_bind_def st_gets_def st_return_def into_leader_def fun_eq_iff split: role_state.splits)

lemma is_candidate_section: "is_candidate w = (r, w') \<Longrightarrow> w' = w"
  by (auto simp: is_candidate_def st_gets_def)

lemma try_term_section: "ln_try_current_term w = (r, w') \<Longrightarrow> w' = w"
  by (auto simp: ln_try_current_term_def split: if_splits)

lemma publish_votes [simp]: "publish i (tally_votes tr p ps n v) s = s" "publish i (after_votes ps v) s = s"
  by (cases n; simp add: after_votes_def Let_def)+

lemma covered_after_votes:
  assumes "i \<in> set ms" "(i, v) \<in> tallies (core s)"
  shows "covered ms ids i (\<lambda>_ _. True) s (after_votes (peers_of ms i) v)"
proof -
  have still: "covered ms ids i (\<lambda>_ _. True) s' (locked ln_try_current_term (\<lambda>r. Done (map_ok (\<lambda>_. ()) r)))" for s'
    by (rule covered_locked) (auto dest!: try_term_section intro: idle_section[OF assms(1)] covered.finished split: sum.splits)
  have win: "covered ms ids i (\<lambda>_ _. True) s' (locked (into_leader (peers_of ms i)) (\<lambda>_. Done (Inr ())))"
    if "later s s'" "quorum_size (peers_of ms i) \<le> v" for s'
  proof (rule covered_locked)
    fix s1 r w'
    assume a: "later s' s1" "into_leader (peers_of ms i) (node_world s1 i) = (r, w')"
    have "(i, v) \<in> tallies (core s1)" using assms(2) that(1) a(1) by (auto simp: later_def)
    from one_step[OF repl_step.election_end[where ids = ids, OF assms(1) this]] a(2)
    show "repl_steps ms ids s1 (case r of Inl _ \<Rightarrow> put_node i w' s1 | Inr a \<Rightarrow> publish i (Done (Inr ())) (put_node i w' s1))"
      by (simp add: quorum_finish[OF that(2)] split: sum.splits)
  qed (rule covered.finished, simp)
  show ?thesis
  proof (cases "quorum_size (peers_of ms i) \<le> v")
    case True
    have "covered ms ids i (\<lambda>_ _. True) s (locked is_candidate
        (\<lambda>c. if c then locked (into_leader (peers_of ms i)) (\<lambda>_. Done (Inr ()))
              else locked ln_try_current_term (\<lambda>r. Done (map_ok (\<lambda>_. ()) r))))"
      by (rule covered_locked)
        (auto dest!: is_candidate_section intro: idle_section[OF assms(1)] still intro!: win[OF later_trans True] split: sum.splits)
    with True show ?thesis by (simp add: after_votes_def Let_def)
  qed (simp add: after_votes_def Let_def still)
qed

lemma vote_section:
  assumes "i \<in> set ms" "vote_arrived i p s (j, ans)"
    "process_vote_response (cp_term p) (peers_of ms i) j (request_vote_from_peer tr ans) (node_world s i) = (r, w')"
  shows "repl_steps ms ids s (put_node i w' s)"
proof (cases "request_vote_from_peer tr ans")
  case (Inl e)
  then show ?thesis using assms(3) idle_section[OF assms(1)] by (auto simp: process_vote_response_def st_return_def)
next
  case (Inr resp)
  then have "(j, i, cp_term p, resp) \<in> responses (core s)"
    using assms(2) by (cases ans) (auto simp: vote_arrived_def request_vote_from_peer_def res_bind_Inr_iff)
  from one_step[OF repl_step.vote_response[where ids = ids, OF assms(1) this assms(3)[unfolded Inr]]] show ?thesis .
qed

lemma covered_votes:
  assumes "i \<in> set ms" "(i, v) \<in> tallies (core s)"
  shows "covered ms ids i (\<lambda>_ _. True) s (tally_votes tr p (peers_of ms i) n v :: ('x, node_error + unit) task)"
  using assms(2)
proof (induction n arbitrary: s v)
  case 0
  then show ?case by (simp add: covered_after_votes[OF assms(1)])
next
  case (Suc n)
  let ?k = "\<lambda>action. (case action of QuorumReached \<Rightarrow> Done (Inr ()) | VDemoted \<Rightarrow> Done (Inr ())
      | VContinue \<Rightarrow> ReadTally v (tally_votes tr p (peers_of ms i) n)) :: ('x, node_error + unit) task"
  have quiet: "publish i (?k a) s' = s'" for a s' by (cases a) simp_all
  have rest: "covered ms ids i (\<lambda>_ _. True) s' (?k a)" if "later s s'" for a s'
  proof (cases a)
    case VContinue
    have "(i, v) \<in> tallies (core s')" using Suc.prems that by (auto simp: later_def)
    then show ?thesis using VContinue by (auto intro!: covered.tally Suc.IH)
  qed (auto intro: covered.finished)
  show ?case
    unfolding tally_votes.simps
  proof (rule covered.vote)
    fix s1 and m :: "node_id \<times> (status + request_vote_response response)"
    obtain j ans where m: "m = (j, ans)" by fastforce
    assume a: "later s s1" "vote_arrived i p s1 m"
    have "covered ms ids i (\<lambda>_ _. True) s1 (locked (process_vote_response (cp_term p) (peers_of ms i) j (request_vote_from_peer tr ans)) ?k)"
    proof (rule covered_locked)
      fix s2 r w'
      assume b: "later s1 s2" "process_vote_response (cp_term p) (peers_of ms i) j (request_vote_from_peer tr ans) (node_world s2 i) = (r, w')"
      have "vote_arrived i p s2 (j, ans)" using a(2) b(1) by (auto simp: m vote_arrived_def later_def split: sum.splits)
      from vote_section[OF assms(1) this b(2)] quiet
      show "repl_steps ms ids s2 (case r of Inl _ \<Rightarrow> put_node i w' s2 | Inr a \<Rightarrow> publish i (?k a) (put_node i w' s2))"
        by (simp split: sum.splits)
    next
      fix s2 c w'
      assume "later s1 s2"
      with a(1) show "covered ms ids i (\<lambda>_ _. True) (publish i (?k c) (put_node i w' s2)) (?k c)"
        unfolding quiet by (intro rest) (meson later_trans later_put)
    qed
    then show "covered ms ids i (\<lambda>_ _. True) s1 (case m of (peer, ans) \<Rightarrow> locked (process_vote_response (cp_term p) (peers_of ms i) peer (request_vote_from_peer tr ans)) ?k)"
      by (simp add: m)
  qed (simp split: prod.splits)
qed

section \<open>Pre-vote tasks\<close>

lemma covered_election:
  assumes "i \<in> set ms" "(i, 1) \<in> tallies (core s)"
  shows "covered ms ids i (\<lambda>_ _. True) s (initiate_election tr p (peers_of ms i))"
  unfolding initiate_election_def by (rule covered.campaign) (simp, rule covered_votes[OF assms])

lemma covered_pre_vote_won:
  assumes "i \<in> set ms"
  shows "covered ms ids i (\<lambda>_ _. True) s
    (locked pre_vote_won (\<lambda>p. initiate_election tr p (peers_of ms i)) :: ('x, node_error + unit) task)"
proof (rule covered_locked)
  fix s' and r :: "halt + campaign_params" and w'
  assume a: "pre_vote_won (node_world s' i) = (r, w')"
  have "run_section (ids i) (peers_of ms i) (LFinishPreVote (quorum_size (peers_of ms i))) (node_world s' i)
      = (case r of Inr p \<Rightarrow> Some p | _ \<Rightarrow> None, w')"
    using a by (simp add: finish_pre_vote_def st_bind_def st_return_def split: sum.splits)
  from own_section[where ids = ids, OF assms _ this]
  show "repl_steps ms ids s' (case r of Inl _ \<Rightarrow> put_node i w' s'
      | Inr p \<Rightarrow> publish i (initiate_election tr p (peers_of ms i) :: ('x, node_error + unit) task) (put_node i w' s'))"
    by (cases r) (simp_all add: put_node_def initiate_election_def)
next
  fix s' and p :: campaign_params and w'
  show "covered ms ids i (\<lambda>_ _. True)
      (publish i (initiate_election tr p (peers_of ms i) :: ('x, node_error + unit) task) (put_node i w' s'))
      (initiate_election tr p (peers_of ms i) :: ('x, node_error + unit) task)"
    by (rule covered_election[OF assms]) (simp add: initiate_election_def emit_def)
qed

lemma step_down_ungranted:
  "pre_vote_step_down t (map_sum (\<lambda>e. e) (\<lambda>resp. resp\<lparr>rvr_vote_granted := False\<rparr>) res) = pre_vote_step_down t res"
  by (cases res) (simp_all add: pre_vote_step_down_def cong: if_cong)

lemma step_down_covered:
  fixes res :: "status + request_vote_response"
  assumes "i \<in> set ms" "pre_vote_step_down t res (node_world s i) = (r, w')"
  shows "repl_steps ms ids s (put_node i w' s)"
proof -
  let ?res = "map_sum (\<lambda>e. e) (\<lambda>resp. resp\<lparr>rvr_vote_granted := False\<rparr>) res :: status + request_vote_response"
  have "\<not> process_pre_vote_response ?res" by (cases res) (simp_all add: process_pre_vote_response_def)
  then have "run_section (ids i) (peers_of ms i) (LPreVoteResponse t 0 ?res) (node_world s i) = (None, w')"
    using assms(2) by (auto simp: on_pre_vote_response_def st_bind_def st_return_def step_down_ungranted split: sum.splits)
  from own_section[where ids = ids, OF assms(1) _ this] show ?thesis by (simp add: put_node_def)
qed

lemma current_term_covered:
  assumes "i \<in> set ms" "ln_current_term (node_world s i) = (r, w')"
  shows "repl_steps ms ids s (put_node i w' s)"
  using read_section[OF assms(1)] delegate_read_cases[OF assms(2)[unfolded ln_current_term_def]] by blast

lemma publish_pre_votes [simp]: "publish i (tally_pre_votes tr tr' p ps n v) s = s" "publish i (after_pre_votes tr' ps v) s = s"
  by (cases n; simp add: after_pre_votes_def)+

lemma covered_pre_votes:
  assumes "i \<in> set ms"
  shows "covered ms ids i (\<lambda>_ _. True) s (tally_pre_votes tr tr' p (peers_of ms i) n v :: ('x, node_error + unit) task)"
proof (induction n arbitrary: s v)
  case 0
  have "covered ms ids i (\<lambda>_ _. True) s (locked ln_current_term (\<lambda>_. Done (Inr ())) :: ('x, node_error + unit) task)"
    by (rule covered_locked) (auto intro: current_term_covered[OF assms] covered.finished split: sum.splits)
  then show ?case by (simp add: after_pre_votes_def covered_pre_vote_won[OF assms])
next
  case (Suc n)
  let ?k = "\<lambda>res stepped_down. (if stepped_down then Done (Inr ())
      else if process_pre_vote_response res then
        (if v + 1 \<ge> quorum_size (peers_of ms i) then locked pre_vote_won (\<lambda>params'. initiate_election tr' params' (peers_of ms i))
         else tally_pre_votes tr tr' p (peers_of ms i) n (v + 1))
      else tally_pre_votes tr tr' p (peers_of ms i) n v) :: ('x, node_error + unit) task"
  have quiet: "publish i (?k res b) s' = s'" for res :: "status + request_vote_response" and b s' by simp
  show ?case
    unfolding tally_pre_votes.simps
  proof (rule covered.pre_vote)
    fix s1 and m :: "node_id \<times> (status + request_vote_response response)"
    obtain j ans where m: "m = (j, ans)" by fastforce
    define res where "res = request_vote_from_peer tr ans"
    have "covered ms ids i (\<lambda>_ _. True) s1 (locked (pre_vote_step_down (cp_term p) res) (?k res))"
    proof (rule covered_locked)
      fix s2 and r :: "halt + bool" and w'
      assume "pre_vote_step_down (cp_term p) res (node_world s2 i) = (r, w')"
      from step_down_covered[OF assms this] quiet
      show "repl_steps ms ids s2 (case r of Inl _ \<Rightarrow> put_node i w' s2 | Inr b \<Rightarrow> publish i (?k res b) (put_node i w' s2))"
        by (auto split: sum.splits)
    next
      fix s2 b w'
      show "covered ms ids i (\<lambda>_ _. True) (publish i (?k res b) (put_node i w' s2)) (?k res b)"
        unfolding quiet by (auto intro: covered.finished covered_pre_vote_won[OF assms] Suc.IH)
    qed
    then show "covered ms ids i (\<lambda>_ _. True) s1 (case m of (peer, ans) \<Rightarrow> let res = request_vote_from_peer tr ans in
        locked (pre_vote_step_down (cp_term p) res) (?k res))"
      by (simp only: m res_def Let_def prod.case)
  qed (simp add: Let_def split: prod.splits)
qed

section \<open>Replication tasks\<close>

lemma outcome_section:
  assumes "i \<in> set ms" "outcome_arrived i params s (j, res)"
    "process_replication_response (rr_term params) j res (node_world s i) = (r, w')"
  shows "repl_steps ms ids s (put_node i w' s)"
proof -
  consider "r = Inr (Inr RContinue)" "w' = node_world s i" | prev len resp where "res = Inr (Some (OAppendEntries prev len resp))"
    using assms(2,3)
  proof (cases "(i, params, s, j, res)" rule: outcome_arrived.cases)
    case (1 i' params' s' j' prev len resp)
    then show thesis using that(2) by simp
  qed (auto simp: process_replication_response_def st_return_def)
  then show ?thesis
  proof cases
    case 1
    then show ?thesis using idle_section[OF assms(1)] by simp
  next
    case 2
    then obtain q where q: "(j, i, q, resp) \<in> acks s" "ae_term q = rr_term params" "prev = ae_prev_log_index q" "len = length (ae_entries q)"
      using assms(2) by auto
    have "process_replication_response (ae_term q) j
        (Inr (Some (OAppendEntries (ae_prev_log_index q) (length (ae_entries q)) resp)) :: status + replication_outcome option)
        (node_world s i) = (r, w')"
      using assms(3) 2 q(2-4) by simp
    from one_step[OF repl_step.ack[where ids = ids, OF assms(1) q(1) this]] show ?thesis .
  qed
qed

lemma outcome_later: "outcome_arrived i params s m \<Longrightarrow> later s s' \<Longrightarrow> outcome_arrived i params s' m"
  by (cases "(i, params, s, m)" rule: outcome_arrived.cases) (auto simp: later_def)

lemma publish_outcomes [simp]: "publish i (process_outcomes p n) s = s"
  by (cases n) simp_all

lemma covered_outcomes:
  assumes "i \<in> set ms"
  shows "covered ms ids i (\<lambda>_ _. True) s (process_outcomes params n :: ('f shell, node_error + unit) task)"
proof (induction n arbitrary: s)
  case 0
  then show ?case by (simp add: covered.finished)
next
  case (Suc n)
  let ?k = "\<lambda>action. (case action of Inl e \<Rightarrow> Done (Inl e) | Inr RDemoted \<Rightarrow> Done (Inr ()) | Inr RContinue \<Rightarrow> process_outcomes params n)
      :: ('f shell, node_error + unit) task"
  have quiet: "publish i (?k a) s' = s'" for a s' by (cases a) (simp_all split: replication_action.splits)
  have rest: "covered ms ids i (\<lambda>_ _. True) s' (?k a)" for a s'
    by (cases a) (auto intro: covered.finished Suc.IH split: replication_action.splits)
  show ?case
    unfolding process_outcomes.simps
  proof (rule covered.outcome)
    fix s1 and m :: "node_id \<times> (status + replication_outcome option)"
    obtain j res where m: "m = (j, res)" by fastforce
    assume a: "outcome_arrived i params s1 m"
    let ?f = "\<lambda>(w, sh :: 'f shell). case process_replication_response (rr_term params) j res w of
        (r, w') \<Rightarrow> (map_sum (\<lambda>e. e) ?k r, w', outcome_permit j res sh)"
    have "covered ms ids i (\<lambda>_ _. True) s1 (Locked ?f)"
    proof (rule covered.locked)
      fix s2 and x :: "'f shell" and h w' x'
      assume b: "later s1 s2" "?f (node_world s2 i, x) = (Inl h, w', x')"
      then have "process_replication_response (rr_term params) j res (node_world s2 i) = (Inl h, w')"
        by (auto simp: map_sum_def split: prod.splits sum.splits)
      from outcome_section[OF assms _ this] show "repl_steps ms ids s2 (put_node i w' s2)"
        using outcome_later[OF a b(1)] m by simp
    next
      fix s2 and x :: "'f shell" and t w' x'
      assume b: "later s1 s2" "?f (node_world s2 i, x) = (Inr t, w', x')"
      then obtain c where c: "process_replication_response (rr_term params) j res (node_world s2 i) = (Inr c, w')" "t = ?k c"
        by (auto simp: map_sum_def split: prod.splits sum.splits)
      from outcome_section[OF assms _ c(1)] show "repl_steps ms ids s2 (publish i t (put_node i w' s2))"
        using outcome_later[OF a b(1)] m by (simp add: c(2) quiet)
      show "covered ms ids i (\<lambda>_ _. True) (publish i t (put_node i w' s2)) t"
        unfolding c(2) by (rule rest)
    qed
    then show "covered ms ids i (\<lambda>_ _. True) s1 (case m of (peer, res) \<Rightarrow> Locked (\<lambda>(w, sh). case process_replication_response (rr_term params) peer res w of
         (r, w') \<Rightarrow> (map_sum (\<lambda>e. e) ?k r, w', outcome_permit peer res sh)))"
      by (simp add: m)
  qed (simp split: prod.splits)
qed

text \<open>Without compaction a leader never falls back to a snapshot.\<close>

lemma prepare_no_snapshot:
  assumes "repl_reachable ms ids s" "i \<in> set ms"
  shows "prepare_replication j params (node_world s i) \<noteq> (Inr (Some (SInstallSnapshot idx t)), w')"
proof
  assume "prepare_replication j params (node_world s i) = (Inr (Some (SInstallSnapshot idx t)), w')"
  then have d: "determine_replication_strategy j params (node_world s i) = (Inr (Inr (Some (SInstallSnapshot idx t))), w')"
    by (auto simp: prepare_replication_def apply_fatal_def elim!: st_bind_InrE split: sum.splits)
  from sim_reachable[OF assms(1)] obtain a where "sim ms s a" by blast
  note D = node_simD[OF simD(2)[OF this assms(2)]]
  obtain n where n: "role (fst (node_world s i)) = Leader n"
    using d by (auto simp: determine_replication_strategy_def split: role_state.splits)
  have pos: "0 < get_or (next_index (state n)) j 1"
    using D(11)[OF n] by (auto simp: leader_sim_def get_or_def split: option.splits)
  have snap: "li = 0" if "ln_last_included_index (node_world s i) = (Inr li, w1)" for li w1
    using that plainD(2)[OF D(3)]
    by (auto simp: ln_last_included_index_def delegate_read_def apply_fatal_def node_read_Inr split: if_splits sum.splits
        dest!: sled_last_included_index_Inr)
  from d n pos show False
    by (auto simp: determine_replication_strategy_def map_ok_def elim!: st_bind_InrE dest!: snap split: if_splits sum.splits)
qed

lemma append_request_term:
  "prepare_replication j params w = (Inr (Some (SAppendEntries q)), w') \<Longrightarrow> ae_term q = rr_term params"
  by (erule prepare_append) (simp add: new_append_entries_request_def)

lemma same_appends: "(put_node i w s)\<lparr>appends := appends s\<rparr> = put_node i w s"
  by (simp add: put_node_def)

lemma lasting_outcome: "lasting (outcome_arrived i params)"
  by (auto simp: lasting_def intro: outcome_later)

lemma covered_attempt:
  fixes snap :: "'f \<Rightarrow> fsm_error + bytes"
  assumes "i \<in> set ms" "j \<in> set (peers_of ms i)" "(i, params) \<in> rounds s"
  shows "covered ms ids i (outcome_arrived i params) s (prepare_and_replicate_to_peer snap tr j params)"
  unfolding prepare_and_replicate_to_peer_def
proof (rule covered_locked)
  let ?k = "\<lambda>strategy. (case strategy of
            None \<Rightarrow> Done (j, Inr None)
          | Some (SAppendEntries req) \<Rightarrow> replicate_to_peer tr j req (\<lambda>res. Done (j, res))
          | Some (SInstallSnapshot last_included_index last_included_term) \<Rightarrow>
              Locked (\<lambda>(w, sh). case try_acquire_snapshot_permit j (sh_permits sh) of
                (True, permits) \<Rightarrow>
                  (Inr (replicate_snapshot_to_peer snap tr j params last_included_index last_included_term),
                   w, sh\<lparr>sh_permits := permits\<rparr>)
              | (False, _) \<Rightarrow> (Inr (heartbeat_probe tr j params), w, sh))) :: ('f shell, node_id \<times> (status + replication_outcome option)) task"
  fix s' assume l: "later s s'" and reach: "repl_reachable ms ids s'"
  have rd: "(i, params) \<in> rounds s'" using assms(3) l by (auto simp: later_def)
  {
    fix r :: "halt + replication_strategy option" and w'
    assume p: "prepare_replication j params (node_world s' i) = (r, w')"
    have step: "repl_steps ms ids s' ((put_node i w' s')\<lparr>appends := (case r of Inr (Some (SAppendEntries q)) \<Rightarrow> insert (i, j, q) (appends s') | _ \<Rightarrow> appends s')\<rparr>)"
      by (rule one_step, rule repl_step.prepare[where ids = ids, OF assms(1) rd assms(2) p])
    have no: "r \<noteq> Inr (Some (SInstallSnapshot a b))" for a b using prepare_no_snapshot[OF reach assms(1), of j params a b w'] p by auto
    show "repl_steps ms ids s' (case r of Inl _ \<Rightarrow> put_node i w' s' | Inr a \<Rightarrow> publish i (?k a) (put_node i w' s'))"
      using step no by (auto simp: replicate_to_peer_def same_appends split: sum.splits option.splits replication_strategy.splits)
  next
    fix a w'
    assume p: "prepare_replication j params (node_world s' i) = (Inr a, w')"
    consider "a = None" | q where "a = Some (SAppendEntries q)"
      using prepare_no_snapshot[OF reach assms(1), of j params _ _ w'] p by (metis option.exhaust replication_strategy.exhaust)
    then show "covered ms ids i (outcome_arrived i params) (publish i (?k a) (put_node i w' s')) (?k a)"
    proof cases
      case 1
      then show ?thesis by (auto intro: covered.finished)
    next
      case 2
      have t: "ae_term q = rr_term params" by (rule append_request_term[OF p[unfolded 2]])
      show ?thesis
        by (auto simp: 2 replicate_to_peer_def answer_arrived_def res_bind_def t intro!: covered.answer covered.finished exI[of _ q]
            split: sum.splits)
    qed
  }
qed

section \<open>The tasks of a node follow the protocol\<close>

text \<open>
  A task is spawned with what its parameters record: a campaign's own vote, an entry of \<open>rounds\<close>. A round spawns one
  attempt for each peer and waits for what they give back.
\<close>

inductive spawned :: "node_id list \<Rightarrow> node_id \<Rightarrow> repl_cluster \<Rightarrow> ('f shell, unit) task \<Rightarrow> bool" for ms i s where
  election: "(i, 1) \<in> tallies (core s) \<Longrightarrow> spawned ms i s (start_election_campaign tr p (peers_of ms i))"
| pre_vote: "spawned ms i s (start_pre_vote_campaign tr tr' p (peers_of ms i))"
| round: "(i, params) \<in> rounds s \<Longrightarrow> spawned ms i s (initiate_replication params (peers_of ms i))"
| attempt: "(i, params) \<in> rounds s \<Longrightarrow> j \<in> set (peers_of ms i) \<Longrightarrow>
    spawned ms i s (task_bind (prepare_and_replicate_to_peer snap tr j params) (\<lambda>_. Done ()))"

lemma lasting_True: "lasting (\<lambda>_ _. True)"
  by (simp add: lasting_def)

lemma spawned_covered:
  assumes "spawned ms i s t" "i \<in> set ms"
  shows "covered ms ids i (\<lambda>_ _. True) s t"
  using assms(1)
proof cases
  case (attempt params j snap tr)
  show ?thesis unfolding attempt(1)
    by (rule covered_bind[OF covered_attempt[OF assms(2) attempt(3,2)]]) (auto intro: covered.finished)
qed (auto simp: start_election_campaign_def start_pre_vote_campaign_def initiate_replication_def replicate_to_peers_def
      initiate_pre_vote_def intro!: covered_or_fatal covered_election covered_pre_votes covered_outcomes assms(2))

text \<open>What an attempt hands to its round is an answer that the peer gave to a request of that round.\<close>

lemma attempt_outcome:
  assumes "repl_reachable ms ids s" "i \<in> set ms" "(i, params) \<in> rounds s" "j \<in> set (peers_of ms i)"
    and "task_run ms ids i (s, prepare_and_replicate_to_peer snap tr j params) (s', Some (Done a))"
  shows "outcome_arrived i params s' a"
proof -
  have "covered ms ids i (outcome_arrived i params) (fst (s, prepare_and_replicate_to_peer snap tr j params))
      (snd (s, prepare_and_replicate_to_peer snap tr j params))"
    unfolding fst_conv snd_conv by (rule covered_attempt[OF assms(2,4,3)])
  from task_run_covered[OF assms(5) _ this lasting_outcome assms(2)] assms(1) show ?thesis by (auto elim: covered_DoneE)
qed

text \<open>
  C8 The tasks the code spawns do nothing but steps of the cluster: run an election campaign, a pre-vote campaign, a
  replication round or one attempt of a round on a node, its sections in the order the code has them, with any steps of any
  node between two of them and any messages lost, late or repeated; the state is always one the cluster reaches by its own steps, so
  the safety theorems hold at every point of every task, also after a panic of one.
\<close>
theorem tasks_follow_protocol:
  assumes "repl_reachable ms ids s" "i \<in> set ms" "spawned ms i s t" "task_run ms ids i (s, t) (s', t')"
  shows "repl_steps ms ids s s'"
  using task_run_covered[OF assms(4) _ _ lasting_True assms(2)] spawned_covered[OF assms(3,2)] assms(1) by fastforce

theorem tasks_follow_protocol_witness:
  "\<exists>t. task_run members demo_ids 1 (run7, initiate_replication round1 (peers_of members 1) :: (unit shell, unit) task) (run8, Some t)
     \<and> repl_steps members demo_ids run7 run8"
proof -
  let ?m = "(2, Inr (Some (OAppendEntries 0 1 answer))) :: node_id \<times> (status + replication_outcome option)"
  have ps: "peers_of members 1 = [2, 3]" by (simp add: peers_of_def)
  let ?t = "initiate_replication round1 (peers_of members 1) :: (unit shell, unit) task"
  define sh :: "unit shell" where "sh = \<lparr>sh_depth = 0, sh_permits = {}, sh_fsm = ()\<rparr>"
  define after :: "node_error + unit \<Rightarrow> (unit shell, unit) task" where
    "after = (\<lambda>r. case r of Inr _ \<Rightarrow> Done () | Inl e \<Rightarrow> locked (apply_fatal e) Done)"
  define rest :: "(unit shell, node_error + unit) task" where "rest = process_outcomes round1 1"
  define body :: "node_id \<times> (status + replication_outcome option) \<Rightarrow> (unit shell, node_error + unit) task" where
    "body = (\<lambda>(peer, res). Locked (\<lambda>(w, sh). case process_replication_response (rr_term round1) peer res w of (r, w') \<Rightarrow>
       (map_sum (\<lambda>e. e) (\<lambda>action. case action of Inl e \<Rightarrow> Done (Inl e) | Inr RDemoted \<Rightarrow> Done (Inr ())
          | Inr RContinue \<Rightarrow> rest) r, w', outcome_permit peer res sh)))"
  have reach: "repl_reachable members demo_ids run7"
    using run_reach3 run_step4 run_step5 run_step6 run_step7 repl_reachable.step by blast
  have round: "(1, round1) \<in> rounds run7" by (simp add: run7_def run6_def run5_def)
  have "(2, 1, request1, answer) \<in> acks run7 \<and> ae_term request1 = rr_term round1 \<and> 0 = ae_prev_log_index request1
      \<and> 1 = length (ae_entries request1)"
    by (simp add: run7_def request1_def new_append_entries_request_def round1_def)
  then have ack: "outcome_arrived 1 round1 run7 ?m" unfolding outcome_arrived.simps by (rule exI)
  have t: "?t = AwaitOutcome round1 (\<lambda>m. task_bind (body m) after)"
    unfolding ps initiate_replication_def or_fatal_task_def replicate_to_peers_def after_def body_def rest_def by simp
  have w: "process_replication_response (rr_term round1) 2 (snd ?m) (node_world run7 1)
      = (Inr (Inr RContinue), leader_world 2 1 1 1 {1, 2} 1 store2)"
    using acknowledged by (simp add: run7_def run6_def round1_def)
  obtain F where F: "task_bind (body ?m) after = Locked F"
    "F (node_world run7 1, sh) = (Inr (task_bind rest after), leader_world 2 1 1 1 {1, 2} 1 store2, sh)"
  proof (rule that)
    show "task_bind (body ?m) after = Locked (\<lambda>s. map_prod (map_sum (\<lambda>h. h) (\<lambda>t. task_bind t after)) (\<lambda>s. s)
        (case s of (w, sh) \<Rightarrow> case process_replication_response (rr_term round1) 2 (snd ?m) w of (r, w') \<Rightarrow>
          (map_sum (\<lambda>e. e) (\<lambda>action. case action of Inl e \<Rightarrow> Done (Inl e) | Inr RDemoted \<Rightarrow> Done (Inr ())
            | Inr RContinue \<Rightarrow> rest) r, w', outcome_permit 2 (snd ?m) sh)))"
      by (simp only: body_def prod.case task_bind.simps snd_conv)
  qed (simp add: w[unfolded snd_conv One_nat_def])
  have "task_run members demo_ids 1 (run7, ?t) (publish 1 (Locked F) run7, Some (Locked F))"
    using task_run.outcome[OF task_run.begun[of members demo_ids 1 run7 ?t, unfolded t] ack] by (simp only: F(1) t)
  then have "task_run members demo_ids 1 (run7, ?t) (run7, Some (Locked F))" by simp
  from task_run.ran[OF this F(2)]
  have "task_run members demo_ids 1 (run7, ?t) (run8, Some (task_bind rest after))"
    by (simp add: publish_bind after_def rest_def or_fatal_quiet run8_def)
  then show ?thesis using tasks_follow_protocol[OF reach _ spawned.round[OF round]] by auto
qed

end
