(* ===== verification/Undisturbed.thy ===== *)
theory Undisturbed
  imports Tasks Leader_Properties
begin

text \<open>
  What the tasks of \<open>Tasks\<close> achieve when nobody interferes. \<open>alone\<close> runs a task to its end on its node, taking the
  results of its calls from two lists: the answers to its vote requests and the outcomes of its replication
  calls, each in the order they arrive. It is defined by recursion on the task, so every task comes to an end once its calls do.
\<close>

type_synonym vote_answer = "node_id \<times> (status + request_vote_response response)"
type_synonym round_outcome = "node_id \<times> (status + replication_outcome option)"

primrec alone ::
  "('x, 'a) task \<Rightarrow> vote_answer list \<Rightarrow> round_outcome list \<Rightarrow> (world \<times> 'x, halt, 'a option) proc" where
  "alone (Done a) vs os = st_return (Some a)"
| "alone (Locked f) vs os = (\<lambda>s. case map_prod (map_sum (\<lambda>h. h) alone) (\<lambda>s. s) (f s) of
     (Inl h, s') \<Rightarrow> (Inl h, s') | (Inr g, s') \<Rightarrow> g vs os s')"
| "alone (AwaitPreVote f) vs os = (case vs of [] \<Rightarrow> st_return None | v # vs' \<Rightarrow> alone (f v) vs' os)"
| "alone (Campaign p t) vs os = alone t vs os"
| "alone (AwaitVote p f) vs os = (case vs of [] \<Rightarrow> st_return None | v # vs' \<Rightarrow> alone (f v) vs' os)"
| "alone (ReadTally v f) vs os = (\<lambda>s. alone (f (observe_tally v (fst (fst s)))) vs os s)"
| "alone (AwaitOutcome p f) vs os = (case os of [] \<Rightarrow> st_return None | o1 # os' \<Rightarrow> alone (f o1) vs os')"
| "alone (CallAppend j q f) vs os = st_return None"
| "alone (CallSnapshot j q f) vs os = st_return None"

lemma alone_Locked [simp]:
  "alone (Locked f) vs os s = (case f s of (Inl h, s') \<Rightarrow> (Inl h, s') | (Inr t, s') \<Rightarrow> alone t vs os s')"
  by (simp split: prod.splits sum.splits)

declare alone.simps(2) [simp del]

lemma alone_locked [simp]:
  "alone (locked h k) vs os (w, x) = (case h w of (Inl e, w') \<Rightarrow> (Inl e, w', x) | (Inr a, w') \<Rightarrow> alone (k a) vs os (w', x))"
  by (simp add: locked_def split: prod.splits sum.splits)

lemma alone_bind:
  assumes "alone t vs os s = (Inr (Some a), s')" "\<And>vs os. alone (k a) vs os s' = r"
  shows "alone (task_bind t k) vs os s = r"
  using assms(1)
proof (induction t arbitrary: vs os s)
  case (Locked f)
  then obtain t1 s1 where f: "f s = (Inr t1, s1)" by (auto split: prod.splits sum.splits)
  with Locked.prems have "alone t1 vs os s1 = (Inr (Some a), s')" by simp
  from Locked.IH[of "f s" "fst (f s)" t1, OF rangeI _ _ this] f show ?case by (simp add: prod_set_defs sum_set_defs)
qed (auto simp: assms(2) split: list.splits)

section \<open>An election\<close>

text \<open>The peers whose answer is a vote the campaign can count.\<close>

definition granters :: "trace_id \<Rightarrow> vote_answer list \<Rightarrow> node_id set" where
  "granters tr vs = {j. \<exists>ans resp. (j, ans) \<in> set vs \<and> request_vote_from_peer tr ans = Inr resp \<and> rvr_vote_granted resp}"

lemma granters_simps [simp]:
  "granters tr [] = {}"
  "granters tr ((j, ans) # vs) = (case request_vote_from_peer tr ans of
     Inr resp \<Rightarrow> (if rvr_vote_granted resp then {j} else {}) | Inl _ \<Rightarrow> {}) \<union> granters tr vs"
  by (auto simp: granters_def split: sum.splits)

lemma finite_granters [simp]: "finite (granters tr vs)"
  by (induction vs) (auto split: sum.splits)

definition not_outvoted :: "trace_id \<Rightarrow> raft_term \<Rightarrow> vote_answer list \<Rightarrow> bool" where
  "not_outvoted tr t vs \<longleftrightarrow> (\<forall>(j, ans) \<in> set vs. \<forall>resp. request_vote_from_peer tr ans = Inr resp \<longrightarrow> rvr_term resp \<le> t)"

definition election_outcome :: "nat \<Rightarrow> node_id set \<Rightarrow> log_index \<Rightarrow> node_error + leader \<Rightarrow> role_state \<Rightarrow> bool" where
  "election_outcome quorum votes c fresh r \<longleftrightarrow>
     (if quorum \<le> card votes then \<exists>n. r = Leader n \<and> last_committed n = c \<and> fresh = Inr (state n)
      else \<exists>n. r = Candidate n \<and> last_committed n = c \<and> votes_received (state n) = votes)"

lemma leader_init_ok: "is_u64 (Suc li) \<Longrightarrow> \<exists>nx mt. leader_init ps li nx0 mt0 = Inr (nx, mt)"
  by (induction ps arbitrary: nx0 mt0) (simp_all add: log_index_add_def checked_add_u64_def is_u64_def)

lemma into_leader_healthy:
  assumes "healthy d" "is_u64 (Suc (disk_last d))" "role ln = Candidate n"
  shows "\<exists>n'. into_leader ps (ln, d) = (Inr (), ln\<lparr>role := Leader n'\<rparr>, d) \<and> last_committed n' = last_committed n
    \<and> new_leader ps (disk_last d) (current_tick ln) = Inr (state n')"
proof -
  obtain nx mt where "leader_init ps (disk_last d) [] [] = Inr (nx, mt)" using leader_init_ok[OF assms(2)] by blast
  with assms show ?thesis
    by (simp add: into_leader_def try_into_leader_def new_leader_def node_read_def install_role_def)
      (rule exI, rule conjI, rule refl, simp add: node_transition_def)
qed

lemma vote_answer_healthy:
  assumes "healthy d" "hard_state_ok d" "is_u64 (Suc (disk_last d))" "role ln = Candidate n" "disk_term d = t"
    and "\<And>resp. res = Inr resp \<Longrightarrow> rvr_term resp \<le> t"
  shows "case res of
      Inr resp \<Rightarrow> if rvr_vote_granted resp then
          let c = add_vote j (state n) in
          if quorum_size ps \<le> vote_count c
          then \<exists>n'. process_vote_response t ps j res (ln, d) = (Inr QuorumReached, ln\<lparr>role := Leader n'\<rparr>, d)
            \<and> last_committed n' = last_committed n \<and> new_leader ps (disk_last d) (current_tick ln) = Inr (state n')
          else process_vote_response t ps j res (ln, d) = (Inr VContinue, ln\<lparr>role := Candidate (n\<lparr>state := c\<rparr>)\<rparr>, d)
        else process_vote_response t ps j res (ln, d) = (Inr VContinue, ln, d)
    | Inl _ \<Rightarrow> process_vote_response t ps j res (ln, d) = (Inr VContinue, ln, d)"
proof -
  let ?ln = "ln\<lparr>role := Candidate (n\<lparr>state := add_vote j (state n)\<rparr>)\<rparr>"
  obtain n' where l: "into_leader ps (?ln, d) = (Inr (), ?ln\<lparr>role := Leader n'\<rparr>, d)" "last_committed n' = last_committed n"
      "new_leader ps (disk_last d) (current_tick ln) = Inr (state n')"
    using into_leader_healthy[of d ?ln "n\<lparr>state := add_vote j (state n)\<rparr>" ps] assms(1,3) by auto
  have t: "ln_current_term (ln, d) = (Inr t, ln, d)" using assms(1,2,4,5) by simp
  have li: "ln_last_log_index (?ln, d) = (Inr (disk_last d), ?ln, d)"
    using assms(1) by (simp add: ln_last_log_index_def delegate_read_def is_poisoned_def node_read_def)
  show ?thesis
    using assms(4,6) t l li
    by (auto simp: process_vote_response_def st_bind_def tally_vote_def set_role_def Let_def split: sum.splits)
qed

lemma tally_alone:
  assumes "healthy d" "hard_state_ok d" "is_u64 (Suc (disk_last d))" "disk_term d = cp_term p" "not_outvoted tr (cp_term p) vs"
    and "role ln = Candidate n" "v = vote_count (state n)" "vs \<noteq> [] \<longrightarrow> v < quorum_size ps" "finite (votes_received (state n))"
  shows "\<exists>ln'. alone (tally_votes tr p ps (length vs) v) vs os ((ln, d), x) = (Inr (Some (Inr ())), (ln', d), x)
    \<and> election_outcome (quorum_size ps) (votes_received (state n) \<union> granters tr vs) (last_committed n)
        (new_leader ps (disk_last d) (current_tick ln)) (role ln')"
  using assms(5-9)
proof (induction vs arbitrary: ln n v)
  case Nil
  obtain n' where l: "into_leader ps (ln, d) = (Inr (), ln\<lparr>role := Leader n'\<rparr>, d)" "last_committed n' = last_committed n"
      "new_leader ps (disk_last d) (current_tick ln) = Inr (state n')"
    using into_leader_healthy[OF assms(1,3) Nil(2)] by blast
  have p: "ln_try_current_term (ln, d) = (Inr (Inr (cp_term p)), ln, d)"
    using Nil(2) assms(1,2,4) by (simp add: ln_try_current_term_def is_poisoned_def node_read_def)
  show ?case using Nil l p by (simp add: after_votes_def Let_def is_candidate_def vote_count_def election_outcome_def)
next
  case (Cons a vs)
  obtain j ans where a: "a = (j, ans)" by (cases a)
  let ?res = "request_vote_from_peer tr ans"
  have le: "rvr_term resp \<le> cp_term p" if "?res = Inr resp" for resp
    using Cons.prems(1) that by (auto simp: not_outvoted_def a)
  have rest: "not_outvoted tr (cp_term p) vs" using Cons.prems(1) by (simp add: not_outvoted_def)
  note V = vote_answer_healthy[where res = ?res and j = j and ps = ps, OF assms(1-3) Cons.prems(2) assms(4) le]
  show ?case
  proof (cases "\<exists>resp. ?res = Inr resp \<and> rvr_vote_granted resp")
    case False
    then have g: "granters tr (a # vs) = granters tr vs" by (auto simp: a split: sum.splits)
    have "process_vote_response (cp_term p) ps j ?res (ln, d) = (Inr VContinue, ln, d)"
      using V False by (auto split: sum.splits)
    then have step: "alone (tally_votes tr p ps (length (a # vs)) v) (a # vs) os ((ln, d), x)
        = alone (tally_votes tr p ps (length vs) v) vs os ((ln, d), x)"
      using Cons.prems(2,3) by (simp add: a observe_tally_def)
    show ?thesis unfolding g step using Cons.IH[OF rest Cons.prems(2,3) _ Cons.prems(5)] Cons.prems(4) by simp
  next
    case True
    let ?c = "add_vote j (state n)"
    let ?ln = "ln\<lparr>role := Candidate (n\<lparr>state := ?c\<rparr>)\<rparr>"
    have g: "granters tr (a # vs) = insert j (granters tr vs)" "votes_received ?c = insert j (votes_received (state n))"
      using True by (auto simp: a add_vote_def)
    show ?thesis
    proof (cases "quorum_size ps \<le> vote_count ?c")
      case q: True
      then obtain n' where r: "process_vote_response (cp_term p) ps j ?res (ln, d) = (Inr QuorumReached, ln\<lparr>role := Leader n'\<rparr>, d)"
          "last_committed n' = last_committed n" "new_leader ps (disk_last d) (current_tick ln) = Inr (state n')"
        using V True by (auto simp: Let_def)
      have "card (votes_received ?c) \<le> card (votes_received (state n) \<union> granters tr (a # vs))"
        using g Cons.prems(5) by (intro card_mono) auto
      with q have "quorum_size ps \<le> card (votes_received (state n) \<union> granters tr (a # vs))" by (simp add: vote_count_def)
      with r show ?thesis by (simp add: a election_outcome_def del: granters_simps)
    next
      case q: False
      then have r: "process_vote_response (cp_term p) ps j ?res (ln, d) = (Inr VContinue, ?ln, d)"
        using V True by (auto simp: Let_def)
      have ih: "\<exists>ln'. alone (tally_votes tr p ps (length vs) (vote_count ?c)) vs os ((?ln, d), x) = (Inr (Some (Inr ())), (ln', d), x)
        \<and> election_outcome (quorum_size ps) (votes_received ?c \<union> granters tr vs) (last_committed n)
            (new_leader ps (disk_last d) (current_tick ln)) (role ln')"
        using Cons.IH[OF rest, of ?ln "n\<lparr>state := ?c\<rparr>" "vote_count ?c"] q g(2) Cons.prems(5) by simp
      have v: "votes_received ?c \<union> granters tr vs = votes_received (state n) \<union> granters tr (a # vs)" using g by simp
      have step: "alone (tally_votes tr p ps (length (a # vs)) v) (a # vs) os ((ln, d), x)
          = alone (tally_votes tr p ps (length vs) (vote_count ?c)) vs os ((?ln, d), x)"
        using r by (simp add: a observe_tally_def)
      show ?thesis unfolding step v[symmetric] by (rule ih)
    qed
  qed
qed


lemma quorum_majority: "quorum_size ps \<le> k \<longleftrightarrow> length ps + 1 < 2 * k"
  by (auto simp: quorum_size_def)

lemma campaign_alone:
  assumes "healthy d" "hard_state_ok d" "is_u64 (Suc (disk_last d))" "disk_term d = cp_term p" "not_outvoted tr (cp_term p) vs"
    and "role ln = Candidate n" "votes_received (state n) = {me}" "length vs = length ps"
  shows "\<exists>ln'. alone (start_election_campaign tr p ps) vs os ((ln, d), x) = (Inr (Some ()), (ln', d), x)
    \<and> election_outcome (quorum_size ps) (insert me (granters tr vs)) (last_committed n) (new_leader ps (disk_last d) (current_tick ln)) (role ln')"
proof -
  have v: "vote_count (state n) = 1" using assms(7) by (simp add: vote_count_def)
  have "vs \<noteq> [] \<longrightarrow> 1 < quorum_size ps" using assms(8) by (cases vs) (auto simp: quorum_size_def)
  from tally_alone[OF assms(1-6) v[symmetric] this, of os x] assms(7)
  obtain ln' where r: "alone (tally_votes tr p ps (length vs) 1) vs os ((ln, d), x) = (Inr (Some (Inr ())), (ln', d), x)"
    "election_outcome (quorum_size ps) (insert me (granters tr vs)) (last_committed n) (new_leader ps (disk_last d) (current_tick ln)) (role ln')"
    by auto
  have "alone (initiate_election tr p ps) vs os ((ln, d), x) = (Inr (Some (Inr ())), (ln', d), x)"
    using r(1) assms(8) by (simp add: initiate_election_def)
  then have "alone (start_election_campaign tr p ps) vs os ((ln, d), x) = (Inr (Some ()), (ln', d), x)"
    unfolding start_election_campaign_def or_fatal_task_def by (rule alone_bind) simp
  with r(2) show ?thesis by blast
qed

text \<open>
  An undisturbed campaign is decided by the votes alone. When every peer has answered or failed and none of them is in a
  later term, the task ends, and the candidate leads its term exactly if it and the peers that granted make
  a majority, whatever the order of the answers; otherwise it is still a candidate with those votes. An answer with a wrong trace id
  counts for nothing, and two answers of one peer count once. The store is not touched.
\<close>
theorem election_decided:
  assumes "healthy d" "hard_state_ok d" "is_u64 (Suc (disk_last d))" "disk_term d = cp_term p" "not_outvoted tr (cp_term p) vs"
    and "role ln = Candidate n" "votes_received (state n) = {me}" "length vs = length ps"
  shows "\<exists>ln'. alone (start_election_campaign tr p ps) vs os ((ln, d), x) = (Inr (Some ()), (ln', d), x)
    \<and> (if length ps + 1 < 2 * card (insert me (granters tr vs))
       then \<exists>n'. role ln' = Leader n'
       else \<exists>n'. role ln' = Candidate n' \<and> votes_received (state n') = insert me (granters tr vs))"
  using campaign_alone[OF assms, of os x] unfolding election_outcome_def quorum_majority by (auto split: if_splits)

theorem election_decided_witness:
  "\<exists>ln' n'. alone (start_election_campaign 7 \<lparr>cp_term = 4, cp_node_id = 1, cp_last_log_index = 2, cp_last_log_term = 1\<rparr> [2, 3])
      [(3, Inl (Status Unavailable [])), (2, Inr \<lparr>resp_trace = Some 7, resp_inner = \<lparr>rvr_term = 4, rvr_vote_granted = True\<rparr>\<rparr>)] []
      ((sample_node (Candidate \<lparr>identity = sample_identity, last_committed = 0, last_applied = 0,
          state = \<lparr>votes_received = {1}, election_start = 0, c_timeout = 15\<rparr>\<rparr>), sample_store 4), ())
      = (Inr (Some ()), (ln', sample_store 4), ()) \<and> role ln' = Leader n'"
proof -
  let ?n = "\<lparr>identity = sample_identity, last_committed = 0, last_applied = 0,
     state = \<lparr>votes_received = {1}, election_start = 0, c_timeout = 15\<rparr>\<rparr>"
  let ?p = "\<lparr>cp_term = 4, cp_node_id = 1, cp_last_log_index = 2, cp_last_log_term = 1\<rparr>"
  let ?vs = "[(3, Inl (Status Unavailable [])), (2, Inr \<lparr>resp_trace = Some 7, resp_inner = \<lparr>rvr_term = 4, rvr_vote_granted = True\<rparr>\<rparr>)]
    :: vote_answer list"
  have "not_outvoted 7 4 ?vs" "granters 7 ?vs = {2}"
    by (auto simp: not_outvoted_def request_vote_from_peer_def verify_trace_integrity_def)
  then show ?thesis
    using election_decided[of "sample_store 4" ?p 7 ?vs "sample_node (Candidate ?n)" ?n 1 "[2, 3]" "[]" "()"]
    by (simp add: sample_node_def is_u64_def u64_bound_def)
qed


section \<open>A replication round\<close>

text \<open>An outcome that reports a failed call, an acknowledgement up to \<open>last_idx\<close>, or a refusal in no later term.\<close>

fun quiet_outcome :: "raft_term \<Rightarrow> log_index \<Rightarrow> round_outcome \<Rightarrow> bool" where
  "quiet_outcome t last_idx (j, Inr (Some (OAppendEntries prev len resp))) =
     (aer_term resp \<le> t \<and> (if aer_success resp then prev + len = last_idx else is_u64 (Suc (aer_last_log_index resp))))"
| "quiet_outcome t last_idx (j, Inr (Some (OInstallSnapshot _ _))) = False"
| "quiet_outcome t last_idx (j, Inr None) = True"
| "quiet_outcome t last_idx (j, Inl _) = True"

fun acker :: "round_outcome \<Rightarrow> node_id set" where
  "acker (j, Inr (Some (OAppendEntries prev len resp))) = (if aer_success resp then {j} else {})"
| "acker (j, _) = {}"

definition ackers :: "round_outcome list \<Rightarrow> node_id set" where
  "ackers os = (\<Union>ev \<in> set os. acker ev)"

definition tracked :: "log_index \<Rightarrow> node_id list \<Rightarrow> node_id set \<Rightarrow> leader \<Rightarrow> bool" where
  "tracked last_idx ps G l \<longleftrightarrow>
     distinct (map fst (match_index l)) \<and> fst ` set (match_index l) = set ps \<and> (\<forall>j v. map_of (match_index l) j = Some v \<longrightarrow> v \<le> last_idx)
     \<and> (\<forall>j \<in> G. map_of (match_index l) j = Some last_idx) \<and> (\<forall>j. 1 \<le> get_or (next_index l) j 1)"

lemma acknowledge_simps [simp]:
  "match_index (acknowledge_heartbeat j q l) = match_index l" "next_index (acknowledge_heartbeat j q l) = next_index l"
  by (simp_all add: acknowledge_heartbeat_def Let_def)

lemma tracked_acknowledge [simp]: "tracked L ps G (acknowledge_heartbeat j q l) = tracked L ps G l"
  by (simp add: tracked_def)

lemma tracked_success:
  assumes "tracked L ps G l" "j \<in> set ps" "is_u64 (Suc L)" "prev + len = L"
  shows "\<exists>l' upd. after_success j prev len l = Inr (l', upd) \<and> tracked L ps (insert j G) l' \<and> (\<not> upd \<longrightarrow> match_index l' = match_index l)"
proof -
  have u: "log_index_add prev len = Inr L" "log_index_add L 1 = Inr (Suc L)"
    using assms(3,4) by (simp_all add: log_index_add_def checked_add_u64_def is_u64_def)
  obtain v where v: "map_of (match_index l) j = Some v" "v \<le> L"
    using assms(1,2) by (fastforce simp: tracked_def map_of_eq_None_iff[symmetric] dest: map_of_SomeD)
  let ?l = "l\<lparr>next_index := AList.update j (Suc L) (next_index l), match_index := AList.update j L (match_index l)\<rparr>"
  have "tracked L ps (insert j G) ?l"
    using assms(1,2) by (auto simp: tracked_def distinct_update update_conv' get_or_update dom_update)
  moreover have "tracked L ps (insert j G) l" if "\<not> get_or (match_index l) j 0 < L"
  proof -
    have "v = L" using v that by (simp add: get_or_def)
    then show ?thesis using assms(1) v by (auto simp: tracked_def)
  qed
  ultimately show ?thesis using u by (auto simp: after_success_def)
qed

lemma tracked_mismatch:
  assumes "tracked L ps G l" "is_u64 (Suc fl)"
  shows "\<exists>l' upd. after_mismatch j fl l = Inr (l', upd) \<and> tracked L ps G l' \<and> match_index l' = match_index l"
  using assms
  by (auto simp: after_mismatch_def Let_def log_index_add_def checked_add_u64_def log_index_sub_def is_u64_def tracked_def get_or_update)


text \<open>What the round keeps: the leader tracks its peers, and has committed its last entry if a majority stores it.\<close>

definition leading :: "log_index \<Rightarrow> node_id list \<Rightarrow> node_id set \<Rightarrow> leader raft_node \<Rightarrow> bool" where
  "leading last_idx ps G n \<longleftrightarrow> tracked last_idx ps G (state n) \<and> last_committed n \<le> last_idx
     \<and> (match_median (match_index (state n)) last_idx = last_idx \<longrightarrow> last_committed n = last_idx)"

lemma median_bound:
  assumes "tracked L ps G l"
  shows "match_median (match_index l) L \<le> L"
proof -
  let ?xs = "sort (map snd (match_index l) @ [L])"
  have "match_median (match_index l) L \<in> set ?xs"
    unfolding match_median_def Let_def by (rule nth_mem) simp
  moreover have "v \<le> L" if "(j, v) \<in> set (match_index l)" for j v
    using assms that by (auto simp: tracked_def)
  ultimately show ?thesis by auto
qed

lemma reconcile_tracked:
  assumes "tracked L ps G l" "quiet_outcome t L (j, Inr (Some out))" "j \<in> set ps" "is_u64 (Suc L)"
  shows "\<exists>l' upd. reconcile_outcome j out l = Inr (l', upd) \<and> tracked L ps (G \<union> acker (j, Inr (Some out))) l'
    \<and> (\<not> upd \<longrightarrow> match_index l' = match_index l)"
proof (cases out)
  case (OAppendEntries prev len resp)
  then show ?thesis
    using assms(2) tracked_success[OF assms(1,3,4), of prev len] tracked_mismatch[OF assms(1), of "aer_last_log_index resp" j]
    by (cases "aer_success resp") (simp_all, blast)
qed (use assms(2) in simp)

lemma outcome_step:
  assumes "healthy d" "hard_state_ok d" "log_ok d" "0 < disk_term d" "disk_term_at d (disk_last d) = disk_term d" "is_u64 (Suc (disk_last d))"
    and "role ln = Leader n" "leading (disk_last d) ps G n" "quiet_outcome (disk_term d) (disk_last d) (j, res)" "j \<in> set ps"
  shows "\<exists>n' m. process_replication_response (disk_term d) j res (ln, d)
        = (Inr (Inr RContinue), ln\<lparr>role := Leader n'\<rparr>, d\<lparr>meta_last_committed := m\<rparr>)
    \<and> leading (disk_last d) ps (G \<union> acker (j, res)) n'
    \<and> last_committed n \<le> last_committed n'
    \<and> (last_committed n' = last_committed n \<and> m = meta_last_committed d \<or> m = Some (last_committed n'))"
proof (cases "\<exists>out. res = Inr (Some out)")
  case False
  have same: "ln\<lparr>role := Leader n\<rparr> = ln" "d\<lparr>meta_last_committed := meta_last_committed d\<rparr> = d" using assms(7) by (cases ln; simp)+
  from False have "(\<exists>e. res = Inl e) \<or> res = Inr None" by (metis obj_sumE option.exhaust)
  then have "acker (j, res) = {}" "process_replication_response (disk_term d) j res (ln, d) = (Inr (Inr RContinue), ln, d)"
    by (auto simp: process_replication_response_def)
  with same assms(8) show ?thesis
    by (intro exI[of _ n] exI[of _ "meta_last_committed d"] conjI) simp_all
next
  case True
  then obtain out where res: "res = Inr (Some out)" by blast
  let ?L = "disk_last d" and ?q = "(length (next_index (state n)) + 1) div 2 + 1"
  have T: "outcome_term out \<le> disk_term d" using assms(9) res by (cases out) simp_all
  have "tracked ?L ps G (acknowledge_heartbeat j ?q (state n))" using assms(8) by (simp add: leading_def)
  from reconcile_tracked[OF this assms(9)[unfolded res] assms(10,6)]
  obtain l' upd where l: "reconcile_outcome j out (acknowledge_heartbeat j ?q (state n)) = Inr (l', upd)"
      "tracked ?L ps (G \<union> acker (j, res)) l'" "\<not> upd \<longrightarrow> match_index l' = match_index (state n)"
    by (auto simp: res)
  let ?n1 = "n\<lparr>state := l'\<rparr>" and ?ln1 = "ln\<lparr>role := Leader (n\<lparr>state := l'\<rparr>)\<rparr>"
  let ?m = "match_median (match_index l') ?L"
  have p: "process_replication_response (disk_term d) j res (ln, d) =
      st_bind (if upd then update_leader_last_committed else st_return ()) (\<lambda>_. st_return (Inr RContinue)) (?ln1, d)"
    using T l(1) assms(1,2,7) by (simp add: res process_replication_response_def st_bind_def reconcile_as_leader_def set_role_def Let_def)
  have c: "last_committed n \<le> ?L" using assms(8) by (simp add: leading_def)
  show ?thesis
  proof (cases "upd \<and> last_committed n < ?m \<and> disk_term_at d ?m = disk_term d")
    case True
    then have "process_replication_response (disk_term d) j res (ln, d) =
        (Inr (Inr RContinue), ln\<lparr>role := Leader (?n1\<lparr>last_committed := ?m\<rparr>)\<rparr>, d\<lparr>meta_last_committed := Some ?m\<rparr>)"
      using update_leader_healthy[OF assms(1-4), of ?ln1 ?n1 ?m] p by (simp add: st_bind_def)
    moreover have "leading ?L ps (G \<union> acker (j, res)) (?n1\<lparr>last_committed := ?m\<rparr>)"
      using l(2) median_bound[OF l(2)] by (simp add: leading_def)
    ultimately show ?thesis
      using True by (intro exI[of _ "?n1\<lparr>last_committed := ?m\<rparr>"] exI[of _ "Some ?m"] conjI) simp_all
  next
    case False
    have "process_replication_response (disk_term d) j res (ln, d) = (Inr (Inr RContinue), ?ln1, d\<lparr>meta_last_committed := meta_last_committed d\<rparr>)"
      using update_leader_healthy[OF assms(1-4), of ?ln1 ?n1 ?m] p False by (auto simp: st_bind_def)
    moreover have "leading ?L ps (G \<union> acker (j, res)) ?n1"
      using l(2,3) False assms(5,8) c by (auto simp: leading_def)
    ultimately show ?thesis
      by (intro exI[of _ ?n1] exI[of _ "meta_last_committed d"] conjI) simp_all
  qed
qed


lemma outcomes_alone:
  assumes "healthy d" "hard_state_ok d" "log_ok d" "0 < disk_term d" "disk_term_at d (disk_last d) = disk_term d" "is_u64 (Suc (disk_last d))"
    and "rr_term params = disk_term d" "\<forall>ev \<in> set os. quiet_outcome (disk_term d) (disk_last d) ev \<and> fst ev \<in> set ps"
    and "role ln = Leader n" "leading (disk_last d) ps G n"
  shows "\<exists>ln' n' m sh'. alone (process_outcomes params (length os)) vs os ((ln, d), sh)
        = (Inr (Some (Inr ())), (ln', d\<lparr>meta_last_committed := m\<rparr>), sh')
    \<and> role ln' = Leader n' \<and> leading (disk_last d) ps (G \<union> ackers os) n' \<and> last_committed n \<le> last_committed n'
    \<and> (last_committed n' = last_committed n \<and> m = meta_last_committed d \<or> m = Some (last_committed n'))"
  using assms
proof (induction os arbitrary: d ln n G sh)
  case Nil
  have "d\<lparr>meta_last_committed := meta_last_committed d\<rparr> = d" by simp
  with Nil show ?case by (auto simp: ackers_def intro!: exI[of _ "meta_last_committed d"])
next
  case (Cons ev os)
  obtain j res where ev: "ev = (j, res)" by (cases ev)
  have q: "quiet_outcome (disk_term d) (disk_last d) (j, res)" "j \<in> set ps" using Cons.prems(8) by (auto simp: ev)
  from outcome_step[OF Cons.prems(1-6,9,10) q] obtain n1 m1 where
    o: "process_replication_response (disk_term d) j res (ln, d) = (Inr (Inr RContinue), ln\<lparr>role := Leader n1\<rparr>, d\<lparr>meta_last_committed := m1\<rparr>)"
      "leading (disk_last d) ps (G \<union> acker (j, res)) n1"
      "last_committed n \<le> last_committed n1"
      "last_committed n1 = last_committed n \<and> m1 = meta_last_committed d \<or> m1 = Some (last_committed n1)" by blast
  let ?d = "d\<lparr>meta_last_committed := m1\<rparr>" and ?ln = "ln\<lparr>role := Leader n1\<rparr>"
  have t: "disk_term_at ?d k = disk_term_at d k" "hard_state_ok ?d = hard_state_ok d" for k
    by (simp_all add: disk_term_at_def hard_state_ok_def)
  have step: "alone (process_outcomes params (length (ev # os))) vs (ev # os) ((ln, d), sh)
      = alone (process_outcomes params (length os)) vs os ((?ln, ?d), outcome_permit j res sh)"
    using o(1) Cons.prems(7) by (simp add: ev)
  have g: "G \<union> ackers (ev # os) = (G \<union> acker (j, res)) \<union> ackers os" by (auto simp: ackers_def ev)
  have "\<exists>ln' n' m sh'. alone (process_outcomes params (length os)) vs os ((?ln, ?d), outcome_permit j res sh)
        = (Inr (Some (Inr ())), (ln', ?d\<lparr>meta_last_committed := m\<rparr>), sh')
    \<and> role ln' = Leader n' \<and> leading (disk_last ?d) ps ((G \<union> acker (j, res)) \<union> ackers os) n'
    \<and> last_committed n1 \<le> last_committed n'
    \<and> (last_committed n' = last_committed n1 \<and> m = meta_last_committed ?d \<or> m = Some (last_committed n'))"
    by (rule Cons.IH) (use Cons.prems o(2) t in simp_all)
  then obtain ln' n' m sh' where i: "alone (process_outcomes params (length os)) vs os ((?ln, ?d), outcome_permit j res sh)
        = (Inr (Some (Inr ())), (ln', d\<lparr>meta_last_committed := m\<rparr>), sh')" "role ln' = Leader n'"
      "leading (disk_last d) ps ((G \<union> acker (j, res)) \<union> ackers os) n'"
      "last_committed n1 \<le> last_committed n'"
      "last_committed n' = last_committed n1 \<and> m = m1 \<or> m = Some (last_committed n')" by auto
  have "last_committed n' = last_committed n \<and> m = meta_last_committed d \<or> m = Some (last_committed n')"
      "last_committed n \<le> last_committed n'"
    using o(3,4) i(4,5) by auto
  with i(1-3) show ?case unfolding step g by blast
qed

lemma tracked_replicas:
  assumes "tracked L ps G l" "finite G"
  shows "card G + 1 \<le> replicas (match_index l) L L"
proof -
  let ?ms = "filter (\<lambda>(j, v). L \<le> v) (match_index l)"
  have "G \<subseteq> fst ` set ?ms"
  proof
    fix j assume "j \<in> G"
    then have "(j, L) \<in> set ?ms" using assms(1) by (auto simp: tracked_def dest: map_of_SomeD)
    then show "j \<in> fst ` set ?ms" by force
  qed
  then have "card G \<le> length ?ms"
    using card_mono[of "fst ` set ?ms" G] card_image_le[of "set ?ms" fst] card_length[of ?ms] by simp
  moreover have "replicas (match_index l) L L = length ?ms + 1"
    by (simp add: replicas_def filter_map comp_def case_prod_unfold)
  ultimately show ?thesis by simp
qed

text \<open>
  In a round a leader commits what a majority acknowledges. A leader whose last entry is of its own term, and not stored by a majority
  before, runs a round in which every peer either acknowledges the log up to that entry, refuses, or fails to answer: the
  task ends, the node still leads, and if it and the acknowledging peers are a majority then the last entry and
  everything before it is committed, in memory and on disk, and its log is as it was.
\<close>
theorem round_commits:
  assumes "healthy d" "hard_state_ok d" "log_ok d" "0 < disk_term d" "disk_term_at d (disk_last d) = disk_term d" "is_u64 (Suc (disk_last d))"
    and "role ln = Leader n" "tracked (disk_last d) ps {} (state n)" "last_committed n < disk_last d"
    and "match_median (match_index (state n)) (disk_last d) < disk_last d"
    and "rr_term params = disk_term d" "length os = length ps" "distinct ps"
    and "\<forall>ev \<in> set os. quiet_outcome (disk_term d) (disk_last d) ev \<and> fst ev \<in> set ps"
  shows "\<exists>ln' d' n' sh'. alone (initiate_replication params ps) vs os ((ln, d), sh) = (Inr (Some ()), (ln', d'), sh')
    \<and> role ln' = Leader n' \<and> last_committed n \<le> last_committed n' \<and> log_ok d' \<and> disk_entry d' = disk_entry d \<and> disk_last d' = disk_last d
    \<and> (length ps + 1 < 2 * (card (ackers os) + 1) \<longrightarrow> last_committed n' = disk_last d \<and> disk_committed d' = disk_last d)"
proof -
  have "leading (disk_last d) ps {} n" using assms(8-10) by (simp add: leading_def)
  from outcomes_alone[OF assms(1-6,11,14,7) this, of vs sh] obtain ln' n' m sh' where
    r: "alone (process_outcomes params (length os)) vs os ((ln, d), sh) = (Inr (Some (Inr ())), (ln', d\<lparr>meta_last_committed := m\<rparr>), sh')"
      "role ln' = Leader n'" "leading (disk_last d) ps (ackers os) n'"
      "last_committed n \<le> last_committed n'"
      "last_committed n' = last_committed n \<and> m = meta_last_committed d \<or> m = Some (last_committed n')" by auto
  have "finite (acker ev)" for ev by (cases ev rule: acker.cases) auto
  then have "finite (ackers os)" by (simp add: ackers_def)
  then have rep: "card (ackers os) + 1 \<le> replicas (match_index (state n')) (disk_last d) (disk_last d)"
    using r(3) by (intro tracked_replicas) (auto simp: leading_def)
  have len: "length (match_index (state n')) = length ps"
    using r(3) assms(13) by (metis leading_def tracked_def distinct_card length_map set_map)
  have com: "last_committed n' = disk_last d \<and> disk_committed (d\<lparr>meta_last_committed := m\<rparr>) = disk_last d"
    if "length ps + 1 < 2 * (card (ackers os) + 1)"
  proof -
    have "\<not> match_median (match_index (state n')) (disk_last d) < disk_last d"
    proof
      assume "match_median (match_index (state n')) (disk_last d) < disk_last d"
      from match_median_replicas(2)[OF this] have "2 * replicas (match_index (state n')) (disk_last d) (disk_last d) \<le> length ps + 1"
        by (simp only: len)
      moreover have "2 * (card (ackers os) + 1) \<le> 2 * replicas (match_index (state n')) (disk_last d) (disk_last d)"
        using rep by (rule mult_le_mono2)
      ultimately show False using that by (metis le_trans not_less)
    qed
    moreover have "match_median (match_index (state n')) (disk_last d) \<le> disk_last d"
      using r(3) median_bound by (auto simp: leading_def)
    ultimately have "last_committed n' = disk_last d" using r(3) by (simp add: leading_def)
    with r(5) assms(9) show ?thesis by auto
  qed
  have a: "alone (initiate_replication params ps) vs os ((ln, d), sh) = (Inr (Some ()), (ln', d\<lparr>meta_last_committed := m\<rparr>), sh')"
    unfolding initiate_replication_def or_fatal_task_def replicate_to_peers_def
    by (rule alone_bind[OF r(1)[unfolded assms(12)]]) simp
  have "log_ok (d\<lparr>meta_last_committed := m\<rparr>)" "disk_entry (d\<lparr>meta_last_committed := m\<rparr>) = disk_entry d"
    "disk_last (d\<lparr>meta_last_committed := m\<rparr>) = disk_last d" using assms(3) by simp_all
  with a r(2,4) com show ?thesis by blast
qed


theorem round_commits_witness:
  "\<exists>ln' d' n' sh'. alone (initiate_replication \<lparr>rr_term = 1, rr_node_id = 1, rr_last_committed = 0\<rparr> [2, 3]) []
      [(2, Inl (Status Unavailable [])), (3, Inr (Some (OAppendEntries 0 2 \<lparr>aer_term = 1, aer_success = True, aer_last_log_index = 2\<rparr>)))]
      ((sample_node (Leader (sample_leader\<lparr>state := (state sample_leader)\<lparr>match_index := [(2, 0), (3, 0)]\<rparr>\<rparr>)), sample_store 1),
       \<lparr>sh_depth = 0, sh_permits = {}, sh_fsm = ()\<rparr>) = (Inr (Some ()), (ln', d'), sh')
    \<and> role ln' = Leader n' \<and> last_committed n' = 2 \<and> disk_committed d' = 2"
proof -
  let ?n = "sample_leader\<lparr>state := (state sample_leader)\<lparr>match_index := [(2, 0), (3, 0)]\<rparr>\<rparr>"
  let ?os = "[(2, Inl (Status Unavailable [])), (3, Inr (Some (OAppendEntries 0 2 \<lparr>aer_term = 1, aer_success = True, aer_last_log_index = 2\<rparr>)))]
    :: round_outcome list"
  have "ackers ?os = {3}" "tracked 2 [2, 3] {} (state ?n)" "match_median (match_index (state ?n)) 2 = 0"
    by (auto simp: ackers_def tracked_def sample_leader_def get_or_def match_median_def)
  moreover have "last_committed ?n = 0" by (simp add: sample_leader_def)
  ultimately show ?thesis
    using round_commits[of "sample_store 1" "sample_node (Leader ?n)" ?n "[2, 3]" "\<lparr>rr_term = 1, rr_node_id = 1, rr_last_committed = 0\<rparr>" ?os
        "[]" "\<lparr>sh_depth = 0, sh_permits = {}, sh_fsm = ()\<rparr>"]
    by (auto simp: sample_node_def is_u64_def u64_bound_def sample_term_at)
qed


section \<open>From the campaign to the commit\<close>

lemma leader_init_tracked:
  "leader_init ps li nx mt = Inr (nx', mt') \<Longrightarrow> distinct (map fst mt) \<Longrightarrow> \<forall>j v. map_of mt j = Some v \<longrightarrow> v = 0 \<Longrightarrow> \<forall>j. 1 \<le> get_or nx j 1 \<Longrightarrow>
     distinct (map fst mt') \<and> fst ` set mt' = fst ` set mt \<union> set ps \<and> (\<forall>j v. map_of mt' j = Some v \<longrightarrow> v = 0) \<and> (\<forall>j. 1 \<le> get_or nx' j 1)"
proof (induction ps arbitrary: nx mt)
  case (Cons p ps)
  from Cons.prems(1) obtain n where n: "log_index_add li 1 = Inr n" "leader_init ps li (AList.update p n nx) (AList.update p 0 mt) = Inr (nx', mt')"
    by (auto simp: res_bind_Inr_iff)
  then have "1 \<le> n" by (auto simp: log_index_add_def checked_add_u64_def split: if_splits)
  then have nx: "\<forall>j. 1 \<le> get_or (AList.update p n nx) j 1" using Cons.prems(4) by (simp add: get_or_update)
  have mt: "distinct (map fst (AList.update p 0 mt))" "\<forall>j v. map_of (AList.update p 0 mt) j = Some v \<longrightarrow> v = 0"
    using Cons.prems(2,3) by (simp_all add: distinct_update update_conv')
  have "fst ` set (AList.update p 0 mt) \<union> set ps = fst ` set mt \<union> set (p # ps)" by (auto simp: dom_update)
  with Cons.IH[OF n(2) mt nx] show ?case by simp
qed auto

lemma fresh_leader_tracked:
  assumes "new_leader ps li tk = Inr l" "distinct ps" "ps \<noteq> []" "0 < k"
  shows "tracked k ps {} l" "match_median (match_index l) k < k"
proof -
  from assms(1) have i: "leader_init ps li [] [] = Inr (next_index l, match_index l)"
    by (auto simp: new_leader_def res_bind_Inr_iff)
  have t: "distinct (map fst (match_index l))" "fst ` set (match_index l) = set ps" "\<forall>j v. map_of (match_index l) j = Some v \<longrightarrow> v = 0"
      "\<forall>j. 1 \<le> get_or (next_index l) j 1"
    using leader_init_tracked[OF i] by (simp_all add: get_or_def)
  then show "tracked k ps {} l" unfolding tracked_def by fastforce
  have "length (match_index l) = length ps"
    using t(1,2) assms(2) by (metis distinct_card length_map set_map)
  then have len: "1 \<le> length (match_index l)" using assms(3) by (cases ps) simp_all
  show "match_median (match_index l) k < k"
  proof (rule ccontr)
    assume "\<not> match_median (match_index l) k < k"
    then have "filter (\<lambda>i. match_median (match_index l) k \<le> i) (map snd (match_index l)) = []"
      using t(1,3) assms(4) by (fastforce simp: filter_empty_conv)
    then have "replicas (match_index l) k (match_median (match_index l) k) \<le> 1" by (simp add: replicas_def)
    with match_median_replicas(1)[of "match_index l" k] len show False by linarith
  qed
qed


text \<open>
  C9 A cluster that is left alone makes progress. A candidate whom a majority grants leads; the command it is then given is
  its next log entry, of its own term; and a replication round a majority acknowledges commits that entry,
  and with it everything before it, without any further message.
\<close>
theorem elected_leader_commits:
  assumes "healthy d" "hard_state_ok d" "log_ok d" "0 < disk_term d" "is_u64 (Suc (Suc (disk_last d)))"
    and "role ln = Candidate n" "votes_received (state n) = {me}" "last_committed n \<le> disk_last d" "disk_term d = cp_term p"
    and "distinct ps" "ps \<noteq> []"
    and "length vs = length ps" "not_outvoted tr (cp_term p) vs" "length ps + 1 < 2 * card (insert me (granters tr vs))"
    and "rr_term params = disk_term d" "length os = length ps"
    and "\<forall>ev \<in> set os. quiet_outcome (disk_term d) (Suc (disk_last d)) ev \<and> fst ev \<in> set ps"
    and "length ps + 1 < 2 * (card (ackers os) + 1)"
  shows "\<exists>ln1 d2 ln3 d3 n3 sh3.
    alone (start_election_campaign tr p ps) vs [] ((ln, d), sh) = (Inr (Some ()), (ln1, d), sh)
    \<and> ln_propose cmd (ln1, d) = (Inr (Inr (Suc (disk_last d))), ln1, d2)
    \<and> alone (initiate_replication params ps) [] os ((ln1, d2), sh) = (Inr (Some ()), (ln3, d3), sh3)
    \<and> role ln3 = Leader n3 \<and> last_committed n3 = Suc (disk_last d) \<and> disk_committed d3 = Suc (disk_last d)
    \<and> disk_entry d3 = (disk_entry d)(Suc (disk_last d) \<mapsto> new_log_entry (Suc (disk_last d)) (disk_term d) cmd)"
proof -
  let ?i = "Suc (disk_last d)" and ?e = "new_log_entry (Suc (disk_last d)) (disk_term d) cmd"
  have u: "is_u64 ?i" using assms(5) by (simp add: is_u64_def)
  obtain ln1 n1 where c: "alone (start_election_campaign tr p ps) vs [] ((ln, d), sh) = (Inr (Some ()), (ln1, d), sh)"
      "role ln1 = Leader n1" "last_committed n1 = last_committed n" "new_leader ps (disk_last d) (current_tick ln) = Inr (state n1)"
    using campaign_alone[OF assms(1,2) u assms(9,13,6,7,12), of "[]" sh] assms(14)
    unfolding election_outcome_def quorum_majority by (auto split: if_splits)
  have np: "role ln1 \<noteq> Poisoned" using c(2) by simp
  let ?d2 = "set_log (entry_batch [?e]) d"
  have p: "ln_propose cmd (ln1, d) = (Inr (Inr ?i), ln1, ?d2)" by (rule ln_propose_leader[OF assms(1,2) u c(2)])
  then have d2: "log_ok ?d2" "disk_last ?d2 = ?i" "meta_hard_state ?d2 = meta_hard_state d" "disk_entry ?d2 = (disk_entry d)(?i \<mapsto> ?e)"
    using propose_appends[OF assms(1-3) np u assms(4), of cmd] c(2) by auto
  have t: "disk_term ?d2 = disk_term d" "hard_state_ok ?d2" using term_view[OF d2(3)] assms(2) by simp_all
  have "?i \<noteq> disk_snap d" "disk_snap ?d2 = disk_snap d" using disk_snap_le_last[of d] by (linarith, simp)
  then have tl: "disk_term_at ?d2 (disk_last ?d2) = disk_term ?d2"
    using d2(2,4) t(1) by (simp add: disk_term_at_def new_log_entry_def)
  have f: "tracked (disk_last ?d2) ps {} (state n1)" "match_median (match_index (state n1)) (disk_last ?d2) < disk_last ?d2"
    using fresh_leader_tracked[OF c(4) assms(10,11), of "disk_last ?d2"] d2(2) by simp_all
  have h: "healthy ?d2" "0 < disk_term ?d2" "is_u64 (Suc (disk_last ?d2))" "last_committed n1 < disk_last ?d2"
      "rr_term params = disk_term ?d2" "\<forall>ev \<in> set os. quiet_outcome (disk_term ?d2) (disk_last ?d2) ev \<and> fst ev \<in> set ps"
    using assms(1,4,5,8,15,17) d2(2) t(1) c(3) by simp_all
  from round_commits[OF h(1) t(2) d2(1) h(2) tl h(3) c(2) f(1) h(4) f(2) h(5) assms(16,10) h(6), of "[]" sh]
  obtain ln3 d3 n3 sh3 where r: "alone (initiate_replication params ps) [] os ((ln1, ?d2), sh) = (Inr (Some ()), (ln3, d3), sh3)"
      "role ln3 = Leader n3" "disk_entry d3 = disk_entry ?d2" "last_committed n3 = disk_last ?d2" "disk_committed d3 = disk_last ?d2"
    using assms(18) by blast
  with c(1) p d2(2,4) show ?thesis by metis
qed


theorem elected_leader_commits_witness:
  "\<exists>ln1 d2 ln3 d3 n3 sh3.
    alone (start_election_campaign 7 \<lparr>cp_term = 4, cp_node_id = 1, cp_last_log_index = 2, cp_last_log_term = 1\<rparr> [2, 3])
        [(3, Inl (Status Unavailable [])), (2, Inr \<lparr>resp_trace = Some 7, resp_inner = \<lparr>rvr_term = 4, rvr_vote_granted = True\<rparr>\<rparr>)] []
        ((sample_node (Candidate \<lparr>identity = sample_identity, last_committed = 0, last_applied = 0,
            state = \<lparr>votes_received = {1}, election_start = 0, c_timeout = 15\<rparr>\<rparr>), sample_store 4),
         \<lparr>sh_depth = 0, sh_permits = {}, sh_fsm = ()\<rparr>)
        = (Inr (Some ()), (ln1, sample_store 4), \<lparr>sh_depth = 0, sh_permits = {}, sh_fsm = ()\<rparr>)
    \<and> ln_propose [5] (ln1, sample_store 4) = (Inr (Inr 3), ln1, d2)
    \<and> alone (initiate_replication \<lparr>rr_term = 4, rr_node_id = 1, rr_last_committed = 0\<rparr> [2, 3]) []
        [(2, Inr None), (3, Inr (Some (OAppendEntries 2 1 \<lparr>aer_term = 4, aer_success = True, aer_last_log_index = 3\<rparr>)))]
        ((ln1, d2), \<lparr>sh_depth = 0, sh_permits = {}, sh_fsm = ()\<rparr>) = (Inr (Some ()), (ln3, d3), sh3)
    \<and> role ln3 = Leader n3 \<and> last_committed n3 = 3 \<and> disk_entry d3 3 = Some (new_log_entry 3 4 [5])"
proof -
  let ?n = "\<lparr>identity = sample_identity, last_committed = 0, last_applied = 0,
     state = \<lparr>votes_received = {1}, election_start = 0, c_timeout = 15\<rparr>\<rparr>"
  let ?p = "\<lparr>cp_term = 4, cp_node_id = 1, cp_last_log_index = 2, cp_last_log_term = 1\<rparr>"
  let ?r = "\<lparr>rr_term = 4, rr_node_id = 1, rr_last_committed = 0\<rparr>"
  let ?vs = "[(3, Inl (Status Unavailable [])), (2, Inr \<lparr>resp_trace = Some 7, resp_inner = \<lparr>rvr_term = 4, rvr_vote_granted = True\<rparr>\<rparr>)]
    :: vote_answer list"
  let ?os = "[(2, Inr None), (3, Inr (Some (OAppendEntries 2 1 \<lparr>aer_term = 4, aer_success = True, aer_last_log_index = 3\<rparr>)))] :: round_outcome list"
  have "not_outvoted 7 4 ?vs" "granters 7 ?vs = {2}" "ackers ?os = {3}"
    by (auto simp: not_outvoted_def request_vote_from_peer_def verify_trace_integrity_def ackers_def)
  then show ?thesis
    using elected_leader_commits[of "sample_store 4" "sample_node (Candidate ?n)" ?n 1 ?p "[2, 3]" ?vs 7 ?r ?os
        "\<lparr>sh_depth = 0, sh_permits = {}, sh_fsm = ()\<rparr>" "[5]"]
    by (fastforce simp: sample_node_def is_u64_def u64_bound_def)
qed

end
