(* ===== verification/Storage_Properties.thy ===== *)
theory Storage_Properties
  imports Handler_Properties
begin

text \<open>
  Contracts of the log store: the byte keys of the log tree keep the numeric order of the indices, what
  was appended is read back, truncation and compaction remove exactly the named end of the log, and the
  hard state survives its encoding.
\<close>

section \<open>Keys\<close>

text \<open>Index keys are the big-endian bytes of the index, and the engine orders keys byte by byte.\<close>

fun be_bytes :: "nat \<Rightarrow> u64 \<Rightarrow> bytes" where
  "be_bytes 0 n = []"
| "be_bytes (Suc k) n = word_of_nat (n div 256 ^ k) # be_bytes k n"

definition to_be_bytes :: "u64 \<Rightarrow> bytes" where
  "to_be_bytes n = be_bytes 8 n"

fun from_be_bytes :: "bytes \<Rightarrow> u64" where
  "from_be_bytes [] = 0"
| "from_be_bytes (b # bs) = unat b * 256 ^ length bs + from_be_bytes bs"

fun bytes_less :: "bytes \<Rightarrow> bytes \<Rightarrow> bool" where
  "bytes_less xs [] = False"
| "bytes_less [] (y # ys) = True"
| "bytes_less (x # xs) (y # ys) = (x < y \<or> x = y \<and> bytes_less xs ys)"

lemma length_be_bytes [simp]: "length (be_bytes k n) = k"
  by (induction k) simp_all

lemma unat_byte: "unat (word_of_nat x :: 8 word) = x mod 256"
  by (simp add: unat_of_nat)

lemma mod_256_Suc: "n mod 256 ^ Suc k = (n div 256 ^ k mod 256) * 256 ^ k + n mod 256 ^ k" for n :: nat
  using mod_mult2_eq[of n "256 ^ k" 256] by (simp add: mult.commute)

lemma from_be_bytes_be: "from_be_bytes (be_bytes k n) = n mod 256 ^ k"
  by (induction k) (simp_all add: unat_byte mod_256_Suc del: power_Suc)

lemma digit_less:
  fixes x y q a b :: nat
  assumes "a < q" "b < q"
  shows "x * q + a < y * q + b \<longleftrightarrow> x < y \<or> x = y \<and> a < b"
proof (cases x y rule: linorder_cases)
  case less
  then have "x * q + q \<le> y * q" by (metis Suc_leI mult_Suc mult_le_mono1 add.commute)
  then show ?thesis using less assms by linarith
next
  case greater
  then have "y * q + q \<le> x * q" by (metis Suc_leI mult_Suc mult_le_mono1 add.commute)
  then show ?thesis using greater assms by linarith
qed simp

lemma be_bytes_order: "bytes_less (be_bytes k a) (be_bytes k b) \<longleftrightarrow> a mod 256 ^ k < b mod 256 ^ k"
proof (induction k)
  case (Suc k)
  show ?case
    by (auto simp: Suc.IH mod_256_Suc digit_less word_less_nat_alt word_unat_eq_iff unat_byte simp del: power_Suc)
qed simp

text \<open>
  The byte keys of the log tree order entries as their indices do and determine the index: for 64-bit indices,
  the byte-wise order of the big-endian keys is the numeric order, and decoding a key gives the index
  back. The last key of the tree and a key range are therefore the last entry and a range of indices.
\<close>
theorem keys_keep_order:
  assumes "is_u64 a" "is_u64 b"
  shows "(bytes_less (to_be_bytes a) (to_be_bytes b) \<longleftrightarrow> a < b) \<and> from_be_bytes (to_be_bytes a) = a
    \<and> length (to_be_bytes a) = 8"
  using assms by (simp add: to_be_bytes_def be_bytes_order from_be_bytes_be is_u64_def u64_bound_def)

theorem keys_keep_order_witness:
  "bytes_less (to_be_bytes 255) (to_be_bytes 256) \<and> from_be_bytes (to_be_bytes 255) = 255"
  using keys_keep_order[of 255 256] by (simp add: is_u64_def u64_bound_def)

section \<open>Log\<close>

text \<open>
  Entries appended at the end of a log with no hole are read back exactly, in order; the log has no hole
  afterwards, everything before is as it was, and the hard state, the commit index and the snapshot
  metadata are untouched.
\<close>
theorem append_then_read:
  assumes "healthy d" "log_ok d" "consecutive (Suc (disk_last d)) es" "is_u64 (disk_last d + length es)"
    and "\<forall>e \<in> set es. 0 < e_term e"
  shows "\<exists>d'. sled_append_entries es d = (Inr (), d')
    \<and> sled_read_entries (Suc (disk_last d)) (disk_last d + length es) d' = Inr es
    \<and> log_ok d' \<and> disk_last d' = disk_last d + length es \<and> (\<forall>k \<le> disk_last d. disk_entry d' k = disk_entry d k)
    \<and> meta_hard_state d' = meta_hard_state d \<and> meta_last_committed d' = meta_last_committed d \<and> disk_snap d' = disk_snap d"
proof -
  let ?d = "set_log (entry_batch es) d"
  note e = disk_entry_append_log[OF assms(2,3)] and l = disk_last_append_log[OF assms(2,3)]
  have ok: "log_ok ?d" using log_ok_append_log[OF assms(2,3,4)] assms(5) by blast
  have "sled_read_entries (Suc (disk_last d)) (disk_last d + length es) ?d
      = Inr (map (\<lambda>k. the (disk_entry ?d k)) (incl_range (Suc (disk_last d)) (disk_last d + length es)))"
    using assms(1) ok l disk_snap_le_last[of d] by (intro sled_read_entries_healthy) (simp_all add: less_Suc_eq_le)
  also have "map (\<lambda>k. the (disk_entry ?d k)) (incl_range (Suc (disk_last d)) (disk_last d + length es)) = es"
    by (rule nth_equalityI) (simp_all add: incl_range_def e del: upt_Suc)
  finally show ?thesis
    by (intro exI[of _ ?d] conjI) (use assms(1) ok l e in \<open>simp_all add: set_log_def[of _ d, THEN arg_cong[of _ _ meta_last_committed]]\<close>)
qed

theorem append_then_read_witness:
  "\<exists>d'. sled_append_entries [entry 3 2, entry 4 2] (sample_store 2) = (Inr (), d')
    \<and> sled_read_entries 3 4 d' = Inr [entry 3 2, entry 4 2]"
proof -
  let ?es = "[entry 3 2, entry 4 2]"
  have "consecutive (Suc 2) ?es" "\<forall>e \<in> set ?es. 0 < e_term e" "Suc 2 = 3" "2 + length ?es = 4" "is_u64 4"
    by (simp_all add: consecutive_def sample_defs upt_conv_Cons is_u64_def u64_bound_def)
  with append_then_read[of "sample_store 2" ?es] show ?thesis by (simp only: sample_store_views sample_log_ok) blast
qed

text \<open>
  Truncation at an index removes exactly the entries from that index on: entries before it stay, the end of
  the log becomes the index before (or the snapshot), a log with no hole stays so, and truncating beyond
  the end changes nothing.
\<close>
theorem truncate_cuts_tail:
  assumes "healthy d" "log_ok d" "0 < i"
  shows "\<exists>d'. sled_truncate_log i d = (Inr (), d') \<and> log_ok d'
    \<and> (\<forall>k. disk_entry d' k = (if i \<le> k then None else disk_entry d k))
    \<and> disk_last d' = (if i \<le> disk_last d then max (i - 1) (disk_snap d) else disk_last d)
    \<and> (disk_last d < i \<longrightarrow> d' = d)"
proof (cases "i \<le> disk_last d")
  case True
  then show ?thesis
    using assms log_ok_truncate[OF assms(2,3) True] disk_entry_truncate[OF assms(2) True] disk_last_truncate[OF assms(2,3) True]
    by simp
next
  case False
  have "disk_entry d k = None" if "i \<le> k" for k
    using disk_last_ge[OF assms(2), of k] False that by (cases "disk_entry d k") auto
  with False assms show ?thesis by auto
qed

theorem truncate_cuts_tail_witness:
  "\<exists>d'. sled_truncate_log 2 (sample_store 1) = (Inr (), d') \<and> disk_last d' = 1 \<and> disk_entry d' 2 = None"
  using truncate_cuts_tail[of "sample_store 1" 2] by auto

text \<open>
  Compaction, which stores the snapshot's metadata and then drops the entries it covers, keeps the end of the
  log, every entry behind the snapshot, and the absence of holes behind it; afterwards no entry up to the
  snapshot is left.
\<close>
theorem compaction_keeps_log:
  assumes "healthy d" "log_ok d" "disk_snap d \<le> i" "i \<le> disk_last d"
  shows "\<exists>d1 d2. sled_save_snapshot_metadata i t d = (Inr (), d1) \<and> sled_truncate_log_front i d1 = (Inr (), d2)
    \<and> log_ok d2 \<and> disk_last d2 = disk_last d \<and> disk_snap d2 = i
    \<and> (\<forall>k. disk_entry d2 k = (if k \<le> i then None else disk_entry d k))"
proof -
  let ?d1 = "d\<lparr>meta_snapshot_index := Some i, meta_snapshot_term := Some t\<rparr>"
  have "is_u64 i"
  proof (cases "disk_snap d < i")
    case True
    then show ?thesis using log_okD(4)[OF assms(2) True assms(4)] log_okD(2)[OF assms(2)] by blast
  next
    case False
    then show ?thesis using log_okD(3)[OF assms(2)] assms(3) by simp
  qed
  note s = log_ok_snapshot_metadata[OF assms(2,3) this, of t]
  have v: "disk_snap ?d1 = i" "disk_entry ?d1 = disk_entry d" by (simp_all add: disk_snap_def disk_entry_def)
  show ?thesis
    using assms s log_ok_compact[OF s(1), of i] disk_last_compact[OF s(1), of i] disk_entry_compact[OF s(1), of i]
    by (simp add: v)
qed

theorem compaction_keeps_log_witness:
  "\<exists>d1 d2. sled_save_snapshot_metadata 1 1 (sample_store 1) = (Inr (), d1) \<and> sled_truncate_log_front 1 d1 = (Inr (), d2)
    \<and> disk_last d2 = 2 \<and> disk_entry d2 1 = None"
proof -
  obtain d1 d2 where "sled_save_snapshot_metadata 1 1 (sample_store 1) = (Inr (), d1)" "sled_truncate_log_front 1 d1 = (Inr (), d2)"
    "disk_last d2 = 2" "\<forall>k. disk_entry d2 k = (if k \<le> 1 then None else disk_entry (sample_store 1) k)"
    using compaction_keeps_log[of "sample_store 1" 1 1] by auto
  then show ?thesis by (metis order_refl)
qed

section \<open>Hard state\<close>

text \<open>
  The term and the vote are read back as they were saved, and saving them touches nothing of the log. A save
  the engine reports as failed leaves either the old or the new pair, never a mixture, since both sit in
  one record under one key.
\<close>
theorem hard_state_round_trip:
  assumes "is_u64 t" "v \<noteq> None \<longrightarrow> valid_node_id (the v)" "sled_save_hard_state t v d = (r, d')"
  shows "(healthy d \<longrightarrow> r = Inr () \<and> sled_current_term d' = Inr t \<and> sled_voted_for d' = Inr v)
    \<and> (r = Inr () \<longrightarrow> disk_term d' = t \<and> disk_vote d' = v)
    \<and> (disk_term d', disk_vote d') \<in> {(t, v), (disk_term d, disk_vote d)}
    \<and> log_tree d' = log_tree d"
proof -
  have v: "disk_vote (set_hard_state t v d) = v" by (rule disk_vote_set_hard_state) (use assms(2) in auto)
  have ok: "hard_state_ok (set_hard_state t v d)"
    using assms(1,2) by (cases v) (auto simp: hard_state_ok_def set_hard_state_def serialize_hard_state_def new_hard_state_def)
  have l: "log_tree (set_hard_state t v d) = log_tree d" by (simp add: set_hard_state_def)
  from save_hard_state_cases[OF assms(3)] have "d' = d \<or> d' = set_hard_state t v d" "r = Inr () \<longrightarrow> d' = set_hard_state t v d"
    by auto
  moreover have "r = Inr () \<and> d' = set_hard_state t v d" if "healthy d" using assms(3) that by simp
  ultimately show ?thesis using v ok l by auto
qed

theorem hard_state_round_trip_witness:
  "\<exists>d'. sled_save_hard_state 5 (Some 2) (sample_store 1) = (Inr (), d') \<and> sled_voted_for d' = Inr (Some 2)"
proof -
  have "is_u64 5" "valid_node_id 2" by (simp_all add: is_u64_def u64_bound_def valid_node_id_def)
  then show ?thesis
    using hard_state_round_trip[of 5 "Some 2" "sample_store 1" "Inr ()" "set_hard_state 5 (Some 2) (sample_store 1)"] by simp
qed

end
