(* ===== verification/Snapshot_Transfer.thy ===== *)
theory Snapshot_Transfer
  imports Tasks Storage_Properties
begin

section \<open>Receiving a snapshot\<close>

record snapshot_params =
  sp_leader_id :: node_id
  sp_term :: raft_term
  sp_last_included_index :: log_index
  sp_last_included_term :: raft_term
  sp_data :: bytes
  sp_trace_id :: trace_id

definition snapshot_params_try_from_proto :: "install_snapshot_request request \<Rightarrow> status + snapshot_params" where
  "snapshot_params_try_from_proto req =
     res_bind (require_trace_id req)
       (\<lambda>t. let r = req_inner req
            in res_bind (parse_sender (is_leader_id r))
       (\<lambda>l. Inr \<lparr>sp_leader_id = l, sp_term = is_term r, sp_last_included_index = is_last_included_index r,
                 sp_last_included_term = is_last_included_term r, sp_data = is_data r, sp_trace_id = t\<rparr>))"

text \<open>Sections on the freeze depth, and on the state machine, beside the node.\<close>

definition depth_section :: "(world \<times> 32 word, halt, 'a) proc \<Rightarrow> ('a \<Rightarrow> ('f shell, 'b) task) \<Rightarrow> ('f shell, 'b) task" where
  "depth_section p k = Locked (\<lambda>(w, sh). case p (w, sh_depth sh) of (r, w', depth) \<Rightarrow> (map_sum (\<lambda>h. h) k r, w', sh\<lparr>sh_depth := depth\<rparr>))"

definition fsm_section :: "('f, 'a) sys_proc \<Rightarrow> ('a \<Rightarrow> ('f shell, 'b) task) \<Rightarrow> ('f shell, 'b) task" where
  "fsm_section p k = Locked (\<lambda>(w, sh). case p (w, sh_fsm sh) of (r, w', f) \<Rightarrow> (map_sum (\<lambda>h. h) k r, w', sh\<lparr>sh_fsm := f\<rparr>))"

text \<open>The task that \<open>spawn_blocking\<close> runs: the state machine under its lock, then the node under the consensus lock.\<close>

definition background_snapshot_install ::
  "(log_index \<Rightarrow> bytes \<Rightarrow> ('f, fsm_error, unit) proc) \<Rightarrow> snapshot_params \<Rightarrow> ('f shell, unit) task" where
  "background_snapshot_install install p =
     fsm_section (on_fsm (install (sp_last_included_index p) (sp_data p)))
       (\<lambda>res. depth_section (snapshot_phase3 res (sp_last_included_index p) (sp_last_included_term p)) Done)"

text \<open>\<open>handle_install_snapshot\<close> answers with the term of phase 1 and, for an accepted snapshot, leaves the task above running.\<close>

definition orchestrate_install_snapshot ::
  "(log_index \<Rightarrow> bytes \<Rightarrow> ('f, fsm_error, unit) proc) \<Rightarrow> snapshot_params
     \<Rightarrow> (world \<times> 'f shell, halt, raft_term \<times> ('f shell, unit) task option) proc" where
  "orchestrate_install_snapshot install p = (\<lambda>(w, sh).
     case snapshot_phase1 (sp_leader_id p) (sp_term p) (sp_last_included_index p) (w, sh_depth sh) of
       (r, w', depth) \<Rightarrow>
         (map_sum (\<lambda>h. h) (\<lambda>res. (iss_term res,
             if iss_action res = Accepted then Some (background_snapshot_install install p) else None)) r,
          w', sh\<lparr>sh_depth := depth\<rparr>))"

definition rpc_install_snapshot ::
  "(log_index \<Rightarrow> bytes \<Rightarrow> ('f, fsm_error, unit) proc) \<Rightarrow> install_snapshot_request request
     \<Rightarrow> (world \<times> 'f shell, halt, status + raft_term response \<times> ('f shell, unit) task option) proc" where
  "rpc_install_snapshot install req =
     (case snapshot_params_try_from_proto req of
        Inl s \<Rightarrow> st_return (Inl s)
      | Inr p \<Rightarrow> st_bind (orchestrate_install_snapshot install p)
          (\<lambda>(t, job). st_return (Inr (\<lparr>resp_trace = Some (sp_trace_id p), resp_inner = t\<rparr>, job))))"

section \<open>Compaction\<close>

definition initiate_log_compaction ::
  "(log_index \<Rightarrow> bytes \<Rightarrow> ('f, fsm_error, unit) proc) \<Rightarrow> nat \<Rightarrow> log_index \<Rightarrow> raft_term \<Rightarrow> ('f shell, bool) task" where
  "initiate_log_compaction ap fuel idx t =
     locked (ln_save_snapshot_metadata idx t)
       (\<lambda>_. Locked (\<lambda>(w, sh). case compaction_truncate idx w of (truncation_res, w') \<Rightarrow>
          (Inr (depth_section (compaction_finish truncation_res) (\<lambda>_. fsm_section (apply_committed ap fuel) Done)), w', sh)))"

section \<open>A task alone\<close>

text \<open>\<open>run_sections n\<close> runs up to \<open>n\<close> sections of a task with nothing in between.\<close>

fun run_sections :: "nat \<Rightarrow> ('x, 'a) task \<Rightarrow> (world \<times> 'x, halt, ('x, 'a) task) proc" where
  "run_sections (Suc n) (Locked f) = st_bind f (run_sections n)"
| "run_sections n t = st_return t"

lemma run_sections_simps [simp]:
  "run_sections 0 t = st_return t" "run_sections n (Done a) = st_return (Done a)"
  "run_sections n (CallSnapshot j q k) = st_return (CallSnapshot j q k)"
  by (cases n; cases t; simp)+

lemma run_sections_Locked: "run_sections (Suc n) (Locked f) s =
    (case f s of (Inl h, s') \<Rightarrow> (Inl h, s') | (Inr t, s') \<Rightarrow> run_sections n t s')"
  by (simp add: st_bind_def split: prod.splits sum.splits)


lemma install_role_applied:
  "install_role Follower ln (try_into_follower n t lo hb to d) = (Inr (), w') \<Longrightarrow> role_applied (role (fst w')) = last_applied n"
  by (auto simp: install_role_def try_into_follower_def Let_def node_transition_def apply_fatal_def
      split: prod.splits sum.splits elim!: st_bind_InrE)

lemma into_follower_applied:
  "into_follower t lo (ln, d) = (Inr (), w') \<Longrightarrow> role_applied (role (fst w')) = role_applied (role ln)"
  by (auto simp: into_follower_def Let_def split: prod.splits role_state.splits dest!: install_role_applied)

lemma validate_leader_applied:
  "validate_leader_rpc_term t l (ln, d) = (Inr x, w') \<Longrightarrow> role_applied (role (fst w')) = role_applied (role ln)"
  by (auto simp: validate_leader_rpc_term_def recognise_leader_def set_role_def apply_fatal_def
      split: if_splits role_state.splits elim!: st_bind_InrE dest!: ln_current_term_Inr into_follower_applied)

lemma install_snapshot_accepted:
  assumes "healthy d" "hard_state_ok d" "is_u64 t" "disk_term d \<le> t" "role ln \<noteq> Poisoned" "\<And>n. role ln \<noteq> Leader n"
    and "role_applied (role ln) < i"
  shows "\<exists>ln'. handle_install_snapshot l t i (ln, d) = (Inr \<lparr>iss_term = t, iss_action = Accepted\<rparr>, ln', seen_term t d)
    \<and> role ln' \<noteq> Poisoned \<and> role_commit (role ln') = role_commit (role ln) \<and> role_applied (role ln') = role_applied (role ln)"
proof -
  obtain ln' n where v: "validate_leader_rpc_term t l (ln, d) = (Inr TermValid, ln', seen_term t d)" "role ln' = Follower n"
      "last_committed n = role_commit (role ln)"
    using validate_leader_healthy[OF assms(1-5), of l] assms(6) by blast
  have a: "last_applied n = role_applied (role ln)" using validate_leader_applied[OF v(1)] v(2) by simp
  have "hard_state_ok (seen_term t d)" "disk_term (seen_term t d) = t" "healthy (seen_term t d)"
    using assms(1-4) by (auto simp: seen_term_simps)
  with v a assms show ?thesis
    by (simp add: handle_install_snapshot_def st_bind_def reset_heartbeat_follower[OF v(2)])
qed


lemma freeze_thaw:
  "depth \<noteq> - 1 \<Longrightarrow> freeze depth = (Inr (), depth + 1)" "depth \<noteq> - 1 \<Longrightarrow> thaw (depth + 1) = (Inr (), depth)"
proof -
  show "depth \<noteq> - 1 \<Longrightarrow> freeze depth = (Inr (), depth + 1)" by (simp add: freeze_def)
  assume "depth \<noteq> - 1"
  then have "depth + 1 \<noteq> 0" by (metis add.commute add_eq_0_iff)
  then show "thaw (depth + 1) = (Inr (), depth)" by (simp add: thaw_def)
qed

lemma serialize_run:
  assumes "fsm_ready (sh_fsm ls)" "sh_depth ls \<noteq> - 1"
  shows "run_sections 3 (serialize_snapshot (fsm_snapshot c) tr peer params i it) (lw, ls) =
    (Inr (install_snapshot_to_peer tr peer (new_install_snapshot_request (rr_term params) (rr_node_id params) i it
       (encode_snapshot c (snapshot_of (sh_fsm ls))))), lw, ls)"
  using assms
  by (simp add: serialize_snapshot_def freeze_section_def thaw_section_def freeze_thaw fsm_snapshot_healthy numeral_3_eq_3
      run_sections_Locked install_snapshot_to_peer_def Let_def)

lemma job_run:
  assumes "healthy d" "log_ok d" "role ln \<noteq> Poisoned" "disk_snap d \<le> sp_last_included_index p" "is_u64 (sp_last_included_index p)"
    and "sh_depth fs = depth + 1" "depth \<noteq> - 1"
    and "install (sp_last_included_index p) (sp_data p) (sh_fsm fs) = (Inr (), g)"
  shows "\<exists>ln' d'. run_sections 2 (background_snapshot_install install p) ((ln, d), fs)
      = (Inr (Done ()), (ln', d'), fs\<lparr>sh_depth := depth, sh_fsm := g\<rparr>)
    \<and> role_applied (role ln') = sp_last_included_index p
    \<and> role_commit (role ln') = max (sp_last_included_index p) (role_commit (role ln))
    \<and> log_ok d' \<and> disk_snap d' = sp_last_included_index p \<and> disk_last d' = max (disk_last d) (sp_last_included_index p)"
proof -
  have d0: "0 < depth + 1" using assms(7) by (metis add.commute add_eq_0_iff word_gt_0)
  obtain ln' d' where "snapshot_phase3 (Inr ()) (sp_last_included_index p) (sp_last_included_term p) ((ln, d), depth + 1)
      = (Inr (), (ln', d'), depth)" "role_applied (role ln') = sp_last_included_index p"
      "role_commit (role ln') = max (sp_last_included_index p) (role_commit (role ln))" "log_ok d'"
      "disk_snap d' = sp_last_included_index p" "disk_last d' = max (disk_last d) (sp_last_included_index p)"
    using conjunct1[OF snapshot_finalizes[OF assms(1-3) d0 assms(4,5), of "sp_last_included_term p" FPoisoned]] by auto
  with assms(6,8) show ?thesis
    by (simp add: background_snapshot_install_def fsm_section_def depth_section_def on_fsm_def numeral_2_eq_2 run_sections_Locked)
qed


section \<open>Snapshots that are newer than their index\<close>

lemma replay_heals:
  assumes "fsm_ready s0" "apply_all (fsm_apply c) es s0 = (Inr (), s)" "fsm_ready g"
    and "fsm_abs g = (fsm_abs s)\<lparr>v_applied := v_applied (fsm_abs s0)\<rparr>" "\<And>k. is_u64 (Suc (last_seen (fsm_abs s) k))"
  shows "\<exists>g'. apply_all (fsm_apply c) es g = (Inr (), g') \<and> fsm_abs g' = fsm_abs s \<and> fsm_ready g'"
  using assms(1-4)
proof (induction "fsm_apply c" es arbitrary: s0 g rule: apply_all.induct)
  case (2 i data es)
  from 2(3) obtain s1 where a: "fsm_apply c i data s0 = (Inr (), s1)" "apply_all (fsm_apply c) es s1 = (Inr (), s)"
    by (auto elim!: st_bind_InrE)
  note s1 = fsm_apply_succeeds[OF 2(2) a(1)]
  obtain m where m: "decode_mutation c data = Some m" "parse_uuid c (m_client_id m) \<noteq> None" "i = Suc (v_applied (fsm_abs s0))"
      "is_u64 i" "v_applied (fsm_abs s1) = i" "m_sequence_id m \<le> last_seen (fsm_abs s1) (m_client_id m)"
    using spec_apply_seen[OF conjunct1[OF s1]] by blast
  have seen: "last_seen (fsm_abs g) k = last_seen (fsm_abs s) k" for k using 2(5) by (simp add: last_seen_def)
  have "m_sequence_id m \<le> last_seen (fsm_abs g) (m_client_id m)"
    using m(6) apply_all_seen[OF conjunct2[OF s1] a(2), of "m_client_id m"] seen by simp
  then have dup: "spec_apply c i data (fsm_abs g) = Some ((fsm_abs g)\<lparr>v_applied := i\<rparr>)"
    using m(1-4) 2(5) assms(5) seen by (intro spec_apply_duplicate) simp_all
  obtain r g1 where g1: "fsm_apply c i data g = (r, g1)" by fastforce
  have r: "r = Inr ()" "fsm_ready g1" "fsm_abs g1 = (fsm_abs s)\<lparr>v_applied := v_applied (fsm_abs s1)\<rparr>"
    using fsm_apply_refines[OF 2(4) g1] dup 2(5) m(5) by simp_all
  from 2(1)[OF conjunct2[OF s1] a(2) r(2,3)] g1 r(1) show ?case by (simp add: st_bind_def)
qed auto


text \<open>
  C18 A leader takes a snapshot of its state machine when it sends it, and labels it with the index its log was
  compacted to, which may be long before. The label does no harm: installed anywhere under the older index, and
  followed by the entries the label leaves out, the snapshot gives the content it was taken from,
  since the session table that travels with it makes each of those entries a duplicate.
\<close>
theorem late_snapshot_heals:
  assumes "fsm_ready s0" "apply_all (fsm_apply c) es s0 = (Inr (), s)" "fsm_ready s" "fsm_keyed s" "fsm_ready g"
    and "decode_snapshot c (encode_snapshot c (snapshot_of s)) = Some (snapshot_of s)"
    and "\<And>k. is_u64 (Suc (last_seen (fsm_abs s) k))"
  shows "\<exists>dat g1 g2. fsm_snapshot c s = Inr dat \<and> fsm_install_snapshot c (v_applied (fsm_abs s0)) dat g = (Inr (), g1)
    \<and> v_applied (fsm_abs g1) = v_applied (fsm_abs s0)
    \<and> apply_all (fsm_apply c) es g1 = (Inr (), g2) \<and> fsm_abs g2 = fsm_abs s"
proof -
  obtain g1 where g1: "fsm_install_snapshot c (v_applied (fsm_abs s0)) (encode_snapshot c (snapshot_of s)) g = (Inr (), g1)"
      "fsm_abs g1 = (fsm_abs s)\<lparr>v_applied := v_applied (fsm_abs s0)\<rparr>" "fsm_ready g1"
    using install_snapshot_of[OF assms(3-6)] by blast
  from replay_heals[OF assms(1,2) g1(3,2) assms(7)] g1 fsm_snapshot_healthy[OF assms(3), of c] show ?thesis by auto
qed

theorem late_snapshot_heals_witness:
  "\<exists>s1. fsm_apply sample_codec 1 [] empty_fsm = (Inr (), s1) \<and> fsm_abs s1 \<noteq> fsm_abs empty_fsm
    \<and> (\<exists>c dat g1 g2. fsm_snapshot c s1 = Inr dat \<and> fsm_install_snapshot c 0 dat empty_fsm = (Inr (), g1)
        \<and> apply_all (fsm_apply c) [(1, [])] g1 = (Inr (), g2) \<and> fsm_abs g2 = fsm_abs s1)"
proof -
  obtain r s1 where r: "fsm_apply sample_codec 1 [] empty_fsm = (r, s1)" by fastforce
  obtain v where v: "spec_apply sample_codec 1 [] (fsm_abs empty_fsm) = Some v" "v_items v ''milk'' \<noteq> None"
    using sample_apply by auto
  have s1: "r = Inr ()" "fsm_abs s1 = v" "fsm_ready s1" using fsm_apply_refines[OF empty_fsm_ready r] v by auto
  have ne: "fsm_abs s1 \<noteq> fsm_abs empty_fsm" using s1(2) v(2) by (auto simp: fsm_abs_def empty_fsm_def tree_get_def)
  have "fsm_trees_ok empty_fsm" "fsm_keyed empty_fsm" by (simp_all add: fsm_trees_ok_def fsm_keyed_def empty_fsm_def)
  then have k: "fsm_keyed s1" using apply_keeps_keys[OF _ _ r] by (simp add: sample_codec_def)
  let ?c = "sample_codec\<lparr>decode_snapshot := \<lambda>_. Some (snapshot_of s1)\<rparr>"
  have p: "parse_client_id ?c = parse_client_id sample_codec" by (simp add: fun_eq_iff parse_client_id_def)
  have c: "fsm_apply ?c i data s = fsm_apply sample_codec i data s" for i data s
    unfolding fsm_apply_def p by simp
  have seen: "last_seen v k \<le> 1" for k
    using v(1) by (auto simp: spec_apply_def spec_commit_def sample_codec_def sample_mutation_def fsm_abs_def empty_fsm_def last_seen_def
        tree_get_def Let_def mutation_status_try_from_def new_session_record_def split: if_splits)
  have u: "is_u64 (Suc (last_seen (fsm_abs s1) k))" for k
    using seen[of k] s1(2) by (simp add: is_u64_def u64_bound_def)
  have "apply_all (fsm_apply ?c) [(1, [])] empty_fsm = (Inr (), s1)" using r s1(1) c by (simp add: st_bind_def)
  from late_snapshot_heals[OF empty_fsm_ready this s1(3) k empty_fsm_ready _ u] r s1(1) ne show ?thesis
    by (auto simp: fsm_abs_def empty_fsm_def)
qed

section \<open>From the leader's state machine to the follower's\<close>

text \<open>
  C10 A snapshot arrives whole. The leader's task freezes its applier, serializes, thaws, and sends a request whose
  trace id and sender the follower reads back; a follower that is behind takes it, whatever role but leader it is in;
  the answer the leader's task waits for is a success for the index sent; and when the background task is through, the
  follower's state machine has the leader's content under that index, its applied index is that
  index, its commit index at least that, its log starts behind it, and its applier is free again.
\<close>
theorem snapshot_transfer:
  assumes "fsm_ready (sh_fsm ls)" "fsm_keyed (sh_fsm ls)" "sh_depth ls \<noteq> - 1" "valid_node_id (rr_node_id params)"
    and "decode_snapshot c (encode_snapshot c (snapshot_of (sh_fsm ls))) = Some (snapshot_of (sh_fsm ls))"
    and "healthy d" "hard_state_ok d" "log_ok d" "role ln \<noteq> Poisoned" "\<And>n. role ln \<noteq> Leader n"
    and "disk_term d \<le> rr_term params" "is_u64 (rr_term params)" "is_u64 i"
    and "role_applied (role ln) < i" "disk_snap d \<le> role_applied (role ln)" "fsm_ready (sh_fsm fs)" "sh_depth fs \<noteq> - 1"
  shows "\<exists>req k job w1 fs1 ln' d' fs'.
    run_sections 3 (serialize_snapshot (fsm_snapshot c) tr peer params i it) (lw, ls) = (Inr (CallSnapshot peer req k), lw, ls)
    \<and> rpc_install_snapshot (fsm_install_snapshot c) \<lparr>req_trace = Some tr, req_inner = req\<rparr> ((ln, d), fs)
      = (Inr (Inr (\<lparr>resp_trace = Some tr, resp_inner = rr_term params\<rparr>, Some job)), w1, fs1)
    \<and> k (Inr \<lparr>resp_trace = Some tr, resp_inner = rr_term params\<rparr>) = Done (peer, Inr (Some (OInstallSnapshot i (rr_term params))))
    \<and> run_sections 2 job (w1, fs1) = (Inr (Done ()), (ln', d'), fs')
    \<and> fsm_abs (sh_fsm fs') = (fsm_abs (sh_fsm ls))\<lparr>v_applied := i\<rparr> \<and> fsm_ready (sh_fsm fs') \<and> sh_depth fs' = sh_depth fs
    \<and> role_applied (role ln') = i \<and> role_commit (role ln') = max i (role_commit (role ln))
    \<and> log_ok d' \<and> disk_snap d' = i \<and> disk_last d' = max (disk_last d) i"
proof -
  let ?dat = "encode_snapshot c (snapshot_of (sh_fsm ls))"
  let ?req = "new_install_snapshot_request (rr_term params) (rr_node_id params) i it ?dat"
  let ?p = "\<lparr>sp_leader_id = rr_node_id params, sp_term = rr_term params, sp_last_included_index = i,
     sp_last_included_term = it, sp_data = ?dat, sp_trace_id = tr\<rparr>"
  obtain g where g: "fsm_install_snapshot c i ?dat (sh_fsm fs) = (Inr (), g)" "fsm_ready g"
      "fsm_abs g = (fsm_abs (sh_fsm ls))\<lparr>v_applied := i\<rparr>"
    using install_snapshot_of[OF assms(1,2,16,5)] by blast
  obtain ln1 where h: "handle_install_snapshot (rr_node_id params) (rr_term params) i (ln, d)
        = (Inr \<lparr>iss_term = rr_term params, iss_action = Accepted\<rparr>, ln1, seen_term (rr_term params) d)"
      "role ln1 \<noteq> Poisoned" "role_commit (role ln1) = role_commit (role ln)"
    using install_snapshot_accepted[OF assms(6,7,12,11,9,10,14)] by blast
  let ?w1 = "(ln1, seen_term (rr_term params) d)" and ?fs1 = "fs\<lparr>sh_depth := sh_depth fs + 1\<rparr>"
  have p: "snapshot_params_try_from_proto \<lparr>req_trace = Some tr, req_inner = ?req\<rparr> = Inr ?p"
    using assms(4) by (simp add: snapshot_params_try_from_proto_def require_trace_id_def parse_sender_def new_install_snapshot_request_def
        node_id_from_str_to_string)
  have o: "orchestrate_install_snapshot (fsm_install_snapshot c) ?p ((ln, d), fs)
      = (Inr (rr_term params, Some (background_snapshot_install (fsm_install_snapshot c) ?p)), ?w1, ?fs1)"
    using h(1) assms(17) by (simp add: orchestrate_install_snapshot_def snapshot_phase1_def freeze_thaw)
  have snap: "disk_snap d \<le> i" using assms(14,15) by simp
  obtain ln' d' where j: "run_sections 2 (background_snapshot_install (fsm_install_snapshot c) ?p) (?w1, ?fs1)
        = (Inr (Done ()), (ln', d'), ?fs1\<lparr>sh_depth := sh_depth fs, sh_fsm := g\<rparr>)" "role_applied (role ln') = i"
      "role_commit (role ln') = max i (role_commit (role ln))" "log_ok d'" "disk_snap d' = i" "disk_last d' = max (disk_last d) i"
    using job_run[of "seen_term (rr_term params) d" ln1 ?p ?fs1 "sh_depth fs" "fsm_install_snapshot c" g] assms(6,8,13,17) h g(1) snap
    by auto
  obtain k :: "status + raft_term response \<Rightarrow> (fsm_store shell, node_id \<times> (status + replication_outcome option)) task"
    where k: "install_snapshot_to_peer tr peer ?req = CallSnapshot peer ?req k"
      "k (Inr \<lparr>resp_trace = Some tr, resp_inner = rr_term params\<rparr>) = Done (peer, Inr (Some (OInstallSnapshot i (rr_term params))))"
    by (simp add: install_snapshot_to_peer_def verify_trace_integrity_def new_install_snapshot_request_def)
  have s1: "run_sections 3 (serialize_snapshot (fsm_snapshot c) tr peer params i it) (lw, ls) = (Inr (CallSnapshot peer ?req k), lw, ls)"
    using serialize_run[OF assms(1,3), of c tr peer params i it lw] k(1) by simp
  have s2: "rpc_install_snapshot (fsm_install_snapshot c) \<lparr>req_trace = Some tr, req_inner = ?req\<rparr> ((ln, d), fs)
      = (Inr (Inr (\<lparr>resp_trace = Some tr, resp_inner = rr_term params\<rparr>, Some (background_snapshot_install (fsm_install_snapshot c) ?p))),
         ?w1, ?fs1)"
    using p o by (simp add: rpc_install_snapshot_def st_bind_def)
  have s3: "fsm_abs (sh_fsm (?fs1\<lparr>sh_depth := sh_depth fs, sh_fsm := g\<rparr>)) = (fsm_abs (sh_fsm ls))\<lparr>v_applied := i\<rparr>"
      "fsm_ready (sh_fsm (?fs1\<lparr>sh_depth := sh_depth fs, sh_fsm := g\<rparr>))"
      "sh_depth (?fs1\<lparr>sh_depth := sh_depth fs, sh_fsm := g\<rparr>) = sh_depth fs"
    using g by simp_all
  from s1 s2 k(2) j(1) s3 j(2-) show ?thesis by blast
qed

theorem snapshot_transfer_witness:
  "\<exists>req k job w1 fs1 w2 fs2.
    run_sections 3 (serialize_snapshot (fsm_snapshot sample_codec) 7 2 \<lparr>rr_term = 3, rr_node_id = 1, rr_last_committed = 9\<rparr> 9 2)
      ((sample_node (Leader sample_leader), sample_store 3), \<lparr>sh_depth = 0, sh_permits = {2}, sh_fsm = empty_fsm\<rparr>)
      = (Inr (CallSnapshot 2 req k), (sample_node (Leader sample_leader), sample_store 3),
         \<lparr>sh_depth = 0, sh_permits = {2}, sh_fsm = empty_fsm\<rparr>)
    \<and> rpc_install_snapshot (fsm_install_snapshot sample_codec) \<lparr>req_trace = Some 7, req_inner = req\<rparr>
      ((sample_node (Follower sample_follower), sample_store 1), \<lparr>sh_depth = 0, sh_permits = {}, sh_fsm = empty_fsm\<rparr>)
      = (Inr (Inr (\<lparr>resp_trace = Some 7, resp_inner = 3\<rparr>, Some job)), w1, fs1)
    \<and> run_sections 2 job (w1, fs1) = (Inr (Done ()), w2, fs2) \<and> v_applied (fsm_abs (sh_fsm fs2)) = 9"
proof -
  have "decode_snapshot sample_codec (encode_snapshot sample_codec (snapshot_of empty_fsm)) = Some (snapshot_of empty_fsm)"
    "fsm_keyed empty_fsm"
    by (simp_all add: sample_codec_def sample_snapshot_def snapshot_of_def fsm_abs_def empty_fsm_def fsm_keyed_def)
  then show ?thesis
    using snapshot_transfer[of "\<lparr>sh_depth = 0, sh_permits = {2}, sh_fsm = empty_fsm\<rparr>" "\<lparr>rr_term = 3, rr_node_id = 1, rr_last_committed = 9\<rparr>"
        sample_codec "sample_store 1" "sample_node (Follower sample_follower)" 9 "\<lparr>sh_depth = 0, sh_permits = {}, sh_fsm = empty_fsm\<rparr>"
        7 2 2 "(sample_node (Leader sample_leader), sample_store 3)"]
    by (fastforce simp: sample_node_def sample_follower_def is_u64_def u64_bound_def valid_node_id_def)
qed


text \<open>
  C36 The background task does not look again whether the snapshot is still ahead of the node. An applier that was running
  when the snapshot was accepted holds the state machine's lock and applies on; when it has passed the
  snapshot's index, the task then takes both the state machine and the applied index back to it.
\<close>
theorem install_after_applier:
  assumes "healthy d" "hard_state_ok d" "log_ok d" "role ln \<noteq> Poisoned" "\<And>n. role ln \<noteq> Leader n" "is_u64 (disk_last d)"
    and "disk_term d \<le> sp_term p" "is_u64 (sp_term p)" "sh_depth sh \<noteq> - 1" "disk_snap d \<le> role_applied (role ln)"
    and "role_applied (role ln) < sp_last_included_index p" "sp_last_included_index p < role_commit (role ln)"
    and "role_commit (role ln) \<le> disk_last d"
    and "apply_all ap (committed_entries d (role_applied (role ln)) (role_commit (role ln))) (sh_fsm sh) = (Inr (), f)"
    and "install (sp_last_included_index p) (sp_data p) f = (Inr (), g)"
  shows "\<exists>job w1 sh1 w2 w3 sh3.
    orchestrate_install_snapshot install p ((ln, d), sh) = (Inr (sp_term p, Some job), w1, sh1)
    \<and> apply_committed ap (role_commit (role ln) - role_applied (role ln)) (w1, sh_fsm sh1) = (Inr True, w2, f)
    \<and> role_applied (role (fst w2)) = role_commit (role ln)
    \<and> run_sections 2 job (w2, sh1\<lparr>sh_fsm := f\<rparr>) = (Inr (Done ()), w3, sh3)
    \<and> role_applied (role (fst w3)) = sp_last_included_index p \<and> sh_fsm sh3 = g"
proof -
  let ?i = "sp_last_included_index p" and ?d = "seen_term (sp_term p) d" and ?sh = "sh\<lparr>sh_depth := sh_depth sh + 1\<rparr>"
  obtain ln1 where h: "handle_install_snapshot (sp_leader_id p) (sp_term p) ?i (ln, d)
        = (Inr \<lparr>iss_term = sp_term p, iss_action = Accepted\<rparr>, ln1, ?d)"
      "role ln1 \<noteq> Poisoned" "role_commit (role ln1) = role_commit (role ln)" "role_applied (role ln1) = role_applied (role ln)"
    using install_snapshot_accepted[OF assms(1,2,8,7,4,5,11)] by blast
  have o: "orchestrate_install_snapshot install p ((ln, d), sh)
      = (Inr (sp_term p, Some (background_snapshot_install install p)), (ln1, ?d), ?sh)"
    using h(1) assms(9) by (simp add: orchestrate_install_snapshot_def snapshot_phase1_def freeze_thaw)
  have es: "committed_entries ?d a c = committed_entries d a c" for a c by (simp add: committed_entries_def)
  let ?ln2 = "ln1\<lparr>role := with_applied (role_commit (role ln)) (role ln1)\<rparr>"
  have a: "apply_committed ap (role_commit (role ln) - role_applied (role ln)) ((ln1, ?d), sh_fsm ?sh) = (Inr True, (?ln2, ?d), f)"
    using apply_committed_healthy[of ?d ln1 ap "sh_fsm ?sh" "Inr ()" f] h(2-4) assms es by simp
  have le: "disk_snap ?d \<le> ?i" "is_u64 ?i"
    using assms(6,10-13) by (simp_all add: is_u64_def)
  obtain ln' d' where j: "run_sections 2 (background_snapshot_install install p) ((?ln2, ?d), ?sh\<lparr>sh_fsm := f\<rparr>)
        = (Inr (Done ()), (ln', d'), (?sh\<lparr>sh_fsm := f\<rparr>)\<lparr>sh_depth := sh_depth sh, sh_fsm := g\<rparr>)" "role_applied (role ln') = ?i"
    using job_run[of ?d ?ln2 p "?sh\<lparr>sh_fsm := f\<rparr>" "sh_depth sh" install g] assms(1,3,9,15) h(2) le by auto
  have e: "role_applied (role (fst (?ln2, ?d))) = role_commit (role ln)" using h(2) by simp
  have g: "role_applied (role (fst (ln', d'))) = ?i" "sh_fsm ((?sh\<lparr>sh_fsm := f\<rparr>)\<lparr>sh_depth := sh_depth sh, sh_fsm := g\<rparr>) = g"
    using j(2) by simp_all
  from o a e j(1) g show ?thesis by blast
qed

theorem install_after_applier_witness:
  "\<exists>job w1 sh1 w2 f w3 sh3.
    orchestrate_install_snapshot (fsm_install_snapshot sample_codec)
        \<lparr>sp_leader_id = 2, sp_term = 1, sp_last_included_index = 1, sp_last_included_term = 1, sp_data = [], sp_trace_id = 7\<rparr>
        ((sample_node (Follower (sample_follower\<lparr>last_committed := 2\<rparr>)), sample_store 1),
         \<lparr>sh_depth = 0, sh_permits = {}, sh_fsm = empty_fsm\<rparr>) = (Inr (1, Some job), w1, sh1)
    \<and> apply_committed (fsm_apply sample_codec) 2 (w1, sh_fsm sh1) = (Inr True, w2, f) \<and> v_applied (fsm_abs f) = 2
    \<and> run_sections 2 job (w2, sh1\<lparr>sh_fsm := f\<rparr>) = (Inr (Done ()), w3, sh3) \<and> v_applied (fsm_abs (sh_fsm sh3)) = 1"
proof -
  let ?p = "\<lparr>sp_leader_id = 2, sp_term = 1, sp_last_included_index = 1, sp_last_included_term = 1, sp_data = [], sp_trace_id = 7\<rparr>"
  let ?ln = "sample_node (Follower (sample_follower\<lparr>last_committed := 2\<rparr>))"
  obtain f where f: "apply_all (fsm_apply sample_codec) (committed_entries (sample_store 1) 0 2) empty_fsm = (Inr (), f)"
      "v_applied (fsm_abs f) = 2" "fsm_ready f"
    using sample_two_entries by blast
  have k: "fsm_keyed empty_fsm" and c: "encode_snapshot sample_codec (snapshot_of empty_fsm) = [1]"
      "decode_snapshot sample_codec x = Some (snapshot_of empty_fsm)" for x
    by (simp_all add: sample_codec_def sample_snapshot_def snapshot_of_def fsm_abs_def empty_fsm_def fsm_keyed_def)
  have data: "fsm_install_snapshot sample_codec 1 [] s = fsm_install_snapshot sample_codec 1 [1] s" for s
    by (simp add: fsm_install_snapshot_def c(2))
  obtain g where g: "fsm_install_snapshot sample_codec 1 [] f = (Inr (), g)" "v_applied (fsm_abs g) = 1"
    using install_snapshot_of[OF empty_fsm_ready k f(3), of sample_codec 1] c data by auto
  show ?thesis
    using install_after_applier[of "sample_store 1" ?ln ?p "\<lparr>sh_depth = 0, sh_permits = {}, sh_fsm = empty_fsm\<rparr>" "fsm_apply sample_codec" f
        "fsm_install_snapshot sample_codec" g] f g
    by (fastforce simp: sample_node_def sample_follower_def is_u64_def u64_bound_def)
qed


section \<open>Compaction keeps the content\<close>

lemma committed_entries_compact:
  assumes "\<forall>k. disk_entry d2 k = (if k \<le> i then None else disk_entry d k)" "i \<le> a"
  shows "committed_entries d2 a c = committed_entries d a c"
  using assms by (simp add: committed_entries_def)

text \<open>
  C19 A compaction cycle costs nothing: the log keeps its end, every entry behind the compacted index and every term it is asked
  for from that index on, the freeze the tick loop took is released, and the entries committed meanwhile are applied
  from what is left of the log, so that the state machine ends where it would without compaction.
\<close>
theorem compaction_cycle:
  assumes "healthy d" "log_ok d" "role ln \<noteq> Poisoned" "is_u64 (disk_last d)" "sh_depth sh \<noteq> 0"
    and "disk_snap d \<le> i" "i \<le> role_applied (role ln)" "role_applied (role ln) \<le> role_commit (role ln)" "role_commit (role ln) \<le> disk_last d"
    and "apply_all ap (committed_entries d (role_applied (role ln)) (role_commit (role ln))) (sh_fsm sh) = (Inr (), f)"
  shows "\<exists>d'. run_sections 4 (initiate_log_compaction ap (role_commit (role ln) - role_applied (role ln)) i (disk_term_at d i)) ((ln, d), sh)
      = (Inr (Done True), (ln\<lparr>role := with_applied (role_commit (role ln)) (role ln)\<rparr>, d'), sh\<lparr>sh_depth := sh_depth sh - 1, sh_fsm := f\<rparr>)
    \<and> log_ok d' \<and> disk_last d' = disk_last d \<and> disk_snap d' = i
    \<and> (\<forall>k. disk_entry d' k = (if k \<le> i then None else disk_entry d k)) \<and> (\<forall>k \<ge> i. disk_term_at d' k = disk_term_at d k)"
proof -
  let ?d1 = "d\<lparr>meta_snapshot_index := Some i, meta_snapshot_term := Some (disk_term_at d i)\<rparr>"
  let ?d2 = "set_log (map BRemove (incl_range (Suc 0) i)) ?d1"
  have h1: "healthy ?d1" and h2: "healthy ?d2" using assms(1) by (simp_all add: healthy_def set_log_def)
  have le: "i \<le> disk_last d" using assms(7-9) by simp
  have c: "log_ok ?d2" "disk_last ?d2 = disk_last d" "disk_snap ?d2 = i" "\<forall>k. disk_entry ?d2 k = (if k \<le> i then None else disk_entry d k)"
    using compaction_keeps_log[OF assms(1,2,6) le, of "disk_term_at d i"] assms(1) h1 by auto
  have t: "\<forall>k \<ge> i. disk_term_at ?d2 k = disk_term_at d k"
    using c(3,4) assms(6) by (auto simp: disk_term_at_def set_log_def)
  note e = committed_entries_compact[OF c(4) assms(7)]
  have a: "apply_committed ap (role_commit (role ln) - role_applied (role ln)) ((ln, ?d2), sh_fsm sh)
      = (Inr True, (ln\<lparr>role := with_applied (role_commit (role ln)) (role ln)\<rparr>, ?d2), f)"
    using apply_committed_healthy[OF h2 c(1) assms(3), of ap "sh_fsm sh" "Inr ()" f] assms(4,7-10) c(2,3) e by simp
  have "run_sections 4 (initiate_log_compaction ap (role_commit (role ln) - role_applied (role ln)) i (disk_term_at d i)) ((ln, d), sh)
      = (Inr (Done True), (ln\<lparr>role := with_applied (role_commit (role ln)) (role ln)\<rparr>, ?d2), sh\<lparr>sh_depth := sh_depth sh - 1, sh_fsm := f\<rparr>)"
    using save_metadata_healthy[OF assms(1,3), of i "disk_term_at d i"] h1 a assms(5)
    by (simp add: initiate_log_compaction_def locked_def compaction_truncate_def compaction_finish_def depth_section_def fsm_section_def
        thaw_def Let_def eval_nat_numeral run_sections_Locked)
  with c t show ?thesis by blast
qed

theorem compaction_cycle_witness:
  "\<exists>w' sh'. run_sections 4 (initiate_log_compaction (fsm_apply sample_codec) 0 1 1)
      ((sample_node (Follower (sample_follower\<lparr>last_applied := 1, last_committed := 1\<rparr>)), sample_store 1),
       \<lparr>sh_depth = 1, sh_permits = {}, sh_fsm = empty_fsm\<rparr>) = (Inr (Done True), w', sh')
    \<and> sh_depth sh' = 0 \<and> disk_last (snd w') = 2 \<and> disk_entry (snd w') 1 = None"
proof -
  have "disk_term_at (sample_store 1) 1 = 1" by (simp add: sample_term_at)
  then show ?thesis
    using compaction_cycle[of "sample_store 1" "sample_node (Follower (sample_follower\<lparr>last_applied := 1, last_committed := 1\<rparr>))"
        "\<lparr>sh_depth = 1, sh_permits = {}, sh_fsm = empty_fsm\<rparr>" 1 "fsm_apply sample_codec" empty_fsm]
    by (force simp: sample_node_def committed_entries_simps is_u64_def u64_bound_def)
qed

end
