(* ===== verification/Clock_Properties.thy ===== *)
theory Clock_Properties
  imports Handler_Properties
begin

text \<open>
  The logical clock: when the timers of each role fire, over single ticks and over runs of the clock, and
  what a poisoned node answers to a tick.
\<close>

section \<open>Timers\<close>

text \<open>
  A timer fires exactly when its period has elapsed, in 64-bit ticks without wrap-around: a follower asks for
  a pre-vote, a pre-candidate steps down, a candidate restarts its election and a leader sends heartbeats
  when the clock is at least the start plus the period. Before its start a follower's timer never fires,
  and the other timers fire there only when their period is zero.
\<close>
theorem timers_fire_on_time:
  "follower_evaluate_tick f now = (if unat (f_last_heartbeat f) + unat (f_timeout f) \<le> unat now then StartPreVote else NoAction)
   \<and> pre_candidate_evaluate_tick p now =
       (if pc_timeout p = 0 \<or> unat (campaign_start p) + unat (pc_timeout p) \<le> unat now then StepDown else NoAction)
   \<and> candidate_evaluate_tick c now =
       (if c_timeout c = 0 \<or> unat (election_start c) + unat (c_timeout c) \<le> unat now then StartElection else NoAction)
   \<and> leader_evaluate_tick l now th =
       (if th = 0 \<or> unat (l_last_heartbeat l) + unat th \<le> unat now then SendHeartbeat else NoAction)"
proof -
  have "th \<le> tick_sub a b \<longleftrightarrow> th = 0 \<or> unat b + unat th \<le> unat a" for a b th :: "64 word"
    using unat_eq_0[of th] by (auto simp: word_le_nat_alt unat_tick_sub)
  then show ?thesis
    by (auto simp: follower_evaluate_tick_def pre_candidate_evaluate_tick_def candidate_evaluate_tick_def
        leader_evaluate_tick_def word_le_nat_alt unat_eq_0)
qed

fun run_ticks :: "nat \<Rightarrow> world \<Rightarrow> tick_action list \<times> world" where
  "run_ticks 0 w = ([], w)"
| "run_ticks (Suc k) w =
     (case ln_tick w of (r, w') \<Rightarrow> (case run_ticks k w' of (as, w'') \<Rightarrow> ((case r of Inr a \<Rightarrow> a | Inl _ \<Rightarrow> Stop) # as, w'')))"

definition fires_after :: "nat \<Rightarrow> tick_action \<Rightarrow> nat \<Rightarrow> nat \<Rightarrow> tick_action list" where
  "fires_after period a j k = map (\<lambda>i. if period \<le> i then a else NoAction) [Suc j..<Suc j + k]"

lemma fires_after_Suc: "fires_after period a j (Suc k) = (if period \<le> Suc j then a else NoAction) # fires_after period a (Suc j) k"
  by (simp add: fires_after_def upt_conv_Cons del: upt_Suc)

lemma unat_next_tick: "unat (t :: 64 word) + 1 < 2 ^ 64 \<Longrightarrow> unat (t + 1) = unat t + 1"
  by (simp add: unat_word_ariths)

lemma run_ticks_follower:
  assumes "role ln = Follower n" "unat (current_tick ln) = unat (f_last_heartbeat (state n)) + j"
    "unat (current_tick ln) + k < 2 ^ 64"
  shows "fst (run_ticks k (ln, d)) = fires_after (unat (f_timeout (state n))) StartPreVote j k"
  using assms
proof (induction k arbitrary: ln j)
  case (Suc k)
  let ?ln = "ln\<lparr>current_tick := current_tick ln + 1\<rparr>"
  have u: "unat (current_tick ln + 1) = unat (current_tick ln) + 1"
    using Suc.prems(3) by (intro unat_next_tick) simp
  have e: "follower_evaluate_tick (state n) (current_tick ln + 1)
      = (if unat (f_timeout (state n)) \<le> Suc j then StartPreVote else NoAction)"
    using Suc.prems(2) u by (simp add: follower_evaluate_tick_def word_le_nat_alt unat_tick_sub)
  have "fst (run_ticks k (?ln, d)) = fires_after (unat (f_timeout (state n))) StartPreVote (Suc j) k"
    using Suc.prems u by (intro Suc.IH) simp_all
  then show ?case
    using Suc.prems(1) e by (simp add: ln_tick_def Let_def tick_increment_def fires_after_Suc case_prod_beta)
qed (simp add: fires_after_def)

text \<open>
  A follower that just heard from its leader stays quiet for its whole election timeout and then asks for a
  pre-vote on every tick: over the next \<open>k\<close> ticks the clock's answers are no action before the timeout
  and the start of a pre-vote from it on.
\<close>
theorem election_timer:
  assumes "role ln = Follower n" "f_last_heartbeat (state n) = current_tick ln" "unat (current_tick ln) + k < 2 ^ 64"
  shows "fst (run_ticks k (ln, d)) = map (\<lambda>i. if unat (f_timeout (state n)) \<le> i then StartPreVote else NoAction) [1..<Suc k]"
  using run_ticks_follower[of ln n 0 k d] assms by (simp add: fires_after_def)

theorem election_timer_witness:
  "fst (run_ticks 16 (sample_node (Follower sample_follower), empty_store)) = replicate 14 NoAction @ [StartPreVote, StartPreVote]"
proof -
  have "fst (run_ticks 16 (sample_node (Follower sample_follower), empty_store))
      = map (\<lambda>i. if 15 \<le> i then StartPreVote else NoAction) [1..<Suc 16]"
    using election_timer[of "sample_node (Follower sample_follower)" sample_follower 16 empty_store]
    by (simp add: sample_node_def sample_follower_def new_follower_def del: upt_Suc)
  also have "\<dots> = replicate 14 NoAction @ [StartPreVote, StartPreVote]"
    by (simp add: numeral_eq_Suc upt_rec)
  finally show ?thesis .
qed

section \<open>Tick section\<close>

text \<open>
  Once a leader's heartbeat period has elapsed it broadcasts on every tick: the tick section of a due leader
  dispatches a replication round and leaves the time of the last heartbeat unchanged, so the next tick
  finds it due again.
\<close>
theorem leader_beats_every_tick:
  assumes "healthy d" "hard_state_ok d" "role ln = Leader n" "unat (current_tick ln) + 1 < 2 ^ 64"
    and "unat (l_last_heartbeat (state n)) + unat (heartbeat_interval (thresholds ln)) \<le> unat (current_tick ln) + 1"
  shows "\<exists>c ln'. tick_section th fr (ln, d) =
      (Inr (c, DispatchReplication \<lparr>rr_term = disk_term d, rr_node_id = node_id (identity n), rr_last_committed = last_committed n\<rparr>),
       ln', d)
    \<and> role ln' = Leader n \<and> current_tick ln' = current_tick ln + 1 \<and> thresholds ln' = thresholds ln"
proof -
  have u: "unat (current_tick ln + 1) = unat (current_tick ln) + 1" using assms(4) by (rule unat_next_tick)
  have "leader_evaluate_tick (state n) (current_tick ln + 1) (heartbeat_interval (thresholds ln)) = SendHeartbeat"
    using assms(5) u by (simp add: leader_evaluate_tick_def word_le_nat_alt unat_tick_sub)
  then show ?thesis
    using assms(1-3)
    by (auto simp: tick_section_def st_bind_def ln_tick_def Let_def tick_increment_def should_compact_log_def
        ln_last_applied_def ln_last_included_index_def ln_get_term_at_def delegate_read_def is_poisoned_def node_read_def
        dispatch_tick_def ln_node_id_def ln_last_committed_def)
qed

theorem leader_beats_every_tick_witness:
  "\<exists>c ln'. tick_section 100 False ((sample_node (Leader sample_leader))\<lparr>current_tick := 9\<rparr>, sample_store 1) =
     (Inr (c, DispatchReplication \<lparr>rr_term = 1, rr_node_id = 1, rr_last_committed = 0\<rparr>), ln', sample_store 1)"
  using leader_beats_every_tick[of "sample_store 1" "(sample_node (Leader sample_leader))\<lparr>current_tick := 9\<rparr>" sample_leader 100 False]
  by (auto simp: sample_node_def sample_leader_def sample_thresholds_def sample_identity_def is_u64_def u64_bound_def)

text \<open>
  On a poisoned node the tick section never reaches its dispatch: reading the term halts first, so the loop
  ends by a panic and its branch for a stop signal is not reached.
\<close>
theorem poisoned_tick_halts:
  "fst (tick_section th fr (ln\<lparr>role := Poisoned\<rparr>, d)) = Inl HaltPoisoned"
  by (simp add: tick_section_def st_bind_def ln_tick_def Let_def ln_current_term_def delegate_read_def is_poisoned_def)

end
