(* ===== verification/Tick_Loop.thy ===== *)
theory Tick_Loop
  imports Undisturbed Snapshot_Transfer Clock_Properties
begin

text \<open>
  The two loops that drive a node, \<open>spawn_tick_loop\<close> and \<open>spawn_background_applier\<close> of \<open>consensus/lifecycle.rs\<close>, one turn each. A
  turn of the tick loop is its locked section, with the freeze of a compaction it starts, followed by the launch of the tasks
  of \<open>Tasks\<close> or, for a pre-vote campaign that ran out of time, by a second section. The turns end with what they
  launch; the launched tasks interleave with everything else.
\<close>

section \<open>A turn of the tick loop\<close>

definition on_node :: "'a handler \<Rightarrow> (world \<times> 32 word, halt, 'a) proc" where
  "on_node h = (\<lambda>(w, depth). case h w of (r, w') \<Rightarrow> (r, w', depth))"

definition freeze_or_fatal :: "(world \<times> 32 word, halt, unit) proc" where
  "freeze_or_fatal = (\<lambda>(w, depth). case freeze depth of
     (Inl (FreezeInvariantError m), depth') \<Rightarrow> (case apply_fatal (Protocol m) w of (r, w') \<Rightarrow> (r, w', depth'))
   | (Inr _, depth') \<Rightarrow> (Inr (), w, depth'))"

definition tick_locked :: "64 word \<Rightarrow> (world \<times> 32 word, halt, (log_index \<times> raft_term) option \<times> tick_dispatch) proc" where
  "tick_locked threshold =
     st_bind (on_node ln_tick)
       (\<lambda>action. st_bind (on_node ln_current_term)
       (\<lambda>t. st_bind (\<lambda>(w, depth). on_node (should_compact_log threshold (is_frozen depth)) (w, depth))
       (\<lambda>compact. st_bind
          (if compact then
             st_bind freeze_or_fatal
               (\<lambda>_. st_bind (on_node ln_last_applied)
               (\<lambda>i. st_bind (on_node (ln_get_term_at i)) (\<lambda>it. st_return (Some (i, it)))))
           else st_return None)
       (\<lambda>compaction. st_bind (on_node (dispatch_tick t action))
       (\<lambda>disp. st_bind (on_node ln_node_id) (\<lambda>_. st_return (compaction, disp)))))))"

datatype launch =
  LaunchCompaction log_index raft_term
| LaunchElection campaign_params
| LaunchPreVote campaign_params
| LaunchReplication replication_round_params

text \<open>The result says whether the loop goes on and what it has launched, in order.\<close>

definition tick_turn :: "64 word \<Rightarrow> ('f shell, bool \<times> launch list) task" where
  "tick_turn threshold =
     depth_section (tick_locked threshold)
       (\<lambda>(compaction, disp).
          let started = (case compaction of None \<Rightarrow> [] | Some (i, it) \<Rightarrow> [LaunchCompaction i it])
          in case disp of
               DispatchElection p \<Rightarrow> Done (True, started @ [LaunchElection p])
             | DispatchPreVote p \<Rightarrow> Done (True, started @ [LaunchPreVote p])
             | DispatchStepDown \<Rightarrow> locked step_down_section (\<lambda>_. Done (True, started))
             | DispatchReplication p \<Rightarrow> Done (True, started @ [LaunchReplication p])
             | DispatchStop \<Rightarrow> Done (False, started)
             | DispatchNone \<Rightarrow> Done (True, started))"

text \<open>The tasks behind the launches, each with its trace ids; a pre-vote campaign needs a second one.\<close>

fun launched ::
  "(log_index \<Rightarrow> bytes \<Rightarrow> ('f, fsm_error, unit) proc) \<Rightarrow> nat \<Rightarrow> trace_id \<Rightarrow> trace_id \<Rightarrow> node_id list \<Rightarrow> launch \<Rightarrow> ('f shell, unit) task" where
  "launched ap fuel tr tr' peer_ids (LaunchCompaction i it) = task_bind (initiate_log_compaction ap fuel i it) (\<lambda>_. Done ())"
| "launched ap fuel tr tr' peer_ids (LaunchElection p) = start_election_campaign tr p peer_ids"
| "launched ap fuel tr tr' peer_ids (LaunchPreVote p) = start_pre_vote_campaign tr tr' p peer_ids"
| "launched ap fuel tr tr' peer_ids (LaunchReplication p) = initiate_replication p peer_ids"

section \<open>A turn of the background applier\<close>

definition applier_turn :: "(log_index \<Rightarrow> bytes \<Rightarrow> ('f, fsm_error, unit) proc) \<Rightarrow> nat \<Rightarrow> ('f shell, bool) task" where
  "applier_turn ap fuel =
     depth_section (\<lambda>(w, depth). (Inr (is_frozen depth), w, depth))
       (\<lambda>frozen. if frozen then Done False else fsm_section (apply_committed ap fuel) Done)"

section \<open>The freeze of a tick\<close>

lemma on_node_apply [simp]: "on_node h (w, depth) = (case h w of (r, w') \<Rightarrow> (r, w', depth))"
  by (simp add: on_node_def)

definition agrees :: "(world \<times> 32 word, halt, 'a) proc \<Rightarrow> 'a handler \<Rightarrow> (halt + 'a \<Rightarrow> 32 word \<Rightarrow> bool) \<Rightarrow> world \<Rightarrow> 32 word \<Rightarrow> bool" where
  "agrees p h Q w depth \<longleftrightarrow> (\<exists>depth'. p (w, depth) = (fst (h w), snd (h w), depth') \<and> Q (fst (h w)) depth')"

lemma agrees_bind:
  assumes "\<And>e. Q (Inl e) depth" "\<And>a w'. h w = (Inr a, w') \<Longrightarrow> agrees (f a) (k a) Q w' depth"
  shows "agrees (st_bind (on_node h) f) (st_bind h k) Q w depth"
proof -
  obtain r w' where h: "h w = (r, w')" by (cases "h w")
  show ?thesis
  proof (cases r)
    case (Inr a)
    with assms(2)[of a w'] h show ?thesis by (simp add: agrees_def st_bind_def)
  qed (use assms(1) h in \<open>simp add: agrees_def st_bind_def\<close>)
qed

lemma agrees_return [simp]: "agrees (st_return a) (st_return a) Q w depth \<longleftrightarrow> Q (Inr a) depth"
  by (simp add: agrees_def st_return_def)

lemma bind_assoc: "st_bind (st_bind m f) g = st_bind m (\<lambda>a. st_bind (f a) g)"
  by (auto simp: st_bind_def fun_eq_iff split: prod.splits sum.splits)

lemma agrees_cong: "p (w, depth) = q (w, depth) \<Longrightarrow> agrees p h Q w depth = agrees q h Q w depth"
  by (simp add: agrees_def)

lemma freeze_first: "freeze_or_fatal (w, 0) = (Inr (), w, 1)"
  by (simp add: freeze_or_fatal_def freeze_def)

lemma frozen_0 [simp]: "is_frozen 0 = False" "is_frozen depth \<longleftrightarrow> depth \<noteq> 0"
  by (simp_all add: is_frozen_def word_gt_0)

lemma should_compact_frozen: "should_compact_log th True w = (Inr False, w)"
  by (simp add: should_compact_log_def)

definition tick_depth :: "32 word \<Rightarrow> halt + (log_index \<times> raft_term) option \<times> tick_dispatch \<Rightarrow> 32 word \<Rightarrow> bool" where
  "tick_depth depth r depth' \<longleftrightarrow> (\<forall>c disp. r = Inr (c, disp) \<longrightarrow> depth' = (if c = None then depth else 1))
     \<and> (depth \<noteq> 0 \<longrightarrow> depth' = depth) \<and> (depth = 0 \<longrightarrow> depth' \<le> 1)"

abbreviation tail_locked :: "raft_term \<Rightarrow> tick_action \<Rightarrow> bool \<Rightarrow> (world \<times> 32 word, halt, (log_index \<times> raft_term) option \<times> tick_dispatch) proc" where
  "tail_locked t action compact \<equiv> st_bind
     (if compact then
        st_bind freeze_or_fatal
          (\<lambda>_. st_bind (on_node ln_last_applied) (\<lambda>i. st_bind (on_node (ln_get_term_at i)) (\<lambda>it. st_return (Some (i, it)))))
      else st_return None)
     (\<lambda>c. st_bind (on_node (dispatch_tick t action)) (\<lambda>disp. st_bind (on_node ln_node_id) (\<lambda>_. st_return (c, disp))))"

abbreviation tail_section :: "raft_term \<Rightarrow> tick_action \<Rightarrow> bool \<Rightarrow> ((log_index \<times> raft_term) option \<times> tick_dispatch) handler" where
  "tail_section t action compact \<equiv> st_bind
     (if compact then st_bind ln_last_applied (\<lambda>i. st_bind (ln_get_term_at i) (\<lambda>it. st_return (Some (i, it)))) else st_return None)
     (\<lambda>c. st_bind (dispatch_tick t action) (\<lambda>disp. st_bind ln_node_id (\<lambda>_. st_return (c, disp))))"

lemma tick_depth_err: "tick_depth depth (Inl x) depth" "depth = 0 \<Longrightarrow> tick_depth depth (Inl x) 1"
  by (simp_all add: tick_depth_def)

lemma tick_rest:
  assumes "c = None \<longrightarrow> dep = depth" "c \<noteq> None \<longrightarrow> dep = 1 \<and> depth = 0"
  shows "agrees (st_bind (on_node (dispatch_tick t action)) (\<lambda>disp. st_bind (on_node ln_node_id) (\<lambda>_. st_return (c, disp))))
    (st_bind (dispatch_tick t action) (\<lambda>disp. st_bind ln_node_id (\<lambda>_. st_return (c, disp)))) (tick_depth depth) w dep"
  by (intro agrees_bind, unfold agrees_return) (use assms in \<open>auto simp: tick_depth_def\<close>)

lemma tick_tail:
  assumes "compact \<longrightarrow> depth = 0"
  shows "agrees (tail_locked t action compact) (tail_section t action compact) (tick_depth depth) w depth"
proof (cases compact)
  case False
  then show ?thesis using tick_rest[of None depth depth] by (simp add: st_bind_def st_return_def)
next
  case True
  then have z: "depth = 0" using assms by simp
  let ?rest = "\<lambda>c. st_bind (on_node (dispatch_tick t action)) (\<lambda>disp. st_bind (on_node ln_node_id) (\<lambda>_. st_return (c, disp)))"
  have "agrees (st_bind (on_node ln_last_applied) (\<lambda>i. st_bind (on_node (ln_get_term_at i)) (\<lambda>it. ?rest (Some (i, it)))))
     (st_bind ln_last_applied (\<lambda>i. st_bind (ln_get_term_at i) (\<lambda>it. st_bind (dispatch_tick t action)
        (\<lambda>disp. st_bind ln_node_id (\<lambda>_. st_return (Some (i, it), disp)))))) (tick_depth depth) w 1"
    using tick_depth_err(2)[OF z] z by (intro agrees_bind tick_rest) simp_all
  then show ?thesis
    using True unfolding z by (simp add: agrees_def bind_assoc) (simp add: st_bind_def st_return_def freeze_first)
qed

lemma tick_compaction:
  "agrees (st_bind (\<lambda>(w, dep). on_node (should_compact_log th (is_frozen dep)) (w, dep)) (tail_locked t action))
     (st_bind (should_compact_log th (is_frozen depth)) (tail_section t action)) (tick_depth depth) w depth"
proof -
  have "agrees (st_bind (on_node (should_compact_log th (is_frozen depth))) (tail_locked t action))
      (st_bind (should_compact_log th (is_frozen depth)) (tail_section t action)) (tick_depth depth) w depth"
  proof (intro agrees_bind tick_depth_err(1))
    fix compact w'
    assume "should_compact_log th (is_frozen depth) w = (Inr compact, w')"
    then have "compact \<longrightarrow> depth = 0" using should_compact_frozen[of th w] by (cases "depth = 0") auto
    then show "agrees (tail_locked t action compact) (tail_section t action compact) (tick_depth depth) w' depth" by (rule tick_tail)
  qed
  then show ?thesis
    by (subst agrees_cong[where q = "st_bind (on_node (should_compact_log th (is_frozen depth))) (tail_locked t action)"]) (simp add: st_bind_def)
qed

text \<open>
  The freeze a tick takes never fails and never piles up: the loop compacts only while nothing is frozen, so it takes the depth from 0 to 1
  exactly when it starts a compaction, and does to the node what the section of \<open>Consensus\<close> does.
\<close>
theorem tick_freezes_once:
  assumes "tick_section th (is_frozen depth) w = (r, w')"
  shows "\<exists>depth'. tick_locked th (w, depth) = (r, w', depth')
    \<and> (\<forall>c disp. r = Inr (c, disp) \<longrightarrow> depth' = (if c = None then depth else 1))
    \<and> (depth \<noteq> 0 \<longrightarrow> depth' = depth) \<and> (depth = 0 \<longrightarrow> depth' \<le> 1)"
proof -
  have "agrees (tick_locked th) (tick_section th (is_frozen depth)) (tick_depth depth) w depth"
    unfolding tick_locked_def tick_section_def by (intro agrees_bind tick_depth_err(1) tick_compaction)
  with assms show ?thesis by (simp add: agrees_def tick_depth_def)
qed

text \<open>
  A turn of the applier does nothing while the state machine is frozen; otherwise it feeds the state machine the committed entries it has not
  seen, in order, and moves the node's applied index to its commit index.
\<close>
theorem applier_catches_up:
  assumes "healthy d" "log_ok d" "role ln \<noteq> Poisoned" "is_u64 (disk_last d)"
    and "disk_snap d \<le> role_applied (role ln)" "role_applied (role ln) \<le> role_commit (role ln)" "role_commit (role ln) \<le> disk_last d"
    and "apply_all ap (committed_entries d (role_applied (role ln)) (role_commit (role ln))) (sh_fsm sh) = (Inr (), f)"
  shows "alone (applier_turn ap (role_commit (role ln) - role_applied (role ln))) vs os ((ln, d), sh) =
    (if is_frozen (sh_depth sh) then (Inr (Some False), (ln, d), sh)
     else (Inr (Some True), (ln\<lparr>role := with_applied (role_commit (role ln)) (role ln)\<rparr>, d), sh\<lparr>sh_fsm := f\<rparr>))"
  using apply_committed_healthy[OF assms] by (simp add: applier_turn_def depth_section_def fsm_section_def)

theorem applier_catches_up_witness:
  "\<exists>w' f. alone (applier_turn (fsm_apply sample_codec) 2) [] []
      ((sample_node (Leader (sample_leader\<lparr>last_committed := 2\<rparr>)), sample_store 1), \<lparr>sh_depth = 0, sh_permits = {}, sh_fsm = empty_fsm\<rparr>)
    = (Inr (Some True), w', \<lparr>sh_depth = 0, sh_permits = {}, sh_fsm = f\<rparr>) \<and> v_applied (fsm_abs f) = 2"
proof -
  obtain f where f: "apply_all (fsm_apply sample_codec) (committed_entries (sample_store 1) 0 2) empty_fsm = (Inr (), f)" "v_applied (fsm_abs f) = 2"
    using sample_two_entries by blast
  with applier_catches_up[of "sample_store 1" "sample_node (Leader (sample_leader\<lparr>last_committed := 2\<rparr>))" "fsm_apply sample_codec"
      "\<lparr>sh_depth = 0, sh_permits = {}, sh_fsm = empty_fsm\<rparr>" f "[]" "[]"]
  show ?thesis by (simp add: sample_node_def sample_leader_def is_u64_def u64_bound_def)
qed

section \<open>From a timeout to a leader\<close>

definition pre_grants :: "trace_id \<Rightarrow> vote_answer list \<Rightarrow> nat" where
  "pre_grants tr vs = length (filter (\<lambda>(_, ans). process_pre_vote_response (request_vote_from_peer tr ans)) vs)"

lemma pre_grants_simps [simp]:
  "pre_grants tr [] = 0"
  "pre_grants tr ((j, ans) # vs) = (if process_pre_vote_response (request_vote_from_peer tr ans) then 1 else 0) + pre_grants tr vs"
  by (simp_all add: pre_grants_def)

lemma pre_vote_stays:
  assumes "\<And>resp. res = Inr resp \<Longrightarrow> rvr_term resp \<le> t"
  shows "pre_vote_step_down t res w = (Inr False, w)"
  using assms by (cases res) (simp_all add: pre_vote_step_down_def)

lemma pre_votes_alone:
  assumes "not_outvoted tr (cp_term p) (pvs @ [(j, ans)])" "v + pre_grants tr pvs + 1 = quorum_size ps"
    and "process_pre_vote_response (request_vote_from_peer tr ans)"
  shows "alone (tally_pre_votes tr tr' p ps (length pvs + Suc m) v) (pvs @ (j, ans) # vs) os (w, x)
    = alone (locked pre_vote_won (\<lambda>p'. initiate_election tr' p' ps)) vs os (w, x)"
  using assms(1,2)
proof (induction pvs arbitrary: v)
  case Nil
  then have "pre_vote_step_down (cp_term p) (request_vote_from_peer tr ans) w = (Inr False, w)"
    by (intro pre_vote_stays) (auto simp: not_outvoted_def)
  then show ?case using Nil(2) assms(3) by (simp add: Let_def)
next
  case (Cons a pvs)
  obtain i b where a: "a = (i, b)" by (cases a)
  have s: "pre_vote_step_down (cp_term p) (request_vote_from_peer tr b) w = (Inr False, w)"
    using Cons.prems(1) by (intro pre_vote_stays) (auto simp: not_outvoted_def a)
  have rest: "not_outvoted tr (cp_term p) (pvs @ [(j, ans)])" using Cons.prems(1) by (simp add: not_outvoted_def)
  show ?case
    using Cons.IH[OF rest, of v] Cons.IH[OF rest, of "v + 1"] Cons.prems(2) s by (simp add: a Let_def split: if_splits)
qed

lemma candidacy_healthy:
  assumes "healthy d" "hard_state_ok d" "is_u64 (Suc (disk_term d))" "role ln = PreCandidate n" "valid_node_id (node_id (identity n))"
  shows "\<exists>ln' d' n'. pre_vote_won (ln, d) = (Inr \<lparr>cp_term = Suc (disk_term d), cp_node_id = node_id (identity n),
        cp_last_log_index = disk_last d, cp_last_log_term = disk_last_term d\<rparr>, ln', d')
    \<and> role ln' = Candidate n' \<and> votes_received (state n') = {node_id (identity n)} \<and> last_committed n' = last_committed n
    \<and> d' = set_hard_state (Suc (disk_term d)) (Some (node_id (identity n))) d"
proof -
  let ?me = "node_id (identity n)"
  have t: "term_add (disk_term d) 1 = Inr (Suc (disk_term d))" using assms(3) by (simp add: term_add_def checked_add_u64_def is_u64_def)
  obtain tmo r' where g: "generate_election_timeout (thresholds ln) (rng ln) = (tmo, r')" by (cases "generate_election_timeout (thresholds ln) (rng ln)")
  have h: "healthy (set_hard_state (Suc (disk_term d)) (Some ?me) d)" "disk_term (set_hard_state (Suc (disk_term d)) (Some ?me) d) = Suc (disk_term d)"
    "hard_state_ok (set_hard_state (Suc (disk_term d)) (Some ?me) d)" using assms by simp_all
  show ?thesis
    using assms t g h
    by (simp add: pre_vote_won_def begin_candidacy_def into_candidate_def pre_candidate_try_into_candidate_def start_campaign_def
        advance_term_and_vote_def node_read_def install_role_def node_transition_def new_candidate_def add_vote_def capture_campaign_def
        ln_node_id_def ln_last_log_index_def ln_last_log_term_def delegate_read_def is_poisoned_def st_bind_def Let_def)
qed

lemma tick_alone:
  assumes "tick_section th (is_frozen (sh_depth sh)) (ln, d) = (Inr (c, DispatchPreVote p), w')"
  shows "\<exists>depth. alone (tick_turn th) vs os ((ln, d), sh) = (Inr (Some (True,
      (case c of None \<Rightarrow> [] | Some (i, it) \<Rightarrow> [LaunchCompaction i it]) @ [LaunchPreVote p])), w', sh\<lparr>sh_depth := depth\<rparr>)"
proof -
  obtain depth where "tick_locked th ((ln, d), sh_depth sh) = (Inr (c, DispatchPreVote p), w', depth)"
    using tick_freezes_once[OF assms] by blast
  then show ?thesis by (intro exI[of _ depth]) (simp add: tick_turn_def depth_section_def Let_def)
qed

lemma follower_times_out:
  assumes "healthy d" "hard_state_ok d" "role ln = Follower n" "unat (current_tick ln) + 1 < 2 ^ 64"
    and "unat (f_last_heartbeat (state n)) + unat (f_timeout (state n)) \<le> unat (current_tick ln) + 1"
  shows "\<exists>c ln' n'. tick_section th fr (ln, d) = (Inr (c, DispatchPreVote \<lparr>cp_term = disk_term d, cp_node_id = node_id (identity n),
        cp_last_log_index = disk_last d, cp_last_log_term = disk_last_term d\<rparr>), ln', d)
    \<and> role ln' = PreCandidate n' \<and> identity n' = identity n \<and> last_committed n' = last_committed n"
proof -
  have u: "unat (current_tick ln + 1) = unat (current_tick ln) + 1" using assms(4) by (rule unat_next_tick)
  have "follower_evaluate_tick (state n) (current_tick ln + 1) = StartPreVote"
    using assms(5) u by (simp add: timers_fire_on_time)
  then show ?thesis
    using assms(1-3)
    by (auto simp: tick_section_def st_bind_def ln_tick_def Let_def tick_increment_def should_compact_log_def
        ln_last_applied_def ln_last_included_index_def ln_get_term_at_def delegate_read_def is_poisoned_def node_read_def
        dispatch_tick_def ln_node_id_def into_pre_candidate_def capture_campaign_def ln_last_log_index_def ln_last_log_term_def
        try_into_pre_candidate_def node_transition_def)
qed

text \<open>
  C11 From a silent leader to a new one, undisturbed: the first tick past a follower's election timeout launches a pre-vote campaign for its current
  term, and when a quorum of peers grants it and a majority of distinct voters then grants the election, the task that was launched ends
  with the node leading the next term, its vote persisted and its log as it was.
\<close>
theorem timeout_elects:
  assumes "healthy d" "hard_state_ok d" "is_u64 (Suc (disk_term d))" "is_u64 (Suc (disk_last d))"
    and "role ln = Follower n" "valid_node_id (node_id (identity n))" "unat (current_tick ln) + 1 < 2 ^ 64"
    and "unat (f_last_heartbeat (state n)) + unat (f_timeout (state n)) \<le> unat (current_tick ln) + 1"
    and "not_outvoted tr (disk_term d) (pvs @ [(j, ans)])" "pre_grants tr pvs + 2 = quorum_size ps" "length pvs < length ps"
    and "process_pre_vote_response (request_vote_from_peer tr ans)"
    and "not_outvoted tr' (Suc (disk_term d)) vs" "length vs = length ps"
    and "length ps + 1 < 2 * card (insert (node_id (identity n)) (granters tr' vs))"
  shows "\<exists>started p w1 depth ln2 d2 n2.
    alone (tick_turn th) [] [] ((ln, d), sh) = (Inr (Some (True, started @ [LaunchPreVote p])), w1, sh\<lparr>sh_depth := depth\<rparr>)
    \<and> alone (launched ap fuel tr tr' ps (LaunchPreVote p)) (pvs @ (j, ans) # vs) [] (w1, sh\<lparr>sh_depth := depth\<rparr>)
      = (Inr (Some ()), (ln2, d2), sh\<lparr>sh_depth := depth\<rparr>)
    \<and> role ln2 = Leader n2 \<and> disk_term d2 = Suc (disk_term d) \<and> disk_vote d2 = Some (node_id (identity n))
    \<and> disk_entry d2 = disk_entry d \<and> disk_last d2 = disk_last d"
proof -
  let ?me = "node_id (identity n)" and ?d = "set_hard_state (Suc (disk_term d)) (Some (node_id (identity n))) d"
  let ?p = "\<lparr>cp_term = disk_term d, cp_node_id = ?me, cp_last_log_index = disk_last d, cp_last_log_term = disk_last_term d\<rparr>"
  obtain c ln1 n1 where t: "tick_section th (is_frozen (sh_depth sh)) (ln, d) = (Inr (c, DispatchPreVote ?p), ln1, d)"
      "role ln1 = PreCandidate n1" "identity n1 = identity n"
    using follower_times_out[OF assms(1,2,5,7,8)] by blast
  obtain depth where a: "alone (tick_turn th) [] [] ((ln, d), sh) = (Inr (Some (True,
      (case c of None \<Rightarrow> [] | Some (i, it) \<Rightarrow> [LaunchCompaction i it]) @ [LaunchPreVote ?p])), (ln1, d), sh\<lparr>sh_depth := depth\<rparr>)"
    using tick_alone[OF t(1)] by blast
  let ?x = "sh\<lparr>sh_depth := depth\<rparr>"
  obtain q ln2 n2 where k: "pre_vote_won (ln1, d) = (Inr q, ln2, ?d)" "cp_term q = Suc (disk_term d)"
      "role ln2 = Candidate n2" "votes_received (state n2) = {?me}"
    using candidacy_healthy[OF assms(1-3) t(2)] assms(6) t(3) by fastforce
  have h: "healthy ?d" "hard_state_ok ?d" "is_u64 (Suc (disk_last ?d))" "disk_term ?d = cp_term q" using assms(1-4,6) k(2) by simp_all
  have v: "vote_count (state n2) = 1" using k(4) by (simp add: vote_count_def)
  have two: "vs \<noteq> [] \<longrightarrow> 1 < quorum_size ps" using assms(10) by simp
  have nv: "not_outvoted tr' (cp_term q) vs" using assms(13) k(2) by simp
  obtain ln3 where e: "alone (tally_votes tr' q ps (length vs) 1) vs [] ((ln2, ?d), ?x) = (Inr (Some (Inr ())), (ln3, ?d), ?x)"
      "election_outcome (quorum_size ps) (insert ?me (granters tr' vs)) (last_committed n2)
        (new_leader ps (disk_last ?d) (current_tick ln2)) (role ln3)"
    using tally_alone[OF h nv k(3) v[symmetric] two, of "[]" ?x] k(4) by auto
  obtain n3 where l: "role ln3 = Leader n3" using e(2) assms(15) unfolding election_outcome_def quorum_majority by (auto split: if_splits)
  obtain m where m: "length ps = length pvs + Suc m" using assms(11) less_imp_add_positive by (metis Suc_pred)
  have "alone (initiate_pre_vote tr tr' ?p ps) (pvs @ (j, ans) # vs) [] ((ln1, d), ?x)
      = alone (locked pre_vote_won (\<lambda>p'. initiate_election tr' p' ps)) vs [] ((ln1, d), ?x)"
    using pre_votes_alone[of tr ?p pvs j ans 1 ps tr' m vs "[]" "(ln1, d)" ?x] assms(9,10,12) m by (simp add: initiate_pre_vote_def)
  also have "\<dots> = (Inr (Some (Inr ())), (ln3, ?d), ?x)"
    using k(1) e(1) assms(14) by (simp add: initiate_election_def)
  finally have "alone (start_pre_vote_campaign tr tr' ?p ps) (pvs @ (j, ans) # vs) [] ((ln1, d), ?x) = (Inr (Some ()), (ln3, ?d), ?x)"
    unfolding start_pre_vote_campaign_def or_fatal_task_def by (rule alone_bind) simp
  with a l h(4) k(2) assms(6) show ?thesis by (fastforce simp: fun_eq_iff)
qed

theorem timeout_elects_witness:
  "\<exists>started p w1 depth ln2 d2 n2.
    alone (tick_turn 100) [] [] (((sample_node (Follower sample_follower))\<lparr>current_tick := 20\<rparr>, sample_store 1), \<lparr>sh_depth = 0, sh_permits = {}, sh_fsm = ()\<rparr>)
      = (Inr (Some (True, started @ [LaunchPreVote p])), w1, \<lparr>sh_depth = depth, sh_permits = {}, sh_fsm = ()\<rparr>)
    \<and> alone (launched (\<lambda>_ _ s. (Inr (), s)) 0 7 8 [2, 3] (LaunchPreVote p))
        [(2, Inr \<lparr>resp_trace = Some 7, resp_inner = \<lparr>rvr_term = 1, rvr_vote_granted = True\<rparr>\<rparr>), (3, Inl (Status Unavailable [])),
         (2, Inr \<lparr>resp_trace = Some 8, resp_inner = \<lparr>rvr_term = 2, rvr_vote_granted = True\<rparr>\<rparr>)] []
        (w1, \<lparr>sh_depth = depth, sh_permits = {}, sh_fsm = ()\<rparr>)
      = (Inr (Some ()), (ln2, d2), \<lparr>sh_depth = depth, sh_permits = {}, sh_fsm = ()\<rparr>)
    \<and> role ln2 = Leader n2 \<and> disk_term d2 = 2"
proof -
  let ?ans = "Inr \<lparr>resp_trace = Some 7, resp_inner = \<lparr>rvr_term = 1, rvr_vote_granted = True\<rparr>\<rparr> :: status + request_vote_response response"
  let ?vs = "[(3, Inl (Status Unavailable [])), (2, Inr \<lparr>resp_trace = Some 8, resp_inner = \<lparr>rvr_term = 2, rvr_vote_granted = True\<rparr>\<rparr>)] :: vote_answer list"
  let ?ln = "(sample_node (Follower sample_follower))\<lparr>current_tick := 20\<rparr>"
  have a: "not_outvoted 7 1 [(2, ?ans)]" "not_outvoted 8 (Suc 1) ?vs" "granters 8 ?vs = {2}" "quorum_size [2, 3] = 2"
      "process_pre_vote_response (request_vote_from_peer 7 ?ans)"
    by (auto simp: not_outvoted_def request_vote_from_peer_def verify_trace_integrity_def process_pre_vote_response_def quorum_size_def)
  have s: "role ?ln = Follower sample_follower" "node_id (identity sample_follower) = 1" "unat (current_tick ?ln) = 20"
      "f_last_heartbeat (state sample_follower) = 0" "f_timeout (state sample_follower) = 15" "valid_node_id 1" "is_u64 3" "is_u64 2"
    by (simp_all add: sample_node_def sample_follower_def new_follower_def sample_identity_def valid_node_id_def is_u64_def u64_bound_def)
  show ?thesis
    using timeout_elects[of "sample_store 1" ?ln sample_follower 7 "[]" 2 ?ans "[2, 3]" 8 ?vs 100
        "\<lparr>sh_depth = 0, sh_permits = {}, sh_fsm = ()\<rparr>" "\<lambda>_ _ s. (Inr (), s)" 0] a s
    by (fastforce simp: is_u64_def u64_bound_def)
qed

end
