(* ===== verification/Memory_Storage.thy ===== *)
theory Memory_Storage
  imports Node_Properties
begin

text \<open>
  \<open>MemoryStorage\<close> of \<open>crates/raft-engine/src/storage.rs\<close>, the storage the engine's own tests run on, and its relation to
  \<open>SledStorage\<close>: as long as the log is built the way the engine builds it, the two answer alike, so what a test observes on the
  one the other would show; they part once a snapshot lies beyond the end of the log.

  The log is a vector whose first entry carries its index. The lock's poisoning is a flag no operation sets.
\<close>

section \<open>Operations\<close>

record mem_state =
  ms_term :: raft_term
  ms_vote :: "node_id option"
  ms_committed :: log_index
  ms_snap_index :: log_index
  ms_snap_term :: raft_term
  ms_log :: "log_entry list"
  ms_poisoned :: bool

type_synonym 'a mem_reader = "mem_state \<Rightarrow> log_storage_error + 'a"
type_synonym mem_writer = "(mem_state, log_storage_error, unit) proc"

definition memory_new :: mem_state where
  "memory_new = \<lparr>ms_term = 0, ms_vote = None, ms_committed = 0, ms_snap_index = 0, ms_snap_term = 0, ms_log = [], ms_poisoned = False\<rparr>"

definition mem_lock :: "unit mem_reader" where
  "mem_lock m = (if ms_poisoned m then Inl (LInvariant ''MemoryStorage Mutex is poisoned (Halt Mandate)'') else Inr ())"

definition mem_current_term :: "raft_term mem_reader" where
  "mem_current_term m = res_bind (mem_lock m) (\<lambda>_. Inr (ms_term m))"

definition mem_voted_for :: "node_id option mem_reader" where
  "mem_voted_for m = res_bind (mem_lock m) (\<lambda>_. Inr (ms_vote m))"

definition mem_last_log_index :: "log_index mem_reader" where
  "mem_last_log_index m = res_bind (mem_lock m)
     (\<lambda>_. Inr (max (if ms_log m = [] then 0 else e_index (last (ms_log m))) (ms_snap_index m)))"

definition mem_last_log_term :: "raft_term mem_reader" where
  "mem_last_log_term m = res_bind (mem_lock m)
     (\<lambda>_. let physical_last = (if ms_log m = [] then 0 else e_term (last (ms_log m)))
          in if physical_last > 0 then Inr physical_last else Inr (ms_snap_term m))"

definition mem_last_committed :: "log_index mem_reader" where
  "mem_last_committed m = res_bind (mem_lock m) (\<lambda>_. Inr (ms_committed m))"

definition mem_read_entry :: "log_index \<Rightarrow> log_entry option mem_reader" where
  "mem_read_entry i m =
     (if i = 0 then Inr None
      else res_bind (mem_lock m)
        (\<lambda>_. case ms_log m of
             [] \<Rightarrow> Inr None
           | e1 # _ \<Rightarrow>
               if i < e_index e1 then Inr None
               else let offset = i - e_index e1
                    in Inr (if offset < length (ms_log m) then Some (ms_log m ! offset) else None)))"

definition mem_read_entries :: "log_index \<Rightarrow> log_index \<Rightarrow> log_entry list mem_reader" where
  "mem_read_entries start stop m =
     (if start = 0 then Inl (LInvariant ''LogIndex is 1-indexed; range start cannot be 0'')
      else if start > stop then Inr []
      else res_bind (mem_lock m)
        (\<lambda>_. case ms_log m of
             [] \<Rightarrow> Inr []
           | e1 # _ \<Rightarrow>
               if start < e_index e1 then Inl (LInvariant ''Log range overlaps with truncated history'')
               else let start_offset = start - e_index e1; end_offset = stop - e_index e1
                    in Inr (if end_offset < length (ms_log m)
                            then take (end_offset + 1 - start_offset) (drop start_offset (ms_log m)) else [])))"

definition mem_write :: "(mem_state \<Rightarrow> mem_state) \<Rightarrow> mem_writer" where
  "mem_write f = st_bind (st_read mem_lock) (\<lambda>_. st_modify f)"

definition mem_save_hard_state :: "raft_term \<Rightarrow> node_id option \<Rightarrow> mem_writer" where
  "mem_save_hard_state t v = mem_write (\<lambda>m. m\<lparr>ms_term := t, ms_vote := v\<rparr>)"

definition mem_save_last_committed :: "log_index \<Rightarrow> mem_writer" where
  "mem_save_last_committed i = mem_write (\<lambda>m. m\<lparr>ms_committed := i\<rparr>)"

fun mem_push :: "log_entry list \<Rightarrow> mem_writer" where
  "mem_push [] m = (Inr (), m)"
| "mem_push (e # es) m =
     (let last_idx = (if ms_log m = [] then ms_snap_index m else e_index (last (ms_log m)))
      in case log_index_add last_idx 1 of
           Inl err \<Rightarrow> (Inl (LArithmetic err), m)
         | Inr expected_idx \<Rightarrow>
             if e_index e \<noteq> expected_idx then (Inl (LInvariant ''Non-contiguous log append''), m)
             else mem_push es (m\<lparr>ms_log := ms_log m @ [e]\<rparr>))"

definition mem_append_entries :: "log_entry list \<Rightarrow> mem_writer" where
  "mem_append_entries es = st_bind (st_read mem_lock) (\<lambda>_. mem_push es)"

text \<open>The trait's default implementation, which \<open>SledStorage\<close> overrides.\<close>

definition mem_append_entries_and_advance_commit :: "log_entry list \<Rightarrow> log_index \<Rightarrow> mem_writer" where
  "mem_append_entries_and_advance_commit es commit = st_bind (mem_append_entries es) (\<lambda>_. mem_save_last_committed commit)"

definition mem_truncate_log :: "log_index \<Rightarrow> mem_writer" where
  "mem_truncate_log i = mem_write (\<lambda>m. case ms_log m of
       [] \<Rightarrow> m
     | e1 # _ \<Rightarrow> if i \<le> e_index e1 then m\<lparr>ms_log := []\<rparr> else m\<lparr>ms_log := take (i - e_index e1) (ms_log m)\<rparr>)"

definition mem_truncate_log_front :: "log_index \<Rightarrow> mem_writer" where
  "mem_truncate_log_front up_to = mem_write (\<lambda>m. case ms_log m of
       [] \<Rightarrow> m
     | e1 # _ \<Rightarrow> if up_to \<ge> e_index e1
                 then m\<lparr>ms_log := drop (min (up_to - e_index e1 + 1) (length (ms_log m))) (ms_log m)\<rparr> else m)"

definition mem_save_snapshot_metadata :: "log_index \<Rightarrow> raft_term \<Rightarrow> mem_writer" where
  "mem_save_snapshot_metadata i t = mem_write (\<lambda>m. m\<lparr>ms_snap_index := i, ms_snap_term := t\<rparr>)"

definition mem_last_included_index :: "log_index mem_reader" where
  "mem_last_included_index m = res_bind (mem_lock m) (\<lambda>_. Inr (ms_snap_index m))"

definition mem_last_included_term :: "raft_term mem_reader" where
  "mem_last_included_term m = res_bind (mem_lock m) (\<lambda>_. Inr (ms_snap_term m))"

section \<open>Gapless trees\<close>

definition indexed :: "log_entry list \<Rightarrow> (u64, log_entry) tree" where
  "indexed es = map (\<lambda>e. (e_index e, e)) es"

lemma consecutive_simps [simp]:
  "consecutive n []" "consecutive n (e # es) \<longleftrightarrow> e_index e = n \<and> consecutive (Suc n) es"
  by (auto simp: consecutive_def upt_conv_Cons simp del: upt_Suc)

lemma consecutive_append: "consecutive n (xs @ ys) \<longleftrightarrow> consecutive n xs \<and> consecutive (n + length xs) ys"
  by (induction xs arbitrary: n) auto

lemma consecutive_bounds: "consecutive n es \<Longrightarrow> e \<in> set es \<Longrightarrow> n \<le> e_index e \<and> e_index e < n + length es"
  by (induction es arbitrary: n) force+

lemma consecutive_last: "consecutive n es \<Longrightarrow> es \<noteq> [] \<Longrightarrow> e_index (last es) = n + length es - 1"
  by (induction es arbitrary: n) auto

lemma indexed_ok: "consecutive n es \<Longrightarrow> tree_ok (indexed es)"
  by (induction es arbitrary: n) (auto simp: indexed_def dest: consecutive_bounds)

lemma indexed_get: "consecutive n es \<Longrightarrow> tree_get (indexed es) i = (if n \<le> i \<and> i < n + length es then Some (es ! (i - n)) else None)"
proof (induction es arbitrary: n)
  case (Cons e es)
  have "tree_get (indexed es) i = (if Suc n \<le> i \<and> i < Suc n + length es then Some (es ! (i - Suc n)) else None)"
    using Cons.IH[of "Suc n"] Cons.prems by (simp only: consecutive_simps)
  with Cons.prems show ?case by (auto simp: indexed_def tree_get_def nth_Cons' )
qed (simp add: indexed_def tree_get_def)

lemma indexed_last: "tree_last (indexed es) = (if es = [] then None else Some (e_index (last es), last es))"
  by (simp add: tree_last_def indexed_def last_map)

lemma filter_below: "consecutive n es \<Longrightarrow> filter (\<lambda>e. e_index e < i) es = take (i - n) es"
proof (induction es arbitrary: n)
  case (Cons e es)
  then show ?case by (cases "i - n") (auto simp: filter_empty_conv dest: consecutive_bounds Suc_diff_Suc)
qed simp

lemma filter_above: "consecutive n es \<Longrightarrow> filter (\<lambda>e. i \<le> e_index e) es = drop (i - n) es"
proof (induction es arbitrary: n)
  case (Cons e es)
  then have e: "e_index e = n" "consecutive (Suc n) es" by simp_all
  show ?case
  proof (cases "i \<le> n")
    case True
    then have "\<forall>x \<in> set es. i \<le> e_index x" using consecutive_bounds[OF e(2)] by fastforce
    with True e(1) show ?thesis by simp
  next
    case False
    then have "i - n = Suc (i - Suc n)" by simp
    with False e Cons.IH[OF e(2)] show ?thesis by simp
  qed
qed simp

lemma indexed_range:
  assumes "consecutive n es" "n \<le> a" "b < n + length es"
  shows "map snd (tree_range a b (indexed es)) = take (Suc b - a) (drop (a - n) es)"
proof -
  have "map snd (tree_range a b (indexed es)) = filter (\<lambda>e. e_index e < Suc b) (filter (\<lambda>e. a \<le> e_index e) es)"
    by (simp add: tree_range_def indexed_def filter_map comp_def less_Suc_eq_le conj_commute)
  also have "\<dots> = filter (\<lambda>e. e_index e < Suc b) (drop (a - n) es)" by (simp add: filter_above[OF assms(1)])
  also have "consecutive a (drop (a - n) es) \<or> drop (a - n) es = []"
    using assms(1,2) consecutive_append[of n "take (a - n) es" "drop (a - n) es"] by (cases "a - n \<le> length es") auto
  then have "filter (\<lambda>e. e_index e < Suc b) (drop (a - n) es) = take (Suc b - a) (drop (a - n) es)"
    using filter_below by auto
  finally show ?thesis .
qed

lemma tree_insert_last: "\<forall>x \<in> set t. fst x < k \<Longrightarrow> tree_insert k v t = t @ [(k, v)]"
  by (induction t) auto

lemma tree_append: "consecutive n es \<Longrightarrow> \<forall>x \<in> set t. fst x < n \<Longrightarrow> tree_apply_batch (entry_batch es) t = t @ indexed es"
  by (induction es arbitrary: n t) (auto simp: tree_apply_batch_def entry_batch_def indexed_def tree_insert_last less_SucI)

lemma tree_removes: "tree_apply_batch (map BRemove ks) t = filter (\<lambda>x. fst x \<notin> set ks) t"
  by (induction ks arbitrary: t) (auto simp: tree_apply_batch_def tree_remove_def conj_commute)

lemma read_range_healthy: "(\<And>op. \<not> fl op) \<Longrightarrow> read_range_loop fl t = Inr (map snd t)"
  by (induction fl t rule: read_range_loop.induct) simp_all


section \<open>Two storages of one log\<close>

definition twin :: "mem_state \<Rightarrow> log_store \<Rightarrow> bool" where
  "twin m d \<longleftrightarrow> \<not> ms_poisoned m \<and> healthy d \<and> hard_state_ok d
     \<and> ms_term m = disk_term d \<and> ms_vote m = disk_vote d \<and> ms_committed m = disk_committed d
     \<and> ms_snap_index m = disk_snap d \<and> ms_snap_term m = unwrap_or (meta_snapshot_term d) 0
     \<and> log_tree d = indexed (ms_log m) \<and> (ms_log m \<noteq> [] \<longrightarrow> 0 < e_index (hd (ms_log m)) \<and> consecutive (e_index (hd (ms_log m))) (ms_log m))"

definition end_of_log :: "mem_state \<Rightarrow> log_index" where
  "end_of_log m = (if ms_log m = [] then ms_snap_index m else e_index (last (ms_log m)))"

datatype storage_op =
    SaveHardState raft_term "node_id option"
  | SaveCommitted log_index
  | Append "log_entry list"
  | AppendAndCommit "log_entry list" log_index
  | Truncate log_index
  | TruncateFront log_index
  | SaveSnapshot log_index raft_term

fun mem_op :: "storage_op \<Rightarrow> mem_writer" where
  "mem_op (SaveHardState t v) = mem_save_hard_state t v"
| "mem_op (SaveCommitted i) = mem_save_last_committed i"
| "mem_op (Append es) = mem_append_entries es"
| "mem_op (AppendAndCommit es i) = mem_append_entries_and_advance_commit es i"
| "mem_op (Truncate i) = mem_truncate_log i"
| "mem_op (TruncateFront i) = mem_truncate_log_front i"
| "mem_op (SaveSnapshot i t) = mem_save_snapshot_metadata i t"

fun sled_op :: "storage_op \<Rightarrow> (log_store, log_storage_error, unit) proc" where
  "sled_op (SaveHardState t v) = sled_save_hard_state t v"
| "sled_op (SaveCommitted i) = sled_save_last_committed i"
| "sled_op (Append es) = sled_append_entries es"
| "sled_op (AppendAndCommit es i) = sled_append_entries_and_advance_commit es i"
| "sled_op (Truncate i) = sled_truncate_log i"
| "sled_op (TruncateFront i) = sled_truncate_log_front i"
| "sled_op (SaveSnapshot i t) = sled_save_snapshot_metadata i t"

text \<open>What the engine gives a storage: valid hard states, and entries right behind the end of the log.\<close>

fun op_fits :: "storage_op \<Rightarrow> mem_state \<Rightarrow> bool" where
  "op_fits (SaveHardState t v) m = (is_u64 t \<and> (\<forall>n. v = Some n \<longrightarrow> valid_node_id n))"
| "op_fits (Append es) m = (consecutive (Suc (end_of_log m)) es \<and> is_u64 (end_of_log m + length es))"
| "op_fits (AppendAndCommit es i) m = (consecutive (Suc (end_of_log m)) es \<and> is_u64 (end_of_log m + length es))"
| "op_fits _ m = True"

fun run_ops :: "('op \<Rightarrow> ('s, 'e, unit) proc) \<Rightarrow> 'op list \<Rightarrow> ('s, 'e, unit) proc" where
  "run_ops f [] = st_return ()"
| "run_ops f (p # ps) = st_bind (f p) (\<lambda>_. run_ops f ps)"

fun all_fit :: "storage_op list \<Rightarrow> mem_state \<Rightarrow> bool" where
  "all_fit [] m = True"
| "all_fit (p # ps) m = (op_fits p m \<and> all_fit ps (snd (mem_op p m)))"

lemma twinD:
  assumes "twin m d"
  shows "mem_lock m = Inr ()" "healthy d" "hard_state_ok d" "ms_term m = disk_term d" "ms_vote m = disk_vote d"
    "ms_committed m = disk_committed d" "ms_snap_index m = disk_snap d" "ms_snap_term m = unwrap_or (meta_snapshot_term d) 0"
    "log_tree d = indexed (ms_log m)"
  using assms by (auto simp: twin_def mem_lock_def)

lemma twin_last: "twin m d \<Longrightarrow> disk_physical d = (if ms_log m = [] then 0 else e_index (last (ms_log m)))"
  by (simp add: disk_physical_def twinD(9) indexed_last)

lemma twin_first:
  assumes "twin m d" "ms_log m = e # es"
  shows "0 < e_index e" "consecutive (e_index e) (e # es)" "e_index (last (ms_log m)) = e_index e + length es"
  using assms consecutive_last[of "e_index e" "e # es"] by (auto simp: twin_def)

lemma twin_reads:
  assumes "twin m d"
  shows "mem_current_term m = sled_current_term d" "mem_voted_for m = sled_voted_for d" "mem_last_committed m = sled_last_committed d"
    "mem_last_included_index m = sled_last_included_index d" "mem_last_included_term m = sled_last_included_term d"
    "mem_last_log_index m = sled_last_log_index d" "mem_last_log_term m = sled_last_log_term d"
  using twinD[OF assms] twin_last[OF assms] healthyD[OF twinD(2)[OF assms]]
  by (simp_all add: mem_current_term_def mem_voted_for_def mem_last_committed_def mem_last_included_index_def mem_last_included_term_def
      mem_last_log_index_def mem_last_log_term_def disk_last_def sled_last_log_term_def Let_def indexed_last)


lemma twin_read_entry: "twin m d \<Longrightarrow> mem_read_entry i m = sled_read_entry i d"
proof -
  assume t: "twin m d"
  note T = twinD[OF t]
  have s: "sled_read_entry i d = Inr (tree_get (indexed (ms_log m)) i)"
    using T(2,9) by (simp add: sled_read_entry_healthy disk_entry_def)
  show ?thesis
  proof (cases "ms_log m")
    case Nil
    then show ?thesis using s T(1) by (simp add: mem_read_entry_def indexed_def tree_get_def)
  next
    case (Cons e es)
    note f = twin_first[OF t Cons]
    show ?thesis
      unfolding s Cons indexed_get[OF f(2)] using T(1) f(1) Cons by (auto simp: mem_read_entry_def Let_def)
  qed
qed

lemma twin_read_entries:
  assumes "twin m d" "ms_log m \<noteq> [] \<longrightarrow> e_index (hd (ms_log m)) \<le> start \<and> stop \<le> e_index (last (ms_log m))"
  shows "mem_read_entries start stop m = sled_read_entries start stop d"
proof -
  note T = twinD[OF assms(1)]
  have s: "sled_read_entries start stop d = (if start = 0 then Inl (LInvariant ''LogIndex is 1-indexed; range start cannot be 0'')
      else if start > stop then Inr [] else Inr (map snd (tree_range start stop (indexed (ms_log m)))))"
    using T(9) read_range_healthy[OF healthyD[OF T(2)]] by (simp add: sled_read_entries_def)
  show ?thesis
  proof (cases "ms_log m")
    case Nil
    then show ?thesis using s T(1) by (simp add: mem_read_entries_def tree_range_def indexed_def)
  next
    case (Cons e es)
    note f = twin_first[OF assms(1) Cons]
    have b: "e_index e \<le> start" "stop < e_index e + length (e # es)" using assms(2) f(3) Cons by simp_all
    have "stop - e_index e < length (e # es)" using b(2) by (simp add: less_diff_conv2 )
    moreover have "stop - e_index e + 1 - (start - e_index e) = Suc stop - start" if "start \<le> stop" using b(1) that by simp
    ultimately show ?thesis
      unfolding s using indexed_range[OF f(2) b] T(1) b(1) by (auto simp: mem_read_entries_def Let_def Cons)
  qed
qed

lemma twin_set_log:
  assumes "twin m d" "tree_apply_batch b (log_tree d) = indexed es"
    and "es \<noteq> [] \<longrightarrow> 0 < e_index (hd es) \<and> consecutive (e_index (hd es)) es"
  shows "twin (m\<lparr>ms_log := es\<rparr>) (set_log b d)"
  using assms by (auto simp: twin_def set_log_def disk_term_def disk_vote_def disk_committed_def disk_snap_def hard_state_ok_def)

lemma push_fits:
  "consecutive (Suc (end_of_log m)) es \<Longrightarrow> is_u64 (end_of_log m + length es) \<Longrightarrow> mem_push es m = (Inr (), m\<lparr>ms_log := ms_log m @ es\<rparr>)"
proof (induction es arbitrary: m)
  case (Cons e es)
  let ?m = "m\<lparr>ms_log := ms_log m @ [e]\<rparr>"
  have e: "end_of_log ?m = Suc (end_of_log m)" using Cons.prems(1) by (simp add: end_of_log_def)
  have u: "log_index_add (end_of_log m) 1 = Inr (Suc (end_of_log m))"
    using Cons.prems(2) by (simp add: log_index_add_def checked_add_u64_def is_u64_def)
  have "mem_push (e # es) m = mem_push es ?m"
    using u Cons.prems(1) by (simp add: end_of_log_def Let_def)
  with Cons.IH[of ?m] Cons.prems e show ?case by simp
qed simp

lemma twin_append:
  assumes "twin m d" "consecutive (Suc (end_of_log m)) es"
  shows "twin (m\<lparr>ms_log := ms_log m @ es\<rparr>) (set_log (entry_batch es) d)"
proof (rule twin_set_log[OF assms(1)])
  show "tree_apply_batch (entry_batch es) (log_tree d) = indexed (ms_log m @ es)"
  proof (cases "ms_log m")
    case Nil
    then show ?thesis using tree_append[OF assms(2), of "[]"] twinD(9)[OF assms(1)] by (simp add: indexed_def)
  next
    case (Cons e l)
    note f = twin_first[OF assms(1) Cons]
    have "\<forall>x \<in> set (indexed (ms_log m)). fst x < Suc (end_of_log m)"
      using f(3) consecutive_bounds[OF f(2)] by (fastforce simp: Cons end_of_log_def indexed_def)
    from tree_append[OF assms(2) this] twinD(9)[OF assms(1)] show ?thesis by (simp add: indexed_def)
  qed
  show "ms_log m @ es \<noteq> [] \<longrightarrow> 0 < e_index (hd (ms_log m @ es)) \<and> consecutive (e_index (hd (ms_log m @ es))) (ms_log m @ es)"
  proof (cases "ms_log m")
    case Nil
    then show ?thesis using assms(2) by (cases es) auto
  next
    case (Cons e l)
    note f = twin_first[OF assms(1) Cons]
    have "Suc (end_of_log m) = e_index e + length (e # l)" using f(3) by (simp add: end_of_log_def Cons)
    then show ?thesis using f(1,2) assms(2) consecutive_append[of "e_index e" "e # l" es] by (simp add: Cons)
  qed
qed

lemma consecutive_part:
  assumes "consecutive n es" "0 < n"
  shows "take k es \<noteq> [] \<longrightarrow> 0 < e_index (hd (take k es)) \<and> consecutive (e_index (hd (take k es))) (take k es)"
    and "drop k es \<noteq> [] \<longrightarrow> 0 < e_index (hd (drop k es)) \<and> consecutive (e_index (hd (drop k es))) (drop k es)"
proof -
  have c: "consecutive n (take k es)" "consecutive (n + length (take k es)) (drop k es)"
    using assms(1) consecutive_append[of n "take k es" "drop k es"] by simp_all
  have h: "l \<noteq> [] \<longrightarrow> 0 < e_index (hd l) \<and> consecutive (e_index (hd l)) l" if "consecutive j l" "0 < j" for j and l :: "log_entry list"
    using that by (cases l) auto
  show "take k es \<noteq> [] \<longrightarrow> 0 < e_index (hd (take k es)) \<and> consecutive (e_index (hd (take k es))) (take k es)"
    by (rule h[OF c(1) assms(2)])
  show "drop k es \<noteq> [] \<longrightarrow> 0 < e_index (hd (drop k es)) \<and> consecutive (e_index (hd (drop k es))) (drop k es)"
    by (rule h[OF c(2)]) (use assms(2) in simp)
qed


lemma twin_meta:
  assumes "twin m d"
  shows "twin (m\<lparr>ms_committed := i\<rparr>) (d\<lparr>meta_last_committed := Some i\<rparr>)"
    and "twin (m\<lparr>ms_snap_index := i, ms_snap_term := t\<rparr>) (d\<lparr>meta_snapshot_index := Some i, meta_snapshot_term := Some t\<rparr>)"
    and "is_u64 t \<Longrightarrow> (\<And>n. v = Some n \<Longrightarrow> valid_node_id n) \<Longrightarrow> twin (m\<lparr>ms_term := t, ms_vote := v\<rparr>) (set_hard_state t v d)"
proof -
  show "twin (m\<lparr>ms_committed := i\<rparr>) (d\<lparr>meta_last_committed := Some i\<rparr>)"
    using assms by (simp add: twin_def hard_state_ok_def)
  show "twin (m\<lparr>ms_snap_index := i, ms_snap_term := t\<rparr>) (d\<lparr>meta_snapshot_index := Some i, meta_snapshot_term := Some t\<rparr>)"
    using assms by (simp add: twin_def hard_state_ok_def healthy_def disk_term_def disk_vote_def disk_committed_def disk_snap_def)
  assume v: "is_u64 t" "\<And>n. v = Some n \<Longrightarrow> valid_node_id n"
  have "hard_state_ok (set_hard_state t v d)"
    using v by (cases v) (auto simp: hard_state_ok_def set_hard_state_def serialize_hard_state_def new_hard_state_def)
  moreover have "disk_vote (set_hard_state t v d) = v" by (rule disk_vote_set_hard_state) (rule v(2))
  ultimately show "twin (m\<lparr>ms_term := t, ms_vote := v\<rparr>) (set_hard_state t v d)"
    using assms by (simp add: twin_def set_hard_state_def serialize_hard_state_def new_hard_state_def disk_term_def disk_committed_def disk_snap_def healthy_def)
qed

lemma twin_truncate:
  assumes "twin m d" "\<And>k. k \<in> set ks \<longleftrightarrow> i \<le> k \<and> k \<le> b" "ms_log m \<noteq> [] \<Longrightarrow> e_index (last (ms_log m)) \<le> b"
  shows "twin (m\<lparr>ms_log := take (i - e_index (hd (ms_log m))) (ms_log m)\<rparr>) (set_log (map BRemove ks) d)"
proof (cases "ms_log m")
  case Nil
  then show ?thesis using assms(1) twinD(9)[OF assms(1)] by (intro twin_set_log) (simp_all add: tree_removes indexed_def)
next
  case (Cons e es)
  note f = twin_first[OF assms(1) Cons]
  have "filter (\<lambda>x. e_index x \<notin> set ks) (e # es) = filter (\<lambda>x. e_index x < i) (e # es)"
    using consecutive_bounds[OF f(2)] assms(2,3) f(3) Cons by (intro filter_cong) fastforce+
  then have "tree_apply_batch (map BRemove ks) (log_tree d) = indexed (take (i - e_index e) (e # es))"
    unfolding twinD(9)[OF assms(1)] Cons tree_removes filter_below[OF f(2), symmetric]
    by (simp add: indexed_def filter_map comp_def del: filter.simps list.map(2))
  from twin_set_log[OF assms(1) this consecutive_part(1)[OF f(2,1)]] show ?thesis unfolding Cons list.sel(1) .
qed

lemma twin_truncate_front:
  assumes "twin m d"
  shows "twin (m\<lparr>ms_log := drop (Suc i - e_index (hd (ms_log m))) (ms_log m)\<rparr>) (set_log (map BRemove (incl_range (Suc 0) i)) d)"
proof (cases "ms_log m")
  case Nil
  then show ?thesis using assms twinD(9)[OF assms] by (intro twin_set_log) (simp_all add: tree_removes indexed_def)
next
  case (Cons e es)
  note f = twin_first[OF assms Cons]
  have "filter (\<lambda>x. e_index x \<notin> set (incl_range (Suc 0) i)) (e # es) = filter (\<lambda>x. Suc i \<le> e_index x) (e # es)"
    using consecutive_bounds[OF f(2)] f(1) by (intro filter_cong) fastforce+
  then have "tree_apply_batch (map BRemove (incl_range (Suc 0) i)) (log_tree d) = indexed (drop (Suc i - e_index e) (e # es))"
    unfolding twinD(9)[OF assms] Cons tree_removes filter_above[OF f(2), symmetric]
    by (simp add: indexed_def filter_map comp_def del: filter.simps list.map(2))
  from twin_set_log[OF assms this consecutive_part(2)[OF f(2,1)]] show ?thesis unfolding Cons list.sel(1) .
qed

lemma mem_write_ok: "twin m d \<Longrightarrow> mem_write f m = (Inr (), f m)"
  using twinD(1) by (simp add: mem_write_def st_bind_def)

lemma op_twin:
  assumes "twin m d" "op_fits p m"
  shows "\<exists>m' d'. mem_op p m = (Inr (), m') \<and> sled_op p d = (Inr (), d') \<and> twin m' d'"
proof -
  note h = twinD(2)[OF assms(1)] and w = mem_write_ok[OF assms(1)]
  have app: "mem_append_entries es m = (Inr (), m\<lparr>ms_log := ms_log m @ es\<rparr>)"
    if "consecutive (Suc (end_of_log m)) es" "is_u64 (end_of_log m + length es)" for es
    using push_fits[OF that] twinD(1)[OF assms(1)] by (simp add: mem_append_entries_def st_bind_def)
  show ?thesis
  proof (cases p)
    case (SaveHardState t v)
    then show ?thesis using assms twin_meta(3)[OF assms(1)] h w by (simp add: mem_save_hard_state_def)
  next
    case (SaveCommitted i)
    then show ?thesis using twin_meta(1)[OF assms(1)] h w by (simp add: mem_save_last_committed_def)
  next
    case (Append es)
    then show ?thesis using assms app twin_append[OF assms(1)] h by simp
  next
    case (AppendAndCommit es i)
    then have c: "consecutive (Suc (end_of_log m)) es" "is_u64 (end_of_log m + length es)" using assms(2) by simp_all
    note t = twin_append[OF assms(1) c(1)]
    from twin_meta(1)[OF t, of i] mem_write_ok[OF t] app[OF c] h AppendAndCommit show ?thesis
      by (simp add: mem_append_entries_and_advance_commit_def mem_save_last_committed_def st_bind_def)
  next
    case (Truncate i)
    have b: "ms_log m \<noteq> [] \<Longrightarrow> e_index (last (ms_log m)) \<le> disk_last d"
      using twin_last[OF assms(1)] by (simp add: disk_last_def)
    have t: "twin (m\<lparr>ms_log := take (i - e_index (hd (ms_log m))) (ms_log m)\<rparr>)
        (if i > disk_last d then d else set_log (map BRemove (incl_range i (disk_last d))) d)"
    proof (cases "i > disk_last d")
      case True
      then have "take (i - e_index (hd (ms_log m))) (ms_log m) = ms_log m"
        using b twin_first(3)[OF assms(1)] by (cases "ms_log m") fastforce+
      with True assms(1) show ?thesis by simp
    next
      case False
      with twin_truncate[OF assms(1) _ b, of "incl_range i (disk_last d)" i] show ?thesis by simp
    qed
    have "mem_truncate_log i m = (Inr (), m\<lparr>ms_log := take (i - e_index (hd (ms_log m))) (ms_log m)\<rparr>)"
      by (cases "ms_log m") (simp_all add: mem_truncate_log_def w)
    with t h Truncate show ?thesis by simp
  next
    case (TruncateFront i)
    have "drop (min k (length l)) l = drop k l" for k and l :: "log_entry list" by (simp add: min_def)
    then have "mem_truncate_log_front i m = (Inr (), m\<lparr>ms_log := drop (Suc i - e_index (hd (ms_log m))) (ms_log m)\<rparr>)"
      by (cases "ms_log m") (auto simp: mem_truncate_log_front_def w Suc_diff_le)
    with twin_truncate_front[OF assms(1)] h TruncateFront show ?thesis by simp
  next
    case (SaveSnapshot i t)
    then show ?thesis using twin_meta(2)[OF assms(1)] h w by (simp add: mem_save_snapshot_metadata_def)
  qed
qed


text \<open>
  C27 The two storages are interchangeable for the engine. Run from equal contents, any sequence of writes whose hard states are valid
  and whose entries continue the log succeeds on both, a failing disk apart, and afterwards every read gives the same
  answer: term, vote, commit index, snapshot, last index and term, every entry, and every range inside the log.
\<close>
theorem memory_storage_agrees:
  assumes "twin m d" "all_fit ops m"
  shows "\<exists>m' d'. run_ops mem_op ops m = (Inr (), m') \<and> run_ops sled_op ops d = (Inr (), d')
    \<and> mem_current_term m' = sled_current_term d' \<and> mem_voted_for m' = sled_voted_for d' \<and> mem_last_committed m' = sled_last_committed d'
    \<and> mem_last_included_index m' = sled_last_included_index d' \<and> mem_last_included_term m' = sled_last_included_term d'
    \<and> mem_last_log_index m' = sled_last_log_index d' \<and> mem_last_log_term m' = sled_last_log_term d'
    \<and> (\<forall>i. mem_read_entry i m' = sled_read_entry i d')
    \<and> (\<forall>a b. (ms_log m' \<noteq> [] \<longrightarrow> e_index (hd (ms_log m')) \<le> a \<and> b \<le> e_index (last (ms_log m')))
          \<longrightarrow> mem_read_entries a b m' = sled_read_entries a b d')"
proof -
  have "\<exists>m' d'. run_ops mem_op ops m = (Inr (), m') \<and> run_ops sled_op ops d = (Inr (), d') \<and> twin m' d'"
    using assms
  proof (induction ops arbitrary: m d)
    case (Cons p ps)
    from op_twin[OF Cons.prems(1), of p] Cons.prems(2) obtain m1 d1
      where s: "mem_op p m = (Inr (), m1)" "sled_op p d = (Inr (), d1)" "twin m1 d1" by auto
    with Cons.IH[OF s(3)] Cons.prems(2) show ?case by (simp add: st_bind_def)
  qed simp
  then obtain m' d' where r: "run_ops mem_op ops m = (Inr (), m')" "run_ops sled_op ops d = (Inr (), d')" "twin m' d'" by blast
  with twin_reads[OF r(3)] twin_read_entry[OF r(3)] twin_read_entries[OF r(3)] show ?thesis by blast
qed

lemma twin_new: "twin memory_new empty_store"
  by (simp add: twin_def memory_new_def empty_store_def healthy_def hard_state_ok_def disk_term_def disk_vote_def disk_committed_def
      disk_snap_def indexed_def)

theorem memory_storage_agrees_witness:
  "\<exists>m' d'. run_ops mem_op [SaveHardState 1 (Some 1), Append [new_log_entry 1 1 [], new_log_entry 2 1 []], SaveSnapshot 1 1, TruncateFront 1,
      AppendAndCommit [new_log_entry 3 1 []] 2] memory_new = (Inr (), m')
    \<and> run_ops sled_op [SaveHardState 1 (Some 1), Append [new_log_entry 1 1 [], new_log_entry 2 1 []], SaveSnapshot 1 1, TruncateFront 1,
      AppendAndCommit [new_log_entry 3 1 []] 2] empty_store = (Inr (), d')
    \<and> mem_read_entry 3 m' = sled_read_entry 3 d' \<and> mem_last_log_index m' = sled_last_log_index d'"
proof -
  let ?ops = "[SaveHardState 1 (Some 1), Append [new_log_entry 1 1 [], new_log_entry 2 1 []], SaveSnapshot 1 1, TruncateFront 1,
      AppendAndCommit [new_log_entry 3 1 []] 2]"
  have "all_fit ?ops memory_new"
    by (simp add: memory_new_def mem_save_hard_state_def mem_append_entries_def mem_save_snapshot_metadata_def mem_truncate_log_front_def
        mem_write_def mem_lock_def st_bind_def end_of_log_def new_log_entry_def log_index_add_def checked_add_u64_def Let_def
        is_u64_def u64_bound_def valid_node_id_def)
  from memory_storage_agrees[OF twin_new this] show ?thesis by blast
qed

text \<open>
  They part behind a snapshot that lies beyond the log, which is what installing one leaves: the entry after the snapshot, which
  the engine appends next, is accepted by \<open>SledStorage\<close> and refused by \<open>MemoryStorage\<close>, which still counts from its
  last entry.
\<close>
theorem memory_storage_parts:
  assumes "twin m d" "ms_log m \<noteq> []" "e_index (last (ms_log m)) < i" "is_u64 i" "e_index e = Suc i"
  shows "mem_append_entries [e] (snd (mem_save_snapshot_metadata i t m)) =
      (Inl (LInvariant ''Non-contiguous log append''), snd (mem_save_snapshot_metadata i t m))
    \<and> fst (sled_append_entries [e] (snd (sled_save_snapshot_metadata i t d))) = Inr ()"
proof -
  let ?m = "m\<lparr>ms_snap_index := i, ms_snap_term := t\<rparr>"
  have s: "mem_save_snapshot_metadata i t m = (Inr (), ?m)" using mem_write_ok[OF assms(1)] by (simp add: mem_save_snapshot_metadata_def)
  have "log_index_add (e_index (last (ms_log m))) 1 = Inr (Suc (e_index (last (ms_log m))))"
    using assms(3,4) by (simp add: log_index_add_def checked_add_u64_def is_u64_def)
  then have "mem_push [e] ?m = (Inl (LInvariant ''Non-contiguous log append''), ?m)" using assms(2,3,5) by (simp add: Let_def)
  moreover have "mem_lock ?m = Inr ()" using assms(1) by (simp add: twin_def mem_lock_def)
  moreover have "healthy d" by (rule twinD(2)[OF assms(1)])
  ultimately show ?thesis by (simp add: s mem_append_entries_def st_bind_def healthy_def[symmetric])
qed

theorem memory_storage_parts_witness:
  "\<exists>m e. twin m (set_log (entry_batch [new_log_entry 1 1 []]) empty_store)
    \<and> fst (mem_append_entries [e] (snd (mem_save_snapshot_metadata 9 2 m))) = Inl (LInvariant ''Non-contiguous log append'')"
proof -
  let ?m = "memory_new\<lparr>ms_log := [new_log_entry 1 1 []]\<rparr>"
  have t: "twin ?m (set_log (entry_batch [new_log_entry 1 1 []]) empty_store)"
    using twin_append[OF twin_new, of "[new_log_entry 1 1 []]"] by (simp add: memory_new_def end_of_log_def new_log_entry_def)
  from memory_storage_parts[OF t, of 9 "new_log_entry 10 2 []" 2] t show ?thesis
    by (auto simp: new_log_entry_def is_u64_def u64_bound_def intro!: exI[of _ ?m] exI[of _ "new_log_entry 10 2 []"])
qed

end
