(* ===== verification/Text_Ops.thy ===== *)
theory Text_Ops
  imports Types
begin

text \<open>
  The string operations of the standard library that the gateway, the client and the domain vocabulary
  use. A \<open>str\<close> is the list of its UTF-8 bytes, one \<open>char\<close> each. White space and letter case are those of
  ASCII: a byte above 127 is neither white space nor a letter, so \<open>trim\<close> and \<open>to_lowercase\<close> are exact on
  ASCII text and leave every other character alone.
\<close>

definition is_ws :: "char \<Rightarrow> bool" where
  "is_ws c = (let k = (of_char c :: nat) in 9 \<le> k \<and> k \<le> 13 \<or> k = 32)"

definition trim :: "string \<Rightarrow> string" where
  "trim s = rev (dropWhile is_ws (rev (dropWhile is_ws s)))"

definition to_lower :: "char \<Rightarrow> char" where
  "to_lower c = (let k = (of_char c :: nat) in if 65 \<le> k \<and> k \<le> 90 then char_of (k + 32) else c)"

definition to_lowercase :: "string \<Rightarrow> string" where
  "to_lowercase s = map to_lower s"

definition is_alnum :: "char \<Rightarrow> bool" where
  "is_alnum c = (let k = (of_char c :: nat) in 48 \<le> k \<and> k \<le> 57 \<or> 65 \<le> k \<and> k \<le> 90 \<or> 97 \<le> k \<and> k \<le> 122)"

text \<open>Maximal runs of characters that satisfy a predicate, and joining with a separator.\<close>

fun runs_from :: "(char \<Rightarrow> bool) \<Rightarrow> string \<Rightarrow> string \<Rightarrow> string list" where
  "runs_from p w [] = (if w = [] then [] else [w])"
| "runs_from p w (c # cs) =
     (if p c then runs_from p (w @ [c]) cs
      else if w = [] then runs_from p [] cs else w # runs_from p [] cs)"

definition runs :: "(char \<Rightarrow> bool) \<Rightarrow> string \<Rightarrow> string list" where
  "runs p s = runs_from p [] s"

definition split_whitespace :: "string \<Rightarrow> string list" where
  "split_whitespace = runs (\<lambda>c. \<not> is_ws c)"

fun join :: "string \<Rightarrow> string list \<Rightarrow> string" where
  "join sep [] = []"
| "join sep [s] = s"
| "join sep (s # t # ss) = s @ sep @ join sep (t # ss)"

definition starts_with :: "string \<Rightarrow> string \<Rightarrow> bool" where
  "starts_with p s \<longleftrightarrow> take (length p) s = p"

definition ends_with :: "string \<Rightarrow> string \<Rightarrow> bool" where
  "ends_with p s \<longleftrightarrow> starts_with (rev p) (rev s)"

fun contains :: "string \<Rightarrow> string \<Rightarrow> bool" where
  "contains p [] = (p = [])"
| "contains p (c # cs) \<longleftrightarrow> starts_with p (c # cs) \<or> contains p cs"

lemma runs_from_true: "\<forall>c \<in> set s. p c \<Longrightarrow> runs_from p w (s @ t) = runs_from p (w @ s) t"
  by (induction s arbitrary: w) simp_all

lemma runs_from_sound: "list_all p w \<Longrightarrow> r \<in> set (runs_from p w s) \<Longrightarrow> r \<noteq> [] \<and> list_all p r"
proof (induction s arbitrary: w)
  case Nil
  then show ?case by (cases w) auto
next
  case (Cons c cs)
  show ?case
  proof (cases "p c")
    case True
    have "list_all p (w @ [c])" "r \<in> set (runs_from p (w @ [c]) cs)" using Cons.prems True by simp_all
    then show ?thesis by (rule Cons.IH)
  next
    case False
    then consider "r \<in> set (runs_from p [] cs)" | "w \<noteq> []" "r = w" using Cons.prems by (cases w) auto
    then show ?thesis
    proof cases
      case 1
      then show ?thesis by (intro Cons.IH[of "[]"]) simp_all
    qed (use Cons.prems in simp)
  qed
qed

lemma runs_sound: "r \<in> set (runs p s) \<Longrightarrow> r \<noteq> [] \<and> (\<forall>c \<in> set r. p c)"
  using runs_from_sound[of p "[]" r s] by (simp add: runs_def list_all_iff)

lemma runs_join:
  assumes "\<not> p d" "\<forall>w \<in> set ws. w \<noteq> [] \<and> (\<forall>c \<in> set w. p c)"
  shows "runs p (join [d] ws) = ws"
proof -
  have "\<forall>w \<in> set ws. w \<noteq> [] \<and> (\<forall>c \<in> set w. p c) \<Longrightarrow> runs_from p [] (join [d] ws) = ws"
  proof (induction "[d]" ws rule: join.induct)
    case (2 s)
    then show ?case using runs_from_true[of s p "[]" "[]"] by simp
  next
    case (3 s t ss)
    then have "runs_from p [] (s @ [d] @ join [d] (t # ss)) = s # runs_from p [] (join [d] (t # ss))"
      using assms(1) by (subst runs_from_true) simp_all
    with 3 show ?case by simp
  qed simp
  with assms show ?thesis by (simp add: runs_def)
qed

lemma of_char_lower:
  "(of_char (to_lower c) :: nat) = (if 65 \<le> (of_char c :: nat) \<and> of_char c \<le> (90 :: nat) then of_char c + 32 else of_char c)"
proof (cases "65 \<le> (of_char c :: nat) \<and> of_char c \<le> (90 :: nat)")
  case True
  then have "(of_char (char_of (of_char c + 32 :: nat)) :: nat) = of_char c + 32" by (simp add: of_char_of)
  with True show ?thesis by (simp add: to_lower_def Let_def)
next
  case False
  then have "to_lower c = c" unfolding to_lower_def Let_def by (rule if_not_P)
  with False show ?thesis by simp
qed

lemma to_lower_idem [simp]: "to_lower (to_lower c) = to_lower c"
proof -
  have "\<not> (65 \<le> (of_char (to_lower c) :: nat) \<and> of_char (to_lower c) \<le> (90 :: nat))" unfolding of_char_lower by simp
  then show ?thesis unfolding to_lower_def[of "to_lower c"] Let_def by (rule if_not_P)
qed

lemma to_lower_alnum [simp]: "is_alnum (to_lower c) = is_alnum c"
  by (auto simp: is_alnum_def Let_def of_char_lower)

lemma to_lowercase_idem [simp]: "to_lowercase (to_lowercase s) = to_lowercase s"
  by (simp add: to_lowercase_def)

lemma set_trim: "set (trim s) \<subseteq> set s"
  by (auto simp: trim_def dest!: set_dropWhileD)

lemma trim_all_ws: "\<forall>c \<in> set s. is_ws c \<Longrightarrow> trim s = []"
  by (simp add: trim_def dropWhile_eq_Nil_conv[THEN iffD2])

lemma starts_with_iff: "starts_with p s \<longleftrightarrow> (\<exists>t. s = p @ t)"
  by (metis append_eq_conv_conj starts_with_def)

lemma ends_with_iff: "ends_with p s \<longleftrightarrow> (\<exists>t. s = t @ p)"
proof -
  have "rev s = rev p @ t \<longleftrightarrow> s = rev t @ p" for t by (metis rev_append rev_rev_ident)
  then show ?thesis unfolding ends_with_def starts_with_iff by (metis rev_rev_ident)
qed

end
