(* ===== verification/Rpc_Guard.thy ===== *)
theory Rpc_Guard
  imports Raft_Service Text_Ops
begin

text \<open>
  \<open>crates/common-rpc/src/lib.rs\<close>, the outbound interceptor of \<open>crates/raft-engine/src/peer.rs\<close>, the chain
  that \<open>node-server\<close> puts in front of its services, \<open>ClusterId\<close>, and the identity a node keeps on
  disk (\<open>crates/raft-engine/src/identity.rs\<close>).
  A call on the wire carries headers by name. Header values and UUIDs belong to libraries: their text conversions are
  the fields of \<open>wire_text\<close>, which is documented to give back the text a value was made from.
\<close>

section \<open>Cluster identifiers\<close>

definition cluster_id_try_new :: "string \<Rightarrow> identity_error + string" where
  "cluster_id_try_new s =
     (let trimmed = trim s
      in if trimmed = [] then Inl EmptyClusterId
         else if \<not> list_all (\<lambda>c. is_alnum c \<or> c = CHR ''-'' \<or> c = CHR ''_'') trimmed then Inl (InvalidClusterId trimmed)
         else Inr trimmed)"

section \<open>Headers\<close>

record 'v wire_text =
  header_of_str :: "string \<Rightarrow> 'v option"
  header_to_str :: "'v \<Rightarrow> string option"
  uuid_of_str :: "string \<Rightarrow> trace_id option"
  uuid_to_str :: "trace_id \<Rightarrow> string"

definition wire_text_ok :: "'v wire_text \<Rightarrow> bool" where
  "wire_text_ok H \<longleftrightarrow> (\<forall>s v. header_of_str H s = Some v \<longrightarrow> header_to_str H v = Some s)
     \<and> (\<forall>t. uuid_of_str H (uuid_to_str H t) = Some t)"

record 'v wire_request =
  metadata :: "string \<rightharpoonup> 'v"
  ext_trace :: "trace_id option"

definition HEADER_CLUSTER_ID :: string where "HEADER_CLUSTER_ID = ''x-cluster-id''"
definition HEADER_TARGET_NODE_ID :: string where "HEADER_TARGET_NODE_ID = ''x-target-node-id''"
definition HEADER_TRACE_ID :: string where "HEADER_TRACE_ID = ''x-trace-id''"

definition inject_cluster_id_into_request ::
  "'v wire_text \<Rightarrow> string \<Rightarrow> 'v wire_request \<Rightarrow> status + 'v wire_request" where
  "inject_cluster_id_into_request H cid req =
     res_bind (ok_or (header_of_str H cid) (Status Internal ''Failed to parse cluster_id for outbound header''))
       (\<lambda>v. Inr (req\<lparr>metadata := (metadata req)(HEADER_CLUSTER_ID \<mapsto> v)\<rparr>))"

definition inject_identity_into_request ::
  "'v wire_text \<Rightarrow> string \<Rightarrow> node_id \<Rightarrow> 'v wire_request \<Rightarrow> status + 'v wire_request" where
  "inject_identity_into_request H cid target req =
     res_bind (ok_or (header_of_str H cid) (Status Internal ''Failed to parse cluster_id for outbound header''))
       (\<lambda>cv. res_bind (ok_or (header_of_str H (node_id_to_string target))
                         (Status Internal ''Failed to parse target_node_id for outbound header''))
       (\<lambda>nv. Inr (req\<lparr>metadata := (metadata req)(HEADER_CLUSTER_ID \<mapsto> cv, HEADER_TARGET_NODE_ID \<mapsto> nv)\<rparr>)))"

definition inject_trace_id_into_request ::
  "'v wire_text \<Rightarrow> trace_id \<Rightarrow> 'v wire_request \<Rightarrow> status + 'v wire_request" where
  "inject_trace_id_into_request H t req =
     res_bind (ok_or (header_of_str H (uuid_to_str H t)) (Status Internal ''Failed to parse TraceId for outbound header''))
       (\<lambda>v. Inr (req\<lparr>metadata := (metadata req)(HEADER_TRACE_ID \<mapsto> v)\<rparr>))"

text \<open>The interceptor \<open>PeerManager::get_client\<close> attaches to every call to a peer.\<close>

definition peer_interceptor ::
  "'v wire_text \<Rightarrow> node_identity \<Rightarrow> node_id \<Rightarrow> 'v wire_request \<Rightarrow> status + 'v wire_request" where
  "peer_interceptor H me target req =
     res_bind (inject_identity_into_request H (cluster_id me) target req)
       (\<lambda>req. case ext_trace req of
                None \<Rightarrow> Inr req
              | Some t \<Rightarrow> inject_trace_id_into_request H t req)"

text \<open>
  A call of \<open>request_vote_from_peer\<close>, \<open>pre_vote_from_peer\<close>, \<open>replicate_to_peer\<close> or \<open>install_snapshot_to_peer\<close>: the
  sender puts the trace id of its round into the headers of a fresh request, and the client of the peer
  runs the interceptor.
\<close>

definition peer_call ::
  "'v wire_text \<Rightarrow> trace_id \<Rightarrow> node_identity \<Rightarrow> node_id \<Rightarrow> 'v wire_request \<Rightarrow> status + 'v wire_request" where
  "peer_call H tr me target fresh =
     res_bind (map_err (\<lambda>_. Status Internal ''Telemetry injection failed'') (inject_trace_id_into_request H tr fresh))
       (peer_interceptor H me target)"

section \<open>Inbound interceptors\<close>

record identity_interceptor =
  ii_identity :: node_identity
  enforce_target_node :: bool

definition identity_interceptor_new :: "node_identity \<Rightarrow> identity_interceptor" where
  "identity_interceptor_new ident = \<lparr>ii_identity = ident, enforce_target_node = True\<rparr>"

definition without_node_check :: "node_identity \<Rightarrow> identity_interceptor" where
  "without_node_check ident = \<lparr>ii_identity = ident, enforce_target_node = False\<rparr>"

definition verify_cluster_id :: "'v wire_text \<Rightarrow> identity_interceptor \<Rightarrow> 'v wire_request \<Rightarrow> status + unit" where
  "verify_cluster_id H ii req =
     (case metadata req HEADER_CLUSTER_ID of
        None \<Rightarrow> Inl (Status Unauthenticated ''Missing mandatory x-cluster-id header'')
      | Some v \<Rightarrow>
          (case header_to_str H v of
             None \<Rightarrow> Inl (Status Unauthenticated ''Invalid cluster ID encoding'')
           | Some s \<Rightarrow> if s \<noteq> cluster_id (ii_identity ii) then Inl (Status Unauthenticated ''Cluster identity mismatch'')
                       else Inr ()))"

definition verify_target_node_id :: "'v wire_text \<Rightarrow> identity_interceptor \<Rightarrow> 'v wire_request \<Rightarrow> status + unit" where
  "verify_target_node_id H ii req =
     (case metadata req HEADER_TARGET_NODE_ID of
        None \<Rightarrow> Inl (Status Unauthenticated ''Missing mandatory x-target-node-id header'')
      | Some v \<Rightarrow>
          (case header_to_str H v of
             None \<Rightarrow> Inl (Status Unauthenticated ''Invalid node ID encoding'')
           | Some s \<Rightarrow>
               (case node_id_from_str s of
                  Inl _ \<Rightarrow> Inl (Status Unauthenticated ''Invalid node ID format'')
                | Inr n \<Rightarrow> if n \<noteq> node_id (ii_identity ii)
                            then Inl (Status Unauthenticated ''Target node identity mismatch'') else Inr ())))"

definition identity_call ::
  "'v wire_text \<Rightarrow> identity_interceptor \<Rightarrow> 'v wire_request \<Rightarrow> status + 'v wire_request" where
  "identity_call H ii req =
     res_bind (verify_cluster_id H ii req)
       (\<lambda>_. res_bind (if enforce_target_node ii then verify_target_node_id H ii req else Inr ()) (\<lambda>_. Inr req))"

text \<open>The authoritative mode (\<open>Some t\<close> with the generated identifier) and the propagative mode.\<close>

definition trace_call ::
  "'v wire_text \<Rightarrow> trace_id option \<Rightarrow> 'v wire_request \<Rightarrow> status + 'v wire_request" where
  "trace_call H mode req =
     (case mode of
        Some t \<Rightarrow> Inr (req\<lparr>ext_trace := Some t\<rparr>)
      | None \<Rightarrow>
          (case Option.bind (Option.bind (metadata req HEADER_TRACE_ID) (header_to_str H)) (uuid_of_str H) of
             None \<Rightarrow> Inl (Status FailedPrecondition ''Missing or malformed TraceId for distributed correlation'')
           | Some t \<Rightarrow> Inr (req\<lparr>ext_trace := Some t\<rparr>)))"

definition consensus_chain :: "'v wire_text \<Rightarrow> node_identity \<Rightarrow> 'v wire_request \<Rightarrow> status + 'v wire_request" where
  "consensus_chain H ident req =
     res_bind (identity_call H (identity_interceptor_new ident) req) (trace_call H None)"

definition ingress_chain ::
  "'v wire_text \<Rightarrow> node_identity \<Rightarrow> trace_id \<Rightarrow> 'v wire_request \<Rightarrow> status + 'v wire_request" where
  "ingress_chain H ident fresh req =
     res_bind (identity_call H (without_node_check ident) req) (trace_call H (Some fresh))"

section \<open>Identity on disk\<close>

datatype identity_op = OpenIdentityTree | GetIdentity | DecodeIdentity | InsertIdentity | FlushIdentity

datatype bootstrap_error = IdStorage | IdCorruption | IdMismatch node_identity node_identity

record identity_db =
  stored_identity :: "node_identity option"
  id_fails :: "identity_op \<Rightarrow> bool"

definition initialize_node_identity ::
  "node_identity \<Rightarrow> (identity_db, bootstrap_error, node_identity) proc" where
  "initialize_node_identity config db =
     (if id_fails db OpenIdentityTree \<or> id_fails db GetIdentity then (Inl IdStorage, db)
      else case stored_identity db of
             Some existing \<Rightarrow>
               if id_fails db DecodeIdentity then (Inl IdCorruption, db)
               else if cluster_id existing \<noteq> cluster_id config \<or> node_id existing \<noteq> node_id config
                    then (Inl (IdMismatch existing config), db)
               else (Inr existing, db)
           | None \<Rightarrow>
               if id_fails db InsertIdentity then (Inl IdStorage, db)
               else (let db1 = db\<lparr>stored_identity := Some config\<rparr>
                     in if id_fails db FlushIdentity then (Inl IdStorage, db1) else (Inr config, db1)))"

section \<open>Properties\<close>

lemma headers_distinct [simp]:
  "HEADER_CLUSTER_ID \<noteq> HEADER_TARGET_NODE_ID" "HEADER_CLUSTER_ID \<noteq> HEADER_TRACE_ID"
  "HEADER_TARGET_NODE_ID \<noteq> HEADER_TRACE_ID"
  by (simp_all add: HEADER_CLUSTER_ID_def HEADER_TARGET_NODE_ID_def HEADER_TRACE_ID_def)

lemma peer_interceptor_headers:
  assumes "peer_interceptor H me target req = Inr req'"
  shows "\<exists>cv nv. header_of_str H (cluster_id me) = Some cv \<and> header_of_str H (node_id_to_string target) = Some nv
    \<and> metadata req' HEADER_CLUSTER_ID = Some cv \<and> metadata req' HEADER_TARGET_NODE_ID = Some nv
    \<and> (case ext_trace req of
         None \<Rightarrow> metadata req' HEADER_TRACE_ID = metadata req HEADER_TRACE_ID
       | Some t \<Rightarrow> \<exists>tv. header_of_str H (uuid_to_str H t) = Some tv \<and> metadata req' HEADER_TRACE_ID = Some tv)"
  using assms headers_distinct[THEN not_sym]
  by (cases "ext_trace req")
    (auto simp: peer_interceptor_def inject_identity_into_request_def inject_trace_id_into_request_def res_bind_Inr_iff)

text \<open>The trace id a request carries to the peer: its extension, or else the header the sender put in.\<close>

definition carried_trace :: "'v wire_text \<Rightarrow> 'v wire_request \<Rightarrow> trace_id option" where
  "carried_trace H req = (case ext_trace req of Some t \<Rightarrow> Some t
     | None \<Rightarrow> Option.bind (Option.bind (metadata req HEADER_TRACE_ID) (header_to_str H)) (uuid_of_str H))"

lemma intercepted_call:
  assumes "wire_text_ok H" "valid_node_id target" "peer_interceptor H me target req = Inr req'"
  shows "consensus_chain H ident req' =
    (if cluster_id me \<noteq> cluster_id ident then Inl (Status Unauthenticated ''Cluster identity mismatch'')
     else if target \<noteq> node_id ident then Inl (Status Unauthenticated ''Target node identity mismatch'')
     else case carried_trace H req of
            None \<Rightarrow> Inl (Status FailedPrecondition ''Missing or malformed TraceId for distributed correlation'')
          | Some t \<Rightarrow> Inr (req'\<lparr>ext_trace := Some t\<rparr>))"
proof -
  have faithful: "header_of_str H s = Some v \<Longrightarrow> header_to_str H v = Some s" "uuid_of_str H (uuid_to_str H t) = Some t" for s v t
    using assms(1) by (simp_all add: wire_text_ok_def)
  obtain cv nv where h: "header_to_str H cv = Some (cluster_id me)" "header_to_str H nv = Some (node_id_to_string target)"
      "metadata req' HEADER_CLUSTER_ID = Some cv" "metadata req' HEADER_TARGET_NODE_ID = Some nv"
    and t: "case ext_trace req of
         None \<Rightarrow> metadata req' HEADER_TRACE_ID = metadata req HEADER_TRACE_ID
       | Some t \<Rightarrow> \<exists>tv. header_of_str H (uuid_to_str H t) = Some tv \<and> metadata req' HEADER_TRACE_ID = Some tv"
    using peer_interceptor_headers[OF assms(3)] faithful(1) by blast
  have "Option.bind (Option.bind (metadata req' HEADER_TRACE_ID) (header_to_str H)) (uuid_of_str H) = carried_trace H req"
    using t faithful by (auto simp: carried_trace_def split: option.splits)
  with h assms(2) show ?thesis
    by (simp add: consensus_chain_def identity_call_def identity_interceptor_new_def verify_cluster_id_def
        verify_target_node_id_def trace_call_def)
qed

text \<open>
  C33 A call a node sends to peer \<open>target\<close> passes the consensus service of a node exactly when
  that node is in the sender's cluster and is the target and the request carries a trace id, and it is then
  served under that trace id; a call to another cluster or another node is refused, and so is a call without a
  trace id. In particular a vote, pre-vote, replication or snapshot call, whose sender puts the trace id of
  its round into the headers, reaches its addressee under exactly that trace id.
\<close>
theorem peer_calls_reach_their_node:
  assumes "wire_text_ok H" "valid_node_id target"
  shows "(\<forall>req req'. peer_interceptor H me target req = Inr req' \<longrightarrow>
      consensus_chain H ident req' =
        (if cluster_id me \<noteq> cluster_id ident then Inl (Status Unauthenticated ''Cluster identity mismatch'')
         else if target \<noteq> node_id ident then Inl (Status Unauthenticated ''Target node identity mismatch'')
         else case carried_trace H req of
                None \<Rightarrow> Inl (Status FailedPrecondition ''Missing or malformed TraceId for distributed correlation'')
              | Some t \<Rightarrow> Inr (req'\<lparr>ext_trace := Some t\<rparr>)))
    \<and> (\<forall>fresh req'. ext_trace fresh = None \<longrightarrow> peer_call H tr me target fresh = Inr req' \<longrightarrow>
      consensus_chain H ident req' =
        (if cluster_id me \<noteq> cluster_id ident then Inl (Status Unauthenticated ''Cluster identity mismatch'')
         else if target \<noteq> node_id ident then Inl (Status Unauthenticated ''Target node identity mismatch'')
         else Inr (req'\<lparr>ext_trace := Some tr\<rparr>)))"
proof (intro conjI allI impI)
  fix fresh req'
  assume f: "ext_trace fresh = None" "peer_call H tr me target fresh = Inr req'"
  then obtain req where r: "inject_trace_id_into_request H tr fresh = Inr req" "peer_interceptor H me target req = Inr req'"
    by (auto simp: peer_call_def map_err_def res_bind_def split: sum.splits)
  have "carried_trace H req = Some tr"
    using r(1) f(1) assms(1)
    by (auto simp: inject_trace_id_into_request_def carried_trace_def res_bind_Inr_iff ok_or_def wire_text_ok_def split: option.splits)
  with intercepted_call[OF assms r(2)]
  show "consensus_chain H ident req' =
        (if cluster_id me \<noteq> cluster_id ident then Inl (Status Unauthenticated ''Cluster identity mismatch'')
         else if target \<noteq> node_id ident then Inl (Status Unauthenticated ''Target node identity mismatch'')
         else Inr (req'\<lparr>ext_trace := Some tr\<rparr>))" by simp
qed (rule intercepted_call[OF assms])

definition plain_text :: "string wire_text" where
  "plain_text = \<lparr>header_of_str = Some, header_to_str = Some,
     uuid_of_str = (\<lambda>s. Some (length s)), uuid_to_str = (\<lambda>t. replicate t CHR ''0'')\<rparr>"

definition fresh_request :: "string wire_request" where
  "fresh_request = \<lparr>metadata = [''grpc-timeout'' \<mapsto> ''150m''], ext_trace = None\<rparr>"

theorem peer_calls_reach_their_node_witness:
  "\<exists>req'. peer_call plain_text 7 \<lparr>cluster_id = ''c'', node_id = 1\<rparr> 2 fresh_request = Inr req'
     \<and> consensus_chain plain_text \<lparr>cluster_id = ''c'', node_id = 2\<rparr> req' = Inr (req'\<lparr>ext_trace := Some 7\<rparr>)
     \<and> consensus_chain plain_text \<lparr>cluster_id = ''c'', node_id = 3\<rparr> req' =
         Inl (Status Unauthenticated ''Target node identity mismatch'')"
proof -
  obtain req' where r: "peer_call plain_text 7 \<lparr>cluster_id = ''c'', node_id = 1\<rparr> 2 fresh_request = Inr req'"
    by (simp add: peer_call_def peer_interceptor_def inject_identity_into_request_def inject_trace_id_into_request_def
        plain_text_def fresh_request_def)
  have "wire_text_ok plain_text" "valid_node_id 2" "ext_trace fresh_request = None"
    by (simp_all add: wire_text_ok_def plain_text_def valid_node_id_def is_u64_def u64_bound_def fresh_request_def)
  note t = peer_calls_reach_their_node[OF this(1,2), THEN conjunct2, rule_format, OF this(3) r]
  show ?thesis using r t[of "\<lparr>cluster_id = ''c'', node_id = 2\<rparr>"] t[of "\<lparr>cluster_id = ''c'', node_id = 3\<rparr>"] by simp
qed

text \<open>
  A store that has named a node keeps that name: whatever fails in between, two boots of one store that both
  come up do so under the same identity, and a boot under another identity is refused and leaves the store as it was.
\<close>

lemma identity_immutable:
  assumes "initialize_node_identity c1 db = (Inr i1, db1)"
    and "initialize_node_identity c2 (db1\<lparr>id_fails := f\<rparr>) = (r, db2)"
  shows "i1 = c1 \<and> db2 = db1\<lparr>id_fails := f\<rparr> \<and> (\<forall>i2. r = Inr i2 \<longrightarrow> i2 = i1 \<and> c2 = c1)"
  using assms by (auto simp: initialize_node_identity_def Let_def split: if_splits option.splits)

lemma cluster_id_normal: "cluster_id_try_new s = Inr c \<Longrightarrow> c \<noteq> [] \<and> list_all (\<lambda>x. \<not> is_ws x) c"
  by (auto simp: cluster_id_try_new_def Let_def list_all_iff is_alnum_def is_ws_def split: if_splits)

end
