(* ===== verification/Taxonomy.thy ===== *)
theory Taxonomy
  imports Text_Ops
begin

text \<open>
  \<open>crates/common/src/taxonomy.rs\<close> and \<open>slug.rs\<close>: the twelve grocery categories with their text forms,
  and the slugs used as item keys. The derived parser of the enum accepts, ignoring ASCII case, the two
  spellings each variant declares and prints the longer one.
\<close>

section \<open>Categories\<close>

datatype grocery_category =
    PrimaryFlora | AnimalSecretions | FleshAndMarrow | ShelfStableCarbohydrates | CulturedDoughs | LiquefiedHydration
  | CondimentsAndCatalysts | NutrientSparseCommodities | EthanolSolutions | BiomedicalMaintenance
  | SanitizationAndUtility | AnomalousInputs

fun category_to_string :: "grocery_category \<Rightarrow> string" where
  "category_to_string PrimaryFlora = ''Primary Flora''"
| "category_to_string AnimalSecretions = ''Animal Secretions''"
| "category_to_string FleshAndMarrow = ''Flesh And Marrow''"
| "category_to_string ShelfStableCarbohydrates = ''Shelf Stable Carbohydrates''"
| "category_to_string CulturedDoughs = ''Cultured Doughs''"
| "category_to_string LiquefiedHydration = ''Liquefied Hydration''"
| "category_to_string CondimentsAndCatalysts = ''Condiments And Catalysts''"
| "category_to_string NutrientSparseCommodities = ''Nutrient Sparse Commodities''"
| "category_to_string EthanolSolutions = ''Ethanol Solutions''"
| "category_to_string BiomedicalMaintenance = ''Biomedical Maintenance''"
| "category_to_string SanitizationAndUtility = ''Sanitization And Utility''"
| "category_to_string AnomalousInputs = ''Anomalous Inputs''"

definition all_categories :: "grocery_category list" where
  "all_categories = [PrimaryFlora, AnimalSecretions, FleshAndMarrow, ShelfStableCarbohydrates, CulturedDoughs,
     LiquefiedHydration, CondimentsAndCatalysts, NutrientSparseCommodities, EthanolSolutions, BiomedicalMaintenance,
     SanitizationAndUtility, AnomalousInputs]"

definition category_spellings :: "grocery_category \<Rightarrow> string list" where
  "category_spellings g = [category_to_string g, filter (\<lambda>c. c \<noteq> CHR '' '') (category_to_string g)]"

definition category_from_str :: "string \<Rightarrow> grocery_category option" where
  "category_from_str s =
     find (\<lambda>g. to_lowercase s \<in> set (map to_lowercase (category_spellings g))) all_categories"

fun category_slug :: "grocery_category \<Rightarrow> string" where
  "category_slug PrimaryFlora = ''primary_flora''"
| "category_slug AnimalSecretions = ''animal_secretions''"
| "category_slug FleshAndMarrow = ''flesh_and_marrow''"
| "category_slug ShelfStableCarbohydrates = ''shelf_stable_carbohydrates''"
| "category_slug CulturedDoughs = ''cultured_doughs''"
| "category_slug LiquefiedHydration = ''liquefied_hydration''"
| "category_slug CondimentsAndCatalysts = ''condiments_and_catalysts''"
| "category_slug NutrientSparseCommodities = ''nutrient_sparse_commodities''"
| "category_slug EthanolSolutions = ''ethanol_solutions''"
| "category_slug BiomedicalMaintenance = ''biomedical_maintenance''"
| "category_slug SanitizationAndUtility = ''sanitization_and_utility''"
| "category_slug AnomalousInputs = ''anomalous_inputs''"

section \<open>Slugs\<close>

fun slug_step :: "string \<times> bool \<Rightarrow> char \<Rightarrow> string \<times> bool" where
  "slug_step (slug, prev_was_sep) ch =
     (if is_alnum ch then (slug @ [to_lower ch], False)
      else if \<not> prev_was_sep then (slug @ ''_'', True)
      else (slug, prev_was_sep))"

definition slugify :: "string \<Rightarrow> string" where
  "slugify input =
     (let (slug, _) = foldl slug_step ([], True) input
      in if ends_with ''_'' slug then butlast slug else slug)"

text \<open>The reference: the runs of ASCII letters and digits, in lower case, joined by underscores.\<close>

definition slug_words :: "string \<Rightarrow> string list" where
  "slug_words s = map to_lowercase (runs is_alnum s)"

definition is_slug :: "string \<Rightarrow> bool" where
  "is_slug s \<longleftrightarrow> (\<exists>ws. s = join ''_'' ws
     \<and> (\<forall>w \<in> set ws. w \<noteq> [] \<and> (\<forall>c \<in> set w. is_alnum c \<and> to_lower c = c)))"

lemma not_alnum_underscore [simp]: "\<not> is_alnum (CHR ''_'')"
  by (simp add: is_alnum_def)

lemma join_snoc: "ws \<noteq> [] \<Longrightarrow> join sep (ws @ [w]) = join sep ws @ sep @ w"
  by (induction sep ws rule: join.induct) simp_all

lemma join_last: "join sep (ws @ [w @ v]) = join sep (ws @ [w]) @ v"
  by (cases "ws = []") (simp_all add: join_snoc)

text \<open>The text the loop has built: with a separator pending, the finished words and an underscore.\<close>

definition slug_built :: "string list \<Rightarrow> string \<Rightarrow> string \<times> bool" where
  "slug_built ws w =
     (if w \<noteq> [] then (join ''_'' (ws @ [w]), False)
      else (if ws = [] then [] else join ''_'' ws @ ''_'', True))"

lemma slug_step_built:
  "slug_step (slug_built ws w) c =
     (if is_alnum c then slug_built ws (w @ [to_lower c])
      else if w = [] then slug_built ws [] else slug_built (ws @ [w]) [])"
  using join_last[of "''_''" ws w "[to_lower c]"] join_snoc[of ws "''_''" "[to_lower c]"]
  by (auto simp: slug_built_def)

lemma slug_loop:
  "\<exists>ws' w'. foldl slug_step (slug_built ws (to_lowercase v)) s = slug_built ws' w'
     \<and> ws' @ (if w' = [] then [] else [w']) = ws @ map to_lowercase (runs_from is_alnum v s)"
proof (induction s arbitrary: ws v)
  case Nil
  show ?case by (intro exI[of _ ws] exI[of _ "to_lowercase v"]) (simp add: to_lowercase_def)
next
  case (Cons c cs)
  show ?case
  proof (cases "is_alnum c")
    case True
    then have "slug_step (slug_built ws (to_lowercase v)) c = slug_built ws (to_lowercase (v @ [c]))"
      by (simp add: slug_step_built to_lowercase_def)
    with True Cons.IH[of ws "v @ [c]"] show ?thesis by simp
  next
    case False
    define ws1 where "ws1 = (if v = [] then ws else ws @ [to_lowercase v])"
    have "slug_step (slug_built ws (to_lowercase v)) c = slug_built ws1 (to_lowercase [])"
      using False by (simp add: slug_step_built to_lowercase_def ws1_def)
    moreover have "ws @ map to_lowercase (runs_from is_alnum v (c # cs)) = ws1 @ map to_lowercase (runs_from is_alnum [] cs)"
      using False by (simp add: ws1_def)
    ultimately show ?thesis using Cons.IH[of ws1 "[]"] by (simp del: runs_from.simps)
  qed
qed

lemma slug_words_sound: "w \<in> set (slug_words s) \<Longrightarrow> w \<noteq> [] \<and> (\<forall>c \<in> set w. is_alnum c \<and> to_lower c = c)"
  by (auto simp: slug_words_def to_lowercase_def dest!: runs_sound)

lemma join_eq_Nil: "join sep ws = [] \<longleftrightarrow> (ws = [] \<or> ws = [[]] \<or> sep = [] \<and> (\<forall>w \<in> set ws. w = []))" if "\<forall>w \<in> set ws. w \<noteq> []"
  using that by (induction sep ws rule: join.induct) auto

lemma slugify_words: "slugify s = join ''_'' (slug_words s)"
proof -
  obtain ws w where fold: "foldl slug_step (slug_built [] []) s = slug_built ws w"
    and words: "ws @ (if w = [] then [] else [w]) = slug_words s"
    using slug_loop[of "[]" "[]" s] by (auto simp: to_lowercase_def slug_words_def runs_def)
  have start: "slug_built [] [] = ([], True)" by (simp add: slug_built_def)
  show ?thesis
  proof (cases "w = []")
    case True
    with fold words start show ?thesis
      by (simp add: slugify_def slug_built_def ends_with_def starts_with_def)
  next
    case False
    then have "w \<in> set (slug_words s)" using words[symmetric] by simp
    then have "is_alnum (last w)" using slug_words_sound False last_in_set by blast
    then have "last w \<noteq> CHR ''_''" by auto
    moreover have "join ''_'' (ws @ [w]) = join ''_'' (ws @ [butlast w @ [last w]])" using False by simp
    ultimately have "\<not> ends_with ''_'' (join ''_'' (ws @ [w]))"
      by (metis append_butlast_last_id ends_with_iff join_last last_snoc)
    with fold words start False show ?thesis by (simp add: slugify_def slug_built_def)
  qed
qed

lemma slug_words_join:
  assumes "\<forall>w \<in> set ws. w \<noteq> [] \<and> (\<forall>c \<in> set w. is_alnum c \<and> to_lower c = c)"
  shows "slug_words (join ''_'' ws) = ws"
proof -
  have "runs is_alnum (join ''_'' ws) = ws" using assms by (intro runs_join) auto
  moreover have "map to_lowercase ws = ws" using assms by (auto intro!: map_idI simp: to_lowercase_def)
  ultimately show ?thesis by (simp add: slug_words_def)
qed

lemma slugify_fixed_iff: "slugify s = s \<longleftrightarrow> is_slug s"
  by (metis is_slug_def slug_words_join slug_words_sound slugify_words)

lemma all_categories_complete: "list_all P all_categories \<Longrightarrow> P g"
  by (cases g) (simp_all add: all_categories_def)

lemma category_slugs: "slugify (category_to_string g) = category_slug g"
  by (rule all_categories_complete[where P = "\<lambda>g. slugify (category_to_string g) = category_slug g"]) code_simp

section \<open>Properties\<close>

text \<open>
  The slug of a string is its runs of ASCII letters and digits in lower case, joined by single underscores
  (\<open>slug_words\<close>); the strings that are their own slug are exactly the canonical ones (\<open>is_slug\<close>), slugging twice changes
  nothing, and the slug each category declares is the slug of its printed name.
\<close>
theorem slugify_canonical:
  "slugify s = join ''_'' (slug_words s) \<and> (slugify s = s \<longleftrightarrow> is_slug s) \<and> slugify (slugify s) = slugify s
   \<and> slugify (category_to_string g) = category_slug g"
proof -
  have "slugify (slugify s) = slugify s"
    by (metis slug_words_join slug_words_sound slugify_words)
  then show ?thesis using slugify_words slugify_fixed_iff category_slugs by blast
qed

text \<open>The letters of a spelling in lower case identify the category.\<close>

definition letters :: "string \<Rightarrow> string" where
  "letters s = filter is_alnum (to_lowercase s)"

lemma not_alnum_space [simp]: "\<not> is_alnum (CHR '' '')"
  by (simp add: is_alnum_def)

lemma letters_spelling: "t \<in> set (category_spellings g) \<Longrightarrow> letters t = letters (category_to_string g)"
proof -
  have "letters (filter (\<lambda>c. c \<noteq> CHR '' '') s) = letters s" for s
    by (induction s) (auto simp: letters_def to_lowercase_def)
  then show "t \<in> set (category_spellings g) \<Longrightarrow> letters t = letters (category_to_string g)"
    by (auto simp: category_spellings_def)
qed

lemma letters_inject: "letters (category_to_string g) = letters (category_to_string h) \<Longrightarrow> g = h"
proof -
  have key: "letters (category_to_string g) = filter (\<lambda>c. c \<noteq> CHR ''_'') (category_slug g)" for g
    by (rule all_categories_complete[where P = "\<lambda>g. letters (category_to_string g)
          = filter (\<lambda>c. c \<noteq> CHR ''_'') (category_slug g)"]) code_simp
  show "letters (category_to_string g) = letters (category_to_string h) \<Longrightarrow> g = h"
    unfolding key by (cases g; cases h; simp)
qed

lemma category_round_trip: "t \<in> set (category_spellings g) \<Longrightarrow> category_from_str t = Some g"
proof -
  assume t: "t \<in> set (category_spellings g)"
  let ?P = "\<lambda>h. to_lowercase t \<in> set (map to_lowercase (category_spellings h))"
  have only: "h = g" if P: "?P h" for h
  proof -
    obtain u where u: "u \<in> set (category_spellings h)" "to_lowercase t = to_lowercase u" using P unfolding set_map by blast
    then have "letters u = letters t" by (simp add: letters_def)
    then have "letters (category_to_string h) = letters (category_to_string g)"
      using letters_spelling[OF u(1)] letters_spelling[OF t] by simp
    then show "h = g" by (rule letters_inject)
  qed
  have "g \<in> set all_categories" by (cases g) (simp_all add: all_categories_def)
  then have "find ?P all_categories \<noteq> None" using t by (auto simp: find_None_iff)
  then obtain h where h: "find ?P all_categories = Some h" by auto
  then have "?P h" by (auto simp: find_Some_iff)
  with h only show "category_from_str t = Some g" by (simp add: category_from_str_def)
qed

lemma category_from_str_case: "to_lowercase s = to_lowercase t \<Longrightarrow> category_from_str s = category_from_str t"
  by (simp add: category_from_str_def)

end
