(* ===== verification/Units.thy ===== *)
theory Units
  imports Text_Ops
begin

text \<open>
  \<open>crates/common/src/units.rs\<close>: dimensions, physical quantities with the dimensional fence, and the
  registry of unit symbols. Decimal numbers are those of a third-party crate. The operations the source
  calls are the fields of the parameter \<open>decimal_ops\<close>: parsing and printing, the sign and zero tests,
  the checked arithmetic (\<open>None\<close> on overflow), rounding half to even to a number of places, and the constants.
\<close>

section \<open>Decimals\<close>

record 'd decimal_ops =
  d_from_str :: "string \<Rightarrow> 'd option"
  d_to_string :: "'d \<Rightarrow> string"
  d_is_sign_negative :: "'d \<Rightarrow> bool"
  d_is_zero :: "'d \<Rightarrow> bool"
  d_checked_add :: "'d \<Rightarrow> 'd \<Rightarrow> 'd option"
  d_checked_sub :: "'d \<Rightarrow> 'd \<Rightarrow> 'd option"
  d_checked_mul :: "'d \<Rightarrow> 'd \<Rightarrow> 'd option"
  d_checked_div :: "'d \<Rightarrow> 'd \<Rightarrow> 'd option"
  d_round_half_even :: "nat \<Rightarrow> 'd \<Rightarrow> 'd"
  d_from_int :: "int \<Rightarrow> 'd"
  d_from_parts :: "nat \<Rightarrow> nat \<Rightarrow> 'd"

text \<open>Documented of the decimal crate: a number that is not negative is read back as it was printed.\<close>

definition decimal_text :: "'d decimal_ops \<Rightarrow> bool" where
  "decimal_text D \<longleftrightarrow> (\<forall>d. \<not> d_is_sign_negative D d \<longrightarrow> d_from_str D (d_to_string D d) = Some d)"

section \<open>Dimensions and quantities\<close>

definition SI_STABILIZATION_PRECISION :: nat where
  "SI_STABILIZATION_PRECISION = 4"

datatype unit_error = InvalidSymbol string | DimensionalMismatch | InvalidQuantity string | UnitArithmetic

datatype dimension = Mass | Volume | Count | Anomalous

fun base_unit :: "dimension \<Rightarrow> string" where
  "base_unit Mass = ''g''"
| "base_unit Volume = ''ml''"
| "base_unit Count = ''units''"
| "base_unit Anomalous = ''misc''"

datatype 'd physical_quantity = QMass 'd | QVolume 'd | QCount 'd | QAnomalous 'd

fun pq_value :: "'d physical_quantity \<Rightarrow> 'd" where
  "pq_value (QMass m) = m"
| "pq_value (QVolume v) = v"
| "pq_value (QCount c) = c"
| "pq_value (QAnomalous a) = a"

fun pq_dimension :: "'d physical_quantity \<Rightarrow> dimension" where
  "pq_dimension (QMass _) = Mass"
| "pq_dimension (QVolume _) = Volume"
| "pq_dimension (QCount _) = Count"
| "pq_dimension (QAnomalous _) = Anomalous"

fun pq_add :: "'d decimal_ops \<Rightarrow> 'd physical_quantity \<Rightarrow> 'd physical_quantity \<Rightarrow> unit_error + 'd physical_quantity" where
  "pq_add D (QMass a) (QMass b) = res_bind (ok_or (d_checked_add D a b) UnitArithmetic) (\<lambda>res. Inr (QMass res))"
| "pq_add D (QVolume a) (QVolume b) = res_bind (ok_or (d_checked_add D a b) UnitArithmetic) (\<lambda>res. Inr (QVolume res))"
| "pq_add D (QCount a) (QCount b) = res_bind (ok_or (d_checked_add D a b) UnitArithmetic) (\<lambda>res. Inr (QCount res))"
| "pq_add D (QAnomalous a) (QAnomalous b) =
     res_bind (ok_or (d_checked_add D a b) UnitArithmetic) (\<lambda>res. Inr (QAnomalous res))"
| "pq_add D _ _ = Inl DimensionalMismatch"

fun pq_sub :: "'d decimal_ops \<Rightarrow> 'd physical_quantity \<Rightarrow> 'd physical_quantity \<Rightarrow> unit_error + 'd physical_quantity" where
  "pq_sub D (QMass a) (QMass b) = res_bind (ok_or (d_checked_sub D a b) UnitArithmetic) (\<lambda>res. Inr (QMass res))"
| "pq_sub D (QVolume a) (QVolume b) = res_bind (ok_or (d_checked_sub D a b) UnitArithmetic) (\<lambda>res. Inr (QVolume res))"
| "pq_sub D (QCount a) (QCount b) = res_bind (ok_or (d_checked_sub D a b) UnitArithmetic) (\<lambda>res. Inr (QCount res))"
| "pq_sub D (QAnomalous a) (QAnomalous b) =
     res_bind (ok_or (d_checked_sub D a b) UnitArithmetic) (\<lambda>res. Inr (QAnomalous res))"
| "pq_sub D _ _ = Inl DimensionalMismatch"

section \<open>Registry\<close>

record 'd unit_registry_entry =
  ue_symbol :: string
  ue_dimension :: dimension
  ue_multiplier :: 'd
  ue_is_contextual :: bool

definition MULTIPLIER_LB :: "'d decimal_ops \<Rightarrow> 'd" where
  "MULTIPLIER_LB D = d_from_parts D 45359237 5"

definition MULTIPLIER_OZ :: "'d decimal_ops \<Rightarrow> 'd" where
  "MULTIPLIER_OZ D = d_from_parts D 2834952 5"

definition MULTIPLIER_GAL :: "'d decimal_ops \<Rightarrow> 'd" where
  "MULTIPLIER_GAL D = d_from_parts D 378541178 5"

definition MULTIPLIER_FL_OZ :: "'d decimal_ops \<Rightarrow> 'd" where
  "MULTIPLIER_FL_OZ D = d_from_parts D 2957353 5"

definition normalize_symbol :: "string \<Rightarrow> string" where
  "normalize_symbol s =
     map (\<lambda>c. if c = CHR ''-'' \<or> c = CHR '' '' then CHR ''_'' else c) (to_lowercase (trim s))"

definition registry :: "'d decimal_ops \<Rightarrow> (string list \<times> 'd unit_registry_entry) list" where
  "registry D = (let row = (\<lambda>names sym dim mult ctx.
       (names, \<lparr>ue_symbol = sym, ue_dimension = dim, ue_multiplier = mult, ue_is_contextual = ctx\<rparr>))
     in [row [''g'', ''gram'', ''grams''] ''g'' Mass (d_from_int D 1) False,
         row [''kg'', ''kilogram'', ''kilograms''] ''kg'' Mass (d_from_int D 1000) False,
         row [''lb'', ''lbs'', ''pound'', ''pounds''] ''lb'' Mass (MULTIPLIER_LB D) False,
         row [''oz'', ''ounce'', ''ounces''] ''oz'' Mass (MULTIPLIER_OZ D) False,
         row [''ml'', ''milliliter'', ''milliliters'', ''millilitre'', ''millilitres''] ''ml'' Volume (d_from_int D 1) False,
         row [''l'', ''liter'', ''liters'', ''litre'', ''litres''] ''L'' Volume (d_from_int D 1000) False,
         row [''gal'', ''gallon'', ''gallons''] ''gal'' Volume (MULTIPLIER_GAL D) False,
         row [''fl_oz'', ''fluid_ounce'', ''fluid_ounces''] ''fl_oz'' Volume (MULTIPLIER_FL_OZ D) False,
         row [''units'', ''unit'', ''pc'', ''pcs''] ''units'' Count (d_from_int D 1) False,
         row [''dozens'', ''dozen''] ''dozens'' Count (d_from_int D 12) False,
         row [''packs'', ''pack''] ''packs'' Count (d_from_int D 1) True,
         row [''misc'', ''handful'', ''bunch'', ''handfuls'', ''bunches''] ''misc'' Anomalous (d_from_int D 1) True])"

definition resolve_symbol :: "'d decimal_ops \<Rightarrow> string \<Rightarrow> unit_error + 'd unit_registry_entry" where
  "resolve_symbol D symbol =
     (let normalized = normalize_symbol symbol
      in case find (\<lambda>(names, _). normalized \<in> set names) (registry D) of
           Some (_, e) \<Rightarrow> Inr e
         | None \<Rightarrow> Inl (InvalidSymbol normalized))"

definition convert_to_base_val :: "'d decimal_ops \<Rightarrow> string \<Rightarrow> 'd \<Rightarrow> unit_error + 'd" where
  "convert_to_base_val D qty multiplier =
     res_bind (ok_or (d_from_str D qty) (InvalidQuantity qty))
       (\<lambda>q. res_bind (ok_or (d_checked_mul D q multiplier) UnitArithmetic)
       (\<lambda>result. Inr (d_round_half_even D SI_STABILIZATION_PRECISION result)))"

fun construct_quantity :: "dimension \<Rightarrow> 'd \<Rightarrow> 'd physical_quantity" where
  "construct_quantity Mass v = QMass v"
| "construct_quantity Volume v = QVolume v"
| "construct_quantity Count v = QCount v"
| "construct_quantity Anomalous v = QAnomalous v"

definition parse_and_convert :: "'d decimal_ops \<Rightarrow> string \<Rightarrow> string \<Rightarrow> unit_error + 'd physical_quantity" where
  "parse_and_convert D qty u =
     res_bind (resolve_symbol D u)
       (\<lambda>e. res_bind (convert_to_base_val D qty (ue_multiplier e))
       (\<lambda>base_val. Inr (construct_quantity (ue_dimension e) base_val)))"

definition parse_and_convert_with_multiplier ::
  "'d decimal_ops \<Rightarrow> string \<Rightarrow> string \<Rightarrow> 'd \<Rightarrow> unit_error + 'd physical_quantity" where
  "parse_and_convert_with_multiplier D qty u multiplier =
     res_bind (resolve_symbol D u)
       (\<lambda>e. res_bind (convert_to_base_val D qty multiplier)
       (\<lambda>base_val. Inr (construct_quantity (ue_dimension e) base_val)))"

definition convert_to_display_value :: "'d decimal_ops \<Rightarrow> string \<Rightarrow> string \<Rightarrow> string option" where
  "convert_to_display_value D base_quantity display =
     (case resolve_symbol D display of
        Inl _ \<Rightarrow> None
      | Inr e \<Rightarrow>
          if ue_is_contextual e then None
          else case d_from_str D base_quantity of
                 None \<Rightarrow> None
               | Some base \<Rightarrow>
                   map_option (\<lambda>r. d_to_string D (d_round_half_even D SI_STABILIZATION_PRECISION r))
                     (d_checked_div D base (ue_multiplier e)))"

section \<open>Lemmas\<close>

lemma construct_quantity_sel [simp]:
  "pq_value (construct_quantity dim v) = v" "pq_dimension (construct_quantity dim v) = dim"
  by (cases dim; simp)+

text \<open>The dimensional fence: arithmetic succeeds only within one dimension and stays there.\<close>

lemma checked_op_Inr: "res_bind (ok_or x e) (\<lambda>r. Inr (f r)) = Inr q \<longleftrightarrow> (\<exists>r. x = Some r \<and> q = f r)"
  by (auto simp: res_bind_def ok_or_def split: option.splits)

lemma pq_add_iff:
  "pq_add D a b = Inr q \<longleftrightarrow>
     pq_dimension a = pq_dimension b \<and> pq_dimension q = pq_dimension a
     \<and> d_checked_add D (pq_value a) (pq_value b) = Some (pq_value q)"
  by (cases a; cases b; cases q) (simp_all add: checked_op_Inr del: res_bind_simps ok_or_simps)

lemma pq_sub_iff:
  "pq_sub D a b = Inr q \<longleftrightarrow>
     pq_dimension a = pq_dimension b \<and> pq_dimension q = pq_dimension a
     \<and> d_checked_sub D (pq_value a) (pq_value b) = Some (pq_value q)"
  by (cases a; cases b; cases q) (simp_all add: checked_op_Inr del: res_bind_simps ok_or_simps)

lemma normalize_base_unit: "normalize_symbol (base_unit dim) = base_unit dim"
  by (cases dim; simp only:; code_simp)

lemma resolve_base_unit:
  "\<exists>e. resolve_symbol D (base_unit dim) = Inr e \<and> ue_dimension e = dim"
  unfolding resolve_symbol_def normalize_base_unit
  by (cases dim) (simp_all add: registry_def)

lemma parse_and_convert_Inr:
  "parse_and_convert D qty u = Inr q \<Longrightarrow>
     \<exists>e x m. resolve_symbol D u = Inr e \<and> pq_dimension q = ue_dimension e \<and> d_from_str D qty = Some x
       \<and> d_checked_mul D x (ue_multiplier e) = Some m \<and> pq_value q = d_round_half_even D SI_STABILIZATION_PRECISION m"
  by (auto simp: parse_and_convert_def convert_to_base_val_def res_bind_Inr_iff)

section \<open>Concrete instance\<close>

text \<open>Whole numbers, for concrete runs: text without a fraction, fractions of multipliers cut off.\<close>

fun read_digits :: "nat \<Rightarrow> string \<Rightarrow> nat option" where
  "read_digits n [] = Some n"
| "read_digits n (c # cs) = (case digit_val c of None \<Rightarrow> None | Some k \<Rightarrow> read_digits (10 * n + k) cs)"

definition whole_numbers :: "int decimal_ops" where
  "whole_numbers = \<lparr>
     d_from_str = (\<lambda>s. if s = [] then None else map_option int (read_digits 0 s)),
     d_to_string = (\<lambda>n. if n < 0 then CHR ''-'' # node_id_to_string (nat (- n)) else node_id_to_string (nat n)),
     d_is_sign_negative = (\<lambda>n. n < 0), d_is_zero = (\<lambda>n. n = 0),
     d_checked_add = (\<lambda>a b. Some (a + b)), d_checked_sub = (\<lambda>a b. Some (a - b)), d_checked_mul = (\<lambda>a b. Some (a * b)),
     d_checked_div = (\<lambda>a b. if b = 0 then None else Some (a div b)),
     d_round_half_even = (\<lambda>_ n. n), d_from_int = (\<lambda>n. n), d_from_parts = (\<lambda>lo scale. int (lo div 10 ^ scale))\<rparr>"

lemma read_digits_snoc: "read_digits n (xs @ [c]) = Option.bind (read_digits n xs) (\<lambda>a. read_digits a [c])"
  by (induction n xs rule: read_digits.induct) (auto split: option.splits)

lemma read_digits_to_string: "read_digits 0 (node_id_to_string n) = Some n"
proof (induction n rule: node_id_to_string.induct)
  case (1 n)
  show ?case
  proof (cases "n < 10")
    case True
    then show ?thesis by (subst node_id_to_string.simps) simp
  next
    case False
    with 1 show ?thesis by (subst node_id_to_string.simps) (simp add: read_digits_snoc)
  qed
qed

lemma whole_numbers_text: "decimal_text whole_numbers"
  by (simp add: decimal_text_def whole_numbers_def read_digits_to_string)

end
