(* ===== verification/Gateway.thy ===== *)
theory Gateway
  imports Raft_Handle Raft_Service Lacto_FSM Taxonomy Units
begin

text \<open>
  \<open>crates/gateway/src\<close>: the ingress pipeline of a node, one group of definitions per file of \<open>ingress/\<close> (types,
  scrubber, sequencer, stabilizer, oracle loop, proposer, dispatcher) and the oracle relay of \<open>veto.rs\<close>.
  A request runs as one task with several suspension points. What it observes at them is an argument, the
  record \<open>mutation_obs\<close> or \<open>query_obs\<close>: the authority it reads, the state machine at each of its
  reads, the answers of the policy service per attempt, and the progress values it waits on.
  Its one effect, the proposal, is a handler on the node and its store.
\<close>

section \<open>Messages\<close>

datatype operation_type = OUnspecified | OAdd | OSubtract | OSet | ODelete

fun operation_type_int :: "operation_type \<Rightarrow> int" where
  "operation_type_int OUnspecified = 0"
| "operation_type_int OAdd = 1"
| "operation_type_int OSubtract = 2"
| "operation_type_int OSet = 3"
| "operation_type_int ODelete = 4"

definition operation_type_try_from :: "int \<Rightarrow> operation_type option" where
  "operation_type_try_from i = find (\<lambda>ot. operation_type_int ot = i) [OUnspecified, OAdd, OSubtract, OSet, ODelete]"

record mutation_intent =
  mi_item_key :: string
  mi_quantity :: "string option"
  mi_unit :: "string option"
  mi_category :: "string option"
  mi_operation :: int

definition new_mutation_intent ::
  "string \<Rightarrow> string option \<Rightarrow> string option \<Rightarrow> string option \<Rightarrow> operation_type \<Rightarrow> mutation_intent" where
  "new_mutation_intent key qty u cat ot =
     \<lparr>mi_item_key = key, mi_quantity = qty, mi_unit = u, mi_category = cat, mi_operation = operation_type_int ot\<rparr>"

record propose_mutation_request =
  pm_client_id :: string
  pm_sequence_id :: u64
  pm_intent :: "mutation_intent option"

definition new_propose_mutation_request :: "string \<Rightarrow> sequence_id \<Rightarrow> mutation_intent \<Rightarrow> propose_mutation_request" where
  "new_propose_mutation_request client sq intent =
     \<lparr>pm_client_id = client, pm_sequence_id = sq, pm_intent = Some intent\<rparr>"

record propose_mutation_response =
  pr_status :: int
  pr_state_version :: u64
  pr_leader_hint :: string
  pr_error_message :: string

record query_state_request =
  qs_query_filter :: "string option"
  qs_min_state_version :: "u64 option"

datatype query_status = QUnspecified | QSuccess | QRejected | QError

fun query_status_int :: "query_status \<Rightarrow> int" where
  "query_status_int QUnspecified = 0"
| "query_status_int QSuccess = 1"
| "query_status_int QRejected = 2"
| "query_status_int QError = 3"

record query_state_response =
  qr_items :: "grocery_item list"
  qr_current_state_version :: u64
  qr_status :: int
  qr_leader_hint :: string
  qr_error_message :: string

definition new_committed_mutation ::
  "string \<Rightarrow> sequence_id \<Rightarrow> string \<Rightarrow> string \<Rightarrow> string \<Rightarrow> string \<Rightarrow> string \<Rightarrow> string \<Rightarrow> string \<Rightarrow> string \<Rightarrow> bool \<Rightarrow>
     mutation_status \<Rightarrow> timestamp \<Rightarrow> committed_mutation" where
  "new_committed_mutation client sq key name qty bu du cat raw just del st now =
     \<lparr>m_resolved_item_key = key, m_suggested_display_name = name, m_updated_base_quantity = qty, m_base_unit = bu,
      m_display_unit = du, m_updated_category = cat, m_client_id = client, m_sequence_id = sq, m_raw_user_input = raw,
      m_moral_justification = just, m_event_time = Some now, m_is_delete = del, m_status = mutation_status_int st\<rparr>"

section \<open>Types of the ingress layer\<close>

record ingress_config =
  ic_veto_max_retries :: nat
  ic_max_justification_len :: nat

datatype operation = OpAdd | OpSubtract | OpSet | OpDelete

datatype proposal_status = PCommitted | PVetoed

record scrubbed_intent =
  si_item_key :: string
  si_operation :: operation
  si_quantity :: "string option"
  si_unit :: "string option"
  si_category :: "string option"

record stabilized_mutation =
  st_resolved_item_key :: string
  st_suggested_display_name :: string
  st_updated_base_quantity :: string
  st_base_unit :: string
  st_display_unit :: string
  st_category :: grocery_category
  st_moral_justification :: string

record mutation_proposal =
  mp_client_id :: string
  mp_sequence_id :: sequence_id
  mp_intent :: scrubbed_intent
  mp_stabilized :: stabilized_mutation
  mp_raw_user_input :: string
  mp_status :: proposal_status
  mp_consensus_status :: consensus_authority

datatype 'r authority_outcome = Authorized consensus_authority | Redirect 'r | Fatal status

record veto_outcome =
  vo_is_approved :: bool
  vo_category_assignment :: string
  vo_moral_justification :: string
  vo_resolved_item_key :: string
  vo_suggested_display_name :: string
  vo_resolved_unit :: string
  vo_conversion_multiplier_to_base :: string

datatype veto_error = VTimeout | VRpcFailure string | VCausalIntegrityViolation

section \<open>Oracle relay\<close>

text \<open>A byte offset of UTF-8 text is a character boundary when no continuation byte starts there.\<close>

definition is_char_boundary :: "string \<Rightarrow> nat \<Rightarrow> bool" where
  "is_char_boundary s i \<longleftrightarrow> i = 0 \<or> i = length s \<or>
     i < length s \<and> \<not> (128 \<le> (of_char (s ! i) :: nat) \<and> of_char (s ! i) < (192 :: nat))"

fun char_floor :: "string \<Rightarrow> nat \<Rightarrow> nat" where
  "char_floor s 0 = 0"
| "char_floor s (Suc e) = (if \<not> is_char_boundary s (Suc e) then char_floor s e else Suc e)"

definition trim_justification :: "string \<Rightarrow> nat \<Rightarrow> string" where
  "trim_justification s max_len =
     (if length s \<le> max_len then s else take (char_floor s max_len) s @ ''...'')"

text \<open>The relay's handling of the answer of the policy service: the call's status or its response.\<close>

record evaluate_proposal_response =
  ev_is_approved :: bool
  ev_category_assignment :: string
  ev_moral_justification :: string
  ev_resolved_item_key :: string
  ev_suggested_display_name :: string
  ev_resolved_unit :: string
  ev_conversion_multiplier_to_base :: string

definition relay_evaluate ::
  "nat \<Rightarrow> trace_id \<Rightarrow> status + evaluate_proposal_response response \<Rightarrow> veto_error + veto_outcome" where
  "relay_evaluate max_len trace r =
     (case r of
        Inl (Status code msg) \<Rightarrow> Inl (if code = DeadlineExceeded then VTimeout else VRpcFailure msg)
      | Inr resp \<Rightarrow>
          if resp_trace resp \<noteq> Some trace then Inl VCausalIntegrityViolation
          else (let e = resp_inner resp
                in Inr \<lparr>vo_is_approved = ev_is_approved e, vo_category_assignment = ev_category_assignment e,
                        vo_moral_justification = trim_justification (ev_moral_justification e) max_len,
                        vo_resolved_item_key = ev_resolved_item_key e,
                        vo_suggested_display_name = ev_suggested_display_name e, vo_resolved_unit = ev_resolved_unit e,
                        vo_conversion_multiplier_to_base = ev_conversion_multiplier_to_base e\<rparr>))"

section \<open>Scrubber\<close>

definition non_empty :: "string \<Rightarrow> string option" where
  "non_empty s = (if s = [] then None else Some s)"

definition check_quantity :: "'d decimal_ops \<Rightarrow> string option \<Rightarrow> status + unit" where
  "check_quantity D q =
     (case q of
        None \<Rightarrow> Inr ()
      | Some t \<Rightarrow>
          (case d_from_str D t of
             None \<Rightarrow> Inl (Status InvalidArgument ''Invalid quantity format'')
           | Some val \<Rightarrow>
               if d_is_sign_negative D val
               then Inl (Status InvalidArgument ''quantity cannot be negative. Use SUBTRACT or DELETE for removals.'')
               else Inr ()))"

definition check_category :: "string option \<Rightarrow> status + unit" where
  "check_category c =
     (case c of
        None \<Rightarrow> Inr ()
      | Some cat \<Rightarrow> if category_from_str cat = None then Inl (Status InvalidArgument ''Invalid category hint'') else Inr ())"

definition parse_operation :: "int \<Rightarrow> status + operation" where
  "parse_operation i =
     (case operation_type_try_from i of
        Some OAdd \<Rightarrow> Inr OpAdd | Some OSubtract \<Rightarrow> Inr OpSubtract | Some OSet \<Rightarrow> Inr OpSet | Some ODelete \<Rightarrow> Inr OpDelete
      | _ \<Rightarrow> Inl (Status InvalidArgument ''Unknown operation type''))"

definition normalize_intent :: "'d decimal_ops \<Rightarrow> mutation_intent \<Rightarrow> status + scrubbed_intent" where
  "normalize_intent D intent =
     (let key = to_lowercase (trim (mi_item_key intent));
          qty = Option.bind (mi_quantity intent) (\<lambda>q. non_empty (trim q));
          u = Option.bind (mi_unit intent) (\<lambda>s. map_option to_lowercase (non_empty (trim s)));
          cat = Option.bind (mi_category intent) (\<lambda>s. non_empty (trim s))
      in res_bind (check_quantity D qty)
           (\<lambda>_. res_bind (check_category cat)
           (\<lambda>_. if key = [] then Inl (Status InvalidArgument ''item_key cannot be empty'')
                else res_bind (parse_operation (mi_operation intent))
           (\<lambda>opn. if opn = OpDelete \<and> qty \<noteq> None
                  then Inl (Status InvalidArgument ''DELETE operations must not contain a quantity string'')
                  else if opn \<noteq> OpDelete \<and> qty = None
                  then Inl (Status InvalidArgument ''quantity is required for this operation'')
                  else Inr \<lparr>si_item_key = key, si_operation = opn, si_quantity = qty, si_unit = u, si_category = cat\<rparr>))))"

definition format_raw_input_from_proto :: "mutation_intent \<Rightarrow> string" where
  "format_raw_input_from_proto intent =
     (let opn = (case operation_type_try_from (mi_operation intent) of
                   Some OAdd \<Rightarrow> ''Add'' | Some OSubtract \<Rightarrow> ''Sub'' | Some OSet \<Rightarrow> ''Set'' | Some ODelete \<Rightarrow> ''Delete''
                 | _ \<Rightarrow> ''Unknown'');
          text_of = (\<lambda>x. case x of None \<Rightarrow> [] | Some s \<Rightarrow> s)
      in join '' '' (split_whitespace
           (opn @ '' '' @ text_of (mi_quantity intent) @ '' '' @ text_of (mi_unit intent) @ '' '' @ mi_item_key intent)))"

section \<open>Sequencer\<close>

definition rejection :: "u64 \<Rightarrow> string \<Rightarrow> propose_mutation_response" where
  "rejection version msg =
     \<lparr>pr_status = mutation_status_int MRejected, pr_state_version = version, pr_leader_hint = [], pr_error_message = msg\<rparr>"

text \<open>
  The sum \<open>last + 1\<close> is not checked in the source; it is evaluated only for a sequence id above \<open>last\<close>, so it
  cannot exceed 64 bits.
\<close>

definition enforce_sequence_firewall ::
  "(string \<Rightarrow> sequence_id \<Rightarrow> fsm_error + session_record option) \<Rightarrow> string \<Rightarrow> sequence_id \<Rightarrow>
     status + propose_mutation_response option" where
  "enforce_sequence_firewall provider client sq =
     (if sq = 0 then Inr (Some (rejection 0 ''Secure Clinical: Protocol Violation (Sequence ID 0)''))
      else case provider client 0 of
        Inl _ \<Rightarrow> Inl (Status InvalidArgument ''Request validation failed'')
      | Inr (Some r) \<Rightarrow>
          (if sq = sr_last_sequence_id r then
             Inr (Some \<lparr>pr_status = sr_status r, pr_state_version = sr_log_index r, pr_leader_hint = [],
                        pr_error_message = (if sr_status r = mutation_status_int MVetoed then sr_moral_justification r else [])\<rparr>)
           else if sq < sr_last_sequence_id r then
             Inr (Some (rejection (sr_log_index r) ''Secure Clinical: Stale Sequence''))
           else if sq > sr_last_sequence_id r + 1 then
             Inr (Some (rejection 0 ''Secure Clinical: Sequence Continuity Violation''))
           else Inr None)
      | Inr None \<Rightarrow>
          (if sq \<noteq> 1 then Inr (Some (rejection 0 ''Secure Clinical: Session Initialization Violation''))
           else Inr None))"

section \<open>Stabilizer\<close>

definition verify_category_registry :: "string \<Rightarrow> status + grocery_category" where
  "verify_category_registry s = ok_or (category_from_str s) (Status Internal ''Request rejected'')"

definition verify_unit_stabilization ::
  "'d decimal_ops \<Rightarrow> string \<Rightarrow> string \<Rightarrow> string \<Rightarrow> status + 'd physical_quantity" where
  "verify_unit_stabilization D qty symbol ai_multiplier =
     res_bind (map_err (\<lambda>_. Status InvalidArgument ''Request rejected'') (resolve_symbol D symbol))
       (\<lambda>e. res_bind (ok_or (d_from_str D ai_multiplier) (Status Internal ''Request rejected''))
       (\<lambda>ai_val. res_bind (map_err (\<lambda>_. Status InvalidArgument ''Request rejected'')
                    (if ue_is_contextual e then parse_and_convert_with_multiplier D qty symbol ai_val
                     else parse_and_convert D qty symbol))
       (\<lambda>q. if d_is_sign_negative D (pq_value q) \<or> d_is_zero D (pq_value q)
            then Inl (Status InvalidArgument
                   ''Physical Invariant Violation: Stabilized quantity must be strictly positive.'')
            else Inr q)))"

definition find_item :: "string \<Rightarrow> grocery_item list \<Rightarrow> grocery_item option" where
  "find_item key stock = find (\<lambda>i. item_key i = key) stock"

definition enforce_physical_invariants ::
  "'d decimal_ops \<Rightarrow> scrubbed_intent \<Rightarrow> string \<Rightarrow> 'd physical_quantity \<Rightarrow> grocery_item list \<Rightarrow> status + unit" where
  "enforce_physical_invariants D intent key new_quantity stock =
     (if si_operation intent = OpAdd \<or> si_operation intent = OpSubtract then
        (case find_item key stock of
           None \<Rightarrow> Inr ()
         | Some existing \<Rightarrow>
             (case resolve_symbol D (unit existing) of
                Inl _ \<Rightarrow> Inl (Status Internal ''Request rejected'')
              | Inr e \<Rightarrow> if ue_dimension e \<noteq> pq_dimension new_quantity
                         then Inl (Status InvalidArgument ''Request rejected'') else Inr ()))
      else Inr ())"

definition apply_arithmetic_accumulation ::
  "'d decimal_ops \<Rightarrow> scrubbed_intent \<Rightarrow> string \<Rightarrow> 'd physical_quantity \<Rightarrow> grocery_item list \<Rightarrow>
     status + 'd physical_quantity" where
  "apply_arithmetic_accumulation D intent key base_quantity stock =
     (if si_operation intent = OpSet \<or> si_operation intent = OpDelete then Inr base_quantity
      else case find_item key stock of
             None \<Rightarrow> Inr base_quantity
           | Some existing \<Rightarrow>
               res_bind (map_err (\<lambda>_. Status Internal ''Failed to parse existing quantity'')
                           (parse_and_convert D (quantity existing) (unit existing)))
                 (\<lambda>existing_qty. res_bind
                    (map_err (\<lambda>_. Status InvalidArgument ''Physical Invariant Violation: Arithmetic failed'')
                       (if si_operation intent = OpAdd then pq_add D existing_qty base_quantity
                        else pq_sub D existing_qty base_quantity))
                 (\<lambda>result. if d_is_sign_negative D (pq_value result)
                           then Inl (Status InvalidArgument
                                  ''Physical Invariant Violation: Resulting quantity would be negative.'')
                           else Inr result)))"

definition validate_and_stabilize ::
  "'d decimal_ops \<Rightarrow> scrubbed_intent \<Rightarrow> veto_outcome \<Rightarrow> grocery_item list \<Rightarrow> status + stabilized_mutation" where
  "validate_and_stabilize D intent veto stock =
     res_bind (verify_category_registry (vo_category_assignment veto))
       (\<lambda>cat.
          let mutation = (\<lambda>qty bu. \<lparr>st_resolved_item_key = vo_resolved_item_key veto,
                st_suggested_display_name = vo_suggested_display_name veto, st_updated_base_quantity = qty, st_base_unit = bu,
                st_display_unit = vo_resolved_unit veto, st_category = cat,
                st_moral_justification = vo_moral_justification veto\<rparr>)
          in if slugify (vo_resolved_item_key veto) \<noteq> vo_resolved_item_key veto
             then Inl (Status Internal ''Request rejected'')
             else if si_operation intent = OpDelete then Inr (mutation ''0'' ''units'')
             else res_bind (ok_or (si_quantity intent) (Status InvalidArgument ''quantity is missing''))
               (\<lambda>q. res_bind (verify_unit_stabilization D q (vo_resolved_unit veto) (vo_conversion_multiplier_to_base veto))
               (\<lambda>base. res_bind (enforce_physical_invariants D intent (vo_resolved_item_key veto) base stock)
               (\<lambda>_. res_bind (apply_arithmetic_accumulation D intent (vo_resolved_item_key veto) base stock)
               (\<lambda>acc. Inr (mutation (d_to_string D (pq_value acc)) (base_unit (pq_dimension acc))))))))"

section \<open>Oracle loop\<close>

fun intent_operation :: "operation \<Rightarrow> operation_type" where
  "intent_operation OpAdd = OAdd"
| "intent_operation OpSubtract = OSubtract"
| "intent_operation OpSet = OSet"
| "intent_operation OpDelete = ODelete"

definition intent_to_proto :: "scrubbed_intent \<Rightarrow> mutation_intent" where
  "intent_to_proto i =
     new_mutation_intent (si_item_key i) (si_quantity i) (si_unit i) (si_category i) (intent_operation (si_operation i))"

definition evaluate_policy :: "veto_error + veto_outcome \<Rightarrow> status + veto_outcome" where
  "evaluate_policy outcome =
     map_err (\<lambda>e. case e of
         VCausalIntegrityViolation \<Rightarrow> Status FailedPrecondition ''Causal Integrity Violation''
       | VTimeout \<Rightarrow> Status DeadlineExceeded ''AI evaluation timed out. Please retry shortly.''
       | VRpcFailure _ \<Rightarrow> Status Internal ''Internal policy engine failure'') outcome"

definition vetoed_mutation :: "veto_outcome \<Rightarrow> string \<Rightarrow> stabilized_mutation" where
  "vetoed_mutation veto justification =
     \<lparr>st_resolved_item_key = vo_resolved_item_key veto, st_suggested_display_name = vo_suggested_display_name veto,
      st_updated_base_quantity = ''0'', st_base_unit = ''units'', st_display_unit = ''units'', st_category = AnomalousInputs,
      st_moral_justification = justification\<rparr>"

definition UNIT_MISMATCH_JUSTIFICATION :: string where
  "UNIT_MISMATCH_JUSTIFICATION = ''A physical unit mismatch was detected between this request and the existing inventory record for this item. Please ensure the units are compatible with previous entries.''"

type_synonym policy_oracle = "nat \<Rightarrow> mutation_intent \<Rightarrow> grocery_item list \<Rightarrow> veto_error + veto_outcome"

text \<open>
  The retry loop with the number of attempts left: on the last attempt every branch leaves the loop, so the
  source's fallback for a loop without an outcome is not reached.
\<close>

fun resolve_attempts ::
  "'d decimal_ops \<Rightarrow> policy_oracle \<Rightarrow> scrubbed_intent \<Rightarrow> grocery_item list \<Rightarrow> nat \<Rightarrow> nat \<Rightarrow>
     status + mutation_status \<times> stabilized_mutation" where
  "resolve_attempts D relay intent stock attempt left =
     (case evaluate_policy (relay attempt (intent_to_proto intent) stock) of
        Inl e \<Rightarrow> (case left of 0 \<Rightarrow> Inl e | Suc fewer \<Rightarrow> resolve_attempts D relay intent stock (Suc attempt) fewer)
      | Inr veto \<Rightarrow>
          if \<not> vo_is_approved veto then Inr (MVetoed, vetoed_mutation veto (vo_moral_justification veto))
          else case validate_and_stabilize D intent veto stock of
                 Inr s \<Rightarrow> Inr (MCommitted, s)
               | Inl _ \<Rightarrow> (case left of
                             0 \<Rightarrow> Inr (MVetoed, vetoed_mutation veto UNIT_MISMATCH_JUSTIFICATION)
                           | Suc fewer \<Rightarrow> resolve_attempts D relay intent stock (Suc attempt) fewer))"

declare resolve_attempts.simps [simp del]

definition resolve_semantic_mutation ::
  "'d decimal_ops \<Rightarrow> policy_oracle \<Rightarrow> ingress_config \<Rightarrow> scrubbed_intent \<Rightarrow> grocery_item list \<Rightarrow>
     status + mutation_status \<times> stabilized_mutation" where
  "resolve_semantic_mutation D relay config intent stock =
     resolve_attempts D relay intent stock 0 (ic_veto_max_retries config)"

section \<open>Proposer\<close>

fun proto_status :: "proposal_status \<Rightarrow> mutation_status" where
  "proto_status PCommitted = MCommitted"
| "proto_status PVetoed = MVetoed"

definition map_consensus_error :: "consensus_error \<Rightarrow> consensus_authority \<Rightarrow> status" where
  "map_consensus_error err st =
     (case err of
        CNotLeader \<Rightarrow> Status Unavailable (''Not the leader. Hint: '' @ auth_leader_hint st @ '' ('' @ rejection_reason st @ '')'')
      | LeaderUnknown \<Rightarrow> Status Unavailable ''Leader unknown. Election in progress.''
      | CommitTimeout _ \<Rightarrow> Status DeadlineExceeded ''Request timed out''
      | CPoisoned \<Rightarrow> Status Aborted ''Node is in a fatal state and cannot process requests.''
      | CInternal _ \<Rightarrow> Status Internal ''Internal Consensus Failure''
      | Terminated \<Rightarrow> Status Unavailable ''Consensus engine is shutting down''
      | CTimeout \<Rightarrow> Status DeadlineExceeded ''Quorum verification timed out'')"

definition mutation_of_proposal :: "mutation_proposal \<Rightarrow> timestamp \<Rightarrow> committed_mutation" where
  "mutation_of_proposal p now =
     (let s = mp_stabilized p
      in new_committed_mutation (mp_client_id p) (mp_sequence_id p) (st_resolved_item_key s) (st_suggested_display_name s)
           (st_updated_base_quantity s) (st_base_unit s) (st_display_unit s) (category_to_string (st_category s))
           (mp_raw_user_input p) (st_moral_justification s) (si_operation (mp_intent p) = OpDelete)
           (proto_status (mp_status p)) now)"

definition commit_to_consensus ::
  "(committed_mutation \<Rightarrow> bytes) \<Rightarrow> timestamp \<Rightarrow> (log_index \<Rightarrow> (consensus_error + unit) option) \<Rightarrow> mutation_proposal \<Rightarrow>
     (status + log_index) handler" where
  "commit_to_consensus encode now wait p =
     st_bind (handle_propose (encode (mutation_of_proposal p now)))
       (\<lambda>r. st_return
          (res_bind (map_err (\<lambda>e. map_consensus_error e (mp_consensus_status p)) r)
             (\<lambda>idx. res_bind (ok_or (wait idx) (Status DeadlineExceeded ''Quorum commitment timed out''))
             (\<lambda>committed. res_bind (map_err (\<lambda>e. map_consensus_error e (mp_consensus_status p)) committed)
             (\<lambda>_. Inr idx)))))"

definition build_mutation_response :: "log_index \<Rightarrow> proposal_status \<Rightarrow> string \<Rightarrow> propose_mutation_response" where
  "build_mutation_response idx st justification =
     \<lparr>pr_status = mutation_status_int (proto_status st), pr_state_version = idx, pr_leader_hint = [],
      pr_error_message = (if st = PVetoed then justification else [])\<rparr>"

section \<open>Dispatcher\<close>

record mutation_obs =
  mo_authority :: consensus_authority
  mo_session_fsm :: fsm_store
  mo_inventory_fsm :: fsm_store
  mo_relay :: policy_oracle
  mo_fresh :: consensus_authority
  mo_now :: timestamp
  mo_progress :: consensus_progress
  mo_changes :: "consensus_progress list"
  mo_closed :: bool

record query_obs =
  qo_authority :: consensus_authority
  qo_verified :: "consensus_error + unit"
  qo_progress :: consensus_progress
  qo_changes :: "consensus_progress list"
  qo_closed :: bool
  qo_items_fsm :: fsm_store
  qo_version_fsm :: fsm_store

definition poisoned_node_error :: status where
  "poisoned_node_error = Status Internal ''Secure Clinical: Node is poisoned and cannot process requests''"

definition mutation_redirection_response :: "consensus_authority \<Rightarrow> propose_mutation_response" where
  "mutation_redirection_response st =
     \<lparr>pr_status = mutation_status_int MRejected, pr_state_version = 0, pr_leader_hint = auth_leader_hint st,
      pr_error_message = rejection_reason st\<rparr>"

definition query_redirection_response :: "consensus_authority \<Rightarrow> query_state_response" where
  "query_redirection_response st =
     \<lparr>qr_items = [], qr_current_state_version = 0, qr_status = query_status_int QRejected,
      qr_leader_hint = auth_leader_hint st, qr_error_message = rejection_reason st\<rparr>"

definition authorize :: "(consensus_authority \<Rightarrow> 'r) \<Rightarrow> consensus_authority \<Rightarrow> 'r authority_outcome" where
  "authorize redirection st =
     (if auth_poisoned st then Fatal poisoned_node_error
      else if \<not> is_leader st then Redirect (redirection st)
      else Authorized st)"

definition authorize_mutation :: "consensus_authority \<Rightarrow> propose_mutation_response authority_outcome" where
  "authorize_mutation = authorize mutation_redirection_response"

definition authorize_query :: "consensus_authority \<Rightarrow> query_state_response authority_outcome" where
  "authorize_query = authorize query_redirection_response"

definition resolve_status :: "mutation_status \<times> stabilized_mutation \<Rightarrow> status + proposal_status \<times> stabilized_mutation" where
  "resolve_status = (\<lambda>(st, s).
     case st of MCommitted \<Rightarrow> Inr (PCommitted, s) | MVetoed \<Rightarrow> Inr (PVetoed, s) | _ \<Rightarrow> Inl (Status Internal ''Request rejected''))"

text \<open>Steps 4 to 6 of the pipeline, under the mutation lock: everything up to the proposal.\<close>

definition prepare_proposal ::
  "'d decimal_ops \<Rightarrow> ingress_config \<Rightarrow> mutation_obs \<Rightarrow> string \<Rightarrow> propose_mutation_request \<Rightarrow> consensus_authority \<Rightarrow>
     status + mutation_proposal" where
  "prepare_proposal D config ob client req st =
     res_bind (ok_or (pm_intent req) (Status InvalidArgument ''ProposeMutationRequest is missing 'intent' field''))
       (\<lambda>proto. res_bind (normalize_intent D proto)
       (\<lambda>intent. res_bind (map_err (\<lambda>_. Status Internal ''Request rejected'') (get_inventory (mo_inventory_fsm ob)))
       (\<lambda>stock. res_bind (res_bind (resolve_semantic_mutation D (mo_relay ob) config intent stock) resolve_status)
       (\<lambda>(final_status, stabilized).
          Inr \<lparr>mp_client_id = client, mp_sequence_id = pm_sequence_id req, mp_intent = intent, mp_stabilized = stabilized,
               mp_raw_user_input = format_raw_input_from_proto proto, mp_status = final_status,
               mp_consensus_status = st\<rparr>))))"

definition sequenced_mutation ::
  "'d decimal_ops \<Rightarrow> ingress_config \<Rightarrow> (committed_mutation \<Rightarrow> bytes) \<Rightarrow> mutation_obs \<Rightarrow> string \<Rightarrow>
     propose_mutation_request \<Rightarrow> consensus_authority \<Rightarrow> (status + propose_mutation_response) handler" where
  "sequenced_mutation D config encode ob client req st =
     (case prepare_proposal D config ob client req st of
        Inl e \<Rightarrow> st_return (Inl e)
      | Inr p \<Rightarrow>
          if \<not> is_leader (mo_fresh ob) then st_return (Inr (mutation_redirection_response (mo_fresh ob)))
          else st_bind (commit_to_consensus encode (mo_now ob)
                          (\<lambda>i. await_commit i (mo_closed ob) (mo_progress ob) (mo_changes ob)) p)
            (\<lambda>r. st_return (map_ok (\<lambda>idx. build_mutation_response idx (mp_status p)
                                            (st_moral_justification (mp_stabilized p))) r)))"

definition handle_propose_mutation ::
  "'d decimal_ops \<Rightarrow> ingress_config \<Rightarrow> fsm_codec \<Rightarrow> (committed_mutation \<Rightarrow> bytes) \<Rightarrow> mutation_obs \<Rightarrow>
     propose_mutation_request \<Rightarrow> (status + propose_mutation_response) handler" where
  "handle_propose_mutation D config c encode ob req =
     (case parse_uuid c (pm_client_id req) of
        None \<Rightarrow> st_return (Inl (Status InvalidArgument ''Invalid client_id''))
      | Some client \<Rightarrow>
          (case authorize_mutation (mo_authority ob) of
             Redirect r \<Rightarrow> st_return (Inr r)
           | Fatal e \<Rightarrow> st_return (Inl e)
           | Authorized st \<Rightarrow>
               (case enforce_sequence_firewall (\<lambda>k q. check_session k q (mo_session_fsm ob)) client (pm_sequence_id req) of
                  Inl e \<Rightarrow> st_return (Inl e)
                | Inr (Some cached) \<Rightarrow> st_return (Inr cached)
                | Inr None \<Rightarrow> sequenced_mutation D config encode ob client req st)))"

definition display_item :: "'d decimal_ops \<Rightarrow> grocery_item \<Rightarrow> grocery_item" where
  "display_item D item =
     (if display_unit item \<noteq> [] \<and> display_unit item \<noteq> unit item then
        (case convert_to_display_value D (quantity item) (display_unit item) of
           Some q \<Rightarrow> item\<lparr>quantity := q, unit := display_unit item\<rparr>
         | None \<Rightarrow> item)
      else item)"

definition consistency_fence :: "query_obs \<Rightarrow> consensus_authority \<Rightarrow> u64 option \<Rightarrow> status + unit" where
  "consistency_fence ob st min_version =
     (case min_version of
        None \<Rightarrow> Inr ()
      | Some version \<Rightarrow>
          if version > auth_last_committed st
          then Inl (Status FailedPrecondition ''Requested version exceeds consistent horizon'')
          else (case await_apply version (qo_closed ob) (qo_progress ob) (qo_changes ob) of
                  None \<Rightarrow> Inl (Status DeadlineExceeded ''Consistency fence timed out'')
                | Some r \<Rightarrow> map_err (\<lambda>e. map_consensus_error e st) r))"

definition read_ledger :: "'d decimal_ops \<Rightarrow> query_obs \<Rightarrow> string option \<Rightarrow> status + query_state_response" where
  "read_ledger D ob query_filter =
     res_bind (map_err (\<lambda>_. Status Internal ''Request rejected'') (get_inventory (qo_items_fsm ob)))
       (\<lambda>items. res_bind (map_err (\<lambda>_. Status Internal ''Failed to read state version'') (current_version (qo_version_fsm ob)))
       (\<lambda>version. Inr \<lparr>qr_items = (case query_filter of
             None \<Rightarrow> map (display_item D) items
           | Some f \<Rightarrow> filter (\<lambda>item. contains (to_lowercase f) (to_lowercase (item_key item))) (map (display_item D) items)),
            qr_current_state_version = version, qr_status = query_status_int QSuccess, qr_leader_hint = [],
            qr_error_message = []\<rparr>))"

definition handle_query_state ::
  "'d decimal_ops \<Rightarrow> query_obs \<Rightarrow> query_state_request \<Rightarrow> status + query_state_response" where
  "handle_query_state D ob req =
     (case authorize_query (qo_authority ob) of
        Redirect r \<Rightarrow> Inr r
      | Fatal e \<Rightarrow> Inl e
      | Authorized st \<Rightarrow>
          (case qo_verified ob of
             Inl CNotLeader \<Rightarrow> Inr (query_redirection_response st)
           | Inl _ \<Rightarrow> Inl (Status Internal ''Query failed'')
           | Inr _ \<Rightarrow>
               res_bind (consistency_fence ob st (qs_min_state_version req)) (\<lambda>_. read_ledger D ob (qs_query_filter req))))"

end
