(* ===== verification/Node_Boot.thy ===== *)
theory Node_Boot
  imports Orchestration Rpc_Guard Storage_Properties Gateway Raft_Safety
begin

text \<open>
  The start of a node, \<open>crates/node-server/src/main.rs\<close>, with the construction of the log storage, the peer table and the shell it
  calls: configuration, databases, identity, state machine, recovery, logical node, dispatchers, in the order of the
  code. An \<open>Err\<close> that leaves \<open>main\<close> is \<open>BootExit\<close>, a panic \<open>BootAbort\<close>. Opening a database or a tree can fail; the seed
  expansion of the random generator and the check of an URI are parameters. The servers, the tick loop and the
  applier that are spawned afterwards are the sections and tasks of the other theories.
\<close>

section \<open>Steps of main\<close>

datatype boot_stop = BootExit string | BootAbort string

datatype open_site = OpenSystemDb | OpenLogDb | OpenFsmDb | OpenLogTree | OpenMetaTree | OpenInventory | OpenSessions | OpenFsmMeta

record boot_env =
  open_fails :: "open_site \<Rightarrow> bool"
  uri_ok :: "string \<Rightarrow> bool"
  rng_from_seed :: "bytes \<Rightarrow> rng_state"
  os_entropy :: bytes

record node_disks =
  nd_system :: identity_db
  nd_log :: log_store
  nd_fsm :: fsm_store

record node_server =
  ns_identity :: node_identity
  ns_node :: logical_node
  ns_progress :: consensus_progress
  ns_peers :: "(node_id \<times> string) list"
  ns_veto :: string
  ns_ingress :: ingress_config

definition init_persistence :: "boot_env \<Rightarrow> boot_stop + unit" where
  "init_persistence env =
     (if open_fails env OpenSystemDb then Inl (BootExit ''Failed to open system database'')
      else if open_fails env OpenLogDb then Inl (BootExit ''Failed to open log database'')
      else if open_fails env OpenFsmDb then Inl (BootExit ''Failed to open FSM database'')
      else Inr ())"

definition config_identity :: "node_config \<Rightarrow> node_identity" where
  "config_identity cfg = \<lparr>cluster_id = cfg_cluster_id cfg, node_id = cfg_node_id cfg\<rparr>"

definition init_identity :: "node_config \<Rightarrow> (identity_db, bootstrap_error, node_identity) proc" where
  "init_identity cfg = initialize_node_identity (config_identity cfg)"

definition sled_storage_new :: "boot_env \<Rightarrow> log_storage_error + unit" where
  "sled_storage_new env =
     (if open_fails env OpenLogTree then Inl (LPersistence ''Failed to open log tree'')
      else if open_fails env OpenMetaTree then Inl (LPersistence ''Failed to open meta tree'')
      else Inr ())"

definition lacto_store_open :: "boot_env \<Rightarrow> unit fsm_proc" where
  "lacto_store_open env =
     (if open_fails env OpenInventory then st_fail (FPersistence ''Failed to open inventory tree'')
      else if open_fails env OpenSessions then st_fail (FPersistence ''Failed to open sessions tree'')
      else if open_fails env OpenFsmMeta then st_fail (FPersistence ''Failed to open meta tree'')
      else lacto_store_new)"

definition generate_deterministic_seed :: "node_id \<Rightarrow> bytes \<Rightarrow> bytes" where
  "generate_deterministic_seed n entropy = to_be_bytes n @ take 24 entropy"

definition create_deterministic_rng :: "boot_env \<Rightarrow> node_id \<Rightarrow> rng_state" where
  "create_deterministic_rng env n = rng_from_seed env (generate_deterministic_seed n (os_entropy env))"

text \<open>\<open>ConsensusShell::new\<close> publishes the node's first progress.\<close>

definition consensus_shell_new :: "logical_node \<Rightarrow> log_store \<Rightarrow> boot_stop + logical_node \<times> consensus_progress" where
  "consensus_shell_new ln d =
     (case ln_consensus_progress (ln, d) of
        (Inr p, ln', _) \<Rightarrow> Inr (ln', p)
      | (Inl _, _) \<Rightarrow> Inl (BootAbort ''consensus_progress''))"

fun boot_of_recovery :: "boot_halt \<Rightarrow> boot_stop" where
  "boot_of_recovery (BootPanic m) = BootAbort m"
| "boot_of_recovery (BootError e) = BootExit ''Cold-boot recovery failed''"

definition init_node_state ::
  "boot_env \<Rightarrow> fsm_codec \<Rightarrow> node_identity \<Rightarrow> node_config \<Rightarrow> log_store \<Rightarrow> (fsm_store, boot_stop, logical_node \<times> consensus_progress) proc" where
  "init_node_state env c ident cfg d =
     st_bind (\<lambda>f. case lacto_store_open env f of (r, f') \<Rightarrow> (map_err (\<lambda>_. BootExit ''Failed to initialize LactoStore'') r, f'))
       (\<lambda>_. st_bind (st_read (\<lambda>_. map_err (\<lambda>_. BootExit ''Failed to initialize SledStorage'') (sled_storage_new env)))
       (\<lambda>_. st_bind (\<lambda>f. case recover last_applied_index (fsm_apply c) d f of (r, f') \<Rightarrow> (map_err boot_of_recovery r, f'))
       (\<lambda>_. st_bind (st_read (\<lambda>_. ok_or (calculate_thresholds (cfg_raft cfg)) (BootAbort ''attempt to divide by zero'')))
       (\<lambda>th. st_bind (st_read (\<lambda>f. map_err (\<lambda>_. BootExit ''Failed to initialize LogicalNode'')
               (logical_node_try_new ident (map_err node_error_of_fsm (last_applied_index f)) th (create_deterministic_rng env (node_id ident)) d)))
       (\<lambda>ln. st_read (\<lambda>_. consensus_shell_new ln d))))))"

fun peer_manager_try_new :: "(string \<Rightarrow> bool) \<Rightarrow> (node_id \<times> string) list \<Rightarrow> (node_id \<times> string) + (node_id \<times> string) list" where
  "peer_manager_try_new ok [] = Inr []"
| "peer_manager_try_new ok ((i, uri) # ps) =
     (if ok uri then map_ok ((#) (i, uri)) (peer_manager_try_new ok ps) else Inl (i, uri))"

definition init_dispatchers :: "boot_env \<Rightarrow> node_config \<Rightarrow> boot_stop + (node_id \<times> string) list \<times> string \<times> ingress_config" where
  "init_dispatchers env cfg =
     res_bind (map_err (\<lambda>_. BootExit ''Fatal Error during Peer Manager initialization'') (peer_manager_try_new (uri_ok env) (cfg_peers cfg)))
       (\<lambda>peers. res_bind (map_err (\<lambda>_. BootExit ''Failed to parse AI Veto address'') (veto_endpoint (uri_ok env) (cfg_policy cfg)))
       (\<lambda>veto. Inr (peers, veto, \<lparr>ic_veto_max_retries = veto_max_retries (cfg_policy cfg),
                                  ic_max_justification_len = max_justification_len (cfg_policy cfg)\<rparr>)))"

definition boot :: "boot_env \<Rightarrow> fsm_codec \<Rightarrow> config_error + node_config \<Rightarrow> (node_disks, boot_stop, node_server) proc" where
  "boot env c loaded =
     st_bind (st_read (\<lambda>_. map_err (\<lambda>_. BootExit ''Failed to load configuration'') loaded))
       (\<lambda>cfg. st_bind (st_read (\<lambda>_. init_persistence env))
       (\<lambda>_. st_bind (\<lambda>ds. case init_identity cfg (nd_system ds) of (r, db) \<Rightarrow>
              (map_err (\<lambda>_. BootAbort ''Bootstrap Halt Mandate (ADR 004)'') r, ds\<lparr>nd_system := db\<rparr>))
       (\<lambda>ident. st_bind (\<lambda>ds. case init_node_state env c ident cfg (nd_log ds) (nd_fsm ds) of (r, f) \<Rightarrow> (r, ds\<lparr>nd_fsm := f\<rparr>))
       (\<lambda>(ln, p). st_bind (st_read (\<lambda>_. init_dispatchers env cfg))
       (\<lambda>(peers, veto, ingress). st_return \<lparr>ns_identity = ident, ns_node = ln, ns_progress = p, ns_peers = peers, ns_veto = veto,
            ns_ingress = ingress\<rparr>)))))"

section \<open>Parts of a boot\<close>

lemma validated_peers: "validate_peers ok ps = Inr () \<Longrightarrow> peer_manager_try_new ok ps = Inr ps"
  by (induction ok ps rule: validate_peers.induct) (auto split: if_splits)

lemma validated_dispatchers:
  assumes "validate_config (uri_ok env) cfg = Inr ()"
  shows "init_dispatchers env cfg = Inr (cfg_peers cfg, veto_addr (cfg_policy cfg),
    \<lparr>ic_veto_max_retries = veto_max_retries (cfg_policy cfg), ic_max_justification_len = max_justification_len (cfg_policy cfg)\<rparr>)"
proof -
  have "validate_peers (uri_ok env) (cfg_peers cfg) = Inr ()" "veto_endpoint (uri_ok env) (cfg_policy cfg) = Inr (veto_addr (cfg_policy cfg))"
    using assms by (auto simp: validate_config_def validate_policy_config_def veto_endpoint_def res_bind_Inr_iff split: if_splits)
  then show ?thesis by (simp add: init_dispatchers_def validated_peers)
qed

lemma validated_thresholds:
  "validate_config ok cfg = Inr () \<Longrightarrow> \<exists>th. calculate_thresholds (cfg_raft cfg) = Some th"
  by (auto simp: validate_config_def validate_raft_config_def calculate_thresholds_def res_bind_Inr_iff split: if_splits)

definition opens :: "boot_env \<Rightarrow> node_config \<Rightarrow> node_disks \<Rightarrow> bool" where
  "opens env cfg ds \<longleftrightarrow> (\<forall>x. \<not> open_fails env x) \<and> (\<forall>op. \<not> id_fails (nd_system ds) op) \<and> stored_identity (nd_system ds) = Some (config_identity cfg)"

lemma identity_kept: "opens env cfg ds \<Longrightarrow> init_identity cfg (nd_system ds) = (Inr (config_identity cfg), nd_system ds)"
  by (simp add: opens_def init_identity_def initialize_node_identity_def)

lemma boot_opened:
  assumes "opens env cfg ds"
  shows "boot env c (Inr cfg) ds =
    (case init_node_state env c (config_identity cfg) cfg (nd_log ds) (nd_fsm ds) of
       (Inl e, f) \<Rightarrow> (Inl e, ds\<lparr>nd_fsm := f\<rparr>)
     | (Inr (ln, p), f) \<Rightarrow>
         (map_sum (\<lambda>e. e) (\<lambda>(peers, veto, ingress). \<lparr>ns_identity = config_identity cfg, ns_node = ln, ns_progress = p, ns_peers = peers,
            ns_veto = veto, ns_ingress = ingress\<rparr>) (init_dispatchers env cfg), ds\<lparr>nd_fsm := f\<rparr>))"
  using assms
  by (auto simp: boot_def init_persistence_def opens_def identity_kept st_bind_def split: sum.splits prod.splits)

lemma store_opens:
  assumes "\<And>x. \<not> open_fails env x" "fsm_healthy f"
  shows "lacto_store_open env f = (Inr (), if fm_restoring f
      then f\<lparr>fsm_poisoned := False, inventory := [], sessions := [], fm_last_applied := None, fm_effective_time := None, fm_restoring := False\<rparr>
      else f\<lparr>fsm_poisoned := False\<rparr>)"
  using assms by (simp add: lacto_store_open_def lacto_store_new_def is_restoration_stale_def purge_all_data_def st_bind_def)

lemma fresh_node:
  assumes "healthy d" "a \<le> disk_committed d"
  shows "\<exists>ln n. logical_node_try_new ident (Inr a) th rn d = Inr ln \<and> role ln = Follower n
    \<and> last_committed n = disk_committed d \<and> last_applied n = a"
  using assms by (simp add: logical_node_try_new_def try_new_with_applied_def node_read_def split: prod.splits)

lemma shell_publishes:
  assumes "healthy d" "hard_state_ok d" "role ln = Follower n"
  shows "\<exists>p. consensus_shell_new ln d = Inr (ln, p) \<and> p_role p = RFollower
    \<and> p_last_committed p = last_committed n \<and> p_last_applied p = last_applied n \<and> p_term p = disk_term d \<and> p_last_log_index p = disk_last d"
  using assms by (simp add: consensus_shell_new_def ln_consensus_progress_def or_fatal_def try_consensus_progress_def role_progress_def node_read_def)

lemma recovery_applies:
  assumes "healthy d" "log_ok d" "is_u64 (disk_last d)" "disk_committed d \<le> disk_last d"
    and "fsm_ready f" "disk_snap d \<le> v_applied (fsm_abs f)" "v_applied (fsm_abs f) \<le> disk_committed d"
    and "apply_all (fsm_apply c) (committed_entries d (v_applied (fsm_abs f)) (disk_committed d)) f = (Inr (), f')"
  shows "recover last_applied_index (fsm_apply c) d f = (Inr (), f')"
    and "last_applied_index f' = Inr (disk_committed d)"
proof -
  have f: "last_applied_index f = Inr (v_applied (fsm_abs f))"
    using assms(5) by (intro fsm_reads_healthy(1)) (simp_all add: fsm_ready_def)
  have held: "held_until d (v_applied (fsm_abs f)) (disk_committed d) = disk_committed d"
    by (rule held_until_log_ok[OF assms(2,6,7,4)])
  show "recover last_applied_index (fsm_apply c) d f = (Inr (), f')"
    using recover_healthy[of d last_applied_index f, OF assms(1) is_u64_le[OF assms(3,4)] f, of "fsm_apply c" "Inr ()" f']
      assms(7,8) held by simp
  from lacto.apply_all_advances[OF assms(5,8)] have "fsm_ready f'" "v_applied (fsm_abs f') = disk_committed d"
    using assms(7) by (simp_all add: committed_entries_def)
  then show "last_applied_index f' = Inr (disk_committed d)" by (simp add: fsm_ready_def fsm_reads_healthy(1))
qed

lemma state_recovers:
  assumes "\<And>y. \<not> open_fails env y" "validate_config ok cfg = Inr ()"
    and "healthy d" "hard_state_ok d" "log_ok d" "is_u64 (disk_last d)" "disk_committed d \<le> disk_last d"
    and "fsm_ready f" "\<not> fm_restoring f" "disk_snap d \<le> v_applied (fsm_abs f)" "v_applied (fsm_abs f) \<le> disk_committed d"
    and "apply_all (fsm_apply c) (committed_entries d (v_applied (fsm_abs f)) (disk_committed d)) f = (Inr (), f')"
  shows "\<exists>ln n p. init_node_state env c ident cfg d f = (Inr (ln, p), f')
    \<and> role ln = Follower n \<and> last_committed n = disk_committed d \<and> last_applied n = disk_committed d
    \<and> p_role p = RFollower \<and> p_term p = disk_term d \<and> p_last_committed p = disk_committed d \<and> p_last_applied p = disk_committed d"
proof -
  have "f\<lparr>fsm_poisoned := False\<rparr> = f" using assms(8) by (simp add: fsm_ready_def)
  then have s: "lacto_store_open env f = (Inr (), f)"
    using store_opens[OF assms(1), of f] assms(8,9) by (simp add: fsm_ready_def)
  note r = recovery_applies[OF assms(3,5-8,10-12)]
  obtain th where th: "calculate_thresholds (cfg_raft cfg) = Some th" using validated_thresholds[OF assms(2)] by blast
  obtain ln n where l: "logical_node_try_new ident (Inr (disk_committed d)) th (create_deterministic_rng env (node_id ident)) d = Inr ln"
      "role ln = Follower n" "last_committed n = disk_committed d" "last_applied n = disk_committed d"
    using fresh_node[OF assms(3) order_refl] by blast
  obtain p where p: "consensus_shell_new ln d = Inr (ln, p)" "p_role p = RFollower" "p_last_committed p = last_committed n"
      "p_last_applied p = last_applied n" "p_term p = disk_term d"
    using shell_publishes[OF assms(3,4) l(2)] by blast
  have "init_node_state env c ident cfg d f = (Inr (ln, p), f')"
    using s r th l(1) p(1) assms(1) by (simp add: init_node_state_def sled_storage_new_def)
  with l p show ?thesis by auto
qed

section \<open>What a boot does\<close>

text \<open>
  C29 A node comes back where its log left it. With databases that open, the identity it was started with, a configuration that
  validation accepts and a log that still holds what its state machine misses, the boot applies the
  committed entries the state machine has not seen, leaves the log alone, and ends with a follower whose commit and
  applied index are the persisted commit index, which is also what the first published progress says.
\<close>
theorem boot_recovers:
  assumes "opens env cfg ds" "validate_config (uri_ok env) cfg = Inr ()"
    and "healthy (nd_log ds)" "hard_state_ok (nd_log ds)" "log_ok (nd_log ds)" "is_u64 (disk_last (nd_log ds))"
    and "disk_committed (nd_log ds) \<le> disk_last (nd_log ds)"
    and "fsm_ready (nd_fsm ds)" "\<not> fm_restoring (nd_fsm ds)"
    and "disk_snap (nd_log ds) \<le> v_applied (fsm_abs (nd_fsm ds))" "v_applied (fsm_abs (nd_fsm ds)) \<le> disk_committed (nd_log ds)"
    and "apply_all (fsm_apply c) (committed_entries (nd_log ds) (v_applied (fsm_abs (nd_fsm ds))) (disk_committed (nd_log ds))) (nd_fsm ds)
      = (Inr (), f')"
  shows "\<exists>srv n. boot env c (Inr cfg) ds = (Inr srv, ds\<lparr>nd_fsm := f'\<rparr>)
    \<and> ns_identity srv = config_identity cfg \<and> ns_peers srv = cfg_peers cfg
    \<and> role (ns_node srv) = Follower n \<and> last_committed n = disk_committed (nd_log ds) \<and> last_applied n = disk_committed (nd_log ds)
    \<and> p_role (ns_progress srv) = RFollower \<and> p_term (ns_progress srv) = disk_term (nd_log ds)
    \<and> p_last_committed (ns_progress srv) = disk_committed (nd_log ds) \<and> p_last_applied (ns_progress srv) = disk_committed (nd_log ds)"
proof -
  have "\<And>y. \<not> open_fails env y" using assms(1) by (simp add: opens_def)
  from state_recovers[OF this assms(2-12), of "config_identity cfg"] boot_opened[OF assms(1), of c] validated_dispatchers[OF assms(2)]
  show ?thesis by fastforce
qed

definition sample_env :: boot_env where
  "sample_env = \<lparr>open_fails = \<lambda>_. False, uri_ok = \<lambda>_. True, rng_from_seed = \<lambda>_ _ a _. a, os_entropy = []\<rparr>"

definition sample_boot_config :: "string \<Rightarrow> node_config" where
  "sample_boot_config cluster = \<lparr>cfg_cluster_id = cluster, cfg_node_id = 1, cfg_peers = [(2, ''http://two''), (3, ''http://three'')],
     cfg_raft = default_raft_config,
     cfg_policy = \<lparr>veto_addr = ''http://veto'', veto_timeout_ms = 500, veto_max_retries = 2, max_justification_len = 100\<rparr>\<rparr>"

definition sample_disks :: "string \<Rightarrow> log_store \<Rightarrow> fsm_store \<Rightarrow> node_disks" where
  "sample_disks cluster d f = \<lparr>nd_system = \<lparr>stored_identity = Some \<lparr>cluster_id = cluster, node_id = 1\<rparr>, id_fails = \<lambda>_. False\<rparr>,
     nd_log = d, nd_fsm = f\<rparr>"

lemma sample_opens [simp]: "opens sample_env (sample_boot_config cluster) (sample_disks cluster d f)"
  by (simp add: opens_def sample_env_def sample_boot_config_def sample_disks_def config_identity_def)

lemma sample_config_ok [simp]: "validate_config (uri_ok sample_env) (sample_boot_config cluster) = Inr ()"
  by (simp add: validate_config_def sample_boot_config_def sample_env_def validate_raft_config_def default_raft_config_def
      validate_policy_config_def veto_endpoint_def)

lemma sample_disks_simps [simp]: "nd_log (sample_disks cluster d f) = d" "nd_fsm (sample_disks cluster d f) = f"
  by (simp_all add: sample_disks_def)

lemma sample_log_committed:
  fixes j :: log_index
  defines "d \<equiv> (sample_store 1)\<lparr>meta_last_committed := Some j\<rparr>"
  shows "healthy d" "hard_state_ok d" "log_ok d" "disk_last d = 2" "disk_committed d = j" "disk_snap d = 0" "disk_entry d = disk_entry (sample_store 1)"
  using sample_store_views[of 1] sample_log_ok[of 1] unfolding d_def
  by (simp_all add: is_u64_def u64_bound_def healthy_def hard_state_ok_def log_ok_def disk_last_def disk_physical_def disk_snap_def disk_committed_def disk_entry_def fun_eq_iff)


theorem boot_recovers_witness:
  "\<exists>f' srv n. boot sample_env sample_codec (Inr (sample_boot_config ''c''))
      (sample_disks ''c'' ((sample_store 1)\<lparr>meta_last_committed := Some 2\<rparr>) empty_fsm)
      = (Inr srv, (sample_disks ''c'' ((sample_store 1)\<lparr>meta_last_committed := Some 2\<rparr>) empty_fsm)\<lparr>nd_fsm := f'\<rparr>)
    \<and> v_applied (fsm_abs f') = 2 \<and> role (ns_node srv) = Follower n \<and> last_applied n = 2"
proof -
  let ?d = "(sample_store 1)\<lparr>meta_last_committed := Some 2\<rparr>"
  note d = sample_log_committed[of 2]
  obtain f where f: "apply_all (fsm_apply sample_codec) (committed_entries (sample_store 1) 0 2) empty_fsm = (Inr (), f)" "v_applied (fsm_abs f) = 2"
    using sample_two_entries by blast
  have e: "v_applied (fsm_abs empty_fsm) = 0" "\<not> fm_restoring empty_fsm" by (simp_all add: fsm_abs_def empty_fsm_def)
  have "committed_entries ?d 0 2 = committed_entries (sample_store 1) 0 2" by (simp add: committed_entries_def d(7))
  with boot_recovers[of sample_env "sample_boot_config ''c''" "sample_disks ''c'' ?d empty_fsm" sample_codec f] d e f empty_fsm_ready
  show ?thesis by (fastforce simp: is_u64_def u64_bound_def)
qed

text \<open>
  A start is the restart step of the cluster model: whatever fails while it runs, a boot that succeeds leaves the log
  as it was and its node is one the recovered log and some applied index give, so the theorems on
  reachable clusters hold across it.
\<close>
theorem boot_is_restart:
  assumes "boot env c (Inr cfg) ds = (Inr srv, ds')" "config_identity cfg = ids i" "i \<in> set ms"
    and "repl_reachable ms ids s" "nd_log ds = disks (core s) i"
  shows "nd_log ds' = disks (core s) i \<and> repl_reachable ms ids (put_node i (ns_node srv, nd_log ds') s)"
proof -
  have ident: "r = ids i" if "init_identity cfg db = (Inr r, db')" for r db db'
    using that assms(2)
    by (auto simp: init_identity_def initialize_node_identity_def Let_def intro!: node_identity.equality split: if_splits option.splits)
  from assms(1) obtain ident f ln p f' where
      b: "ident = ids i" "init_node_state env c ident cfg (nd_log ds) f = (Inr (ln, p), f')" "ns_node srv = ln" "nd_log ds' = nd_log ds"
    by (auto simp: boot_def dest!: ident elim!: st_bind_InrE split: prod.splits sum.splits)
  then obtain th fi rn ln0 where l: "logical_node_try_new ident fi th rn (nd_log ds) = Inr ln0" "consensus_shell_new ln0 (nd_log ds) = Inr (ln, p)"
    by (auto simp: init_node_state_def elim!: st_bind_InrE split: prod.splits)
  have "ln = ln0" using l(2)
    by (auto simp: consensus_shell_new_def ln_consensus_progress_def or_fatal_def apply_fatal_def poison_def split: prod.splits sum.splits)
  with l b assms(5) have "repl_step ms ids s (put_node i (ns_node srv, nd_log ds') s)"
    using repl_step.restart[OF assms(3)] by metis
  then show ?thesis using repl_reachable.step[OF assms(4)] b(4) assms(5) by simp
qed

theorem boot_is_restart_witness:
  "\<exists>srv ds'. boot sample_env sample_codec (Inr (sample_boot_config ''demo'')) (sample_disks ''demo'' fresh_store empty_fsm) = (Inr srv, ds')
    \<and> repl_reachable members demo_ids (put_node 1 (ns_node srv, nd_log ds') run0)"
proof -
  have "repl_init members demo_ids run0"
    using demo_init by (simp add: repl_init_def run0_def demo0_def fresh_store_def demo_node_def)
  then have r: "repl_reachable members demo_ids run0" by (rule repl_reachable.start)
  have d: "healthy fresh_store" "hard_state_ok fresh_store" "log_ok fresh_store" "disk_last fresh_store = 0" "disk_committed fresh_store = 0"
    "disk_snap fresh_store = 0"
    by (simp_all add: fresh_store_def healthy_def hard_state_ok_def log_ok_def disk_last_def disk_physical_def disk_snap_def disk_committed_def
        tree_last_def)
  have e: "v_applied (fsm_abs empty_fsm) = 0" "\<not> fm_restoring empty_fsm" by (simp_all add: fsm_abs_def empty_fsm_def)
  have o: "\<And>y. \<not> open_fails sample_env y" by (simp add: sample_env_def)
  obtain ln p where n: "init_node_state sample_env sample_codec (config_identity (sample_boot_config ''demo'')) (sample_boot_config ''demo'')
      fresh_store empty_fsm = (Inr (ln, p), empty_fsm)"
    using state_recovers[OF o sample_config_ok d(1-3) _ _ empty_fsm_ready e(2), of sample_codec empty_fsm] d(4-6) e(1)
    by (force simp: is_u64_def u64_bound_def committed_entries_simps)
  obtain srv ds' where b: "boot sample_env sample_codec (Inr (sample_boot_config ''demo'')) (sample_disks ''demo'' fresh_store empty_fsm) = (Inr srv, ds')"
    using boot_opened[OF sample_opens, of sample_codec "''demo''" fresh_store empty_fsm]
    by (simp add: n validated_dispatchers[OF sample_config_ok])
  have i: "config_identity (sample_boot_config ''demo'') = demo_ids 1" by (simp add: config_identity_def sample_boot_config_def demo_ids_def)
  have "nd_log (sample_disks ''demo'' fresh_store empty_fsm) = disks (core run0) 1" by (simp add: run0_def demo0_def)
  from boot_is_restart[OF b i _ r this] b show ?thesis by auto
qed

text \<open>
  C37 A crash during the restoration of a snapshot on a node whose log is compacted ends the node. The next boot finds the tombstone, empties the
  state machine and replays from the first entry, which the log no longer has; that boot panics, and so does every one after it.
\<close>
theorem purged_restoration_stops_boot:
  assumes "opens env cfg ds" "validate_config (uri_ok env) cfg = Inr ()" "healthy (nd_log ds)"
    and "fsm_healthy (nd_fsm ds)" "fm_restoring (nd_fsm ds)" "1 \<le> disk_committed (nd_log ds)" "disk_entry (nd_log ds) 1 = None"
  shows "\<exists>ds'. boot env c (Inr cfg) ds = (Inl (BootAbort ''Committed entry missing from log during Cold-Boot''), ds')
    \<and> fsm_abs (nd_fsm ds') = empty_view
    \<and> boot env c (Inr cfg) ds' = (Inl (BootAbort ''Committed entry missing from log during Cold-Boot''), ds')"
proof -
  let ?f = "(nd_fsm ds)\<lparr>fsm_poisoned := False, inventory := [], sessions := [], fm_last_applied := None, fm_effective_time := None,
      fm_restoring := False\<rparr>"
  have o: "\<And>x. \<not> open_fails env x" using assms(1) by (simp add: opens_def)
  have v: "fsm_abs ?f = empty_view" by (simp add: fsm_abs_def empty_view_def tree_get_def fun_eq_iff)
  have h: "fsm_healthy ?f" using assms(4) by (simp add: fsm_healthy_def)
  then have a: "last_applied_index ?f = Inr 0" using fsm_reads_healthy(1)[of ?f] v by (simp add: empty_view_def)
  have u: "log_index_add 0 1 = Inr 1" by (simp add: log_index_add_def checked_add_u64_def is_u64_def u64_bound_def)
  have "replay_committed_entries (fsm_apply c) (nd_log ds) 0 (disk_committed (nd_log ds)) ?f
      = (Inl (BootPanic ''Committed entry missing from log during Cold-Boot''), ?f)"
    using assms(3,6,7) u by (subst replay_committed_entries.simps) (simp add: node_read_def)
  then have r: "recover last_applied_index (fsm_apply c) (nd_log ds) ?f = (Inl (BootPanic ''Committed entry missing from log during Cold-Boot''), ?f)"
    using assms(3,6) a u by (simp add: recover_def node_read_def)
  have s: "lacto_store_open env (nd_fsm ds) = (Inr (), ?f)" using store_opens[OF o assms(4)] assms(5) by simp
  have s': "lacto_store_open env ?f = (Inr (), ?f)" using store_opens[OF o h] by simp
  have i: "init_node_state env c (config_identity cfg) cfg (nd_log ds) f
      = (Inl (BootAbort ''Committed entry missing from log during Cold-Boot''), ?f)" if "lacto_store_open env f = (Inr (), ?f)" for f
    using that r o by (simp add: init_node_state_def sled_storage_new_def st_bind_def)
  let ?ds = "ds\<lparr>nd_fsm := ?f\<rparr>"
  have o': "opens env cfg ?ds" using assms(1) by (simp add: opens_def)
  have "boot env c (Inr cfg) ds = (Inl (BootAbort ''Committed entry missing from log during Cold-Boot''), ?ds)"
    using boot_opened[OF assms(1), of c] i[OF s] by simp
  moreover have "boot env c (Inr cfg) ?ds = (Inl (BootAbort ''Committed entry missing from log during Cold-Boot''), ?ds)"
    using boot_opened[OF o', of c] i[OF s'] by simp
  ultimately show ?thesis using v by auto
qed

theorem purged_restoration_stops_boot_witness:
  "\<exists>ds'. boot sample_env sample_codec (Inr (sample_boot_config ''c''))
      (sample_disks ''c'' ((sample_store 1)\<lparr>log_tree := [], meta_last_committed := Some 2, meta_snapshot_index := Some 2, meta_snapshot_term := Some 1\<rparr>) (empty_fsm\<lparr>fm_restoring := True\<rparr>))
      = (Inl (BootAbort ''Committed entry missing from log during Cold-Boot''), ds')"
proof -
  let ?d = "(sample_store 1)\<lparr>log_tree := [], meta_last_committed := Some 2, meta_snapshot_index := Some 2, meta_snapshot_term := Some 1\<rparr>" and ?f = "empty_fsm\<lparr>fm_restoring := True\<rparr>"
  have "healthy ?d" "fsm_healthy ?f" "fm_restoring ?f" "1 \<le> disk_committed ?d" "disk_entry ?d 1 = None"
    by (simp_all add: healthy_def sample_store_def store_with_def empty_store_def fsm_healthy_def empty_fsm_def disk_committed_def
        disk_entry_def tree_get_def)
  from purged_restoration_stops_boot[of sample_env "sample_boot_config ''c''" "sample_disks ''c'' ?d ?f" sample_codec] this show ?thesis by auto
qed

end
