(* ===== verification/Identifiers.thy ===== *)
theory Identifiers
  imports Gateway
begin

text \<open>
  Client ids and trace ids, \<open>common/src/types/client.rs\<close> and \<open>types/trace.rs\<close>: wrappers of the uuid library, which is the parameter
  \<open>uuid_ops\<close> with the laws \<open>uuid_text\<close> of its documentation (the hyphenated form has 36 ASCII characters and parses back). The
  other theories use ids by their text; \<open>uuid_codec\<close> is the parser they then rely on.
\<close>

section \<open>The wrappers\<close>

record 'u uuid_ops =
  uuid_parse :: "string \<Rightarrow> string + 'u"
  uuid_print :: "'u \<Rightarrow> string"

record 'u client_ident =
  ci_inner :: 'u
  ci_cached_str :: string

text \<open>\<open>ClientId::generate\<close> on the UUID it draws.\<close>

definition client_id_generate :: "'u uuid_ops \<Rightarrow> 'u \<Rightarrow> 'u client_ident" where
  "client_id_generate U drawn = \<lparr>ci_inner = drawn, ci_cached_str = uuid_print U drawn\<rparr>"

definition client_id_as_str :: "'u client_ident \<Rightarrow> string" where
  "client_id_as_str c = ci_cached_str c"

text \<open>Slicing a \<open>str\<close> panics off its character boundaries.\<close>

definition client_id_truncated :: "'u client_ident \<Rightarrow> string option" where
  "client_id_truncated c =
     (let s = client_id_as_str c
      in if length s \<le> 8 then Some s else if is_char_boundary s 8 then Some (take 8 s) else None)"

definition client_id_from_str :: "'u uuid_ops \<Rightarrow> string \<Rightarrow> identity_error + 'u client_ident" where
  "client_id_from_str U s =
     (case uuid_parse U s of
        Inl e \<Rightarrow> Inl (InvalidClientId e)
      | Inr inner \<Rightarrow> Inr \<lparr>ci_inner = inner, ci_cached_str = uuid_print U inner\<rparr>)"

definition client_id_display :: "'u client_ident \<Rightarrow> string option" where
  "client_id_display c = client_id_truncated c"

definition client_id_debug :: "'u client_ident \<Rightarrow> string option" where
  "client_id_debug c = map_option (\<lambda>t. ''ClientId('' @ t @ ''...) '') (client_id_truncated c)"

definition client_id_serialize :: "'u client_ident \<Rightarrow> string" where
  "client_id_serialize c = client_id_as_str c"

definition client_id_deserialize :: "'u uuid_ops \<Rightarrow> string \<Rightarrow> identity_error + 'u client_ident" where
  "client_id_deserialize U s = client_id_from_str U s"

definition trace_id_display :: "'u uuid_ops \<Rightarrow> 'u \<Rightarrow> string" where
  "trace_id_display U t = uuid_print U t"

definition trace_id_from_str :: "'u uuid_ops \<Rightarrow> string \<Rightarrow> identity_error + 'u" where
  "trace_id_from_str U s = map_err InvalidTraceId (uuid_parse U s)"

datatype clinical_target =
  RaftFoundation | RaftReplication | RaftCompaction | ClinicalIngress | ClinicalFsm | ClinicalFoundation | ClinicalRecovery
| ClinicalOracle | ClinicalTelemetry

fun clinical_target_str :: "clinical_target \<Rightarrow> string" where
  "clinical_target_str RaftFoundation = ''raft::foundation''"
| "clinical_target_str RaftReplication = ''raft::replication''"
| "clinical_target_str RaftCompaction = ''raft::compaction''"
| "clinical_target_str ClinicalIngress = ''clinical::ingress''"
| "clinical_target_str ClinicalFsm = ''clinical::fsm''"
| "clinical_target_str ClinicalFoundation = ''clinical::foundation''"
| "clinical_target_str ClinicalRecovery = ''clinical::recovery''"
| "clinical_target_str ClinicalOracle = ''clinical::oracle''"
| "clinical_target_str ClinicalTelemetry = ''clinical::telemetry''"

section \<open>What they guarantee\<close>

definition uuid_text :: "'u uuid_ops \<Rightarrow> bool" where
  "uuid_text U \<longleftrightarrow> (\<forall>u. uuid_parse U (uuid_print U u) = Inr u \<and> length (uuid_print U u) = 36
     \<and> list_all (\<lambda>ch. (of_char ch :: nat) < 128) (uuid_print U u))"

definition client_id_ok :: "'u uuid_ops \<Rightarrow> 'u client_ident \<Rightarrow> bool" where
  "client_id_ok U c \<longleftrightarrow> ci_cached_str c = uuid_print U (ci_inner c)"

lemma client_ids_ok:
  "client_id_ok U (client_id_generate U u)"
  "client_id_from_str U s = Inr c \<Longrightarrow> client_id_ok U c"
  by (auto simp: client_id_ok_def client_id_generate_def client_id_from_str_def split: sum.splits)

text \<open>Stored and loaded, an id is the same id; ids with the same text are equal, whatever spelling they were parsed from.\<close>
theorem client_id_round_trip:
  assumes "uuid_text U" "client_id_ok U c"
  shows "client_id_deserialize U (client_id_serialize c) = Inr c
    \<and> (\<forall>c'. client_id_ok U c' \<and> client_id_as_str c' = client_id_as_str c \<longrightarrow> c' = c)"
proof -
  have p: "client_id_deserialize U (client_id_serialize x) = Inr x" if "client_id_ok U x" for x
    using assms(1) that
    by (cases x) (simp add: client_id_deserialize_def client_id_serialize_def client_id_as_str_def client_id_from_str_def client_id_ok_def
        uuid_text_def)
  show ?thesis using p[OF assms(2)] p unfolding client_id_serialize_def by (metis sum.inject(2))
qed

text \<open>Logging an id never panics and shows its first eight characters, never the whole id.\<close>
theorem client_id_redacted:
  assumes "uuid_text U" "client_id_ok U c"
  shows "client_id_display c = Some (take 8 (client_id_as_str c)) \<and> length (take 8 (client_id_as_str c)) = 8
    \<and> take 8 (client_id_as_str c) \<noteq> client_id_as_str c"
proof -
  let ?s = "client_id_as_str c"
  have s: "length ?s = 36" "list_all (\<lambda>ch. (of_char ch :: nat) < 128) ?s"
    using assms by (auto simp: client_id_ok_def client_id_as_str_def uuid_text_def)
  then have "(of_char (?s ! 8) :: nat) < 128" by (simp add: list_all_length)
  with s(1) have "is_char_boundary ?s 8" by (simp add: is_char_boundary_def)
  moreover have "take 8 ?s \<noteq> ?s"
  proof
    assume "take 8 ?s = ?s"
    from arg_cong[OF this, of length] s(1) show False by simp
  qed
  ultimately show ?thesis using s(1) by (simp add: client_id_display_def client_id_truncated_def Let_def)
qed

text \<open>The parser of client ids that gateway and state machine share: it answers with the canonical text and accepts its own answers.\<close>

definition uuid_codec :: "'u uuid_ops \<Rightarrow> fsm_codec \<Rightarrow> fsm_codec" where
  "uuid_codec U c = c\<lparr>parse_uuid := \<lambda>s. case client_id_from_str U s of Inl _ \<Rightarrow> None | Inr ident \<Rightarrow> Some (client_id_as_str ident)\<rparr>"

theorem uuid_codec_canonical:
  assumes "uuid_text U" "parse_uuid (uuid_codec U c) s = Some t"
  shows "parse_uuid (uuid_codec U c) t = Some t"
  using assms by (auto simp: uuid_codec_def client_id_from_str_def client_id_as_str_def uuid_text_def split: sum.splits)

lemma trace_id_round_trip: "uuid_text U \<Longrightarrow> trace_id_from_str U (trace_id_display U t) = Inr t"
  by (simp add: uuid_text_def trace_id_from_str_def trace_id_display_def)

lemma clinical_targets_distinct: "clinical_target_str a = clinical_target_str b \<longleftrightarrow> a = b"
  by (cases a; cases b) simp_all

definition sample_uuids :: "bool uuid_ops" where
  "sample_uuids = \<lparr>uuid_parse = (\<lambda>s. if s = replicate 36 CHR ''a'' then Inr True else if s = replicate 36 CHR ''b'' then Inr False else Inl ''uuid''),
     uuid_print = (\<lambda>u. replicate 36 (if u then CHR ''a'' else CHR ''b''))\<rparr>"

lemma sample_uuids_ok: "uuid_text sample_uuids"
  by (simp add: uuid_text_def sample_uuids_def list_all_length replicate_eq_replicate)

theorem client_id_round_trip_witness:
  "client_id_deserialize sample_uuids (client_id_serialize (client_id_generate sample_uuids True)) = Inr (client_id_generate sample_uuids True)"
  using client_id_round_trip[OF sample_uuids_ok client_ids_ok(1)] by blast

theorem client_id_redacted_witness:
  "client_id_display (client_id_generate sample_uuids True) = Some (replicate 8 CHR ''a'')"
  using client_id_redacted[OF sample_uuids_ok client_ids_ok(1)[of sample_uuids True]]
  by (simp add: client_id_generate_def client_id_as_str_def sample_uuids_def)

theorem uuid_codec_canonical_witness:
  "parse_uuid (uuid_codec sample_uuids c) (replicate 36 CHR ''a'') = Some (replicate 36 CHR ''a'')"
  using uuid_codec_canonical[OF sample_uuids_ok, of c "replicate 36 CHR ''a''" "replicate 36 CHR ''a''"]
  by (simp add: uuid_codec_def client_id_from_str_def client_id_as_str_def sample_uuids_def)

end
