(* ===== verification/Gateway_Properties.thy ===== *)
theory Gateway_Properties
  imports Gateway FSM_Properties
begin

text \<open>
  What the gateway promises, alone and together with the state machine behind it. The session table the firewall
  consults is an interface, the locale \<open>session_table\<close>, interpreted on \<open>check_session\<close> of the
  state machine. Entries that passed the firewall against any earlier state of the ledger never poison
  the state machine, and what the stabilizer accepts from the oracle is a sound mutation.
\<close>

section \<open>Sequence firewall\<close>

definition latest :: "session_record option \<Rightarrow> sequence_id" where
  "latest r = (case r of None \<Rightarrow> 0 | Some rec \<Rightarrow> sr_last_sequence_id rec)"

definition cached_response :: "session_record \<Rightarrow> propose_mutation_response" where
  "cached_response r =
     \<lparr>pr_status = sr_status r, pr_state_version = sr_log_index r, pr_leader_hint = [],
      pr_error_message = (if sr_status r = mutation_status_int MVetoed then sr_moral_justification r else [])\<rparr>"

locale session_table =
  fixes check :: "'s \<Rightarrow> string \<Rightarrow> sequence_id \<Rightarrow> fsm_error + session_record option"
    and table :: "'s \<Rightarrow> string \<Rightarrow> session_record option"
    and ready :: "'s \<Rightarrow> bool"
  assumes check_latest: "ready s \<Longrightarrow> check s k 0 = Inr (table s k)"
begin

lemma firewall_passes_iff:
  "ready s \<Longrightarrow> enforce_sequence_firewall (check s) k q = Inr None \<longleftrightarrow> q = Suc (latest (table s k))"
  by (auto simp: enforce_sequence_firewall_def check_latest latest_def split: option.splits)

lemma firewall_cached:
  "ready s \<Longrightarrow> table s k = Some r \<Longrightarrow> q = sr_last_sequence_id r \<Longrightarrow> 0 < q \<Longrightarrow>
     enforce_sequence_firewall (check s) k q = Inr (Some (cached_response r))"
  by (simp add: enforce_sequence_firewall_def check_latest cached_response_def)

lemma firewall_rejects:
  "ready s \<Longrightarrow> q = 0 \<or> q \<notin> {latest (table s k), Suc (latest (table s k))} \<Longrightarrow>
     \<exists>version msg. enforce_sequence_firewall (check s) k q = Inr (Some (rejection version msg))"
  by (auto simp: enforce_sequence_firewall_def check_latest latest_def split: option.splits)

end

interpretation ledger: session_table "\<lambda>s k q. check_session k q s" "\<lambda>s. v_sessions (fsm_abs s)" fsm_ready
  by unfold_locales
    (simp add: check_session_def check_not_poisoned_def fsm_ready_def fsm_reads_healthy split: option.splits)

lemma latest_last_seen: "latest (v_sessions v k) = last_seen v k"
  by (simp add: latest_def last_seen_def)

text \<open>An entry the state machine can read: it decodes, and its client, status, time and sequence id are in order.\<close>

definition well_formed_entry :: "fsm_codec \<Rightarrow> bytes \<Rightarrow> committed_mutation \<Rightarrow> bool" where
  "well_formed_entry c data m \<longleftrightarrow> decode_mutation c data = Some m \<and> parse_uuid c (m_client_id m) \<noteq> None
     \<and> mutation_status_try_from (m_status m) \<noteq> None \<and> m_event_time m \<noteq> None \<and> is_u64 (Suc (m_sequence_id m))"

lemma spec_apply_in_turn:
  assumes "well_formed_entry c data m" "i = Suc (v_applied v)" "is_u64 i" "is_u64 (Suc (last_seen v (m_client_id m)))"
    and "m_sequence_id m = Suc (last_seen v (m_client_id m))"
  shows "\<exists>cid v'. parse_uuid c (m_client_id m) = Some cid \<and> spec_apply c i data v = Some v' \<and> spec_commit cid i m v = Some v'
    \<and> last_seen v' (m_client_id m) = m_sequence_id m"
  using assms
  by (auto simp: well_formed_entry_def spec_apply_def spec_commit_def Let_def last_seen_def new_session_record_def)

text \<open>
  C20 The sequence firewall lets through exactly what the ledger would take. For a well-formed entry of
  a client and the state machine it is to be applied to next: the firewall passes its sequence id if and
  only if applying the entry succeeds and moves the client's session on to that id, and then inventory,
  session, index and clock are the ones of that mutation; an id the ledger has already seen only moves the applied index;
  an id that skips one is refused by the ledger, which keeps its content. The id last seen is answered with the
  recorded outcome, and every other id but the next one is rejected.
\<close>
theorem firewall_matches_ledger:
  assumes "fsm_ready s" "well_formed_entry c data m" "m_client_id m = client" "m_sequence_id m = sq"
    and "i = Suc (v_applied (fsm_abs s))" "is_u64 i" "is_u64 (Suc (last_seen (fsm_abs s) client))"
    and "fsm_apply c i data s = (r, s')"
  shows "(enforce_sequence_firewall (\<lambda>k q. check_session k q s) client sq = Inr None \<longleftrightarrow>
           r = Inr () \<and> last_seen (fsm_abs s) client < sq \<and> last_seen (fsm_abs s') client = sq)
    \<and> (enforce_sequence_firewall (\<lambda>k q. check_session k q s) client sq = Inr None \<longrightarrow>
           (\<exists>cid. parse_uuid c client = Some cid \<and> spec_commit cid i m (fsm_abs s) = Some (fsm_abs s')))
    \<and> (sq \<le> last_seen (fsm_abs s) client \<longrightarrow> r = Inr () \<and> fsm_abs s' = (fsm_abs s)\<lparr>v_applied := i\<rparr>)
    \<and> (Suc (last_seen (fsm_abs s) client) < sq \<longrightarrow> (\<exists>e. r = Inl e) \<and> fsm_abs s' = fsm_abs s)
    \<and> (\<forall>rec. v_sessions (fsm_abs s) client = Some rec \<and> sr_last_sequence_id rec = sq \<and> 0 < sq \<longrightarrow>
         enforce_sequence_firewall (\<lambda>k q. check_session k q s) client sq = Inr (Some (cached_response rec)))
    \<and> (sq = 0 \<or> sq \<notin> {last_seen (fsm_abs s) client, Suc (last_seen (fsm_abs s) client)} \<longrightarrow>
         (\<exists>version msg. enforce_sequence_firewall (\<lambda>k q. check_session k q s) client sq = Inr (Some (rejection version msg))))"
proof -
  let ?seen = "last_seen (fsm_abs s) client"
  note R = fsm_apply_refines[OF assms(1,8)]
  have fw: "enforce_sequence_firewall (\<lambda>k q. check_session k q s) client sq = Inr None \<longleftrightarrow> sq = Suc ?seen"
    using ledger.firewall_passes_iff[OF assms(1)] by (simp add: latest_last_seen)
  have u: "parse_uuid c (m_client_id m) \<noteq> None" "decode_mutation c data = Some m" using assms(2) by (simp_all add: well_formed_entry_def)
  have passes: "r = Inr () \<and> last_seen (fsm_abs s') client = sq
      \<and> (\<exists>cid. parse_uuid c client = Some cid \<and> spec_commit cid i m (fsm_abs s) = Some (fsm_abs s'))" if "sq = Suc ?seen"
    using R spec_apply_in_turn[OF assms(2,5,6)] assms(3,4,7) that by auto
  have dup: "r = Inr () \<and> fsm_abs s' = (fsm_abs s)\<lparr>v_applied := i\<rparr>" if "sq \<le> ?seen"
    using R spec_apply_duplicate[OF u(2,1) assms(5,6)] assms(3,4,7) that by simp
  have gap: "(\<exists>e. r = Inl e) \<and> fsm_abs s' = fsm_abs s" if "Suc ?seen < sq"
  proof -
    have "spec_apply c i data (fsm_abs s) = None"
      using that u(2) assms(3,4) by (auto simp: spec_apply_def Let_def split: option.splits)
    then show ?thesis using R by simp
  qed
  have iff: "sq = Suc ?seen \<longleftrightarrow> r = Inr () \<and> ?seen < sq \<and> last_seen (fsm_abs s') client = sq"
    using passes gap by (cases "Suc ?seen < sq") auto
  have cached: "enforce_sequence_firewall (\<lambda>k q. check_session k q s) client sq = Inr (Some (cached_response rec))"
    if "v_sessions (fsm_abs s) client = Some rec \<and> sr_last_sequence_id rec = sq \<and> 0 < sq" for rec
    using ledger.firewall_cached[OF assms(1)] that by blast
  have rejected: "\<exists>version msg. enforce_sequence_firewall (\<lambda>k q. check_session k q s) client sq = Inr (Some (rejection version msg))"
    if "sq = 0 \<or> sq \<notin> {?seen, Suc ?seen}"
    using ledger.firewall_rejects[OF assms(1), of sq client] that unfolding latest_last_seen by blast
  show ?thesis
    unfolding fw
    by (intro conjI allI impI iff; (elim passes[THEN conjunct2, THEN conjunct2])?)
      (simp_all only: dup gap cached rejected)
qed

definition third_mutation :: fsm_codec where
  "third_mutation = sample_codec\<lparr>decode_mutation := (\<lambda>_. Some (sample_mutation\<lparr>m_sequence_id := 3\<rparr>))\<rparr>"

text \<open>A first mutation passes and is applied; a third one without a second is stopped by both.\<close>
theorem firewall_matches_ledger_witness:
  "enforce_sequence_firewall (\<lambda>k q. check_session k q empty_fsm) ''c1'' 1 = Inr None
   \<and> (\<exists>s'. fsm_apply sample_codec 1 [] empty_fsm = (Inr (), s') \<and> last_seen (fsm_abs s') ''c1'' = 1)
   \<and> (\<exists>version msg. enforce_sequence_firewall (\<lambda>k q. check_session k q empty_fsm) ''c1'' 3 = Inr (Some (rejection version msg)))
   \<and> (\<exists>e s'. fsm_apply third_mutation 1 [] empty_fsm = (Inl e, s') \<and> fsm_abs s' = fsm_abs empty_fsm)"
proof -
  have v: "last_seen (fsm_abs empty_fsm) ''c1'' = 0" "1 = Suc (v_applied (fsm_abs empty_fsm))" "is_u64 1"
    by (simp_all add: last_seen_def fsm_abs_def empty_fsm_def tree_get_def is_u64_def u64_bound_def)
  have m: "well_formed_entry sample_codec [] sample_mutation" "m_client_id sample_mutation = ''c1''" "m_sequence_id sample_mutation = 1"
    "well_formed_entry third_mutation [] (sample_mutation\<lparr>m_sequence_id := 3\<rparr>)"
    by (simp_all add: well_formed_entry_def sample_codec_def third_mutation_def sample_mutation_def mutation_status_try_from_def
        is_u64_def u64_bound_def)
  obtain r s' where a: "fsm_apply sample_codec 1 [] empty_fsm = (r, s')" by fastforce
  obtain q t where b: "fsm_apply third_mutation 1 [] empty_fsm = (q, t)" by fastforce
  have pass: "enforce_sequence_firewall (\<lambda>k q. check_session k q empty_fsm) ''c1'' 1 = Inr None"
    using ledger.firewall_passes_iff[OF empty_fsm_ready, of "''c1''" 1] v(1) by (simp add: latest_last_seen)
  have "r = Inr () \<and> last_seen (fsm_abs s') ''c1'' = 1"
    using firewall_matches_ledger[OF empty_fsm_ready m(1-3) v(2,3) _ a] v(1,3) pass by simp
  moreover have "(\<exists>version msg. enforce_sequence_firewall (\<lambda>k q. check_session k q empty_fsm) ''c1'' 3 = Inr (Some (rejection version msg)))
      \<and> (\<exists>e. q = Inl e) \<and> fsm_abs t = fsm_abs empty_fsm"
    using firewall_matches_ledger[OF empty_fsm_ready m(4) _ _ v(2,3) _ b, of "''c1''" 3] v(1,3) m(2) by simp
  ultimately show ?thesis using pass a b by blast
qed

section \<open>Screened entries never poison the ledger\<close>

lemma st_bind_assoc: "st_bind (st_bind m f) g = st_bind m (\<lambda>x. st_bind (f x) g)"
  by (auto simp: st_bind_def fun_eq_iff split: sum.splits prod.splits)

lemma st_bind_return: "st_bind (st_return x) f = f x"
  by (simp add: fun_eq_iff)

lemma apply_all_append: "apply_all ap (xs @ ys) = st_bind (apply_all ap xs) (\<lambda>_. apply_all ap ys)"
  by (induction ap xs rule: apply_all.induct) (simp_all add: st_bind_assoc st_bind_return)

definition ledger_after :: "fsm_codec \<Rightarrow> (log_index \<times> bytes) list \<Rightarrow> fsm_store \<Rightarrow> nat \<Rightarrow> fsm_store" where
  "ledger_after c es s n = snd (apply_all (fsm_apply c) (take n es) s)"

definition screened :: "fsm_codec \<Rightarrow> fsm_store \<Rightarrow> (log_index \<times> bytes) list \<Rightarrow> bool" where
  "screened c s es \<longleftrightarrow> (\<forall>k < length es. \<exists>m. \<exists>j \<le> k. well_formed_entry c (snd (es ! k)) m
     \<and> fst (es ! k) = Suc (v_applied (fsm_abs s) + k)
     \<and> enforce_sequence_firewall (\<lambda>x q. check_session x q (ledger_after c es s j)) (m_client_id m) (m_sequence_id m) = Inr None)"

lemma spec_apply_screened:
  assumes "well_formed_entry c data m" "i = Suc (v_applied v)" "is_u64 i" "m_sequence_id m \<le> Suc (last_seen v (m_client_id m))"
    and "\<forall>k. is_u64 (Suc (last_seen v k))"
  shows "\<exists>v'. spec_apply c i data v = Some v' \<and> v_applied v' = i \<and> (\<forall>k. last_seen v k \<le> last_seen v' k)
    \<and> (\<forall>k. is_u64 (Suc (last_seen v' k)))"
proof (cases "m_sequence_id m \<le> last_seen v (m_client_id m)")
  case True
  with assms show ?thesis by (auto simp: well_formed_entry_def spec_apply_def last_seen_def Let_def)
next
  case False
  with assms(4) have "m_sequence_id m = Suc (last_seen v (m_client_id m))" by simp
  with assms show ?thesis
    by (auto simp: well_formed_entry_def spec_apply_def spec_commit_def last_seen_def new_session_record_def Let_def)
qed

lemma screened_prefix:
  assumes "fsm_ready s" "screened c s es" "is_u64 (v_applied (fsm_abs s) + length es)"
    and "\<forall>k. is_u64 (Suc (last_seen (fsm_abs s) k))" "n \<le> length es"
  shows "apply_all (fsm_apply c) (take n es) s = (Inr (), ledger_after c es s n) \<and> fsm_ready (ledger_after c es s n)
    \<and> v_applied (fsm_abs (ledger_after c es s n)) = v_applied (fsm_abs s) + n
    \<and> (\<forall>k. is_u64 (Suc (last_seen (fsm_abs (ledger_after c es s n)) k)))
    \<and> (\<forall>j \<le> n. fsm_ready (ledger_after c es s j) \<and>
         (\<forall>k. last_seen (fsm_abs (ledger_after c es s j)) k \<le> last_seen (fsm_abs (ledger_after c es s n)) k))"
  using assms(5)
proof (induction n)
  case 0
  then show ?case using assms(1,4) by (simp add: ledger_after_def st_return_def)
next
  case (Suc n)
  let ?sn = "ledger_after c es s n" and ?s' = "ledger_after c es s (Suc n)"
  have IH: "apply_all (fsm_apply c) (take n es) s = (Inr (), ?sn)" "fsm_ready ?sn"
    "v_applied (fsm_abs ?sn) = v_applied (fsm_abs s) + n" "\<forall>k. is_u64 (Suc (last_seen (fsm_abs ?sn) k))"
    "\<And>j k. j \<le> n \<Longrightarrow> fsm_ready (ledger_after c es s j)
       \<and> last_seen (fsm_abs (ledger_after c es s j)) k \<le> last_seen (fsm_abs ?sn) k"
    using Suc by simp_all
  obtain i data where e: "es ! n = (i, data)" by (cases "es ! n")
  obtain m j where m: "well_formed_entry c data m" "j \<le> n" "i = Suc (v_applied (fsm_abs s) + n)"
    and pass: "enforce_sequence_firewall (\<lambda>x q. check_session x q (ledger_after c es s j)) (m_client_id m) (m_sequence_id m) = Inr None"
    using assms(2) Suc.prems e unfolding screened_def by (metis Suc_le_lessD fst_conv snd_conv)
  have "m_sequence_id m = Suc (last_seen (fsm_abs (ledger_after c es s j)) (m_client_id m))"
    using pass ledger.firewall_passes_iff IH(5)[OF m(2)] by (simp add: latest_last_seen)
  then have "m_sequence_id m \<le> Suc (last_seen (fsm_abs ?sn) (m_client_id m))" using IH(5)[OF m(2)] by simp
  moreover have "is_u64 i" using assms(3) Suc.prems m(3) by (auto intro: is_u64_le)
  moreover have "i = Suc (v_applied (fsm_abs ?sn))" using m(3) IH(3) by simp
  ultimately obtain v' where v': "spec_apply c i data (fsm_abs ?sn) = Some v'" "v_applied v' = i"
    "\<forall>k. last_seen (fsm_abs ?sn) k \<le> last_seen v' k" "\<forall>k. is_u64 (Suc (last_seen v' k))"
    using spec_apply_screened[OF m(1) _ _ _ IH(4)] by blast
  obtain r s1 where run: "fsm_apply c i data ?sn = (r, s1)" by (cases "fsm_apply c i data ?sn")
  then have s1: "r = Inr ()" "fsm_abs s1 = v'" "fsm_ready s1" using fsm_apply_refines[OF IH(2) run] v'(1) by simp_all
  have "take (Suc n) es = take n es @ [(i, data)]" using Suc.prems e by (simp add: take_Suc_conv_app_nth)
  then have all: "apply_all (fsm_apply c) (take (Suc n) es) s = (Inr (), s1)"
    using IH(1) run s1(1) by (simp add: apply_all_append st_bind_def st_return_def)
  then have "?s' = s1" by (simp add: ledger_after_def)
  moreover have "last_seen (fsm_abs (ledger_after c es s x)) k \<le> last_seen v' k" if "x \<le> n" for x k
    using IH(5)[OF that, of k] v'(3) order_trans by blast
  ultimately show ?case using all s1 v'(2,4) m(3) IH(5) by (simp add: le_Suc_eq)
qed

text \<open>
  The firewall protects the state machine. Take a log whose entries have consecutive indices and whose every
  entry passed the sequence firewall against the ledger after some prefix of the entries before it, however old that prefix
  was when the entry was appended. Then the state machine applies the whole log: no sequence gap poisons it, whatever
  clients sent twice or concurrently.
\<close>
theorem screened_entries_apply:
  assumes "fsm_ready s" "screened c s es" "is_u64 (v_applied (fsm_abs s) + length es)"
    and "\<forall>k. is_u64 (Suc (last_seen (fsm_abs s) k))"
  shows "\<exists>s'. apply_all (fsm_apply c) es s = (Inr (), s') \<and> fsm_ready s' \<and> v_applied (fsm_abs s') = v_applied (fsm_abs s) + length es"
  using screened_prefix[OF assms, of "length es"] by auto

theorem screened_entries_apply_witness:
  "\<exists>s'. apply_all (fsm_apply sample_codec) [(1, []), (2, [])] empty_fsm = (Inr (), s') \<and> fsm_ready s'"
proof -
  have v: "v_applied (fsm_abs empty_fsm) = 0" "last_seen (fsm_abs empty_fsm) k = 0" for k
    by (simp_all add: last_seen_def fsm_abs_def empty_fsm_def tree_get_def)
  have u: "is_u64 2" "is_u64 1" by (simp_all add: is_u64_def u64_bound_def)
  have "well_formed_entry sample_codec [] sample_mutation"
    using u by (simp add: well_formed_entry_def sample_codec_def sample_mutation_def mutation_status_try_from_def numeral_2_eq_2)
  moreover have "enforce_sequence_firewall (\<lambda>x q. check_session x q (ledger_after sample_codec es empty_fsm 0))
      (m_client_id sample_mutation) (m_sequence_id sample_mutation) = Inr None" for es
    using ledger.firewall_passes_iff[OF empty_fsm_ready] v by (simp add: ledger_after_def st_return_def latest_last_seen sample_mutation_def)
  ultimately have "screened sample_codec empty_fsm [(1, []), (2, [])]"
    by (auto simp: screened_def v less_Suc_eq intro!: exI[of _ sample_mutation])
  then show ?thesis
    using screened_entries_apply[OF empty_fsm_ready, of sample_codec "[(1, []), (2, [])]"] u v by (auto simp: numeral_2_eq_2)
qed

section \<open>Quantities\<close>

text \<open>What a successful stabilization computed: \<open>q\<close> the converted request, \<open>acc\<close> the quantity stored.\<close>

definition accumulates ::
  "'d decimal_ops \<Rightarrow> operation \<Rightarrow> grocery_item option \<Rightarrow> 'd physical_quantity \<Rightarrow> 'd physical_quantity \<Rightarrow> bool" where
  "accumulates D opn existing q acc =
     (case (opn, existing) of
        (OpAdd, Some item) \<Rightarrow>
          (case parse_and_convert D (quantity item) (unit item) of
             Inl _ \<Rightarrow> False
           | Inr e \<Rightarrow> pq_dimension e = pq_dimension q \<and> pq_dimension acc = pq_dimension q
                       \<and> d_checked_add D (pq_value e) (pq_value q) = Some (pq_value acc))
      | (OpSubtract, Some item) \<Rightarrow>
          (case parse_and_convert D (quantity item) (unit item) of
             Inl _ \<Rightarrow> False
           | Inr e \<Rightarrow> pq_dimension e = pq_dimension q \<and> pq_dimension acc = pq_dimension q
                       \<and> d_checked_sub D (pq_value e) (pq_value q) = Some (pq_value acc))
      | _ \<Rightarrow> acc = q)"

lemma accumulation_Inr:
  assumes "apply_arithmetic_accumulation D intent key q stock = Inr acc" "\<not> d_is_sign_negative D (pq_value q)"
  shows "accumulates D (si_operation intent) (find_item key stock) q acc \<and> \<not> d_is_sign_negative D (pq_value acc)"
  using assms
  by (cases "si_operation intent"; cases "find_item key stock")
    (auto simp: apply_arithmetic_accumulation_def accumulates_def res_bind_Inr_iff map_err_Inr_iff pq_add_iff pq_sub_iff
      split: if_splits)

lemma unit_stabilization_Inr:
  "verify_unit_stabilization D q u mult = Inr base \<Longrightarrow> \<not> d_is_sign_negative D (pq_value base) \<and> \<not> d_is_zero D (pq_value base)"
  by (auto simp: verify_unit_stabilization_def res_bind_Inr_iff split: if_splits)

lemma stabilize_Inr:
  assumes "validate_and_stabilize D intent veto stock = Inr s"
  shows "is_slug (st_resolved_item_key s) \<and> st_resolved_item_key s = vo_resolved_item_key veto
    \<and> category_from_str (vo_category_assignment veto) = Some (st_category s)
    \<and> (if si_operation intent = OpDelete then st_updated_base_quantity s = ''0'' \<and> st_base_unit s = ''units''
       else \<exists>qty q acc. si_quantity intent = Some qty
         \<and> verify_unit_stabilization D qty (vo_resolved_unit veto) (vo_conversion_multiplier_to_base veto) = Inr q
         \<and> accumulates D (si_operation intent) (find_item (vo_resolved_item_key veto) stock) q acc
         \<and> \<not> d_is_sign_negative D (pq_value acc)
         \<and> st_updated_base_quantity s = d_to_string D (pq_value acc) \<and> st_base_unit s = base_unit (pq_dimension acc))"
proof -
  from assms have cat: "category_from_str (vo_category_assignment veto) = Some (st_category s)"
    and key: "st_resolved_item_key s = vo_resolved_item_key veto" "slugify (vo_resolved_item_key veto) = vo_resolved_item_key veto"
    by (auto simp: validate_and_stabilize_def verify_category_registry_def Let_def res_bind_Inr_iff ok_or_Inr_iff split: if_splits)
  show ?thesis
  proof (cases "si_operation intent = OpDelete")
    case True
    with assms cat key show ?thesis
      by (auto simp: validate_and_stabilize_def Let_def res_bind_Inr_iff slugify_fixed_iff split: if_splits)
  next
    case False
    with assms obtain qty q acc where "si_quantity intent = Some qty"
      and q: "verify_unit_stabilization D qty (vo_resolved_unit veto) (vo_conversion_multiplier_to_base veto) = Inr q"
      and acc: "apply_arithmetic_accumulation D intent (vo_resolved_item_key veto) q stock = Inr acc"
      and "st_updated_base_quantity s = d_to_string D (pq_value acc)" "st_base_unit s = base_unit (pq_dimension acc)"
      by (auto simp: validate_and_stabilize_def Let_def res_bind_Inr_iff ok_or_Inr_iff split: if_splits)
    with accumulation_Inr[OF acc] unit_stabilization_Inr[OF q] cat key False show ?thesis
      by (auto simp: slugify_fixed_iff)
  qed
qed

text \<open>
  C31 What the stabilizer accepts from the oracle: the item key is a canonical slug, the category is registered, and for
  every operation but a deletion the stored quantity is a decimal that is not negative, in the base unit of its
  dimension, equal to the converted request for a new item or a \<open>SET\<close>, and to the existing quantity plus or minus the
  converted request in the same dimension for \<open>ADD\<close> and \<open>SUBTRACT\<close>; the converted request itself is positive.
\<close>
theorem stabilized_mutation_sound:
  assumes "validate_and_stabilize D intent veto stock = Inr s"
  shows "is_slug (st_resolved_item_key s) \<and> category_from_str (vo_category_assignment veto) = Some (st_category s)
    \<and> (si_operation intent \<noteq> OpDelete \<longrightarrow>
        (\<exists>qty q acc. si_quantity intent = Some qty
         \<and> verify_unit_stabilization D qty (vo_resolved_unit veto) (vo_conversion_multiplier_to_base veto) = Inr q
         \<and> \<not> d_is_sign_negative D (pq_value q) \<and> \<not> d_is_zero D (pq_value q)
         \<and> accumulates D (si_operation intent) (find_item (st_resolved_item_key s) stock) q acc
         \<and> \<not> d_is_sign_negative D (pq_value acc)
         \<and> st_updated_base_quantity s = d_to_string D (pq_value acc) \<and> st_base_unit s = base_unit (pq_dimension acc)))"
proof (cases "si_operation intent = OpDelete")
  case True
  with stabilize_Inr[OF assms] show ?thesis by auto
next
  case False
  with stabilize_Inr[OF assms] obtain qty q acc where "is_slug (st_resolved_item_key s)"
    "st_resolved_item_key s = vo_resolved_item_key veto" "category_from_str (vo_category_assignment veto) = Some (st_category s)"
    "si_quantity intent = Some qty"
    and q: "verify_unit_stabilization D qty (vo_resolved_unit veto) (vo_conversion_multiplier_to_base veto) = Inr q"
    and "accumulates D (si_operation intent) (find_item (vo_resolved_item_key veto) stock) q acc"
    "\<not> d_is_sign_negative D (pq_value acc)"
    "st_updated_base_quantity s = d_to_string D (pq_value acc)" "st_base_unit s = base_unit (pq_dimension acc)"
    by auto
  then show ?thesis using unit_stabilization_Inr[OF q] by simp blast
qed

text \<open>A concrete request: some milk, resolved by the oracle to millilitres.\<close>

definition sample_veto :: veto_outcome where
  "sample_veto = \<lparr>vo_is_approved = True, vo_category_assignment = ''Animal Secretions'', vo_moral_justification = [],
     vo_resolved_item_key = ''milk'', vo_suggested_display_name = ''Milk'', vo_resolved_unit = ''ml'',
     vo_conversion_multiplier_to_base = ''1''\<rparr>"

definition sample_intent :: "operation \<Rightarrow> string \<Rightarrow> scrubbed_intent" where
  "sample_intent opn qty = \<lparr>si_item_key = ''milk'', si_operation = opn, si_quantity = Some qty, si_unit = None, si_category = None\<rparr>"

definition sample_item :: "string \<Rightarrow> grocery_item" where
  "sample_item qty = new_grocery_item ''milk'' qty ''ml'' ''Animal Secretions'' ''c1'' zero_timestamp 1 ''ml''"

definition sample_stabilized :: "string \<Rightarrow> stabilized_mutation" where
  "sample_stabilized qty = \<lparr>st_resolved_item_key = ''milk'', st_suggested_display_name = ''Milk'', st_updated_base_quantity = qty,
     st_base_unit = ''ml'', st_display_unit = ''ml'', st_category = AnimalSecretions, st_moral_justification = []\<rparr>"

lemma sample_category: "category_from_str ''Animal Secretions'' = Some AnimalSecretions"
  using category_round_trip[of "''Animal Secretions''" AnimalSecretions] by (simp add: category_spellings_def)

lemma sample_unit: "resolve_symbol D ''ml'' =
  Inr \<lparr>ue_symbol = ''ml'', ue_dimension = Volume, ue_multiplier = d_from_int D 1, ue_is_contextual = False\<rparr>"
  using normalize_base_unit[of Volume] by (simp add: resolve_symbol_def registry_def)

lemma whole_number_text: "d_from_str whole_numbers (node_id_to_string n) = Some (int n)"
  by (simp add: whole_numbers_def read_digits_to_string)

lemma digits_1: "node_id_to_string 1 = ''1''" "node_id_to_string 3 = ''3''" "node_id_to_string 5 = ''5''" "node_id_to_string 8 = ''8''"
  by (code_simp)+

lemma sample_parse: "parse_and_convert whole_numbers (node_id_to_string n) ''ml'' = Inr (QVolume (int n))"
  by (simp add: parse_and_convert_def sample_unit convert_to_base_val_def whole_number_text)
    (simp add: whole_numbers_def)

lemma sample_unit_stabilization:
  "0 < n \<Longrightarrow> verify_unit_stabilization whole_numbers (node_id_to_string n) ''ml'' ''1'' = Inr (QVolume (int n))"
proof -
  assume "0 < n"
  moreover have "d_from_str whole_numbers ''1'' = Some 1" using whole_number_text[of 1] by (simp only: digits_1 of_nat_1)
  ultimately show "verify_unit_stabilization whole_numbers (node_id_to_string n) ''ml'' ''1'' = Inr (QVolume (int n))"
    by (simp add: verify_unit_stabilization_def sample_unit sample_parse) (simp add: whole_numbers_def)
qed

lemma slugify_milk: "slugify ''milk'' = ''milk''"
  by code_simp

lemma sample_stabilize:
  assumes "0 < n"
  shows "validate_and_stabilize whole_numbers (sample_intent OpAdd (node_id_to_string n)) sample_veto [sample_item (node_id_to_string k)]
     = Inr (sample_stabilized (node_id_to_string (k + n)))"
proof -
  have "d_to_string whole_numbers (int k + int n) = node_id_to_string (k + n)"
    "\<not> d_is_sign_negative whole_numbers (int k + int n)" "d_checked_add whole_numbers (int k) (int n) = Some (int k + int n)"
    by (simp_all add: whole_numbers_def nat_add_distrib)
  with assms show ?thesis
    by (simp add: validate_and_stabilize_def sample_veto_def sample_intent_def sample_item_def new_grocery_item_def find_item_def
      verify_category_registry_def sample_category slugify_milk sample_unit_stabilization enforce_physical_invariants_def sample_unit
      apply_arithmetic_accumulation_def sample_parse sample_stabilized_def Let_def)
qed

lemma sample_stabilize_new:
  assumes "0 < n" "opn \<noteq> OpDelete"
  shows "validate_and_stabilize whole_numbers (sample_intent opn (node_id_to_string n)) sample_veto [] = Inr (sample_stabilized (node_id_to_string n))"
proof -
  have "d_to_string whole_numbers (int n) = node_id_to_string n" by (simp add: whole_numbers_def)
  with assms show ?thesis
    by (simp add: validate_and_stabilize_def sample_veto_def sample_intent_def find_item_def
      verify_category_registry_def sample_category slugify_milk sample_unit_stabilization enforce_physical_invariants_def sample_unit
      apply_arithmetic_accumulation_def sample_parse sample_stabilized_def Let_def)
qed

theorem stabilized_mutation_sound_witness:
  "is_slug ''milk'' \<and> (\<exists>acc. accumulates whole_numbers OpAdd (Some (sample_item ''5'')) (QVolume 3) acc
     \<and> ''8'' = d_to_string whole_numbers (pq_value acc) \<and> ''ml'' = base_unit (pq_dimension acc))"
  using stabilized_mutation_sound[OF sample_stabilize[of 3 5]] sample_unit_stabilization[of 3]
  by (auto simp: sample_stabilized_def sample_intent_def sample_veto_def digits_1 find_item_def sample_item_def new_grocery_item_def)

end
