(* ===== verification/Ingress_Properties.thy ===== *)
theory Ingress_Properties
  imports Gateway_Properties
begin

text \<open>
  Properties of the whole ingress pipeline: what it may append to the log, where its answers come from, and the
  physical invariant of the inventory it maintains through the state machine.
\<close>

section \<open>The retry loop\<close>

lemma resolve_attempts_cases:
  assumes "resolve_attempts D relay intent stock a left = Inr (st, s)"
  shows "\<exists>b veto. a \<le> b \<and> b \<le> a + left \<and> relay b (intent_to_proto intent) stock = Inr veto
    \<and> (st = MCommitted \<and> vo_is_approved veto \<and> validate_and_stabilize D intent veto stock = Inr s
       \<or> st = MVetoed \<and> (s = vetoed_mutation veto (vo_moral_justification veto) \<and> \<not> vo_is_approved veto
            \<or> s = vetoed_mutation veto UNIT_MISMATCH_JUSTIFICATION \<and> vo_is_approved veto))"
  using assms
proof (induction left arbitrary: a)
  case 0
  then show ?case
    by (subst (asm) resolve_attempts.simps)
      (auto simp: evaluate_policy_def map_err_def split: sum.splits if_splits)
next
  case (Suc left)
  note step = resolve_attempts.simps[of D relay intent stock a "Suc left"]
  consider "resolve_attempts D relay intent stock (Suc a) left = Inr (st, s)"
    | veto where "relay a (intent_to_proto intent) stock = Inr veto" "vo_is_approved veto"
        "validate_and_stabilize D intent veto stock = Inr s" "st = MCommitted"
    | veto where "relay a (intent_to_proto intent) stock = Inr veto" "\<not> vo_is_approved veto"
        "s = vetoed_mutation veto (vo_moral_justification veto)" "st = MVetoed"
  proof (cases "relay a (intent_to_proto intent) stock")
    case (Inl e)
    with Suc.prems that(1) show thesis by (simp add: step evaluate_policy_def)
  next
    case (Inr veto)
    then show thesis
      using Suc.prems that(1) that(2)[OF Inr] that(3)[OF Inr]
      by (cases "vo_is_approved veto"; cases "validate_and_stabilize D intent veto stock") (simp_all add: step evaluate_policy_def)
  qed
  then show ?case
  proof cases
    case 1
    from Suc.IH[OF this] obtain b veto where b: "Suc a \<le> b" "b \<le> Suc a + left"
      and r: "relay b (intent_to_proto intent) stock = Inr veto"
        "st = MCommitted \<and> vo_is_approved veto \<and> validate_and_stabilize D intent veto stock = Inr s
         \<or> st = MVetoed \<and> (s = vetoed_mutation veto (vo_moral_justification veto) \<and> \<not> vo_is_approved veto
            \<or> s = vetoed_mutation veto UNIT_MISMATCH_JUSTIFICATION \<and> vo_is_approved veto)" by blast
    from b have "a \<le> b" "b \<le> a + Suc left" by simp_all
    with r show ?thesis by blast
  next
    case (2 veto)
    then show ?thesis by (intro exI[of _ a] exI[of _ veto]) simp
  next
    case (3 veto)
    then show ?thesis by (intro exI[of _ a] exI[of _ veto]) simp
  qed
qed

lemma resolve_status_Inr [simp]: "resolve_status (ms, s) = Inr (ps, s') \<longleftrightarrow> s' = s \<and> ms = proto_status ps"
  by (cases ms; cases ps) (auto simp: resolve_status_def)

lemma mutation_of_proposal_simps [simp]:
  "m_status (mutation_of_proposal p now) = mutation_status_int (proto_status (mp_status p))"
  "m_is_delete (mutation_of_proposal p now) \<longleftrightarrow> si_operation (mp_intent p) = OpDelete"
  "m_resolved_item_key (mutation_of_proposal p now) = st_resolved_item_key (mp_stabilized p)"
  "m_updated_base_quantity (mutation_of_proposal p now) = st_updated_base_quantity (mp_stabilized p)"
  "m_base_unit (mutation_of_proposal p now) = st_base_unit (mp_stabilized p)"
  "m_client_id (mutation_of_proposal p now) = mp_client_id p" "m_sequence_id (mutation_of_proposal p now) = mp_sequence_id p"
  "m_event_time (mutation_of_proposal p now) = Some now"
  by (simp_all add: mutation_of_proposal_def new_committed_mutation_def Let_def)

lemma prepare_proposal_Inr:
  assumes "prepare_proposal D config ob client req st = Inr p"
  shows "\<exists>proto stock ms. pm_intent req = Some proto \<and> normalize_intent D proto = Inr (mp_intent p)
    \<and> get_inventory (mo_inventory_fsm ob) = Inr stock
    \<and> resolve_semantic_mutation D (mo_relay ob) config (mp_intent p) stock = Inr (ms, mp_stabilized p)
    \<and> ms = proto_status (mp_status p) \<and> mp_client_id p = client \<and> mp_sequence_id p = pm_sequence_id req"
  using assms
  by (auto simp: prepare_proposal_def res_bind_Inr_iff)

section \<open>Physical inventory\<close>

definition physical :: "'d decimal_ops \<Rightarrow> string \<Rightarrow> string \<Rightarrow> bool" where
  "physical D qty u \<longleftrightarrow> (\<exists>dim. u = base_unit dim) \<and> (\<exists>d. d_from_str D qty = Some d \<and> \<not> d_is_sign_negative D d)"

definition items_physical :: "'d decimal_ops \<Rightarrow> fsm_view \<Rightarrow> bool" where
  "items_physical D v \<longleftrightarrow> (\<forall>k item. v_items v k = Some item \<longrightarrow> physical D (quantity item) (unit item))"

definition from_gateway :: "'d decimal_ops \<Rightarrow> committed_mutation \<Rightarrow> bool" where
  "from_gateway D m \<longleftrightarrow> (\<exists>config ob client req st p now.
     prepare_proposal D config ob client req st = Inr p \<and> m = mutation_of_proposal p now)"

lemma from_gateway_physical:
  assumes "decimal_text D" "from_gateway D m" "mutation_status_try_from (m_status m) = Some MCommitted" "\<not> m_is_delete m"
  shows "physical D (m_updated_base_quantity m) (m_base_unit m)"
proof -
  obtain config ob client req st p now where p: "prepare_proposal D config ob client req st = Inr p"
    and m: "m = mutation_of_proposal p now" using assms(2) by (auto simp: from_gateway_def)
  obtain stock ms where r: "resolve_semantic_mutation D (mo_relay ob) config (mp_intent p) stock = Inr (ms, mp_stabilized p)"
    "ms = proto_status (mp_status p)" using prepare_proposal_Inr[OF p] by blast
  have "mp_status p = PCommitted"
    using assms(3) by (cases "mp_status p") (simp_all add: m mutation_status_try_from_def)
  with r obtain veto where s: "validate_and_stabilize D (mp_intent p) veto stock = Inr (mp_stabilized p)"
    using resolve_attempts_cases[of D "mo_relay ob" "mp_intent p" stock 0 "ic_veto_max_retries config" ms "mp_stabilized p"]
    by (auto simp: resolve_semantic_mutation_def)
  have "si_operation (mp_intent p) \<noteq> OpDelete"
    using assms(4) by (simp add: m)
  with stabilize_Inr[OF s] obtain acc where "\<not> d_is_sign_negative D (pq_value acc)"
    "st_updated_base_quantity (mp_stabilized p) = d_to_string D (pq_value acc)"
    "st_base_unit (mp_stabilized p) = base_unit (pq_dimension acc)" by auto
  then show ?thesis
    using assms(1) by (auto simp: m physical_def decimal_text_def)
qed

lemma spec_apply_physical:
  assumes "decimal_text D" "items_physical D v" "decode_mutation c data = Some m" "from_gateway D m" "spec_apply c i data v = Some v'"
  shows "items_physical D v'"
  using assms from_gateway_physical[OF assms(1,4)]
  by (auto simp: items_physical_def spec_apply_def spec_commit_def Let_def item_from_mutation_def new_grocery_item_def
      split: option.splits if_splits mutation_status.splits)

text \<open>
  C22 Gateway and state machine together keep the inventory physical: when every entry of a log was prepared by the
  gateway's pipeline, whatever the requests, the inventories it read and the answers of the oracle were, then after applying the
  log every stored item has a quantity that parses as a decimal that is not negative and a unit that is the base unit of a dimension.
\<close>
theorem inventory_stays_physical:
  assumes "decimal_text D" "fsm_ready s" "items_physical D (fsm_abs s)"
    and "\<forall>(i, data) \<in> set es. \<exists>m. decode_mutation c data = Some m \<and> from_gateway D m"
    and "apply_all (fsm_apply c) es s = (r, s')"
  shows "items_physical D (fsm_abs s')"
  using assms(2-5)
proof (induction es arbitrary: s)
  case Nil
  then show ?case by (simp add: st_return_def)
next
  case (Cons e es)
  obtain i data where e: "e = (i, data)" by (cases e)
  obtain m where m: "decode_mutation c data = Some m" "from_gateway D m" using Cons.prems(3) e by auto
  obtain q s1 where run: "fsm_apply c i data s = (q, s1)" by (cases "fsm_apply c i data s")
  note refines = fsm_apply_refines[OF Cons.prems(1) run]
  show ?case
  proof (cases "spec_apply c i data (fsm_abs s)")
    case None
    with refines obtain err where "q = Inl err" "fsm_abs s1 = fsm_abs s" by auto
    with Cons.prems run e show ?thesis by (auto simp: st_bind_def)
  next
    case (Some v)
    with refines have "q = Inr ()" "fsm_abs s1 = v" "fsm_ready s1" by simp_all
    with Cons.prems run e Some spec_apply_physical[OF assms(1) Cons.prems(2) m Some] show ?thesis
      by (intro Cons.IH[of s1]) (auto simp: st_bind_def)
  qed
qed

section \<open>What the pipeline appends and answers\<close>

lemma handle_propose_mutation_cases:
  assumes "handle_propose_mutation D config c encode ob req w = (r, w')"
  obtains "w' = w" "\<forall>resp. r = Inr (Inr resp) \<longrightarrow> pr_status resp = mutation_status_int MRejected"
  | client resp where "parse_uuid c (pm_client_id req) = Some client" "w' = w" "r = Inr (Inr resp)"
      "enforce_sequence_firewall (\<lambda>k q. check_session k q (mo_session_fsm ob)) client (pm_sequence_id req) = Inr (Some resp)"
  | client p where "parse_uuid c (pm_client_id req) = Some client" "is_leader (mo_authority ob)" "\<not> auth_poisoned (mo_authority ob)"
      "enforce_sequence_firewall (\<lambda>k q. check_session k q (mo_session_fsm ob)) client (pm_sequence_id req) = Inr None"
      "prepare_proposal D config ob client req (mo_authority ob) = Inr p" "is_leader (mo_fresh ob)"
      "st_bind (commit_to_consensus encode (mo_now ob) (\<lambda>i. await_commit i (mo_closed ob) (mo_progress ob) (mo_changes ob)) p)
         (\<lambda>r. st_return (map_ok (\<lambda>idx. build_mutation_response idx (mp_status p) (st_moral_justification (mp_stabilized p))) r)) w = (r, w')"
proof (cases "parse_uuid c (pm_client_id req)")
  case None
  with assms that(1) show thesis by (auto simp: handle_propose_mutation_def st_return_def)
next
  case (Some client)
  note run = assms[unfolded handle_propose_mutation_def Some option.case authorize_mutation_def authorize_def]
  show thesis
  proof (cases "auth_poisoned (mo_authority ob) \<or> \<not> is_leader (mo_authority ob)")
    case True
    with run that(1) show thesis by (auto simp: st_return_def mutation_redirection_response_def split: if_splits)
  next
    case False
    show thesis
    proof (cases "enforce_sequence_firewall (\<lambda>k q. check_session k q (mo_session_fsm ob)) client (pm_sequence_id req)")
      case (Inl e)
      with run False that(1) show thesis by (auto simp: st_return_def)
    next
      case (Inr x)
      show thesis
      proof (cases x)
        case None
        with run False Inr have seq: "sequenced_mutation D config encode ob client req (mo_authority ob) w = (r, w')" by simp
        show thesis
        proof (cases "prepare_proposal D config ob client req (mo_authority ob)")
          case (Inl e)
          with seq that(1) show thesis by (auto simp: sequenced_mutation_def st_return_def)
        next
          case (Inr p)
          with seq that(1) that(3)[OF Some _ _ _ Inr] False \<open>enforce_sequence_firewall _ _ _ = Inr x\<close> None show thesis
            by (cases "is_leader (mo_fresh ob)") (auto simp: sequenced_mutation_def st_return_def mutation_redirection_response_def)
        qed
      next
        case (Some resp)
        with run False Inr that(2)[OF \<open>parse_uuid c (pm_client_id req) = Some client\<close>] show thesis by (auto simp: st_return_def)
      qed
    qed
  qed
qed

lemma commit_to_consensus_world: "snd (commit_to_consensus encode now wait p w) = snd (handle_propose (encode (mutation_of_proposal p now)) w)"
  by (auto simp: commit_to_consensus_def st_bind_def st_return_def split: prod.splits sum.splits)

lemma st_bind_return_snd: "snd (st_bind m (\<lambda>x. st_return (f x)) w) = snd (m w)"
  by (auto simp: st_bind_def st_return_def split: prod.splits sum.splits)

text \<open>
  What a proposal writes: nothing, or the one entry behind the end of the log, in the leader's term; and it reports an
  index only when it wrote that entry.
\<close>

definition proposed_store :: "bytes \<Rightarrow> log_store \<Rightarrow> log_store" where
  "proposed_store cmd d = set_log (entry_batch [new_log_entry (Suc (disk_last d)) (disk_term d) cmd]) d"

lemma leader_propose_writes:
  assumes "leader_propose cmd d = (r, d')"
  shows "d' = d \<and> (\<exists>e. r = Inl e) \<or> is_u64 (Suc (disk_last d)) \<and> d' = proposed_store cmd d \<and> (r = Inr (Suc (disk_last d)) \<or> (\<exists>e. r = Inl e))"
  using assms unfolding leader_propose_def
  by (auto simp: proposed_store_def node_read_Inr log_index_add_def checked_add_u64_def is_u64_def map_err_def
      split: sum.splits if_splits elim!: st_bind_cases node_writeE
      dest!: sled_last_log_index_Inr sled_current_term_Inr append_entries_cases) metis+

lemma read_keeps_store: "delegate_read f w = (r, w') \<Longrightarrow> snd w' = snd w \<and> (\<forall>x. r = Inr x \<longrightarrow> w' = w)"
  by (cases w) (auto simp: delegate_read_def apply_fatal_def set_role_def split: if_splits sum.splits)

lemma ln_propose_writes:
  assumes "ln_propose cmd w = (r, w')"
  shows "(snd w' = snd w \<or> is_u64 (Suc (disk_last (snd w))) \<and> snd w' = proposed_store cmd (snd w))
    \<and> (\<forall>idx. r = Inr (Inr idx) \<longrightarrow> (\<exists>n. role (fst w) = Leader n) \<and> idx = Suc (disk_last (snd w))
         \<and> is_u64 idx \<and> w' = (fst w, proposed_store cmd (snd w)))"
proof (cases "\<exists>n. role (fst w) = Leader n")
  case True
  then obtain n where n: "role (fst w) = Leader n" by blast
  obtain res d' where p: "leader_propose cmd (snd w) = (res, d')" by (cases "leader_propose cmd (snd w)")
  have same: "ln\<lparr>role := Leader n\<rparr> = ln" if "role ln = Leader n" for ln :: logical_node using that by (cases ln) simp
  have "st_bind (or_fatal res) (\<lambda>idx. st_bind ln_current_term (\<lambda>_. st_return (Inr idx))) (fst w, d') = (r, w')"
    using assms n p by (cases w) (simp add: ln_propose_def run_node_def on_disk_apply same)
  with leader_propose_writes[OF p] n show ?thesis
    by (auto simp: or_fatal_def apply_fatal_def set_role_def ln_current_term_def elim!: st_bind_cases dest!: read_keeps_store split: sum.splits)
next
  case False
  with assms show ?thesis
    by (cases "role (fst w)") (auto simp: ln_propose_def ln_voted_for_def elim!: st_bind_cases dest!: read_keeps_store)
qed

lemma handle_propose_writes:
  assumes "handle_propose cmd w = (r, w')"
  shows "(snd w' = snd w \<or> is_u64 (Suc (disk_last (snd w))) \<and> snd w' = proposed_store cmd (snd w))
    \<and> (\<forall>idx. r = Inr (Inr idx) \<longrightarrow> (\<exists>n. role (fst w) = Leader n) \<and> idx = Suc (disk_last (snd w))
         \<and> is_u64 idx \<and> w' = (fst w, proposed_store cmd (snd w)))"
  using assms unfolding handle_propose_def by (auto elim!: st_bind_cases dest!: ln_propose_writes simp: map_err_Inr_iff)

text \<open>
  C23 A mutation request leaves node and store alone, or it proposes one mutation: the one its own pipeline prepared from
  this request, the inventory it read and the oracle's answers to it, under the client and sequence id of the
  request. It does so only when the node led and was not poisoned at the
  authority check, the sequence firewall let the request through, and the node still led after the policy evaluation. Whatever
  fails, the log gains at most one entry: that mutation, encoded, right behind the end of the log and in the
  node's term.
\<close>
theorem ingress_appends:
  assumes "handle_propose_mutation D config c encode ob req w = (r, w')"
  shows "w' = w \<or> (\<exists>client p. parse_uuid c (pm_client_id req) = Some client
    \<and> is_leader (mo_authority ob) \<and> \<not> auth_poisoned (mo_authority ob) \<and> is_leader (mo_fresh ob)
    \<and> enforce_sequence_firewall (\<lambda>k q. check_session k q (mo_session_fsm ob)) client (pm_sequence_id req) = Inr None
    \<and> prepare_proposal D config ob client req (mo_authority ob) = Inr p
    \<and> mp_client_id p = client \<and> mp_sequence_id p = pm_sequence_id req
    \<and> w' = snd (handle_propose (encode (mutation_of_proposal p (mo_now ob))) w)
    \<and> snd w' \<in> {snd w, proposed_store (encode (mutation_of_proposal p (mo_now ob))) (snd w)})"
  using assms
proof (cases rule: handle_propose_mutation_cases)
  case (3 client p)
  let ?call = "handle_propose (encode (mutation_of_proposal p (mo_now ob))) w"
  have w': "w' = snd ?call"
    using 3(7) st_bind_return_snd commit_to_consensus_world by (metis snd_conv)
  have "snd w' \<in> {snd w, proposed_store (encode (mutation_of_proposal p (mo_now ob))) (snd w)}"
    using handle_propose_writes[of "encode (mutation_of_proposal p (mo_now ob))" w "fst ?call" w'] w' by auto
  moreover have "mp_client_id p = client" "mp_sequence_id p = pm_sequence_id req" using prepare_proposal_Inr[OF 3(5)] by auto
  ultimately show ?thesis using 3(1-6) w' by blast
qed simp_all

lemma firewall_answer:
  assumes "fsm_ready s" "enforce_sequence_firewall (\<lambda>k q. check_session k q s) client sq = Inr (Some resp)"
    and "pr_status resp \<noteq> mutation_status_int MRejected"
  shows "\<exists>rec. v_sessions (fsm_abs s) client = Some rec \<and> sr_last_sequence_id rec = sq \<and> resp = cached_response rec"
proof (cases "v_sessions (fsm_abs s) client")
  case None
  with assms show ?thesis
    using ledger.check_latest[OF assms(1), of client] by (auto simp: enforce_sequence_firewall_def rejection_def split: if_splits)
next
  case (Some rec)
  with assms show ?thesis
    using ledger.check_latest[OF assms(1), of client]
    by (auto simp: enforce_sequence_firewall_def rejection_def cached_response_def split: if_splits)
qed

text \<open>
  Where an answer that is not a rejection comes from: the record of this sequence id, or the request's own proposal and a value
  in which the node saw itself lead with that index committed.
\<close>

lemma ingress_answer_cases:
  assumes "handle_propose_mutation D config c encode ob req w = (Inr (Inr resp), w')"
    and "pr_status resp \<noteq> mutation_status_int MRejected" "fsm_ready (mo_session_fsm ob)"
  shows "\<exists>client. parse_uuid c (pm_client_id req) = Some client \<and>
    ((\<exists>rec. v_sessions (fsm_abs (mo_session_fsm ob)) client = Some rec \<and> sr_last_sequence_id rec = pm_sequence_id req
        \<and> resp = cached_response rec \<and> w' = w)
     \<or> (\<exists>p. prepare_proposal D config ob client req (mo_authority ob) = Inr p
        \<and> pr_status resp = mutation_status_int (proto_status (mp_status p))
        \<and> handle_propose (encode (mutation_of_proposal p (mo_now ob))) w = (Inr (Inr (pr_state_version resp)), w')
        \<and> (\<exists>progress \<in> set (mo_progress ob # mo_changes ob). p_role progress = RLeader
             \<and> pr_state_version resp \<le> p_last_committed progress)))"
  using assms(1)
proof (cases rule: handle_propose_mutation_cases)
  case 1
  with assms(2) show ?thesis by simp
next
  case (2 client resp')
  then have resp: "resp' = resp" by simp
  from 2(4) have "enforce_sequence_firewall (\<lambda>k q. check_session k q (mo_session_fsm ob)) client (pm_sequence_id req) = Inr (Some resp)"
    by (simp only: resp)
  from firewall_answer[OF assms(3) this assms(2)] 2(1,2) show ?thesis by blast
next
  case (3 client p)
  let ?call = "handle_propose (encode (mutation_of_proposal p (mo_now ob))) w"
  from 3(7) obtain idx where proposed: "?call = (Inr (Inr idx), w')"
    and wait: "await_commit idx (mo_closed ob) (mo_progress ob) (mo_changes ob) = Some (Inr ())"
    and resp: "resp = build_mutation_response idx (mp_status p) (st_moral_justification (mp_stabilized p))"
    by (cases ?call) (auto simp: commit_to_consensus_def st_bind_def st_return_def map_ok_Inr_iff res_bind_Inr_iff ok_or_Inr_iff map_err_Inr_iff
      split: sum.splits)
  from wait have "\<exists>progress \<in> set (mo_progress ob # mo_changes ob). p_role progress = RLeader \<and> idx \<le> p_last_committed progress"
    unfolding await_commit_Ok_iff by (metis length_Cons less_Suc_eq_le nth_mem)
  with 3(1,5) proposed resp show ?thesis by (auto simp: build_mutation_response_def)
qed

section \<open>Concrete run\<close>

definition sample_authority :: consensus_authority where
  "sample_authority = \<lparr>is_leader = True, auth_poisoned = False, auth_last_committed = 0, auth_leader_hint = [], rejection_reason = []\<rparr>"

definition sample_obs :: "fsm_store \<Rightarrow> mutation_obs" where
  "sample_obs s = \<lparr>mo_authority = sample_authority, mo_session_fsm = s, mo_inventory_fsm = s, mo_relay = (\<lambda>_ _ _. Inr sample_veto),
     mo_fresh = sample_authority, mo_now = zero_timestamp, mo_progress = sample_progress 1,
     mo_changes = [(sample_progress 1)\<lparr>p_last_committed := 3\<rparr>], mo_closed = False\<rparr>"

definition sample_request :: "string \<Rightarrow> string \<Rightarrow> propose_mutation_request" where
  "sample_request client qty = new_propose_mutation_request client 1 (new_mutation_intent ''milk'' (Some qty) None None OAdd)"

definition sample_config :: ingress_config where
  "sample_config = \<lparr>ic_veto_max_retries = 0, ic_max_justification_len = 100\<rparr>"

definition sample_proposal :: "string \<Rightarrow> string \<Rightarrow> string \<Rightarrow> mutation_proposal" where
  "sample_proposal client qty stored = \<lparr>mp_client_id = client, mp_sequence_id = 1, mp_intent = sample_intent OpAdd qty,
     mp_stabilized = sample_stabilized stored, mp_raw_user_input = ''Add '' @ qty @ '' milk'', mp_status = PCommitted,
     mp_consensus_status = sample_authority\<rparr>"

lemma sample_text:
  "trim ''milk'' = ''milk''" "to_lowercase ''milk'' = ''milk''" "trim ''3'' = ''3''"
  "join '' '' (split_whitespace ''Add 3  milk'') = ''Add 3 milk''"
  by code_simp+

lemma sample_normalize: "normalize_intent whole_numbers (new_mutation_intent ''milk'' (Some ''3'') None None OAdd) = Inr (sample_intent OpAdd ''3'')"
proof -
  have "d_from_str whole_numbers ''3'' = Some 3" "\<not> d_is_sign_negative whole_numbers 3"
    using whole_number_text[of 3] by (simp_all only: digits_1) (simp_all add: whole_numbers_def)
  then show ?thesis
    by (simp add: normalize_intent_def new_mutation_intent_def sample_text non_empty_def check_quantity_def check_category_def
        parse_operation_def operation_type_try_from_def sample_intent_def)
qed

lemma sample_raw: "format_raw_input_from_proto (new_mutation_intent ''milk'' (Some ''3'') None None OAdd) = ''Add 3 milk''"
  using sample_text(4) by (simp add: format_raw_input_from_proto_def new_mutation_intent_def operation_type_try_from_def)

lemma sample_resolve:
  "validate_and_stabilize whole_numbers intent sample_veto stock = Inr s \<Longrightarrow>
     resolve_semantic_mutation whole_numbers (\<lambda>_ _ _. Inr sample_veto) sample_config intent stock = Inr (MCommitted, s)"
  by (simp add: resolve_semantic_mutation_def resolve_attempts.simps evaluate_policy_def sample_veto_def sample_config_def)

lemma sample_prepare:
  assumes "get_inventory s = Inr stock" "validate_and_stabilize whole_numbers (sample_intent OpAdd ''3'') sample_veto stock = Inr (sample_stabilized stored)"
  shows "prepare_proposal whole_numbers sample_config (sample_obs s) client (sample_request client ''3'') sample_authority
    = Inr (sample_proposal client ''3'' stored)"
  using assms sample_resolve[OF assms(2)] sample_raw
  by (simp add: prepare_proposal_def sample_request_def new_propose_mutation_request_def sample_normalize sample_obs_def
      sample_proposal_def resolve_status_def)

lemma sample_fsm_reads: "get_inventory empty_fsm = Inr []"
  by (simp add: get_inventory_def check_not_poisoned_def empty_fsm_def map_filter_simps)

lemma sample_prepare_empty:
  "prepare_proposal whole_numbers sample_config (sample_obs empty_fsm) client (sample_request client ''3'') sample_authority
    = Inr (sample_proposal client ''3'' ''3'')"
proof -
  have "validate_and_stabilize whole_numbers (sample_intent OpAdd ''3'') sample_veto [] = Inr (sample_stabilized ''3'')"
    using sample_stabilize_new[of 3 OpAdd] by (simp add: digits_1)
  then show ?thesis by (rule sample_prepare[OF sample_fsm_reads])
qed

theorem inventory_stays_physical_witness:
  "\<exists>s' item. apply_all (fsm_apply (sample_codec\<lparr>decode_mutation := \<lambda>_. Some (mutation_of_proposal (sample_proposal ''c1'' ''3'' ''3'') zero_timestamp)\<rparr>))
       [(1, [])] empty_fsm = (Inr (), s') \<and> v_items (fsm_abs s') ''milk'' = Some item \<and> items_physical whole_numbers (fsm_abs s')"
proof -
  let ?m = "mutation_of_proposal (sample_proposal ''c1'' ''3'' ''3'') zero_timestamp"
  let ?c = "sample_codec\<lparr>decode_mutation := \<lambda>_. Some ?m\<rparr>"
  have "\<exists>v item. spec_apply ?c 1 [] (fsm_abs empty_fsm) = Some v \<and> v_items v ''milk'' = Some item"
    by (simp add: spec_apply_def spec_commit_def sample_codec_def sample_proposal_def sample_stabilized_def sample_intent_def fsm_abs_def empty_fsm_def
        last_seen_def tree_get_def Let_def mutation_status_try_from_def is_u64_def u64_bound_def mutation_of_proposal_def
        new_committed_mutation_def)
  then obtain s1 item where s1: "fsm_apply ?c 1 [] empty_fsm = (Inr (), s1)" "v_items (fsm_abs s1) ''milk'' = Some item"
    using fsm_apply_runs[OF empty_fsm_ready] by metis
  then have run: "apply_all (fsm_apply ?c) [(1, [])] empty_fsm = (Inr (), s1)" by (simp add: st_bind_def)
  have "from_gateway whole_numbers ?m" unfolding from_gateway_def using sample_prepare_empty by blast
  moreover have "items_physical whole_numbers (fsm_abs empty_fsm)"
    by (simp add: items_physical_def fsm_abs_def empty_fsm_def tree_get_def)
  ultimately have "items_physical whole_numbers (fsm_abs s1)"
    using inventory_stays_physical[OF whole_numbers_text empty_fsm_ready _ _ run] by simp
  with run s1(2) show ?thesis by blast
qed

text \<open>The same request at a leader with a log of two entries.\<close>

lemma sample_handle:
  "handle_propose_mutation whole_numbers sample_config sample_codec encode (sample_obs empty_fsm) (sample_request ''c1'' ''3'')
      (sample_node (Leader sample_leader), sample_store 1) = (Inr (Inr (build_mutation_response 3 PCommitted [])),
      sample_node (Leader sample_leader),
      proposed_store (encode (mutation_of_proposal (sample_proposal ''c1'' ''3'' ''3'') zero_timestamp)) (sample_store 1))"
proof -
  let ?w = "(sample_node (Leader sample_leader), sample_store 1)"
  let ?cmd = "encode (mutation_of_proposal (sample_proposal ''c1'' ''3'' ''3'') zero_timestamp)"
  have u: "is_u64 1" "is_u64 3" by (simp_all add: is_u64_def u64_bound_def)
  have fw: "enforce_sequence_firewall (\<lambda>k q. check_session k q empty_fsm) ''c1'' 1 = Inr None"
    using ledger.firewall_passes_iff[OF empty_fsm_ready] by (simp add: latest_def fsm_abs_def empty_fsm_def tree_get_def)
  have "Suc (disk_last (sample_store 1)) = 3" by simp
  then have prop3: "handle_propose ?cmd ?w = (Inr (Inr 3), fst ?w, proposed_store ?cmd (snd ?w))"
    using ln_propose_leader[of "sample_store 1" "sample_node (Leader sample_leader)" sample_leader ?cmd] u
    by (simp add: handle_propose_def st_bind_def st_return_def sample_node_def proposed_store_def del: One_nat_def)
  have wait: "await_commit 3 False (sample_progress 1) [(sample_progress 1)\<lparr>p_last_committed := 3\<rparr>] = Some (Inr ())"
    by (simp add: await_commit.simps sample_progress_def)
  have p: "prepare_proposal whole_numbers sample_config (sample_obs empty_fsm) ''c1'' (sample_request ''c1'' ''3'') sample_authority
      = Inr (sample_proposal ''c1'' ''3'' ''3'')" by (rule sample_prepare_empty)
  have ob: "mo_authority (sample_obs empty_fsm) = sample_authority" "mo_session_fsm (sample_obs empty_fsm) = empty_fsm"
    "mo_fresh (sample_obs empty_fsm) = sample_authority" "mo_now (sample_obs empty_fsm) = zero_timestamp"
    "mo_progress (sample_obs empty_fsm) = sample_progress 1" "mo_closed (sample_obs empty_fsm) = False"
    "mo_changes (sample_obs empty_fsm) = [(sample_progress 1)\<lparr>p_last_committed := 3\<rparr>]"
    by (simp_all add: sample_obs_def)
  have "authorize_mutation sample_authority = Authorized sample_authority" "is_leader sample_authority"
    by (simp_all add: authorize_mutation_def authorize_def sample_authority_def)
  moreover have "pm_client_id (sample_request ''c1'' ''3'') = ''c1''" "pm_sequence_id (sample_request ''c1'' ''3'') = 1"
    "parse_uuid sample_codec ''c1'' = Some ''c1''"
    by (simp_all add: sample_codec_def sample_request_def new_propose_mutation_request_def)
  moreover have "mp_status (sample_proposal ''c1'' ''3'' ''3'') = PCommitted"
    "st_moral_justification (mp_stabilized (sample_proposal ''c1'' ''3'' ''3'')) = []"
    by (simp_all add: sample_proposal_def sample_stabilized_def)
  ultimately show ?thesis
    using fw prop3 wait
    by (simp add: handle_propose_mutation_def sequenced_mutation_def p ob commit_to_consensus_def st_bind_def st_return_def del: One_nat_def)
qed

theorem ingress_appends_witness:
  "\<exists>w' p. handle_propose_mutation whole_numbers sample_config sample_codec (\<lambda>m. [of_nat (m_sequence_id m)]) (sample_obs empty_fsm)
        (sample_request ''c1'' ''3'') (sample_node (Leader sample_leader), sample_store 1)
      = (Inr (Inr (build_mutation_response 3 PCommitted [])), w')
    \<and> prepare_proposal whole_numbers sample_config (sample_obs empty_fsm) ''c1'' (sample_request ''c1'' ''3'') sample_authority = Inr p
    \<and> mp_sequence_id p = 1 \<and> disk_entry (snd w') 3 = Some (new_log_entry 3 1 [of_nat (mp_sequence_id p)])"
proof -
  let ?enc = "\<lambda>m. [of_nat (m_sequence_id m)] :: bytes" and ?w = "(sample_node (Leader sample_leader), sample_store 1)"
  let ?d = "\<lambda>x. proposed_store x (sample_store 1)"
  have new: "disk_entry (?d x) 3 = Some (new_log_entry 3 1 x)" for x
    using disk_entry_append_log[of "sample_store 1" "[new_log_entry 3 1 x]" 3]
    by (simp add: proposed_store_def consecutive_def new_log_entry_def)
  have old: "disk_entry (sample_store 1) 3 = None" by (simp add: disk_entry_def tree_get_def sample_store_def sample_defs)
  have ne: "?d x \<noteq> sample_store 1" for x using new[of x] old by (metis option.distinct(1))
  note run = sample_handle[of ?enc]
  obtain p where "prepare_proposal whole_numbers sample_config (sample_obs empty_fsm) ''c1'' (sample_request ''c1'' ''3'') sample_authority = Inr p"
    "mp_sequence_id p = 1" "?d (?enc (mutation_of_proposal (sample_proposal ''c1'' ''3'' ''3'') zero_timestamp)) \<in> {sample_store 1, ?d (?enc (mutation_of_proposal p zero_timestamp))}"
    using ingress_appends[OF run] ne
    by (auto simp: sample_obs_def sample_codec_def sample_request_def new_propose_mutation_request_def)
  then show ?thesis using run new ne by auto
qed

end
