(* ===== verification/Schedules.thy ===== *)
theory Schedules
  imports Ingress_Properties
begin

text \<open>
  Schedules of the ingress pipeline that its mutation lock does not order. The lock is held until the proposal is
  committed, the inventory is read from what is applied: the theorems show two additions of which one is
  lost, a subtraction that creates stock, and what the fence of a query guarantees with and without a
  minimum version. The bound on the justification text the relay passes on is here too.
\<close>

section \<open>Entries of the pipeline at the state machine\<close>

lemma find_inventory:
  assumes "fsm_ready s" "fsm_keyed s" "get_inventory s = Inr stock"
  shows "find_item k stock = v_items (fsm_abs s) k"
proof -
  have "List.map_filter (decode_inventory_entry s) kvs = map snd kvs" for kvs
    using assms(1) by (induction kvs) (auto simp: map_filter_simps decode_inventory_entry_def fsm_ready_def)
  with assms have "stock = map snd (inventory s)"
    by (auto simp: get_inventory_def check_not_poisoned_def fsm_ready_def)
  moreover have "find_item k (map snd kvs) = map_of kvs k" if "\<forall>(k, it) \<in> set kvs. item_key it = k" for kvs
    using that by (induction kvs) (auto simp: find_item_def)
  ultimately show ?thesis using assms(2) by (simp add: fsm_keyed_def fsm_abs_def tree_get_def)
qed

text \<open>A proposal that passed the firewall against the ledger, decoded and applied next.\<close>

definition next_entry :: "fsm_codec \<Rightarrow> bytes \<Rightarrow> mutation_proposal \<Rightarrow> fsm_view \<Rightarrow> bool" where
  "next_entry c data p v \<longleftrightarrow> (\<exists>now. decode_mutation c data = Some (mutation_of_proposal p now))
     \<and> parse_uuid c (mp_client_id p) \<noteq> None \<and> mp_sequence_id p = Suc (last_seen v (mp_client_id p)) \<and> is_u64 (mp_sequence_id p)
     \<and> mp_status p = PCommitted"

lemma spec_apply_next:
  assumes "next_entry c data p v" "i = Suc (v_applied v)" "is_u64 i" "si_operation (mp_intent p) \<noteq> OpDelete"
  shows "\<exists>v' item. spec_apply c i data v = Some v' \<and> v_items v' = (v_items v)(st_resolved_item_key (mp_stabilized p) \<mapsto> item)
    \<and> quantity item = st_updated_base_quantity (mp_stabilized p) \<and> unit item = st_base_unit (mp_stabilized p)
    \<and> v_applied v' = i \<and> (\<forall>k. k \<noteq> mp_client_id p \<longrightarrow> last_seen v' k = last_seen v k)"
proof -
  obtain now cid where "decode_mutation c data = Some (mutation_of_proposal p now)" "parse_uuid c (mp_client_id p) = Some cid"
    using assms(1) by (auto simp: next_entry_def)
  then show ?thesis
    using assms by (auto simp: next_entry_def spec_apply_def spec_commit_def mutation_status_try_from_def last_seen_def Let_def
        item_from_mutation_def new_grocery_item_def split: option.splits)
qed

lemma committed_stabilized:
  assumes "prepare_proposal D config ob client req st = Inr p" "mp_status p = PCommitted"
    and "get_inventory (mo_inventory_fsm ob) = Inr stock"
  shows "\<exists>veto. validate_and_stabilize D (mp_intent p) veto stock = Inr (mp_stabilized p)"
proof -
  obtain ms where "resolve_semantic_mutation D (mo_relay ob) config (mp_intent p) stock = Inr (ms, mp_stabilized p)"
    "ms = proto_status (mp_status p)" using prepare_proposal_Inr[OF assms(1)] assms(3) by auto
  then show ?thesis
    using assms(2) resolve_attempts_cases[of D "mo_relay ob" "mp_intent p" stock 0 "ic_veto_max_retries config" ms "mp_stabilized p"]
    by (auto simp: resolve_semantic_mutation_def)
qed

section \<open>A lost update\<close>

text \<open>
  C35 Two additions to the same item by different clients, prepared against the same applied state, lose one: the mutation
  lock orders the two commits but the second request reads the inventory before the first is applied. Both entries
  apply without an error, and the item ends with the old quantity plus the second amount only.
\<close>
theorem lost_update:
  assumes "fsm_ready s" "fsm_keyed s" "mo_inventory_fsm ob1 = s" "mo_inventory_fsm ob2 = s"
    and p1: "prepare_proposal D config ob1 client1 req1 st1 = Inr p1" "next_entry c data1 p1 (fsm_abs s)" "si_operation (mp_intent p1) = OpAdd"
    and p2: "prepare_proposal D config ob2 client2 req2 st2 = Inr p2" "next_entry c data2 p2 (fsm_abs s)" "si_operation (mp_intent p2) = OpAdd"
    and "client1 \<noteq> client2"
    and key: "st_resolved_item_key (mp_stabilized p1) = k" "st_resolved_item_key (mp_stabilized p2) = k"
    and old: "v_items (fsm_abs s) k = Some item" "parse_and_convert D (quantity item) (unit item) = Inr e"
    and i: "i = Suc (v_applied (fsm_abs s))" "is_u64 (Suc i)"
  shows "\<exists>s' stored (veto :: veto_outcome) q2 qty2 total_value.
      apply_all (fsm_apply c) [(i, data1), (Suc i, data2)] s = (Inr (), s') \<and> v_items (fsm_abs s') k = Some stored
    \<and> si_quantity (mp_intent p2) = Some qty2
    \<and> verify_unit_stabilization D qty2 (vo_resolved_unit veto) (vo_conversion_multiplier_to_base veto) = Inr q2
    \<and> d_checked_add D (pq_value e) (pq_value q2) = Some total_value \<and> quantity stored = d_to_string D total_value
    \<and> quantity stored = st_updated_base_quantity (mp_stabilized p2)"
proof -
  obtain stock where stock: "get_inventory s = Inr stock" using prepare_proposal_Inr[OF p1(1)] assms(3) by auto
  have "mp_status p2 = PCommitted" using p2(2) by (simp add: next_entry_def)
  then obtain veto where "validate_and_stabilize D (mp_intent p2) veto stock = Inr (mp_stabilized p2)"
    using committed_stabilized[OF p2(1)] stock assms(4) by auto
  from stabilize_Inr[OF this] p2(3) obtain qty2 q2 acc where "si_quantity (mp_intent p2) = Some qty2"
    "verify_unit_stabilization D qty2 (vo_resolved_unit veto) (vo_conversion_multiplier_to_base veto) = Inr q2"
    and acc: "accumulates D OpAdd (find_item k stock) q2 acc"
    and stored: "st_updated_base_quantity (mp_stabilized p2) = d_to_string D (pq_value acc)"
    using key(2) by auto
  moreover have "d_checked_add D (pq_value e) (pq_value q2) = Some (pq_value acc)"
    using acc find_inventory[OF assms(1,2) stock, of k] old by (simp add: accumulates_def)
  moreover have clients: "mp_client_id p1 = client1" "mp_client_id p2 = client2"
    using prepare_proposal_Inr[OF p1(1)] prepare_proposal_Inr[OF p2(1)] by auto
  obtain v1 where v1: "spec_apply c i data1 (fsm_abs s) = Some v1" "v_applied v1 = i" "last_seen v1 client2 = last_seen (fsm_abs s) client2"
    using spec_apply_next[OF p1(2) i(1)] i(2) p1(3) clients assms(11) is_u64_le by (metis lessI less_imp_le operation.distinct(5))
  obtain r1 s1 where run1: "fsm_apply c i data1 s = (r1, s1)" by fastforce
  then have s1: "r1 = Inr ()" "fsm_abs s1 = v1" "fsm_ready s1" using fsm_apply_refines[OF assms(1) run1] v1(1) by simp_all
  have "next_entry c data2 p2 v1" using p2(2) v1(3) clients by (auto simp: next_entry_def)
  from spec_apply_next[OF this, of "Suc i"] i(2) p2(3) v1(2) obtain v2 stored where v2: "spec_apply c (Suc i) data2 v1 = Some v2"
    "v_items v2 k = Some stored" "quantity stored = st_updated_base_quantity (mp_stabilized p2)" using key(2) by auto
  obtain r2 s2 where run2: "fsm_apply c (Suc i) data2 s1 = (r2, s2)" by fastforce
  then have "r2 = Inr ()" "fsm_abs s2 = v2" using fsm_apply_refines[OF s1(3) run2] v2(1) s1(2) by simp_all
  then have "apply_all (fsm_apply c) [(i, data1), (Suc i, data2)] s = (Inr (), s2)" "v_items (fsm_abs s2) k = Some stored"
    using run1 run2 s1(1) v2(2) by (simp_all add: st_bind_def st_return_def)
  ultimately show ?thesis
    using v2(3) stored
    by (intro exI[of _ s2] exI[of _ stored] exI[of _ veto] exI[of _ q2] exI[of _ qty2] exI[of _ "pq_value acc"]) simp
qed

text \<open>Five of milk in stock, and two clients that each add three.\<close>

definition stocked_fsm :: fsm_store where
  "stocked_fsm = empty_fsm\<lparr>inventory := [(''milk'', sample_item ''5'')]\<rparr>"

lemma stocked_simps:
  "fsm_ready stocked_fsm" "fsm_keyed stocked_fsm" "get_inventory stocked_fsm = Inr [sample_item ''5'']"
  "v_items (fsm_abs stocked_fsm) ''milk'' = Some (sample_item ''5'')" "v_applied (fsm_abs stocked_fsm) = 0"
  "last_seen (fsm_abs stocked_fsm) k = 0"
  by (simp_all add: stocked_fsm_def empty_fsm_def fsm_ready_def fsm_healthy_def fsm_trees_ok_def fsm_keyed_def get_inventory_def
      check_not_poisoned_def map_filter_simps decode_inventory_entry_def fsm_abs_def tree_get_def last_seen_def
      sample_item_def new_grocery_item_def)

definition two_entries :: fsm_codec where
  "two_entries = sample_codec\<lparr>decode_mutation := \<lambda>data.
     Some (mutation_of_proposal (sample_proposal (if data = [1] then ''c1'' else ''c2'') ''3'' ''8'') zero_timestamp)\<rparr>"

lemma two_entries_next:
  "next_entry two_entries [1] (sample_proposal ''c1'' ''3'' ''8'') (fsm_abs stocked_fsm)"
  "next_entry two_entries [2] (sample_proposal ''c2'' ''3'' ''8'') (fsm_abs stocked_fsm)"
  by (auto simp: next_entry_def two_entries_def sample_codec_def stocked_simps sample_proposal_def is_u64_def u64_bound_def)

lemma stocked_prepare:
  "prepare_proposal whole_numbers sample_config (sample_obs stocked_fsm) client (sample_request client ''3'') sample_authority
    = Inr (sample_proposal client ''3'' ''8'')"
proof -
  have "validate_and_stabilize whole_numbers (sample_intent OpAdd ''3'') sample_veto [sample_item ''5''] = Inr (sample_stabilized ''8'')"
    using sample_stabilize[of 3 5] by (simp add: digits_1)
  then show ?thesis by (rule sample_prepare[OF stocked_simps(3)])
qed

theorem lost_update_witness:
  "\<exists>s' stored. apply_all (fsm_apply two_entries) [(1, [1]), (2, [2])] stocked_fsm = (Inr (), s')
    \<and> v_items (fsm_abs s') ''milk'' = Some stored \<and> quantity stored = ''8''"
proof -
  have sample: "si_operation (mp_intent (sample_proposal client ''3'' ''8'')) = OpAdd"
    "st_resolved_item_key (mp_stabilized (sample_proposal client ''3'' ''8'')) = ''milk''"
    "st_updated_base_quantity (mp_stabilized (sample_proposal client ''3'' ''8'')) = ''8''" for client
    by (simp_all add: sample_proposal_def sample_intent_def sample_stabilized_def)
  have "parse_and_convert whole_numbers (quantity (sample_item ''5'')) (unit (sample_item ''5'')) = Inr (QVolume 5)"
    using sample_parse[of 5] by (simp add: sample_item_def new_grocery_item_def digits_1)
  moreover have "is_u64 (Suc 1)" by (simp add: is_u64_def u64_bound_def)
  ultimately have "\<exists>s' stored. apply_all (fsm_apply two_entries) [(1, [1]), (Suc 1, [2])] stocked_fsm = (Inr (), s')
      \<and> v_items (fsm_abs s') ''milk'' = Some stored \<and> quantity stored = ''8''"
    using lost_update[OF stocked_simps(1,2) _ _ stocked_prepare two_entries_next(1) sample(1) stocked_prepare two_entries_next(2) sample(1)
      _ sample(2) sample(2) stocked_simps(4), of "QVolume 5" 1]
    by (simp add: sample_obs_def stocked_simps sample(3)) blast
  then show ?thesis by (simp add: numeral_2_eq_2)
qed

section \<open>Subtracting what is not there\<close>

text \<open>
  A subtraction from an item that is not in stock is not refused: when such a request commits, applying it stores
  the item with the amount that was to be taken away, a positive quantity.
\<close>
theorem subtract_creates:
  assumes "fsm_ready s" "fsm_keyed s" "mo_inventory_fsm ob = s"
    and p: "prepare_proposal D config ob client req st = Inr p" "next_entry c data p (fsm_abs s)" "si_operation (mp_intent p) = OpSubtract"
    and absent: "v_items (fsm_abs s) (st_resolved_item_key (mp_stabilized p)) = None"
    and i: "i = Suc (v_applied (fsm_abs s))" "is_u64 i"
  shows "\<exists>s' stored (veto :: veto_outcome) qty q. fsm_apply c i data s = (Inr (), s')
    \<and> v_items (fsm_abs s') (st_resolved_item_key (mp_stabilized p)) = Some stored \<and> si_quantity (mp_intent p) = Some qty
    \<and> verify_unit_stabilization D qty (vo_resolved_unit veto) (vo_conversion_multiplier_to_base veto) = Inr q
    \<and> quantity stored = d_to_string D (pq_value q) \<and> \<not> d_is_sign_negative D (pq_value q) \<and> \<not> d_is_zero D (pq_value q)"
proof -
  obtain stock where stock: "get_inventory s = Inr stock" using prepare_proposal_Inr[OF p(1)] assms(3) by auto
  have "mp_status p = PCommitted" using p(2) by (simp add: next_entry_def)
  then obtain veto where val: "validate_and_stabilize D (mp_intent p) veto stock = Inr (mp_stabilized p)"
    using committed_stabilized[OF p(1)] stock assms(3) by auto
  with stabilize_Inr[OF val] p(3) obtain qty q acc where q: "si_quantity (mp_intent p) = Some qty"
    "verify_unit_stabilization D qty (vo_resolved_unit veto) (vo_conversion_multiplier_to_base veto) = Inr q"
    and "accumulates D OpSubtract (find_item (st_resolved_item_key (mp_stabilized p)) stock) q acc"
    and text_acc: "st_updated_base_quantity (mp_stabilized p) = d_to_string D (pq_value acc)" by auto
  then have "acc = q" using find_inventory[OF assms(1,2) stock] absent by (simp add: accumulates_def)
  moreover obtain v' item where v': "spec_apply c i data (fsm_abs s) = Some v'"
    "v_items v' (st_resolved_item_key (mp_stabilized p)) = Some item" "quantity item = st_updated_base_quantity (mp_stabilized p)"
    using spec_apply_next[OF p(2) i] p(3) by auto
  moreover obtain r s' where run: "fsm_apply c i data s = (r, s')" by fastforce
  moreover have "r = Inr ()" "fsm_abs s' = v'" using fsm_apply_refines[OF assms(1) run] v'(1) by simp_all
  ultimately show ?thesis using q text_acc unit_stabilization_Inr[OF q(2)] 
    by (intro exI[of _ s'] exI[of _ item] exI[of _ veto] exI[of _ qty] exI[of _ q]) simp
qed

text \<open>Three of milk taken out of an empty inventory.\<close>

definition subtract_request :: propose_mutation_request where
  "subtract_request = new_propose_mutation_request ''c1'' 1 (new_mutation_intent ''milk'' (Some ''3'') None None OSubtract)"

definition subtract_proposal :: mutation_proposal where
  "subtract_proposal = (sample_proposal ''c1'' ''3'' ''3'')\<lparr>mp_intent := sample_intent OpSubtract ''3'', mp_raw_user_input := ''Sub 3 milk''\<rparr>"

lemma subtract_prepare:
  "prepare_proposal whole_numbers sample_config (sample_obs empty_fsm) ''c1'' subtract_request sample_authority = Inr subtract_proposal"
proof -
  have "normalize_intent whole_numbers (new_mutation_intent ''milk'' (Some ''3'') None None OSubtract) = Inr (sample_intent OpSubtract ''3'')"
    using sample_normalize
    by (simp add: normalize_intent_def new_mutation_intent_def sample_text non_empty_def check_category_def
        parse_operation_def operation_type_try_from_def sample_intent_def res_bind_Inr_iff Let_def)
  moreover have "format_raw_input_from_proto (new_mutation_intent ''milk'' (Some ''3'') None None OSubtract) = ''Sub 3 milk''"
  proof -
    have "join '' '' (split_whitespace ''Sub 3  milk'') = ''Sub 3 milk''" by code_simp
    then show ?thesis by (simp add: format_raw_input_from_proto_def new_mutation_intent_def operation_type_try_from_def)
  qed
  moreover have "resolve_semantic_mutation whole_numbers (\<lambda>_ _ _. Inr sample_veto) sample_config (sample_intent OpSubtract ''3'') []
      = Inr (MCommitted, sample_stabilized ''3'')"
    using sample_stabilize_new[of 3 OpSubtract] by (intro sample_resolve) (simp add: digits_1)
  ultimately show ?thesis
    by (simp add: prepare_proposal_def subtract_request_def new_propose_mutation_request_def sample_obs_def subtract_proposal_def
        sample_proposal_def resolve_status_def sample_fsm_reads)
qed

theorem subtract_creates_witness:
  "\<exists>s' stored. fsm_apply (sample_codec\<lparr>decode_mutation := \<lambda>_. Some (mutation_of_proposal subtract_proposal zero_timestamp)\<rparr>) 1 [] empty_fsm
     = (Inr (), s') \<and> v_items (fsm_abs s') ''milk'' = Some stored"
proof -
  let ?c = "sample_codec\<lparr>decode_mutation := \<lambda>_. Some (mutation_of_proposal subtract_proposal zero_timestamp)\<rparr>"
  have "fsm_keyed empty_fsm" "mo_inventory_fsm (sample_obs empty_fsm) = empty_fsm" "1 = Suc (v_applied (fsm_abs empty_fsm))"
    "v_items (fsm_abs empty_fsm) ''milk'' = None" "last_seen (fsm_abs empty_fsm) ''c1'' = 0"
    by (simp_all add: fsm_keyed_def empty_fsm_def sample_obs_def fsm_abs_def tree_get_def last_seen_def)
  moreover have p: "si_operation (mp_intent subtract_proposal) = OpSubtract"
    "st_resolved_item_key (mp_stabilized subtract_proposal) = ''milk''" "is_u64 1"
    by (simp_all add: subtract_proposal_def sample_intent_def sample_proposal_def sample_stabilized_def is_u64_def u64_bound_def)
  moreover from calculation have "next_entry ?c [] subtract_proposal (fsm_abs empty_fsm)"
    by (auto simp: next_entry_def sample_codec_def subtract_proposal_def sample_proposal_def)
  ultimately show ?thesis
    using subtract_creates[OF empty_fsm_ready _ _ subtract_prepare, of ?c "[]" 1] by (metis (no_types))
qed

section \<open>The fence of a query\<close>

text \<open>
  A query that succeeds was answered by a node that led, was not poisoned and proved its leadership with a quorum, from
  items the state machine holds. When it asked for a minimum version, that version was committed and the node saw it
  applied before it read. When it did not, nothing ties the answer to the log: it is the same whatever is
  committed and however far the node has applied.
\<close>
theorem query_fence:
  assumes "handle_query_state D ob req = Inr resp" "qr_status resp = query_status_int QSuccess"
  shows "is_leader (qo_authority ob) \<and> \<not> auth_poisoned (qo_authority ob) \<and> qo_verified ob = Inr ()
    \<and> (\<exists>items. get_inventory (qo_items_fsm ob) = Inr items \<and> set (qr_items resp) \<subseteq> display_item D ` set items)
    \<and> (\<forall>version. qs_min_state_version req = Some version \<longrightarrow> version \<le> auth_last_committed (qo_authority ob)
        \<and> (\<exists>progress \<in> set (qo_progress ob # qo_changes ob). version \<le> p_last_applied progress))
    \<and> (qs_min_state_version req = None \<longrightarrow> handle_query_state D
         (ob\<lparr>qo_authority := (qo_authority ob)\<lparr>auth_last_committed := n\<rparr>, qo_progress := progress', qo_changes := changes'\<rparr>) req = Inr resp)"
proof -
  have auth: "is_leader (qo_authority ob)" "\<not> auth_poisoned (qo_authority ob)" "qo_verified ob = Inr ()"
    and fence: "consistency_fence ob (qo_authority ob) (qs_min_state_version req) = Inr ()"
    and read: "read_ledger D ob (qs_query_filter req) = Inr resp"
    using assms by (auto simp: handle_query_state_def authorize_query_def authorize_def query_redirection_response_def res_bind_Inr_iff
      split: if_splits sum.splits consensus_error.splits)
  from read have "\<exists>items. get_inventory (qo_items_fsm ob) = Inr items \<and> set (qr_items resp) \<subseteq> display_item D ` set items"
    by (auto simp: read_ledger_def res_bind_Inr_iff split: option.splits)
  moreover have "version \<le> auth_last_committed (qo_authority ob) \<and> (\<exists>progress \<in> set (qo_progress ob # qo_changes ob). version \<le> p_last_applied progress)"
    if v: "qs_min_state_version req = Some version" for version
  proof -
    from fence v have "version \<le> auth_last_committed (qo_authority ob)"
      and "await_apply version (qo_closed ob) (qo_progress ob) (qo_changes ob) = Some (Inr ())"
      by (auto simp: consistency_fence_def split: if_splits option.splits)
    then show ?thesis unfolding await_apply_Ok_iff by (metis length_Cons less_Suc_eq_le nth_mem)
  qed
  moreover have "handle_query_state D
      (ob\<lparr>qo_authority := (qo_authority ob)\<lparr>auth_last_committed := n\<rparr>, qo_progress := progress', qo_changes := changes'\<rparr>) req = Inr resp"
    if "qs_min_state_version req = None"
    using auth read that
    by (simp add: handle_query_state_def authorize_query_def authorize_def consistency_fence_def read_ledger_def)
  ultimately show ?thesis using auth by blast
qed

lemma empty_version: "current_version empty_fsm = Inr 0"
  by (simp add: current_version_def check_not_poisoned_def last_applied_index_def empty_fsm_def)

theorem query_fence_witness:
  "\<exists>resp. handle_query_state whole_numbers
      \<lparr>qo_authority = sample_authority\<lparr>auth_last_committed := 9\<rparr>, qo_verified = Inr (), qo_progress = sample_progress 1, qo_changes = [],
       qo_closed = False, qo_items_fsm = empty_fsm, qo_version_fsm = empty_fsm\<rparr>
      \<lparr>qs_query_filter = None, qs_min_state_version = None\<rparr> = Inr resp \<and> qr_items resp = []"
proof -
  let ?ob = "\<lparr>qo_authority = sample_authority, qo_verified = Inr (), qo_progress = sample_progress 1, qo_changes = [],
       qo_closed = False, qo_items_fsm = empty_fsm, qo_version_fsm = empty_fsm\<rparr>"
  let ?req = "\<lparr>qs_query_filter = None, qs_min_state_version = None\<rparr>"
  obtain resp where resp: "handle_query_state whole_numbers ?ob ?req = Inr resp"
    "qr_status resp = query_status_int QSuccess" "qr_items resp = []"
    by (simp add: handle_query_state_def authorize_query_def authorize_def sample_authority_def consistency_fence_def read_ledger_def
      sample_fsm_reads empty_version del: query_status_int.simps)
  from query_fence[OF resp(1,2), where n = 9 and progress' = "sample_progress 1" and changes' = "[]"] resp(3) show ?thesis by auto
qed

section \<open>Justification text\<close>

lemma char_floor_le: "char_floor s n \<le> n"
  by (induction s n rule: char_floor.induct) auto

lemma char_floor_boundary: "is_char_boundary s (char_floor s n)"
  by (induction s n rule: char_floor.induct) (auto simp: is_char_boundary_def)

lemma char_floor_greatest: "m \<le> n \<Longrightarrow> is_char_boundary s m \<Longrightarrow> m \<le> char_floor s n"
  by (induction s n rule: char_floor.induct) (auto simp: le_Suc_eq)

text \<open>
  The relay cuts a justification at the last character boundary within the limit, so the text it passes on is a
  prefix of whole characters and at most three bytes, the ellipsis, longer than the limit.
\<close>

lemma trim_justification_bounds:
  "length (trim_justification s n) \<le> n + 3 \<and> (length s \<le> n \<longrightarrow> trim_justification s n = s)
   \<and> (n < length s \<longrightarrow> (\<exists>k \<le> n. is_char_boundary s k \<and> trim_justification s n = take k s @ ''...''
        \<and> (\<forall>m \<le> n. is_char_boundary s m \<longrightarrow> m \<le> k)))"
  using char_floor_le[of s n] char_floor_boundary[of s n] char_floor_greatest[of _ n s]
  by (auto simp: trim_justification_def intro!: exI[of _ "char_floor s n"])

end
