(* ===== verification/Client.thy ===== *)
theory Client
  imports Complex_Main Gateway Rpc_Guard Sled_Tree
begin

text \<open>
  \<open>crates/client-cli/src\<close>: the persistent client state (\<open>state.rs\<close>), the write-ahead log of intents (\<open>wal.rs\<close>), the
  retrying client (\<open>client.rs\<close>) and the recovery of \<open>main.rs\<close>.

  The world of a client is one record: its state in memory, the state file, the log, the open channel, and the
  calls it has sent and the delays it has slept. The file system answers the \<open>n\<close>-th save with an outcome, a save that
  fails half way leaves a file that does not parse. The network is a parameter: whether a connection succeeds, what
  a node answers to the attempt, and the draws of the random generator. The floating-point
  arithmetic of the back-off is exact rational arithmetic here. A panic is the error \<open>Panicked\<close>.
\<close>

section \<open>Client state\<close>

definition MAX_KNOWN_NODES :: nat where "MAX_KNOWN_NODES = 10"

record client_state =
  cs_cluster_id :: string
  cs_client_id :: string
  cs_sequence_id :: sequence_id
  cs_known_nodes :: "string list"

datatype client_state_error =
    CsIo
  | CsSerialization
  | CsClusterIdMismatch string string
  | CsBootstrapMissingNodes
  | CsArithmetic arithmetic_error

datatype state_file = Missing | Unreadable | Garbled | Stored client_state

datatype save_outcome = Saved | NotSerialized | NotOpened | Torn

fun save_file :: "save_outcome \<Rightarrow> client_state \<Rightarrow> state_file \<Rightarrow> (client_state_error + unit) \<times> state_file" where
  "save_file Saved st f = (Inr (), Stored st)"
| "save_file NotSerialized st f = (Inl CsSerialization, f)"
| "save_file NotOpened st f = (Inl CsIo, f)"
| "save_file Torn st f = (Inl CsIo, Garbled)"

definition move_to_front :: "string \<Rightarrow> string list \<Rightarrow> string list" where
  "move_to_front n nodes = n # filter (\<lambda>x. x \<noteq> n) nodes"

definition load_or_init ::
  "save_outcome \<Rightarrow> string \<Rightarrow> string \<Rightarrow> string list \<Rightarrow> state_file \<Rightarrow> (client_state_error + client_state) \<times> state_file" where
  "load_or_init outcome fresh_id cid overriding f =
     (let overriding = take MAX_KNOWN_NODES overriding
      in case f of
        Unreadable \<Rightarrow> (Inl CsIo, f)
      | Garbled \<Rightarrow> (Inl CsSerialization, f)
      | Stored st \<Rightarrow>
          if cs_cluster_id st \<noteq> cid then (Inl (CsClusterIdMismatch cid (cs_cluster_id st)), f)
          else (let st = st\<lparr>cs_known_nodes := take MAX_KNOWN_NODES (cs_known_nodes st)\<rparr>
                in if overriding = [] then (Inr st, f)
                   else (let st = st\<lparr>cs_known_nodes := take MAX_KNOWN_NODES (foldr move_to_front overriding (cs_known_nodes st))\<rparr>
                         in case save_file outcome st f of (Inl e, f') \<Rightarrow> (Inl e, f') | (Inr _, f') \<Rightarrow> (Inr st, f')))
      | Missing \<Rightarrow>
          if overriding = [] then (Inl CsBootstrapMissingNodes, f)
          else (let st = \<lparr>cs_cluster_id = cid, cs_client_id = fresh_id, cs_sequence_id = 0, cs_known_nodes = overriding\<rparr>
                in case save_file outcome st f of (Inl e, f') \<Rightarrow> (Inl e, f') | (Inr _, f') \<Rightarrow> (Inr st, f')))"

section \<open>World\<close>

datatype outbound = SentMutation propose_mutation_request | SentQuery query_state_request

datatype wal_op =
    WalInsert sequence_id
  | WalFlushAppend sequence_id
  | WalRemove sequence_id
  | WalFlushRemove sequence_id
  | WalItem sequence_id
  | WalKey sequence_id
  | WalDecode sequence_id

datatype wal_error = WDb | WCorruption string | WSerialization

datatype client_error =
    Config string
  | State client_state_error
  | Wal wal_error
  | Transport string
  | Rejected string
  | Grpc status
  | RetryExhausted nat
  | Panicked

record client_world =
  cw_state :: client_state
  cw_file :: state_file
  cw_saves :: nat
  cw_disk :: "nat \<Rightarrow> save_outcome"
  cw_wal :: "(sequence_id, propose_mutation_request) tree"
  cw_wal_fails :: "wal_op \<Rightarrow> bool"
  cw_channel :: "string option"
  cw_sent :: "(string \<times> outbound) list"
  cw_slept :: "nat list"

type_synonym 'a client_proc = "(client_world, client_error, 'a) proc"

definition save :: "unit client_proc" where
  "save w = (case save_file (cw_disk w (cw_saves w)) (cw_state w) (cw_file w) of
     (r, f) \<Rightarrow> (map_err State r, w\<lparr>cw_file := f, cw_saves := Suc (cw_saves w)\<rparr>))"

definition set_nodes :: "string list \<Rightarrow> unit client_proc" where
  "set_nodes nodes = st_modify (\<lambda>w. w\<lparr>cw_state := (cw_state w)\<lparr>cs_known_nodes := nodes\<rparr>\<rparr>)"

definition next_sequence_id :: "sequence_id client_proc" where
  "next_sequence_id =
     st_bind (st_read (\<lambda>w. map_err (\<lambda>e. State (CsArithmetic e)) (sequence_id_add (cs_sequence_id (cw_state w)) 1)))
       (\<lambda>sq. st_bind (st_modify (\<lambda>w. w\<lparr>cw_state := (cw_state w)\<lparr>cs_sequence_id := sq\<rparr>\<rparr>))
       (\<lambda>_. st_bind save
       (\<lambda>_. st_return sq)))"

definition record_success :: "string \<Rightarrow> unit client_proc" where
  "record_success addr =
     st_bind (st_gets (\<lambda>w. cs_known_nodes (cw_state w)))
       (\<lambda>nodes. if nodes \<noteq> [] \<and> hd nodes = addr then st_return ()
                else st_bind (set_nodes (take MAX_KNOWN_NODES (move_to_front addr nodes))) (\<lambda>_. save))"

definition record_hint :: "string \<Rightarrow> unit client_proc" where
  "record_hint leader_addr = record_success leader_addr"

definition rotate_nodes :: "unit client_proc" where
  "rotate_nodes =
     st_bind (st_gets (\<lambda>w. cs_known_nodes (cw_state w)))
       (\<lambda>nodes. if length nodes > 1 then st_bind (set_nodes (tl nodes @ [hd nodes])) (\<lambda>_. save)
                else st_return ())"

section \<open>Write-ahead log\<close>

definition wal_step :: "wal_op \<Rightarrow> (client_world \<Rightarrow> client_world) \<Rightarrow> unit client_proc" where
  "wal_step op f w = (if cw_wal_fails w op then (Inl (Wal WDb), w) else (Inr (), f w))"

definition wal_append :: "sequence_id \<Rightarrow> propose_mutation_request \<Rightarrow> unit client_proc" where
  "wal_append sq req =
     st_bind (wal_step (WalInsert sq) (\<lambda>w. w\<lparr>cw_wal := tree_insert sq req (cw_wal w)\<rparr>))
       (\<lambda>_. wal_step (WalFlushAppend sq) id)"

definition wal_remove :: "sequence_id \<Rightarrow> unit client_proc" where
  "wal_remove sq =
     st_bind (wal_step (WalRemove sq) (\<lambda>w. w\<lparr>cw_wal := tree_remove sq (cw_wal w)\<rparr>))
       (\<lambda>_. wal_step (WalFlushRemove sq) id)"

definition decode_entry ::
  "(wal_op \<Rightarrow> bool) \<Rightarrow> sequence_id \<times> propose_mutation_request \<Rightarrow> wal_error + sequence_id \<times> propose_mutation_request" where
  "decode_entry fails = (\<lambda>(sq, req).
     if fails (WalKey sq) then Inl (WCorruption ''Invalid sequence ID key length'')
     else if fails (WalDecode sq) then Inl WSerialization
     else Inr (sq, req))"

fun collect_wal ::
  "(wal_op \<Rightarrow> bool) \<Rightarrow> (sequence_id, propose_mutation_request) tree \<Rightarrow>
     wal_error + (sequence_id \<times> propose_mutation_request) list" where
  "collect_wal fails [] = Inr []"
| "collect_wal fails (e # es) =
     (if fails (WalItem (fst e)) then Inl WDb
      else res_bind (decode_entry fails e) (\<lambda>d. res_bind (collect_wal fails es) (\<lambda>ds. Inr (d # ds))))"

definition wal_recover :: "client_world \<Rightarrow> wal_error + (sequence_id \<times> propose_mutation_request) list" where
  "wal_recover w = map_ok (sort_key fst) (collect_wal (cw_wal_fails w) (cw_wal w))"

section \<open>Configuration\<close>

text \<open>Durations are nanoseconds.\<close>

record client_config =
  cc_mutation_timeout :: nat
  cc_query_timeout :: nat
  cc_connect_timeout :: nat
  cc_initial_backoff :: nat
  cc_max_backoff :: nat

definition as_millis :: "nat \<Rightarrow> u64" where
  "as_millis d = (d div 10 ^ 6) mod u64_bound"

definition default_config :: client_config where
  "default_config = \<lparr>cc_mutation_timeout = 30 * 10 ^ 9, cc_query_timeout = 2 * 10 ^ 9, cc_connect_timeout = 10 ^ 9,
     cc_initial_backoff = 100 * 10 ^ 6, cc_max_backoff = 5 * 10 ^ 9\<rparr>"

definition with_config ::
  "client_config \<Rightarrow> bool \<Rightarrow> (sequence_id, propose_mutation_request) tree \<Rightarrow> (wal_op \<Rightarrow> bool) \<Rightarrow> (nat \<Rightarrow> save_outcome) \<Rightarrow>
     client_state \<Rightarrow> state_file \<Rightarrow> client_error + client_world" where
  "with_config cfg wal_opens wal wal_fails disk st f =
     (if cc_mutation_timeout cfg = 0 \<or> cc_query_timeout cfg = 0 \<or> cc_connect_timeout cfg = 0
      then Inl (Config ''Client timeouts must be non-zero'')
      else if \<not> wal_opens then Inl (Wal WDb)
      else Inr \<lparr>cw_state = st, cw_file = f, cw_saves = 0, cw_disk = disk, cw_wal = wal, cw_wal_fails = wal_fails,
                cw_channel = None, cw_sent = [], cw_slept = []\<rparr>)"

section \<open>Connection and redirection\<close>

datatype connect_result = Connected | InvalidUri | Unreachable

record 'v network =
  nw_text :: "'v wire_text"
  nw_connect :: "nat \<Rightarrow> string \<Rightarrow> connect_result"
  nw_propose :: "nat \<Rightarrow> string \<Rightarrow> 'v wire_request \<Rightarrow> propose_mutation_request \<Rightarrow> status + propose_mutation_response response"
  nw_query :: "nat \<Rightarrow> string \<Rightarrow> 'v wire_request \<Rightarrow> query_state_request \<Rightarrow> status + query_state_response response"
  nw_jitter :: "nat \<Rightarrow> rat \<Rightarrow> rat"

definition client_uri :: "string \<Rightarrow> string" where
  "client_uri addr = (if starts_with ''http://'' addr \<or> starts_with ''https://'' addr then addr else ''http://'' @ addr)"

definition get_or_connect :: "'v network \<Rightarrow> nat \<Rightarrow> string client_proc" where
  "get_or_connect net attempt w =
     (case cw_channel w of
        Some addr \<Rightarrow> (Inr addr, w)
      | None \<Rightarrow>
          (case cs_known_nodes (cw_state w) of
             [] \<Rightarrow> (Inl (Transport ''No known nodes available to connect''), w)
           | addr # _ \<Rightarrow>
               (case nw_connect net attempt (client_uri addr) of
                  InvalidUri \<Rightarrow> (Inl (Transport ''Invalid node address format''), w)
                | Unreachable \<Rightarrow> (Inl (Transport ''Failed to connect''), w)
                | Connected \<Rightarrow> (Inr addr, w\<lparr>cw_channel := Some addr\<rparr>))))"

definition drop_channel :: "unit client_proc" where
  "drop_channel = st_modify (\<lambda>w. w\<lparr>cw_channel := None\<rparr>)"

definition handle_redirection :: "string \<Rightarrow> unit client_proc" where
  "handle_redirection hint = st_bind (record_hint hint) (\<lambda>_. drop_channel)"

definition handle_transport_error :: "unit client_proc" where
  "handle_transport_error = st_bind rotate_nodes (\<lambda>_. drop_channel)"

definition record_current_node_success :: "unit client_proc" where
  "record_current_node_success =
     st_bind (st_gets (\<lambda>w. cs_known_nodes (cw_state w)))
       (\<lambda>nodes. case nodes of [] \<Rightarrow> st_return () | addr # _ \<Rightarrow> record_success addr)"

text \<open>
  \<open>pow\<close> overflows at an exponent of 64, and drawing from an empty range panics; both are \<open>None\<close>. \<open>draw r\<close>
  is a number drawn from the range \<open>-r..r\<close>.
\<close>

definition calculate_backoff :: "client_config \<Rightarrow> (rat \<Rightarrow> rat) \<Rightarrow> nat \<Rightarrow> nat option" where
  "calculate_backoff cfg draw attempt =
     (if attempt = 0 \<or> cc_initial_backoff cfg = 0 then Some 0
      else let exponent = (attempt - 1) mod 2 ^ 32; base = as_millis (cc_initial_backoff cfg)
           in if exponent \<ge> 64 then None
              else let capped = min (min (base * 2 ^ exponent) (u64_bound - 1)) (as_millis (cc_max_backoff cfg));
                       jitter_range = of_nat capped * (1 / 5)
                   in if jitter_range = 0 then None
                      else Some (min (u64_bound - 1) (nat \<lfloor>max 0 (of_nat capped + draw jitter_range)\<rfloor>)))"

definition reconcile_routing_failure :: "'v network \<Rightarrow> client_config \<Rightarrow> string option \<Rightarrow> nat \<Rightarrow> unit client_proc" where
  "reconcile_routing_failure net cfg hint retry_count =
     (case hint of
        Some (c # cs) \<Rightarrow> handle_redirection (c # cs)
      | _ \<Rightarrow> st_bind handle_transport_error
              (\<lambda>_. case calculate_backoff cfg (nw_jitter net retry_count) retry_count of
                     None \<Rightarrow> st_fail Panicked
                   | Some d \<Rightarrow> st_modify (\<lambda>w. w\<lparr>cw_slept := cw_slept w @ [d]\<rparr>)))"

section \<open>Retry loop\<close>

type_synonym ('v, 'q, 'r) rpc = "nat \<Rightarrow> string \<Rightarrow> 'v wire_request \<Rightarrow> 'q \<Rightarrow> status + 'r response"

text \<open>
  One turn of the loop: an answer to return, or \<open>None\<close> to go on. \<open>settle\<close> is its last part, the reaction to what the
  call returned.
\<close>

definition settle ::
  "'v network \<Rightarrow> client_config \<Rightarrow> ('r \<Rightarrow> bool \<times> string) \<Rightarrow> nat \<Rightarrow> status + 'r response \<Rightarrow> ('r \<times> trace_id option) option client_proc" where
  "settle net cfg get_rejection retry_count r =
     (case r of
        Inr response \<Rightarrow>
          (let (rejected, hint) = get_rejection (resp_inner response)
           in if rejected then st_bind (reconcile_routing_failure net cfg (Some hint) retry_count) (\<lambda>_. st_return None)
              else st_bind record_current_node_success (\<lambda>_. st_return (Some (resp_inner response, resp_trace response))))
      | Inl (Status code msg) \<Rightarrow>
          (if code = InvalidArgument \<or> code = FailedPrecondition then st_fail (Rejected msg)
           else st_bind (reconcile_routing_failure net cfg None retry_count) (\<lambda>_. st_return None)))"

definition cluster_request :: "'v network \<Rightarrow> client_world \<Rightarrow> client_error + 'v wire_request" where
  "cluster_request net w =
     map_err Grpc (inject_cluster_id_into_request (nw_text net) (cs_cluster_id (cw_state w)) \<lparr>metadata = Map.empty, ext_trace = None\<rparr>)"

definition attempt_once ::
  "'v network \<Rightarrow> client_config \<Rightarrow> ('v, 'q, 'r) rpc \<Rightarrow> ('q \<Rightarrow> outbound) \<Rightarrow> ('r \<Rightarrow> bool \<times> string) \<Rightarrow> 'q \<Rightarrow> nat \<Rightarrow>
     ('r \<times> trace_id option) option client_proc" where
  "attempt_once net cfg rpc wrap get_rejection payload retry_count =
     st_bind (get_or_connect net retry_count)
       (\<lambda>addr. st_bind (st_read (cluster_request net))
       (\<lambda>req. st_bind (st_modify (\<lambda>w. w\<lparr>cw_sent := cw_sent w @ [(addr, wrap payload)]\<rparr>))
       (\<lambda>_. settle net cfg get_rejection retry_count (rpc retry_count addr req payload))))"

function retry_loop ::
  "'v network \<Rightarrow> client_config \<Rightarrow> ('v, 'q, 'r) rpc \<Rightarrow> ('q \<Rightarrow> outbound) \<Rightarrow> ('r \<Rightarrow> bool \<times> string) \<Rightarrow> 'q \<Rightarrow> nat \<Rightarrow> nat \<Rightarrow>
     ('r \<times> trace_id option) client_proc" where
  "retry_loop net cfg rpc wrap get_rejection payload max_retries retry_count =
     (if retry_count \<ge> max_retries then st_fail (RetryExhausted retry_count)
      else st_bind (attempt_once net cfg rpc wrap get_rejection payload (Suc retry_count))
             (\<lambda>r. case r of
                    Some answer \<Rightarrow> st_return answer
                  | None \<Rightarrow> retry_loop net cfg rpc wrap get_rejection payload max_retries (Suc retry_count)))"
  by pat_completeness auto
termination
  by (relation "measure (\<lambda>(net, cfg, rpc, wrap, get_rejection, payload, max_retries, retry_count). max_retries - retry_count)") auto

declare retry_loop.simps [simp del]

definition execute_with_retry ::
  "'v network \<Rightarrow> client_config \<Rightarrow> ('v, 'q, 'r) rpc \<Rightarrow> ('q \<Rightarrow> outbound) \<Rightarrow> ('r \<Rightarrow> bool \<times> string) \<Rightarrow> 'q \<Rightarrow>
     ('r \<times> trace_id option) client_proc" where
  "execute_with_retry net cfg rpc wrap get_rejection payload =
     st_bind (st_gets (\<lambda>w. length (cs_known_nodes (cw_state w)) + MAX_KNOWN_NODES))
       (\<lambda>max_retries. retry_loop net cfg rpc wrap get_rejection payload max_retries 0)"

definition mutation_rejection :: "propose_mutation_response \<Rightarrow> bool \<times> string" where
  "mutation_rejection res = (pr_status res = mutation_status_int MRejected, pr_leader_hint res)"

definition query_rejection :: "query_state_response \<Rightarrow> bool \<times> string" where
  "query_rejection res = (qr_status res = query_status_int QRejected, qr_leader_hint res)"

definition dispatch_mutation ::
  "'v network \<Rightarrow> client_config \<Rightarrow> propose_mutation_request \<Rightarrow> (propose_mutation_response \<times> trace_id option) client_proc" where
  "dispatch_mutation net cfg = execute_with_retry net cfg (nw_propose net) SentMutation mutation_rejection"

definition dispatch_query ::
  "'v network \<Rightarrow> client_config \<Rightarrow> query_state_request \<Rightarrow> (query_state_response \<times> trace_id option) client_proc" where
  "dispatch_query net cfg = execute_with_retry net cfg (nw_query net) SentQuery query_rejection"

section \<open>High-level interface\<close>

definition is_terminal :: "propose_mutation_response \<Rightarrow> bool" where
  "is_terminal res \<longleftrightarrow> mutation_status_try_from (pr_status res) \<in> {Some MCommitted, Some MVetoed}"

definition execute_mutation ::
  "'v network \<Rightarrow> client_config \<Rightarrow> sequence_id \<Rightarrow> propose_mutation_request \<Rightarrow>
     (propose_mutation_response \<times> trace_id option) client_proc" where
  "execute_mutation net cfg sq payload =
     st_bind (dispatch_mutation net cfg payload)
       (\<lambda>(res, trace). if is_terminal res then st_bind (wal_remove sq) (\<lambda>_. st_return (res, trace))
                       else st_return (res, trace))"

definition propose_mutation ::
  "'v network \<Rightarrow> client_config \<Rightarrow> mutation_intent \<Rightarrow> (propose_mutation_response \<times> trace_id option) client_proc" where
  "propose_mutation net cfg intent =
     st_bind next_sequence_id
       (\<lambda>sq. st_bind (st_gets (\<lambda>w. new_propose_mutation_request (cs_client_id (cw_state w)) sq intent))
       (\<lambda>payload. st_bind (wal_append sq payload)
       (\<lambda>_. execute_mutation net cfg sq payload)))"

definition repropose_mutation ::
  "'v network \<Rightarrow> client_config \<Rightarrow> sequence_id \<Rightarrow> propose_mutation_request \<Rightarrow>
     (propose_mutation_response \<times> trace_id option) client_proc" where
  "repropose_mutation net cfg sq payload = execute_mutation net cfg sq payload"

definition query_state ::
  "'v network \<Rightarrow> client_config \<Rightarrow> string option \<Rightarrow> log_index option \<Rightarrow> (query_state_response \<times> trace_id option) client_proc" where
  "query_state net cfg query_filter min_version =
     dispatch_query net cfg \<lparr>qs_query_filter = query_filter, qs_min_state_version = min_version\<rparr>"

section \<open>Startup recovery\<close>

fun repropose_all ::
  "(sequence_id \<Rightarrow> 'v network) \<Rightarrow> client_config \<Rightarrow> (sequence_id \<times> propose_mutation_request) list \<Rightarrow> unit client_proc" where
  "repropose_all net cfg [] = st_return ()"
| "repropose_all net cfg ((sq, req) # pending) =
     st_bind (repropose_mutation (net sq) cfg sq req) (\<lambda>_. repropose_all net cfg pending)"

definition recover_pending_intents :: "(sequence_id \<Rightarrow> 'v network) \<Rightarrow> client_config \<Rightarrow> unit client_proc" where
  "recover_pending_intents net cfg =
     st_bind (st_read (\<lambda>w. map_err Wal (wal_recover w)))
       (\<lambda>pending. if pending = [] then st_return () else repropose_all net cfg pending)"

end
