(* ===== verification/Client_Properties.thy ===== *)
theory Client_Properties
  imports Client
begin

text \<open>
  What one request of the client does: it ends after a bounded number of attempts, and a mutation is in the log before it is
  sent and leaves it only with a terminal answer. The frames of this theory say what every step of the retry loop keeps.
\<close>

section \<open>Frames\<close>

text \<open>
  What every step of the retry loop keeps: the log, the identity and the sequence id; the list of nodes stays within
  its bound; the state file is left alone, or torn, or has the state of the session.
\<close>

definition records :: "client_state \<Rightarrow> client_state \<Rightarrow> bool" where
  "records st now \<longleftrightarrow> cs_cluster_id st = cs_cluster_id now \<and> cs_client_id st = cs_client_id now \<and> cs_sequence_id st = cs_sequence_id now"

definition same_session :: "client_world \<Rightarrow> client_world \<Rightarrow> bool" where
  "same_session w w' \<longleftrightarrow> cw_wal w' = cw_wal w \<and> cw_wal_fails w' = cw_wal_fails w \<and> cw_disk w' = cw_disk w
     \<and> records (cw_state w') (cw_state w)
     \<and> (length (cs_known_nodes (cw_state w)) \<le> MAX_KNOWN_NODES \<longrightarrow> length (cs_known_nodes (cw_state w')) \<le> MAX_KNOWN_NODES)
     \<and> (cs_known_nodes (cw_state w) \<noteq> [] \<longrightarrow> cs_known_nodes (cw_state w') \<noteq> [])
     \<and> (cw_file w' = cw_file w \<or> cw_file w' = Garbled \<or> (\<exists>st. cw_file w' = Stored st \<and> records st (cw_state w)))"

definition same_sent :: "client_world \<Rightarrow> client_world \<Rightarrow> bool" where
  "same_sent w w' \<longleftrightarrow> cw_sent w' = cw_sent w"

lemma records_refl [simp]: "records st st"
  by (simp add: records_def)

lemma records_trans: "records a b \<Longrightarrow> records b c \<Longrightarrow> records a c"
  by (simp add: records_def)

lemma records_nodes [simp]: "records (st\<lparr>cs_known_nodes := ns\<rparr>) now = records st now" "records st (now\<lparr>cs_known_nodes := ns\<rparr>) = records st now"
  by (simp_all add: records_def)

interpretation session: run_preorder same_session
proof
  fix s t u assume st: "same_session s t" and tu: "same_session t u"
  then have r: "records (cw_state t) (cw_state s)" "records (cw_state u) (cw_state t)" by (simp_all add: same_session_def)
  from tu consider "cw_file u = cw_file t" | "cw_file u = Garbled" | st where "cw_file u = Stored st" "records st (cw_state t)"
    by (auto simp: same_session_def)
  then have "cw_file u = cw_file s \<or> cw_file u = Garbled \<or> (\<exists>st. cw_file u = Stored st \<and> records st (cw_state s))"
    using st r(1) records_trans by cases (auto simp: same_session_def)
  then show "same_session s u" using st tu records_trans[OF r(2,1)] by (simp add: same_session_def)
qed (simp add: same_session_def)

interpretation silent: run_preorder same_sent
  by unfold_locales (auto simp: same_sent_def)

lemma move_to_front_nonempty [simp]: "take MAX_KNOWN_NODES (move_to_front a ns) \<noteq> []"
  by (simp add: move_to_front_def MAX_KNOWN_NODES_def)

lemma save_frames: "run_rel same_session save" "run_rel same_sent save"
proof -
  have "same_session w (snd (save w)) \<and> same_sent w (snd (save w))" for w
    by (cases "cw_disk w (cw_saves w)") (auto simp: save_def same_session_def same_sent_def)
  then show "run_rel same_session save" "run_rel same_sent save"
    by (simp_all add: run_rel_def)
qed

lemma set_nodes_frames:
  "run_rel same_sent (set_nodes ns)"
  "ns \<noteq> [] \<Longrightarrow> length ns \<le> MAX_KNOWN_NODES \<Longrightarrow> run_rel same_session (set_nodes ns)"
  by (auto simp: run_rel_def set_nodes_def same_sent_def same_session_def)

lemma drop_channel_frames:
  "run_rel same_session drop_channel" "run_rel same_sent drop_channel"
  by (simp_all add: run_rel_def drop_channel_def same_session_def same_sent_def)

lemma record_success_frames:
  "run_rel same_session (record_success a)" "run_rel same_sent (record_success a)"
  unfolding record_success_def
  by (intro session.run_intros silent.run_intros save_frames set_nodes_frames move_to_front_nonempty; simp)+

text \<open>Rotation permutes the list, so its length is only known together with the list it reads.\<close>

lemma rotate_frames: "run_rel same_session rotate_nodes" "run_rel same_sent rotate_nodes"
proof -
  show "run_rel same_session rotate_nodes"
  proof (rule run_relI)
    fix w r w' assume run: "rotate_nodes w = (r, w')"
    let ?ns = "cs_known_nodes (cw_state w)"
    show "same_session w w'"
    proof (cases "length ?ns > 1")
      case True
      let ?w = "w\<lparr>cw_state := (cw_state w)\<lparr>cs_known_nodes := tl ?ns @ [hd ?ns]\<rparr>\<rparr>"
      have "save ?w = (r, w')" using run True by (simp add: rotate_nodes_def set_nodes_def)
      then have "same_session ?w w'" using run_relD[OF save_frames(1)] by blast
      moreover have "same_session w ?w" using True by (auto simp: same_session_def)
      ultimately show ?thesis using session.trans by blast
    next
      case False
      with run show ?thesis by (auto simp: rotate_nodes_def session.refl)
    qed
  qed
  show "run_rel same_sent rotate_nodes"
    unfolding rotate_nodes_def
    by (intro silent.run_intros save_frames set_nodes_frames)+
qed

lemma reconcile_frames:
  "run_rel same_session (reconcile_routing_failure net cfg hint n)" "run_rel same_sent (reconcile_routing_failure net cfg hint n)"
 
  unfolding reconcile_routing_failure_def handle_redirection_def handle_transport_error_def record_hint_def
  by (auto split: option.splits list.splits
      intro!: session.run_intros silent.run_intros record_success_frames rotate_frames drop_channel_frames
        session.run_modify silent.run_modify 
      simp: same_session_def same_sent_def)

lemma current_success_frames:
  "run_rel same_session record_current_node_success" "run_rel same_sent record_current_node_success"
 
  unfolding record_current_node_success_def
  by (auto split: list.splits intro!: session.run_intros silent.run_intros record_success_frames)

text \<open>Recording the success of the node at the front of the list never writes.\<close>

lemma current_success_silent: "record_current_node_success w = (Inr (), w)"
  by (auto simp: record_current_node_success_def record_success_def st_defs split: list.splits)

section \<open>Attempts\<close>

lemma get_or_connect_cases:
  assumes "get_or_connect net n w = (r, w')"
  shows "same_session w w' \<and> same_sent w w' \<and> cw_state w' = cw_state w \<and> cw_slept w' = cw_slept w
    \<and> (\<forall>e. r = Inl e \<longrightarrow> w' = w \<and> (\<exists>msg. e = Transport msg))"
  using assms
  by (auto simp: get_or_connect_def same_session_def same_sent_def
      split: option.splits list.splits connect_result.splits)

definition raises :: "client_error set \<Rightarrow> 'a client_proc \<Rightarrow> bool" where
  "raises E m \<longleftrightarrow> valid (\<lambda>_. True) m (\<lambda>_ _. True) (\<lambda>e _. e \<in> E)"

lemma raises_bind: "raises E m \<Longrightarrow> (\<And>a. raises E (f a)) \<Longrightarrow> raises E (st_bind m f)"
  unfolding raises_def by (rule valid_bind)

lemma raises_basic: "raises E (st_return a)" "raises E (st_gets g)" "raises E (st_modify h)" "e \<in> E \<Longrightarrow> raises E (st_fail e)"
  by (simp_all add: raises_def valid_def)

lemma raisesD: "raises E m \<Longrightarrow> m w = (Inl e, w') \<Longrightarrow> e \<in> E"
  by (auto simp: raises_def valid_def dest!: spec[of _ w])

lemma raises_save: "range State \<subseteq> E \<Longrightarrow> raises E save"
  by (auto simp: raises_def valid_def save_def map_err_def split: prod.splits sum.splits)

lemma raises_reconcile: "raises (insert Panicked (range State)) (reconcile_routing_failure net cfg hint n)"
  unfolding reconcile_routing_failure_def handle_redirection_def handle_transport_error_def record_hint_def record_success_def
    rotate_nodes_def drop_channel_def set_nodes_def
  by (auto split: option.splits list.splits intro!: raises_bind raises_basic raises_save)

lemma settle_frame:
  assumes "settle net cfg rej n ans w = (r, w')"
  shows "same_session w w' \<and> same_sent w w'
    \<and> (\<forall>res tr. r = Inr (Some (res, tr)) \<longrightarrow> \<not> fst (rej res) \<and> (\<exists>resp. ans = Inr resp \<and> resp_trace resp = tr \<and> resp_inner resp = res))
    \<and> (\<forall>k. r \<noteq> Inl (RetryExhausted k))"
proof -
  have retry: ?thesis if "st_bind (reconcile_routing_failure net cfg h n) (\<lambda>_. st_return None) w = (r, w')" for h
    using that
  proof (cases rule: st_bind_cases)
    case (error e)
    then show ?thesis
      using raisesD[OF raises_reconcile error(1)] run_relD[OF reconcile_frames(1) error(1)] run_relD[OF reconcile_frames(2) error(1)] by auto
  next
    case (ok a w1)
    then show ?thesis
      using run_relD[OF reconcile_frames(1) ok(1)] run_relD[OF reconcile_frames(2) ok(1)] by auto
  qed
  show ?thesis
  proof (cases ans)
    case (Inl st)
    obtain code msg where st: "st = Status code msg" by (cases st)
    show ?thesis
    proof (cases "code = InvalidArgument \<or> code = FailedPrecondition")
      case True
      with assms Inl st have "r = Inl (Rejected msg)" "w' = w" by (auto simp: settle_def)
      then show ?thesis using session.refl silent.refl by auto
    next
      case False
      with assms Inl st show ?thesis by (intro retry[of None]) (simp add: settle_def)
    qed
  next
    case (Inr resp)
    obtain rejected h where rej: "rej (resp_inner resp) = (rejected, h)" by fastforce
    show ?thesis
    proof (cases rejected)
      case True
      with assms Inr rej show ?thesis by (intro retry[of "Some h"]) (simp add: settle_def)
    next
      case False
      with assms Inr rej have "r = Inr (Some (resp_inner resp, resp_trace resp))" "w' = w"
        by (simp_all add: settle_def current_success_silent)
      with Inr rej False show ?thesis using session.refl silent.refl by auto
    qed
  qed
qed

lemma attempt_frame:
  assumes "attempt_once net cfg rpc wrap rej payload n w = (r, w')"
  shows "same_session w w'
    \<and> (\<exists>addrs. length addrs \<le> 1 \<and> cw_sent w' = cw_sent w @ map (\<lambda>a. (a, wrap payload)) addrs \<and> (\<forall>x. r = Inr x \<longrightarrow> length addrs = 1))
    \<and> (\<forall>res tr. r = Inr (Some (res, tr)) \<longrightarrow> \<not> fst (rej res) \<and>
         (\<exists>addr req resp. rpc n addr req payload = Inr resp \<and> resp_trace resp = tr \<and> resp_inner resp = res))
    \<and> (\<forall>k. r \<noteq> Inl (RetryExhausted k))"
proof (cases "get_or_connect net n w")
  case (Pair c w1)
  note conn = get_or_connect_cases[OF Pair]
  consider e where "c = Inl e" | addr s where "c = Inr addr" "cluster_request net w1 = Inl s"
    | addr req where "c = Inr addr" "cluster_request net w1 = Inr req" by (cases c; cases "cluster_request net w1") auto
  then show ?thesis
  proof cases
    case (1 e)
    with Pair assms have "r = Inl e" "w' = w1" by (simp_all add: attempt_once_def)
    with conn 1 show ?thesis by (auto simp: same_sent_def)
  next
    case (2 addr s)
    with Pair assms have "r = Inl s" "w' = w1" by (simp_all add: attempt_once_def)
    moreover from 2(2) have "\<exists>g. s = Grpc g" by (auto simp: cluster_request_def map_err_Inl_iff)
    ultimately show ?thesis using conn by (auto simp: same_sent_def)
  next
    case (3 addr req)
    let ?w2 = "w1\<lparr>cw_sent := cw_sent w1 @ [(addr, wrap payload)]\<rparr>"
    have "same_session w w1" "same_sent w w1" using conn by simp_all
    moreover have "same_session w1 ?w2" by (simp add: same_session_def)
    ultimately have w2: "same_session w ?w2" "cw_sent ?w2 = cw_sent w @ [(addr, wrap payload)]"
      using session.trans by (blast, simp add: same_sent_def)
    from Pair assms 3 have run: "settle net cfg rej n (rpc n addr req payload) ?w2 = (r, w')" by (simp add: attempt_once_def)
    note s = settle_frame[OF run]
    have "same_session w w'" using s session.trans[OF w2(1)] by blast
    moreover have "cw_sent w' = cw_sent w @ map (\<lambda>a. (a, wrap payload)) [addr]" using s w2(2) by (simp add: same_sent_def)
    ultimately show ?thesis using s by (intro conjI exI[of _ "[addr]"]) (blast | simp)+
  qed
qed

section \<open>The retry loop ends\<close>

lemma retry_loop_frame:
  assumes "retry_loop net cfg rpc wrap rej payload max_retries n w = (r, w')" "n \<le> max_retries"
  shows "same_session w w'
    \<and> (\<exists>addrs. length addrs \<le> max_retries - n \<and> cw_sent w' = cw_sent w @ map (\<lambda>a. (a, wrap payload)) addrs
        \<and> (\<forall>k. r = Inl (RetryExhausted k) \<longrightarrow> k = max_retries \<and> length addrs = max_retries - n)
        \<and> (\<forall>x. r = Inr x \<longrightarrow> addrs \<noteq> []))
    \<and> (\<forall>res tr. r = Inr (res, tr) \<longrightarrow> \<not> fst (rej res) \<and>
        (\<exists>k addr req resp. n < k \<and> k \<le> max_retries \<and> rpc k addr req payload = Inr resp \<and> resp_trace resp = tr \<and> resp_inner resp = res))"
  using assms
proof (induction "max_retries - n" arbitrary: n w)
  case 0
  then have "n = max_retries" by simp
  with 0 show ?case by (subst (asm) retry_loop.simps) (auto simp: session.refl)
next
  case (Suc m)
  let ?once = "attempt_once net cfg rpc wrap rej payload (Suc n)"
  from Suc have less: "n < max_retries" by simp
  obtain a w1 where once: "?once w = (a, w1)" by fastforce
  note f = attempt_frame[OF once]
  then obtain ad where ad: "length ad \<le> 1" "cw_sent w1 = cw_sent w @ map (\<lambda>a. (a, wrap payload)) ad" "\<forall>x. a = Inr x \<longrightarrow> length ad = 1"
    by blast
  from Suc.prems(1) less have run: "st_bind ?once (\<lambda>r. case r of Some answer \<Rightarrow> st_return answer
      | None \<Rightarrow> retry_loop net cfg rpc wrap rej payload max_retries (Suc n)) w = (r, w')"
    by (subst (asm) retry_loop.simps) simp
  consider e where "a = Inl e" "r = Inl e" "w' = w1" | ans where "a = Inr (Some ans)" "r = Inr ans" "w' = w1"
    | "a = Inr None" "retry_loop net cfg rpc wrap rej payload max_retries (Suc n) w1 = (r, w')"
    using run once by (cases a) (auto split: option.splits)
  then show ?case
  proof cases
    case 1
    with f less ad show ?thesis by (auto intro!: exI[of _ ad])
  next
    case (2 ans)
    obtain res tr where "ans = (res, tr)" by (cases ans)
    with f less 2 ad show ?thesis by (intro conjI exI[of _ ad]) (auto intro!: exI[of _ "Suc n"])
  next
    case 3
    have "m = max_retries - Suc n" using Suc.hyps(2) by simp
    note g = Suc.hyps(1)[OF this 3(2) Suc_leI[OF less]]
    from g less obtain addrs where addrs: "length addrs \<le> max_retries - Suc n"
      "cw_sent w' = cw_sent w1 @ map (\<lambda>a. (a, wrap payload)) addrs"
      "\<forall>k. r = Inl (RetryExhausted k) \<longrightarrow> k = max_retries \<and> length addrs = max_retries - Suc n" by auto
    have one: "length ad = 1" using ad(3) 3(1) by simp
    have "cw_sent w' = cw_sent w @ map (\<lambda>a. (a, wrap payload)) (ad @ addrs)" using addrs(2) ad(2) by simp
    moreover have "length (ad @ addrs) \<le> max_retries - n" using addrs(1) one less by simp
    moreover have "k = max_retries \<and> length (ad @ addrs) = max_retries - n" if "r = Inl (RetryExhausted k)" for k
      using addrs(3) that one less by simp
    moreover have "ad @ addrs \<noteq> []" using one by auto
    ultimately have "\<exists>addrs. length addrs \<le> max_retries - n \<and> cw_sent w' = cw_sent w @ map (\<lambda>a. (a, wrap payload)) addrs
        \<and> (\<forall>k. r = Inl (RetryExhausted k) \<longrightarrow> k = max_retries \<and> length addrs = max_retries - n)
        \<and> (\<forall>x. r = Inr x \<longrightarrow> addrs \<noteq> [])"
      by (intro exI[of _ "ad @ addrs"] conjI allI impI) (assumption | fast)+
    moreover have "same_session w w'" by (rule session.trans[OF conjunct1[OF f] conjunct1[OF g]])
    moreover have "\<forall>res tr. r = Inr (res, tr) \<longrightarrow> \<not> fst (rej res) \<and>
        (\<exists>k addr req resp. n < k \<and> k \<le> max_retries \<and> rpc k addr req payload = Inr resp \<and> resp_trace resp = tr \<and> resp_inner resp = res)"
      using conjunct2[OF conjunct2[OF g]] Suc_lessD by blast
    ultimately show ?thesis by (intro conjI)
  qed
qed

text \<open>
  C32 A request of the client always ends: it sends at most as many calls as it knew nodes when it started, plus ten, all with
  the same payload. It gives up as exhausted only after exactly that many calls, and an answer it returns is one a node
  gave to one of these calls and is not a rejection.
\<close>
theorem retry_bounded:
  assumes "execute_with_retry net cfg rpc wrap rej payload w = (r, w')"
  defines "bound \<equiv> length (cs_known_nodes (cw_state w)) + 10"
  shows "\<exists>addrs. length addrs \<le> bound \<and> cw_sent w' = cw_sent w @ map (\<lambda>a. (a, wrap payload)) addrs
    \<and> (\<forall>k. r = Inl (RetryExhausted k) \<longrightarrow> k = bound \<and> length addrs = bound)
    \<and> (\<forall>res tr. r = Inr (res, tr) \<longrightarrow> \<not> fst (rej res) \<and>
        (\<exists>k addr req resp. k \<in> {1..bound} \<and> rpc k addr req payload = Inr resp \<and> resp_trace resp = tr \<and> resp_inner resp = res))"
proof -
  have "retry_loop net cfg rpc wrap rej payload bound 0 w = (r, w')"
    using assms(1) by (simp add: execute_with_retry_def bound_def MAX_KNOWN_NODES_def)
  note f = retry_loop_frame[OF this]
  then obtain addrs where "length addrs \<le> bound" "cw_sent w' = cw_sent w @ map (\<lambda>a. (a, wrap payload)) addrs"
    "\<forall>k. r = Inl (RetryExhausted k) \<longrightarrow> k = bound \<and> length addrs = bound" by auto
  moreover have "\<forall>res tr. r = Inr (res, tr) \<longrightarrow> \<not> fst (rej res) \<and>
      (\<exists>k addr req resp. k \<in> {1..bound} \<and> rpc k addr req payload = Inr resp \<and> resp_trace resp = tr \<and> resp_inner resp = res)"
    using f by (metis One_nat_def Suc_leI atLeastAtMost_iff le0)
  ultimately show ?thesis by blast
qed

section \<open>The log of intents\<close>

lemma dispatch_frame:
  assumes "dispatch_mutation net cfg payload w = (r, w')"
  shows "same_session w w' \<and> (\<exists>addrs. cw_sent w' = cw_sent w @ map (\<lambda>a. (a, SentMutation payload)) addrs \<and> (\<forall>x. r = Inr x \<longrightarrow> addrs \<noteq> []))
    \<and> (\<forall>res tr. r = Inr (res, tr) \<longrightarrow> pr_status res \<noteq> mutation_status_int MRejected
        \<and> (\<exists>k addr req resp. nw_propose net k addr req payload = Inr resp \<and> resp_inner resp = res))"
  using assms retry_loop_frame[of net cfg "nw_propose net" SentMutation mutation_rejection payload "length (cs_known_nodes (cw_state w)) + MAX_KNOWN_NODES" 0 w r w']
  by (fastforce simp: dispatch_mutation_def execute_with_retry_def mutation_rejection_def)

text \<open>The intent leaves the log only after a terminal answer.\<close>

definition settled :: "'v network \<Rightarrow> client_config \<Rightarrow> propose_mutation_request \<Rightarrow> client_world \<Rightarrow> bool" where
  "settled net cfg payload w \<longleftrightarrow> (\<exists>res tr w'. dispatch_mutation net cfg payload w = (Inr (res, tr), w') \<and> is_terminal res)"

lemma execute_frame:
  assumes "execute_mutation net cfg sq payload w = (r, w')"
  shows "(\<exists>addrs. cw_sent w' = cw_sent w @ map (\<lambda>a. (a, SentMutation payload)) addrs \<and> (\<forall>x. r = Inr x \<longrightarrow> addrs \<noteq> []))
    \<and> same_session w (w'\<lparr>cw_wal := cw_wal w\<rparr>)
    \<and> cw_state w' = cw_state (snd (dispatch_mutation net cfg payload w)) \<and> cw_wal_fails w' = cw_wal_fails w
    \<and> (cw_wal w' = cw_wal w \<or> cw_wal w' = tree_remove sq (cw_wal w) \<and> settled net cfg payload w)
    \<and> (\<forall>res tr. r = Inr (res, tr) \<longrightarrow> is_terminal res \<longrightarrow> cw_wal w' = tree_remove sq (cw_wal w))"
proof -
  obtain q w1 where run: "dispatch_mutation net cfg payload w = (q, w1)" by fastforce
  note f = dispatch_frame[OF run]
  then have wal: "cw_wal w1 = cw_wal w" "cw_wal_fails w1 = cw_wal_fails w" by (simp_all add: same_session_def)
  obtain addrs where sent: "cw_sent w1 = cw_sent w @ map (\<lambda>a. (a, SentMutation payload)) addrs" "\<forall>x. q = Inr x \<longrightarrow> addrs \<noteq> []"
    using f by blast
  have answered: "\<forall>x. r = Inr x \<longrightarrow> addrs \<noteq> []"
    using sent(2) assms run by (cases q) (auto simp: execute_mutation_def)
  consider "w' = w1" "\<forall>res tr. r = Inr (res, tr) \<longrightarrow> \<not> is_terminal res"
    | "w' = w1\<lparr>cw_wal := tree_remove sq (cw_wal w1)\<rparr>" "settled net cfg payload w"
  proof (cases q)
    case (Inl e)
    with assms run that(1) show thesis by (auto simp: execute_mutation_def)
  next
    case (Inr x)
    obtain res tr where x: "x = (res, tr)" by (cases x)
    show thesis
    proof (cases "is_terminal res")
      case False
      with assms run Inr x that(1) show thesis by (auto simp: execute_mutation_def)
    next
      case True
      then have "settled net cfg payload w" using run Inr x by (auto simp: settled_def)
      moreover have "wal_remove sq w1 = (map_ok (\<lambda>_. ()) r, w')"
        using assms run Inr x True by (auto simp: execute_mutation_def st_bind_def split: prod.splits sum.splits)
      then have "w' = w1 \<and> (\<exists>e. r = Inl e) \<or> w' = w1\<lparr>cw_wal := tree_remove sq (cw_wal w1)\<rparr>"
        by (cases r) (auto simp: wal_remove_def wal_step_def st_bind_def split: if_splits)
      ultimately show thesis using that by auto
    qed
  qed
  then show ?thesis
  proof cases
    case 1
    have "same_session w (w1\<lparr>cw_wal := cw_wal w\<rparr>)" using f by (simp add: same_session_def)
    moreover have "cw_state w1 = cw_state (snd (dispatch_mutation net cfg payload w))" using run by simp
    ultimately show ?thesis unfolding 1(1) using 1(2) wal sent(1) answered by blast
  next
    case 2
    let ?w = "w1\<lparr>cw_wal := tree_remove sq (cw_wal w1)\<rparr>"
    have "same_session w (?w\<lparr>cw_wal := cw_wal w\<rparr>)" using f by (simp add: same_session_def)
    moreover have "cw_state ?w = cw_state (snd (dispatch_mutation net cfg payload w))" "cw_sent ?w = cw_sent w @ map (\<lambda>a. (a, SentMutation payload)) addrs"
      "cw_wal ?w = tree_remove sq (cw_wal w)" "cw_wal_fails ?w = cw_wal_fails w" using run sent(1) wal by simp_all
    ultimately show ?thesis unfolding 2(1) using 2(2) answered by blast
  qed
qed

lemma next_sequence_id_cases:
  assumes "next_sequence_id w = (r, w')"
  shows "cw_wal w' = cw_wal w \<and> cw_wal_fails w' = cw_wal_fails w \<and> cw_disk w' = cw_disk w \<and> cw_sent w' = cw_sent w
    \<and> cs_cluster_id (cw_state w') = cs_cluster_id (cw_state w) \<and> cs_client_id (cw_state w') = cs_client_id (cw_state w)
    \<and> cs_known_nodes (cw_state w') = cs_known_nodes (cw_state w) \<and> cs_sequence_id (cw_state w) \<le> cs_sequence_id (cw_state w')
    \<and> (cw_file w' = cw_file w \<or> cw_file w' = Garbled \<or> cw_file w' = Stored (cw_state w'))
    \<and> (\<forall>sq. r = Inr sq \<longrightarrow> sq = Suc (cs_sequence_id (cw_state w)) \<and> is_u64 sq \<and> cs_sequence_id (cw_state w') = sq
        \<and> cw_file w' = Stored (cw_state w'))"
  using assms
  by (cases "cw_disk w (cw_saves w)")
    (auto simp: next_sequence_id_def save_def st_bind_def sequence_id_add_def checked_add_u64_def is_u64_def map_err_def
      split: sum.splits if_splits)

definition new_request :: "client_world \<Rightarrow> mutation_intent \<Rightarrow> propose_mutation_request" where
  "new_request w intent = new_propose_mutation_request (cs_client_id (cw_state w)) (Suc (cs_sequence_id (cw_state w))) intent"

text \<open>The three ways a proposal can go.\<close>

lemma propose_cases:
  assumes "propose_mutation net cfg intent w = (r, w')"
  obtains (no_id) e where "next_sequence_id w = (Inl e, w')" "r = Inl e"
  | (no_log) e w1 where "next_sequence_id w = (Inr (Suc (cs_sequence_id (cw_state w))), w1)"
      "wal_append (Suc (cs_sequence_id (cw_state w))) (new_request w intent) w1 = (Inl e, w')" "r = Inl e"
  | (run) w1 w2 where "next_sequence_id w = (Inr (Suc (cs_sequence_id (cw_state w))), w1)"
      "w2 = w1\<lparr>cw_wal := tree_insert (Suc (cs_sequence_id (cw_state w))) (new_request w intent) (cw_wal w1)\<rparr>"
      "execute_mutation net cfg (Suc (cs_sequence_id (cw_state w))) (new_request w intent) w2 = (r, w')"
proof (cases "next_sequence_id w")
  case (Pair q w1)
  note ns = next_sequence_id_cases[OF Pair]
  let ?sq = "Suc (cs_sequence_id (cw_state w))" and ?req = "new_request w intent"
  show thesis
  proof (cases q)
    case (Inl e)
    with Pair assms no_id show thesis by (simp add: propose_mutation_def)
  next
    case (Inr sq)
    with ns have sq: "sq = ?sq" "new_propose_mutation_request (cs_client_id (cw_state w1)) sq intent = ?req"
      by (simp_all add: new_request_def)
    obtain a w2 where app: "wal_append ?sq ?req w1 = (a, w2)" by fastforce
    show thesis
    proof (cases a)
      case (Inl e)
      with Pair \<open>q = Inr sq\<close> sq app assms no_log show thesis by (simp add: propose_mutation_def)
    next
      case (Inr u)
      with app have "w2 = w1\<lparr>cw_wal := tree_insert ?sq ?req (cw_wal w1)\<rparr>"
        by (auto simp: wal_append_def wal_step_def st_bind_def split: if_splits)
      with Inr Pair \<open>q = Inr sq\<close> sq app assms run show thesis by (simp add: propose_mutation_def)
    qed
  qed
qed

lemma wal_append_frame:
  assumes "wal_append sq req w = (r, w')"
  shows "w' = w \<or> w' = w\<lparr>cw_wal := tree_insert sq req (cw_wal w)\<rparr>"
  using assms by (auto simp: wal_append_def wal_step_def st_bind_def split: if_splits)

lemma raises_next: "raises (range State) next_sequence_id"
  unfolding next_sequence_id_def
  by (intro raises_bind raises_basic raises_save) (auto simp: raises_def valid_def map_err_Inl_iff split: sum.splits)

lemma raises_append: "raises {Wal WDb} (wal_append sq req)"
  by (auto simp: raises_def valid_def wal_append_def wal_step_def st_bind_def split: prod.splits sum.splits)

lemma execute_refused:
  assumes "execute_mutation net cfg sq payload w = (r, w')" "r = Inl e" "e \<noteq> Wal WDb"
  shows "cw_wal w' = cw_wal w"
proof -
  obtain q w1 where run: "dispatch_mutation net cfg payload w = (q, w1)" by fastforce
  then have wal: "cw_wal w1 = cw_wal w" using dispatch_frame[OF run] by (simp add: same_session_def)
  show ?thesis
  proof (cases q)
    case (Inl e')
    with assms run wal show ?thesis by (auto simp: execute_mutation_def)
  next
    case (Inr x)
    with assms run wal show ?thesis
      by (cases x) (auto simp: execute_mutation_def wal_remove_def wal_step_def st_bind_def split: if_splits)
  qed
qed

lemma propose_sends:
  assumes "propose_mutation net cfg intent w = (r, w')"
  shows "\<exists>sent. cw_sent w' = cw_sent w @ map (\<lambda>a. (a, SentMutation (new_request w intent))) sent"
  using assms
proof (cases rule: propose_cases)
  case (no_id e)
  then show ?thesis using next_sequence_id_cases[OF no_id(1)] by simp
next
  case (no_log e w1)
  then show ?thesis using next_sequence_id_cases[OF no_log(1)] wal_append_frame[OF no_log(2)] by auto
next
  case (run w1 w2)
  then show ?thesis using next_sequence_id_cases[OF run(1)] execute_frame[OF run(3)] by auto
qed

text \<open>
  C25 Write-ahead discipline of a new mutation. Whatever is sent carries the request with the next sequence id; when
  something was sent the request is still in the log, unless the cluster gave it a terminal answer; every other entry of the log is untouched. When the operation succeeds with a
  terminal answer the entry is gone, and a refused or exhausted request stays.
\<close>
theorem log_before_send:
  assumes "propose_mutation net cfg intent w = (r, w')" "tree_ok (cw_wal w)"
  defines "sq \<equiv> Suc (cs_sequence_id (cw_state w))" and "req \<equiv> new_request w intent"
  shows "\<exists>sent. cw_sent w' = cw_sent w @ map (\<lambda>a. (a, SentMutation req)) sent
    \<and> (\<forall>k. k \<noteq> sq \<longrightarrow> tree_get (cw_wal w') k = tree_get (cw_wal w) k)
    \<and> (sent \<noteq> [] \<longrightarrow> tree_get (cw_wal w') sq = Some req \<or> tree_get (cw_wal w') sq = None \<and> (\<exists>w2. settled net cfg req w2))
    \<and> (\<forall>res tr. r = Inr (res, tr) \<longrightarrow> is_terminal res \<longrightarrow> tree_get (cw_wal w') sq = None)
    \<and> (\<forall>e. r = Inl e \<longrightarrow> (\<exists>msg. e = Rejected msg) \<or> (\<exists>k. e = RetryExhausted k) \<longrightarrow> tree_get (cw_wal w') sq = Some req)"
  using assms(1)
proof (cases rule: propose_cases)
  case (no_id e)
  then show ?thesis using next_sequence_id_cases[OF no_id(1)] raisesD[OF raises_next no_id(1)] by (intro exI[of _ "[]"]) auto
next
  case (no_log e w1)
  from raisesD[OF raises_append no_log(2)] have e: "e = Wal WDb" by simp
  have w1: "cw_wal w1 = cw_wal w" "cw_sent w1 = cw_sent w" using next_sequence_id_cases[OF no_log(1)] by simp_all
  from wal_append_frame[OF no_log(2)] w1 assms(2) have "cw_sent w' = cw_sent w" "\<forall>k. k \<noteq> sq \<longrightarrow> tree_get (cw_wal w') k = tree_get (cw_wal w) k"
    by (auto simp: sq_def tree_get_insert)
  with no_log(3) e show ?thesis by (intro exI[of _ "[]"]) auto
next
  case (run w1 w2)
  note f = execute_frame[OF run(3), folded sq_def req_def]
  have w1: "cw_wal w1 = cw_wal w" "cw_sent w1 = cw_sent w" using next_sequence_id_cases[OF run(1)] by simp_all
  have w2: "cw_wal w2 = tree_insert sq req (cw_wal w)" "cw_sent w2 = cw_sent w" using run(2) w1 by (simp_all add: sq_def req_def)
  have get: "tree_get (cw_wal w2) = (tree_get (cw_wal w))(sq \<mapsto> req)" "tree_get (tree_remove sq (cw_wal w2)) = (tree_get (cw_wal w))(sq := None)"
    using assms(2) by (simp_all add: w2 tree_get_insert tree_get_remove tree_insert_ok)
  obtain sent where sent: "cw_sent w' = cw_sent w @ map (\<lambda>a. (a, SentMutation req)) sent" using f w2(2) by auto
  have cases: "cw_wal w' = cw_wal w2 \<or> cw_wal w' = tree_remove sq (cw_wal w2) \<and> settled net cfg req w2" using f by blast
  have kept: "tree_get (cw_wal w') sq = Some req" if "r = Inl e" "(\<exists>msg. e = Rejected msg) \<or> (\<exists>k. e = RetryExhausted k)" for e
    using execute_refused[OF run(3)[folded sq_def req_def]] that get by auto
  have gone: "tree_get (cw_wal w') sq = None" if "r = Inr (res, tr)" "is_terminal res" for res tr
    using f that get by simp
  have other: "tree_get (cw_wal w') k = tree_get (cw_wal w) k" if "k \<noteq> sq" for k using cases get that by auto
  have "tree_get (cw_wal w') sq = Some req \<or> tree_get (cw_wal w') sq = None \<and> (\<exists>w2. settled net cfg req w2)"
    using cases get by auto
  with sent kept gone other show ?thesis by blast
qed

end
