(* ===== verification/Client_Sessions.thy ===== *)
theory Client_Sessions
  imports Client_Properties Ingress_Properties
begin

text \<open>
  Histories of a client over restarts, and the client together with the gateway: the invariant of the client's files, sequence ids that are
  never used twice, recovery of the log in order, a first node that cannot be reached, and a refused request that blocks its session.
\<close>

section \<open>Histories of a client\<close>

text \<open>
  A client starts from a fresh installation, runs operations, and may stop at any point of one and be started again
  on the state file and the log it left. The calls sent are kept across restarts. \<open>Attempt\<close> is the state between two
  turns of the retry loop of a logged intent, \<open>Identified\<close> and \<open>Logged\<close> are the states a proposal passes before its first turn.
\<close>

inductive client_step :: "client_world \<Rightarrow> client_world \<Rightarrow> bool" where
  Propose: "propose_mutation (net :: string network) cfg intent w = (r, w') \<Longrightarrow> client_step w w'"
| Identified: "next_sequence_id w = (r, w') \<Longrightarrow> client_step w w'"
| Logged: "next_sequence_id w = (Inr sq, w1) \<Longrightarrow> wal_append sq (new_request w intent) w1 = (r, w') \<Longrightarrow> client_step w w'"
| Attempt: "tree_get (cw_wal w) sq = Some req \<Longrightarrow>
    attempt_once (net :: string network) cfg (nw_propose net) SentMutation mutation_rejection req n w = (r, w') \<Longrightarrow> client_step w w'"
| Query: "query_state (net :: string network) cfg query_filter version w = (q, w') \<Longrightarrow> client_step w w'"
| Recover: "recover_pending_intents (nets :: sequence_id \<Rightarrow> string network) cfg w = (u, w') \<Longrightarrow> client_step w w'"
| Restart: "load_or_init outcome fresh cid nodes (cw_file w) = (Inr st, f) \<Longrightarrow>
    with_config cfg True (cw_wal w) fails disk st f = Inr w1 \<Longrightarrow> client_step w (w1\<lparr>cw_sent := cw_sent w\<rparr>)"

inductive client_reach :: "client_world \<Rightarrow> bool" where
  Install: "load_or_init outcome fresh cid nodes Missing = (Inr st, f) \<Longrightarrow> with_config cfg True [] fails disk st f = Inr w \<Longrightarrow> client_reach w"
| Step: "client_reach w \<Longrightarrow> client_step w w' \<Longrightarrow> client_reach w'"

definition ids_below :: "nat \<Rightarrow> client_world \<Rightarrow> bool" where
  "ids_below n w \<longleftrightarrow> (\<forall>(k, req) \<in> set (cw_wal w). k \<le> n)
     \<and> (\<forall>req. SentMutation req \<in> snd ` set (cw_sent w) \<longrightarrow> pm_sequence_id req \<le> n)"

definition client_ok :: "client_world \<Rightarrow> bool" where
  "client_ok w \<longleftrightarrow> tree_ok (cw_wal w) \<and> length (cs_known_nodes (cw_state w)) \<le> MAX_KNOWN_NODES
     \<and> (\<forall>(k, req) \<in> set (cw_wal w). pm_sequence_id req = k \<and> pm_client_id req = cs_client_id (cw_state w))
     \<and> ids_below (cs_sequence_id (cw_state w)) w
     \<and> (case cw_file w of
            Missing \<Rightarrow> False
          | Stored st \<Rightarrow> cs_cluster_id st = cs_cluster_id (cw_state w) \<and> cs_client_id st = cs_client_id (cw_state w)
              \<and> cs_sequence_id st \<le> cs_sequence_id (cw_state w) \<and> ids_below (cs_sequence_id st) w
          | _ \<Rightarrow> True)"

lemma ids_below_mono: "ids_below m w \<Longrightarrow> m \<le> n \<Longrightarrow> ids_below n w"
  by (fastforce simp: ids_below_def)

lemma ids_below_sent:
  assumes "ids_below n w" "cw_wal w' = cw_wal w" "\<forall>k req. (k, req) \<in> set (cw_wal w) \<longrightarrow> pm_sequence_id req = k"
    and "\<And>req. SentMutation req \<in> snd ` set (cw_sent w') \<Longrightarrow> SentMutation req \<in> snd ` set (cw_sent w) \<or> (\<exists>k. (k, req) \<in> set (cw_wal w))"
  shows "ids_below n w'"
  unfolding ids_below_def
proof (intro conjI allI impI)
  fix req assume "SentMutation req \<in> snd ` set (cw_sent w')"
  with assms(4) consider "SentMutation req \<in> snd ` set (cw_sent w)" | k where "(k, req) \<in> set (cw_wal w)" by blast
  then show "pm_sequence_id req \<le> n"
    using assms(1,3) by cases (auto simp: ids_below_def)
qed (use assms(1,2) in \<open>simp add: ids_below_def\<close>)

lemma session_ok:
  assumes "client_ok w" "same_session w w'"
    and "\<And>req. SentMutation req \<in> snd ` set (cw_sent w') \<Longrightarrow> SentMutation req \<in> snd ` set (cw_sent w) \<or> (\<exists>k. (k, req) \<in> set (cw_wal w))"
  shows "client_ok w'"
proof -
  have wal: "cw_wal w' = cw_wal w" and r: "records (cw_state w') (cw_state w)" using assms(2) by (simp_all add: same_session_def)
  have keys: "\<forall>k req. (k, req) \<in> set (cw_wal w) \<longrightarrow> pm_sequence_id req = k" using assms(1) by (auto simp: client_ok_def)
  note below = ids_below_sent[OF _ wal keys assms(3)]
  have on_disk: "case cw_file w' of Missing \<Rightarrow> False
      | Stored st \<Rightarrow> cs_cluster_id st = cs_cluster_id (cw_state w') \<and> cs_client_id st = cs_client_id (cw_state w')
          \<and> cs_sequence_id st \<le> cs_sequence_id (cw_state w') \<and> ids_below (cs_sequence_id st) w'
      | _ \<Rightarrow> True"
  proof -
    from assms(2) consider "cw_file w' = cw_file w" | "cw_file w' = Garbled" | st where "cw_file w' = Stored st" "records st (cw_state w)"
      by (auto simp: same_session_def)
    then show ?thesis
      using assms(1) r below by cases (auto simp: client_ok_def records_def split: state_file.splits)
  qed
  have "tree_ok (cw_wal w')" "length (cs_known_nodes (cw_state w')) \<le> MAX_KNOWN_NODES"
    using assms(1,2) by (simp_all add: client_ok_def same_session_def)
  moreover have "ids_below (cs_sequence_id (cw_state w')) w'" using assms(1) r below by (simp add: client_ok_def records_def)
  moreover have "\<forall>(k, req) \<in> set (cw_wal w'). pm_sequence_id req = k \<and> pm_client_id req = cs_client_id (cw_state w')"
    using assms(1) r by (simp add: client_ok_def records_def wal)
  ultimately show ?thesis using on_disk unfolding client_ok_def by blast
qed

lemma forget_ok:
  assumes "client_ok w"
  shows "client_ok (w\<lparr>cw_wal := tree_remove sq (cw_wal w)\<rparr>)"
proof -
  have "ids_below n (w\<lparr>cw_wal := tree_remove sq (cw_wal w)\<rparr>)" if "ids_below n w" for n
    using that by (auto simp: ids_below_def tree_remove_def)
  moreover have "set (tree_remove sq (cw_wal w)) \<subseteq> set (cw_wal w)" by (auto simp: tree_remove_def)
  ultimately show ?thesis using assms by (auto simp: client_ok_def tree_remove_ok split: state_file.splits)
qed

lemma execute_ok:
  assumes "client_ok w" "(sq, payload) \<in> set (cw_wal w)" "execute_mutation net cfg sq payload w = (r, w')"
  shows "client_ok w'"
proof -
  note f = execute_frame[OF assms(3)]
  let ?w = "w'\<lparr>cw_wal := cw_wal w\<rparr>"
  obtain addrs where "cw_sent ?w = cw_sent w @ map (\<lambda>a. (a, SentMutation payload)) addrs" using f by auto
  then have "client_ok ?w" using f assms(2) by (intro session_ok[OF assms(1)]) auto
  then have "client_ok (?w\<lparr>cw_wal := tree_remove sq (cw_wal ?w)\<rparr>)" by (rule forget_ok)
  moreover have "cw_wal w' = cw_wal w \<or> cw_wal w' = tree_remove sq (cw_wal w)" using f by blast
  then have "w' = ?w \<or> w' = ?w\<lparr>cw_wal := tree_remove sq (cw_wal ?w)\<rparr>" by auto
  ultimately show ?thesis using \<open>client_ok ?w\<close> by metis
qed

lemma next_id_ok:
  assumes "client_ok w" "next_sequence_id w = (r, w')"
  shows "client_ok w'"
proof -
  note n = next_sequence_id_cases[OF assms(2)]
  have below: "ids_below k w' \<longleftrightarrow> ids_below k w" for k using n by (simp add: ids_below_def)
  have seq: "ids_below (cs_sequence_id (cw_state w')) w'"
    using assms(1) n below ids_below_mono by (auto simp: client_ok_def)
  from n consider "cw_file w' = cw_file w" | "cw_file w' = Garbled" | "cw_file w' = Stored (cw_state w')" by blast
  then have "case cw_file w' of Missing \<Rightarrow> False
      | Stored st \<Rightarrow> cs_cluster_id st = cs_cluster_id (cw_state w') \<and> cs_client_id st = cs_client_id (cw_state w')
          \<and> cs_sequence_id st \<le> cs_sequence_id (cw_state w') \<and> ids_below (cs_sequence_id st) w'
      | _ \<Rightarrow> True"
    using assms(1) n below seq by cases (auto simp: client_ok_def split: state_file.splits intro: order_trans)
  then show ?thesis using assms(1) n seq by (simp add: client_ok_def)
qed

lemma insert_ok:
  assumes "client_ok w" "cw_file w = Stored (cw_state w)" "pm_sequence_id req = cs_sequence_id (cw_state w)"
    "pm_client_id req = cs_client_id (cw_state w)"
  shows "client_ok (w\<lparr>cw_wal := tree_insert (cs_sequence_id (cw_state w)) req (cw_wal w)\<rparr>)" (is "client_ok ?w")
proof -
  have entries: "set (cw_wal ?w) \<subseteq> insert (cs_sequence_id (cw_state w), req) (set (cw_wal w))" "tree_ok (cw_wal ?w)"
    using assms(1) by (auto simp: client_ok_def set_tree_insert tree_insert_ok)
  then have "ids_below (cs_sequence_id (cw_state w)) ?w" using assms(1) by (auto simp: client_ok_def ids_below_def)
  with entries assms show ?thesis by (auto simp: client_ok_def)
qed

lemma propose_ok:
  assumes "client_ok w" "propose_mutation net cfg intent w = (r, w')"
  shows "client_ok w'"
  using assms(2)
proof (cases rule: propose_cases)
  case (no_id e)
  then show ?thesis using next_id_ok[OF assms(1)] by blast
next
  case (no_log e w1)
  note n = next_sequence_id_cases[OF no_log(1)]
  have "client_ok w1" using next_id_ok[OF assms(1) no_log(1)] .
  moreover from this have "client_ok (w1\<lparr>cw_wal := tree_insert (Suc (cs_sequence_id (cw_state w))) (new_request w intent) (cw_wal w1)\<rparr>)"
    using n insert_ok[of w1 "new_request w intent"] by (simp add: new_request_def new_propose_mutation_request_def)
  ultimately show ?thesis using wal_append_frame[OF no_log(2)] by auto
next
  case (run w1 w2)
  note n = next_sequence_id_cases[OF run(1)]
  have w1: "client_ok w1" using next_id_ok[OF assms(1) run(1)] .
  then have "client_ok w2"
    using n insert_ok[of w1 "new_request w intent"] by (simp add: run(2) new_request_def new_propose_mutation_request_def)
  moreover have "(Suc (cs_sequence_id (cw_state w)), new_request w intent) \<in> set (cw_wal w2)"
    using w1 by (simp add: run(2) client_ok_def set_tree_insert)
  ultimately show ?thesis using execute_ok run(3) by blast
qed

lemma collect_wal_Inr: "collect_wal fails t = Inr ds \<Longrightarrow> ds = t"
  by (induction t arbitrary: ds) (auto simp: res_bind_Inr_iff decode_entry_def split: if_splits)

lemma wal_recover_Inr: "wal_recover w = Inr pending \<Longrightarrow> tree_ok (cw_wal w) \<Longrightarrow> pending = cw_wal w"
proof -
  assume "wal_recover w = Inr pending" "tree_ok (cw_wal w)"
  moreover have "sorted (map fst (cw_wal w))"
    using \<open>tree_ok (cw_wal w)\<close> by (auto simp: tree_ok_def sorted_map intro: sorted_wrt_mono_rel[rotated])
  ultimately show ?thesis
    by (auto simp: wal_recover_def map_ok_Inr_iff dest!: collect_wal_Inr) (simp add: sort_key_id_if_sorted)
qed

lemma repropose_ok:
  assumes "client_ok w" "repropose_all nets cfg pending w = (r, w')" "set pending \<subseteq> set (cw_wal w)" "distinct (map fst pending)"
  shows "client_ok w'"
  using assms
proof (induction pending arbitrary: w)
  case Nil
  then show ?case by simp
next
  case (Cons e pending)
  obtain sq req where e: "e = (sq, req)" by (cases e)
  from Cons.prems(2) e have "st_bind (repropose_mutation (nets sq) cfg sq req) (\<lambda>_. repropose_all nets cfg pending) w = (r, w')" by simp
  then show ?case
  proof (cases rule: st_bind_cases)
    case (error x)
    then show ?thesis using execute_ok[OF Cons.prems(1)] Cons.prems(3) e by (auto simp: repropose_mutation_def)
  next
    case (ok a w1)
    then have run: "execute_mutation (nets sq) cfg sq req w = (Inr a, w1)" by (simp add: repropose_mutation_def)
    have "client_ok w1" using execute_ok[OF Cons.prems(1) _ run] Cons.prems(3) e by simp
    moreover have "set pending \<subseteq> set (cw_wal w1)"
    proof -
      have "cw_wal w1 = cw_wal w \<or> cw_wal w1 = tree_remove sq (cw_wal w)" using execute_frame[OF run] by blast
      then show ?thesis using Cons.prems(3,4) e by (force simp: tree_remove_def)
    qed
    ultimately show ?thesis using Cons.IH ok(2) Cons.prems(4) by simp
  qed
qed

lemma recover_ok:
  assumes "client_ok w" "recover_pending_intents nets cfg w = (r, w')"
  shows "client_ok w'"
proof (cases "wal_recover w")
  case (Inl e)
  with assms show ?thesis by (simp add: recover_pending_intents_def)
next
  case (Inr pending)
  have ok: "tree_ok (cw_wal w)" using assms(1) by (simp add: client_ok_def)
  have "distinct (map fst (cw_wal w))" using ok by (rule tree_ok_distinct)
  with Inr assms wal_recover_Inr[OF Inr ok] show ?thesis
    by (auto simp: recover_pending_intents_def split: if_splits intro: repropose_ok)
qed

lemma query_ok:
  assumes "client_ok w" "query_state net cfg query_filter version w = (r, w')"
  shows "client_ok w'"
proof -
  let ?q = "\<lparr>qs_query_filter = query_filter, qs_min_state_version = version\<rparr>"
  have "retry_loop net cfg (nw_query net) SentQuery query_rejection ?q (length (cs_known_nodes (cw_state w)) + MAX_KNOWN_NODES) 0 w = (r, w')"
    using assms(2) by (simp add: query_state_def dispatch_query_def execute_with_retry_def)
  note f = retry_loop_frame[OF this]
  then obtain addrs where "cw_sent w' = cw_sent w @ map (\<lambda>a. (a, SentQuery ?q)) addrs" by auto
  with f show ?thesis by (intro session_ok[OF assms(1)]) auto
qed

lemma attempt_ok:
  assumes "client_ok w" "tree_get (cw_wal w) sq = Some req"
    and "attempt_once net cfg (nw_propose net) SentMutation mutation_rejection req n w = (r, w')"
  shows "client_ok w'"
proof -
  note f = attempt_frame[OF assms(3)]
  then obtain addrs where "cw_sent w' = cw_sent w @ map (\<lambda>a. (a, SentMutation req)) addrs" by auto
  moreover have "(sq, req) \<in> set (cw_wal w)" using assms(1,2) by (simp add: client_ok_def tree_get_Some_iff)
  ultimately show ?thesis using f by (intro session_ok[OF assms(1)]) auto
qed

lemma load_cases:
  assumes "load_or_init outcome fresh cid nodes f = (Inr st, f')"
  shows "length (cs_known_nodes st) \<le> MAX_KNOWN_NODES \<and> cs_cluster_id st = cid
    \<and> (f = Missing \<and> cs_client_id st = fresh \<and> cs_sequence_id st = 0 \<and> f' = Stored st
       \<or> (\<exists>old. f = Stored old \<and> records st old \<and> (f' = f \<or> f' = Stored st)))"
  using assms
  by (cases f; cases outcome) (auto simp: load_or_init_def records_def Let_def split: if_splits)

lemma restart_ok:
  assumes "client_ok w" "load_or_init outcome fresh cid nodes (cw_file w) = (Inr st, f)"
    and "with_config cfg True (cw_wal w) fails disk st f = Inr w1"
  shows "client_ok (w1\<lparr>cw_sent := cw_sent w\<rparr>)" (is "client_ok ?w")
proof -
  have w1: "cw_state w1 = st" "cw_wal w1 = cw_wal w" "cw_file w1 = f"
    using assms(3) by (auto simp: with_config_def split: if_splits)
  have "cw_file w \<noteq> Missing" using assms(1) by (auto simp: client_ok_def)
  with load_cases[OF assms(2)] obtain old where old: "cw_file w = Stored old" "records st old" "f = Stored old \<or> f = Stored st"
    and nodes: "length (cs_known_nodes st) \<le> MAX_KNOWN_NODES" by auto
  have "ids_below k ?w \<longleftrightarrow> ids_below k w" for k using w1 by (simp add: ids_below_def)
  with assms(1) old nodes w1 show ?thesis by (auto simp: client_ok_def records_def)
qed

lemma step_ok: "client_step w w' \<Longrightarrow> client_ok w \<Longrightarrow> client_ok w'"
proof (induction rule: client_step.induct)
  case (Logged w sq w1 intent r w')
  note n = next_sequence_id_cases[OF Logged(1)]
  have "client_ok w1" using next_id_ok Logged by blast
  moreover from this have "client_ok (w1\<lparr>cw_wal := tree_insert sq (new_request w intent) (cw_wal w1)\<rparr>)"
    using n insert_ok[of w1 "new_request w intent"] by (simp add: new_request_def new_propose_mutation_request_def)
  ultimately show ?case using wal_append_frame[OF Logged(2)] by auto
qed (rule propose_ok next_id_ok attempt_ok query_ok recover_ok restart_ok; assumption)+

lemma install_ok:
  assumes "load_or_init outcome fresh cid nodes Missing = (Inr st, f)" "with_config cfg True [] fails disk st f = Inr w"
  shows "client_ok w"
proof -
  have "cw_state w = st" "cw_wal w = []" "cw_file w = f" "cw_sent w = []"
    using assms(2) by (auto simp: with_config_def split: if_splits)
  with load_cases[OF assms(1)] show ?thesis by (auto simp: client_ok_def ids_below_def)
qed

lemma reach_ok: "client_reach w \<Longrightarrow> client_ok w"
  by (induction rule: client_reach.induct) (auto intro: install_ok step_ok)

text \<open>
  C24 In every state a client can be in, over any number of operations, failed writes, interruptions and restarts: it tracks at
  most ten nodes; every entry of the log is stored under its own sequence id and belongs to this client; and the state file is not missing, and when it
  parses it has the identity of the session and a sequence id that no logged or sent request exceeds.
\<close>
theorem client_files_consistent:
  assumes "client_reach w"
  shows "length (cs_known_nodes (cw_state w)) \<le> 10 \<and> tree_ok (cw_wal w) \<and> cw_file w \<noteq> Missing
    \<and> (\<forall>(k, req) \<in> set (cw_wal w). pm_sequence_id req = k \<and> pm_client_id req = cs_client_id (cw_state w))
    \<and> (\<forall>st. cw_file w = Stored st \<longrightarrow> cs_client_id st = cs_client_id (cw_state w) \<and> ids_below (cs_sequence_id st) w)"
  using reach_ok[OF assms] by (auto simp: client_ok_def MAX_KNOWN_NODES_def split: state_file.splits)

text \<open>
  C21 A sequence id is never used for two mutations, not even across crashes and restarts of the client: whatever a new proposal
  sends carries an id above that of every request in the log and of every request sent before.
\<close>
theorem ids_never_reused:
  assumes "client_reach w" "propose_mutation net cfg intent w = (r, w')"
  shows "\<exists>new. cw_sent w' = cw_sent w @ new \<and> (\<forall>x \<in> set new. \<exists>req. snd x = SentMutation req
    \<and> pm_client_id req = cs_client_id (cw_state w) \<and> pm_intent req = Some intent
    \<and> (\<forall>old. SentMutation old \<in> snd ` set (cw_sent w) \<longrightarrow> pm_sequence_id old < pm_sequence_id req)
    \<and> (\<forall>(k, old) \<in> set (cw_wal w). k < pm_sequence_id req))"
proof -
  have ok: "client_ok w" using reach_ok[OF assms(1)] .
  then have below: "ids_below (cs_sequence_id (cw_state w)) w" "tree_ok (cw_wal w)" by (simp_all add: client_ok_def)
  obtain sent where sent: "cw_sent w' = cw_sent w @ map (\<lambda>a. (a, SentMutation (new_request w intent))) sent"
    using propose_sends[OF assms(2)] by blast
  have "pm_client_id (new_request w intent) = cs_client_id (cw_state w)" "pm_intent (new_request w intent) = Some intent"
    "pm_sequence_id (new_request w intent) = Suc (cs_sequence_id (cw_state w))"
    by (simp_all add: new_request_def new_propose_mutation_request_def)
  with below show ?thesis unfolding sent by (intro exI conjI refl) (auto simp: ids_below_def less_Suc_eq_le)
qed

section \<open>Recovery\<close>

lemma repropose_sends:
  assumes "repropose_all nets cfg pending w = (r, w')"
  shows "\<exists>ns. length ns \<le> length pending \<and> (r = Inr () \<longrightarrow> length ns = length pending \<and> 0 \<notin> set ns)
    \<and> map snd (cw_sent w') = map snd (cw_sent w) @ concat (map2 (\<lambda>n e. replicate n (SentMutation (snd e))) ns pending)"
  using assms
proof (induction pending arbitrary: w)
  case Nil
  then show ?case by simp
next
  case (Cons e pending)
  obtain sq req where e: "e = (sq, req)" by (cases e)
  from Cons.prems e have "st_bind (execute_mutation (nets sq) cfg sq req) (\<lambda>_. repropose_all nets cfg pending) w = (r, w')"
    by (simp add: repropose_mutation_def)
  then show ?case
  proof (cases rule: st_bind_cases)
    case (error x)
    obtain addrs where "cw_sent w' = cw_sent w @ map (\<lambda>a. (a, SentMutation req)) addrs" using execute_frame[OF error(1)] by blast
    with error(2) e show ?thesis by (intro exI[of _ "[length addrs]"]) (simp add: comp_def map_replicate_const)
  next
    case (ok a w1)
    obtain addrs where addrs: "cw_sent w1 = cw_sent w @ map (\<lambda>a. (a, SentMutation req)) addrs" "addrs \<noteq> []"
      using execute_frame[OF ok(1)] by blast
    obtain ns where "length ns \<le> length pending" "r = Inr () \<longrightarrow> length ns = length pending \<and> 0 \<notin> set ns"
      "map snd (cw_sent w') = map snd (cw_sent w1) @ concat (map2 (\<lambda>n e. replicate n (SentMutation (snd e))) ns pending)"
      using Cons.IH[OF ok(2)] by blast
    with addrs e show ?thesis by (intro exI[of _ "length addrs # ns"]) (simp add: comp_def map_replicate_const)
  qed
qed

text \<open>Answers with a status the protocol defines for a mutation.\<close>

definition known_answers :: "'v network \<Rightarrow> bool" where
  "known_answers net \<longleftrightarrow> (\<forall>k addr q p resp. nw_propose net k addr q p = Inr resp \<longrightarrow>
     pr_status (resp_inner resp) \<in> {mutation_status_int MCommitted, mutation_status_int MVetoed, mutation_status_int MRejected})"

lemma execute_settles:
  assumes "execute_mutation net cfg sq payload w = (Inr x, w')" "known_answers net"
  shows "cw_wal w' = tree_remove sq (cw_wal w)"
proof -
  obtain res tr where x: "x = (res, tr)" by (cases x)
  obtain w1 where run: "dispatch_mutation net cfg payload w = (Inr x, w1)"
    using assms(1) by (auto simp: execute_mutation_def elim!: st_bind_InrE split: if_splits)
  with dispatch_frame[OF run] x assms(2) have "pr_status res \<in> {mutation_status_int MCommitted, mutation_status_int MVetoed}"
    unfolding known_answers_def by blast
  then have "is_terminal res" by (auto simp: is_terminal_def mutation_status_try_from_def)
  then show ?thesis using execute_frame[OF assms(1)] x by blast
qed

lemma repropose_empties:
  assumes "repropose_all nets cfg pending w = (Inr (), w')" "\<And>sq. known_answers (nets sq)"
  shows "set (cw_wal w') \<subseteq> {e \<in> set (cw_wal w). fst e \<notin> fst ` set pending}"
  using assms(1)
proof (induction pending arbitrary: w)
  case Nil
  then show ?case by simp
next
  case (Cons e pending)
  obtain sq req where e: "e = (sq, req)" by (cases e)
  from Cons.prems e obtain a w1 where run: "execute_mutation (nets sq) cfg sq req w = (Inr a, w1)" "repropose_all nets cfg pending w1 = (Inr (), w')"
    by (auto simp: repropose_mutation_def elim!: st_bind_InrE)
  have "cw_wal w1 = tree_remove sq (cw_wal w)" using execute_settles[OF run(1) assms(2)] .
  with Cons.IH[OF run(2)] e show ?case by (auto simp: tree_remove_def)
qed

text \<open>
  Startup recovery proposes exactly the logged intents again, each as it was logged and in the order of their sequence
  ids, and stops at the first that fails. When it succeeds every intent was sent, and if the nodes answered with
  statuses of the protocol the log is empty.
\<close>
theorem recovery_in_order:
  assumes "client_reach w" "recover_pending_intents nets cfg w = (r, w')"
  shows "sorted (map fst (cw_wal w)) \<and>
    (\<exists>ns. length ns \<le> length (cw_wal w) \<and> (r = Inr () \<longrightarrow> length ns = length (cw_wal w) \<and> 0 \<notin> set ns)
      \<and> map snd (cw_sent w') = map snd (cw_sent w) @ concat (map2 (\<lambda>n e. replicate n (SentMutation (snd e))) ns (cw_wal w)))
    \<and> (r = Inr () \<and> (\<forall>sq. known_answers (nets sq)) \<longrightarrow> cw_wal w' = [])"
proof -
  have ok: "tree_ok (cw_wal w)" using reach_ok[OF assms(1)] by (simp add: client_ok_def)
  then have sorted: "sorted (map fst (cw_wal w))" by (auto simp: tree_ok_def sorted_map intro: sorted_wrt_mono_rel[rotated])
  show ?thesis
  proof (cases "wal_recover w")
    case (Inl e)
    with assms(2) sorted show ?thesis by (auto simp: recover_pending_intents_def intro!: exI[of _ "[]"])
  next
    case (Inr pending)
    with assms(2) wal_recover_Inr[OF Inr ok] have run: "repropose_all nets cfg (cw_wal w) w = (r, w')"
      by (cases "cw_wal w = []") (auto simp: recover_pending_intents_def)
    have "cw_wal w' = []" if "r = Inr ()" "\<forall>sq. known_answers (nets sq)"
    proof (cases "cw_wal w'")
      case (Cons x xs)
      then have "x \<in> {e \<in> set (cw_wal w). fst e \<notin> fst ` set (cw_wal w)}"
        using repropose_empties[of nets cfg "cw_wal w" w w'] run that by auto
      then show ?thesis using imageI[of x "set (cw_wal w)" fst] by simp
    qed simp
    with repropose_sends[OF run] sorted show ?thesis by blast
  qed
qed

section \<open>A first node that cannot be reached\<close>

definition healthy_client :: "client_world \<Rightarrow> bool" where
  "healthy_client w \<longleftrightarrow> cw_disk w = (\<lambda>_. Saved) \<and> cw_wal_fails w = (\<lambda>_. False)"

lemma unreachable_retry:
  assumes "cw_channel w = None" "cs_known_nodes (cw_state w) = addr # rest" "nw_connect net 1 (client_uri addr) = Unreachable"
  shows "execute_with_retry net cfg rpc wrap rej payload w = (Inl (Transport ''Failed to connect''), w)"
  using assms by (simp add: execute_with_retry_def retry_loop.simps attempt_once_def get_or_connect_def MAX_KNOWN_NODES_def st_bind_def)

lemma propose_healthy:
  assumes "healthy_client w" "is_u64 (Suc (cs_sequence_id (cw_state w)))"
  shows "\<exists>w2. propose_mutation net cfg intent w = execute_mutation net cfg (Suc (cs_sequence_id (cw_state w))) (new_request w intent) w2
    \<and> healthy_client w2 \<and> cw_channel w2 = cw_channel w \<and> cw_sent w2 = cw_sent w
    \<and> cs_known_nodes (cw_state w2) = cs_known_nodes (cw_state w) \<and> cs_cluster_id (cw_state w2) = cs_cluster_id (cw_state w)"
proof -
  let ?sq = "Suc (cs_sequence_id (cw_state w))"
  let ?st = "(cw_state w)\<lparr>cs_sequence_id := ?sq\<rparr>"
  let ?w1 = "w\<lparr>cw_state := ?st, cw_file := Stored ?st, cw_saves := Suc (cw_saves w)\<rparr>"
  let ?w2 = "?w1\<lparr>cw_wal := tree_insert ?sq (new_request w intent) (cw_wal w)\<rparr>"
  have "next_sequence_id w = (Inr ?sq, ?w1)"
    using assms by (simp add: next_sequence_id_def save_def healthy_client_def sequence_id_add_def checked_add_u64_def is_u64_def)
  moreover have "wal_append ?sq (new_request w intent) ?w1 = (Inr (), ?w2)"
    using assms(1) by (simp add: wal_append_def wal_step_def healthy_client_def st_bind_def)
  moreover have "new_propose_mutation_request (cs_client_id (cw_state ?w1)) ?sq intent = new_request w intent"
    by (simp add: new_request_def)
  ultimately have "propose_mutation net cfg intent w = execute_mutation net cfg ?sq (new_request w intent) ?w2"
    by (simp add: propose_mutation_def)
  then show ?thesis using assms(1) by (intro exI[of _ ?w2]) (simp add: healthy_client_def)
qed

text \<open>
  A connection that fails ends the request at once and does not rotate the list of nodes: while the node at its front cannot be
  reached, every query and every mutation of a client without a channel fails, however many of the other nodes are up, and the list stays as it was.
\<close>
theorem unreachable_first_node:
  assumes "cw_channel w = None" "cs_known_nodes (cw_state w) = addr # rest" "nw_connect net 1 (client_uri addr) = Unreachable"
    and "healthy_client w" "is_u64 (Suc (cs_sequence_id (cw_state w)))"
  shows "query_state net cfg query_filter version w = (Inl (Transport ''Failed to connect''), w)
    \<and> (\<exists>w'. propose_mutation net cfg intent w = (Inl (Transport ''Failed to connect''), w')
        \<and> cs_known_nodes (cw_state w') = addr # rest \<and> cw_channel w' = None \<and> cw_sent w' = cw_sent w \<and> healthy_client w')"
proof -
  obtain w2 where w2: "propose_mutation net cfg intent w = execute_mutation net cfg (Suc (cs_sequence_id (cw_state w))) (new_request w intent) w2"
    "healthy_client w2" "cw_channel w2 = None" "cw_sent w2 = cw_sent w" "cs_known_nodes (cw_state w2) = addr # rest"
    using propose_healthy[OF assms(4,5)] assms(1,2) by metis
  have "execute_mutation net cfg (Suc (cs_sequence_id (cw_state w))) (new_request w intent) w2 = (Inl (Transport ''Failed to connect''), w2)"
    unfolding execute_mutation_def dispatch_mutation_def by (rule st_bind_Inl) (rule unreachable_retry[OF w2(3,5) assms(3)])
  moreover have "query_state net cfg query_filter version w = (Inl (Transport ''Failed to connect''), w)"
    unfolding query_state_def dispatch_query_def by (rule unreachable_retry[OF assms(1-3)])
  ultimately show ?thesis using w2 by simp
qed

section \<open>Back-off\<close>

definition jitter_ok :: "(rat \<Rightarrow> rat) \<Rightarrow> bool" where
  "jitter_ok draw \<longleftrightarrow> (\<forall>r > 0. - r \<le> draw r \<and> draw r < r)"

lemma default_millis: "as_millis (cc_initial_backoff default_config) = 100" "as_millis (cc_max_backoff default_config) = 5000"
  by (simp_all add: default_config_def as_millis_def u64_bound_def)

text \<open>
  C34 With the default configuration the delay before the next attempt exists for each of the at most twenty attempts a request can make: it
  is within twenty per cent of a tenth of a second doubled with every attempt and capped at five seconds, so the arithmetic
  never overflows, no delay is longer than six seconds, and drawing the jitter never panics.
\<close>
theorem backoff_bounded:
  assumes "jitter_ok draw" "1 \<le> attempt" "attempt \<le> 20"
  defines "nominal \<equiv> min (100 * 2 ^ (attempt - 1)) 5000"
  shows "\<exists>d. calculate_backoff default_config draw attempt = Some d
    \<and> 4 * nominal \<le> 5 * d + 5 \<and> 5 * d \<le> 6 * nominal \<and> d \<le> 6000"
proof -
  have small: "attempt - 1 < 2 ^ 32" "attempt - 1 < 64" using assms(3) by simp_all
  have e: "(attempt - 1) mod 2 ^ 32 = attempt - 1" using small(1) by (rule mod_less)
  have "(2 :: nat) ^ (attempt - 1) \<le> 2 ^ 19" using assms(3) by (intro power_increasing) auto
  then have cap: "min (min (100 * 2 ^ (attempt - 1)) (u64_bound - 1)) 5000 = nominal"
    unfolding nominal_def by (simp add: u64_bound_def)
  have pos: "0 < nominal" "nominal \<le> 5000" by (simp_all add: nominal_def)
  let ?j = "draw (of_nat nominal * (1 / 5))"
  let ?d = "nat \<lfloor>max 0 (of_nat nominal + ?j)\<rfloor>"
  have j: "- (of_nat nominal * (1 / 5)) \<le> ?j" "?j < of_nat nominal * (1 / 5)"
  proof -
    have "0 < of_nat nominal * (1 / 5 :: rat)" using pos(1) by simp
    then show "- (of_nat nominal * (1 / 5)) \<le> ?j" "?j < of_nat nominal * (1 / 5)" using assms(1) unfolding jitter_ok_def by blast+
  qed
  have sum: "0 \<le> of_nat nominal + ?j" using j(1) pos(1) by (simp add: field_simps)
  then have d: "of_nat ?d \<le> of_nat nominal + ?j" "of_nat nominal + ?j < of_nat ?d + 1" by (simp_all add: max_def) linarith+
  have "of_nat (5 * ?d) < (of_nat (6 * nominal) :: rat)" using d(1) j(2) by simp
  then have upper: "5 * ?d \<le> 6 * nominal" by (simp only: of_nat_less_iff)
  have "(of_nat (4 * nominal) :: rat) < of_nat (5 * ?d + 5)" using d(2) j(1) by simp
  then have lower: "4 * nominal \<le> 5 * ?d + 5" by (simp only: of_nat_less_iff)
  have "?d \<le> 6000" using upper pos(2) by simp
  moreover have "calculate_backoff default_config draw attempt = Some (min (u64_bound - 1) ?d)"
  proof -
    have "attempt \<noteq> 0" "cc_initial_backoff default_config \<noteq> 0" "of_nat nominal * (1 / 5) \<noteq> (0 :: rat)"
      using assms(2) pos(1) by (simp_all add: default_config_def)
    then show ?thesis
      unfolding calculate_backoff_def Let_def e default_millis cap using small(2) by simp
  qed
  moreover have "min (u64_bound - 1) ?d = ?d" using \<open>?d \<le> 6000\<close> by (simp add: u64_bound_def)
  ultimately show ?thesis using upper lower by simp
qed

lemma backoff_defined: "1 \<le> n \<Longrightarrow> n \<le> 20 \<Longrightarrow> calculate_backoff default_config draw n \<noteq> None"
  by (simp add: calculate_backoff_def Let_def default_millis) (simp add: default_config_def u64_bound_def)

section \<open>A refused request blocks its session\<close>

text \<open>The network reaches a leader that answers every call with its ingress pipeline over the ledger \<open>s\<close>.\<close>

definition leader_serves ::
  "'d decimal_ops \<Rightarrow> ingress_config \<Rightarrow> fsm_codec \<Rightarrow> (committed_mutation \<Rightarrow> bytes) \<Rightarrow> (nat \<Rightarrow> mutation_obs) \<Rightarrow> (nat \<Rightarrow> world) \<Rightarrow>
     fsm_store \<Rightarrow> string \<Rightarrow> 'v network \<Rightarrow> bool" where
  "leader_serves D config c encode ob node s cid net \<longleftrightarrow>
     (\<forall>k. mo_session_fsm (ob k) = s \<and> is_leader (mo_authority (ob k)) \<and> \<not> auth_poisoned (mo_authority (ob k)))
     \<and> (\<forall>k u. nw_connect net k u = Connected) \<and> header_of_str (nw_text net) cid \<noteq> None
     \<and> (\<forall>k addr q p. fst (handle_propose_mutation D config c encode (ob k) p (node k)) = Inr (map_ok resp_inner (nw_propose net k addr q p)))"

lemma rotate_healthy:
  assumes "healthy_client w"
  shows "\<exists>w'. rotate_nodes w = (Inr (), w') \<and> healthy_client w' \<and> cs_cluster_id (cw_state w') = cs_cluster_id (cw_state w)
    \<and> (cs_known_nodes (cw_state w) \<noteq> [] \<longrightarrow> cs_known_nodes (cw_state w') \<noteq> [])"
  using assms by (auto simp: rotate_nodes_def set_nodes_def save_def healthy_client_def)

lemma rejected_attempt:
  assumes "healthy_client w" "cs_known_nodes (cw_state w) \<noteq> []" "\<forall>k u. nw_connect net k u = Connected"
    and "header_of_str (nw_text net) (cs_cluster_id (cw_state w)) \<noteq> None"
    and "\<And>addr q. \<exists>resp. rpc n addr q payload = Inr resp \<and> rej (resp_inner resp) = (True, [])"
    and "calculate_backoff cfg (nw_jitter net n) n \<noteq> None"
  shows "\<exists>w'. attempt_once net cfg rpc wrap rej payload n w = (Inr None, w') \<and> healthy_client w' \<and> cs_known_nodes (cw_state w') \<noteq> []
    \<and> cs_cluster_id (cw_state w') = cs_cluster_id (cw_state w)"
proof -
  obtain addr w1 where conn: "get_or_connect net n w = (Inr addr, w1)" "healthy_client w1" "cw_state w1 = cw_state w"
  proof (cases "cw_channel w")
    case None
    obtain a rest where "cs_known_nodes (cw_state w) = a # rest" using assms(2) by (cases "cs_known_nodes (cw_state w)") auto
    with None assms(1,3) that[of a "w\<lparr>cw_channel := Some a\<rparr>"] show thesis by (simp add: get_or_connect_def healthy_client_def)
  next
    case (Some a)
    with assms(1) that[of a w] show thesis by (simp add: get_or_connect_def)
  qed
  obtain req where req: "cluster_request net w1 = Inr req"
    using assms(4) conn(3) by (auto simp: cluster_request_def inject_cluster_id_into_request_def)
  let ?w2 = "w1\<lparr>cw_sent := cw_sent w1 @ [(addr, wrap payload)]\<rparr>"
  have "healthy_client ?w2" using conn(2) by (simp add: healthy_client_def)
  from rotate_healthy[OF this] obtain w3 where rot: "rotate_nodes ?w2 = (Inr (), w3)" "healthy_client w3"
    "cs_cluster_id (cw_state w3) = cs_cluster_id (cw_state w)" "cs_known_nodes (cw_state w3) \<noteq> []" using assms(2) conn(3) by auto
  obtain d where d: "calculate_backoff cfg (nw_jitter net n) n = Some d" using assms(6) by blast
  obtain resp where resp: "rpc n addr req payload = Inr resp" "rej (resp_inner resp) = (True, [])" using assms(5) by blast
  let ?w4 = "w3\<lparr>cw_channel := None, cw_slept := cw_slept w3 @ [d]\<rparr>"
  have "reconcile_routing_failure net cfg (Some []) n ?w2 = (Inr (), ?w4)"
    by (simp add: reconcile_routing_failure_def handle_transport_error_def drop_channel_def d rot(1))
  then have "settle net cfg rej n (rpc n addr req payload) ?w2 = (Inr None, ?w4)" by (simp add: settle_def resp)
  then have "attempt_once net cfg rpc wrap rej payload n w = (Inr None, ?w4)"
    by (simp add: attempt_once_def conn(1) req)
  then show ?thesis using rot by (simp add: healthy_client_def)
qed

lemma rejected_retries:
  assumes "healthy_client w" "cs_known_nodes (cw_state w) \<noteq> []" "\<forall>k u. nw_connect net k u = Connected"
    and "header_of_str (nw_text net) (cs_cluster_id (cw_state w)) \<noteq> None"
    and "\<And>k addr q. \<exists>resp. rpc k addr q payload = Inr resp \<and> rej (resp_inner resp) = (True, [])"
    and "max_retries \<le> 20" "n \<le> max_retries"
  shows "\<exists>w'. retry_loop net default_config rpc wrap rej payload max_retries n w = (Inl (RetryExhausted max_retries), w')"
  using assms(1,2,4,7)
proof (induction "max_retries - n" arbitrary: n w)
  case 0
  then show ?case by (subst retry_loop.simps) simp
next
  case (Suc m)
  then have "n < max_retries" by simp
  moreover obtain w1 where once: "attempt_once net default_config rpc wrap rej payload (Suc n) w = (Inr None, w1)" "healthy_client w1"
    "cs_known_nodes (cw_state w1) \<noteq> []" "cs_cluster_id (cw_state w1) = cs_cluster_id (cw_state w)"
  proof -
    have "calculate_backoff default_config (nw_jitter net (Suc n)) (Suc n) \<noteq> None"
      using \<open>n < max_retries\<close> assms(6) by (intro backoff_defined) simp_all
    from rejected_attempt[where rpc = rpc and rej = rej and payload = payload and wrap = wrap, OF Suc.prems(1,2) assms(3) Suc.prems(3) assms(5) this]
    show thesis using that by blast
  qed
  moreover have "\<exists>w'. retry_loop net default_config rpc wrap rej payload max_retries (Suc n) w1 = (Inl (RetryExhausted max_retries), w')"
    using Suc.hyps(2) calculation Suc.prems(3) by (intro Suc.hyps(1)) auto
  ultimately show ?case by (subst retry_loop.simps) simp
qed

lemma propose_refused:
  assumes "propose_mutation net cfg intent w = (Inl (Rejected msg), w')" "tree_ok (cw_wal w)"
  defines "sq \<equiv> Suc (cs_sequence_id (cw_state w))"
  shows "tree_get (cw_wal w') sq = Some (new_request w intent) \<and> cs_sequence_id (cw_state w') = sq
    \<and> cs_client_id (cw_state w') = cs_client_id (cw_state w) \<and> cs_cluster_id (cw_state w') = cs_cluster_id (cw_state w)
    \<and> (healthy_client w \<longrightarrow> healthy_client w') \<and> (cs_known_nodes (cw_state w) \<noteq> [] \<longrightarrow> cs_known_nodes (cw_state w') \<noteq> [])
    \<and> (length (cs_known_nodes (cw_state w)) \<le> MAX_KNOWN_NODES \<longrightarrow> length (cs_known_nodes (cw_state w')) \<le> MAX_KNOWN_NODES)"
  using assms(1)
proof (cases rule: propose_cases)
  case (no_id e)
  with raisesD[OF raises_next no_id(1)] show ?thesis by auto
next
  case (no_log e w1)
  with raisesD[OF raises_append no_log(2)] show ?thesis by auto
next
  case (run w1 w2)
  note n = next_sequence_id_cases[OF run(1)]
  have "same_session w2 (w'\<lparr>cw_wal := cw_wal w2\<rparr>)" using execute_frame[OF run(3)] by blast
  moreover have "cw_wal w' = cw_wal w2" using execute_refused[OF run(3)] by simp
  moreover have "tree_get (cw_wal w2) sq = Some (new_request w intent)" using assms(2) n by (simp add: run(2) sq_def tree_get_insert)
  ultimately show ?thesis using n by (simp add: run(2) same_session_def records_def healthy_client_def sq_def)
qed

lemma leader_rejects:
  assumes "leader_serves D config c encode ob node s cid net" "fsm_ready s" "parse_uuid c (pm_client_id p) = Some (pm_client_id p)"
    and "pm_sequence_id p = Suc (Suc (last_seen (fsm_abs s) (pm_client_id p)))"
  shows "\<exists>resp. nw_propose net k addr q p = Inr resp \<and> mutation_rejection (resp_inner resp) = (True, [])"
proof -
  obtain version msg where "enforce_sequence_firewall (\<lambda>k q. check_session k q s) (pm_client_id p) (pm_sequence_id p) = Inr (Some (rejection version msg))"
    using ledger.firewall_rejects[OF assms(2), of "pm_sequence_id p" "pm_client_id p"] assms(4) by (auto simp: latest_last_seen)
  moreover have "mo_session_fsm (ob k) = s" "is_leader (mo_authority (ob k))" "\<not> auth_poisoned (mo_authority (ob k))"
    using assms(1) by (simp_all add: leader_serves_def)
  ultimately have "fst (handle_propose_mutation D config c encode (ob k) p (node k)) = Inr (Inr (rejection version msg))"
    by (simp add: handle_propose_mutation_def assms(3) authorize_mutation_def authorize_def st_return_def)
  with assms(1) have "map_ok resp_inner (nw_propose net k addr q p) = Inr (rejection version msg)"
    unfolding leader_serves_def by (metis sum.inject(2))
  then obtain resp where "nw_propose net k addr q p = Inr resp" "resp_inner resp = rejection version msg" by (auto simp: map_ok_Inr_iff)
  then show ?thesis by (simp add: mutation_rejection_def rejection_def)
qed

text \<open>
  C40 A mutation the gateway refuses with an error status uses up its sequence id: its intent stays in the client's log, and as the
  ledger never sees the id, the next mutation skips one. From then on the client is locked out. With a healthy client and a leader that answers every call from a ledger that knew
  everything before the refused request, the next mutation is rejected as a gap by every attempt until the client gives up.
\<close>
theorem refused_request_blocks:
  assumes "healthy_client w" "cs_known_nodes (cw_state w) \<noteq> []" "length (cs_known_nodes (cw_state w)) \<le> 10" "tree_ok (cw_wal w)"
    and "is_u64 (Suc (Suc (cs_sequence_id (cw_state w))))"
    and "propose_mutation net1 cfg1 intent1 w = (Inl (Rejected msg), w1)"
    and "fsm_ready s" "last_seen (fsm_abs s) (cs_client_id (cw_state w)) = cs_sequence_id (cw_state w)"
    and "leader_serves D config c encode ob node s (cs_cluster_id (cw_state w)) net2"
    and "parse_uuid c (cs_client_id (cw_state w)) = Some (cs_client_id (cw_state w))"
  shows "tree_get (cw_wal w1) (Suc (cs_sequence_id (cw_state w))) = Some (new_request w intent1)
    \<and> (\<exists>n w2. propose_mutation net2 default_config intent2 w1 = (Inl (RetryExhausted n), w2))"
proof -
  note r = propose_refused[OF assms(6,4)]
  then have w1: "healthy_client w1" "cs_known_nodes (cw_state w1) \<noteq> []" "length (cs_known_nodes (cw_state w1)) \<le> 10"
    "cs_client_id (cw_state w1) = cs_client_id (cw_state w)" "cs_cluster_id (cw_state w1) = cs_cluster_id (cw_state w)"
    "cs_sequence_id (cw_state w1) = Suc (cs_sequence_id (cw_state w))" using assms(1-3) by (simp_all add: MAX_KNOWN_NODES_def)
  obtain w2 where w2: "propose_mutation net2 default_config intent2 w1
      = execute_mutation net2 default_config (Suc (cs_sequence_id (cw_state w1))) (new_request w1 intent2) w2"
    "healthy_client w2" "cs_known_nodes (cw_state w2) = cs_known_nodes (cw_state w1)" "cs_cluster_id (cw_state w2) = cs_cluster_id (cw_state w1)"
    using propose_healthy[OF w1(1)] assms(5) w1(6) by metis
  have req: "pm_client_id (new_request w1 intent2) = cs_client_id (cw_state w)"
    "pm_sequence_id (new_request w1 intent2) = Suc (Suc (cs_sequence_id (cw_state w)))"
    using w1 by (simp_all add: new_request_def new_propose_mutation_request_def)
  have "\<exists>resp. nw_propose net2 k addr q (new_request w1 intent2) = Inr resp \<and> mutation_rejection (resp_inner resp) = (True, [])" for k addr q
    using assms(8,10) by (intro leader_rejects[OF assms(9,7)]) (simp_all add: req)
  moreover have "\<forall>k u. nw_connect net2 k u = Connected" "header_of_str (nw_text net2) (cs_cluster_id (cw_state w2)) \<noteq> None"
    using assms(9) w2(4) w1(5) by (simp_all add: leader_serves_def)
  ultimately obtain w' where "retry_loop net2 default_config (nw_propose net2) SentMutation mutation_rejection (new_request w1 intent2)
      (length (cs_known_nodes (cw_state w2)) + MAX_KNOWN_NODES) 0 w2 = (Inl (RetryExhausted (length (cs_known_nodes (cw_state w2)) + MAX_KNOWN_NODES)), w')"
    using rejected_retries[of w2 net2 "nw_propose net2" "new_request w1 intent2" mutation_rejection
      "length (cs_known_nodes (cw_state w2)) + MAX_KNOWN_NODES" 0 SentMutation] w1(2,3) w2(2,3)
    by (auto simp: MAX_KNOWN_NODES_def)
  then have "dispatch_mutation net2 default_config (new_request w1 intent2) w2
      = (Inl (RetryExhausted (length (cs_known_nodes (cw_state w2)) + MAX_KNOWN_NODES)), w')"
    by (simp add: dispatch_mutation_def execute_with_retry_def)
  then have "execute_mutation net2 default_config (Suc (cs_sequence_id (cw_state w1))) (new_request w1 intent2) w2
      = (Inl (RetryExhausted (length (cs_known_nodes (cw_state w2)) + MAX_KNOWN_NODES)), w')"
    unfolding execute_mutation_def by (rule st_bind_Inl)
  with w2(1) r show ?thesis by auto
qed

section \<open>Concrete runs\<close>

text \<open>A client of two nodes, freshly installed, and networks in which every call gets the same answer.\<close>

definition sample_client :: client_state where
  "sample_client = \<lparr>cs_cluster_id = ''cl'', cs_client_id = ''c1'', cs_sequence_id = 0, cs_known_nodes = [''n1'', ''n2'']\<rparr>"

definition sample_client_world :: client_world where
  "sample_client_world = \<lparr>cw_state = sample_client, cw_file = Stored sample_client, cw_saves = 0, cw_disk = (\<lambda>_. Saved), cw_wal = [],
     cw_wal_fails = (\<lambda>_. False), cw_channel = None, cw_sent = [], cw_slept = []\<rparr>"

definition plain_text :: "string wire_text" where
  "plain_text = \<lparr>header_of_str = Some, header_to_str = Some, uuid_of_str = (\<lambda>_. None), uuid_to_str = (\<lambda>_. [])\<rparr>"

definition answering :: "status + propose_mutation_response response \<Rightarrow> string network" where
  "answering a = \<lparr>nw_text = plain_text, nw_connect = (\<lambda>_ _. Connected), nw_propose = (\<lambda>_ _ _ _. a),
     nw_query = (\<lambda>_ _ _ _. Inl (Status Unavailable [])), nw_jitter = (\<lambda>_ _. 0)\<rparr>"

definition sample_order :: mutation_intent where
  "sample_order = new_mutation_intent ''milk'' (Some ''3'') None None OAdd"

lemma sample_client_reach: "client_reach sample_client_world"
  by (rule client_reach.Install[of Saved "''c1''" "''cl''" "[''n1'', ''n2'']" sample_client "Stored sample_client" default_config "\<lambda>_. False" "\<lambda>_. Saved"])
    (simp_all add: load_or_init_def sample_client_def MAX_KNOWN_NODES_def with_config_def default_config_def sample_client_world_def Let_def)

lemma sample_client_healthy:
  "healthy_client sample_client_world" "cs_known_nodes (cw_state sample_client_world) = [''n1'', ''n2'']" "cw_channel sample_client_world = None"
  "cs_sequence_id (cw_state sample_client_world) = 0" "cs_client_id (cw_state sample_client_world) = ''c1''"
  "cs_cluster_id (cw_state sample_client_world) = ''cl''" "cw_wal sample_client_world = []" "cw_sent sample_client_world = []"
  by (simp_all add: sample_client_world_def healthy_client_def sample_client_def)

text \<open>What the first attempt of a healthy client makes of an answer that ends the request.\<close>

lemma sample_refused:
  "\<exists>w1. propose_mutation (answering (Inl (Status InvalidArgument ''bad''))) default_config sample_order sample_client_world = (Inl (Rejected ''bad''), w1)"
proof -
  obtain w2 where w2: "propose_mutation (answering (Inl (Status InvalidArgument ''bad''))) default_config sample_order sample_client_world
      = execute_mutation (answering (Inl (Status InvalidArgument ''bad''))) default_config 1 (new_request sample_client_world sample_order) w2"
    "cw_channel w2 = None" "cs_known_nodes (cw_state w2) = [''n1'', ''n2'']"
    using propose_healthy[OF sample_client_healthy(1), of "answering (Inl (Status InvalidArgument ''bad''))" default_config sample_order]
    by (auto simp: sample_client_healthy is_u64_def u64_bound_def)
  then show ?thesis
    by (simp add: execute_mutation_def dispatch_mutation_def execute_with_retry_def retry_loop.simps MAX_KNOWN_NODES_def attempt_once_def
        get_or_connect_def answering_def cluster_request_def inject_cluster_id_into_request_def plain_text_def settle_def st_bind_def)
qed

theorem retry_bounded_witness:
  "\<exists>r w' addrs. dispatch_mutation (answering (Inl (Status Unavailable []))) default_config (new_request sample_client_world sample_order) sample_client_world
     = (r, w') \<and> cw_sent w' = map (\<lambda>a. (a, SentMutation (new_request sample_client_world sample_order))) addrs \<and> length addrs \<le> 12"
proof -
  let ?net = "answering (Inl (Status Unavailable []))"
  obtain r w' where run: "execute_with_retry ?net default_config (nw_propose ?net) SentMutation mutation_rejection
      (new_request sample_client_world sample_order) sample_client_world = (r, w')" by fastforce
  from retry_bounded[OF run] show ?thesis using run by (auto simp: dispatch_mutation_def sample_client_healthy)
qed

theorem log_before_send_witness:
  "\<exists>r w' sent. propose_mutation (answering (Inl (Status InvalidArgument ''bad''))) default_config sample_order sample_client_world = (r, w')
     \<and> cw_sent w' = map (\<lambda>a. (a, SentMutation (new_request sample_client_world sample_order))) sent
     \<and> tree_get (cw_wal w') 1 = Some (new_request sample_client_world sample_order)"
proof -
  obtain w' where run: "propose_mutation (answering (Inl (Status InvalidArgument ''bad''))) default_config sample_order sample_client_world
      = (Inl (Rejected ''bad''), w')" using sample_refused by blast
  from log_before_send[OF run] show ?thesis using run by (auto simp: sample_client_healthy)
qed

text \<open>After a refused proposal, whose intent stays in the log.\<close>
theorem client_files_consistent_witness:
  "\<exists>w1. propose_mutation (answering (Inl (Status InvalidArgument ''bad''))) default_config sample_order sample_client_world
       = (Inl (Rejected ''bad''), w1)
     \<and> length (cs_known_nodes (cw_state w1)) \<le> 10 \<and> tree_ok (cw_wal w1) \<and> cw_file w1 \<noteq> Missing
     \<and> list_all (\<lambda>(k, req). pm_sequence_id req = k \<and> pm_client_id req = cs_client_id (cw_state w1)) (cw_wal w1)"
proof -
  obtain w1 where run1: "propose_mutation (answering (Inl (Status InvalidArgument ''bad''))) default_config sample_order sample_client_world
      = (Inl (Rejected ''bad''), w1)" using sample_refused by blast
  have "client_reach w1" by (rule client_reach.Step[OF sample_client_reach client_step.Propose[OF run1]])
  from client_files_consistent[OF this] run1 show ?thesis by (auto simp: list_all_iff)
qed

theorem ids_never_reused_witness:
  "\<exists>r w' new. propose_mutation (answering (Inl (Status InvalidArgument ''bad''))) default_config sample_order sample_client_world = (r, w')
     \<and> cw_sent w' = new \<and> list_all (\<lambda>x. \<exists>req. snd x = SentMutation req \<and> pm_client_id req = ''c1'') new"
proof -
  obtain w' where run: "propose_mutation (answering (Inl (Status InvalidArgument ''bad''))) default_config sample_order sample_client_world
      = (Inl (Rejected ''bad''), w')" using sample_refused by blast
  from ids_never_reused[OF sample_client_reach run] show ?thesis using run by (fastforce simp: sample_client_healthy list_all_iff)
qed

theorem recovery_in_order_witness:
  "\<exists>w1 w' r ns. propose_mutation (answering (Inl (Status InvalidArgument ''bad''))) default_config sample_order sample_client_world
       = (Inl (Rejected ''bad''), w1) \<and> sorted (map fst (cw_wal w1))
     \<and> recover_pending_intents (\<lambda>_. answering (Inl (Status InvalidArgument ''bad''))) default_config w1 = (r, w')
     \<and> map snd (cw_sent w') = map snd (cw_sent w1) @ concat (map2 (\<lambda>n e. replicate n (SentMutation (snd e))) ns (cw_wal w1))"
proof -
  obtain w1 where run1: "propose_mutation (answering (Inl (Status InvalidArgument ''bad''))) default_config sample_order sample_client_world
      = (Inl (Rejected ''bad''), w1)" using sample_refused by blast
  have reach: "client_reach w1" by (rule client_reach.Step[OF sample_client_reach client_step.Propose[OF run1]])
  obtain r w' where run: "recover_pending_intents (\<lambda>_. answering (Inl (Status InvalidArgument ''bad''))) default_config w1 = (r, w')" by fastforce
  from recovery_in_order[OF reach run] show ?thesis using run1 run by blast
qed

theorem unreachable_first_node_witness:
  "query_state ((answering (Inl (Status Unavailable [])))\<lparr>nw_connect := \<lambda>_ u. if u = ''http://n1'' then Unreachable else Connected\<rparr>)
     default_config None None sample_client_world = (Inl (Transport ''Failed to connect''), sample_client_world)"
  by (rule conjunct1[OF unreachable_first_node[OF sample_client_healthy(3,2)]])
    (simp_all add: client_uri_def starts_with_def sample_client_healthy is_u64_def u64_bound_def)

theorem backoff_bounded_witness: "\<exists>d. calculate_backoff default_config (\<lambda>_. 0) 7 = Some d \<and> d \<le> 6000"
  using backoff_bounded[of "\<lambda>_. 0" 7] by (auto simp: jitter_ok_def)

text \<open>A leader whose policy service times out answers every request without proposing.\<close>

definition idle_obs :: mutation_obs where
  "idle_obs = (sample_obs empty_fsm)\<lparr>mo_relay := \<lambda>_ _ _. Inl VTimeout\<rparr>"

definition idle_answer :: "propose_mutation_request \<Rightarrow> status + propose_mutation_response" where
  "idle_answer p =
     (case fst (handle_propose_mutation whole_numbers sample_config sample_codec (\<lambda>_. []) idle_obs p (sample_node (Leader sample_leader), sample_store 1)) of
        Inr x \<Rightarrow> x | Inl _ \<Rightarrow> Inl (Status Internal []))"

lemma idle_returns:
  "fst (handle_propose_mutation whole_numbers sample_config sample_codec (\<lambda>_. []) idle_obs p (sample_node (Leader sample_leader), sample_store 1))
     = Inr (idle_answer p)"
proof -
  have "\<exists>e. resolve_semantic_mutation whole_numbers (mo_relay idle_obs) sample_config intent stock = Inl e" for intent stock
    by (simp add: resolve_semantic_mutation_def resolve_attempts.simps evaluate_policy_def idle_obs_def sample_config_def)
  then have "prepare_proposal whole_numbers sample_config idle_obs client p st \<noteq> Inr q" for client st q
    using prepare_proposal_Inr by (metis Inl_Inr_False)
  then have seq: "sequenced_mutation whole_numbers sample_config (\<lambda>_. []) idle_obs client p st
      = st_return (Inl (projl (prepare_proposal whole_numbers sample_config idle_obs client p st)))" for client st
    by (cases "prepare_proposal whole_numbers sample_config idle_obs client p st") (simp_all add: sequenced_mutation_def)
  have "\<exists>x. fst (handle_propose_mutation whole_numbers sample_config sample_codec (\<lambda>_. []) idle_obs p w) = Inr x" for w
    by (simp add: handle_propose_mutation_def seq split: option.split authority_outcome.split sum.split)
  then obtain x where "fst (handle_propose_mutation whole_numbers sample_config sample_codec (\<lambda>_. []) idle_obs p
      (sample_node (Leader sample_leader), sample_store 1)) = Inr x" by blast
  then show ?thesis by (simp only: idle_answer_def sum.case)
qed

definition idle_leader :: "string network" where
  "idle_leader = (answering (Inl (Status Unavailable [])))\<lparr>nw_propose := \<lambda>_ _ _ p. map_ok (\<lambda>x. \<lparr>resp_trace = None, resp_inner = x\<rparr>) (idle_answer p)\<rparr>"

lemma idle_leader_serves:
  "leader_serves whole_numbers sample_config sample_codec (\<lambda>_. []) (\<lambda>_. idle_obs) (\<lambda>_. (sample_node (Leader sample_leader), sample_store 1))
     empty_fsm ''cl'' idle_leader"
proof -
  have "map_ok resp_inner (map_ok (\<lambda>x. \<lparr>resp_trace = None, resp_inner = x\<rparr>) y) = y" for y :: "status + propose_mutation_response"
    by (cases y) simp_all
  then show ?thesis
    using idle_returns
    by (simp add: leader_serves_def idle_leader_def answering_def plain_text_def)
      (simp add: idle_obs_def sample_obs_def sample_authority_def)
qed

theorem refused_request_blocks_witness:
  "\<exists>w1 n w2. propose_mutation (answering (Inl (Status InvalidArgument ''bad''))) default_config sample_order sample_client_world
       = (Inl (Rejected ''bad''), w1)
     \<and> propose_mutation idle_leader default_config sample_order w1 = (Inl (RetryExhausted n), w2)"
proof -
  obtain w1 where run: "propose_mutation (answering (Inl (Status InvalidArgument ''bad''))) default_config sample_order sample_client_world
      = (Inl (Rejected ''bad''), w1)" using sample_refused by blast
  have "parse_uuid sample_codec ''c1'' = Some ''c1''" "last_seen (fsm_abs empty_fsm) ''c1'' = 0"
    by (simp_all add: sample_codec_def last_seen_def fsm_abs_def empty_fsm_def tree_get_def)
  then show ?thesis
    using refused_request_blocks[OF sample_client_healthy(1) _ _ _ _ run empty_fsm_ready _ idle_leader_serves[folded sample_client_healthy(6)]] run
    by (simp add: sample_client_healthy is_u64_def u64_bound_def)
qed

end
