(* ===== verification/Repl.thy ===== *)
theory Repl
  imports Client_Sessions
begin

text \<open>
  \<open>crates/client-cli/src/repl.rs\<close>: parsing of command lines, their display, the execution of a command and the
  interactive loop. Splitting a line into words with shell quoting is the work of a library and a parameter,
  \<open>split\<close>. The console is a pair of the lines still to be read and the text written; a read that fails is the value
  \<open>ReadError\<close>, and the \<open>n\<close>-th write fails as the environment says. Numbers in messages are kept, error
  texts of parse failures are the fixed part of the source's.
\<close>

section \<open>Commands\<close>

datatype repl_error =
    Syntax string
  | Usage string
  | ReplClient client_error
  | ReplIo

record mutation_args =
  ma_item_key :: string
  ma_quantity :: string
  ma_unit :: "string option"
  ma_category :: "string option"

definition nth_opt :: "'a list \<Rightarrow> nat \<Rightarrow> 'a option" where
  "nth_opt xs i = (if i < length xs then Some (xs ! i) else None)"

definition parse_args :: "string list \<Rightarrow> string \<Rightarrow> repl_error + mutation_args" where
  "parse_args args cmd_name =
     (if length args < 2 then Inl (Usage (cmd_name @ '' <item_key> <quantity> [unit] [category]''))
      else if length args > 4 then Inl (Syntax ''Too many arguments'')
      else Inr \<lparr>ma_item_key = args ! 0, ma_quantity = args ! 1, ma_unit = nth_opt args 2, ma_category = nth_opt args 3\<rparr>)"

definition into_intent :: "mutation_args \<Rightarrow> operation_type \<Rightarrow> mutation_intent" where
  "into_intent a ot = new_mutation_intent (ma_item_key a) (Some (ma_quantity a)) (ma_unit a) (ma_category a) ot"

definition args_to_string :: "mutation_args \<Rightarrow> string" where
  "args_to_string a =
     ma_item_key a @ '' '' @ ma_quantity a @ (case ma_unit a of None \<Rightarrow> [] | Some u \<Rightarrow> '' '' @ u)
     @ (case ma_category a of None \<Rightarrow> [] | Some c \<Rightarrow> '' (category: '' @ c @ '')'')"

datatype command =
    Add mutation_args
  | Subtract mutation_args
  | SetTo mutation_args
  | Delete string
  | QueryLedger "string option" "u64 option"
  | Exit

definition parse_query :: "string list \<Rightarrow> repl_error + command" where
  "parse_query args =
     (if length args > 2 then Inl (Syntax ''Too many arguments'')
      else res_bind (case nth_opt args 1 of
                       None \<Rightarrow> Inr None
                     | Some v \<Rightarrow> map_ok Some (map_err (\<lambda>_. Syntax ''Invalid min_state_version'') (parse_u64 v)))
             (\<lambda>version. Inr (QueryLedger (nth_opt args 0) version)))"

definition parse_tokens :: "string \<Rightarrow> string list \<Rightarrow> repl_error + command" where
  "parse_tokens cmd_name args =
     (if cmd_name = ''add'' then map_ok Add (parse_args args ''add'')
      else if cmd_name = ''subtract'' \<or> cmd_name = ''sub'' then map_ok Subtract (parse_args args ''subtract'')
      else if cmd_name = ''set'' then map_ok SetTo (parse_args args ''set'')
      else if cmd_name = ''delete'' \<or> cmd_name = ''del'' \<or> cmd_name = ''rm'' then
        (if args = [] then Inl (Usage ''delete <item_key>'')
         else if length args > 1 then Inl (Syntax ''Too many arguments'')
         else Inr (Delete (args ! 0)))
      else if cmd_name = ''query'' \<or> cmd_name = ''ls'' then parse_query args
      else if cmd_name = ''exit'' \<or> cmd_name = ''quit'' \<or> cmd_name = ''q'' then
        (if args \<noteq> [] then Inl (Syntax ''exit does not take arguments.'') else Inr Exit)
      else Inl (Syntax ''Unknown command''))"

definition parse_command :: "(string \<Rightarrow> string list option) \<Rightarrow> string \<Rightarrow> repl_error + command" where
  "parse_command split input =
     (case split input of
        None \<Rightarrow> Inl (Syntax ''Incomplete or malformed quoting in command'')
      | Some [] \<Rightarrow> Inl (Syntax ''Empty command'')
      | Some (name # args) \<Rightarrow> parse_tokens (to_lowercase name) args)"

fun command_to_string :: "command \<Rightarrow> string" where
  "command_to_string (Add a) = ''ADD '' @ args_to_string a"
| "command_to_string (Subtract a) = ''SUBTRACT '' @ args_to_string a"
| "command_to_string (SetTo a) = ''SET '' @ args_to_string a"
| "command_to_string (Delete k) = ''DELETE '' @ k"
| "command_to_string (QueryLedger f v) =
     ''QUERY'' @ (case f of None \<Rightarrow> [] | Some t \<Rightarrow> '' (filter: '' @ [CHR 0x27] @ t @ [CHR 0x27] @ '')'')
     @ (case v of None \<Rightarrow> [] | Some n \<Rightarrow> '' (min_version: '' @ node_id_to_string n @ '')'')"
| "command_to_string Exit = ''EXIT''"

section \<open>Output\<close>

definition int_to_string :: "int \<Rightarrow> string" where
  "int_to_string i = (if i < 0 then ''-'' @ node_id_to_string (nat (- i)) else node_id_to_string (nat i))"

definition trim_end :: "string \<Rightarrow> string" where
  "trim_end s = rev (dropWhile is_ws (rev s))"

definition trace_suffix :: "(trace_id \<Rightarrow> string) \<Rightarrow> trace_id option \<Rightarrow> string" where
  "trace_suffix show_trace tid = (case tid of None \<Rightarrow> [] | Some t \<Rightarrow> '' [Trace: '' @ show_trace t @ '']'')"

definition format_mutation_response :: "(trace_id \<Rightarrow> string) \<Rightarrow> propose_mutation_response \<Rightarrow> trace_id option \<Rightarrow> string" where
  "format_mutation_response show_trace res tid =
     (case mutation_status_try_from (pr_status res) of
        Some MCommitted \<Rightarrow> ''SUCCESS: Committed at version '' @ node_id_to_string (pr_state_version res) @ trace_suffix show_trace tid
      | Some MVetoed \<Rightarrow> ''VETOED: '' @ pr_error_message res @ trace_suffix show_trace tid
      | Some MRejected \<Rightarrow> ''REJECTED: '' @ pr_error_message res @ trace_suffix show_trace tid
      | _ \<Rightarrow> ''UNKNOWN STATUS: '' @ int_to_string (pr_status res) @ trace_suffix show_trace tid)"

definition newline :: string where
  "newline = [CHR 0x0A]"

definition item_line :: "grocery_item \<Rightarrow> string" where
  "item_line item = ''  - '' @ item_key item @ '' ('' @ quantity item @ '' '' @ unit item @ '')'' @ newline"

definition format_query_response :: "(trace_id \<Rightarrow> string) \<Rightarrow> query_state_response \<Rightarrow> trace_id option \<Rightarrow> string" where
  "format_query_response show_trace res tid =
     (if qr_status res = query_status_int QSuccess then
        (if qr_items res = [] then ''Inventory is empty.'' @ trace_suffix show_trace tid
         else trim_end (''Inventory (version: '' @ node_id_to_string (qr_current_state_version res) @ ''):'' @ newline
                @ concat (map item_line (qr_items res)) @ trace_suffix show_trace tid))
      else if qr_status res = query_status_int QRejected then ''REJECTED: '' @ qr_error_message res @ trace_suffix show_trace tid
      else ''ERROR: '' @ qr_error_message res @ trace_suffix show_trace tid)"

section \<open>Execution\<close>

definition run_mutation :: "'v network \<Rightarrow> client_config \<Rightarrow> (trace_id \<Rightarrow> string) \<Rightarrow> mutation_intent \<Rightarrow> string client_proc" where
  "run_mutation net cfg show_trace intent =
     st_bind (propose_mutation net cfg intent) (\<lambda>(res, tid). st_return (format_mutation_response show_trace res tid))"

fun execute_command :: "'v network \<Rightarrow> client_config \<Rightarrow> (trace_id \<Rightarrow> string) \<Rightarrow> command \<Rightarrow> string client_proc" where
  "execute_command net cfg show_trace (Add a) = run_mutation net cfg show_trace (into_intent a OAdd)"
| "execute_command net cfg show_trace (Subtract a) = run_mutation net cfg show_trace (into_intent a OSubtract)"
| "execute_command net cfg show_trace (SetTo a) = run_mutation net cfg show_trace (into_intent a OSet)"
| "execute_command net cfg show_trace (Delete k) = run_mutation net cfg show_trace (new_mutation_intent k None None None ODelete)"
| "execute_command net cfg show_trace (QueryLedger f v) =
     st_bind (query_state net cfg f v) (\<lambda>(res, tid). st_return (format_query_response show_trace res tid))"
| "execute_command net cfg show_trace Exit = st_fail Panicked"

datatype line_read = Line string | ReadError

record console =
  con_in :: "line_read list"
  con_out :: "string list"
  con_fails :: "nat \<Rightarrow> bool"

definition emit :: "string \<Rightarrow> console \<Rightarrow> (repl_error + unit) \<times> console" where
  "emit t c = (if con_fails c (length (con_out c)) then (Inl ReplIo, c) else (Inr (), c\<lparr>con_out := con_out c @ [t]\<rparr>))"

definition error_text :: "repl_error \<Rightarrow> string" where
  "error_text e =
     (case e of
        Syntax t \<Rightarrow> ''Syntax Error: '' @ t | Usage t \<Rightarrow> ''Usage: '' @ t
      | ReplClient _ \<Rightarrow> ''Network or Protocol Error: '' | ReplIo \<Rightarrow> ''I/O failure: '')"

datatype turn = Stop | Go

text \<open>
  One turn of the loop on the client and its console. \<open>net n\<close> is the network as the \<open>n\<close>-th turn finds it.
\<close>

definition repl_turn ::
  "(string \<Rightarrow> string list option) \<Rightarrow> 'v network \<Rightarrow> client_config \<Rightarrow> (trace_id \<Rightarrow> string) \<Rightarrow> client_world \<times> console \<Rightarrow>
     (repl_error + turn) \<times> client_world \<times> console" where
  "repl_turn split net cfg show_trace = (\<lambda>(w, c).
     case emit ''lacto> '' c of
       (Inl e, c) \<Rightarrow> (Inl e, w, c)
     | (Inr _, c) \<Rightarrow>
         (case con_in c of
            [] \<Rightarrow> (Inr Stop, w, c)
          | ReadError # rest \<Rightarrow> (Inl ReplIo, w, c\<lparr>con_in := rest\<rparr>)
          | Line line # rest \<Rightarrow>
              (let c = c\<lparr>con_in := rest\<rparr>; input = trim line
               in if input = [] then (Inr Go, w, c)
                  else case parse_command split input of
                         Inr Exit \<Rightarrow> (Inr Stop, w, c)
                       | Inl e \<Rightarrow> (case emit (''Error: '' @ error_text e @ newline) c of
                                     (Inl e, c) \<Rightarrow> (Inl e, w, c) | (Inr _, c) \<Rightarrow> (Inr Go, w, c))
                       | Inr cmd \<Rightarrow>
                           (case execute_command net cfg show_trace cmd w of
                              (r, w) \<Rightarrow>
                                (case emit (case r of Inr out \<Rightarrow> out @ newline
                                                    | Inl _ \<Rightarrow> ''Mutation failed. Contact cluster operator.'' @ newline) c of
                                   (Inl e, c) \<Rightarrow> (Inl e, w, c) | (Inr _, c) \<Rightarrow> (Inr Go, w, c))))))"

text \<open>The loop ends with its input: every turn but the last consumes a line.\<close>

function run_repl ::
  "(string \<Rightarrow> string list option) \<Rightarrow> (nat \<Rightarrow> 'v network) \<Rightarrow> client_config \<Rightarrow> (trace_id \<Rightarrow> string) \<Rightarrow> nat \<Rightarrow> client_world \<times> console \<Rightarrow>
     (repl_error + unit) \<times> client_world \<times> console" where
  "run_repl split net cfg show_trace n s =
     (case repl_turn split (net n) cfg show_trace s of
        (Inl e, s') \<Rightarrow> (Inl e, s')
      | (Inr Stop, s') \<Rightarrow> (Inr (), s')
      | (Inr Go, s') \<Rightarrow> run_repl split net cfg show_trace (Suc n) s')"
  by pat_completeness auto

lemma emit_keeps_input: "emit t c = (r, c') \<Longrightarrow> con_in c' = con_in c"
  by (auto simp: emit_def split: if_splits)

lemma turn_consumes:
  "repl_turn split net cfg show_trace s = (Inr Go, s') \<Longrightarrow> length (con_in (snd s')) < length (con_in (snd s))"
  by (cases s)
    (auto simp: repl_turn_def Let_def dest!: emit_keeps_input
      split: prod.splits sum.splits list.splits line_read.splits if_splits command.splits)

termination run_repl
  by (relation "measure (\<lambda>(split, net, cfg, show_trace, n, s). length (con_in (snd s)))") (auto dest!: turn_consumes[OF sym])

declare run_repl.simps [simp del]

section \<open>What a line does\<close>

definition mutation_of_words :: "string \<Rightarrow> string list \<Rightarrow> mutation_intent option" where
  "mutation_of_words name args =
     (let by_amount = (\<lambda>ot. if 2 \<le> length args \<and> length args \<le> 4
              then Some (new_mutation_intent (args ! 0) (Some (args ! 1)) (nth_opt args 2) (nth_opt args 3) ot) else None)
      in if name = ''add'' then by_amount OAdd
         else if name \<in> {''subtract'', ''sub''} then by_amount OSubtract
         else if name = ''set'' then by_amount OSet
         else if name \<in> {''delete'', ''del'', ''rm''} \<and> length args = 1 then Some (new_mutation_intent (args ! 0) None None None ODelete)
         else None)"

fun command_intent :: "command \<Rightarrow> mutation_intent option" where
  "command_intent (Add a) = Some (into_intent a OAdd)"
| "command_intent (Subtract a) = Some (into_intent a OSubtract)"
| "command_intent (SetTo a) = Some (into_intent a OSet)"
| "command_intent (Delete k) = Some (new_mutation_intent k None None None ODelete)"
| "command_intent _ = None"

lemma parse_args_intent:
  "parse_args args name = Inr a \<Longrightarrow> 2 \<le> length args \<and> length args \<le> 4
     \<and> into_intent a ot = new_mutation_intent (args ! 0) (Some (args ! 1)) (nth_opt args 2) (nth_opt args 3) ot"
  by (auto simp: parse_args_def into_intent_def split: if_splits)

lemma parse_tokens_cases:
  assumes "parse_tokens name args = Inr cmd"
  obtains (amount) a where "(name, cmd) \<in> {(''add'', Add a), (''subtract'', Subtract a), (''sub'', Subtract a), (''set'', SetTo a)}"
      "\<exists>n. parse_args args n = Inr a"
  | (delete) "name \<in> {''delete'', ''del'', ''rm''}" "length args = 1" "cmd = Delete (args ! 0)"
  | (other) "command_intent cmd = None"
proof -
  consider "name = ''add''" | "name = ''subtract'' \<or> name = ''sub''" | "name = ''set''" | "name = ''delete'' \<or> name = ''del'' \<or> name = ''rm''"
    | "name \<notin> {''add'', ''subtract'', ''sub'', ''set'', ''delete'', ''del'', ''rm''}" by fast
  then show thesis
  proof cases
    case 1
    with assms obtain a where "cmd = Add a" "parse_args args ''add'' = Inr a" by (auto simp: parse_tokens_def map_ok_Inr_iff)
    with 1 show thesis by (intro amount[of a]) auto
  next
    case 2
    with assms obtain a where "cmd = Subtract a" "parse_args args ''subtract'' = Inr a" by (auto simp: parse_tokens_def map_ok_Inr_iff)
    with 2 show thesis by (intro amount[of a]) auto
  next
    case 3
    with assms obtain a where "cmd = SetTo a" "parse_args args ''set'' = Inr a" by (auto simp: parse_tokens_def map_ok_Inr_iff)
    with 3 show thesis by (intro amount[of a]) auto
  next
    case 4
    then have "parse_tokens name args = (if args = [] then Inl (Usage ''delete <item_key>'')
         else if length args > 1 then Inl (Syntax ''Too many arguments'') else Inr (Delete (args ! 0)))"
      unfolding parse_tokens_def by auto
    with assms have "args \<noteq> []" "\<not> length args > 1" "cmd = Delete (args ! 0)" by (simp_all split: if_splits)
    moreover from this have "length args = 1" by (cases args) auto
    ultimately show thesis using 4 by (intro delete) blast+
  next
    case 5
    then have "parse_tokens name args = (if name = ''query'' \<or> name = ''ls'' then parse_query args
        else if name = ''exit'' \<or> name = ''quit'' \<or> name = ''q'' then
          (if args \<noteq> [] then Inl (Syntax ''exit does not take arguments.'') else Inr Exit)
        else Inl (Syntax ''Unknown command''))" unfolding parse_tokens_def by simp
    with assms have "parse_query args = Inr cmd \<or> cmd = Exit" by (simp split: if_splits)
    then have "command_intent cmd = None" by (auto simp: parse_query_def res_bind_Inr_iff split: if_splits)
    then show thesis by (rule other)
  qed
qed

lemma parse_tokens_intent:
  assumes "parse_tokens name args = Inr cmd" "command_intent cmd = Some intent"
  shows "mutation_of_words name args = Some intent"
  using assms(1)
proof (cases rule: parse_tokens_cases)
  case (amount a)
  then obtain n where n: "parse_args args n = Inr a" by blast
  have len: "2 \<le> length args" "length args \<le> 4"
    and built: "into_intent a ot = new_mutation_intent (args ! 0) (Some (args ! 1)) (nth_opt args 2) (nth_opt args 3) ot" for ot
    using parse_args_intent[OF n] by simp_all
  consider "name = ''add''" "cmd = Add a" | "name = ''subtract''" "cmd = Subtract a" | "name = ''sub''" "cmd = Subtract a"
    | "name = ''set''" "cmd = SetTo a" using amount(1) by blast
  then show ?thesis using assms(2) len by cases (simp_all add: mutation_of_words_def built)
next
  case delete
  then show ?thesis using assms(2) by (auto simp: mutation_of_words_def Let_def)
next
  case other
  with assms(2) show ?thesis by simp
qed

text \<open>What a turn does to the client, given what the line says.\<close>

lemma execute_mutating: "command_intent cmd = Some intent \<Longrightarrow> snd (execute_command net cfg show_trace cmd w) = snd (propose_mutation net cfg intent w)"
  by (cases cmd) (auto simp: run_mutation_def st_bind_def split: prod.splits sum.splits)

lemma execute_reading: "snd (execute_command net cfg show_trace (QueryLedger f v) w) = snd (query_state net cfg f v w)"
  by (auto simp: st_bind_def split: prod.splits sum.splits)

lemma turn_runs:
  assumes "repl_turn split net cfg show_trace (w, c) = (r, w', c')" "w' \<noteq> w"
  shows "\<exists>line rest cmd. con_in c = Line line # rest \<and> parse_command split (trim line) = Inr cmd \<and> cmd \<noteq> Exit
    \<and> w' = snd (execute_command net cfg show_trace cmd w)"
proof -
  obtain e c1 where emit: "emit ''lacto> '' c = (e, c1)" by fastforce
  from assms emit_keeps_input[OF emit] emit obtain line rest where line: "con_in c = Line line # rest" and "e = Inr ()"
    by (auto simp: repl_turn_def split: sum.splits list.splits line_read.splits)
  with assms emit_keeps_input[OF emit] emit obtain cmd where cmd: "parse_command split (trim line) = Inr cmd"
    by (cases "parse_command split (trim line)") (auto simp: repl_turn_def Let_def split: if_splits sum.splits prod.splits)
  have "cmd \<noteq> Exit" using assms line \<open>e = Inr ()\<close> emit_keeps_input[OF emit] emit cmd by (auto simp: repl_turn_def Let_def split: if_splits)
  moreover obtain x w1 where run: "execute_command net cfg show_trace cmd w = (x, w1)" by fastforce
  ultimately have "w' = w1"
    using assms line \<open>e = Inr ()\<close> emit_keeps_input[OF emit] emit cmd
    by (cases cmd) (auto simp: repl_turn_def Let_def split: if_splits sum.splits prod.splits)
  with line cmd run \<open>cmd \<noteq> Exit\<close> show ?thesis by auto
qed

text \<open>
  Whatever a turn of the interactive loop sends for a mutation is what was typed: if it changed the log or the sequence id of the client, the line, split into
  words, is one of the mutation commands in any letter case with a legal number of arguments, and the call carries exactly those
  arguments, under the next sequence id. A line that does not parse changes neither the log nor the sequence id.
\<close>
theorem repl_proposes_what_is_typed:
  assumes "repl_turn split net cfg show_trace (w, c) = (r, w', c')"
    and "cw_wal w' \<noteq> cw_wal w \<or> cs_sequence_id (cw_state w') \<noteq> cs_sequence_id (cw_state w)"
  shows "\<exists>line rest name args intent. con_in c = Line line # rest \<and> split (trim line) = Some (name # args)
    \<and> mutation_of_words (to_lowercase name) args = Some intent
    \<and> (\<exists>sent. cw_sent w' = cw_sent w @ map (\<lambda>a. (a, SentMutation (new_request w intent))) sent)"
proof -
  have "w' \<noteq> w" using assms(2) by auto
  then obtain line rest cmd where line: "con_in c = Line line # rest" "parse_command split (trim line) = Inr cmd" "cmd \<noteq> Exit"
    "w' = snd (execute_command net cfg show_trace cmd w)" using turn_runs[OF assms(1)] by blast
  obtain name args where words: "split (trim line) = Some (name # args)" "parse_tokens (to_lowercase name) args = Inr cmd"
    using line(2) by (auto simp: parse_command_def split: option.splits list.splits)
  have "command_intent cmd \<noteq> None"
  proof
    assume "command_intent cmd = None"
    with line(3) obtain f v where "cmd = QueryLedger f v" by (cases cmd) auto
    then have w': "w' = snd (query_state net cfg f v w)" using line(4) execute_reading by simp
    obtain q where "query_state net cfg f v w = (q, w')" using w' by (metis prod.collapse)
    then have "same_session w w'"
      using retry_loop_frame[of net cfg "nw_query net" SentQuery query_rejection _ "length (cs_known_nodes (cw_state w)) + MAX_KNOWN_NODES" 0 w q w']
      by (simp add: query_state_def dispatch_query_def execute_with_retry_def)
    with assms(2) show False by (simp add: same_session_def records_def)
  qed
  then obtain intent where intent: "command_intent cmd = Some intent" by blast
  have "w' = snd (propose_mutation net cfg intent w)" using line(4) execute_mutating[OF intent] by simp
  then obtain q where "propose_mutation net cfg intent w = (q, w')" by (metis prod.collapse)
  from propose_sends[OF this] parse_tokens_intent[OF words(2) intent] line(1) words(1) show ?thesis by blast
qed

text \<open>One line of the sample client.\<close>

definition sample_console :: console where
  "sample_console = \<lparr>con_in = [Line ''ADD milk 3''], con_out = [], con_fails = (\<lambda>_. False)\<rparr>"

theorem repl_proposes_what_is_typed_witness:
  "\<exists>r w' c' sent. repl_turn (\<lambda>_. Some [''ADD'', ''milk'', ''3'']) (answering (Inl (Status InvalidArgument ''bad''))) default_config (\<lambda>_. [])
       (sample_client_world, sample_console) = (r, w', c')
     \<and> cw_sent w' = map (\<lambda>a. (a, SentMutation (new_request sample_client_world sample_order))) sent"
proof -
  let ?net = "answering (Inl (Status InvalidArgument ''bad''))"
  obtain w1 where run: "propose_mutation ?net default_config sample_order sample_client_world = (Inl (Rejected ''bad''), w1)"
    using sample_refused by blast
  then have seq: "cs_sequence_id (cw_state w1) = 1" using propose_refused[OF run] by (simp add: sample_client_healthy)
  have lower: "to_lowercase ''ADD'' = ''add''" "trim ''ADD milk 3'' = ''ADD milk 3''" by code_simp+
  have words: "mutation_of_words ''add'' [''milk'', ''3''] = Some sample_order"
    by (simp add: mutation_of_words_def sample_order_def nth_opt_def)
  let ?a = "\<lparr>ma_item_key = ''milk'', ma_quantity = ''3'', ma_unit = None, ma_category = None\<rparr>"
  have parsed: "parse_command (\<lambda>_. Some [''ADD'', ''milk'', ''3'']) (trim ''ADD milk 3'') = Inr (Add ?a)"
    by (simp add: parse_command_def lower parse_tokens_def parse_args_def nth_opt_def)
  have "into_intent ?a OAdd = sample_order" by (simp add: into_intent_def sample_order_def)
  with run have ran: "execute_command ?net default_config (\<lambda>_. []) (Add ?a) sample_client_world = (Inl (Rejected ''bad''), w1)"
    by (simp add: run_mutation_def)
  obtain r c' where turn: "repl_turn (\<lambda>_. Some [''ADD'', ''milk'', ''3'']) ?net default_config (\<lambda>_. []) (sample_client_world, sample_console) = (r, w1, c')"
    using parsed ran by (simp add: repl_turn_def sample_console_def emit_def lower(2) del: execute_command.simps)
  have "\<exists>sent. cw_sent w1 = cw_sent sample_client_world @ map (\<lambda>a. (a, SentMutation (new_request sample_client_world sample_order))) sent"
    using repl_proposes_what_is_typed[OF turn] seq words by (auto simp: sample_client_healthy sample_console_def lower)
  with turn show ?thesis by (auto simp: sample_client_healthy)
qed

end
