(* ===== verification/Policy.thy ===== *)
theory Policy
  imports Gateway_Properties
begin

text \<open>
  The policy services: \<open>crates/ai-veto/src\<close>, which asks a language model, and \<open>crates/mock-veto\<close>, which approves everything. The model and
  the JSON parser are parameters: \<open>ask\<close> is the text the model returns for a prompt, \<open>parse_json\<close> what the text deserializes to. What the
  service makes of them, from the prompt to the response, is modelled, and so is its agreement with the gateway's
  stabilizer.
\<close>

section \<open>Messages\<close>

record evaluate_proposal_request =
  er_client_id :: string
  er_intent :: "mutation_intent option"
  er_current_inventory :: "grocery_item list"

record llm_response =
  lr_is_approved :: bool
  lr_category_assignment :: string
  lr_moral_justification :: string
  lr_resolved_item_key :: string
  lr_suggested_display_name :: string
  lr_resolved_unit :: string
  lr_custom_multiplier :: "string option"

definition new_evaluate_proposal_response ::
  "bool \<Rightarrow> string \<Rightarrow> string \<Rightarrow> string \<Rightarrow> string \<Rightarrow> string \<Rightarrow> string \<Rightarrow> evaluate_proposal_response" where
  "new_evaluate_proposal_response ok cat just key name u mult =
     \<lparr>ev_is_approved = ok, ev_category_assignment = cat, ev_moral_justification = just, ev_resolved_item_key = key,
      ev_suggested_display_name = name, ev_resolved_unit = u, ev_conversion_multiplier_to_base = mult\<rparr>"

section \<open>Prompt and answer text\<close>

datatype keep_alive = Indefinitely | UntilSeconds nat

definition map_keep_alive :: "int \<Rightarrow> keep_alive" where
  "map_keep_alive secs = (if secs < 0 then Indefinitely else UntilSeconds (nat secs))"

fun operation_debug :: "operation_type \<Rightarrow> string" where
  "operation_debug OUnspecified = ''Unspecified''"
| "operation_debug OAdd = ''Add''"
| "operation_debug OSubtract = ''Subtract''"
| "operation_debug OSet = ''Set''"
| "operation_debug ODelete = ''Delete''"

definition or_na :: "string option \<Rightarrow> string" where
  "or_na t = (case t of None \<Rightarrow> ''N/A'' | Some s \<Rightarrow> s)"

definition lf :: string where
  "lf = [CHR 0x0A]"

definition build_user_prompt :: "evaluate_proposal_request \<Rightarrow> status + string" where
  "build_user_prompt req =
     res_bind (ok_or (er_intent req) (Status InvalidArgument ''Evaluation request is missing mutation intent''))
       (\<lambda>intent. res_bind (ok_or (operation_type_try_from (mi_operation intent)) (Status InvalidArgument ''Unknown operation code''))
       (\<lambda>opn. if opn = OUnspecified
              then Inl (Status InvalidArgument ''Operation type must be explicitly specified (Add, Sub, Set, or Delete)'')
              else Inr (''### EVALUATION REQUEST'' @ lf @ ''Mutation: OP: '' @ operation_debug opn @ '', Item: '' @ mi_item_key intent
                @ '', Qty: '' @ or_na (mi_quantity intent) @ '', Unit: '' @ or_na (mi_unit intent) @ '', Cat: '' @ or_na (mi_category intent)
                @ lf @ ''Inventory Context: ['' @ join '', '' (map (\<lambda>i. item_key i @ '': '' @ quantity i @ '' '' @ unit i @ '' ('' @ category i @ '')'')
                    (er_current_inventory req)) @ '']'')))"

lemma starts_with_length: "starts_with p s \<Longrightarrow> length p \<le> length s"
  unfolding starts_with_def by (metis length_take min.cobounded1)

function trim_start_matches :: "string \<Rightarrow> string \<Rightarrow> string" where
  "trim_start_matches p s = (if p \<noteq> [] \<and> starts_with p s then trim_start_matches p (drop (length p) s) else s)"
  by pat_completeness auto

termination
  by (relation "measure (\<lambda>(p, s). length s)") (auto dest!: starts_with_length intro!: diff_less)

declare trim_start_matches.simps [simp del]

definition trim_end_matches :: "string \<Rightarrow> string \<Rightarrow> string" where
  "trim_end_matches p s = rev (trim_start_matches (rev p) (rev s))"

definition fence :: string where
  "fence = [CHR 0x60, CHR 0x60, CHR 0x60]"

definition scrub_json_response :: "string \<Rightarrow> string" where
  "scrub_json_response raw =
     (let trimmed = trim raw
      in if starts_with fence trimmed
         then trim (trim_end_matches fence (trim_start_matches fence (trim_start_matches (fence @ ''json'') trimmed)))
         else trimmed)"

section \<open>Semantic guard\<close>

definition validate_semantic_integrity :: "'d decimal_ops \<Rightarrow> llm_response \<Rightarrow> status + unit" where
  "validate_semantic_integrity D res =
     (if category_from_str (lr_category_assignment res) = None then Inl (Status Internal ''AI Hallucination: Invalid Category'')
      else case resolve_symbol D (lr_resolved_unit res) of
        Inl _ \<Rightarrow> Inl (Status Internal ''AI Hallucination: Invalid Unit'')
      | Inr e \<Rightarrow>
          if trim (lr_resolved_item_key res) = [] then Inl (Status Internal ''AI Hallucination: Empty Item Key'')
          else if ue_dimension e = Anomalous
            \<and> \<not> ends_with (''_'' @ to_lowercase (trim (lr_resolved_unit res))) (to_lowercase (trim (lr_resolved_item_key res)))
          then Inl (Status Internal ''AI Hallucination: Identity Split required for anomalous unit.'')
          else Inr ())"

definition stabilization_multiplier :: "'d decimal_ops \<Rightarrow> llm_response \<Rightarrow> string" where
  "stabilization_multiplier D res =
     (case lr_custom_multiplier res of
        Some custom \<Rightarrow> custom
      | None \<Rightarrow> (case resolve_symbol D (lr_resolved_unit res) of Inr e \<Rightarrow> d_to_string D (ue_multiplier e) | Inl _ \<Rightarrow> ''1.0''))"

definition evaluate_proposal ::
  "'d decimal_ops \<Rightarrow> (string \<Rightarrow> string option) \<Rightarrow> (string \<Rightarrow> string option) \<Rightarrow> (string \<Rightarrow> llm_response option) \<Rightarrow>
     evaluate_proposal_request request \<Rightarrow> status + evaluate_proposal_response response" where
  "evaluate_proposal D parse_client ask parse_json request =
     res_bind (require_trace_id request)
       (\<lambda>trace. let req = req_inner request
        in res_bind (ok_or (parse_client (er_client_id req)) (Status InvalidArgument ''Malformed Client ID''))
       (\<lambda>_. res_bind (build_user_prompt req)
       (\<lambda>prompt. res_bind (ok_or (ask prompt) (Status Internal ''Clinical Oracle evaluation failed.''))
       (\<lambda>content. let clean = scrub_json_response content
        in if clean = [] then Inl (Status Internal ''AI Hallucination: Empty response'')
           else res_bind (ok_or (parse_json clean) (Status Internal ''AI Hallucination: Malformed response format''))
       (\<lambda>res. res_bind (validate_semantic_integrity D res)
       (\<lambda>_. Inr \<lparr>resp_trace = Some trace,
               resp_inner = new_evaluate_proposal_response (lr_is_approved res) (lr_category_assignment res) (lr_moral_justification res)
                 (lr_resolved_item_key res) (lr_suggested_display_name res) (lr_resolved_unit res) (stabilization_multiplier D res)\<rparr>))))))"

text \<open>
  The mock reads the trace id from the extensions or, without an interceptor, from the header; \<open>header_trace\<close> is what the
  header parses to.
\<close>

definition mock_evaluate_proposal ::
  "trace_id option \<Rightarrow> evaluate_proposal_request request \<Rightarrow> status + evaluate_proposal_response response" where
  "mock_evaluate_proposal header_trace request =
     res_bind (case require_trace_id request of
                 Inr t \<Rightarrow> Inr t
               | Inl _ \<Rightarrow> ok_or header_trace (Status FailedPrecondition ''Missing TraceId in mock metadata''))
       (\<lambda>trace. res_bind (ok_or (er_intent (req_inner request)) (Status InvalidArgument ''EvaluateProposalRequest is missing intent field''))
       (\<lambda>intent. let text_of = (\<lambda>x. case x of None \<Rightarrow> [] | Some s \<Rightarrow> s)
        in Inr \<lparr>resp_trace = Some trace,
              resp_inner = new_evaluate_proposal_response True (text_of (mi_category intent)) ''Mocked Approval''
                (mi_item_key intent) (mi_item_key intent) (text_of (mi_unit intent)) ''1.0''\<rparr>))"

section \<open>Agreement with the gateway\<close>

lemma validate_Inr:
  "validate_semantic_integrity D res = Inr u \<longleftrightarrow>
     (\<exists>cat e. category_from_str (lr_category_assignment res) = Some cat \<and> resolve_symbol D (lr_resolved_unit res) = Inr e
        \<and> trim (lr_resolved_item_key res) \<noteq> []
        \<and> (ue_dimension e = Anomalous \<longrightarrow>
             ends_with (''_'' @ to_lowercase (trim (lr_resolved_unit res))) (to_lowercase (trim (lr_resolved_item_key res)))))"
  by (auto simp: validate_semantic_integrity_def split: sum.splits if_splits)

lemma evaluate_Inr:
  assumes "evaluate_proposal D parse_client ask parse_json request = Inr resp"
  shows "\<exists>trace prompt content res. req_trace request = Some trace \<and> resp_trace resp = Some trace
    \<and> build_user_prompt (req_inner request) = Inr prompt \<and> ask prompt = Some content
    \<and> parse_json (scrub_json_response content) = Some res \<and> validate_semantic_integrity D res = Inr ()
    \<and> resp_inner resp = new_evaluate_proposal_response (lr_is_approved res) (lr_category_assignment res) (lr_moral_justification res)
        (lr_resolved_item_key res) (lr_suggested_display_name res) (lr_resolved_unit res) (stabilization_multiplier D res)"
  using assms by (auto simp: evaluate_proposal_def require_trace_id_def Let_def res_bind_Inr_iff split: if_splits)

text \<open>The decimals the registry is built with are not negative.\<close>

definition registry_positive :: "'d decimal_ops \<Rightarrow> bool" where
  "registry_positive D \<longleftrightarrow> (\<forall>(names, e) \<in> set (registry D). \<not> d_is_sign_negative D (ue_multiplier e))"

lemma resolve_positive: "resolve_symbol D u = Inr e \<Longrightarrow> registry_positive D \<Longrightarrow> \<not> d_is_sign_negative D (ue_multiplier e)"
  by (auto simp: resolve_symbol_def registry_positive_def Let_def find_Some_iff split: option.splits) (metis case_prodD nth_mem)

lemma whole_numbers_positive: "registry_positive whole_numbers"
  by (simp add: registry_positive_def registry_def whole_numbers_def MULTIPLIER_LB_def MULTIPLIER_OZ_def MULTIPLIER_GAL_def MULTIPLIER_FL_OZ_def)

text \<open>
  What the policy service answers passes the gateway as far as the service can know: the relay accepts it as the answer to its own request, the category is
  registered, the unit resolves, and when the model gave no multiplier the one the service fills in is a decimal, so of the stabilizer's checks on the oracle only
  the slug of the key and a multiplier of the model's own can still fail.
\<close>
theorem policy_answers_usable:
  assumes "evaluate_proposal D parse_client ask parse_json request = Inr resp" "req_trace request = Some trace"
    and "decimal_text D" "registry_positive D"
  shows "\<exists>veto cat e. relay_evaluate max_len trace (Inr resp) = Inr veto
    \<and> verify_category_registry (vo_category_assignment veto) = Inr cat \<and> resolve_symbol D (vo_resolved_unit veto) = Inr e
    \<and> trim (vo_resolved_item_key veto) \<noteq> []
    \<and> (d_from_str D (vo_conversion_multiplier_to_base veto) = None \<longrightarrow>
        (\<exists>prompt content res. ask prompt = Some content \<and> parse_json (scrub_json_response content) = Some res
           \<and> lr_custom_multiplier res = Some (vo_conversion_multiplier_to_base veto)))"
proof -
  obtain prompt content res where r: "resp_trace resp = Some trace" "ask prompt = Some content" "parse_json (scrub_json_response content) = Some res"
    "validate_semantic_integrity D res = Inr ()"
    "resp_inner resp = new_evaluate_proposal_response (lr_is_approved res) (lr_category_assignment res) (lr_moral_justification res)
        (lr_resolved_item_key res) (lr_suggested_display_name res) (lr_resolved_unit res) (stabilization_multiplier D res)"
    using evaluate_Inr[OF assms(1)] assms(2) by auto
  obtain cat e where v: "category_from_str (lr_category_assignment res) = Some cat" "resolve_symbol D (lr_resolved_unit res) = Inr e"
    "trim (lr_resolved_item_key res) \<noteq> []" using r(4) by (auto simp: validate_Inr)
  obtain veto where veto: "relay_evaluate max_len trace (Inr resp) = Inr veto"
    "vo_category_assignment veto = lr_category_assignment res" "vo_resolved_unit veto = lr_resolved_unit res"
    "vo_resolved_item_key veto = lr_resolved_item_key res" "vo_conversion_multiplier_to_base veto = stabilization_multiplier D res"
    using r(1,5) by (simp add: relay_evaluate_def new_evaluate_proposal_response_def)
  have "lr_custom_multiplier res = Some (stabilization_multiplier D res)" if "d_from_str D (stabilization_multiplier D res) = None"
    using that resolve_positive[OF v(2) assms(4)] v(2) assms(3) by (cases "lr_custom_multiplier res") (auto simp: stabilization_multiplier_def decimal_text_def)
  with veto v r(2,3) show ?thesis by (auto simp: verify_category_registry_def)
qed

text \<open>
  The prompt of the policy service promises the model two things the code does not keep. Its example for a unit outside the registry, the key
  \<open>spinach_bunch\<close> with the unit \<open>misc\<close>, is refused by the service's own guard. And its example for a pack, the unit \<open>ml\<close> with the multiplier \<open>3000\<close>, is stored without the
  multiplier: for a unit that is not contextual the stabilizer's result does not depend on the multiplier's value.
\<close>
theorem prompt_contract_gap:
  "validate_semantic_integrity D \<lparr>lr_is_approved = True, lr_category_assignment = ''Primary Flora'', lr_moral_justification = just,
       lr_resolved_item_key = ''spinach_bunch'', lr_suggested_display_name = name, lr_resolved_unit = ''misc'', lr_custom_multiplier = Some ''1''\<rparr>
     = Inl (Status Internal ''AI Hallucination: Identity Split required for anomalous unit.'')
   \<and> (d_from_str D ''3000'' \<noteq> None \<longrightarrow> d_from_str D ''1'' \<noteq> None \<longrightarrow>
        verify_unit_stabilization D qty ''ml'' ''3000'' = verify_unit_stabilization D qty ''ml'' ''1'')"
proof
  have cat: "category_from_str ''Primary Flora'' = Some PrimaryFlora"
    using category_round_trip[of "''Primary Flora''" PrimaryFlora] by (simp add: category_spellings_def)
  have misc: "resolve_symbol D ''misc'' = Inr \<lparr>ue_symbol = ''misc'', ue_dimension = Anomalous, ue_multiplier = d_from_int D 1, ue_is_contextual = True\<rparr>"
    using normalize_base_unit[of Anomalous] by (simp add: resolve_symbol_def registry_def)
  have "trim ''spinach_bunch'' = ''spinach_bunch''" "\<not> ends_with (''_'' @ to_lowercase (trim ''misc'')) (to_lowercase ''spinach_bunch'')"
    by code_simp+
  then show "validate_semantic_integrity D \<lparr>lr_is_approved = True, lr_category_assignment = ''Primary Flora'', lr_moral_justification = just,
       lr_resolved_item_key = ''spinach_bunch'', lr_suggested_display_name = name, lr_resolved_unit = ''misc'', lr_custom_multiplier = Some ''1''\<rparr>
     = Inl (Status Internal ''AI Hallucination: Identity Split required for anomalous unit.'')"
    by (simp add: validate_semantic_integrity_def cat misc)
  show "d_from_str D ''3000'' \<noteq> None \<longrightarrow> d_from_str D ''1'' \<noteq> None \<longrightarrow>
      verify_unit_stabilization D qty ''ml'' ''3000'' = verify_unit_stabilization D qty ''ml'' ''1''"
    by (auto simp: verify_unit_stabilization_def sample_unit)
qed

lemma digits_3000: "node_id_to_string 3000 = ''3000''"
  by code_simp

theorem prompt_contract_gap_witness:
  "verify_unit_stabilization whole_numbers ''1'' ''ml'' ''3000'' = verify_unit_stabilization whole_numbers ''1'' ''ml'' ''1''
   \<and> verify_unit_stabilization whole_numbers ''1'' ''ml'' ''1'' = Inr (QVolume 1)"
proof -
  have "d_from_str whole_numbers ''3000'' \<noteq> None" "d_from_str whole_numbers ''1'' \<noteq> None"
    using whole_number_text[of 3000] whole_number_text[of 1] by (simp_all only: digits_3000 digits_1) simp_all
  moreover have "verify_unit_stabilization whole_numbers ''1'' ''ml'' ''1'' = Inr (QVolume 1)"
    using sample_unit_stabilization[of 1] by (simp only: digits_1 zero_less_one of_nat_1 simp_thms)
  ultimately show ?thesis using prompt_contract_gap[of whole_numbers _ _ "''1''"] by blast
qed

text \<open>The mock passes the category hint on, so without one the gateway never commits what it approves.\<close>

lemma mock_without_category:
  assumes "mock_evaluate_proposal h request = Inr resp" "er_intent (req_inner request) = Some intent" "mi_category intent = None"
    and "relay_evaluate max_len trace (Inr resp) = Inr veto"
  shows "\<exists>e. validate_and_stabilize D scrubbed veto stock = Inl e"
proof -
  have "ev_category_assignment (resp_inner resp) = []"
    using assms(1-3) by (auto simp: mock_evaluate_proposal_def res_bind_Inr_iff Let_def new_evaluate_proposal_response_def)
  then have "vo_category_assignment veto = []"
    using assms(4) by (auto simp: relay_evaluate_def Let_def split: if_splits)
  moreover have "category_from_str [] = None" by code_simp
  ultimately show ?thesis by (simp add: validate_and_stabilize_def verify_category_registry_def)
qed

definition sample_evaluation :: "evaluate_proposal_request request" where
  "sample_evaluation = \<lparr>req_trace = Some 7, req_inner = \<lparr>er_client_id = ''c1'', er_intent = Some (new_mutation_intent ''milk'' (Some ''3'') None None OAdd),
     er_current_inventory = []\<rparr>\<rparr>"

definition sample_llm :: llm_response where
  "sample_llm = \<lparr>lr_is_approved = True, lr_category_assignment = ''Animal Secretions'', lr_moral_justification = [], lr_resolved_item_key = ''milk'',
     lr_suggested_display_name = ''Milk'', lr_resolved_unit = ''ml'', lr_custom_multiplier = None\<rparr>"

theorem policy_answers_usable_witness:
  "\<exists>resp veto e. evaluate_proposal whole_numbers Some (\<lambda>_. Some ''x'') (\<lambda>_. Some sample_llm) sample_evaluation = Inr resp
     \<and> relay_evaluate 100 7 (Inr resp) = Inr veto \<and> resolve_symbol whole_numbers (vo_resolved_unit veto) = Inr e"
proof -
  have "scrub_json_response ''x'' = ''x''" "trim ''milk'' = ''milk''" by code_simp+
  then have "\<exists>resp. evaluate_proposal whole_numbers Some (\<lambda>_. Some ''x'') (\<lambda>_. Some sample_llm) sample_evaluation = Inr resp"
    by (simp add: evaluate_proposal_def sample_evaluation_def require_trace_id_def build_user_prompt_def new_mutation_intent_def
        operation_type_try_from_def validate_semantic_integrity_def sample_llm_def sample_category sample_unit)
  moreover have "req_trace sample_evaluation = Some 7" by (simp add: sample_evaluation_def)
  ultimately show ?thesis using policy_answers_usable[OF _ _ whole_numbers_text whole_numbers_positive] by blast
qed

end
