(* ===== verification/Client_Answers.thy ===== *)
theory Client_Answers
  imports Raft_Safety Ingress_Properties
begin

text \<open>
  The gateway on top of the cluster: what the answer a client gets says of the replicated log. A request is handled at one
  node of a running cluster, its proposal is a step of that cluster, and the wait for the commit reads the progress the
  node publishes in the states the cluster goes through afterwards.
\<close>

section \<open>What a published progress says\<close>

lemma leader_progress:
  assumes "try_consensus_progress w = Inr p" "p_role p = RLeader"
  obtains n where "role (fst w) = Leader n" "p_term p = disk_term (snd w)" "p_last_committed p = last_committed n"
  using assms
  by (cases "role (fst w)")
    (auto simp: try_consensus_progress_def role_progress_def res_bind_Inr_iff node_read_Inr dest!: sled_current_term_Inr)

definition publishes :: "node_id list \<Rightarrow> (node_id \<Rightarrow> node_identity) \<Rightarrow> node_id \<Rightarrow> repl_cluster \<Rightarrow> consensus_progress \<Rightarrow> repl_cluster \<Rightarrow> bool" where
  "publishes ms ids i s p s' \<longleftrightarrow> repl_steps ms ids s s' \<and> try_consensus_progress (node_world s' i) = Inr p"

lemma publishes_leader:
  assumes "publishes ms ids i s p s'" "p_role p = RLeader"
  obtains n where "role (nodes (core s') i) = Leader n" "p_term p = disk_term (disks (core s') i)"
    "p_last_committed p \<le> committed_upto s' i"
proof -
  from assms(1) have "try_consensus_progress (node_world s' i) = Inr p" by (simp add: publishes_def)
  then obtain n where "role (fst (node_world s' i)) = Leader n" "p_term p = disk_term (snd (node_world s' i))"
    "p_last_committed p = last_committed n" using leader_progress[OF _ assms(2)] by blast
  then show thesis using that by (simp add: node_world_def world_of_def committed_upto_def)
qed

section \<open>A proposal in the cluster\<close>

lemma handle_propose_step:
  assumes "i \<in> set ms" "handle_propose cmd (node_world s i) = (r, w')"
  shows "repl_step ms ids s (put_node i w' s)"
proof -
  have "run_section (ids i) (peers_of ms i) (LPropose cmd) (node_world s i) = (None, w')"
    using assms(2) by (auto simp: handle_propose_def elim!: st_bind_cases)
  from repl_step.local_step[where ids = ids, OF assms(1) _ this] show ?thesis by (simp add: put_node_def)
qed

text \<open>The entry a leader proposed stays in the log of its term, and wherever an entry of that term is found at its index.\<close>

lemma proposal_kept:
  assumes "repl_reachable ms ids s" "i \<in> set ms" "handle_propose cmd (node_world s i) = (Inr (Inr idx), w')"
    and "repl_steps ms ids (put_node i w' s) s2"
    and "e = new_log_entry idx (disk_term (disks (core s) i)) cmd"
  shows "role (nodes (core s2) i) = Leader n \<Longrightarrow> disk_term (disks (core s2) i) = disk_term (disks (core s) i) \<Longrightarrow> node_entry s2 i idx = Some e"
    and "j \<in> set ms \<Longrightarrow> node_entry s2 j idx = Some e2 \<Longrightarrow> e_term e2 = disk_term (disks (core s) i) \<Longrightarrow> e2 = e"
    and "node_entry (put_node i w' s) i idx = Some e" "0 < idx"
proof -
  let ?s1 = "put_node i w' s" and ?t = "disk_term (disks (core s) i)"
  have w: "node_world s i = (nodes (core s) i, disks (core s) i)" by (simp add: node_world_def world_of_def)
  obtain m where h: "role (nodes (core s) i) = Leader m" "idx = Suc (disk_last (disks (core s) i))"
      "w' = (nodes (core s) i, proposed_store cmd (disks (core s) i))"
    using handle_propose_writes[OF assms(3)] by (auto simp: w)
  show "0 < idx" using h(2) by simp
  obtain a where a: "sim ms s a" using sim_reachable[OF assms(1)] by blast
  have ok: "log_ok (disks (core s) i)" using plainD(1)[OF sim_node(3)[OF a assms(2)]] .
  have d1: "disks (core ?s1) i = proposed_store cmd (disks (core s) i)" "nodes (core ?s1) i = nodes (core s) i"
    by (simp_all add: h(3) put_def)
  show e1: "node_entry ?s1 i idx = Some e"
    using disk_entry_append_log[OF ok, of "[e]" idx]
    by (simp add: node_entry_def h(2,3) proposed_store_def assms(5) consecutive_def new_log_entry_def)
  have r1: "repl_reachable ms ids ?s1" using repl_reachable.step[OF assms(1) handle_propose_step[OF assms(2,3)]] .
  from reach_sim[OF r1 assms(4)] obtain a1 a2 where A: "sim ms ?s1 a1" "sim ms s2 a2" "spec_steps (set ms) a1 a2" .
  note N = sim_node[OF A(1) assms(2)] and S1 = simD(1)[OF A(1)] and S2 = simD(1)[OF A(2)]
  have t1: "s_term a1 i = ?t" using N(1) by (simp add: h(3) proposed_store_def)
  have lead: "i \<in> s_leader a1" using N(4) h(1,3) by simp
  have led: "led_term a1 ?t" using leader_led[OF safeD(3)[OF S1] lead] t1 by simp
  have l1: "s_log a1 i = s_tlog a1 ?t" using bookD(11)[OF safeD(3)[OF S1] lead] t1 by simp
  note G = grows_steps[OF A(3) S1]
  have k: "idx - 1 < length (s_tlog a1 ?t)" "s_tlog a1 ?t ! (idx - 1) = e"
    using e1 l1 by (auto simp: N(6) split: if_splits)
  have k2: "s_tlog a2 ?t ! (idx - 1) = e" "idx - 1 < length (s_tlog a2 ?t)"
    using grows_nth[OF G led k(1)] k grows_length[OF G led] by simp_all
  show "node_entry s2 i idx = Some e" if "role (nodes (core s2) i) = Leader n" "disk_term (disks (core s2) i) = ?t" for n
  proof -
    note N2 = sim_node[OF A(2) assms(2)]
    have "i \<in> s_leader a2" using N2(4) that(1) by simp
    then have "s_log a2 i = s_tlog a2 ?t" using bookD(11)[OF safeD(3)[OF S2]] N2(1) that(2) by simp
    then show ?thesis using k2 h(2) by (simp add: N2(6))
  qed
  show "e2 = e" if "j \<in> set ms" "node_entry s2 j idx = Some e2" "e_term e2 = ?t" for j e2
  proof -
    note N2 = sim_node[OF A(2) that(1)]
    have p: "idx - 1 < length (s_log a2 j)" "s_log a2 j ! (idx - 1) = e2"
      using that(2) by (auto simp: N2(6) split: if_splits)
    have "matching a2 (s_log a2 j)" by (rule logs_okD(1)[OF safeD(4)[OF S2]])
    from matchingD(2)[OF this p(1)] p that(3) k2 show ?thesis
      by (metis lessI nth_take)
  qed
qed

text \<open>The entry of a proposal at a state the node published as leader with the proposal's index committed.\<close>

lemma answered_entry:
  assumes "repl_reachable ms ids s" "i \<in> set ms" "handle_propose cmd (node_world s i) = (Inr (Inr k), w')"
    and "e = new_log_entry k (disk_term (disks (core s) i)) cmd"
    and "publishes ms ids i (put_node i w' s) progress s2" "p_role progress = RLeader" "k \<le> p_last_committed progress"
  shows "(p_term progress = disk_term (disks (core s) i) \<longrightarrow> node_entry s2 i k = Some e)
    \<and> (\<forall>x. node_entry s2 i k = Some x \<and> e_term x = disk_term (disks (core s) i) \<longrightarrow> x = e)
    \<and> (node_entry s2 i k = Some e \<longrightarrow>
         (\<forall>s3 j. repl_steps ms ids s2 s3 \<and> j \<in> set ms \<and> k \<le> committed_upto s3 j \<longrightarrow> node_entry s3 j k = Some e))"
proof -
  let ?t = "disk_term (disks (core s) i)"
  from assms(5) have steps: "repl_steps ms ids (put_node i w' s) s2" by (simp add: publishes_def)
  obtain n where lead: "role (nodes (core s2) i) = Leader n" "p_term progress = disk_term (disks (core s2) i)"
      "p_last_committed progress \<le> committed_upto s2 i"
    using publishes_leader[OF assms(5,6)] by blast
  note K = proposal_kept[OF assms(1-3) steps assms(4)]
  have com: "k \<le> committed_upto s2 i" using lead(3) assms(7) by linarith
  have reach2: "repl_reachable ms ids s2"
    by (rule repl_steps_reachable[OF steps repl_reachable.step[OF assms(1) handle_propose_step[OF assms(2,3)]]])
  have later: "node_entry s3 j k = Some e"
    if "node_entry s2 i k = Some e" "repl_steps ms ids s2 s3 \<and> j \<in> set ms \<and> k \<le> committed_upto s3 j" for s3 j
    using safety_across[OF reach2, of s3 i j k] that assms(2) com K(4) by auto
  have "node_entry s2 i k = Some e" if "p_term progress = ?t" using K(1)[OF lead(1)] that lead(2) by simp
  moreover have "x = e" if "node_entry s2 i k = Some x \<and> e_term x = ?t" for x using K(2)[OF assms(2)] that by blast
  ultimately show ?thesis by (intro conjI allI impI) (assumption | rule later)+
qed

section \<open>Answers\<close>

text \<open>
  C14 What a client is told. A request is handled at node \<open>i\<close> of a running cluster, and everything its wait observes is progress
  that the node publishes after the proposal. If the answer is committed or vetoed, then either the ledger has the outcome of this very
  sequence id on record and the answer repeats it, or the mutation this request's own pipeline prepared, with the answered status, was
  appended at the index the answer names, in the node's term, and the wait ended on a published state in which the node leads with that
  index committed. If that state is still of the term of the proposal, the committed entry at the index is this request's entry, and
  every node, at every later time, that has committed the index holds it. If the node lost and regained the leadership between two
  observations, the code does not compare terms and answers all the same; the entry at the index is then this request's if
  it is still of the term of the proposal, and nothing is promised if it is of another term.
\<close>
theorem ingress_answers:
  assumes "repl_reachable ms ids s" "i \<in> set ms"
    and "handle_propose_mutation D config c encode ob req (node_world s i) = (Inr (Inr resp), w')"
    and "pr_status resp \<noteq> mutation_status_int MRejected" "fsm_ready (mo_session_fsm ob)"
    and "\<forall>p \<in> set (mo_progress ob # mo_changes ob). \<exists>s'. publishes ms ids i (put_node i w' s) p s'"
  shows "\<exists>client. parse_uuid c (pm_client_id req) = Some client \<and>
    ((\<exists>rec. v_sessions (fsm_abs (mo_session_fsm ob)) client = Some rec \<and> sr_last_sequence_id rec = pm_sequence_id req
        \<and> resp = cached_response rec \<and> w' = node_world s i)
     \<or> (\<exists>p e progress. prepare_proposal D config ob client req (mo_authority ob) = Inr p
        \<and> pr_status resp = mutation_status_int (proto_status (mp_status p))
        \<and> e = new_log_entry (pr_state_version resp) (disk_term (disks (core s) i)) (encode (mutation_of_proposal p (mo_now ob)))
        \<and> node_entry (put_node i w' s) i (pr_state_version resp) = Some e
        \<and> progress \<in> set (mo_progress ob # mo_changes ob) \<and> p_role progress = RLeader
        \<and> pr_state_version resp \<le> p_last_committed progress
        \<and> (\<forall>s2. publishes ms ids i (put_node i w' s) progress s2 \<longrightarrow>
             (p_term progress = disk_term (disks (core s) i) \<longrightarrow> node_entry s2 i (pr_state_version resp) = Some e)
             \<and> (\<forall>x. node_entry s2 i (pr_state_version resp) = Some x \<and> e_term x = disk_term (disks (core s) i) \<longrightarrow> x = e)
             \<and> (node_entry s2 i (pr_state_version resp) = Some e \<longrightarrow>
                  (\<forall>s3 j. repl_steps ms ids s2 s3 \<and> j \<in> set ms \<and> pr_state_version resp \<le> committed_upto s3 j \<longrightarrow>
                     node_entry s3 j (pr_state_version resp) = Some e)))))"
proof -
  let ?k = "pr_state_version resp" and ?s1 = "put_node i w' s" and ?t = "disk_term (disks (core s) i)"
  from ingress_answer_cases[OF assms(3-5)] obtain client where client: "parse_uuid c (pm_client_id req) = Some client"
    and cases: "(\<exists>rec. v_sessions (fsm_abs (mo_session_fsm ob)) client = Some rec \<and> sr_last_sequence_id rec = pm_sequence_id req
        \<and> resp = cached_response rec \<and> w' = node_world s i)
     \<or> (\<exists>p. prepare_proposal D config ob client req (mo_authority ob) = Inr p
        \<and> pr_status resp = mutation_status_int (proto_status (mp_status p))
        \<and> handle_propose (encode (mutation_of_proposal p (mo_now ob))) (node_world s i) = (Inr (Inr ?k), w')
        \<and> (\<exists>progress \<in> set (mo_progress ob # mo_changes ob). p_role progress = RLeader \<and> ?k \<le> p_last_committed progress))"
    by blast
  from cases show ?thesis
  proof
    assume "\<exists>p. prepare_proposal D config ob client req (mo_authority ob) = Inr p
        \<and> pr_status resp = mutation_status_int (proto_status (mp_status p))
        \<and> handle_propose (encode (mutation_of_proposal p (mo_now ob))) (node_world s i) = (Inr (Inr ?k), w')
        \<and> (\<exists>progress \<in> set (mo_progress ob # mo_changes ob). p_role progress = RLeader \<and> ?k \<le> p_last_committed progress)"
    then obtain p progress where p: "prepare_proposal D config ob client req (mo_authority ob) = Inr p"
        "pr_status resp = mutation_status_int (proto_status (mp_status p))"
      and call: "handle_propose (encode (mutation_of_proposal p (mo_now ob))) (node_world s i) = (Inr (Inr ?k), w')"
      and pr: "progress \<in> set (mo_progress ob # mo_changes ob)" "p_role progress = RLeader" "?k \<le> p_last_committed progress" by blast
    define e where "e = new_log_entry ?k ?t (encode (mutation_of_proposal p (mo_now ob)))"
    have first: "node_entry ?s1 i ?k = Some e" using proposal_kept(3)[OF assms(1,2) call repl_steps.stay e_def] .
    note facts = conjI[OF p(1) conjI[OF p(2) conjI[OF e_def conjI[OF first conjI[OF pr(1) conjI[OF pr(2) conjI[OF pr(3)]]]]]]]
    show ?thesis
      by (rule exI[of _ client], rule conjI[OF client], rule disjI2, rule exI[of _ p], rule exI[of _ e], rule exI[of _ progress])
        (rule facts, intro allI impI, rule answered_entry[OF assms(1,2) call e_def _ pr(2,3)])
  qed (use client in blast)
qed

section \<open>A run\<close>

text \<open>
  The request of \<open>Ingress_Properties\<close> at the freshly elected leader of the sample cluster: it proposes at index 1, waits, sees
  its own commit index at 0 and then, after the round with node 2, at 1.
\<close>

definition seen_before :: consensus_progress where
  "seen_before = \<lparr>p_term = 1, p_role = RLeader, p_last_log_index = 1, p_last_committed = 0, p_last_applied = 0, leader_hint = Some 1,
     p_confirmed_read_epoch = 0\<rparr>"

definition seen_after :: consensus_progress where
  "seen_after = \<lparr>p_term = 1, p_role = RLeader, p_last_log_index = 1, p_last_committed = 1, p_last_applied = 0, leader_hint = Some 1,
     p_confirmed_read_epoch = 1\<rparr>"

definition run_obs :: mutation_obs where
  "run_obs = (sample_obs empty_fsm)\<lparr>mo_progress := seen_before, mo_changes := [seen_after]\<rparr>"

lemma run_published:
  "publishes members demo_ids 1 run4 seen_before run4" "publishes members demo_ids 1 run4 seen_after run8"
proof -
  have "try_consensus_progress (node_world run4 1) = Inr seen_before"
    by (simp add: run4_def try_consensus_progress_def role_progress_def run_eval read_eval seen_before_def valid_small)
  then show "publishes members demo_ids 1 run4 seen_before run4" by (simp add: publishes_def repl_steps.stay)
  have "try_consensus_progress (node_world run8 1) = Inr seen_after"
    by (simp add: run8_def try_consensus_progress_def role_progress_def run_eval read_eval seen_after_def valid_small)
  moreover have "repl_steps members demo_ids run4 run8"
    by (rule repl_steps.extend[OF repl_steps.extend[OF repl_steps.extend[OF repl_steps.extend[OF repl_steps.stay run_step5]
          run_step6] run_step7] run_step8])
  ultimately show "publishes members demo_ids 1 run4 seen_after run8" by (simp add: publishes_def)
qed

lemma run_handle:
  "handle_propose_mutation whole_numbers sample_config sample_codec (\<lambda>_. []) run_obs (sample_request ''c1'' ''3'') (node_world run3 1)
     = (Inr (Inr (build_mutation_response 1 PCommitted [])), leader_world 1 0 0 0 {} 0 store1)"
proof -
  have fw: "enforce_sequence_firewall (\<lambda>k q. check_session k q empty_fsm) ''c1'' 1 = Inr None"
    using ledger.firewall_passes_iff[OF empty_fsm_ready] by (simp add: latest_def fsm_abs_def empty_fsm_def tree_get_def)
  have prop1: "handle_propose [] (node_world run3 1) = (Inr (Inr 1), leader_world 1 0 0 0 {} 0 store1)"
    using proposed unfolding run3_worlds(1) by (simp add: handle_propose_def st_bind_def)
  have wait: "await_commit 1 False seen_before [seen_after] = Some (Inr ())"
    by (simp add: await_commit.simps seen_before_def seen_after_def)
  have p: "prepare_proposal whole_numbers sample_config run_obs ''c1'' (sample_request ''c1'' ''3'') sample_authority
      = Inr (sample_proposal ''c1'' ''3'' ''3'')"
    using sample_prepare_empty[of "''c1''"] by (simp add: prepare_proposal_def run_obs_def)
  have ob: "mo_authority run_obs = sample_authority" "mo_session_fsm run_obs = empty_fsm"
    "mo_fresh run_obs = sample_authority" "mo_progress run_obs = seen_before" "mo_closed run_obs = False" "mo_changes run_obs = [seen_after]"
    by (simp_all add: run_obs_def sample_obs_def)
  have "authorize_mutation sample_authority = Authorized sample_authority" "is_leader sample_authority"
    by (simp_all add: authorize_mutation_def authorize_def sample_authority_def)
  moreover have "pm_client_id (sample_request ''c1'' ''3'') = ''c1''" "pm_sequence_id (sample_request ''c1'' ''3'') = 1"
    "parse_uuid sample_codec ''c1'' = Some ''c1''"
    by (simp_all add: sample_codec_def sample_request_def new_propose_mutation_request_def)
  moreover have "mp_status (sample_proposal ''c1'' ''3'' ''3'') = PCommitted"
    "st_moral_justification (mp_stabilized (sample_proposal ''c1'' ''3'' ''3'')) = []"
    by (simp_all add: sample_proposal_def sample_stabilized_def)
  ultimately show ?thesis
    using fw prop1 wait
    by (simp add: handle_propose_mutation_def sequenced_mutation_def p ob commit_to_consensus_def st_bind_def st_return_def del: One_nat_def)
qed

text \<open>The leader holds the request's entry when the wait ends, and so does node 2 when it learns of the commit.\<close>
theorem ingress_answers_witness:
  "handle_propose_mutation whole_numbers sample_config sample_codec (\<lambda>_. []) run_obs (sample_request ''c1'' ''3'') (node_world run3 1)
     = (Inr (Inr (build_mutation_response 1 PCommitted [])), leader_world 1 0 0 0 {} 0 store1)
   \<and> node_entry run8 1 1 = Some (new_log_entry 1 1 []) \<and> node_entry run11 2 1 = Some (new_log_entry 1 1 [])"
proof -
  let ?resp = "build_mutation_response 1 PCommitted []"
  have resp: "pr_status ?resp \<noteq> mutation_status_int MRejected" "pr_state_version ?resp = 1" by (simp_all add: build_mutation_response_def)
  have s1: "put_node 1 (leader_world 1 0 0 0 {} 0 store1) run3 = run4" by (simp add: run4_def)
  have ob: "fsm_ready (mo_session_fsm run_obs)" "set (mo_progress run_obs # mo_changes run_obs) = {seen_before, seen_after}"
    "v_sessions (fsm_abs (mo_session_fsm run_obs)) ''c1'' = None"
    using empty_fsm_ready by (simp_all add: run_obs_def sample_obs_def fsm_abs_def empty_fsm_def tree_get_def)
  have one: "1 \<in> set members" "2 \<in> set members" by simp_all
  have c: "parse_uuid sample_codec (pm_client_id (sample_request ''c1'' ''3'')) = Some ''c1''"
    by (simp add: sample_codec_def sample_request_def new_propose_mutation_request_def)
  have t: "disk_term (disks (core run3) 1) = 1"
    using run3_worlds(1) by (simp add: node_world_def world_of_def leader_world_def run_store_def disk_term_def deserialize_hard_state_def
        serialize_hard_state_def new_hard_state_def valid_small)
  have pub: "\<forall>p \<in> set (mo_progress run_obs # mo_changes run_obs). \<exists>s'. publishes members demo_ids 1 (put_node 1 (leader_world 1 0 0 0 {} 0 store1) run3) p s'"
    unfolding ob(2) s1 using run_published by blast
  have low: "\<not> 1 \<le> p_last_committed seen_before" "p_term seen_after = 1" by (simp_all add: seen_before_def seen_after_def)
  from ingress_answers[OF run_reach3 one(1) run_handle resp(1) ob(1) pub]
  obtain e where e: "e = new_log_entry 1 1 []"
    "\<And>s2. publishes members demo_ids 1 run4 seen_after s2 \<Longrightarrow> node_entry s2 1 1 = Some e
       \<and> (\<forall>s3 j. repl_steps members demo_ids s2 s3 \<and> j \<in> set members \<and> 1 \<le> committed_upto s3 j \<longrightarrow> node_entry s3 j 1 = Some e)"
    unfolding resp(2) s1 ob(2) t c using ob(3) low by auto
  show ?thesis using e(2)[OF run_published(2)] run_steps11 one(2) run11_nodes(5) run_handle e(1) by auto
qed

end
