(* ===== verification/Spec2Isabelle.thy ===== *)
theory Spec2Isabelle
  imports Replicas Task_Coverage Tick_Loop Leader_Properties Storage_Properties Memory_Storage Node_Boot Identifiers Schedules Repl Policy Client_Answers
begin

text \<open>
  A verification development of Lact-O-Sensus, a replicated grocery ledger written in Rust (\<open>crates/\<close>).

  \<^bold>\<open>The program.\<close> A client (\<open>client-cli\<close>) turns command lines into mutation intents, gives each a sequence id,
  logs it locally and sends it to a node. The node's gateway (\<open>gateway\<close>) checks that the node leads, compares the
  sequence id with the session table, scrubs the intent, asks a policy service (\<open>ai-veto\<close> or \<open>mock-veto\<close>) what it means,
  converts quantities to base units (\<open>common/units.rs\<close>) and proposes one entry. The Raft engine (\<open>raft-engine\<close>)
  replicates entries: a role-typed node over a log store, its RPC handlers, elections with pre-votes, replication,
  a logical clock, snapshots and recovery. Committed entries go to the state machine (\<open>lacto-fsm\<close>), which keeps
  inventory, sessions and metadata in three trees. Header guards (\<open>common-rpc\<close>) keep calls of other clusters out.

  \<^bold>\<open>How the code is represented.\<close>

  \<^item> A Rust \<open>Result\<close> is a sum with the error on the left. A function that mutates is a procedure from a state to
    a result and a new state, so what an early return or an error leaves behind is part of the model. A panic is an
    error value, and the handlers poison the node with it as \<open>delegate_to_inner!\<close> and the guards do.
  \<^item> Checked 64-bit integers are natural numbers with the bound written out where the code checks it; ticks and read
    epochs are 64-bit words, the freeze depth a 32-bit word, because the code lets those wrap or tests them.
  \<^item> A database engine call can fail: storage and state machine carry one failure choice per call site, the client one
    outcome per file write. The theorems quantify over all of them unless they say that the store is healthy. A crash
    keeps what the trees hold; a failed batch leaves the old or the new content.
  \<^item> A locked section is atomic, sections interleave: \<open>Cluster\<close> runs the sections of all nodes in any order and
    delivers, repeats, reorders and loses messages; \<open>Replication\<close> adds the replication rounds, their requests and answers,
    the applier, restarts and storage failures between any two sections. In the gateway, what one task sees of the others (authority,
    progress, the state machine at each read, the oracle's answers, the time) is an observation, an arbitrary argument.
  \<^item> Third-party code is a parameter: the tree engine's contract is the locale \<open>ordered_tree\<close>, protobuf and UUID parsing
    are \<open>fsm_codec\<close>, \<open>rust_decimal\<close> is \<open>decimal_ops\<close> with the laws \<open>decimal_text\<close>, header values are \<open>wire_text\<close>, and
    random draws, word splitting, network answers, the language model and its JSON parser are function arguments.
    Strings are lists of UTF-8 bytes; letter case and white space are those of ASCII. Error messages are kept up to
    interpolated values. The client's floating-point jitter is computed on rationals.

  \<^bold>\<open>The theories.\<close>

  \<^enum> \<open>Prelude\<close>: results, state procedures, big-endian bytes, and \<open>run_preorder\<close>, the locale of relations that every
    step of a procedure keeps; its interpretations carry the frame proofs. \<open>Sled_Tree\<close>: ordered trees and their locale.
    \<open>Types\<close>: \<open>common/src/types\<close> and the protobuf messages. \<open>Text_Ops\<close>: the used part of Rust's \<open>str\<close>.
  \<^enum> \<open>Log_Storage\<close>: \<open>storage.rs\<close>. \<open>Tick_Config\<close>: \<open>tick.rs\<close> and \<open>config.rs\<close>. \<open>Raft_Node\<close>: \<open>node/*.rs\<close>, a
    record per role. \<open>Reconciliation\<close>: what the follower's log reconciliation computes on a healthy store.
    \<open>Engine\<close>: \<open>engine.rs\<close>, every handler. \<open>Engine_Invariants\<close>: what each handler keeps whatever fails.
  \<^enum> \<open>Consensus\<close>: the locked sections of \<open>consensus/\<close>. \<open>Raft_Service\<close>: \<open>service/consensus.rs\<close>. \<open>Shell\<close>:
    \<open>shell.rs\<close>. \<open>Raft_Handle\<close>: \<open>service/handle.rs\<close>, \<open>consensus_api.rs\<close> and the quorum read. \<open>Rpc_Guard\<close>: \<open>common-rpc\<close>, the
    peer manager's headers, \<open>identity.rs\<close> and the server's interceptor chains. \<open>Orchestration\<close>: \<open>orchestration.rs\<close>, \<open>recovery.rs\<close>,
    compaction, over the locale \<open>state_machine\<close>, interpreted on the state machine's own operations.
  \<^enum> \<open>Raft_Spec\<close>: the replicated log as an abstract transition system (terms, votes, logs, leaders, the log of each term, chosen
    prefixes) with its safety invariant. \<open>Quorums\<close>: majorities. \<open>Replication\<close>: the cluster with log replication as a step relation over the
    sections above. \<open>Log_View\<close>: a store's log as a list and what reconciliation does to it. \<open>Calm_Sections\<close> and \<open>Section_Effects\<close>: what each
    section changes of term, vote, log, role and commit index, whatever fails. \<open>Raft_Refinement\<close>: the simulation
    relation and its preservation node by node. \<open>Raft_Safety\<close>: the theorems on the cluster; \<open>Replication_Run\<close>: a run of three nodes that
    instantiates them. \<open>Replicas\<close>: log, applier and state machine together.
  \<^enum> \<open>Tasks\<close>: the asynchronous functions of \<open>consensus/\<close> (campaigns, pre-votes, rounds, heartbeats, snapshot serialization) as resumptions: a
    task is done, holds a lock, or waits for an answer. \<open>Task_Coverage\<close>: their sections are steps of the cluster. \<open>Undisturbed\<close>: what a
    task achieves when it runs alone. \<open>Snapshot_Transfer\<close>: \<open>install_snapshot\<close> of the service and the orchestration with its background
    task, and the compaction task. \<open>Tick_Loop\<close>: a turn of the tick loop with the tasks it launches, a turn of the background applier. \<open>Memory_Storage\<close>: the in-memory storage of \<open>storage.rs\<close>. \<open>Node_Boot\<close>: the start of a node,
    \<open>node-server/src/main.rs\<close>. \<open>Identifiers\<close>: client and trace ids.
  \<^enum> \<open>Lacto_FSM\<close>: \<open>lacto-fsm/src/lib.rs\<close>. \<open>Taxonomy\<close>: \<open>taxonomy.rs\<close> and \<open>slug.rs\<close>. \<open>Units\<close>: \<open>units.rs\<close>.
    \<open>Gateway\<close>: \<open>veto.rs\<close> and \<open>ingress/*.rs\<close>, a section per file.
  \<^enum> \<open>Client\<close>: \<open>state.rs\<close>, \<open>wal.rs\<close>, \<open>client.rs\<close> and the start-up recovery of \<open>main.rs\<close>. \<open>Repl\<close>: \<open>repl.rs\<close>.
    \<open>Policy\<close>: \<open>ai-veto/src/service.rs\<close>, \<open>model.rs\<close> and \<open>mock-veto/src/main.rs\<close>.

  \<^bold>\<open>What is shown.\<close>

  \<^item> Replication. \<open>Raft_Safety\<close>: every reachable cluster refines \<open>Raft_Spec\<close>; Log Matching, Leader Completeness and State
    Machine Safety, across time, as consequences: an entry below a node's commit index never changes, so the applier may read it
    outside the lock. Rounds keep the term they started in and are not re-checked by the code; the refinement shows that their
    requests are harmless. \<open>Replicas\<close>: two nodes' appliers lead equal state machines to equal states. \<open>Task_Coverage\<close>: whatever the
    network answers, an election or replication task does to its node only what steps of the cluster do, so the theorems hold of the code's own
    loops. \<open>Undisturbed\<close>: a campaign ends as leader exactly with a majority of distinct voters, and the elected leader's next
    proposal commits in the first round a majority answers. \<open>Tick_Loop\<close>: the first tick past an election timeout launches the campaign
    that, granted, makes the node the leader of the next term; the applier's turn catches up with the commit index.
  \<^item> Snapshots and start. \<open>Snapshot_Transfer\<close>: a snapshot arrives whole, a late one heals, a compaction cycle keeps the content.
    \<open>Memory_Storage\<close>: the two storages give the same answers. \<open>Node_Boot\<close>: a boot comes back where the log left the node,
    and is the restart step of the cluster.
  \<^item> Raft. \<open>Cluster\<close>: election safety and one vote per term in every reachable state of a cluster, by rule induction,
    with the majority system as an interpreted locale. \<open>Node_Properties\<close>: a panicking handler poisons, poison is final.
    \<open>Handler_Properties\<close>: votes, pre-votes, AppendEntries and proposals branch by branch. \<open>Leader_Properties\<close>: the
    commit rule, the match indices, and the exchange of a round with one peer. \<open>Clock_Properties\<close>: timers. \<open>Storage_Properties\<close>: round trips, truncation and compaction of
    the log. \<open>Shell\<close>: freeze depth, and that a guard publishes the node's progress. \<open>Raft_Handle\<close>: a read needs a
    majority of fresh answers before a demotion. \<open>Rpc_Guard\<close>: a call passes exactly at its addressee, under the trace id its sender injected.
  \<^item> State machine. \<open>FSM_Properties\<close>: \<open>fsm_apply\<close> refines \<open>spec_apply\<close>, a store of sessions and items on maps; duplicates
    take effect once, whatever lies between them; snapshots restore what they were taken from, and an interrupted installation reopens to the old, the new or
    the empty content. \<open>Orchestration\<close>: applier and cold boot feed it exactly the committed entries, and the boot stops at the first one
    that is missing.
  \<^item> Gateway and state machine together. \<open>Gateway_Properties\<close>: the firewall passes exactly the ids that applying accepts next (locale
    \<open>session_table\<close>), and screened entries always apply; what the stabilizer accepts. \<open>Ingress_Properties\<close>: a request appends
    at most the one entry its own pipeline prepared, and the inventory stays physical. \<open>Client_Answers\<close>: the gateway on the cluster; what
    a client is told is committed is its own entry, on every node from then on, as long as the term of the proposal lasts.
  \<^item> Client. \<open>Client_Properties\<close>: requests end, intents are logged before they are sent. \<open>Client_Sessions\<close>: over any history of
    operations, failed writes and restarts (\<open>client_reach\<close>) files stay consistent and no sequence id is used twice; recovery in
    order; the back-off is bounded. \<open>Repl\<close>: what is typed is what is proposed. \<open>Policy\<close>: the gateway can use the
    service's answers.
  \<^item> Weaknesses, proved on the model: a stale last term after a snapshot, a snapshot installation whose interruption stops
    every boot, a replication retry that never progresses, a late answer that poisons a healthy node
    (\<open>Orchestration\<close>, \<open>Leader_Properties\<close>); a snapshot installed behind the applier (\<open>Snapshot_Transfer\<close>), a purged restoration that
    no boot survives (\<open>Node_Boot\<close>), an append the in-memory storage refuses (\<open>Memory_Storage\<close>); a lost update, a subtraction that creates stock, a query that is not tied to the log
    (\<open>Schedules\<close>); a refused request that locks its client out, an unreachable first node (\<open>Client_Sessions\<close>); examples of
    the prompt that the service refuses or ignores (\<open>Policy\<close>).

  \<^bold>\<open>Loops and bounds.\<close> Recursion is structural or carries a measure. \<open>apply_loop\<close> takes the distance between
    applied and commit index as fuel, which \<open>apply_committed_replays\<close> shows to be enough. The client's retry loop counts down from the
    number of known nodes plus ten, as the code does. Waiting for progress (\<open>await_commit\<close>, \<open>await_apply\<close>, \<open>await_read_quorum\<close>) recurses over
    the list of observed changes, and running out of it is a timeout or a closed channel. A task is a finite resumption: \<open>alone\<close> recurses on it, so
  every task ends once its calls do, and \<open>run_sections\<close> counts the sections it runs.

  \<^bold>\<open>Not modelled.\<close> Snapshots inside \<open>Replication\<close>: its nodes neither compact nor install (with them the log theorems fail, see
    \<open>stale_last_term\<close>); \<open>Snapshot_Transfer\<close> has them between two nodes. A permit whose task panics is not released in the model. Left out as
    input/output around the logic: opening of gRPC channels and the server loop; sleeping, spawn handles, logging and telemetry;
    reading of configuration files and arguments; the flush at shutdown; HTTP calls to the language model; join errors of
    blocking tasks. Outside \<open>Identifiers\<close> client and trace ids are their text or number; the protobuf encoding is generated
    code; message factories that only fill a record are the record.
\<close>

end
